(* ===== verification/Prelude.thy ===== *)
theory Prelude
  imports Main "HOL-Library.Word"
begin

unbundle bit_operations_syntax

text \<open>
  Shared vocabulary of the development: the byte and integer types, the result type of
  operations that can fail, loops that stop at the first failure, and little-endian reading.

  The unsigned integers of the program are kept in one of two ways. Where the code relies on
  wrap-around (hashes, relocation arithmetic) they are \<open>w word\<close> values. Where the code widens
  to 64 bits before it adds and then compares, they are natural numbers, every narrowing cast
  is written out (\<open>to_u16\<close>, \<open>to_u32\<close>), and theorems bound the values by their widths.
\<close>

type_synonym byte = "8 word"
type_synonym bytes = "8 word list"
type_synonym u8 = nat
type_synonym u16 = nat
type_synonym u32 = nat
type_synonym u64 = nat

named_theorems eval_simps \<open>equations that evaluate the model on closed inputs\<close>
named_theorems range_simps \<open>bounds of values read from bytes\<close>

abbreviation u8_max :: nat where "u8_max \<equiv> 0xFF"
abbreviation u16_max :: nat where "u16_max \<equiv> 0xFFFF"
abbreviation u32_max :: nat where "u32_max \<equiv> 0xFFFFFFFF"
abbreviation u64_max :: nat where "u64_max \<equiv> 0xFFFFFFFFFFFFFFFF"

definition to_u8 :: "nat \<Rightarrow> u8" where
  "to_u8 n = n mod 2 ^ 8"

definition to_u16 :: "nat \<Rightarrow> u16" where
  "to_u16 n = n mod 2 ^ 16"

definition to_u32 :: "nat \<Rightarrow> u32" where
  "to_u32 n = n mod 2 ^ 32"

lemma to_u8_le [range_simps]: "to_u8 n \<le> u8_max"
  using mod_less_divisor [of "2 ^ 8" n] by (simp add: to_u8_def)

lemma to_u16_le [range_simps]: "to_u16 n \<le> u16_max"
  using mod_less_divisor [of "2 ^ 16" n] by (simp add: to_u16_def)

lemma to_u32_le [range_simps]: "to_u32 n \<le> u32_max"
  using mod_less_divisor [of "2 ^ 32" n] by (simp add: to_u32_def)

lemma to_u8_id [simp]: "n \<le> u8_max \<Longrightarrow> to_u8 n = n"
  by (simp add: to_u8_def)

lemma to_u16_id [simp]: "n \<le> u16_max \<Longrightarrow> to_u16 n = n"
  by (simp add: to_u16_def)

lemma to_u32_id [simp]: "n \<le> u32_max \<Longrightarrow> to_u32 n = n"
  by (simp add: to_u32_def)

subsection \<open>Masks and shifts on natural numbers\<close>

lemma nat_and_le2: "(a AND b :: nat) \<le> b"
proof -
  have "int (a AND b) \<le> int b"
    by (simp add: and_nat_def AND_upper2)
  then show ?thesis by (simp only: of_nat_le_iff)
qed

lemma nat_and_le1: "(a AND b :: nat) \<le> a"
  using nat_and_le2 [of b a] by (simp add: and.commute)

lemma nat_and_bound: "b < c \<Longrightarrow> (a AND b :: nat) < c"
  by (rule le_less_trans [OF nat_and_le2])

lemma or_shift_eq_add:
  assumes "a < 2 ^ n"
  shows "(a OR push_bit n b :: nat) = a + push_bit n b"
proof -
  have "\<not> bit a i \<or> \<not> bit (push_bit n b) i" for i
  proof (cases "i < n")
    case True
    then show ?thesis by (simp add: bit_push_bit_iff_nat)
  next
    case False
    from assms have "a < 2 ^ i"
      by (rule less_le_trans) (use False in simp)
    then have "\<not> bit a i" by (simp add: bit_iff_odd)
    then show ?thesis by simp
  qed
  then show ?thesis by (simp add: disjunctive_add)
qed

subsection \<open>Results and loops that stop at the first error\<close>

text \<open>
  \<open>Inl\<close> carries the error of an early \<open>return fail(...)\<close>, \<open>Inr\<close> the value of the normal path.
  \<open>foldE\<close> is a counted \<open>for\<close> loop over a state whose body may return early.
\<close>

fun foldE :: "('i \<Rightarrow> 's \<Rightarrow> 'e + 's) \<Rightarrow> 'i list \<Rightarrow> 's \<Rightarrow> 'e + 's" where
  "foldE f [] s = Inr s"
| "foldE f (i # is) s = (case f i s of Inl e \<Rightarrow> Inl e | Inr s' \<Rightarrow> foldE f is s')"

lemma foldE_append [simp]:
  "foldE f (xs @ ys) s = (case foldE f xs s of Inl e \<Rightarrow> Inl e | Inr s' \<Rightarrow> foldE f ys s')"
  by (induction xs arbitrary: s) (auto split: sum.splits)

text \<open>The loop rule: an invariant over the part of the list already done.\<close>

lemma foldE_invariant:
  assumes "foldE f xs s = Inr t"
    and "P [] s"
    and "\<And>ys x s s'. \<lbrakk>P ys s; x \<in> set xs; f x s = Inr s'\<rbrakk> \<Longrightarrow> P (ys @ [x]) s'"
  shows "P xs t"
  using assms
proof (induction xs arbitrary: t rule: rev_induct)
  case Nil
  then show ?case by simp
next
  case (snoc x xs)
  from snoc.prems(1) obtain s' where s': "foldE f xs s = Inr s'" and x: "f x s' = Inr t"
    by (auto split: sum.splits)
  have "P xs s'"
    by (rule snoc.IH [OF s' snoc.prems(2)]) (use snoc.prems(3) in auto)
  then show ?case by (rule snoc.prems(3)) (use x in auto)
qed

lemma foldE_preserves:
  assumes "foldE f xs s = Inr t"
    and "P s"
    and "\<And>x s s'. \<lbrakk>P s; x \<in> set xs; f x s = Inr s'\<rbrakk> \<Longrightarrow> P s'"
  shows "P t"
  using foldE_invariant [OF assms(1), of "\<lambda>_. P"] assms(2,3) by blast

text \<open>Counted loops over \<open>[0..<n]\<close>, with an invariant on the loop counter.\<close>

lemma foldE_upt_invariant:
  assumes "foldE f [0..<n] s = Inr t"
    and "P 0 s"
    and "\<And>i s s'. \<lbrakk>i < n; P i s; f i s = Inr s'\<rbrakk> \<Longrightarrow> P (Suc i) s'"
  shows "P n t"
  using assms
proof (induction n arbitrary: t)
  case 0
  then show ?case by simp
next
  case (Suc n)
  from Suc.prems(1) obtain s' where s': "foldE f [0..<n] s = Inr s'" and n: "f n s' = Inr t"
    by (auto split: sum.splits)
  have "P n s'"
    by (rule Suc.IH [OF s' Suc.prems(2)]) (use Suc.prems(3) in auto)
  then show ?case by (rule Suc.prems(3) [rotated]) (use n in auto)
qed

subsection \<open>Searching lists\<close>

lemma find_some_sound: "find P xs = Some x \<Longrightarrow> x \<in> set xs \<and> P x"
  by (induction xs) (auto split: if_splits)

subsection \<open>Little-endian reading\<close>

definition byte_at :: "bytes \<Rightarrow> nat \<Rightarrow> nat" where
  "byte_at bs off = unat (bs ! off)"

definition has_range :: "bytes \<Rightarrow> nat \<Rightarrow> nat \<Rightarrow> bool" where
  "has_range bs off len \<longleftrightarrow> off \<le> length bs \<and> len \<le> length bs - off"

lemma has_range_iff: "has_range bs off len \<longleftrightarrow> off + len \<le> length bs"
  by (auto simp: has_range_def)

lemma byte_at_less: "byte_at bs off < 2 ^ 8"
  unfolding byte_at_def by (rule order_less_le_trans [OF unsigned_less]) simp

lemma byte_at_le [range_simps]: "byte_at bs off \<le> u8_max"
  using byte_at_less [of bs off] by simp

definition le16 :: "bytes \<Rightarrow> nat \<Rightarrow> u16" where
  "le16 bs off = byte_at bs off OR push_bit 8 (byte_at bs (off + 1))"

definition le32 :: "bytes \<Rightarrow> nat \<Rightarrow> u32" where
  "le32 bs off = byte_at bs off OR push_bit 8 (byte_at bs (off + 1)) OR
     push_bit 16 (byte_at bs (off + 2)) OR push_bit 24 (byte_at bs (off + 3))"

definition le64 :: "bytes \<Rightarrow> nat \<Rightarrow> u64" where
  "le64 bs off = byte_at bs off OR push_bit 8 (byte_at bs (off + 1)) OR
     push_bit 16 (byte_at bs (off + 2)) OR push_bit 24 (byte_at bs (off + 3)) OR
     push_bit 32 (byte_at bs (off + 4)) OR push_bit 40 (byte_at bs (off + 5)) OR
     push_bit 48 (byte_at bs (off + 6)) OR push_bit 56 (byte_at bs (off + 7))"

lemma or_nat_less: "(a::nat) < 2 ^ n \<Longrightarrow> b < 2 ^ n \<Longrightarrow> a OR b < 2 ^ n"
  by (metis take_bit_nat_eq_self_iff take_bit_or)

lemma push_bit_byte_less:
  assumes "k + 8 \<le> n"
  shows "push_bit k (byte_at bs off) < 2 ^ n"
proof -
  have "push_bit k (byte_at bs off) < 2 ^ (k + 8)"
    using byte_at_less [of bs off] by (simp add: push_bit_nat_def power_add)
  also have "\<dots> \<le> 2 ^ n" using assms by (intro power_increasing) auto
  finally show ?thesis .
qed

lemma byte_at_less_pow: "8 \<le> n \<Longrightarrow> byte_at bs off < 2 ^ n"
  using push_bit_byte_less [of 0 n] by simp

lemma le16_less: "le16 bs off < 2 ^ 16"
  unfolding le16_def by (intro or_nat_less push_bit_byte_less byte_at_less_pow) auto

lemma le32_less: "le32 bs off < 2 ^ 32"
  unfolding le32_def by (intro or_nat_less push_bit_byte_less byte_at_less_pow) auto

lemma le64_less: "le64 bs off < 2 ^ 64"
  unfolding le64_def by (intro or_nat_less push_bit_byte_less byte_at_less_pow) auto

lemma le16_le [range_simps]: "le16 bs off \<le> u16_max"
  using le16_less [of bs off] by simp

lemma le32_le [range_simps]: "le32 bs off \<le> u32_max"
  using le32_less [of bs off] by simp

lemma le64_le [range_simps]: "le64 bs off \<le> u64_max"
  using le64_less [of bs off] by simp

subsection \<open>Bytes as characters\<close>

definition chars_of :: "bytes \<Rightarrow> string" where
  "chars_of bs = map (\<lambda>b. char_of (unat b)) bs"

lemma length_chars_of [simp]: "length (chars_of bs) = length bs"
  by (simp add: chars_of_def)

lemma chars_of_Nil [simp]: "chars_of bs = [] \<longleftrightarrow> bs = []"
  by (simp add: chars_of_def)

end
