(* ===== verification/Pe_Model.thy ===== *)
theory Pe_Model
  imports Prelude
begin

text \<open>
  The data of the PE reader: \<open>include/tradutorlinux/pe/pe_reader.hpp\<close> and the constants of
  \<open>src/pe/pe_reader.cpp\<close>, the structures as records and the enumerations as datatypes. The
  reader is about bytes of a file, a \<open>std::span\<close>, whose length is below \<open>2 ^ 63\<close>; offsets
  (\<open>std::size_t\<close>) and the 64-bit sums of 32-bit fields never wrap and are natural numbers.
  Strings of the file (\<open>std::string\<close>) are lists of 8-bit characters.

  The text of an error message is represented by a constructor of \<open>parse_error\<close>, one for every
  \<open>return fail(...)\<close> of the source, with the values the message prints.
\<close>

subsection \<open>Constants\<close>

definition kDosHeaderSize :: nat where "kDosHeaderSize = 64"
definition kPeSignatureOffset :: nat where "kPeSignatureOffset = 4"
definition kCoffHeaderSize :: nat where "kCoffHeaderSize = 20"
definition kSectionHeaderSize :: nat where "kSectionHeaderSize = 40"
definition kOptionalHeader64BaseSize :: nat where "kOptionalHeader64BaseSize = 112"
definition kDataDirectoryCount :: nat where "kDataDirectoryCount = 16"
definition kDataDirectoryEntrySize :: nat where "kDataDirectoryEntrySize = 8"
definition kImportDescriptorSize :: nat where "kImportDescriptorSize = 20"
definition kDelayImportDescriptorSize :: nat where "kDelayImportDescriptorSize = 32"
definition kRuntimeFunctionSize :: nat where "kRuntimeFunctionSize = 12"
definition kUnwindInfoHeaderSize :: nat where "kUnwindInfoHeaderSize = 4"
definition kUnwindCodeSize :: nat where "kUnwindCodeSize = 2"
definition kThunkEntrySize :: nat where "kThunkEntrySize = 8"
definition kBaseRelocBlockHeaderSize :: nat where "kBaseRelocBlockHeaderSize = 8"
definition kBaseRelocEntrySize :: nat where "kBaseRelocEntrySize = 2"
definition kImportByNameHintSize :: nat where "kImportByNameHintSize = 2"
definition kExportDirectorySize :: nat where "kExportDirectorySize = 40"
definition kDosMagic :: u16 where "kDosMagic = 0x5A4D"
definition kPeSignature :: u32 where "kPeSignature = 0x00004550"
definition kMachineAmd64 :: u16 where "kMachineAmd64 = 0x8664"
definition kOptionalMagic64 :: u16 where "kOptionalMagic64 = 0x20B"
definition kOptionalMagic32 :: u16 where "kOptionalMagic32 = 0x10B"
definition kOrdinalFlag64 :: u64 where "kOrdinalFlag64 = 0x8000000000000000"
definition kDelayImportAttrRva :: u32 where "kDelayImportAttrRva = 1"
definition kDirExport :: nat where "kDirExport = 0"
definition kDirImport :: nat where "kDirImport = 1"
definition kDirResource :: nat where "kDirResource = 2"
definition kDirException :: nat where "kDirException = 3"
definition kDirBaseReloc :: nat where "kDirBaseReloc = 5"
definition kDirTls :: nat where "kDirTls = 9"
definition kDirDelayImport :: nat where "kDirDelayImport = 13"
definition kMaxImportDlls :: nat where "kMaxImportDlls = 1024"
definition kMaxSymbolsPerDll :: nat where "kMaxSymbolsPerDll = 4096"
definition kMaxRelocBlocks :: nat where "kMaxRelocBlocks = 4096"
definition kMaxRuntimeFunctions :: nat where "kMaxRuntimeFunctions = 65536"
definition kMaxCString :: nat where "kMaxCString = 65535"
definition kMaxExportFunctions :: nat where "kMaxExportFunctions = 65536"
definition kMaxExportNames :: nat where "kMaxExportNames = 65536"
definition kMaxTlsCallbacks :: nat where "kMaxTlsCallbacks = 4096"
definition kMaxParseWarnings :: nat where "kMaxParseWarnings = 64"
definition kMinFileAlignment :: u32 where "kMinFileAlignment = 0x200"
definition kMaxFileAlignment :: u32 where "kMaxFileAlignment = 0x10000"
definition kImageFileDll :: u16 where "kImageFileDll = 0x2000"
definition kUnwindVersion1 :: u8 where "kUnwindVersion1 = 1"
definition kUnwindVersion2 :: u8 where "kUnwindVersion2 = 2"
definition kUnwindFlagEHandler :: u8 where "kUnwindFlagEHandler = 1"
definition kUnwindFlagUHandler :: u8 where "kUnwindFlagUHandler = 2"
definition kUnwindFlagChainInfo :: u8 where "kUnwindFlagChainInfo = 4"
definition kUnwindOpEpilog :: u8 where "kUnwindOpEpilog = 6"
definition kUnwindV2EpilogAtFunctionEnd :: u8 where "kUnwindV2EpilogAtFunctionEnd = 1"

lemmas size_consts [eval_simps] =
  kDosHeaderSize_def kPeSignatureOffset_def kCoffHeaderSize_def kSectionHeaderSize_def
  kOptionalHeader64BaseSize_def kDataDirectoryCount_def kDataDirectoryEntrySize_def
  kImportDescriptorSize_def kDelayImportDescriptorSize_def kRuntimeFunctionSize_def
  kUnwindInfoHeaderSize_def kUnwindCodeSize_def kThunkEntrySize_def
  kBaseRelocBlockHeaderSize_def kBaseRelocEntrySize_def kImportByNameHintSize_def
  kExportDirectorySize_def

lemmas magic_consts [eval_simps] =
  kDosMagic_def kPeSignature_def kMachineAmd64_def kOptionalMagic64_def kOptionalMagic32_def
  kOrdinalFlag64_def kDelayImportAttrRva_def kImageFileDll_def kMinFileAlignment_def
  kMaxFileAlignment_def

lemmas dir_consts [eval_simps] =
  kDirExport_def kDirImport_def kDirResource_def kDirException_def kDirBaseReloc_def kDirTls_def
  kDirDelayImport_def

lemmas limit_consts [eval_simps] =
  kMaxImportDlls_def kMaxSymbolsPerDll_def kMaxRelocBlocks_def kMaxRuntimeFunctions_def
  kMaxCString_def kMaxExportFunctions_def kMaxExportNames_def kMaxTlsCallbacks_def
  kMaxParseWarnings_def

lemmas unwind_consts [eval_simps] =
  kUnwindVersion1_def kUnwindVersion2_def kUnwindFlagEHandler_def kUnwindFlagUHandler_def
  kUnwindFlagChainInfo_def kUnwindOpEpilog_def kUnwindV2EpilogAtFunctionEnd_def

subsection \<open>Data\<close>

datatype ParseStatus =
  Success | Truncated | Malformed | UnsupportedArchitecture | UnsupportedFormat
| UnsupportedMechanism

record SectionInfo =
  sec_name :: string
  virtual_address :: u32
  virtual_size :: u32
  raw_data_pointer :: u32
  raw_data_size :: u32
  characteristics :: u32

record ImportedSymbol =
  imp_by_ordinal :: bool
  imp_ordinal :: u16
  imp_name :: string
  iat_rva :: u32

record ImportedDll =
  dll_name :: string
  symbols :: "ImportedSymbol list"

record ExportedSymbol =
  exp_by_name :: bool
  exp_name :: string
  exp_ordinal :: u16
  exp_rva :: u32
  exp_forwarder :: string

record BaseRelocEntry =
  rel_type :: u16
  rel_offset :: u16

record BaseRelocBlock =
  page_rva :: u32
  rel_entries :: "BaseRelocEntry list"

datatype UnwindOperation =
  PushNonVol | AllocLarge | AllocSmall | SetFpReg | SaveNonVol | SaveNonVolFar | SaveXmm128
| SaveXmm128Far | PushMachFrame

record UnwindCode =
  code_offset :: u8
  operation :: UnwindOperation
  operation_info :: u8
  operand :: u32

record UnwindEpilog =
  ep_begin_rva :: u32
  ep_end_rva :: u32

record UnwindInfo =
  version :: u8
  flags :: u8
  prolog_size :: u8
  frame_register :: u8
  frame_offset :: u8
  codes :: "UnwindCode list"
  epilogs :: "UnwindEpilog list"
  has_extended_set_fpreg :: bool
  handler_rva :: u32
  handler_data_rva :: u32
  has_chained_function :: bool
  chained_begin_rva :: u32
  chained_end_rva :: u32
  chained_unwind_info_rva :: u32

record RuntimeFunction =
  begin_rva :: u32
  end_rva :: u32
  unwind_info_rva :: u32
  unwind :: UnwindInfo

record TlsDirectoryInfo =
  start_address_of_raw_data :: u64
  end_address_of_raw_data :: u64
  address_of_index :: u64
  address_of_callbacks :: u64
  size_of_zero_fill :: u32
  tls_characteristics :: u32
  callback_vas :: "u64 list"

record PeInfo =
  is_pe32_plus :: bool
  is_dll :: bool
  machine :: u16
  number_of_sections :: u16
  address_of_entry_point :: u32
  image_base :: u64
  section_alignment :: u32
  size_of_image :: u32
  size_of_headers :: u32
  subsystem :: u16
  import_directory_rva :: u32
  import_directory_size :: u32
  export_directory_rva :: u32
  export_directory_size :: u32
  export_ordinal_base :: u32
  resource_directory_rva :: u32
  resource_directory_size :: u32
  exception_directory_rva :: u32
  exception_directory_size :: u32
  relocation_directory_rva :: u32
  relocation_directory_size :: u32
  delay_import_directory_rva :: u32
  delay_import_directory_size :: u32
  tls_directory_rva :: u32
  tls_directory_size :: u32
  tls_info :: TlsDirectoryInfo
  sections :: "SectionInfo list"
  imports' :: "ImportedDll list"
  exports :: "ExportedSymbol list"
  delay_imports :: "ImportedDll list"
  runtime_functions :: "RuntimeFunction list"
  relocations :: "BaseRelocBlock list"

text \<open>The default member initialisers: a value-initialised \<open>UnwindInfo\<close>, \<open>PeInfo\<close> and so on.\<close>

definition empty_unwind :: UnwindInfo where
  "empty_unwind = \<lparr>version = 0, flags = 0, prolog_size = 0, frame_register = 0, frame_offset = 0,
     codes = [], epilogs = [], has_extended_set_fpreg = False, handler_rva = 0,
     handler_data_rva = 0, has_chained_function = False, chained_begin_rva = 0,
     chained_end_rva = 0, chained_unwind_info_rva = 0\<rparr>"

definition empty_tls :: TlsDirectoryInfo where
  "empty_tls = \<lparr>start_address_of_raw_data = 0, end_address_of_raw_data = 0,
     address_of_index = 0, address_of_callbacks = 0, size_of_zero_fill = 0,
     tls_characteristics = 0, callback_vas = []\<rparr>"

definition empty_info :: PeInfo where
  "empty_info = \<lparr>is_pe32_plus = False, is_dll = False, machine = 0, number_of_sections = 0,
     address_of_entry_point = 0, image_base = 0, section_alignment = 0, size_of_image = 0,
     size_of_headers = 0, subsystem = 0, import_directory_rva = 0, import_directory_size = 0,
     export_directory_rva = 0, export_directory_size = 0, export_ordinal_base = 0,
     resource_directory_rva = 0, resource_directory_size = 0, exception_directory_rva = 0,
     exception_directory_size = 0, relocation_directory_rva = 0, relocation_directory_size = 0,
     delay_import_directory_rva = 0, delay_import_directory_size = 0, tls_directory_rva = 0,
     tls_directory_size = 0, tls_info = empty_tls, sections = [], imports' = [], exports = [],
     delay_imports = [], runtime_functions = [], relocations = []\<rparr>"

subsection \<open>Errors and warnings\<close>

datatype mechanism = Static | Delay

datatype directory_name = DirExports | DirTls | DirExceptions | DirRelocations

datatype header_error =
    FileSmallerThanDosHeader | DosSignatureMissing | ElfanewOutside | NtHeaderTruncated
  | PeSignatureMissing | MachineUnsupported u16 | OptionalHeaderTooSmall
  | SectionTableTruncated | Pe32Unsupported | OptionalMagicUnknown u16 | BadAlignmentOrSize
  | EntryPointOutside | DirectoriesExceedHeader | SectionOutside string
  | SectionRawOutside string

datatype export_error =
    ExportDirTooSmall | ExportDirOutside | ExportDllNameOutside | ExportLimits
  | ExportFunctionsMissing | ExportNamesMissing | ExportOrdinals16 | ExportFunctionsOutside
  | ExportFunctionsTruncated | ExportNamesTooLarge | ExportNamesOutside | ExportNameIndex
  | ExportNameOutside | ExportNameInvalid | ExportRvaOutside | ForwarderOutside
  | ForwarderInvalid

datatype import_error =
    ImportDirTooSmall | ImportDirOutside u32 | ImportNoName nat | ImportNameOutside u32
  | ImportNameUnterminated u32 | ImportNoThunks nat | ThunkTableOutside u32
  | IatOutside u64 string | SymbolRvaOutside u64 | SymbolNameOutside u64
  | SymbolNameUnterminated u64 | ThunksUnterminated string | ImportsUnterminated
  | DelayAttributes nat | DelayFieldsMissing nat

datatype tls_error = TlsNoRvaOrSize | TlsTooSmall | TlsOutside | TlsTooManyCallbacks

datatype unwind_error =
    UnwindUnaligned u32 | UnwindOutside u32 | UnwindVersion u8 u32 | UnwindFlags u8
  | UnwindCodesExceedImage | UnwindCodesTruncated | UnwindTailExceedsImage | HandlerAndChain
  | ChainTruncated | HandlerTruncated | HandlerOutside | HandlerDataOutside

datatype epilog_error =
    EpilogSizeZero u32 | EpilogFlags u32 | EpilogOutside u32 | EpilogExceeds u32
  | EpilogNoOffset u32 | EpilogOffsetNotEpilog u32 | EpilogOffsetZero u32 | EpilogsOverlap u32

datatype code_error =
    CodesNotDescending | PushBadRegister | AllocLargeBadInfo | SetFpRegUnsupportedInfo u32
  | SetFpRegBadRegister u32 u8 | SaveBadRegister | SaveFarBadRegister | MachFrameBadInfo
  | UnwindOpUnsupported u8 u32 | OperandTruncated | XmmFarUnaligned

datatype exception_error =
    ExceptionDirIncomplete | ExceptionDirOutside u32 u32 | TooManyRuntimeFunctions
  | RuntimeFunctionBadInterval | RuntimeFunctionsOverlap | ChainNotInTable | ChainCycle

datatype reloc_error =
    RelocDirTooSmall | RelocDirOutside u32 | TooManyRelocBlocks | RelocBlockSize u32
  | RelocBlockExceeds | RelocEntriesTruncated | RelocResidual

datatype parse_error =
    Header header_error | Export export_error | Import mechanism import_error | Tls tls_error
  | Unwind unwind_error | Epilog epilog_error | Code code_error | Exception exception_error
  | Reloc reloc_error

type_synonym 'a parsed = "(ParseStatus \<times> parse_error) + 'a"

definition fail :: "ParseStatus \<Rightarrow> parse_error \<Rightarrow> 'a parsed" where
  "fail st e = Inl (st, e)"

lemma fail_not_Inr [simp]: "fail st e \<noteq> Inr x" "Inr x \<noteq> fail st e"
  by (simp_all add: fail_def)

text \<open>The warnings of a parse, at most 64: a directory in a section without raw data.\<close>

definition record_uninitialized_directory ::
    "directory_name \<Rightarrow> directory_name list \<Rightarrow> directory_name list" where
  "record_uninitialized_directory d ws =
     (if length ws < kMaxParseWarnings then ws @ [d] else ws)"

end
