(* ===== verification/Pe_Reader.thy ===== *)
theory Pe_Reader
  imports Pe_Model
begin

text \<open>
  The byte reader (class \<open>ByteReader\<close>) and the translation of image addresses to file offsets
  (\<open>rva_to_file_offset\<close>, \<open>is_rva_in_uninitialized_section\<close>) of \<open>src/pe/pe_reader.cpp\<close>, with
  the bounds of everything they return.
\<close>

subsection \<open>ByteReader\<close>

definition read_u16 :: "bytes \<Rightarrow> nat \<Rightarrow> u16 option" where
  "read_u16 bs off = (if \<not> has_range bs off 2 then None else Some (le16 bs off))"

definition read_u32 :: "bytes \<Rightarrow> nat \<Rightarrow> u32 option" where
  "read_u32 bs off = (if \<not> has_range bs off 4 then None else Some (le32 bs off))"

definition read_u64 :: "bytes \<Rightarrow> nat \<Rightarrow> u64 option" where
  "read_u64 bs off = (if \<not> has_range bs off 8 then None else Some (le64 bs off))"

text \<open>
  Where the source ignores the success flag, the variable keeps its initial value 0 when the
  read fails.
\<close>

definition rd16 :: "bytes \<Rightarrow> nat \<Rightarrow> u16" where
  "rd16 bs off = (case read_u16 bs off of None \<Rightarrow> 0 | Some v \<Rightarrow> v)"

definition rd32 :: "bytes \<Rightarrow> nat \<Rightarrow> u32" where
  "rd32 bs off = (case read_u32 bs off of None \<Rightarrow> 0 | Some v \<Rightarrow> v)"

definition rd64 :: "bytes \<Rightarrow> nat \<Rightarrow> u64" where
  "rd64 bs off = (case read_u64 bs off of None \<Rightarrow> 0 | Some v \<Rightarrow> v)"

definition read_bytes :: "bytes \<Rightarrow> nat \<Rightarrow> nat \<Rightarrow> bytes option" where
  "read_bytes bs off len = (if \<not> has_range bs off len then None else Some (take len (drop off bs)))"

text \<open>The scan of \<open>read_cstring\<close> for the end of the string.\<close>

function cstring_end :: "bytes \<Rightarrow> nat \<Rightarrow> nat \<Rightarrow> nat" where
  "cstring_end bs off e =
     (if e < length bs \<and> e - off < kMaxCString \<and> bs ! e \<noteq> 0
      then cstring_end bs off (Suc e) else e)"
  by pat_completeness auto
termination
  by (relation "measure (\<lambda>(bs, off, e). length bs - e)") auto

declare cstring_end.simps [simp del]

definition read_cstring :: "bytes \<Rightarrow> nat \<Rightarrow> string option" where
  "read_cstring bs off =
     (if length bs \<le> off then None
      else let e = cstring_end bs off off in
        if e = length bs \<or> kMaxCString \<le> e - off then None
        else Some (chars_of (take (e - off) (drop off bs))))"

lemma read_u16_Some: "read_u16 bs off = Some v \<longleftrightarrow> off + 2 \<le> length bs \<and> v = le16 bs off"
  by (auto simp: read_u16_def has_range_iff)

lemma read_u32_Some: "read_u32 bs off = Some v \<longleftrightarrow> off + 4 \<le> length bs \<and> v = le32 bs off"
  by (auto simp: read_u32_def has_range_iff)

lemma read_u64_Some: "read_u64 bs off = Some v \<longleftrightarrow> off + 8 \<le> length bs \<and> v = le64 bs off"
  by (auto simp: read_u64_def has_range_iff)

lemma rd16_in: "off + 2 \<le> length bs \<Longrightarrow> rd16 bs off = le16 bs off"
  by (simp add: rd16_def read_u16_def has_range_iff)

lemma rd32_in: "off + 4 \<le> length bs \<Longrightarrow> rd32 bs off = le32 bs off"
  by (simp add: rd32_def read_u32_def has_range_iff)

lemma rd64_in: "off + 8 \<le> length bs \<Longrightarrow> rd64 bs off = le64 bs off"
  by (simp add: rd64_def read_u64_def has_range_iff)

lemma rd16_le [range_simps]: "rd16 bs off \<le> u16_max"
  by (simp add: rd16_def read_u16_def le16_le)

lemma rd32_le [range_simps]: "rd32 bs off \<le> u32_max"
  by (simp add: rd32_def read_u32_def le32_le)

lemma rd64_le [range_simps]: "rd64 bs off \<le> u64_max"
  by (simp add: rd64_def read_u64_def le64_le)

lemma cstring_end_bounds:
  "e \<le> length bs \<Longrightarrow> e \<le> cstring_end bs off e \<and> cstring_end bs off e \<le> length bs"
proof (induction bs off e rule: cstring_end.induct)
  case (1 bs off e)
  then show ?case by (subst (1 2) cstring_end.simps) (auto simp: Suc_le_eq)
qed

lemma cstring_end_no_zero: "e \<le> k \<Longrightarrow> k < cstring_end bs off e \<Longrightarrow> bs ! k \<noteq> 0"
proof (induction bs off e rule: cstring_end.induct)
  case (1 bs off e)
  show ?case
  proof (cases "e < length bs \<and> e - off < kMaxCString \<and> bs ! e \<noteq> 0")
    case True
    with 1 show ?thesis by (cases "k = e") (auto simp: cstring_end.simps [of bs off e])
  next
    case False
    with 1 show ?thesis by (auto simp: cstring_end.simps [of bs off e])
  qed
qed

lemma cstring_end_stop:
  "cstring_end bs off e < length bs \<Longrightarrow> cstring_end bs off e - off < kMaxCString \<Longrightarrow>
     bs ! cstring_end bs off e = 0"
proof (induction bs off e rule: cstring_end.induct)
  case (1 bs off e)
  show ?case
  proof (cases "e < length bs \<and> e - off < kMaxCString \<and> bs ! e \<noteq> 0")
    case True
    with 1 show ?thesis by (auto simp: cstring_end.simps [of bs off e])
  next
    case False
    with 1 show ?thesis by (auto simp: cstring_end.simps [of bs off e])
  qed
qed

text \<open>
  \<open>read_cstring\<close> returns exactly the bytes up to the first null byte, all inside the data and
  shorter than the limit.
\<close>

lemma read_cstring_spec:
  assumes "read_cstring bs off = Some s"
  shows "off + length s < length bs"
    and "length s < kMaxCString"
    and "bs ! (off + length s) = 0"
    and "s = chars_of (take (length s) (drop off bs))"
    and "i < length s \<Longrightarrow> bs ! (off + i) \<noteq> 0"
proof -
  define e where "e = cstring_end bs off off"
  from assms have off: "off < length bs" and e: "e \<noteq> length bs" "e - off < kMaxCString"
    and s: "s = chars_of (take (e - off) (drop off bs))"
    by (auto simp: read_cstring_def Let_def e_def split: if_splits)
  from off have b: "off \<le> e" "e \<le> length bs"
    using cstring_end_bounds [of off bs off] by (simp_all add: e_def)
  with s e have len: "length s = e - off" by simp
  show "off + length s < length bs" using len b e by simp
  show "length s < kMaxCString" using len e by simp
  show "bs ! (off + length s) = 0"
    using cstring_end_stop [of bs off off] b e len by (simp add: e_def)
  show "s = chars_of (take (length s) (drop off bs))" using s len by simp
  show "bs ! (off + i) \<noteq> 0" if "i < length s"
    using cstring_end_no_zero [of off "off + i" bs off] that len by (simp add: e_def)
qed

subsection \<open>Image addresses and file offsets\<close>

definition section_span :: "SectionInfo \<Rightarrow> u64" where
  "section_span s = max (virtual_size s) (raw_data_size s)"

definition section_end :: "SectionInfo \<Rightarrow> u64" where
  "section_end s = virtual_address s + section_span s"

fun section_file_offset :: "bytes \<Rightarrow> u32 \<Rightarrow> u32 \<Rightarrow> SectionInfo list \<Rightarrow> nat option" where
  "section_file_offset bs rva len [] = None"
| "section_file_offset bs rva len (s # ss) =
     (if virtual_address s \<le> rva \<and> rva < section_end s then
        (let delta = rva - virtual_address s in
         if raw_data_size s < delta + len then None
         else let file_offset = raw_data_pointer s + delta in
           if length bs < file_offset + len then None else Some file_offset)
      else section_file_offset bs rva len ss)"

definition rva_to_file_offset :: "bytes \<Rightarrow> PeInfo \<Rightarrow> u32 \<Rightarrow> u32 \<Rightarrow> nat option" where
  "rva_to_file_offset bs info rva len =
     (if rva + len \<le> size_of_headers info \<and> rva + len \<le> length bs then Some rva
      else section_file_offset bs rva len (sections info))"

fun uninitialized_in :: "u32 \<Rightarrow> u32 \<Rightarrow> SectionInfo list \<Rightarrow> bool" where
  "uninitialized_in rva len [] = False"
| "uninitialized_in rva len (s # ss) =
     (if virtual_address s \<le> rva \<and> rva + len \<le> section_end s \<and>
         (raw_data_size s = 0 \<or> raw_data_size s \<le> rva - virtual_address s)
      then True else uninitialized_in rva len ss)"

definition is_rva_in_uninitialized_section :: "PeInfo \<Rightarrow> u32 \<Rightarrow> u32 \<Rightarrow> bool" where
  "is_rva_in_uninitialized_section info rva len =
     (if len = 0 then False else uninitialized_in rva len (sections info))"

lemma section_file_offset_Some:
  "section_file_offset bs rva len ss = Some off \<Longrightarrow>
     \<exists>s \<in> set ss. virtual_address s \<le> rva \<and> rva < section_end s \<and>
       off = raw_data_pointer s + (rva - virtual_address s) \<and>
       rva - virtual_address s + len \<le> raw_data_size s \<and> off + len \<le> length bs"
  by (induction ss) (auto simp: Let_def split: if_splits)

text \<open>
  An offset returned for an address range lies in the file with the whole range, and comes
  either from the headers or from the raw data of one section.
\<close>

lemma rva_to_file_offset_bound:
  "rva_to_file_offset bs info rva len = Some off \<Longrightarrow> off + len \<le> length bs"
  by (auto simp: rva_to_file_offset_def split: if_splits dest: section_file_offset_Some)

lemma rva_to_file_offset_cases:
  assumes "rva_to_file_offset bs info rva len = Some off"
  obtains (headers) "off = rva" "rva + len \<le> size_of_headers info"
  | (in_section) s where "s \<in> set (sections info)" "virtual_address s \<le> rva" "rva < section_end s"
      "off = raw_data_pointer s + (rva - virtual_address s)"
      "rva - virtual_address s + len \<le> raw_data_size s"
proof (cases "rva + len \<le> size_of_headers info \<and> rva + len \<le> length bs")
  case True
  with assms show ?thesis by (intro headers) (auto simp: rva_to_file_offset_def)
next
  case False
  with assms have "section_file_offset bs rva len (sections info) = Some off"
    by (auto simp: rva_to_file_offset_def)
  then show ?thesis using in_section by (blast dest: section_file_offset_Some)
qed

lemma uninitialized_in_iff:
  "uninitialized_in rva len ss \<longleftrightarrow>
     (\<exists>s \<in> set ss. virtual_address s \<le> rva \<and> rva + len \<le> section_end s \<and>
        raw_data_size s \<le> rva - virtual_address s)"
  by (induction ss) auto

subsection \<open>Properties\<close>

text \<open>
  An address range the reader translates lies in the file as a whole, and it is read either
  from the headers, unchanged, or from the raw data of a section that holds it.
\<close>

theorem file_offsets_in_file:
  assumes "rva_to_file_offset bs info rva len = Some off"
  shows "off + len \<le> length bs \<and>
    (off = rva \<and> rva + len \<le> size_of_headers info \<or>
     (\<exists>s \<in> set (sections info). virtual_address s \<le> rva \<and> rva < section_end s \<and>
        off = raw_data_pointer s + (rva - virtual_address s) \<and>
        rva - virtual_address s + len \<le> raw_data_size s))"
  using assms
proof (cases rule: rva_to_file_offset_cases)
  case headers
  then show ?thesis using rva_to_file_offset_bound [OF assms] by blast
next
  case (in_section s)
  then show ?thesis using rva_to_file_offset_bound [OF assms] by blast
qed

theorem file_offsets_in_file_witness: "rva_to_file_offset [1, 2, 3, 4] (empty_info\<lparr>size_of_headers := 4\<rparr>) 1 2 = Some 1 \<and> (1::nat) + 2 \<le> 4"
  using file_offsets_in_file [of "[1, 2, 3, 4]" "empty_info\<lparr>size_of_headers := 4\<rparr>" 1 2 1]
  by (simp add: rva_to_file_offset_def)

text \<open>
  A string that is read ends at the first zero byte after its start, inside the file, and
  is shorter than the limit.
\<close>

theorem cstring_read:
  assumes "read_cstring bs off = Some s"
  shows "off + length s < length bs \<and> length s < kMaxCString \<and> bs ! (off + length s) = 0 \<and>
    s = chars_of (take (length s) (drop off bs)) \<and> (\<forall>i < length s. bs ! (off + i) \<noteq> 0)"
  using read_cstring_spec [OF assms] by blast

theorem cstring_read_witness: "[65, 66, 0 :: byte] ! (0 + length ''AB'') = 0"
proof -
  have "read_cstring [65, 66, 0] 0 = Some ''AB''"
    by (simp add: read_cstring_def cstring_end.simps kMaxCString_def chars_of_def char_of_def bit_Suc_0_iff)
  from cstring_read [OF this] show ?thesis by blast
qed

end
