(* ===== verification/Pe_Exports.thy ===== *)
theory Pe_Exports
  imports Pe_Reader
begin

text \<open>
  The export directory: \<open>PeParser::parse_exports\<close> of \<open>src/pe/pe_reader.cpp\<close>, split at its
  loops. \<open>read_function_rvas\<close> reads the address table, \<open>export_names_step\<close> is the body of the
  loop over the name table, \<open>export_step\<close> the body of the loop that builds the symbols.
\<close>

subsection \<open>The parser\<close>

definition read_function_rvas :: "bytes \<Rightarrow> PeInfo \<Rightarrow> nat \<Rightarrow> u32 \<Rightarrow> u32 list parsed" where
  "read_function_rvas bs info function_count functions_rva =
     (if 0 < function_count then
        (let sz = function_count * 4 in
         if u32_max < sz \<or> rva_to_file_offset bs info functions_rva (to_u32 sz) = None
         then fail Malformed (Export ExportFunctionsOutside)
         else case rva_to_file_offset bs info functions_rva (to_u32 sz) of
           None \<Rightarrow> fail Malformed (Export ExportFunctionsOutside)
         | Some table \<Rightarrow>
             (case those (map (\<lambda>i. read_u32 bs (table + i * 4)) [0..<function_count]) of
                None \<Rightarrow> fail Truncated (Export ExportFunctionsTruncated)
              | Some rvas \<Rightarrow> Inr rvas))
      else Inr [])"

type_synonym name_state = "string list \<times> bool list"

definition export_names_step ::
    "bytes \<Rightarrow> PeInfo \<Rightarrow> nat \<Rightarrow> nat \<Rightarrow> nat \<Rightarrow> nat \<Rightarrow> name_state \<Rightarrow> name_state parsed" where
  "export_names_step bs info function_count names_table ordinals_table index st =
     (case st of (export_names, has_name) \<Rightarrow>
      case (read_u32 bs (names_table + index * 4), read_u16 bs (ordinals_table + index * 2)) of
        (Some export_name_rva, Some function_index) \<Rightarrow>
          if function_count \<le> function_index
          then fail Malformed (Export ExportNameIndex)
          else (case rva_to_file_offset bs info export_name_rva 1 of
              None \<Rightarrow> fail Malformed (Export ExportNameOutside)
            | Some name_offset \<Rightarrow>
                (case read_cstring bs name_offset of
                   None \<Rightarrow> fail Malformed (Export ExportNameInvalid)
                 | Some export_name \<Rightarrow>
                     if export_name = [] \<or> has_name ! function_index
                     then fail Malformed (Export ExportNameInvalid)
                     else Inr (export_names[function_index := export_name],
                               has_name[function_index := True])))
      | _ \<Rightarrow> fail Malformed (Export ExportNameIndex))"

definition read_export_names ::
    "bytes \<Rightarrow> PeInfo \<Rightarrow> nat \<Rightarrow> nat \<Rightarrow> u32 \<Rightarrow> u32 \<Rightarrow> name_state parsed" where
  "read_export_names bs info function_count name_count names_rva name_ordinals_rva =
     (let initial = (replicate function_count [], replicate function_count False) in
      if 0 < name_count then
        (let name_bytes = name_count * 4; ordinal_bytes = name_count * 2 in
         if u32_max < name_bytes \<or> u32_max < ordinal_bytes
         then fail Malformed (Export ExportNamesTooLarge)
         else case (rva_to_file_offset bs info names_rva (to_u32 name_bytes),
                    rva_to_file_offset bs info name_ordinals_rva (to_u32 ordinal_bytes)) of
           (Some names_table, Some ordinals_table) \<Rightarrow>
             foldE (export_names_step bs info function_count names_table ordinals_table)
               [0..<name_count] initial
         | _ \<Rightarrow> fail Malformed (Export ExportNamesOutside))
      else Inr initial)"

definition export_step ::
    "bytes \<Rightarrow> PeInfo \<Rightarrow> u32 \<Rightarrow> u32 list \<Rightarrow> name_state \<Rightarrow> nat \<Rightarrow> ExportedSymbol list \<Rightarrow>
       ExportedSymbol list parsed" where
  "export_step bs info ordinal_base function_rvas names index acc =
     (let function_rva = function_rvas ! index;
          export_end = export_directory_rva info + export_directory_size info;
          export_symbol = \<lambda>fwd. \<lparr>exp_by_name = snd names ! index, exp_name = fst names ! index,
             exp_ordinal = to_u16 (ordinal_base + index), exp_rva = function_rva,
             exp_forwarder = fwd\<rparr>
      in
      if function_rva = 0 then Inr acc
      else if size_of_image info \<le> function_rva then fail Malformed (Export ExportRvaOutside)
      else if export_directory_rva info \<le> function_rva \<and> function_rva < export_end then
        (case rva_to_file_offset bs info function_rva 1 of
           None \<Rightarrow> fail Malformed (Export ForwarderOutside)
         | Some forwarder_offset \<Rightarrow>
             (case read_cstring bs forwarder_offset of
                None \<Rightarrow> fail Malformed (Export ForwarderInvalid)
              | Some forwarder \<Rightarrow>
                  if forwarder = [] then fail Malformed (Export ForwarderInvalid)
                  else Inr (acc @ [export_symbol forwarder])))
      else Inr (acc @ [export_symbol []]))"

text \<open>The fields of \<open>IMAGE_EXPORT_DIRECTORY\<close> the parser reads, and its checks on them.\<close>

record ExportDirectory =
  ed_name_rva :: u32
  ed_ordinal_base :: u32
  ed_function_count :: u32
  ed_name_count :: u32
  ed_functions_rva :: u32
  ed_names_rva :: u32
  ed_name_ordinals_rva :: u32

definition read_export_directory :: "bytes \<Rightarrow> nat \<Rightarrow> ExportDirectory" where
  "read_export_directory bs directory =
     \<lparr>ed_name_rva = rd32 bs (directory + 12), ed_ordinal_base = rd32 bs (directory + 16),
      ed_function_count = rd32 bs (directory + 20), ed_name_count = rd32 bs (directory + 24),
      ed_functions_rva = rd32 bs (directory + 28), ed_names_rva = rd32 bs (directory + 32),
      ed_name_ordinals_rva = rd32 bs (directory + 36)\<rparr>"

definition check_export_directory ::
    "bytes \<Rightarrow> PeInfo \<Rightarrow> ExportDirectory \<Rightarrow> export_error option" where
  "check_export_directory bs info d =
     (if ed_name_rva d \<noteq> 0 \<and> rva_to_file_offset bs info (ed_name_rva d) 1 = None
      then Some ExportDllNameOutside
      else if kMaxExportFunctions < ed_function_count d \<or> kMaxExportNames < ed_name_count d \<or>
              ed_function_count d < ed_name_count d
      then Some ExportLimits
      else if 0 < ed_function_count d \<and> ed_functions_rva d = 0
      then Some ExportFunctionsMissing
      else if 0 < ed_name_count d \<and> (ed_names_rva d = 0 \<or> ed_name_ordinals_rva d = 0)
      then Some ExportNamesMissing
      else if u16_max < ed_ordinal_base d \<or>
              u16_max - ed_ordinal_base d + 1 < ed_function_count d
      then Some ExportOrdinals16
      else None)"

definition read_exports :: "bytes \<Rightarrow> PeInfo \<Rightarrow> ExportDirectory \<Rightarrow> ExportedSymbol list parsed" where
  "read_exports bs info d =
     (case read_function_rvas bs info (ed_function_count d) (ed_functions_rva d) of
        Inl e \<Rightarrow> Inl e
      | Inr function_rvas \<Rightarrow>
          (case read_export_names bs info (ed_function_count d) (ed_name_count d)
                  (ed_names_rva d) (ed_name_ordinals_rva d) of
             Inl e \<Rightarrow> Inl e
           | Inr names \<Rightarrow>
               foldE (export_step bs info (ed_ordinal_base d) function_rvas names)
                 [0..<length function_rvas] []))"

definition parse_exports ::
    "bytes \<Rightarrow> PeInfo \<Rightarrow> directory_name list \<Rightarrow> (PeInfo \<times> directory_name list) parsed" where
  "parse_exports bs info ws =
     (if export_directory_rva info = 0 \<and> export_directory_size info = 0 then Inr (info, ws)
      else if export_directory_size info < kExportDirectorySize
      then fail Malformed (Export ExportDirTooSmall)
      else case rva_to_file_offset bs info (export_directory_rva info) (export_directory_size info)
      of None \<Rightarrow>
           if is_rva_in_uninitialized_section info (export_directory_rva info)
                (export_directory_size info)
           then Inr (info, record_uninitialized_directory DirExports ws)
           else fail Malformed (Export ExportDirOutside)
       | Some directory \<Rightarrow>
           (case check_export_directory bs info (read_export_directory bs directory) of
              Some e \<Rightarrow> fail Malformed (Export e)
            | None \<Rightarrow>
                (case read_exports bs info (read_export_directory bs directory) of
                   Inl e \<Rightarrow> Inl e
                 | Inr es \<Rightarrow>
                     Inr (info\<lparr>export_ordinal_base :=
                            ed_ordinal_base (read_export_directory bs directory),
                          exports := es\<rparr>, ws))))"

subsection \<open>What a successful parse of the directory guarantees\<close>

text \<open>
  A well-formed export: inside the image, with a forwarder exactly when its address is in the
  export directory, and a non-empty name when it is exported by name.
\<close>

definition wf_export :: "PeInfo \<Rightarrow> ExportedSymbol \<Rightarrow> bool" where
  "wf_export info e \<longleftrightarrow>
     0 < exp_rva e \<and> exp_rva e < size_of_image info \<and> exp_ordinal e \<le> u16_max \<and>
     (exp_forwarder e \<noteq> [] \<longleftrightarrow>
        export_directory_rva info \<le> exp_rva e \<and>
        exp_rva e < export_directory_rva info + export_directory_size info) \<and>
     (exp_by_name e \<longleftrightarrow> exp_name e \<noteq> [])"

definition names_ok :: "name_state \<Rightarrow> bool" where
  "names_ok names \<longleftrightarrow> length (fst names) = length (snd names) \<and>
     (\<forall>i < length (fst names). snd names ! i \<longleftrightarrow> fst names ! i \<noteq> [])"

lemma export_names_step_ok:
  assumes "export_names_step bs info fc nt ot i st = Inr st'" "names_ok st"
    "length (fst st) = fc"
  shows "names_ok st' \<and> length (fst st') = fc"
  using assms
  by (auto simp: export_names_step_def names_ok_def nth_list_update
      split: prod.splits option.splits if_splits)

lemma read_export_names_ok:
  assumes "read_export_names bs info fc nc nr no = Inr names"
  shows "names_ok names \<and> length (fst names) = fc"
proof -
  have init: "names_ok (replicate fc [], replicate fc False)"
    by (simp add: names_ok_def)
  show ?thesis
  proof (cases "0 < nc")
    case True
    with assms obtain nt ot where
      "foldE (export_names_step bs info fc nt ot) [0..<nc]
         (replicate fc [], replicate fc False) = Inr names"
      by (auto simp: read_export_names_def Let_def split: if_splits option.splits)
    then show ?thesis
      by (rule foldE_preserves [where P = "\<lambda>st. names_ok st \<and> length (fst st) = fc"])
        (use init in \<open>auto dest: export_names_step_ok\<close>)
  next
    case False
    with assms init show ?thesis by (auto simp: read_export_names_def Let_def)
  qed
qed

lemma those_Some_iff: "those xs = Some ys \<longleftrightarrow> xs = map Some ys"
  by (induction xs arbitrary: ys) (auto split: option.splits)

lemma read_function_rvas_length:
  "read_function_rvas bs info fc fr = Inr rvas \<Longrightarrow> length rvas = fc"
  by (auto simp: read_function_rvas_def Let_def those_Some_iff
      split: if_splits option.splits dest: map_eq_imp_length_eq)

lemma export_step_Inr:
  assumes "export_step bs info ob rvas names i acc = Inr acc'"
    and "names_ok names" "i < length (fst names)"
  shows "acc' = acc \<or>
    (\<exists>e. acc' = acc @ [e] \<and> wf_export info e \<and> exp_ordinal e = to_u16 (ob + i) \<and>
       exp_rva e = rvas ! i)"
  using assms
  by (auto simp: export_step_def wf_export_def names_ok_def Let_def to_u16_le
      split: if_splits option.splits)

text \<open>The ordinals are the base plus the position: strictly increasing, so never repeated.\<close>

definition exports_done :: "PeInfo \<Rightarrow> u32 \<Rightarrow> nat \<Rightarrow> ExportedSymbol list \<Rightarrow> bool" where
  "exports_done info ob n es \<longleftrightarrow>
     (\<forall>e \<in> set es. wf_export info e \<and> ob \<le> exp_ordinal e \<and> exp_ordinal e < ob + n) \<and>
     sorted_wrt (\<lambda>a b. exp_ordinal a < exp_ordinal b) es"

lemma exports_done_snoc:
  assumes "exports_done info ob i es" "wf_export info e" "exp_ordinal e = ob + i"
  shows "exports_done info ob (Suc i) (es @ [e])"
  using assms by (auto simp: exports_done_def sorted_wrt_append less_Suc_eq)

lemma exports_done_Suc: "exports_done info ob i es \<Longrightarrow> exports_done info ob (Suc i) es"
  by (auto simp: exports_done_def less_Suc_eq)

lemma exports_fold_done:
  assumes "foldE (export_step bs info ob rvas names) [0..<length rvas] [] = Inr es"
    and "names_ok names" "length (fst names) = length rvas"
    and "ob + length rvas \<le> u16_max + 1"
  shows "exports_done info ob (length rvas) es"
proof (rule foldE_upt_invariant [OF assms(1), where P = "exports_done info ob"])
  show "exports_done info ob 0 []" by (simp add: exports_done_def)
next
  fix i acc acc'
  assume i: "i < length rvas" and prev: "exports_done info ob i acc"
    and step: "export_step bs info ob rvas names i acc = Inr acc'"
  have ord: "to_u16 (ob + i) = ob + i" using i assms(4) by simp
  from export_step_Inr [OF step assms(2)] i assms(3)
  show "exports_done info ob (Suc i) acc'"
    using prev by (auto simp: ord intro: exports_done_snoc exports_done_Suc)
qed

lemma check_export_directory_None:
  "check_export_directory bs info d = None \<Longrightarrow> ed_ordinal_base d + ed_function_count d \<le> u16_max + 1"
  by (auto simp: check_export_directory_def split: if_splits)

lemma read_exports_done:
  assumes "read_exports bs info d = Inr es"
    and "ed_ordinal_base d + ed_function_count d \<le> u16_max + 1"
  shows "exports_done info (ed_ordinal_base d) (ed_function_count d) es"
proof -
  from assms(1) obtain rvas names where
    rvas: "read_function_rvas bs info (ed_function_count d) (ed_functions_rva d) = Inr rvas" and
    names: "read_export_names bs info (ed_function_count d) (ed_name_count d) (ed_names_rva d)
      (ed_name_ordinals_rva d) = Inr names" and
    es: "foldE (export_step bs info (ed_ordinal_base d) rvas names) [0..<length rvas] [] = Inr es"
    by (auto simp: read_exports_def split: sum.splits)
  from rvas have len: "length rvas = ed_function_count d" by (rule read_function_rvas_length)
  from names have ok: "names_ok names" "length (fst names) = length rvas"
    using read_export_names_ok len by auto
  from exports_fold_done [OF es ok] assms(2) show ?thesis by (simp add: len)
qed

text \<open>The outcome of the whole directory: the same image with its exports filled in.\<close>

lemma parse_exports_Inr:
  assumes "parse_exports bs info ws = Inr (info', ws')"
  shows "info' = info \<or>
    (\<exists>ob n es. info' = info\<lparr>export_ordinal_base := ob, exports := es\<rparr> \<and>
       ob + n \<le> u16_max + 1 \<and> exports_done info ob n es)"
  using assms
  by (auto simp: parse_exports_def split: if_splits option.splits sum.splits
      intro!: exI dest!: check_export_directory_None read_exports_done)

lemma parse_exports_warnings:
  "parse_exports bs info ws = Inr (info', ws') \<Longrightarrow>
     ws' = ws \<or> ws' = record_uninitialized_directory DirExports ws"
  by (auto simp: parse_exports_def split: if_splits option.splits sum.splits)

subsection \<open>Properties\<close>

text \<open>
  The exports of a parsed directory have the ordinals of the directory's range, at most
  65535, strictly increasing; each lies in the image, has a forwarder exactly when its address is
  in the directory, and a name exactly when it is exported by name.
\<close>

theorem exports_in_order:
  assumes "parse_exports bs info ws = Inr (info', ws')" "exports info = []"
  shows "\<exists>ob n. ob + n \<le> u16_max + 1 \<and> exports_done info ob n (exports info')"
  using parse_exports_Inr [OF assms(1)]
proof (elim disjE exE conjE)
  assume "info' = info"
  moreover have "exports_done info 0 0 []" by (simp add: exports_done_def)
  ultimately show ?thesis using assms(2) by (intro exI [of _ 0]) simp
qed auto

definition export_file :: bytes where
  "export_file =
    [0, 0, 0, 0, 0, 0, 0, 0, 0, 0, 0, 0, 0, 0, 0, 0, 0, 0, 0, 0,
     0, 0, 0, 0, 5, 0, 0, 0, 1, 0, 0, 0, 1, 0, 0, 0, 0x30, 0, 0, 0,
     0x34, 0, 0, 0, 0x38, 0, 0, 0, 0x64, 0, 0, 0, 0x3a, 0, 0, 0, 0, 0, 0x66, 0,
     0, 0, 0, 0]"

definition export_info :: PeInfo where
  "export_info = empty_info\<lparr>size_of_image := 200, size_of_headers := 64, export_directory_rva := 8,
     export_directory_size := 40\<rparr>"

lemma export_file_reads: "length export_file = 64"
  "rd32 export_file 20 = 0" "rd32 export_file 24 = 5" "rd32 export_file 28 = 1" "rd32 export_file 32 = 1"
  "rd32 export_file 36 = 48" "rd32 export_file 40 = 52" "rd32 export_file 44 = 56"
  "read_u32 export_file 48 = Some 100" "read_u32 export_file 52 = Some 58" "read_u16 export_file 56 = Some 0"
  "read_cstring export_file 58 = Some ''f''"
  by (simp_all add: rd32_in read_u32_Some read_u16_Some le32_def le16_def byte_at_def export_file_def
      read_cstring_def cstring_end.simps kMaxCString_def chars_of_def char_of_def bit_Suc_0_iff)

lemma export_parsed: "parse_exports export_file export_info [] = Inr (export_info\<lparr>export_ordinal_base := 5,
    exports := [\<lparr>exp_by_name = True, exp_name = ''f'', exp_ordinal = 5, exp_rva = 100, exp_forwarder = []\<rparr>]\<rparr>, [])"
  by (simp add: parse_exports_def read_export_directory_def check_export_directory_def read_exports_def
      read_function_rvas_def read_export_names_def export_names_step_def export_step_def
      rva_to_file_offset_def export_info_def empty_info_def export_file_reads eval_simps Let_def)

theorem exports_in_order_witness:
  "\<exists>ob n. ob + n \<le> u16_max + 1 \<and> exports_done export_info ob n
     [\<lparr>exp_by_name = True, exp_name = ''f'', exp_ordinal = 5, exp_rva = 100, exp_forwarder = []\<rparr>]"
  using exports_in_order [OF export_parsed] by (simp add: export_info_def empty_info_def)

end
