(* ===== verification/Pe_Imports.thy ===== *)
theory Pe_Imports
  imports Pe_Reader
begin

text \<open>
  The static and the delayed import directories: \<open>PeParser::parse_imports\<close> and
  \<open>PeParser::parse_delay_imports\<close> of \<open>src/pe/pe_reader.cpp\<close>. The two thunk loops of the source
  differ in the check of the address slot and in their messages; \<open>thunk_loop\<close> is the loop with
  that check as a parameter, \<open>import_thunks\<close> and \<open>delay_thunks\<close> are its two instances. The loop
  counters of the source count down here from the limit (\<open>n\<close> iterations are left).
\<close>

subsection \<open>Thunk tables\<close>

definition thunk_symbol :: "mechanism \<Rightarrow> bytes \<Rightarrow> PeInfo \<Rightarrow> u64 \<Rightarrow> u64 \<Rightarrow> ImportedSymbol parsed" where
  "thunk_symbol m bs info iat_slot_rva thunk_value =
     (if thunk_value AND kOrdinalFlag64 \<noteq> 0 then
        Inr \<lparr>imp_by_ordinal = True, imp_ordinal = to_u16 (thunk_value AND 0xFFFF), imp_name = [],
             iat_rva = to_u32 iat_slot_rva\<rparr>
      else if u32_max < thunk_value then fail Malformed (Import m (SymbolRvaOutside thunk_value))
      else case rva_to_file_offset bs info (to_u32 thunk_value) kImportByNameHintSize of
        None \<Rightarrow> fail Malformed (Import m (SymbolNameOutside thunk_value))
      | Some by_name_offset \<Rightarrow>
          (case read_cstring bs (by_name_offset + kImportByNameHintSize) of
             None \<Rightarrow> fail Malformed (Import m (SymbolNameUnterminated thunk_value))
           | Some symbol_name \<Rightarrow>
               Inr \<lparr>imp_by_ordinal = False, imp_ordinal = 0, imp_name = symbol_name,
                    iat_rva = to_u32 iat_slot_rva\<rparr>))"

text \<open>
  \<open>n\<close> iterations left, symbol index \<open>k\<close>. The result is the list of symbols and whether the
  null terminator was found.
\<close>

fun thunk_loop ::
    "mechanism \<Rightarrow> (u64 \<Rightarrow> bool) \<Rightarrow> bytes \<Rightarrow> PeInfo \<Rightarrow> string \<Rightarrow> nat \<Rightarrow> u32 \<Rightarrow> nat \<Rightarrow> nat \<Rightarrow>
       ImportedSymbol list \<Rightarrow> (ImportedSymbol list \<times> bool) parsed" where
  "thunk_loop m slot_ok bs info dll thunk_table first_thunk 0 k acc = Inr (acc, False)"
| "thunk_loop m slot_ok bs info dll thunk_table first_thunk (Suc n) k acc =
     (let thunk_offset = thunk_table + k * kThunkEntrySize;
          thunk_value = rd64 bs thunk_offset;
          iat_slot_rva = first_thunk + k * kThunkEntrySize
      in
      if \<not> has_range bs thunk_offset kThunkEntrySize then Inr (acc, False)
      else if thunk_value = 0 then Inr (acc, True)
      else if size_of_image info < iat_slot_rva \<or>
              size_of_image info < iat_slot_rva + kThunkEntrySize \<or> \<not> slot_ok iat_slot_rva
      then fail Malformed (Import m (IatOutside iat_slot_rva dll))
      else case thunk_symbol m bs info iat_slot_rva thunk_value of
        Inl e \<Rightarrow> Inl e
      | Inr symbol \<Rightarrow>
          thunk_loop m slot_ok bs info dll thunk_table first_thunk n (Suc k) (acc @ [symbol]))"

definition import_thunks ::
    "bytes \<Rightarrow> PeInfo \<Rightarrow> string \<Rightarrow> nat \<Rightarrow> u32 \<Rightarrow> (ImportedSymbol list \<times> bool) parsed" where
  "import_thunks bs info dll thunk_table first_thunk =
     thunk_loop Static (\<lambda>_. True) bs info dll thunk_table first_thunk kMaxSymbolsPerDll 0 []"

definition delay_thunks ::
    "bytes \<Rightarrow> PeInfo \<Rightarrow> string \<Rightarrow> nat \<Rightarrow> u32 \<Rightarrow> (ImportedSymbol list \<times> bool) parsed" where
  "delay_thunks bs info dll thunk_table iat =
     thunk_loop Delay
       (\<lambda>slot. rva_to_file_offset bs info (to_u32 slot) kThunkEntrySize \<noteq> None)
       bs info dll thunk_table iat kMaxSymbolsPerDll 0 []"

subsection \<open>Descriptors\<close>

text \<open>One static descriptor that is not the terminator.\<close>

definition import_descriptor ::
    "bytes \<Rightarrow> PeInfo \<Rightarrow> nat \<Rightarrow> u32 \<Rightarrow> u32 \<Rightarrow> u32 \<Rightarrow> ImportedDll parsed" where
  "import_descriptor bs info idx original_first_thunk name_rva first_thunk =
     (if name_rva = 0 then fail Malformed (Import Static (ImportNoName idx))
      else case rva_to_file_offset bs info name_rva 1 of
        None \<Rightarrow> fail Malformed (Import Static (ImportNameOutside name_rva))
      | Some name_offset \<Rightarrow>
      (case read_cstring bs name_offset of
        None \<Rightarrow> fail Malformed (Import Static (ImportNameUnterminated name_rva))
      | Some dll \<Rightarrow>
      let thunk_rva = (if original_first_thunk \<noteq> 0 then original_first_thunk else first_thunk) in
      if thunk_rva = 0 \<or> first_thunk = 0
      then fail Malformed (Import Static (ImportNoThunks idx))
      else case rva_to_file_offset bs info thunk_rva kThunkEntrySize of
        None \<Rightarrow> fail Malformed (Import Static (ThunkTableOutside thunk_rva))
      | Some thunk_table \<Rightarrow>
      (case import_thunks bs info dll thunk_table first_thunk of
        Inl e \<Rightarrow> Inl e
      | Inr (syms, terminated) \<Rightarrow>
          if \<not> terminated then fail Malformed (Import Static (ThunksUnterminated dll))
          else Inr \<lparr>dll_name = dll, symbols = syms\<rparr>)))"

fun import_descriptors ::
    "bytes \<Rightarrow> PeInfo \<Rightarrow> nat \<Rightarrow> nat \<Rightarrow> nat \<Rightarrow> ImportedDll list \<Rightarrow> ImportedDll list parsed" where
  "import_descriptors bs info directory 0 idx acc = fail Malformed (Import Static ImportsUnterminated)"
| "import_descriptors bs info directory (Suc n) idx acc =
     (let descriptor_offset = directory + idx * kImportDescriptorSize;
          original_first_thunk = rd32 bs descriptor_offset;
          name_rva = rd32 bs (descriptor_offset + 12);
          first_thunk = rd32 bs (descriptor_offset + 16)
      in
      if original_first_thunk = 0 \<and> name_rva = 0 \<and> first_thunk = 0 then Inr acc
      else case import_descriptor bs info idx original_first_thunk name_rva first_thunk of
        Inl e \<Rightarrow> Inl e
      | Inr dll \<Rightarrow> import_descriptors bs info directory n (Suc idx) (acc @ [dll]))"

definition parse_imports :: "bytes \<Rightarrow> PeInfo \<Rightarrow> PeInfo parsed" where
  "parse_imports bs info =
     (if import_directory_rva info = 0 \<and> import_directory_size info = 0 then Inr info
      else if import_directory_size info < kImportDescriptorSize
      then fail Malformed (Import Static ImportDirTooSmall)
      else case rva_to_file_offset bs info (import_directory_rva info) (import_directory_size info)
      of None \<Rightarrow> fail Malformed (Import Static (ImportDirOutside (import_directory_rva info)))
       | Some directory \<Rightarrow>
           (case import_descriptors bs info directory
                   (min (import_directory_size info div kImportDescriptorSize) kMaxImportDlls)
                   0 (imports' info) of
              Inl e \<Rightarrow> Inl e
            | Inr dlls \<Rightarrow> Inr (info\<lparr>imports' := dlls\<rparr>)))"

text \<open>One delayed descriptor that is not the terminator.\<close>

definition delay_descriptor ::
    "bytes \<Rightarrow> PeInfo \<Rightarrow> nat \<Rightarrow> u32 \<Rightarrow> u32 \<Rightarrow> u32 \<Rightarrow> u32 \<Rightarrow> ImportedDll parsed" where
  "delay_descriptor bs info idx attributes name_rva iat int_rva =
     (if attributes \<noteq> kDelayImportAttrRva
      then fail UnsupportedMechanism (Import Delay (DelayAttributes idx))
      else if name_rva = 0 \<or> iat = 0 \<or> int_rva = 0
      then fail Malformed (Import Delay (DelayFieldsMissing idx))
      else case rva_to_file_offset bs info name_rva 1 of
        None \<Rightarrow> fail Malformed (Import Delay (ImportNameOutside name_rva))
      | Some name_offset \<Rightarrow>
      (case read_cstring bs name_offset of
        None \<Rightarrow> fail Malformed (Import Delay (ImportNameUnterminated name_rva))
      | Some dll \<Rightarrow>
      (case rva_to_file_offset bs info int_rva kThunkEntrySize of
        None \<Rightarrow> fail Malformed (Import Delay (ThunkTableOutside int_rva))
      | Some thunk_table \<Rightarrow>
      (case delay_thunks bs info dll thunk_table iat of
        Inl e \<Rightarrow> Inl e
      | Inr (syms, terminated) \<Rightarrow>
          if \<not> terminated then fail Malformed (Import Delay (ThunksUnterminated dll))
          else Inr \<lparr>dll_name = dll, symbols = syms\<rparr>))))"

fun delay_descriptors ::
    "bytes \<Rightarrow> PeInfo \<Rightarrow> nat \<Rightarrow> nat \<Rightarrow> nat \<Rightarrow> ImportedDll list \<Rightarrow> ImportedDll list parsed" where
  "delay_descriptors bs info directory 0 idx acc = fail Malformed (Import Delay ImportsUnterminated)"
| "delay_descriptors bs info directory (Suc n) idx acc =
     (let descriptor_offset = directory + idx * kDelayImportDescriptorSize;
          attributes = rd32 bs descriptor_offset;
          name_rva = rd32 bs (descriptor_offset + 4);
          module_handle_rva = rd32 bs (descriptor_offset + 8);
          iat = rd32 bs (descriptor_offset + 12);
          int_rva = rd32 bs (descriptor_offset + 16);
          bound_iat_rva = rd32 bs (descriptor_offset + 20);
          unload_iat_rva = rd32 bs (descriptor_offset + 24);
          timestamp = rd32 bs (descriptor_offset + 28)
      in
      if attributes = 0 \<and> name_rva = 0 \<and> module_handle_rva = 0 \<and> iat = 0 \<and> int_rva = 0 \<and>
         bound_iat_rva = 0 \<and> unload_iat_rva = 0 \<and> timestamp = 0
      then Inr acc
      else case delay_descriptor bs info idx attributes name_rva iat int_rva of
        Inl e \<Rightarrow> Inl e
      | Inr dll \<Rightarrow> delay_descriptors bs info directory n (Suc idx) (acc @ [dll]))"

definition parse_delay_imports :: "bytes \<Rightarrow> PeInfo \<Rightarrow> PeInfo parsed" where
  "parse_delay_imports bs info =
     (if delay_import_directory_rva info = 0 \<and> delay_import_directory_size info = 0 then Inr info
      else if delay_import_directory_size info < kDelayImportDescriptorSize
      then fail Malformed (Import Delay ImportDirTooSmall)
      else case rva_to_file_offset bs info (delay_import_directory_rva info)
                  (delay_import_directory_size info)
      of None \<Rightarrow> fail Malformed (Import Delay (ImportDirOutside (delay_import_directory_rva info)))
       | Some directory \<Rightarrow>
           (case delay_descriptors bs info directory
                   (min (delay_import_directory_size info div kDelayImportDescriptorSize)
                        kMaxImportDlls)
                   0 (delay_imports info) of
              Inl e \<Rightarrow> Inl e
            | Inr dlls \<Rightarrow> Inr (info\<lparr>delay_imports := dlls\<rparr>)))"

subsection \<open>What the thunk loop returns\<close>

text \<open>
  Symbol \<open>j\<close> of a table comes from the non-zero thunk \<open>j\<close>; its slot is entry \<open>j\<close> of the import
  address table, entirely inside the image.
\<close>

definition symbol_of_thunk :: "bytes \<Rightarrow> PeInfo \<Rightarrow> nat \<Rightarrow> u32 \<Rightarrow> nat \<Rightarrow> ImportedSymbol \<Rightarrow> bool" where
  "symbol_of_thunk bs info table first_thunk j isym \<longleftrightarrow>
     table + j * 8 + 8 \<le> length bs \<and>
     (let v = le64 bs (table + j * 8) in
      v \<noteq> 0 \<and>
      iat_rva isym = first_thunk + j * 8 \<and> iat_rva isym + 8 \<le> size_of_image info \<and>
      imp_by_ordinal isym = (v AND kOrdinalFlag64 \<noteq> 0) \<and>
      imp_ordinal isym = (if imp_by_ordinal isym then v AND 0xFFFF else 0) \<and>
      (imp_by_ordinal isym \<longrightarrow> imp_name isym = []) \<and>
      (\<not> imp_by_ordinal isym \<longrightarrow>
         v \<le> u32_max \<and>
         (\<exists>off. rva_to_file_offset bs info v 2 = Some off \<and>
                read_cstring bs (off + 2) = Some (imp_name isym))))"

definition symbols_of_table :: "bytes \<Rightarrow> PeInfo \<Rightarrow> nat \<Rightarrow> u32 \<Rightarrow> ImportedSymbol list \<Rightarrow> bool" where
  "symbols_of_table bs info table first_thunk syms \<longleftrightarrow>
     (\<forall>j < length syms. symbol_of_thunk bs info table first_thunk j (syms ! j))"

lemma symbols_of_table_snoc:
  "symbols_of_table bs info table ft syms \<Longrightarrow> symbol_of_thunk bs info table ft (length syms) isym \<Longrightarrow>
     symbols_of_table bs info table ft (syms @ [isym])"
  by (auto simp: symbols_of_table_def nth_append less_Suc_eq)

lemma thunk_symbol_Inr:
  assumes "thunk_symbol m bs info slot v = Inr isym"
    and "v = le64 bs (table + j * 8)" "v \<noteq> 0" "table + j * 8 + 8 \<le> length bs"
    and "slot = ft + j * 8" "slot + 8 \<le> size_of_image info" "size_of_image info \<le> u32_max"
  shows "symbol_of_thunk bs info table ft j isym"
proof -
  have "slot \<le> u32_max" using assms(6,7) by simp
  moreover have "v AND 0xFFFF \<le> u16_max" by (rule nat_and_le2)
  ultimately show ?thesis
    using assms
    by (auto simp: thunk_symbol_def symbol_of_thunk_def Let_def kImportByNameHintSize_def
        split: if_splits option.splits)
qed

text \<open>The three ways an iteration of a loop goes on: end of data, terminator, one more entry.\<close>

lemma thunk_loop_Suc:
  assumes "thunk_loop m ok bs info dll table ft (Suc n) k acc = Inr r"
  obtains (truncated) "r = (acc, False)"
  | (terminator) "table + k * 8 + 8 \<le> length bs" "le64 bs (table + k * 8) = 0" "r = (acc, True)"
  | (entry) isym where "table + k * 8 + 8 \<le> length bs" "le64 bs (table + k * 8) \<noteq> 0"
      "ft + k * 8 + 8 \<le> size_of_image info" "ok (ft + k * 8)"
      "thunk_symbol m bs info (ft + k * 8) (le64 bs (table + k * 8)) = Inr isym"
      "thunk_loop m ok bs info dll table ft n (Suc k) (acc @ [isym]) = Inr r"
proof (cases "has_range bs (table + k * 8) 8")
  case False
  with assms show ?thesis by (intro truncated) (simp add: kThunkEntrySize_def)
next
  case True
  then have range: "table + k * 8 + 8 \<le> length bs" by (simp add: has_range_iff)
  show ?thesis
  proof (cases "le64 bs (table + k * 8) = 0")
    case True
    with assms range show ?thesis
      by (intro terminator) (simp_all add: kThunkEntrySize_def has_range_iff rd64_in)
  next
    case False
    with assms range show ?thesis
      by (auto simp: kThunkEntrySize_def has_range_iff rd64_in Let_def
          split: if_splits sum.splits intro: entry)
  qed
qed

declare thunk_loop.simps(2) [simp del]

lemma thunk_loop_spec:
  assumes "thunk_loop m ok bs info dll table ft n k acc = Inr (syms, terminated)"
    and "size_of_image info \<le> u32_max"
    and "symbols_of_table bs info table ft acc" "length acc = k"
  shows "symbols_of_table bs info table ft syms \<and> length syms \<le> k + n \<and>
    (terminated \<longrightarrow> length syms < k + n \<and> table + length syms * 8 + 8 \<le> length bs \<and>
       le64 bs (table + length syms * 8) = 0)"
  using assms(1,3,4)
proof (induction n arbitrary: k acc)
  case 0
  then show ?case by auto
next
  case (Suc n)
  from Suc.prems(1) show ?case
  proof (cases rule: thunk_loop_Suc)
    case truncated
    with Suc.prems show ?thesis by auto
  next
    case terminator
    with Suc.prems show ?thesis by auto
  next
    case (entry isym)
    have "symbol_of_thunk bs info table ft k isym"
      by (rule thunk_symbol_Inr [OF entry(5) refl]) (use entry assms(2) in auto)
    then have "symbols_of_table bs info table ft (acc @ [isym])"
      using Suc.prems(2,3) by (auto intro: symbols_of_table_snoc)
    from Suc.IH [OF entry(6) this] Suc.prems(3) show ?thesis by auto
  qed
qed

text \<open>The delay loop also checks that every slot it accepts is backed by the file.\<close>

lemma thunk_loop_slot_ok:
  assumes "thunk_loop m ok bs info dll table ft n k acc = Inr (syms, terminated)"
    and "size_of_image info \<le> u32_max"
    and "\<forall>s \<in> set acc. ok (iat_rva s)"
  shows "\<forall>s \<in> set syms. ok (iat_rva s)"
  using assms(1,3)
proof (induction n arbitrary: k acc)
  case 0
  then show ?case by auto
next
  case (Suc n)
  from Suc.prems(1) show ?case
  proof (cases rule: thunk_loop_Suc)
    case (entry isym)
    then have "iat_rva isym = ft + k * 8"
      using assms(2) by (auto simp: thunk_symbol_def split: if_splits option.splits)
    with entry Suc.prems(2) show ?thesis by (intro Suc.IH [OF entry(6)]) auto
  qed (use Suc.prems in auto)
qed

subsection \<open>What the directories guarantee\<close>

text \<open>
  A well-formed imported module: fewer than 4096 symbols, whose slots are consecutive entries
  of one address table inside the image.
\<close>

definition wf_import :: "bytes \<Rightarrow> PeInfo \<Rightarrow> ImportedDll \<Rightarrow> bool" where
  "wf_import bs info d \<longleftrightarrow> length (symbols d) < kMaxSymbolsPerDll \<and>
     (\<exists>table first_thunk. 0 < first_thunk \<and> symbols_of_table bs info table first_thunk (symbols d) \<and>
        table + length (symbols d) * 8 + 8 \<le> length bs \<and>
        le64 bs (table + length (symbols d) * 8) = 0)"

lemma import_descriptor_wf:
  assumes "import_descriptor bs info idx oft nr ft = Inr d" "size_of_image info \<le> u32_max"
  shows "wf_import bs info d"
proof -
  from assms(1) obtain table syms where
    t: "import_thunks bs info (dll_name d) table ft = Inr (syms, True)" and
    d: "symbols d = syms" and ft: "0 < ft"
    by (auto simp: import_descriptor_def Let_def split: if_splits option.splits sum.splits)
  have "symbols_of_table bs info table ft []" by (simp add: symbols_of_table_def)
  from thunk_loop_spec [OF t [unfolded import_thunks_def] assms(2) this]
  show ?thesis using d ft by (auto simp: wf_import_def)
qed

lemma delay_descriptor_wf:
  assumes "delay_descriptor bs info idx attrs nr iat int_rva = Inr d" "size_of_image info \<le> u32_max"
  shows "wf_import bs info d \<and>
    (\<forall>s \<in> set (symbols d). rva_to_file_offset bs info (iat_rva s) 8 \<noteq> None)"
proof -
  let ?ok = "\<lambda>slot. rva_to_file_offset bs info (to_u32 slot) kThunkEntrySize \<noteq> None"
  from assms(1) obtain table syms where
    t: "delay_thunks bs info (dll_name d) table iat = Inr (syms, True)" and
    d: "symbols d = syms" and iat: "0 < iat"
    by (auto simp: delay_descriptor_def split: if_splits option.splits sum.splits)
  have "symbols_of_table bs info table iat []" by (simp add: symbols_of_table_def)
  from thunk_loop_spec [OF t [unfolded delay_thunks_def] assms(2) this]
  have spec: "symbols_of_table bs info table iat syms" and wf: "wf_import bs info d"
    using d iat by (auto simp: wf_import_def)
  have "iat_rva s \<le> u32_max" if "s \<in> set syms" for s
    using spec that assms(2)
    by (auto simp: symbols_of_table_def symbol_of_thunk_def in_set_conv_nth Let_def)
  moreover have "\<forall>s \<in> set syms. ?ok (iat_rva s)"
    by (rule thunk_loop_slot_ok [OF t [unfolded delay_thunks_def] assms(2)]) simp
  ultimately show ?thesis using wf d by (auto simp: kThunkEntrySize_def)
qed

text \<open>The two descriptor loops are one: entries until the terminator, within the limit.\<close>

lemma import_descriptors_Suc:
  assumes "import_descriptors bs info dir (Suc n) idx acc = Inr dlls"
  shows "dlls = acc \<or> (\<exists>d oft nr ft. import_descriptor bs info idx oft nr ft = Inr d \<and>
    import_descriptors bs info dir n (Suc idx) (acc @ [d]) = Inr dlls)"
  using assms
  by (simp add: Let_def split: if_split_asm sum.split_asm) blast

lemma delay_descriptors_Suc:
  assumes "delay_descriptors bs info dir (Suc n) idx acc = Inr dlls"
  shows "dlls = acc \<or> (\<exists>d attrs nr iat int_rva. delay_descriptor bs info idx attrs nr iat int_rva = Inr d \<and>
    delay_descriptors bs info dir n (Suc idx) (acc @ [d]) = Inr dlls)"
  using assms
  by (simp only: delay_descriptors.simps Let_def split: if_split_asm sum.split_asm) blast+

declare import_descriptors.simps(2) [simp del] delay_descriptors.simps(2) [simp del]

lemma import_descriptors_wf:
  assumes "import_descriptors bs info dir n idx acc = Inr dlls" "size_of_image info \<le> u32_max"
    and "\<forall>d \<in> set acc. wf_import bs info d"
  shows "(\<forall>d \<in> set dlls. wf_import bs info d) \<and> length dlls < length acc + n"
  using assms(1,3)
proof (induction n arbitrary: idx acc)
  case 0
  then show ?case by simp
next
  case (Suc n)
  from import_descriptors_Suc [OF Suc.prems(1)] consider "dlls = acc"
    | d where "import_descriptors bs info dir n (Suc idx) (acc @ [d]) = Inr dlls" "wf_import bs info d"
    by (auto dest: import_descriptor_wf [OF _ assms(2)])
  then show ?case
  proof cases
    case 1
    with Suc.prems(2) show ?thesis by auto
  next
    case (2 d)
    from Suc.IH [OF 2(1)] 2(2) Suc.prems(2) show ?thesis by auto
  qed
qed

text \<open>A delayed import also has every slot backed by the file.\<close>

definition wf_delay_import :: "bytes \<Rightarrow> PeInfo \<Rightarrow> ImportedDll \<Rightarrow> bool" where
  "wf_delay_import bs info d \<longleftrightarrow> wf_import bs info d \<and>
     (\<forall>s \<in> set (symbols d). rva_to_file_offset bs info (iat_rva s) 8 \<noteq> None)"

lemma delay_descriptors_wf:
  assumes "delay_descriptors bs info dir n idx acc = Inr dlls" "size_of_image info \<le> u32_max"
    and "\<forall>d \<in> set acc. wf_delay_import bs info d"
  shows "(\<forall>d \<in> set dlls. wf_delay_import bs info d) \<and> length dlls < length acc + n"
  using assms(1,3)
proof (induction n arbitrary: idx acc)
  case 0
  then show ?case by simp
next
  case (Suc n)
  from delay_descriptors_Suc [OF Suc.prems(1)] consider "dlls = acc"
    | d where "delay_descriptors bs info dir n (Suc idx) (acc @ [d]) = Inr dlls"
      "wf_delay_import bs info d"
    using delay_descriptor_wf [OF _ assms(2)] unfolding wf_delay_import_def by blast
  then show ?case
  proof cases
    case 1
    with Suc.prems(2) show ?thesis by auto
  next
    case (2 d)
    from Suc.IH [OF 2(1)] 2(2) Suc.prems(2) show ?thesis by auto
  qed
qed

lemma parse_imports_Inr:
  assumes "parse_imports bs info = Inr info'" "size_of_image info \<le> u32_max" "imports' info = []"
  shows "\<exists>dlls. info' = info\<lparr>imports' := dlls\<rparr> \<and> (\<forall>d \<in> set dlls. wf_import bs info d) \<and>
    length dlls \<le> kMaxImportDlls"
proof -
  have same: "info = info\<lparr>imports' := []\<rparr>" using assms(3) by simp
  from assms(1,3) have "info' = info \<or> (\<exists>dir n dlls. info' = info\<lparr>imports' := dlls\<rparr> \<and>
      n \<le> kMaxImportDlls \<and> import_descriptors bs info dir n 0 [] = Inr dlls)"
    unfolding parse_imports_def
    by (simp split: if_split_asm option.split_asm sum.split_asm) (metis min.cobounded2)
  then show ?thesis
  proof (elim disjE exE conjE)
    assume "info' = info"
    then show ?thesis by (intro exI [of _ "[]"]) (use same in simp)
  next
    fix dir n dlls
    assume "info' = info\<lparr>imports' := dlls\<rparr>" "n \<le> kMaxImportDlls"
      and "import_descriptors bs info dir n 0 [] = Inr dlls"
    then show ?thesis using import_descriptors_wf [OF _ assms(2), of bs dir n 0 "[]" dlls] by auto
  qed
qed

lemma parse_delay_imports_Inr:
  assumes "parse_delay_imports bs info = Inr info'" "size_of_image info \<le> u32_max"
    "delay_imports info = []"
  shows "\<exists>dlls. info' = info\<lparr>delay_imports := dlls\<rparr> \<and>
    (\<forall>d \<in> set dlls. wf_delay_import bs info d) \<and> length dlls \<le> kMaxImportDlls"
proof -
  have same: "info = info\<lparr>delay_imports := []\<rparr>" using assms(3) by simp
  from assms(1,3) have "info' = info \<or> (\<exists>dir n dlls. info' = info\<lparr>delay_imports := dlls\<rparr> \<and>
      n \<le> kMaxImportDlls \<and> delay_descriptors bs info dir n 0 [] = Inr dlls)"
    unfolding parse_delay_imports_def
    by (simp split: if_split_asm option.split_asm sum.split_asm) (metis min.cobounded2)
  then show ?thesis
  proof (elim disjE exE conjE)
    assume "info' = info"
    then show ?thesis by (intro exI [of _ "[]"]) (use same in simp)
  next
    fix dir n dlls
    assume "info' = info\<lparr>delay_imports := dlls\<rparr>" "n \<le> kMaxImportDlls"
      and "delay_descriptors bs info dir n 0 [] = Inr dlls"
    then show ?thesis using delay_descriptors_wf [OF _ assms(2), of bs dir n 0 "[]" dlls] by auto
  qed
qed

subsection \<open>Properties\<close>

text \<open>
  Every DLL of a parsed import directory has exactly the symbols of a table of thunks in
  the file, in order, up to a zero thunk: by ordinal when the top bit is set, otherwise by the
  name the thunk points to, with address-table slots eight bytes apart inside the image. There
  are at most 1024 DLLs with fewer than 4096 symbols each.
\<close>

theorem import_tables_read:
  assumes "parse_imports bs info = Inr info'" "imports' info = []" "size_of_image info \<le> u32_max"
  shows "(\<forall>d \<in> set (imports' info'). wf_import bs info d) \<and> length (imports' info') \<le> kMaxImportDlls"
  using parse_imports_Inr [OF assms(1,3,2)] by auto

definition import_file :: bytes where
  "import_file =
    [0, 0, 0, 0, 0, 0, 0, 0, 0, 0, 0, 0, 0, 0, 0, 0, 0, 0, 0, 0,
     0x40, 0, 0, 0, 0x30, 0, 0, 0, 0, 0, 0, 0, 0, 0, 0, 0, 0, 0, 0, 0,
     0, 0, 0, 0, 0, 0, 0, 0, 7, 0, 0, 0, 0, 0, 0, 0x80, 0, 0, 0, 0,
     0, 0, 0, 0, 0x6b, 0]"

definition import_info :: PeInfo where
  "import_info = empty_info\<lparr>size_of_image := 200, size_of_headers := 66, import_directory_rva := 8,
     import_directory_size := 40\<rparr>"

lemma import_file_reads: "length import_file = 66"
  "rd32 import_file 8 = 0" "rd32 import_file 20 = 64" "rd32 import_file 24 = 48" "rd32 import_file 28 = 0"
  "rd32 import_file 40 = 0" "rd32 import_file 44 = 0" "rd64 import_file 48 = 0x8000000000000007"
  "rd64 import_file 56 = 0" "read_cstring import_file 64 = Some ''k''"
  by (simp_all add: rd32_in rd64_in le32_def le64_def byte_at_def import_file_def
      read_cstring_def cstring_end.simps kMaxCString_def chars_of_def char_of_def bit_Suc_0_iff)

lemma import_thunks_run: "import_thunks import_file import_info dll 48 48 =
  Inr ([\<lparr>imp_by_ordinal = True, imp_ordinal = 7, imp_name = [], iat_rva = 48\<rparr>], True)"
proof -
  define n :: nat where "n = 4094"
  have fuel: "kMaxSymbolsPerDll = Suc (Suc n)" by (simp add: kMaxSymbolsPerDll_def n_def)
  have symbol: "thunk_symbol Static import_file import_info 48 0x8000000000000007 =
      Inr \<lparr>imp_by_ordinal = True, imp_ordinal = 7, imp_name = [], iat_rva = 48\<rparr>"
    by (simp add: thunk_symbol_def kOrdinalFlag64_def to_u16_def to_u32_def)
  show ?thesis
    unfolding import_thunks_def fuel
    by (simp add: thunk_loop.simps(2) has_range_def import_file_reads kThunkEntrySize_def symbol)
      (simp add: import_info_def)
qed

lemma import_parsed: "parse_imports import_file import_info = Inr (import_info\<lparr>imports' :=
    [\<lparr>dll_name = ''k'', symbols = [\<lparr>imp_by_ordinal = True, imp_ordinal = 7, imp_name = [], iat_rva = 48\<rparr>]\<rparr>]\<rparr>)"
proof -
  have fields: "import_directory_rva import_info = 8" "import_directory_size import_info = 40"
    "size_of_headers import_info = 66" "imports' import_info = []"
    by (simp_all add: import_info_def empty_info_def)
  have "import_descriptor import_file import_info 0 0 64 48 =
      Inr \<lparr>dll_name = ''k'', symbols = [\<lparr>imp_by_ordinal = True, imp_ordinal = 7, imp_name = [], iat_rva = 48\<rparr>]\<rparr>"
    by (simp add: import_descriptor_def rva_to_file_offset_def fields import_file_reads import_thunks_run
        kThunkEntrySize_def)
  then have "import_descriptors import_file import_info 8 (Suc (Suc 0)) 0 [] =
      Inr [\<lparr>dll_name = ''k'', symbols = [\<lparr>imp_by_ordinal = True, imp_ordinal = 7, imp_name = [], iat_rva = 48\<rparr>]\<rparr>]"
    by (simp add: import_descriptors.simps(2) import_file_reads kImportDescriptorSize_def)
  then show ?thesis
    by (simp add: parse_imports_def rva_to_file_offset_def fields import_file_reads kImportDescriptorSize_def
        kMaxImportDlls_def numeral_2_eq_2)
qed

theorem import_tables_read_witness:
  "wf_import import_file import_info
     \<lparr>dll_name = ''k'', symbols = [\<lparr>imp_by_ordinal = True, imp_ordinal = 7, imp_name = [], iat_rva = 48\<rparr>]\<rparr>"
  using import_tables_read [OF import_parsed] by (simp add: import_info_def empty_info_def)

end
