(* ===== verification/Pe_Unwind.thy ===== *)
theory Pe_Unwind
  imports Pe_Reader
begin

text \<open>
  The unwind data of a function: \<open>PeParser::parse_unwind_info\<close> of \<open>src/pe/pe_reader.cpp\<close>, split
  at its parts: the header word (\<open>read_unwind_header\<close>), the epilog descriptors of version 2
  (\<open>parse_epilogs\<close>), the loop over the unwind codes (\<open>decode_operation\<close>, \<open>codes_loop\<close>) and the
  tail with the handler or the chained function (\<open>parse_unwind_tail\<close>).
\<close>

subsection \<open>Registers and raw codes\<close>

definition is_valid_gpr :: "u8 \<Rightarrow> bool" where
  "is_valid_gpr register_number \<longleftrightarrow> register_number \<le> 15 \<and> register_number \<noteq> 4"

definition is_nonvolatile_register :: "u8 \<Rightarrow> bool" where
  "is_nonvolatile_register register_number \<longleftrightarrow>
     register_number = 3 \<or> register_number = 5 \<or> register_number = 6 \<or> register_number = 7 \<or>
     (12 \<le> register_number \<and> register_number \<le> 15)"

definition raw_operation :: "u16 \<Rightarrow> u8" where
  "raw_operation raw_code = to_u8 (drop_bit 8 raw_code AND 0x0F)"

definition raw_code_offset :: "u16 \<Rightarrow> u8" where
  "raw_code_offset raw_code = to_u8 (raw_code AND 0xFF)"

definition raw_operation_info :: "u16 \<Rightarrow> u8" where
  "raw_operation_info raw_code = to_u8 (drop_bit 12 raw_code AND 0x0F)"

definition read_raw_code :: "bytes \<Rightarrow> nat \<Rightarrow> nat \<Rightarrow> u16" where
  "read_raw_code bs codes_off slot = rd16 bs (codes_off + slot * kUnwindCodeSize)"

lemma raw_fields_le [range_simps]:
  "raw_operation r \<le> 15" "raw_code_offset r \<le> u8_max" "raw_operation_info r \<le> 15"
proof -
  have m: "to_u8 (x AND 15) \<le> 15" for x :: nat
    using nat_and_le2 [of x 15] by (simp add: to_u8_def)
  show "raw_operation r \<le> 15" "raw_operation_info r \<le> 15"
    using m by (simp_all add: raw_operation_def raw_operation_info_def)
  show "raw_code_offset r \<le> u8_max" by (simp add: raw_code_offset_def to_u8_le)
qed

subsection \<open>The header word\<close>

definition read_unwind_header :: "u32 \<Rightarrow> UnwindInfo" where
  "read_unwind_header header_word = empty_unwind\<lparr>
     version := to_u8 (header_word AND 0x7),
     flags := to_u8 (drop_bit 3 header_word AND 0x1F),
     prolog_size := to_u8 (drop_bit 8 header_word AND 0xFF),
     frame_register := to_u8 (drop_bit 24 header_word AND 0x0F),
     frame_offset := to_u8 (drop_bit 28 header_word AND 0x0F)\<rparr>"

definition header_code_count :: "u32 \<Rightarrow> u8" where
  "header_code_count header_word = to_u8 (drop_bit 16 header_word AND 0xFF)"

subsection \<open>Epilogs of version 2\<close>

text \<open>\<open>distance_from_end\<close> of a descriptor: 12 bits, the high nibble from its operation info.\<close>

definition epilog_distance :: "u16 \<Rightarrow> u32" where
  "epilog_distance d = push_bit 8 (raw_operation_info d) OR raw_code_offset d"

definition append_epilog ::
    "u32 \<Rightarrow> u32 \<Rightarrow> u32 \<Rightarrow> u8 \<Rightarrow> u32 \<Rightarrow> UnwindEpilog list \<Rightarrow> UnwindEpilog list parsed" where
  "append_epilog unwind_rva function_begin function_end epilog_size distance_from_end acc =
     (let function_size = function_end - function_begin in
      if distance_from_end < epilog_size \<or> function_size < distance_from_end
      then fail Malformed (Epilog (EpilogOutside unwind_rva))
      else
        let begin = function_end - distance_from_end; end' = begin + epilog_size in
        if function_end < end' then fail Malformed (Epilog (EpilogExceeds unwind_rva))
        else Inr (acc @ [\<lparr>ep_begin_rva = begin, ep_end_rva = to_u32 end'\<rparr>]))"

text \<open>The loop over the further offset descriptors: the next slot and the epilogs.\<close>

function epilog_loop ::
    "bytes \<Rightarrow> nat \<Rightarrow> nat \<Rightarrow> u32 \<Rightarrow> u32 \<Rightarrow> u32 \<Rightarrow> u8 \<Rightarrow> nat \<Rightarrow> UnwindEpilog list \<Rightarrow>
       (nat \<times> UnwindEpilog list) parsed" where
  "epilog_loop bs codes_off code_count unwind_rva fb fe epilog_size slot acc =
     (if slot < code_count then
        (let d = read_raw_code bs codes_off slot in
         if raw_operation d \<noteq> kUnwindOpEpilog then Inr (slot, acc)
         else if epilog_distance d = 0 then Inr (slot + 1, acc)
         else case append_epilog unwind_rva fb fe epilog_size (epilog_distance d) acc of
           Inl e \<Rightarrow> Inl e
         | Inr acc' \<Rightarrow>
             epilog_loop bs codes_off code_count unwind_rva fb fe epilog_size (slot + 1) acc')
      else Inr (slot, acc))"
  by pat_completeness auto
termination
  by (relation "measure (\<lambda>(bs, codes_off, code_count, u, fb, fe, sz, slot, acc). code_count - slot)")
    auto

declare epilog_loop.simps [simp del]

text \<open>Consecutive epilogs may not overlap once they are sorted by their begin.\<close>

fun epilogs_disjoint :: "UnwindEpilog list \<Rightarrow> bool" where
  "epilogs_disjoint (a # b # es) \<longleftrightarrow> \<not> ep_begin_rva b < ep_end_rva a \<and> epilogs_disjoint (b # es)"
| "epilogs_disjoint _ \<longleftrightarrow> True"

definition first_epilog ::
    "bytes \<Rightarrow> nat \<Rightarrow> nat \<Rightarrow> u32 \<Rightarrow> u32 \<Rightarrow> u32 \<Rightarrow> u8 \<Rightarrow> u8 \<Rightarrow> (nat \<times> UnwindEpilog list) parsed" where
  "first_epilog bs codes_off code_count unwind_rva fb fe epilog_size epilog_flags =
     (if epilog_flags AND kUnwindV2EpilogAtFunctionEnd \<noteq> 0 then
        (case append_epilog unwind_rva fb fe epilog_size epilog_size [] of
           Inl e \<Rightarrow> Inl e | Inr acc \<Rightarrow> Inr (1, acc))
      else if 1 = code_count then fail Malformed (Epilog (EpilogNoOffset unwind_rva))
      else
        let d = read_raw_code bs codes_off 1 in
        if raw_operation d \<noteq> kUnwindOpEpilog
        then fail Malformed (Epilog (EpilogOffsetNotEpilog unwind_rva))
        else if epilog_distance d = 0 then fail Malformed (Epilog (EpilogOffsetZero unwind_rva))
        else case append_epilog unwind_rva fb fe epilog_size (epilog_distance d) [] of
          Inl e \<Rightarrow> Inl e | Inr acc \<Rightarrow> Inr (2, acc))"

definition parse_epilogs ::
    "bytes \<Rightarrow> nat \<Rightarrow> nat \<Rightarrow> u32 \<Rightarrow> u32 \<Rightarrow> u32 \<Rightarrow> u8 \<Rightarrow> (nat \<times> UnwindEpilog list) parsed" where
  "parse_epilogs bs codes_off code_count unwind_rva fb fe ver =
     (if ver = kUnwindVersion2 \<and> code_count \<noteq> 0 then
        let first_descriptor = read_raw_code bs codes_off 0;
            epilog_size = raw_code_offset first_descriptor;
            epilog_flags = raw_operation_info first_descriptor
        in
        if raw_operation first_descriptor = kUnwindOpEpilog then
          if epilog_size = 0 then fail Malformed (Epilog (EpilogSizeZero unwind_rva))
          else if epilog_flags AND 0xFE \<noteq> 0
          then fail UnsupportedMechanism (Epilog (EpilogFlags unwind_rva))
          else case first_epilog bs codes_off code_count unwind_rva fb fe epilog_size epilog_flags of
            Inl e \<Rightarrow> Inl e
          | Inr (slot, acc) \<Rightarrow>
              (case epilog_loop bs codes_off code_count unwind_rva fb fe epilog_size slot acc of
                 Inl e \<Rightarrow> Inl e
               | Inr (slot', acc') \<Rightarrow>
                   let es = sort_key ep_begin_rva acc' in
                   if epilogs_disjoint es then Inr (slot', es)
                   else fail Malformed (Epilog (EpilogsOverlap unwind_rva)))
        else Inr (0, [])
      else Inr (0, []))"

subsection \<open>Unwind codes\<close>

text \<open>
  The \<open>switch\<close> over the operation: the operation, the operand it has already, and how many
  extra slots carry the rest. The flag says that \<open>UWOP_SET_FPREG\<close> uses its operation info.
\<close>

record decoded =
  d_operation :: UnwindOperation
  d_operand :: u32
  d_extra :: nat
  d_extended :: bool

definition decode_operation :: "u32 \<Rightarrow> u8 \<Rightarrow> u8 \<Rightarrow> u8 \<Rightarrow> u8 \<Rightarrow> decoded parsed" where
  "decode_operation unwind_rva frame_reg frame_off op info' =
     (let plain = \<lambda>o' n. Inr \<lparr>d_operation = o', d_operand = 0, d_extra = n, d_extended = False\<rparr> in
      if op = 0 then
        (if \<not> is_valid_gpr info' then fail Malformed (Code PushBadRegister) else plain PushNonVol 0)
      else if op = 1 then
        (if info' = 0 then plain AllocLarge 1
         else if info' = 1 then plain AllocLarge 2
         else fail Malformed (Code AllocLargeBadInfo))
      else if op = 2 then
        Inr \<lparr>d_operation = AllocSmall, d_operand = info' * 8 + 8, d_extra = 0, d_extended = False\<rparr>
      else if op = 3 then
        (if info' \<noteq> 0 \<and> \<not> is_valid_gpr info' \<and> info' \<noteq> frame_off
         then fail UnsupportedMechanism (Code (SetFpRegUnsupportedInfo unwind_rva))
         else if \<not> is_valid_gpr frame_reg
         then fail Malformed (Code (SetFpRegBadRegister unwind_rva frame_reg))
         else Inr \<lparr>d_operation = SetFpReg, d_operand = 0, d_extra = 0, d_extended = (info' \<noteq> 0)\<rparr>)
      else if op = 4 then
        (if \<not> is_valid_gpr info' then fail Malformed (Code SaveBadRegister) else plain SaveNonVol 1)
      else if op = 5 then
        (if \<not> is_valid_gpr info' then fail Malformed (Code SaveFarBadRegister)
         else plain SaveNonVolFar 2)
      else if op = 8 then plain SaveXmm128 1
      else if op = 9 then plain SaveXmm128Far 2
      else if op = 10 then
        (if 1 < info' then fail Malformed (Code MachFrameBadInfo) else plain PushMachFrame 0)
      else fail UnsupportedMechanism (Code (UnwindOpUnsupported op unwind_rva)))"

text \<open>The operand from the extra slots, scaled as the operation wants.\<close>

definition read_operand :: "bytes \<Rightarrow> nat \<Rightarrow> nat \<Rightarrow> decoded \<Rightarrow> u32 parsed" where
  "read_operand bs codes_off slot d =
     (if d_extra d = 1 then
        (let value = rd16 bs (codes_off + (slot + 1) * kUnwindCodeSize) in
         Inr (case d_operation d of
            AllocLarge \<Rightarrow> value * 8
          | SaveNonVol \<Rightarrow> value * 8
          | SaveXmm128 \<Rightarrow> value * 16
          | _ \<Rightarrow> d_operand d))
      else if d_extra d = 2 then
        (let value = rd32 bs (codes_off + (slot + 1) * kUnwindCodeSize) in
         if d_operation d = SaveXmm128Far \<and> value AND 0xF \<noteq> 0
         then fail Malformed (Code XmmFarUnaligned)
         else Inr value)
      else Inr (d_operand d))"

text \<open>
  The loop: \<open>prev\<close> is the previous code offset once there is one. The result is the codes and
  whether a \<open>UWOP_SET_FPREG\<close> was extended.
\<close>

function codes_loop ::
    "bytes \<Rightarrow> nat \<Rightarrow> nat \<Rightarrow> u32 \<Rightarrow> u8 \<Rightarrow> u8 \<Rightarrow> nat \<Rightarrow> u8 option \<Rightarrow> UnwindCode list \<Rightarrow> bool \<Rightarrow>
       (UnwindCode list \<times> bool) parsed" where
  "codes_loop bs codes_off code_count unwind_rva frame_reg frame_off slot prev acc ext =
     (if slot < code_count then
        (let raw_code = read_raw_code bs codes_off slot;
             coff = raw_code_offset raw_code
         in
         if (case prev of None \<Rightarrow> False | Some p \<Rightarrow> p < coff)
         then fail Malformed (Code CodesNotDescending)
         else case decode_operation unwind_rva frame_reg frame_off (raw_operation raw_code)
                     (raw_operation_info raw_code) of
           Inl e \<Rightarrow> Inl e
         | Inr d \<Rightarrow>
             if code_count - slot - 1 < d_extra d then fail Malformed (Code OperandTruncated)
             else case read_operand bs codes_off slot d of
               Inl e \<Rightarrow> Inl e
             | Inr operand' \<Rightarrow>
                 codes_loop bs codes_off code_count unwind_rva frame_reg frame_off
                   (slot + (d_extra d + 1)) (Some coff)
                   (acc @ [\<lparr>code_offset = coff, operation = d_operation d,
                            operation_info = raw_operation_info raw_code, operand = operand'\<rparr>])
                   (ext \<or> d_extended d))
      else Inr (acc, ext))"
  by pat_completeness auto
termination
  by (relation "measure (\<lambda>(bs, codes_off, code_count, u, fr, fo, slot, p, acc, x). code_count - slot)")
    auto

declare codes_loop.simps [simp del]

subsection \<open>The tail\<close>

definition parse_unwind_tail :: "bytes \<Rightarrow> PeInfo \<Rightarrow> u64 \<Rightarrow> UnwindInfo \<Rightarrow> UnwindInfo parsed" where
  "parse_unwind_tail bs info code_end u =
     (let aligned_tail = (code_end + 3) div 4 * 4;
          handlers = kUnwindFlagEHandler OR kUnwindFlagUHandler
      in
      if size_of_image info < aligned_tail \<or> u32_max < aligned_tail
      then fail Malformed (Unwind UnwindTailExceedsImage)
      else
        let tail_rva = to_u32 aligned_tail in
        if flags u AND kUnwindFlagChainInfo \<noteq> 0 then
          if flags u AND handlers \<noteq> 0 then fail Malformed (Unwind HandlerAndChain)
          else case rva_to_file_offset bs info tail_rva kRuntimeFunctionSize of
            None \<Rightarrow> fail Malformed (Unwind ChainTruncated)
          | Some chain \<Rightarrow>
              Inr (u\<lparr>chained_begin_rva := rd32 bs chain, chained_end_rva := rd32 bs (chain + 4),
                     chained_unwind_info_rva := rd32 bs (chain + 8),
                     has_chained_function := True\<rparr>)
        else if flags u AND handlers \<noteq> 0 then
          (case rva_to_file_offset bs info tail_rva 4 of
             None \<Rightarrow> fail Malformed (Unwind HandlerTruncated)
           | Some handler \<Rightarrow>
               let h = rd32 bs handler; data_rva = tail_rva + 4 in
               if h = 0 \<or> rva_to_file_offset bs info h 1 = None
               then fail Malformed (Unwind HandlerOutside)
               else if size_of_image info < data_rva
               then fail Malformed (Unwind HandlerDataOutside)
               else Inr (u\<lparr>handler_rva := h, handler_data_rva := to_u32 data_rva\<rparr>))
        else Inr u)"

subsection \<open>The whole of UNWIND_INFO\<close>

text \<open>The codes of a function, the epilogs first; \<open>codes_off\<close> is where the codes are in the file.\<close>

definition parse_unwind_codes ::
    "bytes \<Rightarrow> nat \<Rightarrow> nat \<Rightarrow> u32 \<Rightarrow> u32 \<Rightarrow> u32 \<Rightarrow> UnwindInfo \<Rightarrow> UnwindInfo parsed" where
  "parse_unwind_codes bs codes_off code_count unwind_rva fb fe u =
     (case parse_epilogs bs codes_off code_count unwind_rva fb fe (version u) of
        Inl e \<Rightarrow> Inl e
      | Inr (slot, eps) \<Rightarrow>
          (case codes_loop bs codes_off code_count unwind_rva (frame_register u) (frame_offset u)
                  slot None [] False of
             Inl e \<Rightarrow> Inl e
           | Inr (cs, ext) \<Rightarrow>
               Inr (u\<lparr>epilogs := eps, codes := cs, has_extended_set_fpreg := ext\<rparr>)))"

text \<open>The codes where the image has them; no codes at all need no place in the file.\<close>

definition read_unwind_codes ::
    "bytes \<Rightarrow> PeInfo \<Rightarrow> u32 \<Rightarrow> u32 \<Rightarrow> u32 \<Rightarrow> u8 \<Rightarrow> UnwindInfo \<Rightarrow> UnwindInfo parsed" where
  "read_unwind_codes bs info unwind_rva function_begin function_end code_count u =
     (case rva_to_file_offset bs info (unwind_rva + kUnwindInfoHeaderSize)
             (code_count * kUnwindCodeSize) of
        None \<Rightarrow> if code_count \<noteq> 0 then fail Malformed (Unwind UnwindCodesTruncated) else Inr u
      | Some codes_off \<Rightarrow>
          parse_unwind_codes bs codes_off code_count unwind_rva function_begin function_end u)"

definition parse_unwind_info :: "bytes \<Rightarrow> PeInfo \<Rightarrow> u32 \<Rightarrow> u32 \<Rightarrow> u32 \<Rightarrow> UnwindInfo parsed" where
  "parse_unwind_info bs info unwind_rva function_begin function_end =
     (if unwind_rva AND 0x3 \<noteq> 0 then fail Malformed (Unwind (UnwindUnaligned unwind_rva))
      else case rva_to_file_offset bs info unwind_rva kUnwindInfoHeaderSize of
        None \<Rightarrow> fail Malformed (Unwind (UnwindOutside unwind_rva))
      | Some header \<Rightarrow>
      let header_word = rd32 bs header;
          u = read_unwind_header header_word;
          code_count = header_code_count header_word;
          code_end = unwind_rva + kUnwindInfoHeaderSize + code_count * kUnwindCodeSize
      in
      if version u \<noteq> kUnwindVersion1 \<and> version u \<noteq> kUnwindVersion2
      then fail UnsupportedMechanism (Unwind (UnwindVersion (version u) unwind_rva))
      else if flags u AND 0xF8 \<noteq> 0 then fail UnsupportedMechanism (Unwind (UnwindFlags (flags u)))
      else if size_of_image info < code_end \<or> u32_max < code_end
      then fail Malformed (Unwind UnwindCodesExceedImage)
      else case read_unwind_codes bs info unwind_rva function_begin function_end code_count u of
        Inl e \<Rightarrow> Inl e
      | Inr u' \<Rightarrow> parse_unwind_tail bs info code_end u')"

subsection \<open>What accepted unwind codes satisfy\<close>

text \<open>The shape of each operation, and how many 16-bit slots it takes.\<close>

definition wf_operation :: "UnwindOperation \<Rightarrow> u8 \<Rightarrow> u32 \<Rightarrow> bool" where
  "wf_operation op info' n \<longleftrightarrow>
     (case op of
        PushNonVol \<Rightarrow> is_valid_gpr info' \<and> n = 0
      | AllocLarge \<Rightarrow> info' = 0 \<and> 8 dvd n \<and> n \<le> 8 * u16_max \<or> info' = 1
      | AllocSmall \<Rightarrow> n = info' * 8 + 8
      | SetFpReg \<Rightarrow> n = 0
      | SaveNonVol \<Rightarrow> is_valid_gpr info' \<and> 8 dvd n \<and> n \<le> 8 * u16_max
      | SaveNonVolFar \<Rightarrow> is_valid_gpr info'
      | SaveXmm128 \<Rightarrow> 16 dvd n \<and> n \<le> 16 * u16_max
      | SaveXmm128Far \<Rightarrow> 16 dvd n
      | PushMachFrame \<Rightarrow> info' \<le> 1 \<and> n = 0)"

definition wf_code :: "UnwindCode \<Rightarrow> bool" where
  "wf_code c \<longleftrightarrow> code_offset c \<le> u8_max \<and> operation_info c \<le> 15 \<and> operand c \<le> u32_max \<and>
     wf_operation (operation c) (operation_info c) (operand c)"

definition code_slots :: "UnwindCode \<Rightarrow> nat" where
  "code_slots c =
     (case operation c of
        AllocLarge \<Rightarrow> if operation_info c = 0 then 2 else 3
      | SaveNonVol \<Rightarrow> 2
      | SaveXmm128 \<Rightarrow> 2
      | SaveNonVolFar \<Rightarrow> 3
      | SaveXmm128Far \<Rightarrow> 3
      | _ \<Rightarrow> 1)"

lemma and_15_mod: "(n::nat) AND 15 = n mod 16"
  using take_bit_eq_mask [of 4 n] by (simp add: take_bit_eq_mod mask_eq_exp_minus_1)

text \<open>The outcomes of the \<open>switch\<close>, one by one.\<close>

inductive decodes :: "u8 \<Rightarrow> u8 \<Rightarrow> decoded \<Rightarrow> bool" for fr i where
  push: "is_valid_gpr i \<Longrightarrow> decodes fr i \<lparr>d_operation = PushNonVol, d_operand = 0, d_extra = 0, d_extended = False\<rparr>"
| large: "i \<le> 1 \<Longrightarrow> decodes fr i \<lparr>d_operation = AllocLarge, d_operand = 0, d_extra = i + 1, d_extended = False\<rparr>"
| small: "decodes fr i \<lparr>d_operation = AllocSmall, d_operand = i * 8 + 8, d_extra = 0, d_extended = False\<rparr>"
| set_fp: "is_valid_gpr fr \<Longrightarrow> decodes fr i \<lparr>d_operation = SetFpReg, d_operand = 0, d_extra = 0, d_extended = (i \<noteq> 0)\<rparr>"
| save: "is_valid_gpr i \<Longrightarrow> decodes fr i \<lparr>d_operation = SaveNonVol, d_operand = 0, d_extra = 1, d_extended = False\<rparr>"
| far: "is_valid_gpr i \<Longrightarrow> decodes fr i \<lparr>d_operation = SaveNonVolFar, d_operand = 0, d_extra = 2, d_extended = False\<rparr>"
| xmm: "decodes fr i \<lparr>d_operation = SaveXmm128, d_operand = 0, d_extra = 1, d_extended = False\<rparr>"
| xmm_far: "decodes fr i \<lparr>d_operation = SaveXmm128Far, d_operand = 0, d_extra = 2, d_extended = False\<rparr>"
| mach: "i \<le> 1 \<Longrightarrow> decodes fr i \<lparr>d_operation = PushMachFrame, d_operand = 0, d_extra = 0, d_extended = False\<rparr>"

lemma decode_operation_decodes:
  "decode_operation u fr fo op i = Inr d \<Longrightarrow> decodes fr i d"
  by (auto simp: decode_operation_def Let_def split: if_split_asm) (simp_all add: decodes.simps)

lemma decode_read_wf:
  assumes "decode_operation u fr fo op i = Inr d" "read_operand bs off slot d = Inr n" "i \<le> 15"
  shows "wf_operation (d_operation d) i n \<and> n \<le> u32_max \<and>
    Suc (d_extra d) = code_slots \<lparr>code_offset = co, operation = d_operation d, operation_info = i,
      operand = n\<rparr> \<and>
    (d_operation d = SetFpReg \<longrightarrow> is_valid_gpr fr) \<and>
    (d_extended d \<longleftrightarrow> d_operation d = SetFpReg \<and> i \<noteq> 0)"
proof -
  let ?p = "off + (slot + 1) * kUnwindCodeSize"
  have w: "rd16 bs ?p \<le> u16_max" "rd32 bs ?p \<le> u32_max" by (rule rd16_le, rule rd32_le)
  have align: "16 dvd k" if "k AND 15 = 0" for k :: nat
    using that by (simp add: and_15_mod mod_eq_0_iff_dvd)
  from decode_operation_decodes [OF assms(1)] assms(2,3) w show ?thesis
    by cases
      (auto simp: read_operand_def wf_operation_def code_slots_def Let_def align le_Suc_eq
        split: if_split_asm)
qed

text \<open>The invariant of the code loop.\<close>

definition codes_ok :: "u8 \<Rightarrow> UnwindCode list \<Rightarrow> bool \<Rightarrow> bool" where
  "codes_ok fr cs ext \<longleftrightarrow>
     (\<forall>c \<in> set cs. wf_code c \<and> (operation c = SetFpReg \<longrightarrow> is_valid_gpr fr)) \<and>
     sorted_wrt (\<lambda>a b. code_offset b \<le> code_offset a) cs \<and>
     (ext \<longleftrightarrow> (\<exists>c \<in> set cs. operation c = SetFpReg \<and> operation_info c \<noteq> 0))"

definition total_slots :: "UnwindCode list \<Rightarrow> nat" where
  "total_slots cs = sum_list (map code_slots cs)"

lemma total_slots_simps [simp]:
  "total_slots [] = 0" "total_slots (cs @ [c]) = total_slots cs + code_slots c"
  by (simp_all add: total_slots_def)

lemma codes_ok_snoc:
  assumes "codes_ok fr cs ext" "wf_code c" "operation c = SetFpReg \<longrightarrow> is_valid_gpr fr"
    and "\<forall>x \<in> set cs. code_offset c \<le> code_offset x"
    and "x \<longleftrightarrow> operation c = SetFpReg \<and> operation_info c \<noteq> 0"
  shows "codes_ok fr (cs @ [c]) (ext \<or> x)"
  using assms by (auto simp: codes_ok_def sorted_wrt_append)

lemma codes_loop_step:
  assumes "codes_loop bs off cc u fr fo slot prev acc ext = Inr r" "slot < cc"
  obtains d n where
    "decode_operation u fr fo (raw_operation (read_raw_code bs off slot))
       (raw_operation_info (read_raw_code bs off slot)) = Inr d"
    "read_operand bs off slot d = Inr n"
    "case prev of None \<Rightarrow> True | Some p \<Rightarrow> raw_code_offset (read_raw_code bs off slot) \<le> p"
    "slot + Suc (d_extra d) \<le> cc"
    "codes_loop bs off cc u fr fo (slot + Suc (d_extra d))
       (Some (raw_code_offset (read_raw_code bs off slot)))
       (acc @ [\<lparr>code_offset = raw_code_offset (read_raw_code bs off slot),
                operation = d_operation d,
                operation_info = raw_operation_info (read_raw_code bs off slot),
                operand = n\<rparr>])
       (ext \<or> d_extended d) = Inr r"
proof -
  have "\<exists>d n. decode_operation u fr fo (raw_operation (read_raw_code bs off slot))
       (raw_operation_info (read_raw_code bs off slot)) = Inr d \<and>
    read_operand bs off slot d = Inr n \<and>
    (case prev of None \<Rightarrow> True | Some p \<Rightarrow> raw_code_offset (read_raw_code bs off slot) \<le> p) \<and>
    slot + Suc (d_extra d) \<le> cc \<and>
    codes_loop bs off cc u fr fo (slot + Suc (d_extra d))
       (Some (raw_code_offset (read_raw_code bs off slot)))
       (acc @ [\<lparr>code_offset = raw_code_offset (read_raw_code bs off slot),
                operation = d_operation d,
                operation_info = raw_operation_info (read_raw_code bs off slot),
                operand = n\<rparr>])
       (ext \<or> d_extended d) = Inr r"
    using assms
    by (subst (asm) codes_loop.simps)
      (auto simp: Let_def not_less split: if_split_asm sum.split_asm option.splits)
  then show ?thesis using that by blast
qed

lemma codes_loop_ok:
  assumes "codes_loop bs off cc u fr fo slot prev acc ext = Inr (cs, ext')"
    and "codes_ok fr acc ext" "slot \<le> cc"
    and "case prev of None \<Rightarrow> acc = [] | Some p \<Rightarrow> \<forall>c \<in> set acc. p \<le> code_offset c"
  shows "codes_ok fr cs ext' \<and> total_slots cs + slot = total_slots acc + cc"
  using assms
proof (induction "cc - slot" arbitrary: slot prev acc ext rule: less_induct)
  case less
  show ?case
  proof (cases "slot < cc")
    case False
    with less.prems show ?thesis by (subst (asm) codes_loop.simps) auto
  next
    case True
    let ?r = "read_raw_code bs off slot"
    from less.prems(1) True obtain d n where d:
      "decode_operation u fr fo (raw_operation ?r) (raw_operation_info ?r) = Inr d"
      "read_operand bs off slot d = Inr n"
      "case prev of None \<Rightarrow> True | Some p \<Rightarrow> raw_code_offset ?r \<le> p"
      "slot + Suc (d_extra d) \<le> cc" and
      rest: "codes_loop bs off cc u fr fo (slot + Suc (d_extra d)) (Some (raw_code_offset ?r))
        (acc @ [\<lparr>code_offset = raw_code_offset ?r, operation = d_operation d,
          operation_info = raw_operation_info ?r, operand = n\<rparr>]) (ext \<or> d_extended d) = Inr (cs, ext')"
      by (rule codes_loop_step)
    let ?c = "\<lparr>code_offset = raw_code_offset ?r, operation = d_operation d,
          operation_info = raw_operation_info ?r, operand = n\<rparr>"
    note wf = decode_read_wf [OF d(1,2) raw_fields_le(3), of "raw_code_offset ?r"]
    have below: "\<forall>x \<in> set acc. code_offset ?c \<le> code_offset x"
      using less.prems(4) d(3) by (auto split: option.splits)
    have ok: "codes_ok fr (acc @ [?c]) (ext \<or> d_extended d)"
      by (rule codes_ok_snoc [OF less.prems(2)])
        (use wf below in \<open>auto simp: wf_code_def raw_fields_le\<close>)
    have "codes_ok fr cs ext' \<and>
      total_slots cs + (slot + Suc (d_extra d)) = total_slots (acc @ [?c]) + cc"
      by (rule less.hyps [OF _ rest ok d(4)]) (use True below in auto)
    then show ?thesis using wf by auto
  qed
qed

subsection \<open>What accepted epilogs satisfy\<close>

definition wf_epilog :: "u32 \<Rightarrow> u32 \<Rightarrow> UnwindEpilog \<Rightarrow> bool" where
  "wf_epilog fb fe e \<longleftrightarrow>
     fb \<le> ep_begin_rva e \<and> ep_begin_rva e < ep_end_rva e \<and> ep_end_rva e \<le> fe"

lemma append_epilog_Inr:
  assumes "append_epilog u fb fe sz dist acc = Inr acc'"
    and "fe \<le> u32_max" "0 < sz" "fb \<le> fe"
    and "\<forall>e \<in> set acc. wf_epilog fb fe e"
  shows "\<forall>e \<in> set acc'. wf_epilog fb fe e"
  using assms by (auto simp: append_epilog_def Let_def wf_epilog_def split: if_splits)

lemma epilog_loop_ok:
  assumes "epilog_loop bs off cc u fb fe sz slot acc = Inr (slot', acc')"
    and "fe \<le> u32_max" "0 < sz" "fb \<le> fe" "slot \<le> cc"
    and "\<forall>e \<in> set acc. wf_epilog fb fe e"
  shows "(\<forall>e \<in> set acc'. wf_epilog fb fe e) \<and> slot \<le> slot' \<and> slot' \<le> cc"
  using assms(1,5,6)
proof (induction "cc - slot" arbitrary: slot acc rule: less_induct)
  case less
  let ?d = "read_raw_code bs off slot"
  from less.prems(1) consider "slot' = slot" "acc' = acc"
    | "slot < cc" "slot' = slot + 1" "acc' = acc"
    | acc1 where "slot < cc" "append_epilog u fb fe sz (epilog_distance ?d) acc = Inr acc1"
      "epilog_loop bs off cc u fb fe sz (slot + 1) acc1 = Inr (slot', acc')"
    by (subst (asm) epilog_loop.simps) (auto simp: Let_def split: if_splits sum.splits)
  then show ?case
  proof cases
    case (3 acc1)
    have "\<forall>e \<in> set acc1. wf_epilog fb fe e"
      by (rule append_epilog_Inr [OF 3(2) assms(2-4) less.prems(3)])
    from less.hyps [OF _ 3(3) _ this] 3(1)
    have "(\<forall>e \<in> set acc'. wf_epilog fb fe e) \<and> slot + 1 \<le> slot' \<and> slot' \<le> cc" by auto
    then show ?thesis by auto
  qed (use less.prems in auto)
qed

lemma epilogs_disjoint_sorted_wrt:
  assumes "epilogs_disjoint es" "\<forall>e \<in> set es. ep_begin_rva e < ep_end_rva e"
  shows "sorted_wrt (\<lambda>a b. ep_end_rva a \<le> ep_begin_rva b) es"
  using assms
proof (induction es rule: epilogs_disjoint.induct)
  case (1 a b es)
  then have tail: "sorted_wrt (\<lambda>a b. ep_end_rva a \<le> ep_begin_rva b) (b # es)" by simp
  have "ep_end_rva a \<le> ep_begin_rva b" using 1 by simp
  moreover have "ep_end_rva a \<le> ep_begin_rva e" if "e \<in> set es" for e
  proof -
    have "ep_end_rva b \<le> ep_begin_rva e" using tail that by simp
    with calculation 1(3) show ?thesis by auto
  qed
  ultimately show ?case using tail by simp
qed auto

text \<open>Accepted epilogs: inside the function, non-empty, in order, and disjoint.\<close>

definition epilogs_ok :: "u32 \<Rightarrow> u32 \<Rightarrow> UnwindEpilog list \<Rightarrow> bool" where
  "epilogs_ok fb fe es \<longleftrightarrow> (\<forall>e \<in> set es. wf_epilog fb fe e) \<and>
     sorted_wrt (\<lambda>a b. ep_end_rva a \<le> ep_begin_rva b) es"

lemma first_epilog_ok:
  assumes "first_epilog bs off cc u fb fe sz fl = Inr (slot, acc)"
    and "fe \<le> u32_max" "0 < sz" "fb \<le> fe" "0 < cc"
  shows "(\<forall>e \<in> set acc. wf_epilog fb fe e) \<and> slot \<le> cc"
proof -
  from assms(1,5) obtain dist where
    "append_epilog u fb fe sz dist [] = Inr acc" "slot \<le> cc"
    by (auto simp: first_epilog_def Let_def split: if_splits sum.splits)
  then show ?thesis using append_epilog_Inr [OF _ assms(2-4), of u dist "[]" acc] by simp
qed

lemma parse_epilogs_ok:
  assumes "parse_epilogs bs off cc u fb fe ver = Inr (slot, es)"
    and "fe \<le> u32_max" "fb \<le> fe"
  shows "epilogs_ok fb fe es \<and> slot \<le> cc \<and> (ver \<noteq> kUnwindVersion2 \<longrightarrow> slot = 0 \<and> es = [])"
proof (cases "slot = 0 \<and> es = []")
  case True
  then show ?thesis by (simp add: epilogs_ok_def)
next
  case False
  with assms(1) obtain sz fl slot0 acc0 acc where
    ver: "ver = kUnwindVersion2" and cc: "0 < cc" and sz: "0 < sz" and
    first: "first_epilog bs off cc u fb fe sz fl = Inr (slot0, acc0)" and
    loop: "epilog_loop bs off cc u fb fe sz slot0 acc0 = Inr (slot, acc)" and
    es: "es = sort_key ep_begin_rva acc" "epilogs_disjoint es"
    by (auto simp: parse_epilogs_def Let_def split: if_splits sum.splits)
  from first_epilog_ok [OF first assms(2) sz assms(3) cc]
  have acc0: "\<forall>e \<in> set acc0. wf_epilog fb fe e" "slot0 \<le> cc" by auto
  from epilog_loop_ok [OF loop assms(2) sz assms(3) acc0(2,1)]
  have acc: "\<forall>e \<in> set acc. wf_epilog fb fe e" "slot \<le> cc" by auto
  then have "\<forall>e \<in> set es. wf_epilog fb fe e" using es(1) by simp
  moreover from this es(2) have "sorted_wrt (\<lambda>a b. ep_end_rva a \<le> ep_begin_rva b) es"
    by (intro epilogs_disjoint_sorted_wrt) (auto simp: wf_epilog_def)
  ultimately show ?thesis using acc(2) ver by (simp add: epilogs_ok_def)
qed

subsection \<open>What accepted unwind information satisfies\<close>

text \<open>
  The fields of the header at their widths, the epilogs and the codes as above, at most 255
  slots, and never both a handler and a chained function.
\<close>

definition wf_unwind :: "PeInfo \<Rightarrow> u32 \<Rightarrow> u32 \<Rightarrow> UnwindInfo \<Rightarrow> bool" where
  "wf_unwind info fb fe u \<longleftrightarrow>
     (version u = 1 \<or> version u = 2) \<and> flags u \<le> 7 \<and> prolog_size u \<le> u8_max \<and>
     frame_register u \<le> 15 \<and> frame_offset u \<le> 15 \<and>
     epilogs_ok fb fe (epilogs u) \<and> (version u = 1 \<longrightarrow> epilogs u = []) \<and>
     codes_ok (frame_register u) (codes u) (has_extended_set_fpreg u) \<and>
     total_slots (codes u) \<le> u8_max \<and>
     (has_chained_function u \<longleftrightarrow> flags u AND kUnwindFlagChainInfo \<noteq> 0) \<and>
     (handler_rva u \<noteq> 0 \<longleftrightarrow> flags u AND (kUnwindFlagEHandler OR kUnwindFlagUHandler) \<noteq> 0) \<and>
     (handler_rva u \<noteq> 0 \<longrightarrow> \<not> has_chained_function u \<and> handler_data_rva u \<le> size_of_image info)"

lemma header_widths:
  "version (read_unwind_header h) \<le> 7" "flags (read_unwind_header h) \<le> 31"
  "prolog_size (read_unwind_header h) \<le> u8_max" "frame_register (read_unwind_header h) \<le> 15"
  "frame_offset (read_unwind_header h) \<le> 15" "header_code_count h \<le> u8_max"
proof -
  have m: "to_u8 (x AND k) \<le> k" for x k :: nat
    using nat_and_le2 [of x k] by (auto simp: to_u8_def intro: order_trans [OF mod_less_eq_dividend])
  show "version (read_unwind_header h) \<le> 7" "flags (read_unwind_header h) \<le> 31"
    "frame_register (read_unwind_header h) \<le> 15" "frame_offset (read_unwind_header h) \<le> 15"
    using m [of h 7] m [of "drop_bit 3 h" 31] m [of "drop_bit 24 h" 15] m [of "drop_bit 28 h" 15]
    by (simp_all add: read_unwind_header_def)
  show "prolog_size (read_unwind_header h) \<le> u8_max" "header_code_count h \<le> u8_max"
    by (simp_all add: read_unwind_header_def header_code_count_def to_u8_le)
qed

lemma flags_known:
  assumes "(f::nat) \<le> 31" "f AND 0xF8 = 0"
  shows "f \<le> 7"
proof (rule ccontr)
  assume "\<not> f \<le> 7"
  with assms(1) have "f \<in> set [8..<32]" by (simp only: set_upt atLeastLessThan_iff) simp
  moreover have "\<forall>x \<in> set [8..<32]. (x::nat) AND 0xF8 \<noteq> 0" by code_simp
  ultimately show False using assms(2) by blast
qed

text \<open>The information before the tail: no handler and no chain yet.\<close>

definition untailed :: "u32 \<Rightarrow> u32 \<Rightarrow> UnwindInfo \<Rightarrow> bool" where
  "untailed fb fe u \<longleftrightarrow>
     (version u = 1 \<or> version u = 2) \<and> flags u \<le> 7 \<and> prolog_size u \<le> u8_max \<and>
     frame_register u \<le> 15 \<and> frame_offset u \<le> 15 \<and>
     epilogs_ok fb fe (epilogs u) \<and> (version u = 1 \<longrightarrow> epilogs u = []) \<and>
     codes_ok (frame_register u) (codes u) (has_extended_set_fpreg u) \<and>
     total_slots (codes u) \<le> u8_max \<and> \<not> has_chained_function u \<and> handler_rva u = 0"

lemma parse_unwind_tail_wf:
  assumes "parse_unwind_tail bs info ce u = Inr u'" "untailed fb fe u" "size_of_image info \<le> u32_max"
  shows "wf_unwind info fb fe u'"
  using assms
  by (auto simp: parse_unwind_tail_def wf_unwind_def untailed_def Let_def
      split: if_split_asm option.split_asm)

lemma parse_unwind_codes_untailed:
  assumes "parse_unwind_codes bs off cc u fb fe w = Inr w'"
    and "untailed fb fe w" "fe \<le> u32_max" "fb \<le> fe" "cc \<le> u8_max"
  shows "untailed fb fe w'"
proof -
  from assms(1) obtain slot es cs ext where
    eps: "parse_epilogs bs off cc u fb fe (version w) = Inr (slot, es)" and
    cds: "codes_loop bs off cc u (frame_register w) (frame_offset w) slot None [] False = Inr (cs, ext)"
    and w': "w' = w\<lparr>epilogs := es, codes := cs, has_extended_set_fpreg := ext\<rparr>"
    by (auto simp: parse_unwind_codes_def split: sum.splits)
  from parse_epilogs_ok [OF eps assms(3,4)] have e: "epilogs_ok fb fe es" "slot \<le> cc"
    "version w = 1 \<longrightarrow> es = []" by (auto simp: kUnwindVersion2_def)
  have "codes_ok (frame_register w) [] False" by (simp add: codes_ok_def)
  from codes_loop_ok [OF cds this e(2)] have "codes_ok (frame_register w) cs ext"
    "total_slots cs + slot = cc" by auto
  with e assms(2,5) show ?thesis by (auto simp: untailed_def w')
qed

lemma read_unwind_header_untailed:
  assumes "version (read_unwind_header h) = 1 \<or> version (read_unwind_header h) = 2"
    and "flags (read_unwind_header h) AND 0xF8 = 0"
  shows "untailed fb fe (read_unwind_header h)"
  using assms header_widths [of h] flags_known [OF header_widths(2) assms(2)]
  by (auto simp: untailed_def read_unwind_header_def empty_unwind_def epilogs_ok_def codes_ok_def)

lemma read_unwind_codes_untailed:
  assumes "read_unwind_codes bs info u fb fe cc w = Inr w'"
    and "untailed fb fe w" "fe \<le> u32_max" "fb \<le> fe" "cc \<le> u8_max"
  shows "untailed fb fe w'"
  using assms
  by (auto simp: read_unwind_codes_def split: if_split_asm option.split_asm
      dest: parse_unwind_codes_untailed)

lemma parse_unwind_info_wf:
  assumes "parse_unwind_info bs info u fb fe = Inr w"
    and "size_of_image info \<le> u32_max" "fe \<le> size_of_image info" "fb \<le> fe"
  shows "wf_unwind info fb fe w \<and> u mod 4 = 0"
proof -
  from assms(1) obtain h ce w' where
    aligned: "u AND 3 = 0" and
    ver: "version (read_unwind_header h) = 1 \<or> version (read_unwind_header h) = 2" and
    fl: "flags (read_unwind_header h) AND 0xF8 = 0" and
    codes: "read_unwind_codes bs info u fb fe (header_code_count h) (read_unwind_header h) = Inr w'"
    and tail: "parse_unwind_tail bs info ce w' = Inr w"
    by (auto simp: parse_unwind_info_def Let_def kUnwindVersion1_def kUnwindVersion2_def
        split: if_split_asm option.split_asm sum.split_asm)
  have "untailed fb fe w'"
    by (rule read_unwind_codes_untailed [OF codes read_unwind_header_untailed [OF ver fl]])
      (use assms(2-4) header_widths(6) in auto)
  then have "wf_unwind info fb fe w" by (rule parse_unwind_tail_wf [OF tail _ assms(2)])
  moreover have "u mod 4 = 0"
    using aligned take_bit_eq_mask [of 2 u] by (simp add: take_bit_eq_mod mask_eq_exp_minus_1)
  ultimately show ?thesis by simp
qed

subsection \<open>Properties\<close>

text \<open>
  C36: Accepted unwind data is well formed: aligned, of version 1 or 2, every operation with the
  operand its kind allows and a valid register, prologue offsets not increasing, epilogs disjoint
  and inside the function, at most 255 code slots, and a handler exactly when its flags say so,
  never together with a chained function.
\<close>

theorem unwind_info_well_formed:
  assumes "parse_unwind_info bs info u fb fe = Inr w" "size_of_image info \<le> u32_max"
    and "fe \<le> size_of_image info" "fb \<le> fe"
  shows "wf_unwind info fb fe w \<and> u mod 4 = 0"
  by (rule parse_unwind_info_wf [OF assms])

text \<open>One code: \<open>push rbx\<close>, at offset 4.\<close>

definition unwind_file :: bytes where
  "unwind_file = [1, 4, 1, 0, 4, 0x30, 0, 0]"

definition unwind_file_info :: PeInfo where
  "unwind_file_info = empty_info\<lparr>size_of_image := 100, size_of_headers := 8\<rparr>"

definition push_rbx :: UnwindInfo where
  "push_rbx = empty_unwind\<lparr>version := 1, prolog_size := 4,
     codes := [\<lparr>code_offset = 4, operation = PushNonVol, operation_info = 3, operand = 0\<rparr>]\<rparr>"

lemma unwind_file_reads: "length unwind_file = 8" "rd32 unwind_file 0 = 0x10401" "rd16 unwind_file 4 = 0x3004"
  by (simp_all add: rd32_in rd16_in le32_def le16_def byte_at_def unwind_file_def)

lemma unwind_parsed: "parse_unwind_info unwind_file unwind_file_info 0 16 32 = Inr push_rbx"
  by (simp add: parse_unwind_info_def rva_to_file_offset_def unwind_file_info_def empty_info_def unwind_file_reads
      read_unwind_header_def header_code_count_def read_unwind_codes_def parse_unwind_codes_def parse_epilogs_def
      codes_loop.simps read_raw_code_def raw_operation_def raw_operation_info_def raw_code_offset_def
      decode_operation_def is_valid_gpr_def read_operand_def parse_unwind_tail_def push_rbx_def empty_unwind_def
      eval_simps to_u8_def Let_def drop_bit_nat_def)

theorem unwind_info_well_formed_witness: "wf_unwind unwind_file_info 16 32 push_rbx"
  using unwind_info_well_formed [OF unwind_parsed] by (simp add: unwind_file_info_def)

end
