(* ===== verification/Pe_Exceptions.thy ===== *)
theory Pe_Exceptions
  imports Pe_Unwind
begin

text \<open>
  The exception directory: \<open>PeParser::parse_runtime_functions\<close> of \<open>src/pe/pe_reader.cpp\<close>. After
  the table is read, every chained function must be an entry of the table
  (\<open>find_chained_index\<close>) and the chains must not be cyclic: the source colours the entries
  (0 unvisited, 1 on the current path, 2 done), and so does \<open>chase\<close>.
\<close>

subsection \<open>The table\<close>

definition runtime_function_step ::
    "bytes \<Rightarrow> PeInfo \<Rightarrow> nat \<Rightarrow> nat \<Rightarrow> RuntimeFunction list \<times> u32 option \<Rightarrow>
       (RuntimeFunction list \<times> u32 option) parsed" where
  "runtime_function_step bs info directory index st =
     (case st of (fs, previous_end) \<Rightarrow>
      let offset = directory + index * kRuntimeFunctionSize;
          b = rd32 bs offset; e = rd32 bs (offset + 4); u = rd32 bs (offset + 8)
      in
      if e \<le> b \<or> size_of_image info < e
      then fail Malformed (Exception RuntimeFunctionBadInterval)
      else if (case previous_end of None \<Rightarrow> False | Some p \<Rightarrow> b < p)
      then fail Malformed (Exception RuntimeFunctionsOverlap)
      else case parse_unwind_info bs info u b e of
        Inl err \<Rightarrow> Inl err
      | Inr w \<Rightarrow>
          Inr (fs @ [\<lparr>begin_rva = b, end_rva = e, unwind_info_rva = u, unwind = w\<rparr>], Some e))"

subsection \<open>Chained functions\<close>

text \<open>\<open>std::lower_bound\<close> on a table sorted by its begin: the first entry not below \<open>b\<close>.\<close>

definition lower_bound_begin :: "RuntimeFunction list \<Rightarrow> u32 \<Rightarrow> nat" where
  "lower_bound_begin fs b = length (takeWhile (\<lambda>f. begin_rva f < b) fs)"

definition chained_to :: "UnwindInfo \<Rightarrow> RuntimeFunction \<Rightarrow> bool" where
  "chained_to w f \<longleftrightarrow> begin_rva f = chained_begin_rva w \<and> end_rva f = chained_end_rva w \<and>
     unwind_info_rva f = chained_unwind_info_rva w"

definition find_chained_index :: "RuntimeFunction list \<Rightarrow> UnwindInfo \<Rightarrow> nat option" where
  "find_chained_index fs w =
     (let i = lower_bound_begin fs (chained_begin_rva w) in
      if i = length fs then None
      else if chained_to w (fs ! i) then Some i else None)"

definition chained_target_step ::
    "RuntimeFunction list \<Rightarrow> nat \<Rightarrow> nat option list \<Rightarrow> nat option list parsed" where
  "chained_target_step fs index targets =
     (let w = unwind (fs ! index) in
      if \<not> has_chained_function w then Inr targets
      else case find_chained_index fs w of
        None \<Rightarrow> fail Malformed (Exception ChainNotInTable)
      | Some t \<Rightarrow> Inr (targets[index := Some t]))"

text \<open>
  Following one chain from \<open>current\<close>: \<open>None\<close> when it comes back to its own path. An index out
  of range would be undefined behaviour of \<open>operator[]\<close>; it is \<open>None\<close> too, and no target is
  (\<open>chained_targets_in_range\<close>).
\<close>

function chase ::
    "nat option list \<Rightarrow> nat \<Rightarrow> nat list \<Rightarrow> nat list \<Rightarrow> (nat list \<times> nat list) option" where
  "chase targets current state path =
     (if length state \<le> current then None
      else if state ! current = 1 then None
      else if state ! current = 2 then Some (state, path)
      else case targets ! current of
        None \<Rightarrow> Some (state[current := 1], path @ [current])
      | Some t \<Rightarrow> chase targets t (state[current := 1]) (path @ [current]))"
  by pat_completeness auto

lemma card_not_one_update:
  assumes "current < length state" "state ! current \<noteq> (1::nat)"
  shows "card {i. i < length state \<and> state[current := 1] ! i \<noteq> 1} <
    card {i. i < length state \<and> state ! i \<noteq> 1}"
proof (rule psubset_card_mono)
  show "finite {i. i < length state \<and> state ! i \<noteq> 1}" by simp
  have "{i. i < length state \<and> state[current := 1] ! i \<noteq> 1} \<subseteq> {i. i < length state \<and> state ! i \<noteq> 1}"
    using assms(1) by (auto simp: nth_list_update split: if_split_asm)
  moreover have "current \<in> {i. i < length state \<and> state ! i \<noteq> 1}"
    "current \<notin> {i. i < length state \<and> state[current := 1] ! i \<noteq> 1}"
    using assms by auto
  ultimately show "{i. i < length state \<and> state[current := 1] ! i \<noteq> 1} \<subset>
    {i. i < length state \<and> state ! i \<noteq> 1}" by blast
qed

termination chase
  by (relation "measure (\<lambda>(targets, current, state, path).
        card {i. i < length state \<and> state ! i \<noteq> 1})")
    (use card_not_one_update in auto)

declare chase.simps [simp del]

definition chain_step :: "nat option list \<Rightarrow> nat \<Rightarrow> nat list \<Rightarrow> nat list parsed" where
  "chain_step targets start state =
     (if state ! start = 2 then Inr state
      else case chase targets start state [] of
        None \<Rightarrow> fail Malformed (Exception ChainCycle)
      | Some (state', path) \<Rightarrow> Inr (fold (\<lambda>i st. st[i := 2]) path state'))"

definition chained_targets :: "RuntimeFunction list \<Rightarrow> nat option list parsed" where
  "chained_targets fs =
     foldE (chained_target_step fs) [0..<length fs] (replicate (length fs) None)"

definition check_chains :: "nat option list \<Rightarrow> nat list parsed" where
  "check_chains targets =
     foldE (chain_step targets) [0..<length targets] (replicate (length targets) 0)"

definition read_function_table ::
    "bytes \<Rightarrow> PeInfo \<Rightarrow> nat \<Rightarrow> nat \<Rightarrow> RuntimeFunction list parsed" where
  "read_function_table bs info directory count =
     (case foldE (runtime_function_step bs info directory) [0..<count]
             (runtime_functions info, None) of
        Inl e \<Rightarrow> Inl e
      | Inr (fs, _) \<Rightarrow>
          (case chained_targets fs of
             Inl e \<Rightarrow> Inl e
           | Inr targets \<Rightarrow>
               (case check_chains targets of Inl e \<Rightarrow> Inl e | Inr _ \<Rightarrow> Inr fs)))"

definition parse_runtime_functions ::
    "bytes \<Rightarrow> PeInfo \<Rightarrow> directory_name list \<Rightarrow> (PeInfo \<times> directory_name list) parsed" where
  "parse_runtime_functions bs info ws =
     (let rva = exception_directory_rva info; sz = exception_directory_size info in
      if rva = 0 \<and> sz = 0 then Inr (info, ws)
      else if rva = 0 \<or> sz = 0 \<or> sz mod kRuntimeFunctionSize \<noteq> 0
      then fail Malformed (Exception ExceptionDirIncomplete)
      else case rva_to_file_offset bs info rva sz of
        None \<Rightarrow>
          if is_rva_in_uninitialized_section info rva sz
          then Inr (info, record_uninitialized_directory DirExceptions ws)
          else fail Malformed (Exception (ExceptionDirOutside rva sz))
      | Some directory \<Rightarrow>
          if kMaxRuntimeFunctions < sz div kRuntimeFunctionSize
          then fail Malformed (Exception TooManyRuntimeFunctions)
          else case read_function_table bs info directory (sz div kRuntimeFunctionSize) of
            Inl e \<Rightarrow> Inl e
          | Inr fs \<Rightarrow> Inr (info\<lparr>runtime_functions := fs\<rparr>, ws))"

subsection \<open>The table is sorted and disjoint\<close>

definition wf_function :: "PeInfo \<Rightarrow> RuntimeFunction \<Rightarrow> bool" where
  "wf_function info f \<longleftrightarrow> begin_rva f < end_rva f \<and> end_rva f \<le> size_of_image info \<and>
     unwind_info_rva f mod 4 = 0 \<and> wf_unwind info (begin_rva f) (end_rva f) (unwind f)"

definition functions_ok :: "PeInfo \<Rightarrow> RuntimeFunction list \<Rightarrow> bool" where
  "functions_ok info fs \<longleftrightarrow> (\<forall>f \<in> set fs. wf_function info f) \<and>
     sorted_wrt (\<lambda>f g. end_rva f \<le> begin_rva g) fs"

lemma functions_ok_snoc:
  assumes "functions_ok info fs" "wf_function info f"
    and "\<forall>g \<in> set fs. end_rva g \<le> begin_rva f"
  shows "functions_ok info (fs @ [f])"
  using assms by (auto simp: functions_ok_def sorted_wrt_append)

definition table_inv :: "PeInfo \<Rightarrow> RuntimeFunction list \<times> u32 option \<Rightarrow> bool" where
  "table_inv info st \<longleftrightarrow> functions_ok info (fst st) \<and>
     (case snd st of None \<Rightarrow> fst st = [] | Some p \<Rightarrow> \<forall>g \<in> set (fst st). end_rva g \<le> p)"

lemma runtime_function_step_inv:
  assumes "runtime_function_step bs info dir i st = Inr st'" "table_inv info st"
    and "size_of_image info \<le> u32_max"
  shows "table_inv info st'"
proof -
  obtain fs prev where st: "st = (fs, prev)" by force
  let ?off = "dir + i * kRuntimeFunctionSize"
  from assms(1) st obtain w where
    interval: "rd32 bs ?off < rd32 bs (?off + 4)" "rd32 bs (?off + 4) \<le> size_of_image info" and
    order: "case prev of None \<Rightarrow> True | Some p \<Rightarrow> p \<le> rd32 bs ?off" and
    w: "parse_unwind_info bs info (rd32 bs (?off + 8)) (rd32 bs ?off) (rd32 bs (?off + 4)) = Inr w"
    and st': "st' = (fs @ [\<lparr>begin_rva = rd32 bs ?off, end_rva = rd32 bs (?off + 4),
      unwind_info_rva = rd32 bs (?off + 8), unwind = w\<rparr>], Some (rd32 bs (?off + 4)))"
    by (auto simp: runtime_function_step_def Let_def not_le not_less
        split: if_split_asm sum.split_asm option.splits)
  from parse_unwind_info_wf [OF w assms(3) interval(2)] interval
  have wf: "wf_unwind info (rd32 bs ?off) (rd32 bs (?off + 4)) w" "rd32 bs (?off + 8) mod 4 = 0"
    by auto
  have below: "\<forall>g \<in> set fs. end_rva g \<le> rd32 bs ?off"
    using assms(2) order by (auto simp: table_inv_def st split: option.splits)
  have "functions_ok info (fst st')"
    using functions_ok_snoc [of info fs] assms(2) below wf interval
    by (simp add: st' st table_inv_def wf_function_def)
  moreover have "\<forall>g \<in> set (fst st'). end_rva g \<le> rd32 bs (?off + 4)"
    using below interval(1) by (auto simp: st')
  ultimately show ?thesis by (simp add: table_inv_def st')
qed

lemma functions_fold_ok:
  assumes "foldE (runtime_function_step bs info dir) xs ([], None) = Inr (fs, p)"
    and "size_of_image info \<le> u32_max"
  shows "functions_ok info fs"
proof -
  have "table_inv info (fs, p)"
    by (rule foldE_preserves [OF assms(1), where P = "table_inv info"])
      (auto simp: table_inv_def functions_ok_def dest: runtime_function_step_inv [OF _ _ assms(2)])
  then show ?thesis by (simp add: table_inv_def)
qed

subsection \<open>The search for a chained function is a search of the whole table\<close>

lemma functions_ok_begin_sorted:
  assumes "functions_ok info fs" "i < j" "j < length fs"
  shows "begin_rva (fs ! i) < begin_rva (fs ! j)"
proof -
  have "end_rva (fs ! i) \<le> begin_rva (fs ! j)"
    using assms by (auto simp: functions_ok_def sorted_wrt_iff_nth_less)
  moreover have "fs ! i \<in> set fs" using assms by simp
  then have "begin_rva (fs ! i) < end_rva (fs ! i)"
    using assms(1) by (simp add: functions_ok_def wf_function_def)
  ultimately show ?thesis by simp
qed

lemma lower_bound_begin_at:
  assumes "functions_ok info fs" "j < length fs"
  shows "lower_bound_begin fs (begin_rva (fs ! j)) = j"
proof -
  have "takeWhile (\<lambda>f. begin_rva f < begin_rva (fs ! j)) fs = take j fs"
    by (rule takeWhile_eq_take_P_nth)
      (use assms functions_ok_begin_sorted in auto)
  then show ?thesis using assms(2) by (simp add: lower_bound_begin_def)
qed

lemma find_chained_index_range: "find_chained_index fs w = Some i \<Longrightarrow> i < length fs"
  using length_takeWhile_le [of "\<lambda>f. begin_rva f < chained_begin_rva w" fs]
  by (auto simp: find_chained_index_def lower_bound_begin_def Let_def split: if_splits)

lemma find_chained_index_iff:
  assumes "functions_ok info fs"
  shows "find_chained_index fs w = Some i \<longleftrightarrow> i < length fs \<and> chained_to w (fs ! i)"
proof
  assume "find_chained_index fs w = Some i"
  then show "i < length fs \<and> chained_to w (fs ! i)"
    using find_chained_index_range [of fs w i]
    by (auto simp: find_chained_index_def Let_def split: if_splits)
next
  assume i: "i < length fs \<and> chained_to w (fs ! i)"
  then have "lower_bound_begin fs (chained_begin_rva w) = i"
    using lower_bound_begin_at [OF assms, of i] by (simp add: chained_to_def)
  with i show "find_chained_index fs w = Some i" by (simp add: find_chained_index_def)
qed

subsection \<open>Accepted chains end, and only cyclic ones are rejected\<close>

text \<open>A chain ends at an entry without a target; \<open>chain_next\<close> is one link.\<close>

inductive chain_ends :: "nat option list \<Rightarrow> nat \<Rightarrow> bool" for targets where
  stop: "i < length targets \<Longrightarrow> targets ! i = None \<Longrightarrow> chain_ends targets i"
| link: "i < length targets \<Longrightarrow> targets ! i = Some t \<Longrightarrow> chain_ends targets t \<Longrightarrow> chain_ends targets i"

definition chain_next :: "nat option list \<Rightarrow> nat \<Rightarrow> nat \<Rightarrow> bool" where
  "chain_next targets i j \<longleftrightarrow> i < length targets \<and> targets ! i = Some j"

lemma chain_next_fun: "chain_next targets i j \<Longrightarrow> chain_next targets i k \<Longrightarrow> j = k"
  by (simp add: chain_next_def)

lemma chain_ends_acyclic: "chain_ends targets i \<Longrightarrow> \<not> (chain_next targets)\<^sup>+\<^sup>+ i i"
proof (induction rule: chain_ends.induct)
  case (stop i)
  then show ?case by (auto simp: chain_next_def dest: tranclpD)
next
  case (link i t)
  show ?case
  proof
    assume "(chain_next targets)\<^sup>+\<^sup>+ i i"
    then have "(chain_next targets)\<^sup>*\<^sup>* t i"
      using link.hyps(2) by (auto simp: chain_next_def dest: tranclpD)
    moreover have "chain_next targets i t" using link.hyps by (simp add: chain_next_def)
    ultimately have "(chain_next targets)\<^sup>+\<^sup>+ t t" by (rule rtranclp_into_tranclp1)
    with link.IH show False by contradiction
  qed
qed

text \<open>What \<open>chase\<close> does: it marks a path whose entries all have ending chains.\<close>

definition targets_ok :: "nat option list \<Rightarrow> bool" where
  "targets_ok targets \<longleftrightarrow> (\<forall>i < length targets. \<forall>t. targets ! i = Some t \<longrightarrow> t < length targets)"

definition done_ok :: "nat option list \<Rightarrow> nat list \<Rightarrow> bool" where
  "done_ok targets st \<longleftrightarrow> length st = length targets \<and>
     (\<forall>i < length st. st ! i = 2 \<longrightarrow> chain_ends targets i)"

lemma done_ok_mark:
  "done_ok targets st \<Longrightarrow> i < length targets \<Longrightarrow> done_ok targets (st[i := 1])"
  by (auto simp: done_ok_def nth_list_update)

lemma chase_marks:
  assumes "chase targets i st path = Some (st', path')" "done_ok targets st"
  shows "chain_ends targets i \<and> length st' = length st \<and>
    (\<exists>q. path' = path @ q \<and> (\<forall>x \<in> set q. x < length targets \<and> chain_ends targets x) \<and>
      (\<forall>x < length st. st' ! x = (if x \<in> set q then 1 else st ! x)) \<and>
      (st ! i \<noteq> 2 \<longrightarrow> i \<in> set q))"
  using assms
proof (induction targets i st path rule: chase.induct)
  case (1 targets i st path)
  from 1(2) have i: "i < length st" and not1: "st ! i \<noteq> 1"
    by (auto simp: chase.simps [of targets i st path] split: if_split_asm)
  have it: "i < length targets" using i 1(3) by (simp add: done_ok_def)
  show ?case
  proof (cases "st ! i = 2")
    case True
    with 1(2,3) i not1 show ?thesis
      by (auto simp: chase.simps [of targets i st path] done_ok_def)
  next
    case False
    show ?thesis
    proof (cases "targets ! i")
      case None
      with 1(2) i not1 False have "st' = st[i := 1]" "path' = path @ [i]"
        by (auto simp: chase.simps [of targets i st path])
      moreover have "chain_ends targets i" by (rule chain_ends.stop [OF it None])
      ultimately show ?thesis using it by (auto simp: nth_list_update)
    next
      case (Some t)
      with 1(2) i not1 False
      have rec: "chase targets t (st[i := 1]) (path @ [i]) = Some (st', path')"
        by (simp add: chase.simps [of targets i st path])
      from 1(1) [OF _ not1 False Some rec done_ok_mark [OF 1(3) it]] i
      obtain q where t: "chain_ends targets t" and len: "length st' = length st" and
        q: "path' = (path @ [i]) @ q" "\<forall>x \<in> set q. x < length targets \<and> chain_ends targets x" and
        st': "\<forall>x < length st. st' ! x = (if x \<in> set q then 1 else st[i := 1] ! x)"
        by auto
      have ends: "chain_ends targets i" by (rule chain_ends.link [OF it Some t])
      show ?thesis
        by (intro conjI exI [of _ "i # q"]) (use ends len q st' it i in \<open>auto simp: nth_list_update\<close>)
    qed
  qed
qed

lemma fold_mark:
  "length (fold (\<lambda>i s. s[i := (2::nat)]) q st) = length st"
  "x < length st \<Longrightarrow> fold (\<lambda>i s. s[i := (2::nat)]) q st ! x = (if x \<in> set q then 2 else st ! x)"
  by (induction q arbitrary: st) (auto simp: nth_list_update)

text \<open>Between two starts no entry is on a path; the starts already visited are done.\<close>

definition colours_inv :: "nat option list \<Rightarrow> nat \<Rightarrow> nat list \<Rightarrow> bool" where
  "colours_inv targets n st \<longleftrightarrow> done_ok targets st \<and>
     (\<forall>i < length st. st ! i \<noteq> 1) \<and> (\<forall>i < n. st ! i = 2)"

lemma chain_step_inv:
  assumes "chain_step targets i st = Inr st'" "colours_inv targets i st" "i < length targets"
  shows "colours_inv targets (Suc i) st'"
proof (cases "st ! i = 2")
  case True
  with assms show ?thesis by (auto simp: chain_step_def colours_inv_def less_Suc_eq)
next
  case False
  with assms(1) obtain st1 q where c: "chase targets i st [] = Some (st1, q)" and
    st': "st' = fold (\<lambda>i s. s[i := 2]) q st1"
    by (auto simp: chain_step_def split: option.splits)
  have ok: "done_ok targets st" using assms(2) by (simp add: colours_inv_def)
  from chase_marks [OF c ok] False
  have len: "length st1 = length st" and
    q: "\<forall>x \<in> set q. x < length targets \<and> chain_ends targets x" "i \<in> set q" and
    st1: "\<forall>x < length st. st1 ! x = (if x \<in> set q then 1 else st ! x)"
    by auto
  have lt: "length st = length targets" using ok by (simp add: done_ok_def)
  have st'_at: "\<forall>x < length st. st' ! x = (if x \<in> set q then 2 else st ! x)"
    using fold_mark(2) [of _ st1 q] len st1 by (simp add: st')
  have "length st' = length st" using fold_mark(1) len by (simp add: st')
  with st'_at q lt assms(2,3) show ?thesis
    by (auto simp: colours_inv_def done_ok_def less_Suc_eq)
qed

lemma check_chains_Inr:
  assumes "check_chains targets = Inr st" "i < length targets"
  shows "chain_ends targets i"
proof -
  have "colours_inv targets (length targets) st"
  proof (rule foldE_upt_invariant [OF assms(1) [unfolded check_chains_def],
        where P = "colours_inv targets"])
    show "colours_inv targets 0 (replicate (length targets) 0)"
      by (simp add: colours_inv_def done_ok_def)
  qed (rule chain_step_inv)
  with assms(2) show ?thesis by (auto simp: colours_inv_def done_ok_def)
qed

text \<open>
  The converse: if every chain ends, no chase fails, since an entry on the current path that
  is met again would be on a cycle.
\<close>

lemma chase_total:
  assumes "chain_ends targets i" "length st = length targets"
    and "\<forall>x < length st. st ! x = 1 \<longrightarrow> (chain_next targets)\<^sup>+\<^sup>+ x i"
  shows "chase targets i st path \<noteq> None"
  using assms
proof (induction arbitrary: st path rule: chain_ends.induct)
  case (stop i)
  then have "st ! i \<noteq> 1" using chain_ends_acyclic [OF chain_ends.stop] by auto
  with stop show ?case by (simp add: chase.simps [of targets i st path])
next
  case (link i t)
  have not1: "st ! i \<noteq> 1"
    using link chain_ends_acyclic [OF chain_ends.link] by auto
  have link_it: "chain_next targets i t" using link by (simp add: chain_next_def)
  have "chase targets t (st[i := 1]) (path @ [i]) \<noteq> None"
  proof (rule link.IH)
    show "length (st[i := 1]) = length targets" using link by simp
    show "\<forall>x < length (st[i := 1]). st[i := 1] ! x = 1 \<longrightarrow> (chain_next targets)\<^sup>+\<^sup>+ x t"
    proof (intro allI impI)
      fix x
      assume x: "x < length (st[i := 1])" "st[i := 1] ! x = 1"
      show "(chain_next targets)\<^sup>+\<^sup>+ x t"
      proof (cases "x = i")
        case True
        with link_it show ?thesis by blast
      next
        case False
        with x link.prems(2) have "(chain_next targets)\<^sup>+\<^sup>+ x i" by simp
        then show ?thesis using link_it by (rule tranclp.trancl_into_trancl)
      qed
    qed
  qed
  with not1 link show ?case by (auto simp: chase.simps [of targets i st path])
qed

lemma chain_step_total:
  assumes "colours_inv targets i st" "chain_ends targets i" "i < length targets"
  shows "\<exists>st'. chain_step targets i st = Inr st'"
proof -
  have "chase targets i st [] \<noteq> None"
    by (rule chase_total [OF assms(2)]) (use assms(1) in \<open>auto simp: colours_inv_def done_ok_def\<close>)
  then show ?thesis by (auto simp: chain_step_def)
qed

lemma check_chains_total:
  assumes "\<forall>i < length targets. chain_ends targets i"
  shows "\<exists>st. check_chains targets = Inr st"
proof -
  have "\<exists>st. foldE (chain_step targets) [0..<n] (replicate (length targets) 0) = Inr st \<and>
      colours_inv targets n st" if "n \<le> length targets" for n
    using that
  proof (induction n)
    case 0
    then show ?case by (auto simp: colours_inv_def done_ok_def)
  next
    case (Suc n)
    then obtain st where st: "foldE (chain_step targets) [0..<n] (replicate (length targets) 0) = Inr st"
      "colours_inv targets n st" by auto
    obtain st' where st': "chain_step targets n st = Inr st'"
      using chain_step_total [OF st(2)] assms Suc.prems by auto
    with st chain_step_inv [OF st' st(2)] Suc.prems show ?case by auto
  qed
  then show ?thesis unfolding check_chains_def by blast
qed

subsection \<open>The targets of an accepted table\<close>

lemma chained_targets_Inr:
  assumes "chained_targets fs = Inr targets"
  shows "length targets = length fs \<and>
    (\<forall>i < length fs. targets ! i =
       (if has_chained_function (unwind (fs ! i)) then find_chained_index fs (unwind (fs ! i)) else None) \<and>
       (has_chained_function (unwind (fs ! i)) \<longrightarrow> targets ! i \<noteq> None))"
proof -
  let ?at = "\<lambda>i ts. ts ! i = (if has_chained_function (unwind (fs ! i))
      then find_chained_index fs (unwind (fs ! i)) else None) \<and>
    (has_chained_function (unwind (fs ! i)) \<longrightarrow> ts ! i \<noteq> None)"
  let ?P = "\<lambda>n ts. length ts = length fs \<and> (\<forall>i < n. ?at i ts) \<and>
    (\<forall>i < length fs. n \<le> i \<longrightarrow> ts ! i = None)"
  have "?P (length fs) targets"
  proof (rule foldE_upt_invariant [OF assms [unfolded chained_targets_def], where P = ?P])
    fix i ts ts'
    assume "i < length fs" "?P i ts" "chained_target_step fs i ts = Inr ts'"
    then show "?P (Suc i) ts'"
      by (auto simp: chained_target_step_def Let_def less_Suc_eq nth_list_update
          split: if_split_asm option.split_asm)
  qed auto
  then show ?thesis by blast
qed

lemma chained_targets_in_range:
  "chained_targets fs = Inr targets \<Longrightarrow> targets_ok targets"
  using chained_targets_Inr [of fs targets]
  by (auto simp: targets_ok_def dest: find_chained_index_range split: if_split_asm)

text \<open>
  A table is well-formed when its functions are, its chains stay in the table, and every chain
  ends; the link of a function is the entry its unwind information names.
\<close>

definition chain_links :: "RuntimeFunction list \<Rightarrow> nat option list" where
  "chain_links fs = map (\<lambda>f. if has_chained_function (unwind f)
     then find_chained_index fs (unwind f) else None) fs"

definition wf_function_table :: "PeInfo \<Rightarrow> RuntimeFunction list \<Rightarrow> bool" where
  "wf_function_table info fs \<longleftrightarrow> functions_ok info fs \<and>
     (\<forall>f \<in> set fs. has_chained_function (unwind f) \<longrightarrow> (\<exists>g \<in> set fs. chained_to (unwind f) g)) \<and>
     (\<forall>i < length fs. chain_ends (chain_links fs) i)"

lemma chained_targets_chain_links:
  assumes "chained_targets fs = Inr targets"
  shows "targets = chain_links fs"
  by (rule nth_equalityI) (use chained_targets_Inr [OF assms] in \<open>auto simp: chain_links_def\<close>)

lemma read_function_table_wf:
  assumes "read_function_table bs info dir n = Inr fs" "size_of_image info \<le> u32_max"
    "runtime_functions info = []"
  shows "wf_function_table info fs"
proof -
  from assms(1,3) obtain p targets st where
    table: "foldE (runtime_function_step bs info dir) [0..<n] ([], None) = Inr (fs, p)" and
    targets: "chained_targets fs = Inr targets" and
    chains: "check_chains targets = Inr st"
    by (auto simp: read_function_table_def split: sum.split_asm)
  have ok: "functions_ok info fs" by (rule functions_fold_ok [OF table assms(2)])
  have links: "targets = chain_links fs" by (rule chained_targets_chain_links [OF targets])
  have ends: "\<forall>i < length fs. chain_ends (chain_links fs) i"
    using check_chains_Inr [OF chains] links by (simp add: chain_links_def)
  have linked: "\<exists>g \<in> set fs. chained_to (unwind f) g"
    if "f \<in> set fs" "has_chained_function (unwind f)" for f
  proof -
    from that(1) obtain i where "i < length fs" "f = fs ! i" by (auto simp: in_set_conv_nth)
    with chained_targets_Inr [OF targets] that(2) obtain j where
      "find_chained_index fs (unwind f) = Some j" by fastforce
    then show ?thesis using find_chained_index_iff [OF ok] nth_mem by blast
  qed
  show ?thesis using ok ends linked by (auto simp: wf_function_table_def)
qed

lemma parse_runtime_functions_Inr:
  assumes "parse_runtime_functions bs info ws = Inr (info', ws')" "size_of_image info \<le> u32_max"
    "runtime_functions info = []"
  shows "\<exists>fs. info' = info\<lparr>runtime_functions := fs\<rparr> \<and> wf_function_table info fs"
proof -
  have same: "info = info\<lparr>runtime_functions := []\<rparr>" using assms(3) by simp
  have none: "wf_function_table info []" by (simp add: wf_function_table_def functions_ok_def)
  from assms(1) have "info' = info \<or> (\<exists>dir n fs. read_function_table bs info dir n = Inr fs \<and>
      info' = info\<lparr>runtime_functions := fs\<rparr>)"
    by (auto simp: parse_runtime_functions_def Let_def
        split: if_split_asm option.split_asm sum.split_asm)
  then show ?thesis
    using same none read_function_table_wf [OF _ assms(2,3)] by metis
qed

lemma parse_runtime_functions_warnings:
  "parse_runtime_functions bs info ws = Inr (info', ws') \<Longrightarrow>
     ws' = ws \<or> ws' = record_uninitialized_directory DirExceptions ws"
  by (auto simp: parse_runtime_functions_def Let_def
      split: if_split_asm option.split_asm sum.split_asm)

subsection \<open>Properties\<close>

text \<open>
  C37: The three-colour walk over the chained functions accepts a table exactly when every chain
  ends: it always returns, it finds every cycle, and no chain that ends is refused.
\<close>

theorem chains_checked:
  "(\<exists>st. check_chains targets = Inr st) \<longleftrightarrow> (\<forall>i < length targets. chain_ends targets i)"
  using check_chains_Inr check_chains_total by blast

theorem chains_checked_witness: "\<exists>st. check_chains [Some 1, None] = Inr st"
proof -
  have last: "chain_ends [Some 1, None] 1" by (rule chain_ends.stop) simp_all
  have "chain_ends [Some 1, None] 0" by (rule chain_ends.link [OF _ _ last]) simp_all
  with last show ?thesis
    using chains_checked [of "[Some 1, None]"] by (auto simp: less_Suc_eq)
qed

text \<open>
  The binary search for a chained function finds it exactly when the table has it: in an
  ordered table, the index returned is the index of the entry with that interval and data.
\<close>

theorem chained_function_found:
  assumes "functions_ok info fs"
  shows "find_chained_index fs w = Some i \<longleftrightarrow> i < length fs \<and> chained_to w (fs ! i)"
  by (rule find_chained_index_iff [OF assms])

theorem chained_function_found_witness:
  "find_chained_index [\<lparr>begin_rva = 16, end_rva = 32, unwind_info_rva = 0, unwind = push_rbx\<rparr>]
     (push_rbx\<lparr>chained_begin_rva := 16, chained_end_rva := 32\<rparr>) = Some 0"
proof -
  have "wf_unwind unwind_file_info 16 32 push_rbx"
    using parse_unwind_info_wf [OF unwind_parsed] by (simp add: unwind_file_info_def)
  then have "functions_ok unwind_file_info [\<lparr>begin_rva = 16, end_rva = 32, unwind_info_rva = 0, unwind = push_rbx\<rparr>]"
    by (simp add: functions_ok_def wf_function_def unwind_file_info_def)
  from chained_function_found [OF this] show ?thesis
    by (simp add: chained_to_def push_rbx_def empty_unwind_def)
qed

end
