(* ===== verification/Pe_Tls_Reloc.thy ===== *)
theory Pe_Tls_Reloc
  imports Pe_Reader
begin

text \<open>
  The TLS directory and the base relocations: \<open>PeParser::parse_tls_directory\<close> and
  \<open>PeParser::parse_relocations\<close> of \<open>src/pe/pe_reader.cpp\<close>.
\<close>

subsection \<open>TLS\<close>

text \<open>The loop over the callback table: it stops at a null entry or at the end of the file.\<close>

function tls_callbacks :: "bytes \<Rightarrow> nat \<Rightarrow> u64 list \<Rightarrow> u64 list parsed" where
  "tls_callbacks bs current_cb_offset acc =
     (if has_range bs current_cb_offset 8 then
        (let cb_va = rd64 bs current_cb_offset in
         if cb_va = 0 then Inr acc
         else if kMaxTlsCallbacks \<le> length acc then fail Malformed (Tls TlsTooManyCallbacks)
         else tls_callbacks bs (current_cb_offset + 8) (acc @ [cb_va]))
      else Inr acc)"
  by pat_completeness auto
termination
  by (relation "measure (\<lambda>(bs, off, acc). length bs - off)") (auto simp: has_range_iff)

declare tls_callbacks.simps [simp del]

definition read_tls_info :: "bytes \<Rightarrow> nat \<Rightarrow> TlsDirectoryInfo" where
  "read_tls_info bs offset =
     \<lparr>start_address_of_raw_data = rd64 bs offset, end_address_of_raw_data = rd64 bs (offset + 8),
      address_of_index = rd64 bs (offset + 16), address_of_callbacks = rd64 bs (offset + 24),
      size_of_zero_fill = rd32 bs (offset + 32), tls_characteristics = rd32 bs (offset + 36),
      callback_vas = []\<rparr>"

definition read_tls_callbacks :: "bytes \<Rightarrow> PeInfo \<Rightarrow> u64 \<Rightarrow> u64 list parsed" where
  "read_tls_callbacks bs info callbacks_va =
     (if image_base info \<le> callbacks_va then
        (let callbacks_rva = callbacks_va - image_base info in
         if callbacks_rva \<le> u32_max then
           (case rva_to_file_offset bs info (to_u32 callbacks_rva) 8 of
              Some callbacks_file_offset \<Rightarrow> tls_callbacks bs callbacks_file_offset []
            | None \<Rightarrow> Inr [])
         else Inr [])
      else Inr [])"

definition parse_tls_directory ::
    "bytes \<Rightarrow> PeInfo \<Rightarrow> directory_name list \<Rightarrow> (PeInfo \<times> directory_name list) parsed" where
  "parse_tls_directory bs info ws =
     (let rva = tls_directory_rva info; sz = tls_directory_size info in
      if rva = 0 \<and> sz = 0 then Inr (info, ws)
      else if rva = 0 \<or> sz = 0 then fail Malformed (Tls TlsNoRvaOrSize)
      else if sz < 40 then fail Malformed (Tls TlsTooSmall)
      else case rva_to_file_offset bs info rva sz of
        None \<Rightarrow>
          if is_rva_in_uninitialized_section info rva sz
          then Inr (info, record_uninitialized_directory DirTls ws)
          else fail Malformed (Tls TlsOutside)
      | Some offset \<Rightarrow>
          (case read_tls_callbacks bs info (address_of_callbacks (read_tls_info bs offset)) of
             Inl e \<Rightarrow> Inl e
           | Inr vas \<Rightarrow>
               Inr (info\<lparr>tls_info := (read_tls_info bs offset)\<lparr>callback_vas := vas\<rparr>\<rparr>, ws)))"

text \<open>
  The callbacks read are the 64-bit words from the table's start up to the first null word or
  the end of the file, at most 4096 of them.
\<close>

lemma tls_callbacks_spec:
  assumes "tls_callbacks bs (off + 8 * length acc) acc = Inr vas"
    and "length acc \<le> kMaxTlsCallbacks"
    and "\<forall>i < length acc. acc ! i = le64 bs (off + 8 * i) \<and> acc ! i \<noteq> 0 \<and> off + 8 * i + 8 \<le> length bs"
  shows "length vas \<le> kMaxTlsCallbacks \<and>
    (\<forall>i < length vas. vas ! i = le64 bs (off + 8 * i) \<and> vas ! i \<noteq> 0 \<and> off + 8 * i + 8 \<le> length bs) \<and>
    (off + 8 * length vas + 8 \<le> length bs \<longrightarrow> le64 bs (off + 8 * length vas) = 0)"
  using assms
proof (induction "kMaxTlsCallbacks - length acc" arbitrary: acc rule: less_induct)
  case less
  let ?off = "off + 8 * length acc"
  show ?case
  proof (cases "has_range bs ?off 8 \<and> rd64 bs ?off \<noteq> 0")
    case False
    with less.prems have "vas = acc"
      by (subst (asm) tls_callbacks.simps) (auto split: if_split_asm)
    with less.prems False show ?thesis by (auto simp: has_range_iff rd64_in)
  next
    case True
    then have range: "?off + 8 \<le> length bs" and v: "rd64 bs ?off = le64 bs ?off" "le64 bs ?off \<noteq> 0"
      by (auto simp: has_range_iff rd64_in)
    from less.prems(1) True v
    have step: "length acc < kMaxTlsCallbacks \<and>
        tls_callbacks bs (?off + 8) (acc @ [le64 bs ?off]) = Inr vas"
      by (subst (asm) tls_callbacks.simps) (auto simp: Let_def not_le split: if_split_asm)
    then have room: "length acc < kMaxTlsCallbacks" and
      rest: "tls_callbacks bs (off + 8 * length (acc @ [le64 bs ?off])) (acc @ [le64 bs ?off]) = Inr vas"
      by (simp_all add: ac_simps)
    show ?thesis
      by (rule less.hyps [OF _ rest]) (use room less.prems(3) range v in \<open>auto simp: nth_append less_Suc_eq\<close>)
  qed
qed

definition wf_tls :: "TlsDirectoryInfo \<Rightarrow> bool" where
  "wf_tls t \<longleftrightarrow> length (callback_vas t) \<le> kMaxTlsCallbacks \<and>
     (\<forall>va \<in> set (callback_vas t). va \<noteq> 0 \<and> va \<le> u64_max)"

lemma read_tls_callbacks_ok:
  assumes "read_tls_callbacks bs info va = Inr vas"
  shows "length vas \<le> kMaxTlsCallbacks \<and> (\<forall>v \<in> set vas. v \<noteq> 0 \<and> v \<le> u64_max)"
proof (cases "vas = []")
  case True
  then show ?thesis by simp
next
  case False
  with assms obtain off where "tls_callbacks bs off [] = Inr vas"
    by (auto simp: read_tls_callbacks_def Let_def split: if_split_asm option.split_asm)
  with tls_callbacks_spec [of bs off "[]" vas] show ?thesis
    by (auto simp: in_set_conv_nth le64_le)
qed

lemma parse_tls_directory_Inr:
  assumes "parse_tls_directory bs info ws = Inr (info', ws')" "tls_info info = empty_tls"
  shows "\<exists>t. info' = info\<lparr>tls_info := t\<rparr> \<and> wf_tls t"
proof -
  have same: "info = info\<lparr>tls_info := empty_tls\<rparr>" using assms(2) by simp
  have none: "wf_tls empty_tls" by (simp add: wf_tls_def empty_tls_def)
  from assms(1) have "info' = info \<or> (\<exists>off vas va. read_tls_callbacks bs info va = Inr vas \<and>
      info' = info\<lparr>tls_info := (read_tls_info bs off)\<lparr>callback_vas := vas\<rparr>\<rparr>)"
    by (auto simp: parse_tls_directory_def Let_def split: if_split_asm option.split_asm sum.split_asm)
  then show ?thesis
  proof (elim disjE exE conjE)
    assume "info' = info"
    then show ?thesis by (intro exI [of _ empty_tls]) (use same none in simp)
  next
    fix off vas va
    assume "read_tls_callbacks bs info va = Inr vas"
      and "info' = info\<lparr>tls_info := (read_tls_info bs off)\<lparr>callback_vas := vas\<rparr>\<rparr>"
    then show ?thesis
      by (intro exI [of _ "(read_tls_info bs off)\<lparr>callback_vas := vas\<rparr>"])
        (auto simp: wf_tls_def dest: read_tls_callbacks_ok)
  qed
qed

lemma parse_tls_directory_warnings:
  "parse_tls_directory bs info ws = Inr (info', ws') \<Longrightarrow>
     ws' = ws \<or> ws' = record_uninitialized_directory DirTls ws"
  by (auto simp: parse_tls_directory_def Let_def split: if_split_asm option.split_asm sum.split_asm)

subsection \<open>Base relocations\<close>

definition reloc_entry :: "u16 \<Rightarrow> BaseRelocEntry" where
  "reloc_entry raw_entry =
     \<lparr>rel_type = to_u16 (drop_bit 12 raw_entry AND 0xF), rel_offset = to_u16 (raw_entry AND 0xFFF)\<rparr>"

definition reloc_block :: "bytes \<Rightarrow> nat \<Rightarrow> u32 \<Rightarrow> nat \<Rightarrow> BaseRelocBlock" where
  "reloc_block bs block_offset page entry_bytes =
     \<lparr>page_rva = page,
      rel_entries = map (\<lambda>i. reloc_entry (rd16 bs (block_offset + kBaseRelocBlockHeaderSize +
        i * kBaseRelocEntrySize))) [0..<entry_bytes div kBaseRelocEntrySize]\<rparr>"

function reloc_blocks ::
    "bytes \<Rightarrow> nat \<Rightarrow> nat \<Rightarrow> nat \<Rightarrow> nat \<Rightarrow> BaseRelocBlock list \<Rightarrow> (BaseRelocBlock list \<times> nat) parsed" where
  "reloc_blocks bs directory dir_size consumed block_count acc =
     (if consumed + kBaseRelocBlockHeaderSize \<le> dir_size then
        (if kMaxRelocBlocks \<le> block_count then fail Malformed (Reloc TooManyRelocBlocks)
         else
           let block_offset = directory + consumed;
               page = rd32 bs block_offset;
               block_size = rd32 bs (block_offset + 4);
               entry_bytes = block_size - kBaseRelocBlockHeaderSize
           in
           if block_size < kBaseRelocBlockHeaderSize
           then fail Malformed (Reloc (RelocBlockSize block_size))
           else if dir_size - consumed < block_size then fail Malformed (Reloc RelocBlockExceeds)
           else if entry_bytes mod kBaseRelocEntrySize \<noteq> 0
           then fail Malformed (Reloc RelocEntriesTruncated)
           else reloc_blocks bs directory dir_size (consumed + block_size) (block_count + 1)
                  (acc @ [reloc_block bs block_offset page entry_bytes]))
      else Inr (acc, consumed))"
  by pat_completeness auto
termination
  by (relation "measure (\<lambda>(bs, d, sz, consumed, n, acc). sz - consumed)")
    (auto simp: kBaseRelocBlockHeaderSize_def)

declare reloc_blocks.simps [simp del]

definition parse_relocations ::
    "bytes \<Rightarrow> PeInfo \<Rightarrow> directory_name list \<Rightarrow> (PeInfo \<times> directory_name list) parsed" where
  "parse_relocations bs info ws =
     (let rva = relocation_directory_rva info; sz = relocation_directory_size info in
      if rva = 0 \<and> sz = 0 then Inr (info, ws)
      else if sz < kBaseRelocBlockHeaderSize then fail Malformed (Reloc RelocDirTooSmall)
      else case rva_to_file_offset bs info rva sz of
        None \<Rightarrow>
          if is_rva_in_uninitialized_section info rva sz
          then Inr (info, record_uninitialized_directory DirRelocations ws)
          else fail Malformed (Reloc (RelocDirOutside rva))
      | Some directory \<Rightarrow>
          (case reloc_blocks bs directory sz 0 0 (relocations info) of
             Inl e \<Rightarrow> Inl e
           | Inr (blocks, consumed) \<Rightarrow>
               if consumed \<noteq> sz then fail Malformed (Reloc RelocResidual)
               else Inr (info\<lparr>relocations := blocks\<rparr>, ws)))"

text \<open>
  The blocks cover the directory exactly: a block takes its header and two bytes for each
  entry, and its entries are 4-bit types with 12-bit offsets.
\<close>

definition block_bytes :: "BaseRelocBlock \<Rightarrow> nat" where
  "block_bytes b = 8 + 2 * length (rel_entries b)"

definition wf_reloc_block :: "BaseRelocBlock \<Rightarrow> bool" where
  "wf_reloc_block b \<longleftrightarrow> page_rva b \<le> u32_max \<and>
     (\<forall>e \<in> set (rel_entries b). rel_type e \<le> 15 \<and> rel_offset e \<le> 0xFFF)"

lemma reloc_entry_bounds: "rel_type (reloc_entry r) \<le> 15" "rel_offset (reloc_entry r) \<le> 0xFFF"
proof -
  have m: "to_u16 (x AND k) \<le> k" for x k :: nat
    using nat_and_le2 [of x k] by (auto simp: to_u16_def intro: order_trans [OF mod_less_eq_dividend])
  show "rel_type (reloc_entry r) \<le> 15" "rel_offset (reloc_entry r) \<le> 0xFFF"
    using m [of "drop_bit 12 r" 15] m [of r "0xFFF"] by (simp_all add: reloc_entry_def)
qed

lemma reloc_block_wf:
  assumes "page \<le> u32_max" "n mod 2 = 0"
  shows "wf_reloc_block (reloc_block bs off page n)" "block_bytes (reloc_block bs off page n) = 8 + n"
  using assms
  by (auto simp: wf_reloc_block_def reloc_block_def reloc_entry_bounds [simplified]
      block_bytes_def kBaseRelocEntrySize_def)

lemma reloc_blocks_spec:
  assumes "reloc_blocks bs dir sz consumed n acc = Inr (blocks, used)"
    and "\<forall>b \<in> set acc. wf_reloc_block b"
  shows "(\<forall>b \<in> set blocks. wf_reloc_block b) \<and>
    used + sum_list (map block_bytes acc) = consumed + sum_list (map block_bytes blocks) \<and>
    (n = length acc \<longrightarrow> length acc \<le> kMaxRelocBlocks \<longrightarrow> length blocks \<le> kMaxRelocBlocks)"
  using assms
proof (induction bs dir sz consumed n acc rule: reloc_blocks.induct)
  case (1 bs dir sz consumed n acc)
  let ?off = "dir + consumed"
  let ?size = "rd32 bs (?off + 4)"
  let ?b = "reloc_block bs ?off (rd32 bs ?off) (?size - 8)"
  show ?case
  proof (cases "consumed + 8 \<le> sz")
    case False
    with 1(2,3) show ?thesis
      by (subst (asm) reloc_blocks.simps) (auto simp: kBaseRelocBlockHeaderSize_def)
  next
    case True
    with 1(2) have "n < kMaxRelocBlocks \<and> 8 \<le> ?size \<and> ?size \<le> sz - consumed \<and>
        (?size - 8) mod 2 = 0 \<and>
        reloc_blocks bs dir sz (consumed + ?size) (n + 1) (acc @ [?b]) = Inr (blocks, used)"
      by (subst (asm) reloc_blocks.simps)
        (auto simp: kBaseRelocBlockHeaderSize_def kBaseRelocEntrySize_def Let_def not_le not_less
          split: if_split_asm)
    then have room: "n < kMaxRelocBlocks" and size: "8 \<le> ?size" "?size \<le> sz - consumed"
      "(?size - 8) mod 2 = 0" and
      rest: "reloc_blocks bs dir sz (consumed + ?size) (n + 1) (acc @ [?b]) = Inr (blocks, used)"
      by simp_all
    have wf: "wf_reloc_block ?b" "block_bytes ?b = ?size"
      using reloc_block_wf [OF rd32_le size(3)] size(1) by auto
    have "\<forall>b \<in> set (acc @ [?b]). wf_reloc_block b" using wf(1) 1(3) by auto
    then show ?thesis
      using 1(1) True room size rest wf
      by (auto simp: kBaseRelocBlockHeaderSize_def kBaseRelocEntrySize_def)
  qed
qed

text \<open>Where parsed blocks come from: the directory's bytes in the file, read to the last one.\<close>

definition reloc_source :: "bytes \<Rightarrow> PeInfo \<Rightarrow> BaseRelocBlock list \<Rightarrow> bool" where
  "reloc_source bs info blocks \<longleftrightarrow>
     (\<exists>dir. rva_to_file_offset bs info (relocation_directory_rva info) (relocation_directory_size info) = Some dir \<and>
        reloc_blocks bs dir (relocation_directory_size info) 0 0 [] =
          Inr (blocks, relocation_directory_size info))"

lemma parse_relocations_Inr:
  assumes "parse_relocations bs info ws = Inr (info', ws')" "relocations info = []"
  shows "\<exists>blocks. info' = info\<lparr>relocations := blocks\<rparr> \<and> (\<forall>b \<in> set blocks. wf_reloc_block b) \<and>
    length blocks \<le> kMaxRelocBlocks \<and>
    (blocks \<noteq> [] \<longrightarrow> reloc_source bs info blocks \<and>
       sum_list (map block_bytes blocks) = relocation_directory_size info)"
proof -
  have same: "info = info\<lparr>relocations := []\<rparr>" using assms(2) by simp
  from assms have "info' = info \<or> (\<exists>dir blocks.
      rva_to_file_offset bs info (relocation_directory_rva info) (relocation_directory_size info) = Some dir \<and>
      reloc_blocks bs dir (relocation_directory_size info) 0 0 [] =
        Inr (blocks, relocation_directory_size info) \<and> info' = info\<lparr>relocations := blocks\<rparr>)"
    by (simp add: parse_relocations_def Let_def split: if_split_asm option.split_asm sum.split_asm
        prod.split_asm)
  then show ?thesis
  proof (elim disjE exE conjE)
    assume "info' = info"
    then show ?thesis by (intro exI [of _ "[]"]) (use same in simp)
  next
    fix dir blocks
    assume dir: "rva_to_file_offset bs info (relocation_directory_rva info) (relocation_directory_size info) = Some dir"
      "reloc_blocks bs dir (relocation_directory_size info) 0 0 [] =
        Inr (blocks, relocation_directory_size info)" "info' = info\<lparr>relocations := blocks\<rparr>"
    then have "reloc_source bs info blocks" by (auto simp: reloc_source_def)
    then show ?thesis using dir(2,3) reloc_blocks_spec [of bs dir "relocation_directory_size info" 0 0 "[]"] by auto
  qed
qed

lemma parse_relocations_warnings:
  "parse_relocations bs info ws = Inr (info', ws') \<Longrightarrow>
     ws' = ws \<or> ws' = record_uninitialized_directory DirRelocations ws"
  by (auto simp: parse_relocations_def Let_def split: if_split_asm option.split_asm sum.split_asm)

subsection \<open>Properties\<close>

text \<open>
  The TLS callbacks are the words of the file from the table's start up to the first zero,
  none of them zero, at most 4096.
\<close>

theorem tls_callbacks_read:
  assumes "tls_callbacks bs off [] = Inr vas"
  shows "length vas \<le> kMaxTlsCallbacks \<and>
    (\<forall>i < length vas. vas ! i = le64 bs (off + 8 * i) \<and> vas ! i \<noteq> 0 \<and> off + 8 * i + 8 \<le> length bs) \<and>
    (off + 8 * length vas + 8 \<le> length bs \<longrightarrow> le64 bs (off + 8 * length vas) = 0)"
proof -
  have "tls_callbacks bs (off + 8 * length ([]::nat list)) [] = Inr vas" using assms by simp
  then show ?thesis by (rule tls_callbacks_spec) simp_all
qed

theorem tls_callbacks_read_witness: "le64 [0, 0x10, 0, 0, 0, 0, 0, 0, 0, 0, 0, 0, 0, 0, 0, 0] (0 + 8 * 0) = 0x1000"
proof -
  have "rd64 [0, 0x10, 0, 0, 0, 0, 0, 0, 0, 0, 0, 0, 0, 0, 0, 0] 0 = 0x1000"
    "rd64 [0, 0x10, 0, 0, 0, 0, 0, 0, 0, 0, 0, 0, 0, 0, 0, 0] 8 = 0"
    by (simp_all add: rd64_in le64_def byte_at_def)
  then have "tls_callbacks [0, 0x10, 0, 0, 0, 0, 0, 0, 0, 0, 0, 0, 0, 0, 0, 0] 0 [] = Inr [0x1000]"
    by (simp add: tls_callbacks.simps has_range_def kMaxTlsCallbacks_def)
  from tls_callbacks_read [OF this] show ?thesis by simp
qed

text \<open>
  The blocks of a parsed relocation directory fill it: their headers and entries have the
  directory's size together, every entry has a 4-bit type and a 12-bit offset, and there are at
  most 4096 blocks.
\<close>

theorem relocation_blocks_fill:
  assumes "parse_relocations bs info ws = Inr (info', ws')" "relocations info = []" "relocations info' \<noteq> []"
  shows "sum_list (map block_bytes (relocations info')) = relocation_directory_size info \<and>
    (\<forall>b \<in> set (relocations info'). wf_reloc_block b) \<and> length (relocations info') \<le> kMaxRelocBlocks"
  using parse_relocations_Inr [OF assms(1,2)] assms(3) by auto

theorem relocation_blocks_fill_witness:
  "\<exists>info'. parse_relocations [0, 0x10, 0, 0, 10, 0, 0, 0, 8, 0xA0]
       (empty_info\<lparr>size_of_headers := 10, relocation_directory_size := 10\<rparr>) [] = Inr (info', []) \<and>
     sum_list (map block_bytes (relocations info')) = 10"
proof -
  let ?bs = "[0, 0x10, 0, 0, 10, 0, 0, 0, 8, 0xA0] :: bytes"
  have reads: "rd32 ?bs 0 = 0x1000" "rd32 ?bs 4 = 10" "rd16 ?bs 8 = 0xA008"
    by (simp_all add: rd32_in rd16_in le32_def le16_def byte_at_def)
  have p: "parse_relocations ?bs (empty_info\<lparr>size_of_headers := 10, relocation_directory_size := 10\<rparr>) [] =
    Inr (empty_info\<lparr>size_of_headers := 10, relocation_directory_size := 10,
      relocations := [\<lparr>page_rva = 0x1000, rel_entries = [\<lparr>rel_type = 10, rel_offset = 8\<rparr>]\<rparr>]\<rparr>, [])"
    using reads by (simp add: parse_relocations_def rva_to_file_offset_def empty_info_def reloc_blocks.simps
        reloc_block_def reloc_entry_def eval_simps to_u16_def Let_def)
  show ?thesis unfolding p using relocation_blocks_fill [OF p] by (simp add: empty_info_def)
qed

end
