(* ===== verification/Pe_Parser.thy ===== *)
theory Pe_Parser
  imports Pe_Exports Pe_Imports Pe_Exceptions Pe_Tls_Reloc
begin

text \<open>
  The driver of the PE reader: \<open>PeParser::run\<close> and \<open>parse_pe\<close> of \<open>src/pe/pe_reader.cpp\<close>. The
  headers are checked and read, then the section table, then the directories one after the
  other, each over the \<open>PeInfo\<close> the previous ones filled in. The lemmas show what a successful
  parse guarantees to the rest of the program.
\<close>

subsection \<open>Headers\<close>

definition is_power_of_two :: "u32 \<Rightarrow> bool" where
  "is_power_of_two value \<longleftrightarrow> value \<noteq> 0 \<and> value AND (value - 1) = 0"

definition check_nt_headers :: "bytes \<Rightarrow> (ParseStatus \<times> parse_error) option" where
  "check_nt_headers bs =
     (if length bs < kDosHeaderSize then Some (Truncated, Header FileSmallerThanDosHeader)
      else if rd16 bs 0 \<noteq> kDosMagic then Some (Malformed, Header DosSignatureMissing)
      else if length bs - kPeSignatureOffset < rd32 bs 60
      then Some (Truncated, Header ElfanewOutside)
      else
        let nt_offset = rd32 bs 60 in
        if \<not> has_range bs nt_offset (kPeSignatureOffset + kCoffHeaderSize)
        then Some (Truncated, Header NtHeaderTruncated)
        else if rd32 bs nt_offset \<noteq> kPeSignature then Some (Malformed, Header PeSignatureMissing)
        else None)"

definition check_coff_headers :: "bytes \<Rightarrow> nat \<Rightarrow> (ParseStatus \<times> parse_error) option" where
  "check_coff_headers bs coff_offset =
     (let machine = rd16 bs coff_offset;
          section_count = rd16 bs (coff_offset + 2);
          optional_size = rd16 bs (coff_offset + 16);
          opt_offset = coff_offset + kCoffHeaderSize;
          section_table_offset = opt_offset + optional_size;
          opt_magic = rd16 bs opt_offset
      in
      if machine \<noteq> kMachineAmd64
      then Some (UnsupportedArchitecture, Header (MachineUnsupported machine))
      else if optional_size < kOptionalHeader64BaseSize
      then Some (Malformed, Header OptionalHeaderTooSmall)
      else if length bs < section_table_offset \<or>
          (length bs - section_table_offset) div kSectionHeaderSize < section_count
      then Some (Truncated, Header SectionTableTruncated)
      else if opt_magic = kOptionalMagic32 then Some (UnsupportedFormat, Header Pe32Unsupported)
      else if opt_magic \<noteq> kOptionalMagic64
      then Some (Malformed, Header (OptionalMagicUnknown opt_magic))
      else None)"

definition read_optional_header :: "bytes \<Rightarrow> nat \<Rightarrow> PeInfo" where
  "read_optional_header bs coff_offset =
     (let opt_offset = coff_offset + kCoffHeaderSize in
      empty_info
        \<lparr>is_pe32_plus := True,
         is_dll := rd16 bs (coff_offset + 18) AND kImageFileDll \<noteq> 0,
         machine := rd16 bs coff_offset,
         number_of_sections := rd16 bs (coff_offset + 2),
         address_of_entry_point := rd32 bs (opt_offset + 16),
         image_base := rd64 bs (opt_offset + 24),
         section_alignment := rd32 bs (opt_offset + 32),
         size_of_image := rd32 bs (opt_offset + 56),
         size_of_headers := rd32 bs (opt_offset + 60),
         subsystem := rd16 bs (opt_offset + 68)\<rparr>)"

definition check_optional_header :: "PeInfo \<Rightarrow> u32 \<Rightarrow> header_error option" where
  "check_optional_header info file_alignment =
     (if size_of_image info = 0 \<or> size_of_headers info = 0 \<or>
          size_of_image info < size_of_headers info \<or>
          \<not> is_power_of_two (section_alignment info) \<or> \<not> is_power_of_two file_alignment \<or>
          file_alignment < kMinFileAlignment \<or> kMaxFileAlignment < file_alignment \<or>
          section_alignment info < file_alignment
      then Some BadAlignmentOrSize
      else if address_of_entry_point info \<noteq> 0 \<and>
          size_of_image info \<le> address_of_entry_point info
      then Some EntryPointOutside
      else None)"

definition directory_count :: "bytes \<Rightarrow> nat \<Rightarrow> nat" where
  "directory_count bs opt_offset = min (rd32 bs (opt_offset + 108)) kDataDirectoryCount"

text \<open>One data directory: its address and size, zero when the header has fewer directories.\<close>

definition read_directory :: "bytes \<Rightarrow> nat \<Rightarrow> nat \<Rightarrow> u32 \<times> u32" where
  "read_directory bs opt_offset index =
     (let off = opt_offset + kOptionalHeader64BaseSize + index * kDataDirectoryEntrySize in
      if index < directory_count bs opt_offset then (rd32 bs off, rd32 bs (off + 4)) else (0, 0))"

definition read_directories :: "bytes \<Rightarrow> nat \<Rightarrow> PeInfo \<Rightarrow> PeInfo" where
  "read_directories bs opt_offset info =
     info\<lparr>export_directory_rva := fst (read_directory bs opt_offset kDirExport),
          export_directory_size := snd (read_directory bs opt_offset kDirExport),
          import_directory_rva := fst (read_directory bs opt_offset kDirImport),
          import_directory_size := snd (read_directory bs opt_offset kDirImport),
          resource_directory_rva := fst (read_directory bs opt_offset kDirResource),
          resource_directory_size := snd (read_directory bs opt_offset kDirResource),
          exception_directory_rva := fst (read_directory bs opt_offset kDirException),
          exception_directory_size := snd (read_directory bs opt_offset kDirException),
          relocation_directory_rva := fst (read_directory bs opt_offset kDirBaseReloc),
          relocation_directory_size := snd (read_directory bs opt_offset kDirBaseReloc),
          tls_directory_rva := fst (read_directory bs opt_offset kDirTls),
          tls_directory_size := snd (read_directory bs opt_offset kDirTls),
          delay_import_directory_rva := fst (read_directory bs opt_offset kDirDelayImport),
          delay_import_directory_size := snd (read_directory bs opt_offset kDirDelayImport)\<rparr>"

subsection \<open>The section table\<close>

definition section_name :: "bytes \<Rightarrow> nat \<Rightarrow> string" where
  "section_name bs offset =
     chars_of (rev (dropWhile (\<lambda>b. b = 0) (rev
       (case read_bytes bs offset 8 of None \<Rightarrow> replicate 8 0 | Some raw \<Rightarrow> raw))))"

definition read_section :: "bytes \<Rightarrow> nat \<Rightarrow> SectionInfo" where
  "read_section bs offset =
     \<lparr>sec_name = section_name bs offset,
      virtual_address = rd32 bs (offset + 12), virtual_size = rd32 bs (offset + 8),
      raw_data_pointer = rd32 bs (offset + 20), raw_data_size = rd32 bs (offset + 16),
      characteristics = rd32 bs (offset + 36)\<rparr>"

definition check_section :: "bytes \<Rightarrow> PeInfo \<Rightarrow> SectionInfo \<Rightarrow> header_error option" where
  "check_section bs info s =
     (if section_span s \<noteq> 0 \<and>
          (virtual_address s < size_of_headers info \<or> size_of_image info < section_end s)
      then Some (SectionOutside (sec_name s))
      else if 0 < raw_data_size s \<and> length bs < raw_data_pointer s + raw_data_size s
      then Some (SectionRawOutside (sec_name s))
      else None)"

definition section_step :: "bytes \<Rightarrow> PeInfo \<Rightarrow> nat \<Rightarrow> nat \<Rightarrow> SectionInfo list \<Rightarrow> SectionInfo list parsed" where
  "section_step bs info section_table_offset index acc =
     (let s = read_section bs (section_table_offset + index * kSectionHeaderSize) in
      case check_section bs info s of
        Some e \<Rightarrow> fail Malformed (Header e)
      | None \<Rightarrow> Inr (acc @ [s]))"

definition read_sections :: "bytes \<Rightarrow> PeInfo \<Rightarrow> nat \<Rightarrow> SectionInfo list parsed" where
  "read_sections bs info section_table_offset =
     foldE (section_step bs info section_table_offset) [0..<number_of_sections info] []"

subsection \<open>The parser\<close>

text \<open>The headers and the section table: the part of \<open>run\<close> before the directories.\<close>

definition parse_headers :: "bytes \<Rightarrow> PeInfo parsed" where
  "parse_headers bs =
     (case check_nt_headers bs of Some e \<Rightarrow> Inl e | None \<Rightarrow>
        let coff_offset = rd32 bs 60 + kPeSignatureOffset;
            opt_offset = coff_offset + kCoffHeaderSize;
            optional_size = rd16 bs (coff_offset + 16)
        in
        case check_coff_headers bs coff_offset of Some e \<Rightarrow> Inl e | None \<Rightarrow>
          let info = read_optional_header bs coff_offset in
          case check_optional_header info (rd32 bs (opt_offset + 36)) of
            Some e \<Rightarrow> fail Malformed (Header e)
          | None \<Rightarrow>
              if optional_size - kOptionalHeader64BaseSize <
                  directory_count bs opt_offset * kDataDirectoryEntrySize
              then fail Truncated (Header DirectoriesExceedHeader)
              else
                (case read_sections bs info (opt_offset + optional_size) of
                   Inl e \<Rightarrow> Inl e
                 | Inr ss \<Rightarrow> Inr ((read_directories bs opt_offset info)\<lparr>sections := ss\<rparr>)))"

definition parse_directories :: "bytes \<Rightarrow> PeInfo \<Rightarrow> (PeInfo \<times> directory_name list) parsed" where
  "parse_directories bs info =
     (case parse_exports bs info [] of Inl e \<Rightarrow> Inl e | Inr (info, ws) \<Rightarrow>
      case parse_imports bs info of Inl e \<Rightarrow> Inl e | Inr info \<Rightarrow>
      case parse_delay_imports bs info of Inl e \<Rightarrow> Inl e | Inr info \<Rightarrow>
      case parse_runtime_functions bs info ws of Inl e \<Rightarrow> Inl e | Inr (info, ws) \<Rightarrow>
      case parse_tls_directory bs info ws of Inl e \<Rightarrow> Inl e | Inr (info, ws) \<Rightarrow>
      parse_relocations bs info ws)"

definition parse_pe :: "bytes \<Rightarrow> (PeInfo \<times> directory_name list) parsed" where
  "parse_pe bs =
     (case parse_headers bs of Inl e \<Rightarrow> Inl e | Inr info \<Rightarrow> parse_directories bs info)"

text \<open>\<open>ParseResult\<close>: the status of a result, \<open>Success\<close> exactly when there is a value.\<close>

definition parse_status :: "'a parsed \<Rightarrow> ParseStatus" where
  "parse_status r = (case r of Inl (st, e) \<Rightarrow> st | Inr x \<Rightarrow> Success)"

lemma is_power_of_two_iff: "is_power_of_two v \<longleftrightarrow> (\<exists>k. v = 2 ^ k)"
proof (induction v rule: less_induct)
  case (less v)
  show ?case
  proof (cases "v \<le> 1")
    case True
    then have "v = 0 \<or> v = 1" by auto
    then show ?thesis by (auto simp: is_power_of_two_def intro: exI [of _ 0])
  next
    case False
    show ?thesis
    proof (cases "even v")
      case True
      then obtain w where w: "v = 2 * w" by blast
      with False have "0 < w" "w < v" by auto
      have "v AND (v - 1) = 2 * (w AND (w - 1))"
      proof -
        obtain u where u: "w = Suc u" using \<open>0 < w\<close> by (cases w) auto
        have "v - 1 = 2 * u + 1" "v = 2 * Suc u" using w u by auto
        then show ?thesis by (subst and_rec) (simp add: u)
      qed
      then have "is_power_of_two v \<longleftrightarrow> is_power_of_two w"
        using w \<open>0 < w\<close> by (auto simp: is_power_of_two_def)
      also have "\<dots> \<longleftrightarrow> (\<exists>k. w = 2 ^ k)" by (rule less.IH [OF \<open>w < v\<close>])
      also have "\<dots> \<longleftrightarrow> (\<exists>k. v = 2 ^ k)"
      proof
        assume "\<exists>k. w = 2 ^ k"
        then show "\<exists>k. v = 2 ^ k" using w by (metis power_Suc)
      next
        assume "\<exists>k. v = 2 ^ k"
        then obtain k where k: "v = 2 ^ k" by blast
        with False obtain j where "k = Suc j" by (cases k) auto
        with k w show "\<exists>k. w = 2 ^ k" by auto
      qed
      finally show ?thesis .
    next
      case odd: False
      then obtain w where w: "v = 2 * w + 1" by (blast elim: oddE)
      have "v AND (v - 1) = 2 * (w AND w)"
        by (subst and_rec) (use w in auto)
      then have "\<not> is_power_of_two v" using w False by (auto simp: is_power_of_two_def)
      moreover have "v \<noteq> 2 ^ k" for k
        using odd False by (cases k) auto
      ultimately show ?thesis by auto
    qed
  qed
qed

subsection \<open>What the headers guarantee\<close>

lemma is_power_of_two_pos: "is_power_of_two v \<Longrightarrow> 0 < v"
  by (simp add: is_power_of_two_def)

text \<open>
  A section that passed the checks: its fields have their widths, its addresses lie between the
  headers and the end of the image, and its raw data in the file.
\<close>

definition wf_section :: "bytes \<Rightarrow> PeInfo \<Rightarrow> SectionInfo \<Rightarrow> bool" where
  "wf_section bs info s \<longleftrightarrow>
     virtual_address s \<le> u32_max \<and> virtual_size s \<le> u32_max \<and> raw_data_pointer s \<le> u32_max \<and>
     raw_data_size s \<le> u32_max \<and> characteristics s \<le> u32_max \<and> length (sec_name s) \<le> 8 \<and>
     (section_span s \<noteq> 0 \<longrightarrow>
        size_of_headers info \<le> virtual_address s \<and> section_end s \<le> size_of_image info) \<and>
     (0 < raw_data_size s \<longrightarrow> raw_data_pointer s + raw_data_size s \<le> length bs)"

lemma length_dropWhile_rev_le: "length (rev (dropWhile P (rev xs))) \<le> length xs"
  using length_dropWhile_le [of P "rev xs"] by simp

lemma section_name_length: "length (section_name bs off) \<le> 8"
proof -
  have "length (case read_bytes bs off 8 of None \<Rightarrow> replicate 8 0 | Some raw \<Rightarrow> raw) \<le> 8"
    by (auto simp: read_bytes_def)
  then show ?thesis
    using length_dropWhile_rev_le order_trans unfolding section_name_def length_chars_of by blast
qed

lemma read_section_wf:
  assumes "check_section bs info (read_section bs off) = None"
  shows "wf_section bs info (read_section bs off)"
  using assms section_name_length [of bs off] rd32_le
  by (auto simp: check_section_def wf_section_def read_section_def not_less split: if_split_asm)

lemma read_sections_Inr:
  assumes "read_sections bs info off = Inr ss"
  shows "ss = map (\<lambda>i. read_section bs (off + i * 40)) [0..<number_of_sections info] \<and>
    (\<forall>s \<in> set ss. wf_section bs info s)"
  using assms unfolding read_sections_def
proof (rule foldE_upt_invariant)
  show "[] = map (\<lambda>i. read_section bs (off + i * 40)) [0..<0] \<and> (\<forall>s \<in> set []. wf_section bs info s)"
    by simp
next
  fix i acc acc'
  assume "acc = map (\<lambda>i. read_section bs (off + i * 40)) [0..<i] \<and> (\<forall>s \<in> set acc. wf_section bs info s)"
    and "section_step bs info off i acc = Inr acc'"
  then show "acc' = map (\<lambda>i. read_section bs (off + i * 40)) [0..<Suc i] \<and>
      (\<forall>s \<in> set acc'. wf_section bs info s)"
    by (auto simp: section_step_def Let_def kSectionHeaderSize_def read_section_wf
        split: option.split_asm)
qed

text \<open>
  The headers of a file the reader accepts: an AMD64 PE32+ image whose sizes and alignment are
  consistent, whose entry point is inside it, and whose section table is complete.
\<close>

definition wf_headers :: "bytes \<Rightarrow> PeInfo \<Rightarrow> bool" where
  "wf_headers bs info \<longleftrightarrow>
     is_pe32_plus info \<and> machine info = kMachineAmd64 \<and>
     0 < size_of_headers info \<and> size_of_headers info \<le> size_of_image info \<and>
     size_of_image info \<le> u32_max \<and> image_base info \<le> u64_max \<and>
     (\<exists>k. section_alignment info = 2 ^ k) \<and> 0x200 \<le> section_alignment info \<and>
     address_of_entry_point info < size_of_image info \<and>
     length (sections info) = number_of_sections info \<and>
     (\<forall>s \<in> set (sections info). wf_section bs info s)"

definition no_directories :: "PeInfo \<Rightarrow> bool" where
  "no_directories info \<longleftrightarrow> exports info = [] \<and> imports' info = [] \<and> delay_imports info = [] \<and>
     runtime_functions info = [] \<and> tls_info info = empty_tls \<and> relocations info = []"

lemma read_optional_header_fields:
  "size_of_image (read_optional_header bs c) \<le> u32_max"
  "image_base (read_optional_header bs c) \<le> u64_max"
  "is_pe32_plus (read_optional_header bs c)"
  "machine (read_optional_header bs c) = rd16 bs c"
  "no_directories (read_optional_header bs c)"
  "number_of_sections (read_optional_header bs c) = rd16 bs (c + 2)"
  by (simp_all add: read_optional_header_def Let_def rd32_le rd64_le no_directories_def
      empty_info_def)

lemma check_optional_header_None:
  assumes "check_optional_header info fa = None"
  shows "0 < size_of_headers info \<and> size_of_headers info \<le> size_of_image info \<and>
    (\<exists>k. section_alignment info = 2 ^ k) \<and> 0x200 \<le> section_alignment info \<and>
    address_of_entry_point info < size_of_image info"
proof -
  from assms have "0 < size_of_headers info" "size_of_headers info \<le> size_of_image info"
    "is_power_of_two (section_alignment info)" "0x200 \<le> section_alignment info"
    "address_of_entry_point info < size_of_image info"
    by (auto simp: check_optional_header_def not_less not_le kMinFileAlignment_def split: if_split_asm)
  then show ?thesis unfolding is_power_of_two_iff by blast
qed

lemma parse_headers_steps:
  assumes "parse_headers bs = Inr info"
  shows "\<exists>c ss. check_nt_headers bs = None \<and> check_coff_headers bs c = None \<and>
    c = rd32 bs 60 + 4 \<and>
    check_optional_header (read_optional_header bs c) (rd32 bs (c + 20 + 36)) = None \<and>
    directory_count bs (c + 20) * 8 \<le> rd16 bs (c + 16) - 112 \<and>
    read_sections bs (read_optional_header bs c) (c + 20 + rd16 bs (c + 16)) = Inr ss \<and>
    info = (read_directories bs (c + 20) (read_optional_header bs c))\<lparr>sections := ss\<rparr>"
  using assms
  by (auto simp: parse_headers_def Let_def kPeSignatureOffset_def kCoffHeaderSize_def not_less
      kOptionalHeader64BaseSize_def kDataDirectoryEntrySize_def
      split: option.split_asm if_split_asm sum.split_asm)

lemma wf_section_frame:
  "size_of_headers info' = size_of_headers info \<Longrightarrow> size_of_image info' = size_of_image info \<Longrightarrow>
     wf_section bs info' = wf_section bs info"
  by (simp add: wf_section_def fun_eq_iff)

lemma parse_headers_Inr:
  assumes "parse_headers bs = Inr info"
  shows "wf_headers bs info \<and> no_directories info"
proof -
  from parse_headers_steps [OF assms] obtain c ss where
    coff: "check_coff_headers bs c = None" and
    opt: "check_optional_header (read_optional_header bs c) (rd32 bs (c + 20 + 36)) = None" and
    ss: "read_sections bs (read_optional_header bs c) (c + 20 + rd16 bs (c + 16)) = Inr ss" and
    info: "info = (read_directories bs (c + 20) (read_optional_header bs c))\<lparr>sections := ss\<rparr>"
    by blast
  let ?o = "read_optional_header bs c"
  from coff have m: "rd16 bs c = kMachineAmd64"
    by (auto simp: check_coff_headers_def Let_def split: if_split_asm)
  have sec: "wf_section bs info = wf_section bs ?o"
    by (rule wf_section_frame) (simp_all add: info read_directories_def)
  have "\<forall>s \<in> set ss. wf_section bs info s"
    using read_sections_Inr [OF ss] by (simp add: sec)
  moreover have "length ss = number_of_sections ?o" using read_sections_Inr [OF ss] by simp
  ultimately show ?thesis
    using check_optional_header_None [OF opt] read_optional_header_fields [of bs c] m
    by (simp add: wf_headers_def info read_directories_def no_directories_def)
qed

subsection \<open>What a successful parse guarantees\<close>

text \<open>
  The directories are parsed over records that differ only in the directories' results; the
  well-formedness of every result depends on the layout of the image alone.
\<close>

definition same_layout :: "PeInfo \<Rightarrow> PeInfo \<Rightarrow> bool" where
  "same_layout info info' \<longleftrightarrow>
     size_of_image info = size_of_image info' \<and> size_of_headers info = size_of_headers info' \<and>
     sections info = sections info' \<and> export_directory_rva info = export_directory_rva info' \<and>
     export_directory_size info = export_directory_size info'"

lemma layout_rva_to_file_offset:
  "same_layout info info' \<Longrightarrow> rva_to_file_offset bs info = rva_to_file_offset bs info'"
  by (auto simp: same_layout_def rva_to_file_offset_def fun_eq_iff)

lemma layout_exports_done: "same_layout info info' \<Longrightarrow> exports_done info = exports_done info'"
  by (simp add: same_layout_def exports_done_def wf_export_def fun_eq_iff)

lemma layout_wf_import:
  assumes "same_layout info info'"
  shows "wf_import bs info = wf_import bs info'"
proof -
  have "symbols_of_table bs info = symbols_of_table bs info'"
    using assms layout_rva_to_file_offset [OF assms, of bs]
    by (simp add: symbols_of_table_def symbol_of_thunk_def same_layout_def fun_eq_iff Let_def)
  then show ?thesis by (simp add: wf_import_def fun_eq_iff)
qed

lemma layout_wf_delay_import:
  "same_layout info info' \<Longrightarrow> wf_delay_import bs info = wf_delay_import bs info'"
  by (simp add: wf_delay_import_def fun_eq_iff layout_wf_import [of info info']
      layout_rva_to_file_offset [of info info'])

lemma layout_wf_function_table:
  "same_layout info info' \<Longrightarrow> wf_function_table info = wf_function_table info'"
  by (simp add: wf_function_table_def functions_ok_def wf_function_def wf_unwind_def
      same_layout_def fun_eq_iff)

definition wf_directories :: "bytes \<Rightarrow> PeInfo \<Rightarrow> bool" where
  "wf_directories bs info \<longleftrightarrow>
     (\<exists>ob n. ob + n \<le> u16_max + 1 \<and> exports_done info ob n (exports info)) \<and>
     (\<forall>d \<in> set (imports' info). wf_import bs info d) \<and> length (imports' info) \<le> kMaxImportDlls \<and>
     (\<forall>d \<in> set (delay_imports info). wf_delay_import bs info d) \<and>
     length (delay_imports info) \<le> kMaxImportDlls \<and>
     wf_function_table info (runtime_functions info) \<and>
     wf_tls (tls_info info) \<and>
     (\<forall>b \<in> set (relocations info). wf_reloc_block b) \<and>
     length (relocations info) \<le> kMaxRelocBlocks \<and>
     (relocations info \<noteq> [] \<longrightarrow> reloc_source bs info (relocations info) \<and>
        sum_list (map block_bytes (relocations info)) = relocation_directory_size info)"

lemma parse_exports_result:
  assumes "parse_exports bs info ws = Inr (info', ws')" "exports info = []"
  shows "\<exists>ob n es. info' = info\<lparr>export_ordinal_base := ob, exports := es\<rparr> \<and>
    (\<exists>base. base + n \<le> u16_max + 1 \<and> exports_done info base n es)"
  using parse_exports_Inr [OF assms(1)]
proof (elim disjE exE conjE)
  assume "info' = info"
  moreover have "info = info\<lparr>export_ordinal_base := export_ordinal_base info, exports := []\<rparr>"
    using assms(2) by simp
  moreover have "exports_done info 0 0 []" by (simp add: exports_done_def)
  moreover have "0 + 0 \<le> u16_max + 1" by simp
  ultimately show ?thesis by blast
qed blast

text \<open>The six steps, with the record each one starts from.\<close>

lemma parse_directories_steps:
  assumes "parse_directories bs info = Inr (info6, ws)"
  obtains info1 ws1 info2 info3 info4 ws4 info5 ws5 where
    "parse_exports bs info [] = Inr (info1, ws1)"
    "parse_imports bs info1 = Inr info2"
    "parse_delay_imports bs info2 = Inr info3"
    "parse_runtime_functions bs info3 ws1 = Inr (info4, ws4)"
    "parse_tls_directory bs info4 ws4 = Inr (info5, ws5)"
    "parse_relocations bs info5 ws5 = Inr (info6, ws)"
  using assms by (auto simp: parse_directories_def split: sum.split_asm)

lemma parse_directories_Inr:
  assumes "parse_directories bs info = Inr (info', ws)" "no_directories info"
    "size_of_image info \<le> u32_max"
  shows "\<exists>ob es il dl fs t bl. info' = info\<lparr>export_ordinal_base := ob, exports := es, imports' := il,
      delay_imports := dl, runtime_functions := fs, tls_info := t, relocations := bl\<rparr> \<and>
    wf_directories bs info'"
  using assms(1)
proof (rule parse_directories_steps)
  fix i1 w1 i2 i3 i4 w4 i5 w5
  assume steps: "parse_exports bs info [] = Inr (i1, w1)" "parse_imports bs i1 = Inr i2"
    "parse_delay_imports bs i2 = Inr i3" "parse_runtime_functions bs i3 w1 = Inr (i4, w4)"
    "parse_tls_directory bs i4 w4 = Inr (i5, w5)" "parse_relocations bs i5 w5 = Inr (info', ws)"
  note none = assms(2) [unfolded no_directories_def]
  from parse_exports_result [OF steps(1)] none obtain ob n es base where
    i1: "i1 = info\<lparr>export_ordinal_base := ob, exports := es\<rparr>" and
    es: "base + n \<le> u16_max + 1" "exports_done info base n es" by blast
  have "\<exists>il. i2 = i1\<lparr>imports' := il\<rparr> \<and> (\<forall>d \<in> set il. wf_import bs i1 d) \<and> length il \<le> kMaxImportDlls"
    by (rule parse_imports_Inr [OF steps(2)]) (use assms(3) none i1 in simp_all)
  then obtain il where i2: "i2 = i1\<lparr>imports' := il\<rparr>" and
    il: "\<forall>d \<in> set il. wf_import bs i1 d" "length il \<le> kMaxImportDlls" by blast
  have "\<exists>dl. i3 = i2\<lparr>delay_imports := dl\<rparr> \<and> (\<forall>d \<in> set dl. wf_delay_import bs i2 d) \<and>
      length dl \<le> kMaxImportDlls"
    by (rule parse_delay_imports_Inr [OF steps(3)]) (use assms(3) none i1 i2 in simp_all)
  then obtain dl where i3: "i3 = i2\<lparr>delay_imports := dl\<rparr>" and
    dl: "\<forall>d \<in> set dl. wf_delay_import bs i2 d" "length dl \<le> kMaxImportDlls" by blast
  have "\<exists>fs. i4 = i3\<lparr>runtime_functions := fs\<rparr> \<and> wf_function_table i3 fs"
    by (rule parse_runtime_functions_Inr [OF steps(4)]) (use assms(3) none i1 i2 i3 in simp_all)
  then obtain fs where i4: "i4 = i3\<lparr>runtime_functions := fs\<rparr>" and
    fs: "wf_function_table i3 fs" by blast
  have "\<exists>t. i5 = i4\<lparr>tls_info := t\<rparr> \<and> wf_tls t"
    by (rule parse_tls_directory_Inr [OF steps(5)]) (use none i1 i2 i3 i4 in simp)
  then obtain t where i5: "i5 = i4\<lparr>tls_info := t\<rparr>" and t: "wf_tls t" by blast
  have "\<exists>bl. info' = i5\<lparr>relocations := bl\<rparr> \<and> (\<forall>b \<in> set bl. wf_reloc_block b) \<and>
      length bl \<le> kMaxRelocBlocks \<and>
      (bl \<noteq> [] \<longrightarrow> reloc_source bs i5 bl \<and>
         sum_list (map block_bytes bl) = relocation_directory_size i5)"
    by (rule parse_relocations_Inr [OF steps(6)]) (use none i1 i2 i3 i4 i5 in simp)
  then obtain bl where i6: "info' = i5\<lparr>relocations := bl\<rparr>" and
    bl: "\<forall>b \<in> set bl. wf_reloc_block b" "length bl \<le> kMaxRelocBlocks"
      "bl \<noteq> [] \<longrightarrow> reloc_source bs i5 bl \<and>
         sum_list (map block_bytes bl) = relocation_directory_size i5" by blast
  have layout: "same_layout info info'" "same_layout i1 info'" "same_layout i2 info'"
    "same_layout i3 info'"
    by (simp_all add: same_layout_def i1 i2 i3 i4 i5 i6)
  have fields: "exports info' = es" "imports' info' = il" "delay_imports info' = dl"
    "runtime_functions info' = fs" "tls_info info' = t" "relocations info' = bl"
    "relocation_directory_size info' = relocation_directory_size i5"
    by (simp_all add: i1 i2 i3 i4 i5 i6)
  have src: "reloc_source bs info' bl = reloc_source bs i5 bl"
    using layout_rva_to_file_offset [of i5 info' bs] by (simp add: reloc_source_def same_layout_def i6)
  have "\<exists>ob n. ob + n \<le> u16_max + 1 \<and> exports_done info' ob n es"
    using es layout_exports_done [OF layout(1)] by auto
  then have "wf_directories bs info'"
    using il dl fs t bl
    by (simp add: wf_directories_def fields src layout_wf_import [OF layout(2), symmetric]
        layout_wf_delay_import [OF layout(3), symmetric]
        layout_wf_function_table [OF layout(4), symmetric])
  moreover have "info' = info\<lparr>export_ordinal_base := ob, exports := es, imports' := il,
      delay_imports := dl, runtime_functions := fs, tls_info := t, relocations := bl\<rparr>"
    by (simp add: i1 i2 i3 i4 i5 i6)
  ultimately show ?thesis by blast
qed

lemma parse_directories_warnings:
  assumes "parse_directories bs info = Inr (info', ws)"
  shows "distinct ws" "length ws \<le> 4"
proof -
  have rec: "distinct ws' \<and> set ws' \<subseteq> insert d S" if "ws' = ws \<or> ws' = record_uninitialized_directory d ws"
    "distinct ws" "set ws \<subseteq> S" "d \<notin> S" for ws ws' d S
    using that by (auto simp: record_uninitialized_directory_def split: if_split_asm)
  from assms have "distinct ws \<and> set ws \<subseteq> {DirRelocations, DirTls, DirExceptions, DirExports}"
  proof (rule parse_directories_steps)
    fix i1 w1 i2 i3 i4 w4 i5 w5
    assume steps: "parse_exports bs info [] = Inr (i1, w1)" "parse_imports bs i1 = Inr i2"
      "parse_delay_imports bs i2 = Inr i3" "parse_runtime_functions bs i3 w1 = Inr (i4, w4)"
      "parse_tls_directory bs i4 w4 = Inr (i5, w5)" "parse_relocations bs i5 w5 = Inr (info', ws)"
    have 1: "distinct w1 \<and> set w1 \<subseteq> {DirExports}"
      using rec [OF parse_exports_warnings [OF steps(1)], of "{}"] by simp
    have 2: "distinct w4 \<and> set w4 \<subseteq> {DirExceptions, DirExports}"
      by (rule rec [OF parse_runtime_functions_warnings [OF steps(4)]]) (use 1 in auto)
    have 3: "distinct w5 \<and> set w5 \<subseteq> {DirTls, DirExceptions, DirExports}"
      by (rule rec [OF parse_tls_directory_warnings [OF steps(5)]]) (use 2 in auto)
    show ?thesis
      by (rule rec [OF parse_relocations_warnings [OF steps(6)]]) (use 3 in auto)
  qed
  then show "distinct ws" "length ws \<le> 4"
    using card_mono [of "{DirRelocations, DirTls, DirExceptions, DirExports}" "set ws"]
    by (simp_all add: distinct_card)
qed

lemma parse_pe_steps:
  assumes "parse_pe bs = Inr (info, ws)"
  obtains hdr where "parse_headers bs = Inr hdr" "parse_directories bs hdr = Inr (info, ws)"
  using assms by (auto simp: parse_pe_def split: sum.split_asm)

lemma parse_pe_wf:
  assumes "parse_pe bs = Inr (info, ws)"
  shows "wf_headers bs info" "wf_directories bs info" "length ws \<le> 4"
proof -
  from assms obtain hdr where h: "parse_headers bs = Inr hdr"
    and d: "parse_directories bs hdr = Inr (info, ws)" by (rule parse_pe_steps)
  note wf = parse_headers_Inr [OF h]
  then have "size_of_image hdr \<le> u32_max" by (simp add: wf_headers_def)
  from parse_directories_Inr [OF d conjunct2 [OF wf] this] obtain ob es il dl fs t bl where
    info: "info = hdr\<lparr>export_ordinal_base := ob, exports := es, imports' := il,
      delay_imports := dl, runtime_functions := fs, tls_info := t, relocations := bl\<rparr>" and
    dirs: "wf_directories bs info" by blast
  have "wf_section bs info = wf_section bs hdr" by (rule wf_section_frame) (simp_all add: info)
  with wf show "wf_headers bs info" by (simp add: wf_headers_def info)
  show "wf_directories bs info" by (rule dirs)
  show "length ws \<le> 4" by (rule parse_directories_warnings [OF d])
qed

end
