(* ===== verification/Image_Model.thy ===== *)
theory Image_Model
  imports Pe_Model
begin

text \<open>
  The data of the image mapper (\<open>include/tradutorlinux/loader/image_mapper.hpp\<close>) and its page
  arithmetic and permission rules (the first part of \<open>src/loader/image_mapper.cpp\<close>).

  The memory of a mapping is the list of its bytes. The protection the kernel holds for each
  host page is a list of \<open>Prot\<close>, one entry per page. The size of a host page
  (\<open>util::host_page_size\<close>) is a parameter \<open>page\<close> of every operation that asks for it.
\<close>

subsection \<open>Data\<close>

datatype MapStatus = MapSuccess | InvalidImage | OutOfMemory

datatype SectionPermissions = NoAccess | ReadOnly | ReadWrite | ReadExecute | ReadWriteExecute

record MapRegion =
  region_name :: string
  region_rva :: u32
  region_size :: u32
  region_raw_pointer :: u32
  region_raw_size :: u32
  permissions :: SectionPermissions

text \<open>A protection of \<open>mprotect\<close>: which of \<open>PROT_READ\<close>, \<open>PROT_WRITE\<close>, \<open>PROT_EXEC\<close> it has.\<close>

record Prot =
  prot_read :: bool
  prot_write :: bool
  prot_exec :: bool

definition PROT_NONE :: Prot where
  "PROT_NONE = \<lparr>prot_read = False, prot_write = False, prot_exec = False\<rparr>"

definition PROT_R :: Prot where
  "PROT_R = \<lparr>prot_read = True, prot_write = False, prot_exec = False\<rparr>"

definition PROT_RW :: Prot where
  "PROT_RW = \<lparr>prot_read = True, prot_write = True, prot_exec = False\<rparr>"

definition PROT_RX :: Prot where
  "PROT_RX = \<lparr>prot_read = True, prot_write = False, prot_exec = True\<rparr>"

definition PROT_RWX :: Prot where
  "PROT_RWX = \<lparr>prot_read = True, prot_write = True, prot_exec = True\<rparr>"

text \<open>
  A mapped image: the fields of the structure, with the bytes that \<open>memory\<close> points to (\<open>None\<close>
  is the null pointer) and the protections of its pages.
\<close>

record MappedImage =
  preferred_base :: u64
  base :: u64
  image_size :: nat
  headers_size :: nat
  memory :: "bytes option"
  page_prots :: "Prot list"
  delta :: "64 word"
  has_relocation_directory :: bool
  applied_relocations :: nat
  regions :: "MapRegion list"

text \<open>
  The states of a mapping with the only constructor of errors of the component,
  \<open>MapResult\<close> and \<open>RelocationResult\<close>: a status and the reason.
\<close>

datatype map_error =
    RelocOutsideImage | RelocTooManyBlocks | RelocHeaderTruncated | RelocBadBlockSize u32
  | RelocBlockOverrun | RelocOddEntries | RelocEntryTruncated | RelocTargetUnmapped u64
  | RelocTargetOutside u64 | RelocTypeUnsupported u16 | RelocResidualBytes
  | ImageSizeZero | ImageTooLarge | BadHeadersSize | RegionOutside string | RegionsOverlap
  | NoMemory | RelocDirInconsistent | RelocDirMissing | IsolateFailed | ProtectRegionFailed string
  | ProtectHeadersFailed

type_synonym 'a mapped = "(MapStatus \<times> map_error) + 'a"

definition map_fail :: "MapStatus \<Rightarrow> map_error \<Rightarrow> 'a mapped" where
  "map_fail st e = Inl (st, e)"

lemma map_fail_not_Inr [simp]: "map_fail st e \<noteq> Inr x" "Inr x \<noteq> map_fail st e"
  by (simp_all add: map_fail_def)

subsection \<open>Page arithmetic\<close>

definition align_down :: "u64 \<Rightarrow> u64 \<Rightarrow> u64" where
  "align_down value alignment = value - value mod alignment"

definition align_up :: "u64 \<Rightarrow> u64 \<Rightarrow> u64" where
  "align_up value alignment =
     (let remainder = value mod alignment in
      if remainder = 0 then value else value + (alignment - remainder))"

lemma align_down_mult: "align_down v a = v div a * a"
  by (simp add: align_down_def minus_mod_eq_div_mult)

lemma align_down_le: "align_down v a \<le> v"
  by (simp add: align_down_def)

lemma align_up_mult: "0 < a \<Longrightarrow> align_up v a = (v + a - 1) div a * a"
proof -
  assume "0 < a"
  show ?thesis
  proof (cases "v mod a = 0")
    case True
    then obtain q where "v = q * a" by (metis div_mult_mod_eq add.right_neutral)
    moreover have "(q * a + a - 1) div a = q"
      using \<open>0 < a\<close> by (intro div_nat_eqI) (auto simp: algebra_simps)
    ultimately show ?thesis by (simp add: align_up_def)
  next
    case False
    define q where "q = v div a"
    define r where "r = v mod a"
    have v: "v = q * a + r" and r: "0 < r" "r < a"
      using False \<open>0 < a\<close> by (simp_all add: q_def r_def)
    have "(q * a + r + a - 1) div a = q + 1"
      using r by (intro div_nat_eqI) (auto simp: algebra_simps)
    moreover have "v + (a - r) = (q + 1) * a" using v r by (simp add: algebra_simps)
    ultimately show ?thesis using False by (simp add: align_up_def r_def [symmetric] v [symmetric])
  qed
qed

lemma align_up_ge: "0 < a \<Longrightarrow> v \<le> align_up v a"
  unfolding align_up_def Let_def
  by (cases "v mod a = 0") (simp_all only: if_True if_False simp_thms le_add1 order_refl)

lemma align_up_less: "0 < a \<Longrightarrow> align_up v a < v + a"
  by (simp add: align_up_def Let_def)

lemma dvd_align_up [simp]: "0 < a \<Longrightarrow> a dvd align_up v a"
  by (simp add: align_up_mult)

lemma dvd_align_down [simp]: "a dvd align_down v a"
  by (simp add: align_down_mult)

lemma align_up_least: "0 < a \<Longrightarrow> a dvd m \<Longrightarrow> v \<le> m \<Longrightarrow> align_up v a \<le> m"
proof -
  assume a: "0 < a" "a dvd m" "v \<le> m"
  then obtain k where k: "m = k * a" by (auto simp: dvd_def mult.commute)
  have "(v + a - 1) div a \<le> (k * a + a - 1) div a" using a k by (intro div_le_mono) simp
  also have "\<dots> = k" using a by (intro div_nat_eqI) (auto simp: algebra_simps)
  finally show ?thesis using a by (simp add: align_up_mult k)
qed

subsection \<open>Section permissions\<close>

definition kImageScnMemExecute :: u32 where "kImageScnMemExecute = 0x20000000"
definition kImageScnMemRead :: u32 where "kImageScnMemRead = 0x40000000"
definition kImageScnMemWrite :: u32 where "kImageScnMemWrite = 0x80000000"

lemmas scn_consts [eval_simps] =
  kImageScnMemExecute_def kImageScnMemRead_def kImageScnMemWrite_def

definition section_permissions :: "u32 \<Rightarrow> SectionPermissions" where
  "section_permissions ch =
     (let r = ch AND kImageScnMemRead \<noteq> 0; w = ch AND kImageScnMemWrite \<noteq> 0;
          x = ch AND kImageScnMemExecute \<noteq> 0
      in
      if x \<and> w then ReadWrite
      else if x then ReadExecute
      else if w then ReadWrite
      else if r then ReadOnly
      else NoAccess)"

fun to_prot :: "SectionPermissions \<Rightarrow> Prot" where
  "to_prot NoAccess = PROT_NONE"
| "to_prot ReadOnly = PROT_R"
| "to_prot ReadWrite = PROT_RW"
| "to_prot ReadExecute = PROT_RX"
| "to_prot ReadWriteExecute = PROT_RWX"

text \<open>The loop of \<open>permissions_for_page\<close> over the regions, with its three flags.\<close>

type_synonym page_flags = "bool \<times> bool \<times> bool"

definition page_flags_step :: "u64 \<Rightarrow> u64 \<Rightarrow> MapRegion \<Rightarrow> page_flags \<Rightarrow> page_flags" where
  "page_flags_step page_start page_end region fl =
     (let region_start = region_rva region; region_end = region_start + region_size region;
          (r, w, x) = fl
      in
      if page_end \<le> region_start \<or> region_end \<le> page_start then (r, w, x)
      else case permissions region of
        ReadOnly \<Rightarrow> (True, w, x)
      | ReadWrite \<Rightarrow> (True, True, x)
      | ReadExecute \<Rightarrow> (True, w, True)
      | ReadWriteExecute \<Rightarrow> (True, True, True)
      | NoAccess \<Rightarrow> (r, w, x))"

definition permissions_of_flags :: "page_flags \<Rightarrow> SectionPermissions" where
  "permissions_of_flags fl =
     (case fl of (r, w, x) \<Rightarrow>
      if x \<and> w then ReadWrite
      else if w then ReadWrite
      else if x then ReadExecute
      else if r then ReadOnly else NoAccess)"

definition permissions_for_page ::
    "MapRegion list \<Rightarrow> u64 \<Rightarrow> u64 \<Rightarrow> nat \<Rightarrow> SectionPermissions" where
  "permissions_for_page rs page_start page_end headers =
     permissions_of_flags
       (fold (page_flags_step page_start page_end) rs (page_start < headers, False, False))"

definition effective_page_permissions :: "nat \<Rightarrow> MappedImage \<Rightarrow> u32 \<Rightarrow> SectionPermissions" where
  "effective_page_permissions page img rva =
     permissions_for_page (regions img) (align_down rva page) (align_up (rva + 1) page)
       (headers_size img)"

text \<open>
  The flags after the loop, without it: which regions meet the page decides, and writing wins
  over executing.
\<close>

definition meets :: "MapRegion \<Rightarrow> u64 \<Rightarrow> u64 \<Rightarrow> bool" where
  "meets r page_start page_end \<longleftrightarrow>
     region_rva r < page_end \<and> page_start < region_rva r + region_size r"

lemma page_flags_fold:
  "fold (page_flags_step a b) rs (r, w, x) =
     (r \<or> (\<exists>g \<in> set rs. meets g a b \<and> permissions g \<noteq> NoAccess),
      w \<or> (\<exists>g \<in> set rs. meets g a b \<and> permissions g \<in> {ReadWrite, ReadWriteExecute}),
      x \<or> (\<exists>g \<in> set rs. meets g a b \<and> permissions g \<in> {ReadExecute, ReadWriteExecute}))"
proof (induction rs arbitrary: r w x)
  case Nil
  then show ?case by simp
next
  case (Cons g rs)
  have "page_flags_step a b g (r, w, x) =
      (r \<or> meets g a b \<and> permissions g \<noteq> NoAccess,
       w \<or> meets g a b \<and> permissions g \<in> {ReadWrite, ReadWriteExecute},
       x \<or> meets g a b \<and> permissions g \<in> {ReadExecute, ReadWriteExecute})"
    by (cases "permissions g") (auto simp: page_flags_step_def meets_def Let_def)
  then show ?case using Cons.IH by auto
qed

lemma permissions_for_page_cases:
  "permissions_for_page rs a b h =
     (if \<exists>g \<in> set rs. meets g a b \<and> permissions g \<in> {ReadWrite, ReadWriteExecute} then ReadWrite
      else if \<exists>g \<in> set rs. meets g a b \<and> permissions g = ReadExecute then ReadExecute
      else if a < h \<or> (\<exists>g \<in> set rs. meets g a b \<and> permissions g = ReadOnly) then ReadOnly
      else NoAccess)"
proof -
  define W where "W \<longleftrightarrow> (\<exists>g \<in> set rs. meets g a b \<and> permissions g \<in> {ReadWrite, ReadWriteExecute})"
  define X where "X \<longleftrightarrow> (\<exists>g \<in> set rs. meets g a b \<and> permissions g = ReadExecute)"
  define R where "R \<longleftrightarrow> (\<exists>g \<in> set rs. meets g a b \<and> permissions g = ReadOnly)"
  have any: "(\<exists>g \<in> set rs. meets g a b \<and> permissions g \<noteq> NoAccess) \<longleftrightarrow> W \<or> X \<or> R"
  proof -
    have "p \<noteq> NoAccess \<longleftrightarrow> p \<in> {ReadWrite, ReadWriteExecute} \<or> p = ReadExecute \<or> p = ReadOnly" for p
      by (cases p) simp_all
    then show ?thesis unfolding W_def X_def R_def by (simp only:) blast
  qed
  define Y where "Y \<longleftrightarrow> (\<exists>g \<in> set rs. meets g a b \<and> permissions g \<in> {ReadExecute, ReadWriteExecute})"
  have x: "Y \<Longrightarrow> W \<or> X" "X \<Longrightarrow> Y"
    unfolding W_def X_def Y_def by blast+
  have "permissions_for_page rs a b h =
      (if W then ReadWrite else if X then ReadExecute else if a < h \<or> R then ReadOnly else NoAccess)"
    unfolding permissions_for_page_def page_flags_fold any W_def [symmetric] Y_def [symmetric]
    using x by (cases W; cases X; cases Y) (simp_all add: permissions_of_flags_def)
  then show ?thesis by (simp only: W_def X_def R_def)
qed

lemma permissions_for_page_never_rwx: "permissions_for_page rs a b h \<noteq> ReadWriteExecute"
  by (simp add: permissions_for_page_cases)

text \<open>W^X: a protection is safe when it does not allow both writing and executing.\<close>

definition wx_ok :: "Prot \<Rightarrow> bool" where
  "wx_ok p \<longleftrightarrow> \<not> (prot_write p \<and> prot_exec p)"

lemma wx_ok_to_prot [simp]: "wx_ok (to_prot p) \<longleftrightarrow> p \<noteq> ReadWriteExecute"
  by (cases p) (simp_all add: wx_ok_def PROT_NONE_def PROT_R_def PROT_RW_def PROT_RX_def PROT_RWX_def)

lemma wx_ok_consts [simp]: "wx_ok PROT_NONE" "wx_ok PROT_R" "wx_ok PROT_RW"
  by (simp_all add: wx_ok_def PROT_NONE_def PROT_R_def PROT_RW_def)

lemma section_permissions_never_rwx: "section_permissions ch \<noteq> ReadWriteExecute"
  by (simp add: section_permissions_def Let_def)

subsection \<open>Writing into the memory of a mapping\<close>

definition write_at :: "bytes \<Rightarrow> nat \<Rightarrow> bytes \<Rightarrow> bytes" where
  "write_at mem off bs = take off mem @ bs @ drop (off + length bs) mem"

lemma length_write_at [simp]: "off + length bs \<le> length mem \<Longrightarrow> length (write_at mem off bs) = length mem"
  by (simp add: write_at_def)

lemma nth_write_at:
  "off + length bs \<le> length mem \<Longrightarrow> i < length mem \<Longrightarrow>
     write_at mem off bs ! i = (if off \<le> i \<and> i < off + length bs then bs ! (i - off) else mem ! i)"
  by (auto simp: write_at_def nth_append min_def)

end
