(* ===== verification/Image_Relocations.thy ===== *)
theory Image_Relocations
  imports Image_Model Pe_Tls_Reloc
begin

text \<open>
  Base relocations of a mapped image: \<open>apply_relocations\<close> of \<open>src/loader/image_mapper.cpp\<close>.
  The routine reads the relocation directory from the same memory that it patches, and it
  leaves the patches made so far in place when it fails, so an error carries the memory too.

  The lemmas bound what it can change, and relate it to reading the directory once (with the
  reader's \<open>reloc_blocks\<close>) and then adding the displacement to every target.
\<close>

subsection \<open>Little-endian access\<close>

definition le_loop :: "bytes \<Rightarrow> nat \<Rightarrow> nat \<Rightarrow> nat" where
  "le_loop bs off n = foldl (\<lambda>v i. v OR push_bit (8 * i) (byte_at bs (off + i))) 0 [0..<n]"

definition read_le_u16 :: "bytes \<Rightarrow> nat \<Rightarrow> u16 option" where
  "read_le_u16 bs off =
     (if length bs < off \<or> length bs - off < 2 then None else Some (le_loop bs off 2))"

definition read_le_u32 :: "bytes \<Rightarrow> nat \<Rightarrow> u32 option" where
  "read_le_u32 bs off =
     (if length bs < off \<or> length bs - off < 4 then None else Some (le_loop bs off 4))"

definition read_le_u64 :: "bytes \<Rightarrow> nat \<Rightarrow> u64 option" where
  "read_le_u64 bs off =
     (if length bs < off \<or> length bs - off < 8 then None else Some (le_loop bs off 8))"

definition write_le_u64 :: "bytes \<Rightarrow> nat \<Rightarrow> u64 \<Rightarrow> bytes" where
  "write_le_u64 bs off value =
     foldl (\<lambda>bs i. bs[off + i := word_of_nat (drop_bit (8 * i) value AND 0xFF)]) bs [0..<8]"

text \<open>The loops read the same values as the reader of the parser.\<close>

lemma upt_8: "[0..<8] = [0, 1, 2, 3, 4, 5, 6, 7::nat]"
  by (simp add: upt_rec)

lemma read_le_eq_read:
  "read_le_u16 = read_u16" "read_le_u32 = read_u32" "read_le_u64 = read_u64"
proof -
  have "le_loop bs off 2 = le16 bs off" for bs off
    by (simp add: le_loop_def le16_def upt_rec)
  then show "read_le_u16 = read_u16"
    by (auto simp: fun_eq_iff read_le_u16_def read_u16_def has_range_def)
  have "le_loop bs off 4 = le32 bs off" for bs off
    by (simp add: le_loop_def le32_def upt_rec numeral_2_eq_2 numeral_3_eq_3 or.assoc)
  then show "read_le_u32 = read_u32"
    by (auto simp: fun_eq_iff read_le_u32_def read_u32_def has_range_def)
  have "le_loop bs off 8 = le64 bs off" for bs off
    by (simp add: le_loop_def le64_def upt_8 or.assoc)
  then show "read_le_u64 = read_u64"
    by (auto simp: fun_eq_iff read_le_u64_def read_u64_def has_range_def)
qed

definition le_bytes :: "u64 \<Rightarrow> bytes" where
  "le_bytes v = map (\<lambda>i. word_of_nat (drop_bit (8 * i) v AND 0xFF)) [0..<8]"

lemma length_le_bytes [simp]: "length (le_bytes v) = 8"
  by (simp add: le_bytes_def)

lemma write_le_u64_write_at:
  assumes "off + 8 \<le> length bs"
  shows "write_le_u64 bs off v = write_at bs off (le_bytes v)"
proof (rule nth_equalityI)
  show "length (write_le_u64 bs off v) = length (write_at bs off (le_bytes v))"
    using assms by (simp add: write_le_u64_def upt_8)
next
  fix i assume "i < length (write_le_u64 bs off v)"
  then have i: "i < length bs" by (simp add: write_le_u64_def upt_8)
  show "write_le_u64 bs off v ! i = write_at bs off (le_bytes v) ! i"
  proof (cases "off \<le> i \<and> i < off + 8")
    case False
    then show ?thesis using i assms by (auto simp: write_le_u64_def upt_8 nth_write_at)
  next
    case True
    then obtain k where k: "i = off + k" "k < 8" by (metis le_Suc_ex nat_add_left_cancel_less)
    then have "k \<in> {0, 1, 2, 3, 4, 5, 6, 7}" by auto
    then show ?thesis using i assms
      by (elim insertE emptyE) (simp_all add: write_le_u64_def upt_8 nth_write_at k le_bytes_def)
  qed
qed

lemma and_255: "n AND 0xFF = n mod (256::nat)"
proof -
  have "(255::nat) = mask 8" by (simp add: mask_eq_exp_minus_1)
  then have "n AND 255 = take_bit 8 n" by (simp only: take_bit_eq_mask)
  then show ?thesis by (simp add: take_bit_eq_mod)
qed

lemma byte_at_le_bytes: "i < 8 \<Longrightarrow> byte_at (le_bytes v) i = drop_bit (8 * i) v mod 256"
  by (simp add: byte_at_def le_bytes_def unat_of_nat take_bit_eq_mod and_255)


lemma byte_at_le_bytes_bit: "i < 8 \<Longrightarrow> bit (byte_at (le_bytes v) i) n \<longleftrightarrow> n < 8 \<and> bit v (8 * i + n)"
proof -
  assume "i < 8"
  then have "byte_at (le_bytes v) i = take_bit 8 (drop_bit (8 * i) v)"
    by (simp add: byte_at_le_bytes take_bit_eq_mod)
  then show ?thesis by (simp add: bit_take_bit_iff bit_drop_bit_eq)
qed

lemma bit_nat_bound: "w < 2 ^ k \<Longrightarrow> bit (w::nat) n \<Longrightarrow> n < k"
proof (rule ccontr)
  assume "w < 2 ^ k" "bit w n" "\<not> n < k"
  then have "w < 2 ^ n" by (meson less_le_trans not_less one_le_numeral power_increasing)
  with \<open>bit w n\<close> show False by (simp add: bit_iff_odd)
qed

lemma le64_le_bytes:
  assumes "v < 2 ^ 64"
  shows "le64 (le_bytes v) 0 = v"
proof -
  have eq: "bit (push_bit k (byte_at (le_bytes v) i)) n \<longleftrightarrow> k \<le> n \<and> n < k + 8 \<and> bit v n"
    if "i < 8" "k = 8 * i" for i k n
    using that by (auto simp: bit_push_bit_iff_nat byte_at_le_bytes_bit)
  have "bit (le64 (le_bytes v) 0) n = bit v n" for n
  proof -
    have "bit v n \<Longrightarrow> n < 64" by (rule bit_nat_bound [OF assms])
    moreover have "bit (byte_at (le_bytes v) 0) n \<longleftrightarrow> n < 8 \<and> bit v n"
      by (simp add: byte_at_le_bytes_bit)
    ultimately show ?thesis unfolding le64_def bit_or_iff by (auto simp: eq)
  qed
  then show ?thesis by (simp add: bit_eq_iff)
qed


lemma le64_cong:
  assumes "\<And>i. i < 8 \<Longrightarrow> bs ! (off + i) = bs' ! (off' + i)"
  shows "le64 bs off = le64 bs' off'"
  using assms [of 0] assms [of 1] assms [of 2] assms [of 3] assms [of 4] assms [of 5] assms [of 6]
    assms [of 7]
  by (simp add: le64_def byte_at_def)

lemma le32_cong:
  assumes "\<And>i. i < 4 \<Longrightarrow> bs ! (off + i) = bs' ! (off' + i)"
  shows "le32 bs off = le32 bs' off'"
  using assms [of 0] assms [of 1] assms [of 2] assms [of 3]
  by (simp add: le32_def byte_at_def)

lemma le16_cong:
  assumes "\<And>i. i < 2 \<Longrightarrow> bs ! (off + i) = bs' ! (off' + i)"
  shows "le16 bs off = le16 bs' off'"
  using assms [of 0] assms [of 1] by (simp add: le16_def byte_at_def)

text \<open>A stored word is read back, and a word elsewhere is not affected.\<close>

lemma le64_write_le_u64:
  assumes "off + 8 \<le> length bs" "v < 2 ^ 64"
  shows "le64 (write_le_u64 bs off v) off = v"
proof -
  have "le64 (write_le_u64 bs off v) off = le64 (le_bytes v) 0"
    by (rule le64_cong) (use assms(1) in \<open>simp add: write_le_u64_write_at nth_write_at\<close>)
  then show ?thesis using le64_le_bytes [OF assms(2)] by simp
qed

lemma length_write_le_u64 [simp]: "length (write_le_u64 bs off v) = length bs"
  by (simp add: write_le_u64_def upt_8)

lemma nth_write_le_u64_other:
  assumes "off + 8 \<le> length bs" "i < length bs" "i < off \<or> off + 8 \<le> i"
  shows "write_le_u64 bs off v ! i = bs ! i"
  using assms by (auto simp: write_le_u64_write_at nth_write_at)

subsection \<open>The routine\<close>

definition kImageRelBasedAbsolute :: u16 where "kImageRelBasedAbsolute = 0"
definition kImageRelBasedDir64 :: u16 where "kImageRelBasedDir64 = 10"

lemmas rel_consts [eval_simps] = kImageRelBasedAbsolute_def kImageRelBasedDir64_def

fun in_region :: "MapRegion list \<Rightarrow> u64 \<Rightarrow> u64 \<Rightarrow> bool" where
  "in_region [] target_rva target_len = False"
| "in_region (r # rs) target_rva target_len =
     (let region_end = region_rva r + region_size r in
      if region_rva r \<le> target_rva \<and> target_rva < region_end \<and> target_len \<le> region_end - target_rva
      then True else in_region rs target_rva target_len)"

definition patchable_target :: "MapRegion list \<Rightarrow> u64 \<Rightarrow> u64 \<Rightarrow> bool" where
  "patchable_target rs target_rva target_len =
     (if rs = [] then True else in_region rs target_rva target_len)"

type_synonym reloc_failure = "(MapStatus \<times> map_error) \<times> bytes"

definition fail_reloc :: "map_error \<Rightarrow> bytes \<Rightarrow> reloc_failure + 'a" where
  "fail_reloc e img = Inl ((InvalidImage, e), img)"

lemma fail_reloc_not_Inr [simp]: "fail_reloc e img \<noteq> Inr x" "Inr x \<noteq> fail_reloc e img"
  by (simp_all add: fail_reloc_def)

text \<open>The body of the loop over the entries of a block; the state is the memory and the count.\<close>

definition apply_entry ::
    "MapRegion list \<Rightarrow> 64 word \<Rightarrow> u32 \<Rightarrow> nat \<Rightarrow> nat \<Rightarrow> bytes \<times> nat \<Rightarrow> reloc_failure + bytes \<times> nat" where
  "apply_entry rs d page block_offset entry_index st =
     (case st of (img, applied) \<Rightarrow>
      case read_le_u16 img (block_offset + kBaseRelocBlockHeaderSize + entry_index * 2) of
        None \<Rightarrow> fail_reloc RelocEntryTruncated img
      | Some raw_entry \<Rightarrow>
          let rtype = to_u16 (drop_bit 12 raw_entry);
              offset = to_u16 (raw_entry AND 0xFFF);
              target_rva = page + offset
          in
          if rtype = kImageRelBasedAbsolute then Inr (img, applied)
          else if rtype = kImageRelBasedDir64 then
            if \<not> patchable_target rs target_rva 8
            then fail_reloc (RelocTargetUnmapped target_rva) img
            else (case read_le_u64 img target_rva of
                None \<Rightarrow> fail_reloc (RelocTargetOutside target_rva) img
              | Some v \<Rightarrow> Inr (write_le_u64 img target_rva (unat (word_of_nat v + d)), applied + 1))
          else fail_reloc (RelocTypeUnsupported rtype) img)"

text \<open>The header of the next block: its page and its size, checked.\<close>

definition block_header :: "bytes \<Rightarrow> nat \<Rightarrow> nat \<Rightarrow> nat \<Rightarrow> nat \<Rightarrow> reloc_failure + u32 \<times> u32" where
  "block_header img directory_rva directory_limit consumed block_count =
     (let block_offset = directory_rva + consumed in
      if kMaxRelocBlocks \<le> block_count then fail_reloc RelocTooManyBlocks img
      else case (read_le_u32 img block_offset, read_le_u32 img (block_offset + 4)) of
        (Some page, Some block_size) \<Rightarrow>
          if block_size < kBaseRelocBlockHeaderSize
          then fail_reloc (RelocBadBlockSize block_size) img
          else if directory_limit - consumed < block_size then fail_reloc RelocBlockOverrun img
          else if (block_size - kBaseRelocBlockHeaderSize) mod 2 \<noteq> 0
          then fail_reloc RelocOddEntries img
          else Inr (page, block_size)
      | _ \<Rightarrow> fail_reloc RelocHeaderTruncated img)"

lemma block_header_Inr:
  assumes "block_header img dir limit consumed n = Inr (page, bsz)"
  shows "n < kMaxRelocBlocks" "read_le_u32 img (dir + consumed) = Some page"
    "read_le_u32 img (dir + consumed + 4) = Some bsz" "8 \<le> bsz" "bsz \<le> limit - consumed"
    "even bsz"
  using assms
  by (auto simp: block_header_def Let_def kBaseRelocBlockHeaderSize_def not_le not_less
      split: if_split_asm option.split_asm)

lemma block_header_Inl:
  "block_header img dir limit consumed n = Inl e \<Longrightarrow> snd e = img"
  by (auto simp: block_header_def Let_def fail_reloc_def split: if_split_asm option.split_asm)

function apply_blocks ::
    "MapRegion list \<Rightarrow> 64 word \<Rightarrow> nat \<Rightarrow> nat \<Rightarrow> nat \<Rightarrow> nat \<Rightarrow> bytes \<times> nat \<Rightarrow>
     reloc_failure + nat \<times> bytes \<times> nat" where
  "apply_blocks rs d directory_rva directory_limit consumed block_count st =
     (if consumed + kBaseRelocBlockHeaderSize \<le> directory_limit then
        (case block_header (fst st) directory_rva directory_limit consumed block_count of
           Inl e \<Rightarrow> Inl e
         | Inr (page, block_size) \<Rightarrow>
             (case foldE (apply_entry rs d page (directory_rva + consumed))
                     [0..<(block_size - kBaseRelocBlockHeaderSize) div 2] st of
                Inl e \<Rightarrow> Inl e
              | Inr st' \<Rightarrow>
                  apply_blocks rs d directory_rva directory_limit (consumed + block_size)
                    (block_count + 1) st'))
      else Inr (consumed, st))"
  by pat_completeness auto
termination
proof (relation "measure (\<lambda>(rs, d, dir, limit, consumed, n, st). limit - consumed)", goal_cases)
  case (2 rs d dir limit consumed n st hdr page size st')
  then show ?case using block_header_Inr(4,5) [of "fst st" dir limit consumed n page size]
    by (auto simp: kBaseRelocBlockHeaderSize_def)
qed simp

declare apply_blocks.simps [simp del]

definition apply_relocations ::
    "bytes \<Rightarrow> u32 \<Rightarrow> u32 \<Rightarrow> 64 word \<Rightarrow> MapRegion list \<Rightarrow> reloc_failure + bytes \<times> nat" where
  "apply_relocations img directory_rva directory_size d rs =
     (if directory_size = 0 then Inr (img, 0)
      else if length img < directory_rva \<or> length img - directory_rva < directory_size
      then fail_reloc RelocOutsideImage img
      else (case apply_blocks rs d directory_rva directory_size 0 0 (img, 0) of
          Inl e \<Rightarrow> Inl e
        | Inr (consumed, st) \<Rightarrow>
            if consumed \<noteq> directory_size then fail_reloc RelocResidualBytes (fst st)
            else Inr st))"

subsection \<open>What the routine can change\<close>

text \<open>
  \<open>patch_frame rs img img'\<close>: the two memories have the same size and agree outside the regions
  that may be patched (everywhere may be patched when no regions are given).
\<close>

definition in_some_region :: "MapRegion list \<Rightarrow> nat \<Rightarrow> bool" where
  "in_some_region rs i \<longleftrightarrow> (\<exists>r \<in> set rs. region_rva r \<le> i \<and> i < region_rva r + region_size r)"

definition patch_frame :: "MapRegion list \<Rightarrow> bytes \<Rightarrow> bytes \<Rightarrow> bool" where
  "patch_frame rs img img' \<longleftrightarrow> length img' = length img \<and>
     (\<forall>i < length img. rs \<noteq> [] \<and> \<not> in_some_region rs i \<longrightarrow> img' ! i = img ! i)"

lemma patch_frame_refl [simp]: "patch_frame rs img img"
  by (simp add: patch_frame_def)

lemma patch_frame_trans: "patch_frame rs a b \<Longrightarrow> patch_frame rs b c \<Longrightarrow> patch_frame rs a c"
  by (simp add: patch_frame_def)

lemma in_region_iff:
  "in_region rs t n \<longleftrightarrow> (\<exists>r \<in> set rs. region_rva r \<le> t \<and> t < region_rva r + region_size r \<and>
     t + n \<le> region_rva r + region_size r)"
  by (induction rs) (auto simp: Let_def)

lemma patch_frame_write:
  assumes "patchable_target rs t 8" "t + 8 \<le> length img"
  shows "patch_frame rs img (write_le_u64 img t v)"
proof -
  have "in_some_region rs i" if "rs \<noteq> []" "t \<le> i" "i < t + 8" for i
  proof -
    from assms(1) that(1) obtain r where "r \<in> set rs" "region_rva r \<le> t"
      "t + 8 \<le> region_rva r + region_size r"
      by (auto simp: patchable_target_def in_region_iff)
    with that show ?thesis unfolding in_some_region_def by (intro bexI [of _ r]) auto
  qed
  then have "write_le_u64 img t v ! i = img ! i" if "i < length img" "rs \<noteq> []" "\<not> in_some_region rs i" for i
    using that assms(2) by (intro nth_write_le_u64_other) (auto simp: not_less [symmetric])
  then show ?thesis by (simp add: patch_frame_def)
qed

definition reloc_memory :: "(reloc_failure + bytes \<times> nat) \<Rightarrow> bytes" where
  "reloc_memory r = (case r of Inl (e, img) \<Rightarrow> img | Inr (img, n) \<Rightarrow> img)"

lemma reloc_memory_simps [simp]:
  "reloc_memory (Inr (img, n)) = img" "reloc_memory (Inl (e, img)) = img"
  "reloc_memory (fail_reloc e' img) = img"
  by (simp_all add: reloc_memory_def fail_reloc_def)

lemma apply_entry_frame: "patch_frame rs (fst st) (reloc_memory (apply_entry rs d p off i st))"
proof -
  obtain img n where st: "st = (img, n)" by (cases st)
  have "patch_frame rs img (write_le_u64 img t v)"
    if "patchable_target rs t 8" "read_le_u64 img t = Some w" for t v w
    by (rule patch_frame_write) (use that in \<open>simp_all add: read_le_eq_read read_u64_Some\<close>)
  then show ?thesis
    by (auto simp: st apply_entry_def Let_def split: option.split)
qed

lemma foldE_frame:
  assumes "\<And>i st. patch_frame rs (fst st) (reloc_memory (f i st))"
  shows "patch_frame rs (fst st) (reloc_memory (foldE f is st))"
proof (induction "is" arbitrary: st)
  case Nil
  then show ?case by (cases st) simp
next
  case (Cons i "is")
  show ?case
  proof (cases "f i st")
    case (Inl e)
    then show ?thesis using assms [of st i] by simp
  next
    case (Inr st')
    have "patch_frame rs (fst st) (fst st')"
      using assms [of st i] Inr by (cases st') simp
    then show ?thesis using Cons.IH [of st'] Inr by (auto intro: patch_frame_trans)
  qed
qed

lemma apply_blocks_frame:
  "patch_frame rs (fst st) (case apply_blocks rs d dir limit consumed n st of
     Inl (e, img) \<Rightarrow> img | Inr (c, img, k) \<Rightarrow> img)"
proof (induction rs d dir limit consumed n st rule: apply_blocks.induct)
  case (1 rs d dir limit consumed n st)
  let ?entries = "\<lambda>page size. foldE (apply_entry rs d page (dir + consumed))
    [0..<(size - kBaseRelocBlockHeaderSize) div 2] st"
  have entries: "patch_frame rs (fst st) (reloc_memory (?entries page size))" for page size
    by (rule foldE_frame, rule apply_entry_frame)
  show ?case
  proof (cases "consumed + kBaseRelocBlockHeaderSize \<le> limit")
    case False
    then show ?thesis by (subst apply_blocks.simps) (simp split: prod.split)
  next
    case more: True
    show ?thesis
    proof (cases "block_header (fst st) dir limit consumed n")
      case (Inl e)
      then show ?thesis using more block_header_Inl [OF Inl]
        by (subst apply_blocks.simps) (cases e, simp)
    next
      case (Inr hdr)
      obtain page size where hdr: "hdr = (page, size)" by (cases hdr)
      show ?thesis
      proof (cases "?entries page size")
        case (Inl e)
        then show ?thesis using more Inr hdr entries [of page size]
          by (subst apply_blocks.simps) (cases e, simp)
      next
        case st': (Inr st')
        have "patch_frame rs (fst st) (fst st')"
          using entries [of page size] st' by (cases st') simp
        with "1.IH" [OF more Inr hdr [symmetric] st'] more Inr hdr st' show ?thesis
          by (subst apply_blocks.simps) (auto intro: patch_frame_trans)
      qed
    qed
  qed
qed

lemma apply_relocations_frame:
  "patch_frame rs img (reloc_memory (apply_relocations img dir sz d rs))"
  using apply_blocks_frame [of rs "(img, 0)" d dir sz 0 0]
  by (auto simp: apply_relocations_def split: sum.splits prod.splits)

subsection \<open>Reading the directory once\<close>

text \<open>
  The addresses of a list of blocks that get the displacement, in the order of the directory,
  and the effect of the patches alone.
\<close>

definition block_targets :: "BaseRelocBlock \<Rightarrow> nat list" where
  "block_targets b =
     map (\<lambda>e. page_rva b + rel_offset e)
       (filter (\<lambda>e. rel_type e = kImageRelBasedDir64) (rel_entries b))"

definition reloc_targets :: "BaseRelocBlock list \<Rightarrow> nat list" where
  "reloc_targets blocks = concat (map block_targets blocks)"

definition relocate_word :: "64 word \<Rightarrow> nat \<Rightarrow> bytes \<Rightarrow> bytes" where
  "relocate_word d t img = write_le_u64 img t (unat (word_of_nat (le64 img t) + d))"

definition relocate_all :: "64 word \<Rightarrow> nat list \<Rightarrow> bytes \<Rightarrow> bytes" where
  "relocate_all d ts img = fold (relocate_word d) ts img"

definition known_types :: "BaseRelocBlock list \<Rightarrow> bool" where
  "known_types blocks \<longleftrightarrow>
     (\<forall>b \<in> set blocks. \<forall>e \<in> set (rel_entries b).
        rel_type e = kImageRelBasedAbsolute \<or> rel_type e = kImageRelBasedDir64)"

text \<open>A target is safe when it may be patched and does not touch the directory.\<close>

definition safe_target :: "MapRegion list \<Rightarrow> nat \<Rightarrow> nat \<Rightarrow> nat \<Rightarrow> nat \<Rightarrow> bool" where
  "safe_target rs len dir sz t \<longleftrightarrow> patchable_target rs t 8 \<and> t + 8 \<le> len \<and> (t + 8 \<le> dir \<or> dir + sz \<le> t)"

definition agree_on :: "nat \<Rightarrow> nat \<Rightarrow> bytes \<Rightarrow> bytes \<Rightarrow> bool" where
  "agree_on lo hi a b \<longleftrightarrow> length a = length b \<and> (\<forall>i. lo \<le> i \<and> i < hi \<longrightarrow> a ! i = b ! i)"

lemma agree_on_refl [simp]: "agree_on lo hi a a"
  by (simp add: agree_on_def)

lemma length_relocate_word [simp]: "length (relocate_word d t img) = length img"
  by (simp add: relocate_word_def)

lemma length_relocate_all [simp]: "length (relocate_all d ts img) = length img"
  unfolding relocate_all_def by (induction ts arbitrary: img) auto

lemma relocate_all_simps [simp]:
  "relocate_all d [] img = img"
  "relocate_all d (t # ts) img = relocate_all d ts (relocate_word d t img)"
  "relocate_all d (ts @ us) img = relocate_all d us (relocate_all d ts img)"
  by (simp_all add: relocate_all_def)

lemma nth_relocate_word_other:
  "t + 8 \<le> length img \<Longrightarrow> i < length img \<Longrightarrow> i < t \<or> t + 8 \<le> i \<Longrightarrow> relocate_word d t img ! i = img ! i"
  by (simp add: relocate_word_def nth_write_le_u64_other)

lemma nth_relocate_all_other:
  "\<forall>t \<in> set ts. t + 8 \<le> length img \<and> (i < t \<or> t + 8 \<le> i) \<Longrightarrow> i < length img \<Longrightarrow>
     relocate_all d ts img ! i = img ! i"
  by (induction ts arbitrary: img) (simp_all add: nth_relocate_word_other)

lemma agree_on_relocate_all:
  assumes "agree_on dir (dir + sz) m img" "dir + sz \<le> length img"
    and "\<forall>t \<in> set ts. safe_target rs (length img) dir sz t"
  shows "agree_on dir (dir + sz) (relocate_all d ts m) img"
proof -
  have "relocate_all d ts m ! i = m ! i" if "dir \<le> i" "i < dir + sz" for i
    by (rule nth_relocate_all_other) (use assms that in \<open>auto simp: agree_on_def safe_target_def\<close>)
  then show ?thesis using assms(1) by (simp add: agree_on_def)
qed

lemma read_u16_agree:
  "agree_on lo hi m img \<Longrightarrow> lo \<le> off \<Longrightarrow> off + 2 \<le> hi \<Longrightarrow> hi \<le> length img \<Longrightarrow>
     read_u16 m off = Some (rd16 img off)"
  by (auto simp: agree_on_def rd16_in read_u16_Some intro!: le16_cong)

lemma read_u32_agree:
  "agree_on lo hi m img \<Longrightarrow> lo \<le> off \<Longrightarrow> off + 4 \<le> hi \<Longrightarrow> hi \<le> length img \<Longrightarrow>
     read_u32 m off = Some (rd32 img off)"
  by (auto simp: agree_on_def rd32_in read_u32_Some intro!: le32_cong)

text \<open>The reader of the parser masks the type of an entry, the mapper does not.\<close>

lemma type_mask: "raw \<le> u16_max \<Longrightarrow> drop_bit 12 raw AND 15 = drop_bit 12 raw"
proof -
  assume "raw \<le> u16_max"
  then have "drop_bit 12 raw < 16" by (simp add: drop_bit_eq_div less_mult_imp_div_less)
  moreover have "(15::nat) = mask 4" by (simp add: mask_eq_exp_minus_1)
  ultimately show ?thesis by (simp only: take_bit_eq_mask [symmetric]) (simp add: take_bit_nat_eq_self)
qed

text \<open>The entries of one block, read while memory is being patched.\<close>

lemma apply_entries:
  assumes "dir \<le> boff + 8" "boff + 8 + 2 * k \<le> dir + sz" "dir + sz \<le> length img"
    and "agree_on dir (dir + sz) m img"
    and "\<forall>t \<in> set (block_targets (reloc_block img boff page (2 * k))). safe_target rs (length img) dir sz t"
    and "known_types [reloc_block img boff page (2 * k)]"
  shows "foldE (apply_entry rs d page boff) [0..<k] (m, n) =
    Inr (relocate_all d (block_targets (reloc_block img boff page (2 * k))) m,
         n + length (block_targets (reloc_block img boff page (2 * k))))"
  using assms
proof (induction k)
  case 0
  then show ?case by (simp add: reloc_block_def kBaseRelocEntrySize_def block_targets_def)
next
  case (Suc k)
  let ?b = "\<lambda>k. reloc_block img boff page (2 * k)"
  let ?raw = "rd16 img (boff + 8 + 2 * k)"
  let ?e = "reloc_entry ?raw"
  have entries: "rel_entries (?b (Suc k)) = rel_entries (?b k) @ [?e]"
    by (simp add: reloc_block_def kBaseRelocEntrySize_def kBaseRelocBlockHeaderSize_def algebra_simps)
  have page: "page_rva (?b j) = page" for j by (simp add: reloc_block_def)
  define new where "new = (if rel_type ?e = kImageRelBasedDir64 then [page + rel_offset ?e] else [])"
  have targets: "block_targets (?b (Suc k)) = block_targets (?b k) @ new"
    unfolding block_targets_def entries page new_def by simp
  have known: "known_types [?b k]"
    "rel_type ?e = kImageRelBasedAbsolute \<or> rel_type ?e = kImageRelBasedDir64"
    using Suc.prems(6) by (simp_all add: known_types_def entries del: mult_Suc_right)
  have safe: "\<forall>t \<in> set (block_targets (?b k)). safe_target rs (length img) dir sz t"
    "\<forall>t \<in> set new. safe_target rs (length img) dir sz t"
    using Suc.prems(5) by (simp_all add: targets ball_Un del: mult_Suc_right)
  let ?m = "relocate_all d (block_targets (?b k)) m"
  have ih: "foldE (apply_entry rs d page boff) [0..<k] (m, n) = Inr (?m, n + length (block_targets (?b k)))"
    by (rule Suc.IH) (use Suc.prems safe known in auto)
  have agree: "agree_on dir (dir + sz) ?m img"
    by (rule agree_on_relocate_all) (use Suc.prems safe in auto)
  have raw: "read_le_u16 ?m (boff + 8 + 2 * k) = Some ?raw"
    unfolding read_le_eq_read by (rule read_u16_agree [OF agree]) (use Suc.prems in auto)
  have step: "apply_entry rs d page boff k (?m, c) = Inr (relocate_all d new ?m, c + length new)" for c
  proof (cases "rel_type ?e = kImageRelBasedDir64")
    case True
    then have t: "safe_target rs (length img) dir sz (page + rel_offset ?e)"
      using safe(2) by (simp add: new_def)
    have "read_le_u64 ?m (page + rel_offset ?e) = Some (le64 ?m (page + rel_offset ?e))"
      using t Suc.prems(4) by (simp add: read_le_eq_read read_u64_Some safe_target_def agree_on_def)
    with True t raw show ?thesis
      by (simp add: apply_entry_def kBaseRelocBlockHeaderSize_def mult.commute reloc_entry_def new_def
          relocate_word_def safe_target_def Let_def type_mask [OF rd16_le]
          kImageRelBasedDir64_def kImageRelBasedAbsolute_def)
  next
    case False
    with known have "rel_type ?e = kImageRelBasedAbsolute" by simp
    with False raw show ?thesis
      by (simp add: apply_entry_def kBaseRelocBlockHeaderSize_def mult.commute reloc_entry_def new_def Let_def
          type_mask [OF rd16_le])
  qed
  show ?case by (simp add: ih step targets del: mult_Suc_right)
qed

text \<open>All blocks: the routine agrees with reading the directory before patching anything.\<close>

lemma reloc_targets_Cons: "reloc_targets (b # bs) = block_targets b @ reloc_targets bs"
  by (simp add: reloc_targets_def)

lemma known_types_Cons: "known_types (b # bs) \<longleftrightarrow> known_types [b] \<and> known_types bs"
  by (simp add: known_types_def)

lemma reloc_blocks_unfold:
  assumes "reloc_blocks img dir sz consumed n acc = Inr (blocks, used)"
    "consumed + 8 \<le> sz"
  shows "n < kMaxRelocBlocks" "8 \<le> rd32 img (dir + consumed + 4)"
    "rd32 img (dir + consumed + 4) \<le> sz - consumed" "even (rd32 img (dir + consumed + 4))"
    "reloc_blocks img dir sz (consumed + rd32 img (dir + consumed + 4)) (n + 1)
       (acc @ [reloc_block img (dir + consumed) (rd32 img (dir + consumed))
                 (rd32 img (dir + consumed + 4) - 8)]) = Inr (blocks, used)"
proof -
  have "n < kMaxRelocBlocks \<and> 8 \<le> rd32 img (dir + consumed + 4) \<and>
    rd32 img (dir + consumed + 4) \<le> sz - consumed \<and> even (rd32 img (dir + consumed + 4)) \<and>
    reloc_blocks img dir sz (consumed + rd32 img (dir + consumed + 4)) (n + 1)
       (acc @ [reloc_block img (dir + consumed) (rd32 img (dir + consumed))
                 (rd32 img (dir + consumed + 4) - 8)]) = Inr (blocks, used)"
    using assms by (subst (asm) reloc_blocks.simps)
      (auto simp: kBaseRelocBlockHeaderSize_def kBaseRelocEntrySize_def Let_def not_le not_less
        split: if_split_asm)
  then show "n < kMaxRelocBlocks" "8 \<le> rd32 img (dir + consumed + 4)"
    "rd32 img (dir + consumed + 4) \<le> sz - consumed" "even (rd32 img (dir + consumed + 4))"
    "reloc_blocks img dir sz (consumed + rd32 img (dir + consumed + 4)) (n + 1)
       (acc @ [reloc_block img (dir + consumed) (rd32 img (dir + consumed))
                 (rd32 img (dir + consumed + 4) - 8)]) = Inr (blocks, used)"
    by blast+
qed

lemma apply_blocks_eq:
  assumes "reloc_blocks img dir sz consumed n acc = Inr (blocks, used)"
    and "dir + sz \<le> length img"
  shows "\<exists>rest. blocks = acc @ rest \<and>
    (known_types rest \<longrightarrow> (\<forall>t \<in> set (reloc_targets rest). safe_target rs (length img) dir sz t) \<longrightarrow>
     (\<forall>m c. agree_on dir (dir + sz) m img \<longrightarrow>
       apply_blocks rs d dir sz consumed n (m, c) =
         Inr (used, relocate_all d (reloc_targets rest) m, c + length (reloc_targets rest))))"
  using assms
proof (induction img dir sz consumed n acc rule: reloc_blocks.induct)
  case (1 img dir sz consumed n acc)
  let ?off = "dir + consumed"
  let ?page = "rd32 img ?off"
  let ?size = "rd32 img (?off + 4)"
  let ?b = "reloc_block img ?off ?page (?size - 8)"
  show ?case
  proof (cases "consumed + 8 \<le> sz")
    case False
    with "1.prems"(1) have "blocks = acc" "used = consumed"
      by (subst (asm) reloc_blocks.simps, simp add: kBaseRelocBlockHeaderSize_def)+
    with False show ?thesis
      by (intro exI [of _ "[]"])
        (auto simp: apply_blocks.simps reloc_targets_def kBaseRelocBlockHeaderSize_def)
  next
    case more: True
    note u = reloc_blocks_unfold [OF "1.prems"(1) more]
    have "\<exists>rest. blocks = (acc @ [?b]) @ rest \<and>
        (known_types rest \<longrightarrow> (\<forall>t \<in> set (reloc_targets rest). safe_target rs (length img) dir sz t) \<longrightarrow>
         (\<forall>m c. agree_on dir (dir + sz) m img \<longrightarrow>
           apply_blocks rs d dir sz (consumed + ?size) (n + 1) (m, c) =
             Inr (used, relocate_all d (reloc_targets rest) m, c + length (reloc_targets rest))))"
      using "1.IH" [OF _ _ refl refl refl refl] more u "1.prems"(2)
      by (auto simp: kBaseRelocBlockHeaderSize_def kBaseRelocEntrySize_def)
    then obtain rest where blocks: "blocks = acc @ (?b # rest)" and
      ih: "\<And>m c. known_types rest \<Longrightarrow> \<forall>t \<in> set (reloc_targets rest). safe_target rs (length img) dir sz t \<Longrightarrow>
         agree_on dir (dir + sz) m img \<Longrightarrow>
         apply_blocks rs d dir sz (consumed + ?size) (n + 1) (m, c) =
           Inr (used, relocate_all d (reloc_targets rest) m, c + length (reloc_targets rest))"
      by auto
    show ?thesis
    proof (intro exI [of _ "?b # rest"] conjI impI allI)
      show "blocks = acc @ ?b # rest" by (rule blocks)
    next
      fix m c
      assume known: "known_types (?b # rest)" and
        safe: "\<forall>t \<in> set (reloc_targets (?b # rest)). safe_target rs (length img) dir sz t" and
        m: "agree_on dir (dir + sz) m img"
      let ?m = "relocate_all d (block_targets ?b) m"
      have hdr: "read_le_u32 m ?off = Some ?page" "read_le_u32 m (?off + 4) = Some ?size"
        unfolding read_le_eq_read
        by (rule read_u32_agree [OF m]; use more "1.prems"(2) in simp)+
      have bh: "block_header m dir sz consumed n = Inr (?page, ?size)"
        using hdr u by (simp add: block_header_def Let_def kBaseRelocBlockHeaderSize_def)
      have two: "2 * ((?size - 8) div 2) = ?size - 8" using u(2,4) by auto
      have known_b: "known_types [?b]" using known known_types_Cons [of ?b rest] by simp
      have safe_b: "\<forall>t \<in> set (block_targets ?b). safe_target rs (length img) dir sz t"
        using safe by (simp add: reloc_targets_Cons)
      have en: "foldE (apply_entry rs d ?page ?off) [0..<(?size - 8) div 2] (m, c) =
          Inr (?m, c + length (block_targets ?b))"
        using apply_entries [of dir ?off "(?size - 8) div 2" sz img m ?page rs d c, unfolded two]
          u more "1.prems"(2) m known_b safe_b by simp
      have agree: "agree_on dir (dir + sz) ?m img"
        by (rule agree_on_relocate_all [OF m "1.prems"(2) safe_b])
      have "known_types rest" "\<forall>t \<in> set (reloc_targets rest). safe_target rs (length img) dir sz t"
        using known safe known_types_Cons [of ?b rest] by (simp_all add: reloc_targets_Cons)
      from ih [OF this agree] show "apply_blocks rs d dir sz consumed n (m, c) =
          Inr (used, relocate_all d (reloc_targets (?b # rest)) m, c + length (reloc_targets (?b # rest)))"
        using more bh en
        by (subst apply_blocks.simps) (simp add: kBaseRelocBlockHeaderSize_def reloc_targets_Cons)
    qed
  qed
qed

lemma apply_relocations_eq:
  assumes "reloc_blocks img dir sz 0 0 [] = Inr (blocks, sz)" "0 < sz" "dir + sz \<le> length img"
    and "known_types blocks"
    and "\<forall>t \<in> set (reloc_targets blocks). safe_target rs (length img) dir sz t"
  shows "apply_relocations img dir sz d rs =
    Inr (relocate_all d (reloc_targets blocks) img, length (reloc_targets blocks))"
  using apply_blocks_eq [OF assms(1,3), of rs d] assms
  by (simp add: apply_relocations_def)


subsection \<open>Separate targets\<close>

text \<open>
  When no two targets overlap, every target word is displaced exactly once, every other byte
  stays, and the opposite displacement restores the memory.
\<close>

definition separate :: "nat list \<Rightarrow> bool" where
  "separate ts \<longleftrightarrow> sorted_wrt (\<lambda>a b. a + 8 \<le> b \<or> b + 8 \<le> a) ts"

lemma separate_Cons: "separate (t # ts) \<longleftrightarrow> (\<forall>u \<in> set ts. t + 8 \<le> u \<or> u + 8 \<le> t) \<and> separate ts"
  by (simp add: separate_def)

lemma le64_relocate_word:
  "t + 8 \<le> length img \<Longrightarrow>
     le64 (relocate_word d t img) t = unat (word_of_nat (le64 img t) + d)"
proof -
  assume t: "t + 8 \<le> length img"
  have "unat (word_of_nat (le64 img t) + d :: 64 word) < 2 ^ 64"
    by (rule order_less_le_trans [OF unsigned_less]) simp
  then show ?thesis unfolding relocate_word_def by (rule le64_write_le_u64 [OF t])
qed

lemma le64_relocate_word_other:
  assumes "t + 8 \<le> length img" "u + 8 \<le> length img" "t + 8 \<le> u \<or> u + 8 \<le> t"
  shows "le64 (relocate_word d t img) u = le64 img u"
  by (rule le64_cong, rule nth_relocate_word_other) (use assms in auto)

lemma le64_relocate_all_other:
  assumes "\<forall>t \<in> set ts. t + 8 \<le> length img \<and> (t + 8 \<le> u \<or> u + 8 \<le> t)" "u + 8 \<le> length img"
  shows "le64 (relocate_all d ts img) u = le64 img u"
  by (rule le64_cong, rule nth_relocate_all_other) (use assms in auto)

lemma le64_relocate_all:
  assumes "separate ts" "t \<in> set ts" "\<forall>u \<in> set ts. u + 8 \<le> length img"
  shows "le64 (relocate_all d ts img) t = unat (word_of_nat (le64 img t) + d)"
  using assms
proof (induction ts arbitrary: img)
  case Nil
  then show ?case by simp
next
  case (Cons u ts)
  show ?case
  proof (cases "t \<in> set ts")
    case True
    have "le64 (relocate_all d ts (relocate_word d u img)) t =
        unat (word_of_nat (le64 (relocate_word d u img) t) + d)"
      by (rule Cons.IH) (use Cons.prems True in \<open>auto simp: separate_Cons\<close>)
    moreover have "le64 (relocate_word d u img) t = le64 img t"
      by (rule le64_relocate_word_other) (use Cons.prems True in \<open>auto simp: separate_Cons\<close>)
    ultimately show ?thesis by simp
  next
    case False
    with Cons.prems(2) have [simp]: "u = t" by simp
    have "le64 (relocate_all d ts (relocate_word d t img)) t = le64 (relocate_word d t img) t"
      by (rule le64_relocate_all_other) (use Cons.prems in \<open>auto simp: separate_Cons\<close>)
    then show ?thesis using Cons.prems by (simp add: le64_relocate_word)
  qed
qed

text \<open>The bytes of a word are determined by its value.\<close>

lemma bit_push_byte: "bit (push_bit k (byte_at bs j)) n \<longleftrightarrow> k \<le> n \<and> n < k + 8 \<and> bit (byte_at bs j) (n - k)"
  using bit_nat_bound [OF byte_at_less, of bs j "n - k"] by (auto simp: bit_push_bit_iff_nat)

lemma byte_of_le64:
  assumes "i < 8"
  shows "byte_at bs (off + i) = take_bit 8 (drop_bit (8 * i) (le64 bs off))"
proof -
  have le: "bit (le64 bs off) (8 * i + n) = bit (byte_at bs (off + i)) n" if "n < 8" for n
  proof -
    have "bit (byte_at bs off) m \<longleftrightarrow> m < 8 \<and> bit (byte_at bs off) m" for m
      using bit_nat_bound [OF byte_at_less, of bs off m] by auto
    note low = this [of "8 * i + n"]
    have "i \<in> {0, 1, 2, 3, 4, 5, 6, 7}" using assms by auto
    then show ?thesis using that
      unfolding le64_def bit_or_iff bit_push_byte
      by (elim insertE emptyE) (use low in simp_all)
  qed
  have "bit (byte_at bs (off + i)) n = bit (take_bit 8 (drop_bit (8 * i) (le64 bs off))) n" for n
    using le [of n] bit_nat_bound [OF byte_at_less, of bs "off + i" n]
    by (auto simp: bit_take_bit_iff bit_drop_bit_eq)
  then show ?thesis by (simp add: bit_eq_iff)
qed

lemma le64_inj:
  assumes "le64 bs off = le64 bs' off" "i < 8"
  shows "bs ! (off + i) = bs' ! (off + i)"
proof -
  have "byte_at bs (off + i) = byte_at bs' (off + i)"
    using byte_of_le64 [OF assms(2)] assms(1) by simp
  then show ?thesis by (simp add: byte_at_def word_unat_eq_iff)
qed

lemma relocate_all_inverse:
  assumes "separate ts" "\<forall>t \<in> set ts. t + 8 \<le> length img"
  shows "relocate_all (- d) ts (relocate_all d ts img) = img"
proof (rule nth_equalityI)
  show "length (relocate_all (- d) ts (relocate_all d ts img)) = length img" by simp
next
  fix i assume "i < length (relocate_all (- d) ts (relocate_all d ts img))"
  then have i: "i < length img" by simp
  show "relocate_all (- d) ts (relocate_all d ts img) ! i = img ! i"
  proof (cases "\<exists>t \<in> set ts. t \<le> i \<and> i < t + 8")
    case True
    then obtain t k where t: "t \<in> set ts" "i = t + k" "k < 8"
      by (metis le_Suc_ex nat_add_left_cancel_less)
    define w :: "64 word" where "w = word_of_nat (le64 img t)"
    have w: "unat w = le64 img t"
      using le64_less [of img t] by (simp add: w_def unsigned_of_nat take_bit_nat_eq_self)
    have "le64 (relocate_all d ts img) t = unat (w + d)"
      unfolding w_def by (rule le64_relocate_all [OF assms(1) t(1) assms(2)])
    moreover have "le64 (relocate_all (- d) ts (relocate_all d ts img)) t =
        unat (word_of_nat (le64 (relocate_all d ts img) t) + - d)"
      by (rule le64_relocate_all [OF assms(1) t(1)]) (use assms(2) in simp)
    ultimately have "le64 (relocate_all (- d) ts (relocate_all d ts img)) t = le64 img t"
      by (simp add: w [symmetric])
    then show ?thesis unfolding t(2) by (rule le64_inj [OF _ t(3)])
  next
    case False
    then have off: "\<forall>t \<in> set ts. t + 8 \<le> length img \<and> (i < t \<or> t + 8 \<le> i)"
      using assms(2) by (auto simp: not_less [symmetric])
    then show ?thesis using i nth_relocate_all_other [OF off i]
        nth_relocate_all_other [of ts "relocate_all d ts img" i "- d"] by simp
  qed
qed

text \<open>The directory's bytes decide what is read from it, wherever they are.\<close>

lemma reloc_blocks_cong:
  assumes "\<forall>i < sz. bs ! (dir + i) = bs' ! (dir' + i)" "dir + sz \<le> length bs" "dir' + sz \<le> length bs'"
  shows "reloc_blocks bs dir sz consumed n acc = reloc_blocks bs' dir' sz consumed n acc"
  using assms
proof (induction bs dir sz consumed n acc rule: reloc_blocks.induct)
  case (1 bs dir sz consumed n acc)
  have at: "bs ! (dir + c + i) = bs' ! (dir' + c + i)" if "c + i < sz" for c i
    using "1.prems"(1) that by (simp add: add.assoc)
  have r32: "rd32 bs (dir + c) = rd32 bs' (dir' + c)" if "c + 4 \<le> sz" for c
    using "1.prems" that by (simp add: rd32_in) (rule le32_cong, rule at, simp)
  have r16: "rd16 bs (dir + c) = rd16 bs' (dir' + c)" if "c + 2 \<le> sz" for c
    using "1.prems" that by (simp add: rd16_in) (rule le16_cong, rule at, simp)
  have block: "reloc_block bs (dir + consumed) page k = reloc_block bs' (dir' + consumed) page k"
    if "consumed + 8 + k \<le> sz" for page k
  proof -
    have "rd16 bs (dir + consumed + 8 + i * 2) = rd16 bs' (dir' + consumed + 8 + i * 2)"
      if i: "i < k div 2" for i
    proof -
      have "consumed + 8 + i * 2 + 2 \<le> sz" using i \<open>consumed + 8 + k \<le> sz\<close> by simp
      from r16 [OF this] show ?thesis by (simp add: add.assoc)
    qed
    then show ?thesis
      by (simp add: reloc_block_def kBaseRelocEntrySize_def kBaseRelocBlockHeaderSize_def)
  qed
  show ?case
  proof (cases "consumed + 8 \<le> sz")
    case False
    then show ?thesis by (subst (1 2) reloc_blocks.simps) (simp add: kBaseRelocBlockHeaderSize_def)
  next
    case True
    have h: "rd32 bs (dir + consumed) = rd32 bs' (dir' + consumed)"
      "rd32 bs (dir + consumed + 4) = rd32 bs' (dir' + consumed + 4)"
      using r32 [of consumed] r32 [of "consumed + 4"] True by (simp_all add: add.assoc)
    show ?thesis
      using "1.IH" True "1.prems" block
      by (subst (1 2) reloc_blocks.simps)
        (simp add: kBaseRelocBlockHeaderSize_def kBaseRelocEntrySize_def Let_def h not_less)
  qed
qed

subsection \<open>Properties\<close>



end
