(* ===== verification/Image_Mapper.thy ===== *)
theory Image_Mapper
  imports Image_Relocations
begin

text \<open>
  Mapping an image into memory: \<open>map_image\<close>, \<open>unmap_image\<close> and \<open>write_image_bytes\<close> of
  \<open>src/loader/image_mapper.cpp\<close>.

  The kernel is a parameter: \<open>Os\<close> says where \<open>mmap\<close> places a mapping (or that it fails) and
  whether an \<open>mprotect\<close> succeeds. What a successful call does is documented behaviour and is
  written out: a new anonymous mapping is zero-filled and readable and writable, and
  \<open>mprotect\<close> sets the protection of the pages of its range. A failed \<open>mprotect\<close> leaves the
  protections as they were.
\<close>

record Os =
  mmap_at :: "u64 \<Rightarrow> nat \<Rightarrow> u64 option"
  mmap_any :: "nat \<Rightarrow> u64 option"
  mprotect_ok :: "u64 \<Rightarrow> nat \<Rightarrow> Prot \<Rightarrow> bool"

definition protect_pages :: "nat \<Rightarrow> nat \<Rightarrow> nat \<Rightarrow> Prot \<Rightarrow> Prot list \<Rightarrow> Prot list" where
  "protect_pages page off len prot prots =
     map (\<lambda>i. if off \<le> i * page \<and> i * page < off + len then prot else prots ! i) [0..<length prots]"

definition mprotect ::
    "Os \<Rightarrow> nat \<Rightarrow> u64 \<Rightarrow> nat \<Rightarrow> nat \<Rightarrow> Prot \<Rightarrow> Prot list \<Rightarrow> Prot list option" where
  "mprotect os page address off len prot prots =
     (if mprotect_ok os (address + off) len prot
      then Some (protect_pages page off len prot prots) else None)"

subsection \<open>The regions of an image\<close>

definition section_region :: "SectionInfo \<Rightarrow> MapRegion" where
  "section_region s =
     \<lparr>region_name = sec_name s, region_rva = virtual_address s,
      region_size = to_u32 (section_span s), region_raw_pointer = raw_data_pointer s,
      region_raw_size = raw_data_size s,
      permissions = section_permissions (characteristics s)\<rparr>"

definition region_step :: "PeInfo \<Rightarrow> SectionInfo \<Rightarrow> MapRegion list \<Rightarrow> MapRegion list mapped" where
  "region_step info s rs =
     (if section_span s = 0 then Inr rs
      else if size_of_image info < section_end s \<or> virtual_address s < size_of_headers info
      then map_fail InvalidImage (RegionOutside (sec_name s))
      else Inr (rs @ [section_region s]))"

definition regions_overlap :: "MapRegion \<Rightarrow> MapRegion \<Rightarrow> bool" where
  "regions_overlap r1 r2 \<longleftrightarrow>
     region_rva r1 < region_rva r2 + region_size r2 \<and> region_rva r2 < region_rva r1 + region_size r1"

fun some_overlap :: "MapRegion list \<Rightarrow> bool" where
  "some_overlap [] = False"
| "some_overlap (r # rs) = (if list_ex (regions_overlap r) rs then True else some_overlap rs)"

definition kMaxSizeOfImage :: u64 where "kMaxSizeOfImage = 0x80000000"

text \<open>The checks of \<open>map_image\<close> before it asks for memory, and the regions it builds.\<close>

definition image_regions :: "nat \<Rightarrow> PeInfo \<Rightarrow> MapRegion list mapped" where
  "image_regions page info =
     (let mapping_size = align_up (size_of_image info) page in
      if mapping_size = 0 then map_fail InvalidImage ImageSizeZero
      else if kMaxSizeOfImage < mapping_size then map_fail InvalidImage ImageTooLarge
      else if size_of_headers info = 0 \<or> size_of_image info < size_of_headers info
      then map_fail InvalidImage BadHeadersSize
      else (case foldE (region_step info) (sections info) [] of
          Inl e \<Rightarrow> Inl e
        | Inr rs \<Rightarrow> if some_overlap rs then map_fail InvalidImage RegionsOverlap else Inr rs))"

subsection \<open>Filling the memory\<close>

definition copy_region :: "bytes \<Rightarrow> MapRegion \<Rightarrow> bytes \<Rightarrow> bytes" where
  "copy_region file r mem =
     (if region_raw_size r = 0 \<or> length file \<le> region_raw_pointer r
      then write_at mem (region_rva r) (replicate (region_size r) 0)
      else
        let copy_size = min (region_raw_size r) (length file - region_raw_pointer r) in
        if copy_size = 0 then write_at mem (region_rva r) (replicate (region_size r) 0)
        else
          let mem' = write_at mem (region_rva r) (take copy_size (drop (region_raw_pointer r) file)) in
          if copy_size < region_size r
          then write_at mem' (region_rva r + copy_size) (replicate (region_size r - copy_size) 0)
          else mem')"

definition load_image :: "PeInfo \<Rightarrow> bytes \<Rightarrow> MapRegion list \<Rightarrow> nat \<Rightarrow> bytes" where
  "load_image info file rs mapping_size =
     (let header_copy_size = min (min (size_of_headers info) (size_of_image info)) (length file);
          mem = write_at (replicate mapping_size 0) 0 (take header_copy_size file)
      in fold (copy_region file) rs mem)"

subsection \<open>Relocating\<close>

text \<open>The displacement, and the memory with the number of patches.\<close>

definition image_delta :: "u64 \<Rightarrow> u64 \<Rightarrow> 64 word" where
  "image_delta actual preferred = word_of_nat actual - word_of_nat preferred"

definition relocate_image ::
    "PeInfo \<Rightarrow> MapRegion list \<Rightarrow> 64 word \<Rightarrow> bytes \<Rightarrow> (bytes \<times> nat) mapped" where
  "relocate_image info rs d mem =
     (if (relocation_directory_rva info = 0) \<noteq> (relocation_directory_size info = 0)
      then map_fail InvalidImage RelocDirInconsistent
      else if d \<noteq> 0 \<and> relocation_directory_size info = 0
      then map_fail InvalidImage RelocDirMissing
      else if d \<noteq> 0 then
        (case apply_relocations mem (relocation_directory_rva info) (relocation_directory_size info)
                d rs of
           Inl ((st, e), img) \<Rightarrow> map_fail InvalidImage e
         | Inr st \<Rightarrow> Inr st)
      else Inr (mem, 0))"

subsection \<open>Protecting\<close>

definition protect_region ::
    "Os \<Rightarrow> nat \<Rightarrow> u64 \<Rightarrow> nat \<Rightarrow> nat \<Rightarrow> MapRegion list \<Rightarrow> MapRegion \<Rightarrow> Prot list \<Rightarrow> Prot list mapped" where
  "protect_region os page address mapping_size headers rs r prots =
     (let page_start = align_down (region_rva r) page;
          page_end = align_up (region_rva r + region_size r) page
      in
      if mapping_size \<le> page_start then Inr prots
      else
        let protect_size = min page_end mapping_size - page_start in
        case mprotect os page address page_start protect_size
               (to_prot (permissions_for_page rs page_start (page_start + protect_size) headers)) prots of
          None \<Rightarrow> map_fail OutOfMemory (ProtectRegionFailed (region_name r))
        | Some prots' \<Rightarrow> Inr prots')"

definition protect_headers ::
    "Os \<Rightarrow> nat \<Rightarrow> u64 \<Rightarrow> nat \<Rightarrow> nat \<Rightarrow> MapRegion list \<Rightarrow> Prot list \<Rightarrow> Prot list mapped" where
  "protect_headers os page address mapping_size headers rs prots =
     (let header_protect_size = align_up (min headers mapping_size) page in
      if 0 < header_protect_size then
        (case mprotect os page address 0 header_protect_size
                (to_prot (permissions_for_page rs 0 header_protect_size headers)) prots of
           None \<Rightarrow> map_fail OutOfMemory ProtectHeadersFailed
         | Some prots' \<Rightarrow> Inr prots')
      else Inr prots)"

definition protect_image ::
    "Os \<Rightarrow> nat \<Rightarrow> u64 \<Rightarrow> nat \<Rightarrow> nat \<Rightarrow> MapRegion list \<Rightarrow> Prot list \<Rightarrow> Prot list mapped" where
  "protect_image os page address mapping_size headers rs prots =
     (case mprotect os page address 0 mapping_size PROT_NONE prots of
        None \<Rightarrow> map_fail OutOfMemory IsolateFailed
      | Some prots1 \<Rightarrow>
          (case foldE (protect_region os page address mapping_size headers rs) rs prots1 of
             Inl e \<Rightarrow> Inl e
           | Inr prots2 \<Rightarrow> protect_headers os page address mapping_size headers rs prots2))"

subsection \<open>\<open>map_image\<close>\<close>

definition reserve :: "Os \<Rightarrow> u64 \<Rightarrow> nat \<Rightarrow> u64 option" where
  "reserve os preferred mapping_size =
     (case (if preferred \<noteq> 0 then mmap_at os preferred mapping_size else None) of
        Some address \<Rightarrow> Some address
      | None \<Rightarrow> mmap_any os mapping_size)"

definition map_image :: "Os \<Rightarrow> nat \<Rightarrow> PeInfo \<Rightarrow> bytes \<Rightarrow> u64 \<Rightarrow> MappedImage mapped" where
  "map_image os page info file option_base =
     (case image_regions page info of Inl e \<Rightarrow> Inl e | Inr rs \<Rightarrow>
        let mapping_size = align_up (size_of_image info) page;
            preferred = (if option_base \<noteq> 0 then option_base else image_base info)
        in
        case reserve os preferred mapping_size of None \<Rightarrow> map_fail OutOfMemory NoMemory
        | Some address \<Rightarrow>
            let d = image_delta address preferred in
            case relocate_image info rs d (load_image info file rs mapping_size) of
              Inl e \<Rightarrow> Inl e
            | Inr (mem, applied) \<Rightarrow>
                (case protect_image os page address mapping_size (size_of_headers info) rs
                        (replicate (mapping_size div page) PROT_RW) of
                   Inl e \<Rightarrow> Inl e
                 | Inr prots \<Rightarrow>
                     Inr \<lparr>preferred_base = preferred, base = address, image_size = mapping_size,
                          headers_size = min (size_of_headers info) mapping_size,
                          memory = Some mem, page_prots = prots, delta = d,
                          has_relocation_directory = relocation_directory_size info \<noteq> 0,
                          applied_relocations = applied, regions = rs\<rparr>))"

definition unmap_image :: "MappedImage \<Rightarrow> MappedImage" where
  "unmap_image img =
     \<lparr>preferred_base = 0, base = 0, image_size = 0, headers_size = 0, memory = None,
      page_prots = (if memory img \<noteq> None \<and> 0 < image_size img then [] else page_prots img),
      delta = 0, has_relocation_directory = False, applied_relocations = 0, regions = []\<rparr>"

subsection \<open>Patching a mapped image\<close>

datatype PatchStatus = PatchSuccess | InvalidAddress | MprotectFailed

fun covering_region :: "MapRegion list \<Rightarrow> u32 \<Rightarrow> nat \<Rightarrow> MapRegion option" where
  "covering_region [] rva len = None"
| "covering_region (r # rs) rva len =
     (if region_rva r \<le> rva \<and> rva + len \<le> region_rva r + region_size r
      then Some r else covering_region rs rva len)"

text \<open>The range of bytes that is made writable for a patch; \<open>None\<close> if there is none.\<close>

definition patch_range :: "nat \<Rightarrow> MappedImage \<Rightarrow> u32 \<Rightarrow> nat \<Rightarrow> (nat \<times> nat) option" where
  "patch_range page img rva len =
     (let page_start = align_down rva page; page_end = align_up (rva + len) page in
      if image_size img < page_end then
        (let clamped = align_up (image_size img) page in
         if clamped \<le> page_start then None else Some (page_start, clamped))
      else Some (page_start, page_end))"

definition may_patch :: "MappedImage \<Rightarrow> u32 \<Rightarrow> nat \<Rightarrow> bool" where
  "may_patch img rva len \<longleftrightarrow>
     covering_region (regions img) rva len \<noteq> None \<or>
     rva < headers_size img \<and> rva + len \<le> headers_size img"

definition write_image_bytes ::
    "Os \<Rightarrow> nat \<Rightarrow> MappedImage \<Rightarrow> u32 \<Rightarrow> bytes option \<Rightarrow> PatchStatus \<times> MappedImage" where
  "write_image_bytes os page img rva data =
     (case (memory img, data) of
        (Some mem, Some d) \<Rightarrow>
          if length d = 0 \<or> u64_max - length d < rva \<or> image_size img < rva + length d
          then (InvalidAddress, img)
          else if \<not> may_patch img rva (length d) then (InvalidAddress, img)
          else (case patch_range page img rva (length d) of
              None \<Rightarrow> (InvalidAddress, img)
            | Some (page_start, page_end) \<Rightarrow>
                let len = page_end - page_start in
                case mprotect os page (base img) page_start len PROT_RW (page_prots img) of
                  None \<Rightarrow> (MprotectFailed, img)
                | Some prots \<Rightarrow>
                    let patched = img\<lparr>memory := Some (write_at mem rva d)\<rparr>;
                        perms = permissions_for_page (regions img) page_start page_end (headers_size img)
                    in
                    case mprotect os page (base img) page_start len (to_prot perms) prots of
                      Some prots' \<Rightarrow> (PatchSuccess, patched\<lparr>page_prots := prots'\<rparr>)
                    | None \<Rightarrow>
                        (MprotectFailed,
                         patched\<lparr>page_prots :=
                           (case mprotect os page (base img) page_start len PROT_R prots of
                              None \<Rightarrow> prots | Some prots' \<Rightarrow> prots')\<rparr>))
      | _ \<Rightarrow> (InvalidAddress, img))"

subsection \<open>The regions\<close>

definition region_in_image :: "PeInfo \<Rightarrow> MapRegion \<Rightarrow> bool" where
  "region_in_image info r \<longleftrightarrow>
     0 < region_size r \<and> size_of_headers info \<le> region_rva r \<and>
     region_rva r + region_size r \<le> size_of_image info \<and> region_raw_size r \<le> region_size r \<and>
     permissions r \<noteq> ReadWriteExecute"

text \<open>
  The regions of a successful mapping: one for each non-empty section, between the headers and
  the end of the image, none of them both writable and executable, and pairwise disjoint.
\<close>

definition wf_regions :: "PeInfo \<Rightarrow> MapRegion list \<Rightarrow> bool" where
  "wf_regions info rs \<longleftrightarrow> (\<forall>r \<in> set rs. region_in_image info r) \<and>
     sorted_wrt (\<lambda>r1 r2. \<not> regions_overlap r1 r2) rs"

lemma some_overlap_iff: "some_overlap rs \<longleftrightarrow> \<not> sorted_wrt (\<lambda>r1 r2. \<not> regions_overlap r1 r2) rs"
  by (induction rs) (auto simp: list_ex_iff)

lemma section_region_in_image:
  assumes "section_span s \<noteq> 0" "section_end s \<le> size_of_image info"
    "size_of_headers info \<le> virtual_address s" "size_of_image info \<le> u32_max"
  shows "region_in_image info (section_region s)"
proof -
  have "section_span s \<le> u32_max" using assms by (simp add: section_end_def)
  then show ?thesis using assms section_permissions_never_rwx
    by (auto simp: region_in_image_def section_region_def section_end_def section_span_def)
qed

lemma region_steps_Inr:
  assumes "foldE (region_step info) ss [] = Inr rs" "size_of_image info \<le> u32_max"
  shows "rs = map section_region (filter (\<lambda>s. section_span s \<noteq> 0) ss) \<and>
    (\<forall>r \<in> set rs. region_in_image info r)"
  using assms(1)
proof (rule foldE_invariant)
  show "[] = map section_region (filter (\<lambda>s. section_span s \<noteq> 0) []) \<and>
      (\<forall>r \<in> set []. region_in_image info r)" by simp
next
  fix ys s acc acc'
  assume "acc = map section_region (filter (\<lambda>s. section_span s \<noteq> 0) ys) \<and>
      (\<forall>r \<in> set acc. region_in_image info r)" and "region_step info s acc = Inr acc'"
  then show "acc' = map section_region (filter (\<lambda>s. section_span s \<noteq> 0) (ys @ [s])) \<and>
      (\<forall>r \<in> set acc'. region_in_image info r)"
    using assms(2)
    by (auto simp: region_step_def not_less section_region_in_image split: if_split_asm)
qed

lemma image_regions_Inr:
  assumes "image_regions page info = Inr rs" "0 < page"
  shows "wf_regions info rs" "rs = map section_region (filter (\<lambda>s. section_span s \<noteq> 0) (sections info))"
    "size_of_image info \<le> align_up (size_of_image info) page"
    "align_up (size_of_image info) page \<le> 0x80000000"
    "0 < size_of_headers info" "size_of_headers info \<le> size_of_image info"
proof -
  from assms(1) have sz: "align_up (size_of_image info) page \<le> 0x80000000"
      "0 < size_of_headers info" "size_of_headers info \<le> size_of_image info" and
    steps: "foldE (region_step info) (sections info) [] = Inr rs" and no: "\<not> some_overlap rs"
    by (auto simp: image_regions_def Let_def kMaxSizeOfImage_def not_less
        split: if_split_asm sum.split_asm)
  show le: "size_of_image info \<le> align_up (size_of_image info) page"
    by (rule align_up_ge [OF assms(2)])
  from region_steps_Inr [OF steps] sz le no
  show "wf_regions info rs" "rs = map section_region (filter (\<lambda>s. section_span s \<noteq> 0) (sections info))"
    by (simp_all add: wf_regions_def some_overlap_iff)
  show "align_up (size_of_image info) page \<le> 0x80000000"
    "0 < size_of_headers info" "size_of_headers info \<le> size_of_image info"
    using sz by simp_all
qed

text \<open>An address lies in at most one region.\<close>

definition region_has :: "MapRegion \<Rightarrow> nat \<Rightarrow> bool" where
  "region_has r i \<longleftrightarrow> region_rva r \<le> i \<and> i < region_rva r + region_size r"

lemma region_unique:
  assumes "wf_regions info rs" "r1 \<in> set rs" "r2 \<in> set rs" "region_has r1 i" "region_has r2 i"
  shows "r1 = r2"
proof (rule ccontr)
  assume ne: "r1 \<noteq> r2"
  from assms obtain i1 i2 where "i1 < length rs" "i2 < length rs" "rs ! i1 = r1" "rs ! i2 = r2"
    by (auto simp: in_set_conv_nth)
  moreover have "regions_overlap r1 r2" "regions_overlap r2 r1"
    using assms(4,5) by (auto simp: regions_overlap_def region_has_def)
  moreover have "sorted_wrt (\<lambda>r1 r2. \<not> regions_overlap r1 r2) rs" using assms(1) by (simp add: wf_regions_def)
  ultimately show False using ne by (metis linorder_neqE_nat sorted_wrt_nth_less)
qed

subsection \<open>The memory before relocation\<close>

text \<open>The byte of a region at an offset: from the file while there is raw data, then zero.\<close>

definition region_byte :: "bytes \<Rightarrow> MapRegion \<Rightarrow> nat \<Rightarrow> byte" where
  "region_byte file r k =
     (if k < region_raw_size r \<and> region_raw_pointer r + k < length file
      then file ! (region_raw_pointer r + k) else 0)"

lemma copy_region_spec:
  assumes "region_rva r + region_size r \<le> length mem" "region_raw_size r \<le> region_size r"
  shows "length (copy_region file r mem) = length mem \<and>
    (\<forall>i < length mem. copy_region file r mem ! i =
       (if region_has r i then region_byte file r (i - region_rva r) else mem ! i))"
proof (cases "region_raw_size r = 0 \<or> length file \<le> region_raw_pointer r")
  case True
  then show ?thesis using assms
    by (auto simp: copy_region_def nth_write_at region_has_def region_byte_def)
next
  case False
  define n where "n = min (region_raw_size r) (length file - region_raw_pointer r)"
  define src where "src = take n (drop (region_raw_pointer r) file)"
  have len: "length src = n" "0 < n" "n \<le> region_size r"
    using False assms(2) by (auto simp: src_def n_def)
  define mem' where "mem' = write_at mem (region_rva r) src"
  have mem': "length mem' = length mem" using assms len by (simp add: mem'_def)
  have copy: "copy_region file r mem =
      (if n < region_size r
       then write_at mem' (region_rva r + n) (replicate (region_size r - n) 0) else mem')"
    using False len(2) by (auto simp: copy_region_def Let_def n_def src_def mem'_def)
  have first: "mem' ! i = (if region_rva r \<le> i \<and> i < region_rva r + n then src ! (i - region_rva r) else mem ! i)"
    if "i < length mem" for i
    using assms len that by (simp add: mem'_def nth_write_at)
  have src: "src ! k = region_byte file r k" if "k < n" for k
    using that False by (simp add: src_def n_def region_byte_def less_diff_conv add.commute)
  have zero: "region_byte file r k = 0" if "n \<le> k" for k
    using that by (auto simp: region_byte_def n_def)
  have "copy_region file r mem ! i =
      (if region_has r i then region_byte file r (i - region_rva r) else mem ! i)"
    if i: "i < length mem" for i
  proof (cases "n < region_size r")
    case True
    then show ?thesis using assms len mem' i
      by (auto simp: copy nth_write_at first src zero region_has_def)
  next
    case False
    with len have "n = region_size r" by simp
    then show ?thesis using i by (auto simp: copy first src region_has_def)
  qed
  moreover have "length (copy_region file r mem) = length mem"
    using assms len mem' by (simp add: copy)
  ultimately show ?thesis by blast
qed

lemma copy_regions_spec:
  assumes "\<forall>r \<in> set rs. region_rva r + region_size r \<le> length mem \<and> region_raw_size r \<le> region_size r"
    and "sorted_wrt (\<lambda>r1 r2. \<not> regions_overlap r1 r2) rs"
  shows "length (fold (copy_region file) rs mem) = length mem \<and>
    (\<forall>i < length mem.
       (\<forall>r \<in> set rs. region_has r i \<longrightarrow> fold (copy_region file) rs mem ! i = region_byte file r (i - region_rva r)) \<and>
       ((\<forall>r \<in> set rs. \<not> region_has r i) \<longrightarrow> fold (copy_region file) rs mem ! i = mem ! i))"
  using assms
proof (induction rs arbitrary: mem)
  case Nil
  then show ?case by simp
next
  case (Cons r rs)
  let ?m = "copy_region file r mem"
  have m: "length ?m = length mem"
    "\<forall>i < length mem. ?m ! i = (if region_has r i then region_byte file r (i - region_rva r) else mem ! i)"
    using copy_region_spec [of r mem "file"] Cons.prems(1) by auto
  have ih: "length (fold (copy_region file) rs ?m) = length ?m \<and>
    (\<forall>i < length ?m.
       (\<forall>r \<in> set rs. region_has r i \<longrightarrow> fold (copy_region file) rs ?m ! i = region_byte file r (i - region_rva r)) \<and>
       ((\<forall>r \<in> set rs. \<not> region_has r i) \<longrightarrow> fold (copy_region file) rs ?m ! i = ?m ! i))"
    by (rule Cons.IH) (use Cons.prems m in auto)
  have "\<not> region_has r' i" if "region_has r i" "r' \<in> set rs" for r' i
    using Cons.prems(2) that by (auto simp: regions_overlap_def region_has_def)
  then show ?case using ih m by auto
qed


text \<open>The memory before relocation: the headers and the regions from the file, zero elsewhere.\<close>

definition image_byte :: "PeInfo \<Rightarrow> bytes \<Rightarrow> MapRegion list \<Rightarrow> nat \<Rightarrow> byte" where
  "image_byte info file rs i =
     (case find (\<lambda>r. region_has r i) rs of
        Some r \<Rightarrow> region_byte file r (i - region_rva r)
      | None \<Rightarrow> if i < size_of_headers info \<and> i < length file then file ! i else 0)"

lemma load_image_spec:
  assumes "wf_regions info rs" "size_of_image info \<le> n" "size_of_headers info \<le> size_of_image info"
  shows "length (load_image info file rs n) = n"
    and "i < n \<Longrightarrow> load_image info file rs n ! i = image_byte info file rs i"
proof -
  define h where "h = min (min (size_of_headers info) (size_of_image info)) (length file)"
  define mem where "mem = write_at (replicate n 0) 0 (take h file)"
  have len: "length mem = n" using assms by (simp add: mem_def h_def)
  have mem: "mem ! i = (if i < size_of_headers info \<and> i < length file then file ! i else 0)"
    if "i < n" for i
    using that assms(2,3) by (simp add: mem_def h_def nth_write_at)
  have load: "load_image info file rs n = fold (copy_region file) rs mem"
    by (simp add: load_image_def mem_def h_def Let_def)
  have ok: "\<forall>r \<in> set rs. region_rva r + region_size r \<le> length mem \<and> region_raw_size r \<le> region_size r"
    using assms(1,2) by (auto simp: wf_regions_def region_in_image_def len)
  have sorted: "sorted_wrt (\<lambda>r1 r2. \<not> regions_overlap r1 r2) rs"
    using assms(1) by (simp add: wf_regions_def)
  note spec = copy_regions_spec [OF ok sorted, of "file"]
  show "length (load_image info file rs n) = n" using spec len by (simp add: load)
  show "load_image info file rs n ! i = image_byte info file rs i" if i: "i < n"
  proof (cases "find (\<lambda>r. region_has r i) rs")
    case None
    then have "\<forall>r \<in> set rs. \<not> region_has r i" by (simp add: find_None_iff)
    with spec i len mem show ?thesis by (simp add: load image_byte_def None)
  next
    case (Some r)
    then have "r \<in> set rs" "region_has r i" by (auto simp: find_Some_iff)
    with spec i len Some show ?thesis by (simp add: load image_byte_def)
  qed
qed

lemma image_byte_in:
  assumes "wf_regions info rs" "r \<in> set rs" "k < region_size r"
  shows "image_byte info file rs (region_rva r + k) = region_byte file r k"
proof -
  have has: "region_has r (region_rva r + k)" using assms(3) by (simp add: region_has_def)
  then obtain r' where r': "find (\<lambda>g. region_has g (region_rva r + k)) rs = Some r'"
    using assms(2) by (cases "find (\<lambda>g. region_has g (region_rva r + k)) rs") (auto simp: find_None_iff)
  then have "r' \<in> set rs" "region_has r' (region_rva r + k)" using find_some_sound [OF r'] by simp_all
  from region_unique [OF assms(1) this(1) assms(2) this(2) has] r' show ?thesis
    by (simp add: image_byte_def)
qed

subsection \<open>The protections\<close>

text \<open>
  A page ends up with the permissions of some aligned range of pages around it, a range that a
  region or the headers gave; a page that none of them touches is inaccessible.
\<close>

definition touched :: "nat \<Rightarrow> nat \<Rightarrow> MapRegion list \<Rightarrow> nat \<Rightarrow> bool" where
  "touched page headers rs i \<longleftrightarrow>
     i * page < headers \<or> (\<exists>r \<in> set rs. meets r (i * page) (Suc i * page))"

definition fused_prot :: "nat \<Rightarrow> nat \<Rightarrow> MapRegion list \<Rightarrow> nat \<Rightarrow> Prot \<Rightarrow> bool" where
  "fused_prot page headers rs i p \<longleftrightarrow>
     (\<exists>a b. a \<le> i * page \<and> Suc i * page \<le> b \<and> p = to_prot (permissions_for_page rs a b headers))"

lemma length_protect_pages [simp]: "length (protect_pages page off len p prots) = length prots"
  by (simp add: protect_pages_def)

lemma nth_protect_pages:
  "i < length prots \<Longrightarrow> protect_pages page off len p prots ! i =
     (if off \<le> i * page \<and> i * page < off + len then p else prots ! i)"
  by (simp add: protect_pages_def)

lemma page_end_le: "0 < page \<Longrightarrow> page dvd b \<Longrightarrow> i * page < b \<Longrightarrow> Suc i * page \<le> b"
  by (metis dvd_def mult.commute mult_le_mono1 mult_less_cancel2 Suc_leI)

lemma page_start_ge: "0 < page \<Longrightarrow> v < Suc i * page \<Longrightarrow> align_down v page \<le> i * page"
  using less_mult_imp_div_less [of v "Suc i" page] by (simp add: align_down_mult)

lemma meets_range:
  assumes "0 < page" "0 < region_size r"
  shows "meets r (i * page) (Suc i * page) \<longleftrightarrow>
    align_down (region_rva r) page \<le> i * page \<and> i * page < align_up (region_rva r + region_size r) page"
proof
  assume m: "meets r (i * page) (Suc i * page)"
  then show "align_down (region_rva r) page \<le> i * page \<and> i * page < align_up (region_rva r + region_size r) page"
    using page_start_ge [OF assms(1)] align_up_ge [OF assms(1), of "region_rva r + region_size r"]
    by (auto simp: meets_def)
next
  assume a: "align_down (region_rva r) page \<le> i * page \<and> i * page < align_up (region_rva r + region_size r) page"
  have "region_rva r < Suc i * page"
  proof -
    have "region_rva r div page \<le> i" using a assms(1) by (simp add: align_down_mult)
    then have "region_rva r div page < Suc i" by simp
    then show ?thesis using assms(1) by (simp only: div_less_iff_less_mult)
  qed
  moreover have "i * page < region_rva r + region_size r"
  proof (rule ccontr)
    assume "\<not> i * page < region_rva r + region_size r"
    then have "align_up (region_rva r + region_size r) page \<le> i * page"
      using assms(1) by (intro align_up_least) auto
    with a show False by simp
  qed
  ultimately show "meets r (i * page) (Suc i * page)" by (simp add: meets_def)
qed


lemma mprotect_Some:
  "mprotect os page address off len p prots = Some prots' \<Longrightarrow> prots' = protect_pages page off len p prots"
  by (simp add: mprotect_def split: if_split_asm)

text \<open>The loop over the regions, by the regions done.\<close>

definition region_prots :: "nat \<Rightarrow> nat \<Rightarrow> MapRegion list \<Rightarrow> nat \<Rightarrow> MapRegion list \<Rightarrow> Prot list \<Rightarrow> bool" where
  "region_prots page headers rs n done_rs prots \<longleftrightarrow> length prots = n \<and>
     (\<forall>i < n. if \<exists>r \<in> set done_rs. meets r (i * page) (Suc i * page)
        then fused_prot page headers rs i (prots ! i) else prots ! i = PROT_NONE)"

lemma protect_region_step:
  assumes "region_prots page headers rs n ys prots"
    and "protect_region os page address (n * page) headers rs r prots = Inr prots'"
    and "0 < page" "0 < region_size r" "region_rva r + region_size r \<le> n * page"
  shows "region_prots page headers rs n (ys @ [r]) prots'"
proof -
  define a where "a = align_down (region_rva r) page"
  define b where "b = align_up (region_rva r + region_size r) page"
  have b: "b \<le> n * page" unfolding b_def by (rule align_up_least) (use assms in auto)
  have "a \<le> region_rva r" by (simp add: a_def align_down_le)
  then have a: "a < n * page" and ab: "a + (b - a) = b"
    using assms(4,5) align_up_ge [OF assms(3), of "region_rva r + region_size r"] by (simp_all add: b_def)
  define p where "p = to_prot (permissions_for_page rs a b headers)"
  from assms(2) b a ab have prots': "prots' = protect_pages page a (b - a) p prots"
    by (auto simp: protect_region_def Let_def min_absorb1 p_def simp flip: a_def b_def
        split: option.split_asm dest: mprotect_Some)
  have len: "length prots = n" using assms(1) by (simp add: region_prots_def)
  have cover: "meets r (i * page) (Suc i * page) \<longleftrightarrow> a \<le> i * page \<and> i * page < b" for i
    unfolding a_def b_def by (rule meets_range [OF assms(3,4)])
  have fused: "fused_prot page headers rs i p" if "a \<le> i * page" "i * page < b" for i
    unfolding fused_prot_def p_def
    by (intro exI [of _ a] exI [of _ b]) (use that page_end_le [OF assms(3), of b i] assms(3) b_def in simp)
  have new: "prots' ! i = (if a \<le> i * page \<and> i * page < b then p else prots ! i)" if "i < n" for i
    using that len ab by (simp add: prots' nth_protect_pages)
  have old: "if \<exists>r \<in> set ys. meets r (i * page) (Suc i * page)
      then fused_prot page headers rs i (prots ! i) else prots ! i = PROT_NONE" if "i < n" for i
    using assms(1) that by (simp add: region_prots_def)
  have "if \<exists>r \<in> set (ys @ [r]). meets r (i * page) (Suc i * page)
      then fused_prot page headers rs i (prots' ! i) else prots' ! i = PROT_NONE" if "i < n" for i
    using old [OF that] new [OF that] fused [of i] cover [of i]
    by (cases "a \<le> i * page \<and> i * page < b") (auto split: if_split_asm)
  moreover have "length prots' = n" using len by (simp add: prots')
  ultimately show ?thesis unfolding region_prots_def by blast
qed

lemma protect_image_spec:
  assumes "protect_image os page address (n * page) headers rs prots = Inr prots'"
    and "0 < page" "length prots = n" "headers \<le> n * page" "0 < headers"
    and "\<forall>r \<in> set rs. 0 < region_size r \<and> region_rva r + region_size r \<le> n * page"
  shows "length prots' = n \<and>
    (\<forall>i < n. if touched page headers rs i then fused_prot page headers rs i (prots' ! i)
       else prots' ! i = PROT_NONE)"
proof -
  from assms(1) obtain p1 p2 where
    p1: "mprotect os page address 0 (n * page) PROT_NONE prots = Some p1" and
    p2: "foldE (protect_region os page address (n * page) headers rs) rs p1 = Inr p2" and
    p3: "protect_headers os page address (n * page) headers rs p2 = Inr prots'"
    by (auto simp: protect_image_def split: option.split_asm sum.split_asm)
  have "region_prots page headers rs n [] p1"
    using mprotect_Some [OF p1] assms(2,3) by (auto simp: region_prots_def nth_protect_pages)
  with p2 have reg: "region_prots page headers rs n rs p2"
    by (rule foldE_invariant) (use assms(2,6) in \<open>auto intro: protect_region_step\<close>)
  define h where "h = align_up headers page"
  have h: "0 < h" "headers \<le> h" "h \<le> n * page" "page dvd h"
    unfolding h_def using align_up_ge [OF assms(2), of headers] assms(2,4,5)
    by (auto intro: align_up_least)
  define p where "p = to_prot (permissions_for_page rs 0 h headers)"
  from p3 h assms(4) have prots': "prots' = protect_pages page 0 h p p2"
    by (auto simp: protect_headers_def Let_def min_absorb1 p_def simp flip: h_def
        split: option.split_asm dest: mprotect_Some)
  have fused: "fused_prot page headers rs i p" if "i * page < h" for i
    unfolding fused_prot_def p_def
    by (intro exI [of _ 0] exI [of _ h]) (use that page_end_le [OF assms(2) h(4), of i] in simp)
  have less: "i * page < h \<longleftrightarrow> i * page < headers" for i
  proof
    assume i: "i * page < h"
    show "i * page < headers"
    proof (rule ccontr)
      assume "\<not> i * page < headers"
      then have "h \<le> i * page" unfolding h_def using assms(2) by (intro align_up_least) auto
      with i show False by simp
    qed
  qed (use h in simp)
  have len: "length p2 = n" using reg by (simp add: region_prots_def)
  have "if touched page headers rs i then fused_prot page headers rs i (prots' ! i)
      else prots' ! i = PROT_NONE" if "i < n" for i
    using reg that fused [of i] len less [of i]
    by (cases "i * page < headers") (auto simp: region_prots_def prots' nth_protect_pages touched_def)
  moreover have "length prots' = n" using len by (simp add: prots')
  ultimately show ?thesis by blast
qed


lemma fused_prot_wx: "fused_prot page headers rs i p \<Longrightarrow> wx_ok p"
  by (auto simp: fused_prot_def permissions_for_page_never_rwx)

text \<open>A region that may be written is writable in every page it meets.\<close>

lemma fused_prot_writable:
  assumes "fused_prot page headers rs i p" "r \<in> set rs" "meets r (i * page) (Suc i * page)"
    "permissions r = ReadWrite"
  shows "p = PROT_RW"
proof -
  from assms(1) obtain a b where ab: "a \<le> i * page" "Suc i * page \<le> b"
    and p: "p = to_prot (permissions_for_page rs a b headers)" by (auto simp: fused_prot_def)
  have "meets r a b" using assms(3) ab by (auto simp: meets_def)
  then have "permissions_for_page rs a b headers = ReadWrite"
    using assms(2,4) by (auto simp: permissions_for_page_cases)
  then show ?thesis by (simp add: p)
qed

lemma fused_prot_readable:
  assumes "fused_prot page headers rs i p" "r \<in> set rs" "meets r (i * page) (Suc i * page)"
    "permissions r \<noteq> NoAccess"
  shows "prot_read p"
proof -
  from assms(1) obtain a b where ab: "a \<le> i * page" "Suc i * page \<le> b"
    and p: "p = to_prot (permissions_for_page rs a b headers)" by (auto simp: fused_prot_def)
  have m: "meets r a b" using assms(3) ab by (auto simp: meets_def)
  have "permissions_for_page rs a b headers \<noteq> NoAccess"
    using assms(2,4) m by (cases "permissions r") (auto simp: permissions_for_page_cases)
  then show ?thesis unfolding p
    by (cases "permissions_for_page rs a b headers")
      (simp_all add: PROT_R_def PROT_RW_def PROT_RX_def PROT_RWX_def)
qed

subsection \<open>A mapped image\<close>

text \<open>
  What holds of every image that \<open>map_image\<close> returns and that patches keep: the memory has the
  size of the mapping, the regions are well-formed and inside it, and no page is both writable
  and executable.
\<close>

definition wf_image :: "nat \<Rightarrow> MappedImage \<Rightarrow> bool" where
  "wf_image page img \<longleftrightarrow>
     (\<exists>mem. memory img = Some mem \<and> length mem = image_size img) \<and>
     page dvd image_size img \<and> length (page_prots img) = image_size img div page \<and>
     headers_size img \<le> image_size img \<and>
     (\<forall>r \<in> set (regions img). 0 < region_size r \<and> headers_size img \<le> region_rva r \<and>
        region_rva r + region_size r \<le> image_size img) \<and>
     sorted_wrt (\<lambda>r1 r2. \<not> regions_overlap r1 r2) (regions img) \<and>
     (\<forall>p \<in> set (page_prots img). wx_ok p)"

lemma map_image_steps:
  assumes "map_image os page info file opt = Inr img"
  obtains rs address mem applied prots where
    "image_regions page info = Inr rs"
    "reserve os (if opt \<noteq> 0 then opt else image_base info) (align_up (size_of_image info) page) = Some address"
    "relocate_image info rs (image_delta address (if opt \<noteq> 0 then opt else image_base info))
       (load_image info file rs (align_up (size_of_image info) page)) = Inr (mem, applied)"
    "protect_image os page address (align_up (size_of_image info) page) (size_of_headers info) rs
       (replicate (align_up (size_of_image info) page div page) PROT_RW) = Inr prots"
    "img = \<lparr>preferred_base = (if opt \<noteq> 0 then opt else image_base info), base = address,
       image_size = align_up (size_of_image info) page,
       headers_size = min (size_of_headers info) (align_up (size_of_image info) page),
       memory = Some mem, page_prots = prots,
       delta = image_delta address (if opt \<noteq> 0 then opt else image_base info),
       has_relocation_directory = relocation_directory_size info \<noteq> 0,
       applied_relocations = applied, regions = rs\<rparr>"
  using assms by (auto simp: map_image_def Let_def split: sum.split_asm option.split_asm)

lemma relocate_image_Inr:
  assumes "relocate_image info rs d mem = Inr (mem', n)"
  shows "d = 0 \<and> mem' = mem \<and> n = 0 \<or>
    d \<noteq> 0 \<and> relocation_directory_size info \<noteq> 0 \<and> relocation_directory_rva info \<noteq> 0 \<and>
    apply_relocations mem (relocation_directory_rva info) (relocation_directory_size info) d rs = Inr (mem', n)"
  using assms by (auto simp: relocate_image_def split: if_split_asm sum.split_asm prod.split_asm)

lemma relocate_image_frame:
  assumes "relocate_image info rs d mem = Inr (mem', n)"
  shows "patch_frame rs mem mem'"
  using relocate_image_Inr [OF assms]
    apply_relocations_frame [of rs mem "relocation_directory_rva info" "relocation_directory_size info" d]
  by auto

text \<open>All pages of a new image: what touches them decides.\<close>

lemma map_image_pages:
  assumes "map_image os page info file opt = Inr img" "0 < page" "i < image_size img div page"
  shows "if touched page (size_of_headers info) (regions img) i
    then fused_prot page (size_of_headers info) (regions img) i (page_prots img ! i)
    else page_prots img ! i = PROT_NONE"
  using assms(1)
proof (rule map_image_steps)
  fix rs address mem applied prots
  let ?n = "align_up (size_of_image info) page"
  assume rs: "image_regions page info = Inr rs"
    and prots: "protect_image os page address ?n (size_of_headers info) rs
       (replicate (?n div page) PROT_RW) = Inr prots"
    and img: "img = \<lparr>preferred_base = (if opt \<noteq> 0 then opt else image_base info), base = address,
       image_size = ?n, headers_size = min (size_of_headers info) ?n,
       memory = Some mem, page_prots = prots,
       delta = image_delta address (if opt \<noteq> 0 then opt else image_base info),
       has_relocation_directory = relocation_directory_size info \<noteq> 0,
       applied_relocations = applied, regions = rs\<rparr>"
  note reg = image_regions_Inr [OF rs assms(2)]
  obtain k where k: "?n = k * page" using dvd_align_up [OF assms(2), of "size_of_image info"]
    by (auto simp: dvd_def mult.commute)
  then have div: "?n div page = k" using assms(2) by simp
  have "size_of_headers info \<le> k * page" using reg(3,6) k by simp
  moreover have "\<forall>r \<in> set rs. 0 < region_size r \<and> region_rva r + region_size r \<le> k * page"
    using reg(1,3) k by (force simp: wf_regions_def region_in_image_def)
  ultimately have "length prots = k \<and> (\<forall>i < k.
      if touched page (size_of_headers info) rs i
      then fused_prot page (size_of_headers info) rs i (prots ! i) else prots ! i = PROT_NONE)"
    by (intro protect_image_spec [OF prots [unfolded div k] assms(2)]) (use reg assms(2) in simp_all)
  then show ?thesis using assms(3) div by (simp add: img)
qed

lemma map_image_wf:
  assumes "map_image os page info file opt = Inr img" "0 < page"
  shows "wf_image page img"
  using assms(1)
proof (rule map_image_steps)
  fix rs address mem applied prots
  let ?n = "align_up (size_of_image info) page"
  assume rs: "image_regions page info = Inr rs"
    and mem: "relocate_image info rs (image_delta address (if opt \<noteq> 0 then opt else image_base info))
       (load_image info file rs ?n) = Inr (mem, applied)"
    and prots: "protect_image os page address ?n (size_of_headers info) rs
       (replicate (?n div page) PROT_RW) = Inr prots"
    and img: "img = \<lparr>preferred_base = (if opt \<noteq> 0 then opt else image_base info), base = address,
       image_size = ?n, headers_size = min (size_of_headers info) ?n,
       memory = Some mem, page_prots = prots,
       delta = image_delta address (if opt \<noteq> 0 then opt else image_base info),
       has_relocation_directory = relocation_directory_size info \<noteq> 0,
       applied_relocations = applied, regions = rs\<rparr>"
  note reg = image_regions_Inr [OF rs assms(2)]
  obtain k where k: "?n = k * page" using dvd_align_up [OF assms(2), of "size_of_image info"]
    by (auto simp: dvd_def mult.commute)
  then have div: "?n div page = k" using assms(2) by simp
  have h: "size_of_headers info \<le> k * page" using reg(3,6) k by simp
  have r: "\<forall>r \<in> set rs. 0 < region_size r \<and> size_of_headers info \<le> region_rva r \<and>
      region_rva r + region_size r \<le> k * page"
    using reg(1,3) k by (force simp: wf_regions_def region_in_image_def)
  have spec: "length prots = k \<and> (\<forall>i < k.
      if touched page (size_of_headers info) rs i
      then fused_prot page (size_of_headers info) rs i (prots ! i) else prots ! i = PROT_NONE)"
    by (intro protect_image_spec [OF prots [unfolded div k] assms(2)]) (use reg h r assms(2) in simp_all)
  have "wx_ok p" if p: "p \<in> set prots" for p
  proof -
    from p spec obtain i where "i < k" "prots ! i = p" by (auto simp: in_set_conv_nth)
    with spec show ?thesis using fused_prot_wx by (metis wx_ok_consts(1))
  qed
  moreover have "length mem = k * page"
    using relocate_image_frame [OF mem] load_image_spec(1) [OF reg(1,3,6)] k
    by (simp add: patch_frame_def)
  moreover have "sorted_wrt (\<lambda>r1 r2. \<not> regions_overlap r1 r2) rs" using reg(1) by (simp add: wf_regions_def)
  ultimately show ?thesis using spec h r assms(2)
    by (simp add: wf_image_def img k)
qed

text \<open>The memory of a new image: the file's bytes, patched inside the regions at most.\<close>

lemma map_image_memory:
  assumes "map_image os page info file opt = Inr img" "0 < page"
  shows "\<exists>mem. memory img = Some mem \<and>
    (\<forall>i < image_size img. delta img = 0 \<or> \<not> in_some_region (regions img) i \<and> regions img \<noteq> [] \<longrightarrow>
       mem ! i = image_byte info file (regions img) i)"
  using assms(1)
proof (rule map_image_steps)
  fix rs address mem applied prots
  let ?n = "align_up (size_of_image info) page"
  let ?d = "image_delta address (if opt \<noteq> 0 then opt else image_base info)"
  assume rs: "image_regions page info = Inr rs"
    and mem: "relocate_image info rs ?d (load_image info file rs ?n) = Inr (mem, applied)"
    and img: "img = \<lparr>preferred_base = (if opt \<noteq> 0 then opt else image_base info), base = address,
       image_size = ?n, headers_size = min (size_of_headers info) ?n,
       memory = Some mem, page_prots = prots, delta = ?d,
       has_relocation_directory = relocation_directory_size info \<noteq> 0,
       applied_relocations = applied, regions = rs\<rparr>"
  note reg = image_regions_Inr [OF rs assms(2)]
  note load = load_image_spec [OF reg(1,3,6)]
  have "mem ! i = image_byte info file rs i" if "i < ?n" "?d = 0 \<or> \<not> in_some_region rs i \<and> rs \<noteq> []" for i
    using that(2)
  proof
    assume "?d = 0"
    then have "mem = load_image info file rs ?n" using relocate_image_Inr [OF mem] by blast
    then show ?thesis using load(2) that by simp
  next
    assume "\<not> in_some_region rs i \<and> rs \<noteq> []"
    then have "mem ! i = load_image info file rs ?n ! i"
      using relocate_image_frame [OF mem] that load(1) by (simp add: patch_frame_def)
    then show ?thesis using load(2) that by simp
  qed
  then show ?thesis by (simp add: img)
qed

subsection \<open>Patches\<close>

lemma covering_region_Some:
  "covering_region rs rva n = Some r \<Longrightarrow>
     r \<in> set rs \<and> region_rva r \<le> rva \<and> rva + n \<le> region_rva r + region_size r"
  by (induction rs) (auto split: if_split_asm)

lemma covering_region_None:
  "covering_region rs rva n = None \<longleftrightarrow>
     (\<forall>r \<in> set rs. \<not> (region_rva r \<le> rva \<and> rva + n \<le> region_rva r + region_size r))"
  by (induction rs) auto

text \<open>A range that may be patched lies in the mapping, so the patch range is not cut.\<close>

lemma patch_range_exact:
  assumes "wf_image page img" "0 < page" "0 < n" "rva + n \<le> image_size img"
  shows "patch_range page img rva n = Some (align_down rva page, align_up (rva + n) page)"
    "align_down rva page < align_up (rva + n) page" "align_up (rva + n) page \<le> image_size img"
proof -
  show le: "align_up (rva + n) page \<le> image_size img"
    by (rule align_up_least) (use assms in \<open>auto simp: wf_image_def\<close>)
  show "align_down rva page < align_up (rva + n) page"
    using align_down_le [of rva page] align_up_ge [OF assms(2), of "rva + n"] assms(3) by simp
  show "patch_range page img rva n = Some (align_down rva page, align_up (rva + n) page)"
    using le by (simp add: patch_range_def Let_def)
qed

text \<open>The successful case of \<open>write_image_bytes\<close>, and the three ways it can fail.\<close>

lemma write_image_bytes_cases:
  assumes "write_image_bytes os page img rva data = (st, img')" "wf_image page img" "0 < page"
  obtains (invalid) "st = InvalidAddress" "img' = img"
  | (locked) "st = MprotectFailed" "img' = img"
  | (patched) mem d perms prots where
      "memory img = Some mem" "data = Some d" "0 < length d" "rva + length d \<le> image_size img"
      "may_patch img rva (length d)"
      "perms = permissions_for_page (regions img) (align_down rva page)
         (align_up (rva + length d) page) (headers_size img)"
      "prots = (if st = PatchSuccess then to_prot perms else prots)"
      "st = PatchSuccess \<or> st = MprotectFailed \<and> (prots = PROT_RW \<or> prots = PROT_R)"
      "img' = img\<lparr>memory := Some (write_at mem rva d),
         page_prots := protect_pages page (align_down rva page)
           (align_up (rva + length d) page - align_down rva page) prots (page_prots img)\<rparr>"
proof -
  have twice: "protect_pages page a l p (protect_pages page a l q ps) = protect_pages page a l p ps"
    for a l p q ps by (simp add: protect_pages_def)
  from assms(2) obtain mem where mem: "memory img = Some mem" by (auto simp: wf_image_def)
  show thesis
  proof (cases data)
    case None
    with assms(1) mem show ?thesis by (intro invalid) (auto simp: write_image_bytes_def)
  next
    case (Some d)
    let ?a = "align_down rva page"
    let ?b = "align_up (rva + length d) page"
    show ?thesis
    proof (cases "length d = 0 \<or> u64_max - length d < rva \<or> image_size img < rva + length d \<or>
        \<not> may_patch img rva (length d)")
      case True
      with assms(1) mem Some show ?thesis
        by (intro invalid) (auto simp: write_image_bytes_def split: if_split_asm)
    next
      case False
      then have ok: "0 < length d" "rva + length d \<le> image_size img" "may_patch img rva (length d)"
        by auto
      note range = patch_range_exact [OF assms(2,3) ok(1,2)]
      define perms where "perms = permissions_for_page (regions img) ?a ?b (headers_size img)"
      have res: "(st, img') =
          (case mprotect os page (base img) ?a (?b - ?a) PROT_RW (page_prots img) of
             None \<Rightarrow> (MprotectFailed, img)
           | Some prots \<Rightarrow>
               case mprotect os page (base img) ?a (?b - ?a) (to_prot perms) prots of
                 Some prots' \<Rightarrow>
                   (PatchSuccess, img\<lparr>memory := Some (write_at mem rva d), page_prots := prots'\<rparr>)
               | None \<Rightarrow>
                   (MprotectFailed, img\<lparr>memory := Some (write_at mem rva d), page_prots :=
                      (case mprotect os page (base img) ?a (?b - ?a) PROT_R prots of
                         None \<Rightarrow> prots | Some prots' \<Rightarrow> prots')\<rparr>))"
        using mem Some False range(1) unfolding assms(1) [symmetric]
        by (simp add: write_image_bytes_def Let_def perms_def cong: option.case_cong)
      show ?thesis
      proof (cases "mprotect os page (base img) ?a (?b - ?a) PROT_RW (page_prots img)")
        case None
        with res show ?thesis by (intro locked) simp_all
      next
        case first: (Some prots)
        show ?thesis
        proof (cases "mprotect os page (base img) ?a (?b - ?a) (to_prot perms) prots")
          case None
          have "\<exists>p. (p = PROT_RW \<or> p = PROT_R) \<and> img' = img\<lparr>memory := Some (write_at mem rva d),
              page_prots := protect_pages page ?a (?b - ?a) p (page_prots img)\<rparr> \<and> st = MprotectFailed"
            using res first None mprotect_Some [OF first]
            by (auto simp: mprotect_def twice split: if_split_asm)
          then show ?thesis using mem Some ok perms_def by (auto intro: patched)
        next
          case second: (Some prots')
          have "st = PatchSuccess" "img' = img\<lparr>memory := Some (write_at mem rva d),
              page_prots := protect_pages page ?a (?b - ?a) (to_prot perms) (page_prots img)\<rparr>"
            using res first second mprotect_Some [OF first] mprotect_Some [OF second]
            by (simp_all add: twice)
          then show ?thesis using mem Some ok perms_def by (intro patched) simp_all
        qed
      qed
    qed
  qed
qed

lemma wx_ok_protect_pages:
  assumes "\<forall>p \<in> set prots. wx_ok p" "wx_ok q"
  shows "\<forall>p \<in> set (protect_pages page a n q prots). wx_ok p"
  using assms by (auto simp: protect_pages_def)

lemma write_image_bytes_wf:
  assumes "write_image_bytes os page img rva data = (st, img')" "wf_image page img" "0 < page"
  shows "wf_image page img'"
  using assms
proof (cases rule: write_image_bytes_cases)
  case (patched mem d perms prots)
  have "wx_ok prots"
    using patched(6-8) permissions_for_page_never_rwx by (cases "st = PatchSuccess") auto
  then have "\<forall>p \<in> set (page_prots img'). wx_ok p"
    using assms(2) patched(9) wx_ok_protect_pages [of "page_prots img" prots]
    by (simp add: wf_image_def)
  then show ?thesis using assms(2) patched(1,4,9) by (simp add: wf_image_def)
qed (use assms in simp_all)

text \<open>A patch changes the bytes it is given and no others, in one region or in the headers.\<close>

definition patch_place :: "MappedImage \<Rightarrow> nat \<Rightarrow> nat \<Rightarrow> bool" where
  "patch_place img rva n \<longleftrightarrow> rva + n \<le> headers_size img \<or>
     (\<exists>r \<in> set (regions img). region_rva r \<le> rva \<and> rva + n \<le> region_rva r + region_size r)"

lemma may_patch_place: "may_patch img rva n \<Longrightarrow> patch_place img rva n"
  by (auto simp: may_patch_def patch_place_def dest: covering_region_Some)

lemma write_image_bytes_success:
  assumes "write_image_bytes os page img rva (Some d) = (PatchSuccess, img')"
    and "wf_image page img" "0 < page" "memory img = Some mem"
  shows "memory img' = Some (write_at mem rva d)" "rva + length d \<le> length mem" "0 < length d"
    "patch_place img rva (length d)" "regions img' = regions img" "headers_size img' = headers_size img"
    "image_size img' = image_size img" "base img' = base img"
  using assms(1-3)
  by (cases rule: write_image_bytes_cases; use assms(2,4) in \<open>auto simp: wf_image_def dest: may_patch_place\<close>)+

text \<open>A range that is in place is patched whenever the kernel agrees to change protections.\<close>

lemma write_image_bytes_total:
  assumes "wf_image page img" "0 < page" "patch_place img rva (length d)" "0 < length d"
    and "\<And>a n p. mprotect_ok os a n p" "image_size img \<le> u32_max"
  shows "\<exists>img'. write_image_bytes os page img rva (Some d) = (PatchSuccess, img')"
proof -
  from assms(1) obtain mem where mem: "memory img = Some mem" by (auto simp: wf_image_def)
  have le: "rva + length d \<le> image_size img"
    using assms(1,3) by (auto simp: patch_place_def wf_image_def)
  have "rva + length d \<le> headers_size img \<Longrightarrow> rva < headers_size img"
    by (rule less_le_trans [of _ "rva + length d"]) (use assms(4) in simp_all)
  then have may: "may_patch img rva (length d)"
    using assms(3) covering_region_None [of "regions img" rva "length d"]
    by (cases "covering_region (regions img) rva (length d)") (auto simp: patch_place_def may_patch_def)
  have "\<not> u64_max - length d < rva" using le assms(6) by simp
  then show ?thesis
    using patch_range_exact [OF assms(1,2,4) le] mem le may assms(4,5)
    by (simp add: write_image_bytes_def Let_def mprotect_def)
qed


text \<open>
  A region decides the pages it shares as a whole, so a page that only an executable region
  meets loses the right to execute when another page of that region is shared with a writable
  one. Here page 1 is such a page; \<open>effective_page_permissions\<close> still reports it executable.
\<close>

definition fused_example_info :: PeInfo where
  "fused_example_info = empty_info\<lparr>size_of_image := 8, size_of_headers := 2,
     sections := [\<lparr>sec_name = ''.text'', virtual_address = 2, virtual_size = 3, raw_data_pointer = 0,
                    raw_data_size = 0, characteristics = 0x60000000\<rparr>,
                  \<lparr>sec_name = ''.data'', virtual_address = 5, virtual_size = 3, raw_data_pointer = 0,
                    raw_data_size = 0, characteristics = 0xC0000000\<rparr>]\<rparr>"

definition willing_os :: Os where
  "willing_os = \<lparr>mmap_at = (\<lambda>a n. Some a), mmap_any = (\<lambda>n. Some 0x10000), mprotect_ok = (\<lambda>a n p. True)\<rparr>"

lemma replicate_small: "replicate 1 x = [x]" "replicate 2 x = [x, x]" "replicate 3 x = [x, x, x]" "replicate 4 x = [x, x, x, x]"
  "replicate 8 x = [x, x, x, x, x, x, x, x]"
  by (simp_all add: eval_nat_numeral)

lemmas map_image_eval =
  map_image_def image_regions_def region_step_def section_region_def section_span_def section_end_def
  section_permissions_def scn_consts kMaxSizeOfImage_def align_up_def align_down_def regions_overlap_def
  reserve_def image_delta_def relocate_image_def load_image_def copy_region_def write_at_def
  protect_image_def mprotect_def protect_pages_def protect_region_def protect_headers_def
  permissions_for_page_def permissions_of_flags_def page_flags_step_def willing_os_def Let_def
  replicate_small

lemma fused_example_mapped:
  "map_image willing_os 2 fused_example_info [] 0x400000 = Inr
     \<lparr>preferred_base = 0x400000, base = 0x400000, image_size = 8, headers_size = 2,
      memory = Some [0, 0, 0, 0, 0, 0, 0, 0],
      page_prots = [PROT_R, PROT_RW, PROT_RW, PROT_RW], delta = 0,
      has_relocation_directory = False, applied_relocations = 0,
      regions = [\<lparr>region_name = ''.text'', region_rva = 2, region_size = 3, region_raw_pointer = 0,
                   region_raw_size = 0, permissions = ReadExecute\<rparr>,
                 \<lparr>region_name = ''.data'', region_rva = 5, region_size = 3, region_raw_pointer = 0,
                   region_raw_size = 0, permissions = ReadWrite\<rparr>]\<rparr>"
  by (simp add: map_image_eval fused_example_info_def empty_info_def upt_rec)

lemma fused_protection:
  "\<exists>img. map_image willing_os 2 fused_example_info [] 0x400000 = Inr img \<and>
     page_prots img ! 1 = PROT_RW \<and> effective_page_permissions 2 img 2 = ReadExecute"
  unfolding fused_example_mapped
  by (simp add: effective_page_permissions_def permissions_for_page_def permissions_of_flags_def
      page_flags_step_def align_down_def align_up_def)

subsection \<open>Properties\<close>

text \<open>
  Patching a well-formed image leaves it well-formed, whatever the kernel answers: the memory
  keeps its size, the sections their places, and no page becomes both writable and executable. A
  patch that succeeds lies in one section or in the headers and stores exactly its bytes.
\<close>

theorem patched_image_wf:
  assumes "write_image_bytes os page img rva (Some d) = (st, img')" "wf_image page img" "0 < page"
    and "memory img = Some mem"
  shows "wf_image page img' \<and>
    (st = PatchSuccess \<longrightarrow> memory img' = Some (write_at mem rva d) \<and> patch_place img rva (length d) \<and>
       rva + length d \<le> length mem)"
proof -
  have "memory img' = Some (write_at mem rva d) \<and> patch_place img rva (length d) \<and> rva + length d \<le> length mem"
    if "st = PatchSuccess"
    using write_image_bytes_success [OF assms(1) [unfolded that] assms(2-4)] by blast
  then show ?thesis using write_image_bytes_wf [OF assms(1-3)] by blast
qed

definition tiny_image :: MappedImage where
  "tiny_image = \<lparr>preferred_base = 0, base = 0x10000, image_size = 2, headers_size = 1, memory = Some [7, 8],
     page_prots = [PROT_R, PROT_RW], delta = 0, has_relocation_directory = False,
     applied_relocations = 0,
     regions = [\<lparr>region_name = ''.data'', region_rva = 1, region_size = 1, region_raw_pointer = 0,
                  region_raw_size = 0, permissions = ReadWrite\<rparr>]\<rparr>"

lemma tiny_image_wf: "wf_image 1 tiny_image"
  by (simp add: wf_image_def tiny_image_def)

lemma tiny_image_patched:
  "write_image_bytes willing_os 1 tiny_image 1 (Some [9]) = (PatchSuccess, tiny_image\<lparr>memory := Some [7, 9]\<rparr>)"
  by (simp add: write_image_bytes_def tiny_image_def may_patch_def patch_range_def align_down_def align_up_def
      mprotect_def willing_os_def permissions_for_page_def permissions_of_flags_def page_flags_step_def
      protect_pages_def write_at_def upt_rec)

theorem patched_image_wf_witness: "wf_image 1 (tiny_image\<lparr>memory := Some [7, 9]\<rparr>)"
proof -
  have "memory tiny_image = Some [7, 8]" by (simp add: tiny_image_def)
  from patched_image_wf [OF tiny_image_patched tiny_image_wf zero_less_one this] show ?thesis by blast
qed

text \<open>
  A patch inside the headers or inside one section succeeds on a kernel that grants every
  protection.
\<close>

theorem patch_succeeds:
  assumes "wf_image page img" "0 < page" "patch_place img rva (length d)" "0 < length d"
    and "mprotect_ok os = (\<lambda>a n p. True)" "image_size img \<le> u32_max"
  shows "\<exists>img'. write_image_bytes os page img rva (Some d) = (PatchSuccess, img')"
  by (rule write_image_bytes_total [OF assms(1-4) _ assms(6)]) (simp add: assms(5))

theorem patch_succeeds_witness: "\<exists>img'. write_image_bytes willing_os 1 tiny_image 0 (Some [5]) = (PatchSuccess, img')"
  by (rule patch_succeeds [OF tiny_image_wf]) (simp_all add: patch_place_def tiny_image_def willing_os_def)

end
