(* ===== verification/Image_Contents.thy ===== *)
theory Image_Contents
  imports Pe_Parser Image_Mapper
begin

text \<open>
  The reader and the mapper together: what the memory of a mapped image holds, in terms of the
  file the reader accepted. The reader finds the bytes at an address through
  \<open>rva_to_file_offset\<close>, the mapper copies headers and sections; the lemmas show that they mean
  the same bytes, and that the relocations the mapper applies are the ones the reader listed.
\<close>

text \<open>A range of the file the reader can address is loaded at that address.\<close>

lemma section_region_of:
  assumes "image_regions page info = Inr rs" "0 < page" "s \<in> set (sections info)" "section_span s \<noteq> 0"
  shows "section_region s \<in> set rs"
  using image_regions_Inr(2) [OF assms(1,2)] assms(3,4) by auto

lemma loaded_file_bytes:
  assumes "image_regions page info = Inr rs" "0 < page" "size_of_image info \<le> u32_max"
    and "rva_to_file_offset bs info rva len = Some off" "k < len"
  shows "rva + k < align_up (size_of_image info) page"
    and "load_image info bs rs (align_up (size_of_image info) page) ! (rva + k) = bs ! (off + k)"
proof -
  note reg = image_regions_Inr [OF assms(1,2)]
  let ?n = "align_up (size_of_image info) page"
  note load = load_image_spec [OF reg(1,3,6)]
  note bound = rva_to_file_offset_bound [OF assms(4)]
  have "rva + k < ?n \<and> image_byte info bs rs (rva + k) = bs ! (off + k)"
    using assms(4)
  proof (cases rule: rva_to_file_offset_cases)
    case headers
    have "find (\<lambda>r. region_has r (rva + k)) rs = None"
      using reg(1) headers assms(5)
      by (force simp: find_None_iff wf_regions_def region_in_image_def region_has_def)
    then have "image_byte info bs rs (rva + k) = bs ! (off + k)"
      using headers assms(5) bound by (simp add: image_byte_def)
    then show ?thesis using headers assms(5) reg(3,6) by simp
  next
    case (in_section s)
    let ?r = "section_region s" and ?j = "rva - virtual_address s + k"
    have "section_span s \<noteq> 0" using in_section by (auto simp: section_end_def)
    then have r: "?r \<in> set rs" by (rule section_region_of [OF assms(1,2) in_section(1)])
    then have ok: "region_in_image info ?r" using reg(1) by (simp add: wf_regions_def)
    have j: "?j < region_raw_size ?r" using in_section(5) assms(5) by (simp add: section_region_def)
    then have "image_byte info bs rs (region_rva ?r + ?j) = region_byte bs ?r ?j"
      using ok by (intro image_byte_in [OF reg(1) r]) (simp add: region_in_image_def)
    moreover have "region_rva ?r + ?j = rva + k" "region_raw_pointer ?r + ?j = off + k"
      using in_section(2,4) by (simp_all add: section_region_def)
    moreover have "off + k < length bs" using bound assms(5) by simp
    ultimately have "image_byte info bs rs (rva + k) = bs ! (off + k)" using j by (simp add: region_byte_def)
    moreover have "rva + k < size_of_image info"
      using j ok \<open>region_rva ?r + ?j = rva + k\<close> by (simp add: region_in_image_def)
    ultimately show ?thesis using reg(3) by simp
  qed
  then show "rva + k < ?n" "load_image info bs rs ?n ! (rva + k) = bs ! (off + k)"
    using load(2) by simp_all
qed

text \<open>Without displacement, or in the headers, the memory is what was loaded.\<close>

definition unmoved :: "MappedImage \<Rightarrow> u32 \<Rightarrow> bool" where
  "unmoved img i \<longleftrightarrow> delta img = 0 \<or> regions img \<noteq> [] \<and> \<not> in_some_region (regions img) i"

lemma mapped_loaded:
  assumes "map_image os page info bs opt = Inr img" "0 < page" "memory img = Some mem"
    and "i < image_size img" "unmoved img i"
  shows "mem ! i = image_byte info bs (regions img) i"
  using map_image_memory [OF assms(1,2)] assms(3-5) by (auto simp: unmoved_def)

lemma mapped_layout:
  assumes "map_image os page info bs opt = Inr img" "0 < page"
  shows "image_regions page info = Inr (regions img)" "image_size img = align_up (size_of_image info) page"
  using assms(1) by (auto elim: map_image_steps)

lemma mapped_file_bytes:
  assumes "map_image os page info bs opt = Inr img" "0 < page" "size_of_image info \<le> u32_max"
    and "memory img = Some mem" "rva_to_file_offset bs info rva len = Some off" "k < len"
    and "unmoved img (rva + k)"
  shows "rva + k < image_size img \<and> mem ! (rva + k) = bs ! (off + k)"
proof -
  note lay = mapped_layout [OF assms(1,2)]
  note ld = loaded_file_bytes [OF lay(1) assms(2,3,5,6)]
  note reg = image_regions_Inr [OF lay(1) assms(2)]
  have "mem ! (rva + k) = image_byte info bs (regions img) (rva + k)"
    by (rule mapped_loaded [OF assms(1,2,4) _ assms(7)]) (use ld(1) lay(2) in simp)
  also have "\<dots> = bs ! (off + k)"
    using ld load_image_spec(2) [OF reg(1,3,6) ld(1)] by simp
  finally show ?thesis using ld(1) lay(2) by simp
qed

text \<open>The relocations applied in place are the blocks the reader listed.\<close>

definition relocations_safe :: "PeInfo \<Rightarrow> MappedImage \<Rightarrow> bool" where
  "relocations_safe info img \<longleftrightarrow> relocations info \<noteq> [] \<and> known_types (relocations info) \<and>
     (\<forall>t \<in> set (reloc_targets (relocations info)).
        safe_target (regions img) (image_size img) (relocation_directory_rva info)
          (relocation_directory_size info) t)"

lemma mapped_relocations:
  assumes "map_image os page info bs opt = Inr img" "0 < page" "size_of_image info \<le> u32_max"
    and "wf_directories bs info" "delta img \<noteq> 0" "relocations_safe info img"
  shows "memory img = Some (relocate_all (delta img) (reloc_targets (relocations info))
      (load_image info bs (regions img) (image_size img)))"
    "applied_relocations img = length (reloc_targets (relocations info))"
proof -
  let ?rva = "relocation_directory_rva info" and ?sz = "relocation_directory_size info"
  let ?n = "align_up (size_of_image info) page"
  from assms(1) obtain rs address mem applied prots where
    rs: "image_regions page info = Inr rs" and
    rel: "relocate_image info rs (delta img) (load_image info bs rs ?n) = Inr (mem, applied)" and
    img: "memory img = Some mem" "applied_relocations img = applied" "regions img = rs" "image_size img = ?n"
    by (auto elim: map_image_steps)
  let ?m = "load_image info bs rs ?n"
  note reg = image_regions_Inr [OF rs assms(2)]
  have len: "length ?m = ?n" by (rule load_image_spec(1) [OF reg(1,3,6)])
  from assms(4,6) obtain dir where dir: "rva_to_file_offset bs info ?rva ?sz = Some dir"
    and blocks: "reloc_blocks bs dir ?sz 0 0 [] = Inr (relocations info, ?sz)"
    by (auto simp: wf_directories_def relocations_safe_def reloc_source_def)
  from relocate_image_Inr [OF rel] assms(5)
  have ap: "apply_relocations ?m ?rva ?sz (delta img) rs = Inr (mem, applied)" and sz: "0 < ?sz" by auto
  have at: "?rva + k < ?n \<and> ?m ! (?rva + k) = bs ! (dir + k)" if "k < ?sz" for k
    using loaded_file_bytes [OF rs assms(2,3) dir that] by simp
  have "?rva + (?sz - 1) < ?n" using at [of "?sz - 1"] sz by simp
  then have fits: "?rva + ?sz \<le> length ?m" using sz unfolding len by linarith
  have "reloc_blocks ?m ?rva ?sz 0 0 [] = reloc_blocks bs dir ?sz 0 0 []"
    by (rule reloc_blocks_cong) (use at fits rva_to_file_offset_bound [OF dir] in auto)
  with blocks have "reloc_blocks ?m ?rva ?sz 0 0 [] = Inr (relocations info, ?sz)" by simp
  then have "apply_relocations ?m ?rva ?sz (delta img) rs =
      Inr (relocate_all (delta img) (reloc_targets (relocations info)) ?m,
           length (reloc_targets (relocations info)))"
    by (rule apply_relocations_eq)
      (use sz fits assms(6) img in \<open>simp_all add: relocations_safe_def len\<close>)
  with ap show "memory img = Some (relocate_all (delta img) (reloc_targets (relocations info))
      (load_image info bs (regions img) (image_size img)))"
    "applied_relocations img = length (reloc_targets (relocations info))"
    using img by simp_all
qed

text \<open>When an image the reader accepts can be mapped.\<close>

definition disjoint_sections :: "PeInfo \<Rightarrow> bool" where
  "disjoint_sections info \<longleftrightarrow>
     \<not> some_overlap (map section_region (filter (\<lambda>s. section_span s \<noteq> 0) (sections info)))"

definition reloc_consistent :: "PeInfo \<Rightarrow> bool" where
  "reloc_consistent info \<longleftrightarrow>
     (relocation_directory_rva info = 0 \<longleftrightarrow> relocation_directory_size info = 0)"

lemma region_steps_total:
  "\<forall>s \<in> set ss. wf_section bs info s \<Longrightarrow>
     foldE (region_step info) ss acc = Inr (acc @ map section_region (filter (\<lambda>s. section_span s \<noteq> 0) ss))"
  by (induction ss arbitrary: acc) (auto simp: region_step_def wf_section_def)

lemma image_regions_total:
  assumes "wf_headers bs info" "0 < page"
  shows "(\<exists>rs. image_regions page info = Inr rs) \<longleftrightarrow>
    align_up (size_of_image info) page \<le> kMaxSizeOfImage \<and> disjoint_sections info"
proof -
  have "size_of_image info \<le> align_up (size_of_image info) page"
    by (rule align_up_ge [OF assms(2)])
  moreover have "0 < size_of_image info" using assms(1) by (auto simp: wf_headers_def)
  moreover have "foldE (region_step info) (sections info) [] =
      Inr (map section_region (filter (\<lambda>s. section_span s \<noteq> 0) (sections info)))"
    using region_steps_total [of "sections info" bs info "[]"] assms(1) by (simp add: wf_headers_def)
  ultimately show ?thesis
    using assms(1)
    by (auto simp: image_regions_def Let_def disjoint_sections_def wf_headers_def map_fail_def)
qed

lemma protect_image_total:
  assumes "\<And>a n p. mprotect_ok os a n p"
  shows "\<exists>prots'. protect_image os page address n headers rs prots = Inr prots'"
proof -
  have "\<exists>prots'. foldE (protect_region os page address n headers rs) xs prots = Inr prots'" for xs prots
    by (induction xs arbitrary: prots) (auto simp: protect_region_def mprotect_def assms Let_def)
  then obtain prots2 where
    "foldE (protect_region os page address n headers rs) rs (protect_pages page 0 n PROT_NONE prots) = Inr prots2"
    by blast
  then show ?thesis
    by (simp add: protect_image_def mprotect_def assms protect_headers_def Let_def)
qed

lemma map_image_total:
  assumes "wf_headers bs info" "0 < page" "image_base info \<noteq> 0"
    and "mmap_at os (image_base info) (align_up (size_of_image info) page) = Some (image_base info)"
    and "\<And>a n p. mprotect_ok os a n p"
  shows "(\<exists>img. map_image os page info bs 0 = Inr img) \<longleftrightarrow>
    align_up (size_of_image info) page \<le> kMaxSizeOfImage \<and> disjoint_sections info \<and> reloc_consistent info"
proof (cases "\<exists>rs. image_regions page info = Inr rs")
  case True
  then obtain rs where rs: "image_regions page info = Inr rs" by blast
  have res: "reserve os (image_base info) (align_up (size_of_image info) page) = Some (image_base info)"
    using assms(3,4) by (simp add: reserve_def)
  obtain prots where "protect_image os page (image_base info) (align_up (size_of_image info) page)
      (size_of_headers info) rs (replicate (align_up (size_of_image info) page div page) PROT_RW) = Inr prots"
    using protect_image_total [OF assms(5)] by blast
  then have "(\<exists>img. map_image os page info bs 0 = Inr img) \<longleftrightarrow> reloc_consistent info"
    using rs res by (simp add: map_image_def image_delta_def relocate_image_def reloc_consistent_def map_fail_def Let_def)
  then show ?thesis using image_regions_total [OF assms(1,2)] True by simp
next
  case False
  then have "\<exists>e. image_regions page info = Inl e" by (cases "image_regions page info") auto
  then have "\<not> (\<exists>img. map_image os page info bs 0 = Inr img)" by (auto simp: map_image_def)
  then show ?thesis using image_regions_total [OF assms(1,2)] False by blast
qed

end
