(* ===== verification/Sample_Image.thy ===== *)
theory Sample_Image
  imports Pe_Parser Image_Mapper
begin

text \<open>
  A complete image file of 356 bytes on which the witnesses of the properties are evaluated: the
  headers, a code section whose first word is an absolute address, and a relocation directory
  with one entry for it. Pages of 16 bytes keep the mapped image small.
\<close>

definition sample_file :: bytes where
  "sample_file =
    [0x4d, 0x5a, 0, 0, 0, 0, 0, 0, 0, 0, 0, 0, 0, 0, 0, 0, 0, 0, 0, 0,
     0, 0, 0, 0, 0, 0, 0, 0, 0, 0, 0, 0, 0, 0, 0, 0, 0, 0, 0, 0,
     0, 0, 0, 0, 0, 0, 0, 0, 0, 0, 0, 0, 0, 0, 0, 0, 0, 0, 0, 0,
     0x40, 0, 0, 0, 0x50, 0x45, 0, 0, 0x64, 0x86, 2, 0, 0, 0, 0, 0, 0, 0, 0, 0,
     0, 0, 0, 0, 0xa0, 0, 0x22, 0, 0xb, 2, 0, 0, 0, 0, 0, 0, 0, 0, 0, 0,
     0, 0, 0, 0, 0x10, 0, 0, 0, 0, 0, 0, 0, 0, 0, 0x40, 0, 0, 0, 0, 0,
     0, 2, 0, 0, 0, 2, 0, 0, 0, 0, 0, 0, 0, 0, 0, 0, 0, 0, 0, 0,
     0, 0, 0, 0, 0x40, 0, 0, 0, 0x10, 0, 0, 0, 0, 0, 0, 0, 3, 0, 0, 0,
     0, 0, 0, 0, 0, 0, 0, 0, 0, 0, 0, 0, 0, 0, 0, 0, 0, 0, 0, 0,
     0, 0, 0, 0, 0, 0, 0, 0, 0, 0, 0, 0, 0, 0, 0, 0, 6, 0, 0, 0,
     0, 0, 0, 0, 0, 0, 0, 0, 0, 0, 0, 0, 0, 0, 0, 0, 0, 0, 0, 0,
     0, 0, 0, 0, 0, 0, 0, 0, 0, 0, 0, 0, 0, 0, 0, 0, 0, 0, 0, 0,
     0x20, 0, 0, 0, 0xc, 0, 0, 0, 0x2e, 0x74, 0x65, 0x78, 0x74, 0, 0, 0, 0x10, 0, 0, 0,
     0x10, 0, 0, 0, 0x10, 0, 0, 0, 0x48, 1, 0, 0, 0, 0, 0, 0, 0, 0, 0, 0,
     0, 0, 0, 0, 0x20, 0, 0, 0x60, 0x2e, 0x72, 0x65, 0x6c, 0x6f, 0x63, 0, 0, 0xc, 0, 0, 0,
     0x20, 0, 0, 0, 0xc, 0, 0, 0, 0x58, 1, 0, 0, 0, 0, 0, 0, 0, 0, 0, 0,
     0, 0, 0, 0, 0x40, 0, 0, 0x42, 0x10, 0, 0x40, 0, 0, 0, 0, 0, 0xc3, 0, 0, 0,
     0, 0, 0, 0, 0x10, 0, 0, 0, 0xc, 0, 0, 0, 0, 0xa0, 0, 0]"

lemma sample_length: "length sample_file = 356"
  by (simp add: sample_file_def)

lemma sample_16:
  "rd16 sample_file 0 = 0x5a4d" "rd16 sample_file 68 = 0x8664" "rd16 sample_file 70 = 2" "rd16 sample_file 84 = 0xa0"
   "rd16 sample_file 86 = 0x22" "rd16 sample_file 88 = 0x20b" "rd16 sample_file 156 = 3" "rd16 sample_file 352 = 0xa000"
   "rd16 sample_file 354 = 0"
  by (simp_all add: rd16_in sample_length le16_def byte_at_def, simp_all add: sample_file_def)

lemma sample_32:
  "rd32 sample_file 60 = 0x40" "rd32 sample_file 64 = 0x4550" "rd32 sample_file 104 = 0x10" "rd32 sample_file 120 = 0x200"
   "rd32 sample_file 124 = 0x200" "rd32 sample_file 144 = 0x40" "rd32 sample_file 148 = 0x10" "rd32 sample_file 196 = 6"
   "rd32 sample_file 200 = 0" "rd32 sample_file 204 = 0" "rd32 sample_file 208 = 0" "rd32 sample_file 212 = 0"
   "rd32 sample_file 216 = 0" "rd32 sample_file 220 = 0" "rd32 sample_file 224 = 0" "rd32 sample_file 228 = 0"
   "rd32 sample_file 232 = 0" "rd32 sample_file 236 = 0" "rd32 sample_file 240 = 0x20" "rd32 sample_file 244 = 0xc"
   "rd32 sample_file 256 = 0x10" "rd32 sample_file 260 = 0x10" "rd32 sample_file 264 = 0x10" "rd32 sample_file 268 = 0x148"
   "rd32 sample_file 284 = 0x60000020" "rd32 sample_file 296 = 0xc" "rd32 sample_file 300 = 0x20" "rd32 sample_file 304 = 0xc"
   "rd32 sample_file 308 = 0x158" "rd32 sample_file 324 = 0x42000040" "rd32 sample_file 344 = 0x10" "rd32 sample_file 348 = 0xc"
  
  by (simp_all add: rd32_in sample_length le32_def byte_at_def, simp_all add: sample_file_def)

lemma sample_64: "rd64 sample_file 112 = 0x400000"
  by (simp add: rd64_in sample_length le64_def byte_at_def, simp add: sample_file_def)

lemma sample_names: "section_name sample_file 248 = ''.text''" "section_name sample_file 288 = ''.reloc''"
  by (simp_all add: section_name_def read_bytes_def has_range_def sample_length, simp_all add: sample_file_def chars_of_def char_of_def bit_Suc_0_iff)

lemmas sample_values = sample_length sample_16 sample_32 sample_64 sample_names

lemma sample_nt: "check_nt_headers sample_file = None"
  by (simp add: check_nt_headers_def eval_simps sample_values has_range_def)

definition sample_info :: PeInfo where
  "sample_info = empty_info
     \<lparr>is_pe32_plus := True, is_dll := False, machine := 0x8664, number_of_sections := 2,
      address_of_entry_point := 16, image_base := 0x400000, section_alignment := 512,
      size_of_image := 64, size_of_headers := 16, subsystem := 3,
      relocation_directory_rva := 32, relocation_directory_size := 12,
      sections := [\<lparr>sec_name = ''.text'', virtual_address = 16, virtual_size = 16, raw_data_pointer = 328,
                     raw_data_size = 16, characteristics = 0x60000020\<rparr>,
                   \<lparr>sec_name = ''.reloc'', virtual_address = 32, virtual_size = 12, raw_data_pointer = 344,
                     raw_data_size = 12, characteristics = 0x42000040\<rparr>],
      relocations := [\<lparr>page_rva = 16, rel_entries = [\<lparr>rel_type = 10, rel_offset = 0\<rparr>, \<lparr>rel_type = 0, rel_offset = 0\<rparr>]\<rparr>]\<rparr>"

lemma sample_headers: "parse_headers sample_file = Inr (sample_info\<lparr>relocations := []\<rparr>)"
  by (simp add: parse_headers_def sample_nt check_coff_headers_def check_optional_header_def
      read_optional_header_def is_power_of_two_def directory_count_def read_sections_def section_step_def
      read_section_def check_section_def section_span_def section_end_def read_directories_def
      read_directory_def eval_simps sample_values sample_info_def empty_info_def Let_def upt_rec)

lemma sample_parsed: "parse_pe sample_file = Inr (sample_info, [])"
  by (simp add: parse_pe_def sample_headers parse_directories_def parse_exports_def parse_imports_def
      parse_delay_imports_def parse_runtime_functions_def parse_tls_directory_def parse_relocations_def
      rva_to_file_offset_def section_file_offset.simps section_span_def section_end_def reloc_blocks.simps
      reloc_block_def reloc_entry_def to_u16_def
      eval_simps sample_values sample_info_def empty_info_def Let_def upt_rec)

text \<open>
  The sample mapped: at its preferred base, and at another address because the preferred one is
  taken. The second image has its one absolute address moved.
\<close>

definition moving_os :: Os where
  "moving_os = \<lparr>mmap_at = (\<lambda>a n. None), mmap_any = (\<lambda>n. Some 0x10000), mprotect_ok = (\<lambda>a n p. True)\<rparr>"

definition sample_regions :: "MapRegion list" where
  "sample_regions =
     [\<lparr>region_name = ''.text'', region_rva = 16, region_size = 16, region_raw_pointer = 328,
       region_raw_size = 16, permissions = ReadExecute\<rparr>,
      \<lparr>region_name = ''.reloc'', region_rva = 32, region_size = 12, region_raw_pointer = 344,
       region_raw_size = 12, permissions = ReadOnly\<rparr>]"

lemma sample_image_regions: "image_regions 16 sample_info = Inr sample_regions"
  by (simp add: sample_info_def sample_regions_def empty_info_def map_image_eval)

definition sample_memory :: bytes where
  "sample_memory =
     [77, 90, 0, 0, 0, 0, 0, 0, 0, 0, 0, 0, 0, 0, 0, 0,
      16, 0, 64, 0, 0, 0, 0, 0, 195, 0, 0, 0, 0, 0, 0, 0,
      16, 0, 0, 0, 12, 0, 0, 0, 0, 160, 0, 0, 0, 0, 0, 0,
      0, 0, 0, 0, 0, 0, 0, 0, 0, 0, 0, 0, 0, 0, 0, 0]"

lemma sample_loaded: "load_image sample_info sample_file sample_regions 64 = sample_memory"
  by (simp add: load_image_def sample_regions_def copy_region_def write_at_def sample_length sample_info_def)
    (simp add: sample_file_def sample_memory_def numeral_eq_Suc)

definition sample_image :: "u64 \<Rightarrow> 64 word \<Rightarrow> bytes \<Rightarrow> nat \<Rightarrow> MappedImage" where
  "sample_image address d mem applied =
     \<lparr>preferred_base = 0x400000, base = address, image_size = 64, headers_size = 16, memory = Some mem,
      page_prots = [PROT_R, PROT_RX, PROT_R, PROT_NONE], delta = d, has_relocation_directory = True,
      applied_relocations = applied, regions = sample_regions\<rparr>"

lemma sample_protected:
  "mprotect_ok os = (\<lambda>a n p. True) \<Longrightarrow>
   protect_image os 16 address 64 16 sample_regions (replicate 4 PROT_RW) = Inr [PROT_R, PROT_RX, PROT_R, PROT_NONE]"
  by (simp add: protect_image_def mprotect_def protect_pages_def protect_region_def protect_headers_def
      permissions_for_page_def permissions_of_flags_def page_flags_step_def sample_regions_def
      align_up_def align_down_def replicate_small upt_rec Let_def)

lemma sample_fields: "size_of_image sample_info = 64" "size_of_headers sample_info = 16"
  "image_base sample_info = 0x400000" "relocation_directory_rva sample_info = 32"
  "relocation_directory_size sample_info = 12"
  by (simp_all add: sample_info_def)

lemma sample_mapped: "map_image willing_os 16 sample_info sample_file 0 = Inr (sample_image 0x400000 0 sample_memory 0)"
  by (simp add: map_image_def sample_image_regions sample_fields reserve_def relocate_image_def
      willing_os_def sample_loaded align_up_def image_delta_def sample_protected sample_image_def)

definition moved_memory :: bytes where "moved_memory = sample_memory[18 := 1]"

lemma moved_memory_bytes: "moved_memory =
     [77, 90, 0, 0, 0, 0, 0, 0, 0, 0, 0, 0, 0, 0, 0, 0,
      16, 0, 1, 0, 0, 0, 0, 0, 195, 0, 0, 0, 0, 0, 0, 0,
      16, 0, 0, 0, 12, 0, 0, 0, 0, 160, 0, 0, 0, 0, 0, 0,
      0, 0, 0, 0, 0, 0, 0, 0, 0, 0, 0, 0, 0, 0, 0, 0]"
  by (simp add: moved_memory_def sample_memory_def)

lemma memory_length: "length sample_memory = 64" "length moved_memory = 64"
  by (simp_all add: moved_memory_def sample_memory_def)

lemma memory_reads:
  "read_u32 sample_memory 32 = Some 16" "read_u32 sample_memory 36 = Some 12"
  "read_u16 sample_memory 40 = Some 0xA000" "read_u16 moved_memory 42 = Some 0"
  "read_u64 sample_memory 16 = Some 0x400010"
  by (simp_all add: read_u16_Some read_u32_Some read_u64_Some memory_length)
    (simp_all add: le16_def le32_def le64_def byte_at_def sample_memory_def moved_memory_bytes)

lemma memory_write: "write_le_u64 sample_memory 16 0x10010 = moved_memory"
  by (simp add: write_le_u64_def upt_rec and_255) (simp add: sample_memory_def moved_memory_bytes)

lemma sample_relocated: "apply_relocations sample_memory 32 12 (- 0x3F0000) sample_regions = Inr (moved_memory, 1)"
  by (simp add: apply_relocations_def apply_blocks.simps block_header_def read_le_eq_read memory_length
      memory_reads eval_simps kMaxRelocBlocks_def apply_entry_def to_u16_def patchable_target_def
      sample_regions_def upt_rec memory_write)

lemma sample_moved: "map_image moving_os 16 sample_info sample_file 0 =
  Inr (sample_image 0x10000 (0x10000 - 0x400000) moved_memory 1)"
  by (simp add: map_image_def sample_image_regions sample_fields reserve_def relocate_image_def
      moving_os_def sample_loaded align_up_def image_delta_def sample_relocated sample_protected sample_image_def)

end
