(* ===== verification/Image_Patcher.thy ===== *)
theory Image_Patcher
  imports Image_Mapper
begin

text \<open>
  The contract between the image mapper and those who patch a mapped image: a patch changes at
  most the bytes it is given and keeps the image well-formed, and a patch that succeeds stores
  its bytes. The import resolver fills the import address tables through it.
\<close>

locale image_patcher =
  fixes patch :: "'img \<Rightarrow> u32 \<Rightarrow> bytes \<Rightarrow> bool \<times> 'img"
    and bytes_of :: "'img \<Rightarrow> bytes"
    and good :: "'img \<Rightarrow> bool"
  assumes patch_good: "good img \<Longrightarrow> good (snd (patch img rva d))"
    and patch_length: "good img \<Longrightarrow> length (bytes_of (snd (patch img rva d))) = length (bytes_of img)"
    and patch_other: "good img \<Longrightarrow> i < length (bytes_of img) \<Longrightarrow> i < rva \<or> rva + length d \<le> i \<Longrightarrow>
      bytes_of (snd (patch img rva d)) ! i = bytes_of img ! i"
    and patch_stores: "good img \<Longrightarrow> fst (patch img rva d) \<Longrightarrow>
      rva + length d \<le> length (bytes_of img) \<and>
      (\<forall>k < length d. bytes_of (snd (patch img rva d)) ! (rva + k) = d ! k)"
begin

text \<open>A list of patches, and the outcome of each.\<close>

fun patch_all :: "(u32 \<times> bytes) list \<Rightarrow> 'img \<Rightarrow> bool list \<times> 'img" where
  "patch_all [] img = ([], img)"
| "patch_all ((rva, d) # ps) img =
     (let (ok, img') = patch img rva d; (oks, img'') = patch_all ps img' in (ok # oks, img''))"

lemma patch_all_Cons:
  "patch_all ((rva, d) # ps) img =
     (fst (patch img rva d) # fst (patch_all ps (snd (patch img rva d))),
      snd (patch_all ps (snd (patch img rva d))))"
  by (simp add: split_beta Let_def)

declare patch_all.simps(2) [simp del]

lemma length_patch_all [simp]: "length (fst (patch_all ps img)) = length ps"
  by (induction ps arbitrary: img) (auto simp: patch_all_Cons)

lemma patch_all_good: "good img \<Longrightarrow> good (snd (patch_all ps img))"
  by (induction ps arbitrary: img) (auto simp: patch_all_Cons patch_good)

lemma patch_all_length:
  "good img \<Longrightarrow> length (bytes_of (snd (patch_all ps img))) = length (bytes_of img)"
  by (induction ps arbitrary: img) (auto simp: patch_all_Cons patch_good patch_length)

lemma patch_all_other:
  "good img \<Longrightarrow> i < length (bytes_of img) \<Longrightarrow> \<forall>(rva, d) \<in> set ps. i < rva \<or> rva + length d \<le> i \<Longrightarrow>
     bytes_of (snd (patch_all ps img)) ! i = bytes_of img ! i"
  by (induction ps arbitrary: img) (auto simp: patch_all_Cons patch_good patch_length patch_other)

text \<open>Patches of separate places do not disturb each other.\<close>

definition apart :: "(u32 \<times> bytes) list \<Rightarrow> bool" where
  "apart ps \<longleftrightarrow> sorted_wrt (\<lambda>(a, d) (b, e). a + length d \<le> b \<or> b + length e \<le> a) ps"

lemma apart_Cons:
  "apart ((a, d) # ps) \<longleftrightarrow> (\<forall>(b, e) \<in> set ps. a + length d \<le> b \<or> b + length e \<le> a) \<and> apart ps"
  by (auto simp: apart_def)

lemma patch_all_stores:
  assumes "good img" "apart ps" "j < length ps" "fst (patch_all ps img) ! j" "ps ! j = (rva, d)"
    and "k < length d"
  shows "rva + k < length (bytes_of img) \<and> bytes_of (snd (patch_all ps img)) ! (rva + k) = d ! k"
  using assms
proof (induction ps arbitrary: img j)
  case Nil
  then show ?case by simp
next
  case (Cons p ps)
  obtain a e where p: "p = (a, e)" by (cases p)
  let ?img = "snd (patch img a e)"
  have good: "good ?img" using Cons.prems(1) by (rule patch_good)
  show ?case
  proof (cases j)
    case (Suc j')
    have "rva + k < length (bytes_of ?img) \<and> bytes_of (snd (patch_all ps ?img)) ! (rva + k) = d ! k"
      by (rule Cons.IH [OF good]) (use Cons.prems Suc p in \<open>auto simp: apart_Cons patch_all_Cons\<close>)
    then show ?thesis using Cons.prems(1) p by (simp add: patch_all_Cons patch_length)
  next
    case 0
    with Cons.prems p have [simp]: "a = rva" "e = d" and ok: "fst (patch img rva d)"
      by (simp_all add: patch_all_Cons)
    have st: "rva + length d \<le> length (bytes_of img)" "bytes_of ?img ! (rva + k) = d ! k"
      using patch_stores [OF Cons.prems(1) ok] Cons.prems(6) by auto
    have "bytes_of (snd (patch_all ps ?img)) ! (rva + k) = bytes_of ?img ! (rva + k)"
    proof (rule patch_all_other [OF good])
      show "rva + k < length (bytes_of ?img)" using st Cons.prems(1,6) by (simp add: patch_length)
      show "\<forall>(b, f) \<in> set ps. rva + k < b \<or> b + length f \<le> rva + k"
        using Cons.prems(2,6) p by (force simp: apart_Cons)
    qed
    then show ?thesis using st p Cons.prems(6) by (simp add: patch_all_Cons)
  qed
qed

end

text \<open>The mapper keeps the contract.\<close>

definition patch_image :: "Os \<Rightarrow> nat \<Rightarrow> MappedImage \<Rightarrow> u32 \<Rightarrow> bytes \<Rightarrow> bool \<times> MappedImage" where
  "patch_image os page img rva d =
     (case write_image_bytes os page img rva (Some d) of (st, img') \<Rightarrow> (st = PatchSuccess, img'))"

definition image_bytes :: "MappedImage \<Rightarrow> bytes" where
  "image_bytes img = (case memory img of None \<Rightarrow> [] | Some mem \<Rightarrow> mem)"

definition good_image :: "nat \<Rightarrow> MappedImage \<Rightarrow> bool" where
  "good_image page img \<longleftrightarrow> 0 < page \<and> wf_image page img"

lemma patch_image_cases:
  assumes "good_image page img"
  shows "good_image page (snd (patch_image os page img rva d)) \<and>
    (image_bytes (snd (patch_image os page img rva d)) = image_bytes img \<and>
       \<not> fst (patch_image os page img rva d) \<or>
     rva + length d \<le> length (image_bytes img) \<and>
       image_bytes (snd (patch_image os page img rva d)) = write_at (image_bytes img) rva d)"
proof -
  obtain st img' where w: "write_image_bytes os page img rva (Some d) = (st, img')" by fastforce
  have p: "patch_image os page img rva d = (st = PatchSuccess, img')" by (simp add: patch_image_def w)
  from assms have wf: "wf_image page img" "0 < page" by (simp_all add: good_image_def)
  have "good_image page img'" using write_image_bytes_wf [OF w wf] wf by (simp add: good_image_def)
  moreover have "image_bytes img' = image_bytes img \<and> st \<noteq> PatchSuccess \<or>
     rva + length d \<le> length (image_bytes img) \<and> image_bytes img' = write_at (image_bytes img) rva d"
    using w wf by (cases rule: write_image_bytes_cases) (use wf in \<open>auto simp: image_bytes_def wf_image_def\<close>)
  ultimately show ?thesis by (simp add: p)
qed

interpretation patcher: image_patcher "patch_image os page" image_bytes "good_image page" for os page
proof unfold_locales
  fix img rva d i
  assume g: "good_image page img"
  note c = patch_image_cases [OF g, of os rva d]
  show "good_image page (snd (patch_image os page img rva d))" using c by simp
  show "length (image_bytes (snd (patch_image os page img rva d))) = length (image_bytes img)"
    using c by auto
  show "image_bytes (snd (patch_image os page img rva d)) ! i = image_bytes img ! i"
    if "i < length (image_bytes img)" "i < rva \<or> rva + length d \<le> i"
    using c that by (auto simp: nth_write_at)
  show "rva + length d \<le> length (image_bytes img) \<and>
      (\<forall>k < length d. image_bytes (snd (patch_image os page img rva d)) ! (rva + k) = d ! k)"
    if "fst (patch_image os page img rva d)"
    using c that by (auto simp: nth_write_at)
qed

end
