(* ===== verification/Basics.thy ===== *)
theory Basics
  imports Prelude
begin

text \<open>
  The string helpers of \<open>include/tradutorlinux/util/basics.hpp\<close>: hexadecimal numbers and
  comparison of ASCII text without regard to case. \<open>std::tolower\<close> is the one of the C locale.
\<close>

subsection \<open>Case-insensitive comparison\<close>

definition tolower :: "char \<Rightarrow> nat" where
  "tolower c = (let n = of_char c in if 65 \<le> n \<and> n \<le> 90 then n + 32 else n)"

fun same_chars :: "string \<Rightarrow> string \<Rightarrow> bool" where
  "same_chars [] bs = True"
| "same_chars (a # as) [] = True"
| "same_chars (a # as) (b # bs) = (if tolower a \<noteq> tolower b then False else same_chars as bs)"

definition ascii_iequals :: "string \<Rightarrow> string \<Rightarrow> bool" where
  "ascii_iequals a b = (if length a \<noteq> length b then False else same_chars a b)"

fun compare_common :: "string \<Rightarrow> string \<Rightarrow> int option" where
  "compare_common (a # as) (b # bs) =
     (if tolower a < tolower b then Some (-1)
      else if tolower b < tolower a then Some 1
      else compare_common as bs)"
| "compare_common _ _ = None"

definition ascii_case_insensitive_compare :: "string \<Rightarrow> string \<Rightarrow> int" where
  "ascii_case_insensitive_compare a b =
     (case compare_common a b of
        Some r \<Rightarrow> r
      | None \<Rightarrow> if length a < length b then -1 else if length b < length a then 1 else 0)"

abbreviation lowered :: "string \<Rightarrow> nat list" where
  "lowered s \<equiv> map tolower s"

lemma same_chars_iff: "length a = length b \<Longrightarrow> same_chars a b \<longleftrightarrow> lowered a = lowered b"
  by (induction a b rule: same_chars.induct) auto

lemma ascii_iequals_iff: "ascii_iequals a b \<longleftrightarrow> lowered a = lowered b"
  by (auto simp: ascii_iequals_def same_chars_iff dest: map_eq_imp_length_eq)

lemma ascii_iequals_refl [simp]: "ascii_iequals a a"
  by (simp add: ascii_iequals_iff)

lemma ascii_iequals_sym: "ascii_iequals a b \<longleftrightarrow> ascii_iequals b a"
  by (auto simp: ascii_iequals_iff)

text \<open>The comparison is the lexicographic order of the lower-case texts.\<close>

fun lex_less :: "nat list \<Rightarrow> nat list \<Rightarrow> bool" where
  "lex_less [] ys \<longleftrightarrow> ys \<noteq> []"
| "lex_less (x # xs) [] \<longleftrightarrow> False"
| "lex_less (x # xs) (y # ys) \<longleftrightarrow> x < y \<or> x = y \<and> lex_less xs ys"

lemma lex_less_irrefl: "\<not> lex_less xs xs"
  by (induction xs) auto

lemma lex_less_trans: "lex_less xs ys \<Longrightarrow> lex_less ys zs \<Longrightarrow> lex_less xs zs"
proof (induction xs ys arbitrary: zs rule: lex_less.induct)
  case (1 ys)
  then show ?case by (cases zs; cases ys) auto
next
  case (3 x xs y ys)
  then show ?case by (cases zs) auto
qed simp

lemma lex_less_linear: "lex_less xs ys \<or> xs = ys \<or> lex_less ys xs"
proof (induction xs ys rule: lex_less.induct)
  case (1 ys)
  then show ?case by (cases ys) auto
qed auto

lemma compare_cases:
  "ascii_case_insensitive_compare a b =
     (if lex_less (lowered a) (lowered b) then -1 else if lowered a = lowered b then 0 else 1)"
proof (induction a b rule: compare_common.induct)
  case (1 a as b bs)
  show ?case
  proof (cases "tolower a = tolower b")
    case True
    then have "ascii_case_insensitive_compare (a # as) (b # bs) = ascii_case_insensitive_compare as bs"
      by (simp add: ascii_case_insensitive_compare_def)
    with 1 True show ?thesis by simp
  next
    case False
    then show ?thesis by (auto simp: ascii_case_insensitive_compare_def)
  qed
qed (auto simp: ascii_case_insensitive_compare_def neq_Nil_conv split: list.splits)

lemma compare_props:
  "ascii_case_insensitive_compare a b \<in> {-1, 0, 1}"
  "ascii_case_insensitive_compare a b = 0 \<longleftrightarrow> ascii_iequals a b"
  "ascii_case_insensitive_compare b a = - ascii_case_insensitive_compare a b"
  using lex_less_linear [of "lowered a" "lowered b"] lex_less_irrefl lex_less_trans
  unfolding compare_cases ascii_iequals_iff by (auto split: if_split_asm)

subsection \<open>Hexadecimal numbers\<close>

definition kDigits :: string where "kDigits = ''0123456789abcdef''"

text \<open>The loop over the sixteen digits, from the highest; \<open>started\<close> drops leading zeros.\<close>

fun hex_loop :: "u64 \<Rightarrow> nat list \<Rightarrow> bool \<Rightarrow> string \<Rightarrow> string \<times> bool" where
  "hex_loop v [] started acc = (acc, started)"
| "hex_loop v (shift # shifts) started acc =
     (let digit = drop_bit shift v AND 0xF in
      if digit \<noteq> 0 \<or> started then hex_loop v shifts True (acc @ [kDigits ! digit])
      else hex_loop v shifts started acc)"

definition hex_shifts :: "nat list" where
  "hex_shifts = rev (map (\<lambda>i. 4 * i) [0..<16])"

definition format_hex :: "u64 \<Rightarrow> string" where
  "format_hex v =
     (case hex_loop v hex_shifts False ''0x'' of
        (result, started) \<Rightarrow> if started then result else result @ ''0'')"

definition format_signed_hex :: "int \<Rightarrow> string" where
  "format_signed_hex v =
     (if v < 0 then
        (let magnitude = (if v = - (2 ^ 63) then 0x8000000000000000 else nat (- v)) in
         CHR ''-'' # format_hex magnitude)
      else format_hex (nat v))"

text \<open>The value of a text of hexadecimal digits.\<close>

definition digit_value :: "char \<Rightarrow> nat" where
  "digit_value c = (let n = of_char c in if n \<le> 57 then n - 48 else n - 87)"

definition hex_value :: "string \<Rightarrow> nat" where
  "hex_value s = foldl (\<lambda>n c. n * 16 + digit_value c) 0 s"

lemma digit_value_kDigits: "d < 16 \<Longrightarrow> digit_value (kDigits ! d) = d"
proof -
  assume "d < 16"
  then have "d \<in> {0, 1, 2, 3, 4, 5, 6, 7, 8, 9, 10, 11, 12, 13, 14, 15}"
    unfolding insert_iff empty_iff by presburger
  then show ?thesis by (elim insertE emptyE) (simp_all add: kDigits_def digit_value_def)
qed

lemma and_15: "n AND 0xF = n mod (16::nat)"
proof -
  have "(15::nat) = mask 4" by (simp add: mask_eq_exp_minus_1)
  then have "n AND 15 = take_bit 4 n" by (simp only: take_bit_eq_mask)
  then show ?thesis by (simp add: take_bit_eq_mod)
qed

lemma hex_value_snoc [simp]: "hex_value (s @ [c]) = hex_value s * 16 + digit_value c"
  by (simp add: hex_value_def)

text \<open>
  After the digits above position \<open>k\<close>, the text has the value of the number without its low
  \<open>k\<close> digits, and it is empty exactly when that value is zero.
\<close>

lemma hex_loop_spec:
  assumes "acc = ''0x'' @ ds" "hex_value ds = v div 16 ^ k" "started \<longleftrightarrow> ds \<noteq> []"
    and "ds \<noteq> [] \<longrightarrow> hd ds \<noteq> CHR ''0''"
  shows "\<exists>ds'. hex_loop v (rev (map (\<lambda>i. 4 * i) [0..<k])) started acc = (''0x'' @ ds', ds' \<noteq> []) \<and>
    hex_value ds' = v \<and> (ds' \<noteq> [] \<longrightarrow> hd ds' \<noteq> CHR ''0'')"
  using assms
proof (induction k arbitrary: acc ds started)
  case 0
  then show ?case by simp
next
  case (Suc k)
  define digit where "digit = drop_bit (4 * k) v AND 0xF"
  have digit: "digit = v div 16 ^ k mod 16"
    by (simp add: digit_def and_15 drop_bit_eq_div power_mult)
  have d16: "digit < 16" by (simp add: digit)
  have split: "v div 16 ^ k = v div 16 ^ Suc k * 16 + digit"
    by (simp add: digit div_mult2_eq [symmetric] mult.commute)
      (metis div_mod_decomp div_mult2_eq mult.commute)
  show ?case
  proof (cases "digit \<noteq> 0 \<or> started")
    case True
    let ?ds = "ds @ [kDigits ! digit]"
    have hd: "hd ?ds \<noteq> CHR ''0''"
    proof (cases "ds = []")
      case False
      then show ?thesis using Suc.prems(4) by simp
    next
      case nil: True
      with True Suc.prems(3) have "digit \<noteq> 0" by simp
      then have "digit_value (kDigits ! digit) \<noteq> digit_value CHR ''0''"
        using digit_value_kDigits [OF d16] by (simp add: digit_value_def)
      then show ?thesis using nil by auto
    qed
    have "\<exists>ds'. hex_loop v (rev (map (\<lambda>i. 4 * i) [0..<k])) True (acc @ [kDigits ! digit]) =
        (''0x'' @ ds', ds' \<noteq> []) \<and> hex_value ds' = v \<and> (ds' \<noteq> [] \<longrightarrow> hd ds' \<noteq> CHR ''0'')"
      by (rule Suc.IH [of _ ?ds])
        (use Suc.prems hd split digit_value_kDigits [OF d16] in simp_all)
    then show ?thesis using True by (simp add: Let_def flip: digit_def)
  next
    case False
    have "\<exists>ds'. hex_loop v (rev (map (\<lambda>i. 4 * i) [0..<k])) started acc =
        (''0x'' @ ds', ds' \<noteq> []) \<and> hex_value ds' = v \<and> (ds' \<noteq> [] \<longrightarrow> hd ds' \<noteq> CHR ''0'')"
      by (rule Suc.IH [of _ ds]) (use Suc.prems False split in \<open>auto simp: hex_value_def\<close>)
    then show ?thesis using False by (simp add: Let_def flip: digit_def)
  qed
qed

lemma format_hex_spec:
  assumes "v \<le> u64_max"
  shows "\<exists>ds. format_hex v = ''0x'' @ ds \<and> hex_value ds = v \<and> ds \<noteq> [] \<and>
    (hd ds = CHR ''0'' \<longrightarrow> ds = ''0'')"
proof -
  have "v div 16 ^ 16 = 0" using assms by (intro div_less) simp
  then have "\<exists>ds'. hex_loop v hex_shifts False ''0x'' = (''0x'' @ ds', ds' \<noteq> []) \<and>
    hex_value ds' = v \<and> (ds' \<noteq> [] \<longrightarrow> hd ds' \<noteq> CHR ''0'')"
    unfolding hex_shifts_def by (intro hex_loop_spec [of _ "[]"]) (simp_all add: hex_value_def)
  then obtain ds where ds: "hex_loop v hex_shifts False ''0x'' = (''0x'' @ ds, ds \<noteq> [])"
    "hex_value ds = v" "ds \<noteq> [] \<longrightarrow> hd ds \<noteq> CHR ''0''" by blast
  show ?thesis
  proof (cases "ds = []")
    case True
    with ds show ?thesis
      by (intro exI [of _ "''0''"]) (simp add: format_hex_def hex_value_def digit_value_def)
  next
    case False
    with ds show ?thesis by (intro exI [of _ ds]) (simp add: format_hex_def)
  qed
qed

lemma format_hex_inj:
  assumes "v \<le> u64_max" "w \<le> u64_max" "format_hex v = format_hex w"
  shows "v = w"
  using format_hex_spec [OF assms(1)] format_hex_spec [OF assms(2)] assms(3) by auto

subsection \<open>Properties\<close>

text \<open>
  \<open>format_hex\<close> writes a 64-bit value so that it can be read back: after \<open>0x\<close> come the digits
  of the value, without leading zeros unless it is zero.
\<close>

theorem hex_text_value:
  assumes "v \<le> u64_max"
  shows "\<exists>ds. format_hex v = ''0x'' @ ds \<and> hex_value ds = v \<and> ds \<noteq> [] \<and> (hd ds = CHR ''0'' \<longrightarrow> ds = ''0'')"
  by (rule format_hex_spec [OF assms])

theorem hex_text_value_witness: "\<exists>ds. format_hex 255 = ''0x'' @ ds \<and> hex_value ds = 255"
  using hex_text_value [of 255] by auto

text \<open>
  The case-insensitive comparison is a total order on names up to case: its sign is reversed
  when its arguments are, it is zero exactly for names that \<open>ascii_iequals\<close> identifies, and it is
  the lexicographic order of the lower-case characters.
\<close>

theorem names_compared:
  "ascii_case_insensitive_compare b a = - ascii_case_insensitive_compare a b \<and>
   (ascii_case_insensitive_compare a b = 0 \<longleftrightarrow> ascii_iequals a b) \<and>
   (ascii_case_insensitive_compare a b = - 1 \<longleftrightarrow> lex_less (lowered a) (lowered b))"
proof -
  have "ascii_case_insensitive_compare a b = - 1 \<longleftrightarrow> lex_less (lowered a) (lowered b)"
    unfolding compare_cases by simp
  then show ?thesis using compare_props(2,3) by blast
qed

end
