(* ===== verification/Named_Registry.thy ===== *)
theory Named_Registry
  imports Basics
begin

text \<open>
  The contract of a registry of named things whose names are compared without case: the module
  registry of the loader keeps it. Registering succeeds for an acceptable thing whose name is
  free, and a failed registration changes nothing; the lemmas are about registering a list of
  things one after the other, as \<open>register_builtin_modules\<close> does.
\<close>

locale named_registry =
  fixes register :: "'m \<Rightarrow> 's \<Rightarrow> bool \<times> 's"
    and lookup :: "'s \<Rightarrow> string \<Rightarrow> 'm option"
    and name :: "'m \<Rightarrow> string"
    and acceptable :: "'m \<Rightarrow> bool"
  assumes lookup_cong: "lowered a = lowered b \<Longrightarrow> lookup s a = lookup s b"
    and register_ok: "fst (register m s) \<longleftrightarrow> acceptable m \<and> lookup s (name m) = None"
    and register_fail: "\<not> fst (register m s) \<Longrightarrow> snd (register m s) = s"
    and lookup_register: "fst (register m s) \<Longrightarrow>
      lookup (snd (register m s)) a = (if lowered a = lowered (name m) then Some m else lookup s a)"
begin

definition register_all :: "'m list \<Rightarrow> 's \<Rightarrow> 's" where
  "register_all ms s = fold (\<lambda>m s. snd (register m s)) ms s"

lemma register_all_Nil [simp]: "register_all [] s = s"
  by (simp add: register_all_def)

lemma register_all_Cons [simp]: "register_all (m # ms) s = register_all ms (snd (register m s))"
  by (simp add: register_all_def)

text \<open>A name that is taken keeps its meaning.\<close>

lemma lookup_register_Some:
  assumes "lookup s a = Some x"
  shows "lookup (snd (register m s)) a = Some x"
proof (cases "fst (register m s)")
  case True
  then have "lookup s (name m) = None" by (simp add: register_ok)
  with assms have "lowered a \<noteq> lowered (name m)" using lookup_cong [of a "name m" s] by auto
  with assms True show ?thesis by (simp add: lookup_register)
next
  case False
  then show ?thesis using assms by (simp add: register_fail)
qed

lemma lookup_register_all_Some:
  "lookup s a = Some x \<Longrightarrow> lookup (register_all ms s) a = Some x"
  by (induction ms arbitrary: s) (simp_all add: lookup_register_Some)

text \<open>Otherwise the first acceptable thing of the list with the name answers for it.\<close>

lemma lookup_register_all:
  "lookup (register_all ms s) a =
     (case lookup s a of
        Some x \<Rightarrow> Some x
      | None \<Rightarrow> find (\<lambda>m. acceptable m \<and> lowered (name m) = lowered a) ms)"
proof (induction ms arbitrary: s)
  case Nil
  then show ?case by (simp split: option.split)
next
  case (Cons m ms)
  show ?case
  proof (cases "lookup s a")
    case (Some x)
    then show ?thesis using lookup_register_all_Some [of s a x "m # ms"] by simp
  next
    case None
    show ?thesis
    proof (cases "fst (register m s)")
      case True
      then show ?thesis using Cons.IH [of "snd (register m s)"] None register_ok [of m s]
        by (auto simp: lookup_register)
    next
      case False
      then have "\<not> (acceptable m \<and> lowered (name m) = lowered a)"
        using None register_ok [of m s] lookup_cong [of "name m" a s] by auto
      then show ?thesis using Cons.IH [of s] None False by (auto simp: register_fail)
    qed
  qed
qed

text \<open>Registering the same list again changes nothing.\<close>

lemma register_all_taken:
  "\<forall>m \<in> set ms. acceptable m \<longrightarrow> lookup s (name m) \<noteq> None \<Longrightarrow> register_all ms s = s"
proof (induction ms)
  case Nil
  then show ?case by simp
next
  case (Cons m ms)
  then have "snd (register m s) = s" using register_ok [of m s] register_fail [of m s] by auto
  with Cons show ?case by simp
qed

lemma register_all_idempotent: "register_all ms (register_all ms s) = register_all ms s"
proof (rule register_all_taken, intro ballI impI)
  fix m assume m: "m \<in> set ms" "acceptable m"
  have "lookup (register_all ms s) (name m) \<noteq> None \<or>
      (lookup s (name m) = None \<and>
       find (\<lambda>m'. acceptable m' \<and> lowered (name m') = lowered (name m)) ms = None)"
    by (auto simp: lookup_register_all split: option.split)
  then show "lookup (register_all ms s) (name m) \<noteq> None" using m by (auto simp: find_None_iff)
qed

end

end
