(* ===== verification/Module_Registry.thy ===== *)
theory Module_Registry
  imports Basics Named_Registry
begin

text \<open>
  The registry of the modules the runtime provides itself (\<open>include/tradutorlinux/loader/module.hpp\<close>,
  \<open>src/loader/module.cpp\<close>): registration, lookup by name and by ordinal, and the resolution of
  API-set aliases and export forwarders. The registry is the list \<open>modules\<close> of the guest
  context, passed as an argument; the mutex that guards it is not modelled.
\<close>

subsection \<open>Data\<close>

datatype ExportSupport = Full | Limited | Stub

record ExportedFunction =
  ef_name :: string
  ef_ordinal :: u16
  ef_address :: u64
  ef_support :: ExportSupport
  ef_forwarder :: string

record InternalModule =
  mod_name :: string
  mod_exports :: "ExportedFunction list"

type_synonym registry = "InternalModule list"

text \<open>
  The texts that \<open>ExportLookup.detail\<close> can hold; \<open>NoDetail\<close> is the empty string. Those of the
  second line come from the graph of guest modules.
\<close>

datatype lookup_detail =
  NoDetail | DepthExceeded | CycleDetected | InvalidForwarder | TargetNotFound
| InvalidModuleName | ForwarderCycle | InvalidGuestForwarder | SymbolNotExported | OrdinalNotExported

record ExportLookup =
  found :: bool
  lk_ordinal :: u16
  lk_address :: u64
  lk_support :: ExportSupport
  lk_detail :: lookup_detail
  lk_forwarder :: string

definition no_lookup :: ExportLookup where
  "no_lookup = \<lparr>found = False, lk_ordinal = 0, lk_address = 0, lk_support = Full,
     lk_detail = NoDetail, lk_forwarder = []\<rparr>"

definition lookup_of :: "ExportedFunction \<Rightarrow> ExportLookup" where
  "lookup_of e = \<lparr>found = True, lk_ordinal = ef_ordinal e, lk_address = ef_address e,
     lk_support = ef_support e, lk_detail = NoDetail, lk_forwarder = ef_forwarder e\<rparr>"

subsection \<open>Registration and lookup\<close>

definition find_module :: "registry \<Rightarrow> string \<Rightarrow> InternalModule option" where
  "find_module reg dll = find (\<lambda>m. ascii_iequals (mod_name m) dll) reg"

fun is_valid_export_support :: "ExportSupport \<Rightarrow> bool" where
  "is_valid_export_support Full = True"
| "is_valid_export_support Limited = True"
| "is_valid_export_support Stub = True"

definition register_module :: "InternalModule \<Rightarrow> registry \<Rightarrow> bool \<times> registry" where
  "register_module m reg =
     (if list_ex (\<lambda>e. \<not> is_valid_export_support (ef_support e)) (mod_exports m) then (False, reg)
      else if find_module reg (mod_name m) \<noteq> None then (False, reg)
      else if list_ex (\<lambda>e. ef_forwarder e \<noteq> [] \<and> ef_address e \<noteq> 0) (mod_exports m) then (False, reg)
      else (True, reg @ [m]))"

definition clear_modules :: "registry \<Rightarrow> registry" where
  "clear_modules reg = []"

definition is_module_registered :: "registry \<Rightarrow> string \<Rightarrow> bool" where
  "is_module_registered reg dll \<longleftrightarrow> find_module reg dll \<noteq> None"

definition registered_module_count :: "registry \<Rightarrow> nat" where
  "registered_module_count reg = length reg"

definition find_in_module :: "(ExportedFunction \<Rightarrow> bool) \<Rightarrow> InternalModule \<Rightarrow> ExportLookup" where
  "find_in_module P m = (case find P (mod_exports m) of None \<Rightarrow> no_lookup | Some e \<Rightarrow> lookup_of e)"

definition find_export :: "registry \<Rightarrow> string \<Rightarrow> string \<Rightarrow> ExportLookup" where
  "find_export reg dll name =
     (case find_module reg dll of
        None \<Rightarrow> no_lookup
      | Some m \<Rightarrow> find_in_module (\<lambda>e. ef_name e = name) m)"

definition find_export_by_ordinal :: "registry \<Rightarrow> string \<Rightarrow> u16 \<Rightarrow> ExportLookup" where
  "find_export_by_ordinal reg dll ord =
     (case find_module reg dll of
        None \<Rightarrow> no_lookup
      | Some m \<Rightarrow> find_in_module (\<lambda>e. ef_ordinal e = ord) m)"

fun find_global :: "(ExportedFunction \<Rightarrow> bool) \<Rightarrow> registry \<Rightarrow> ExportLookup" where
  "find_global P [] = no_lookup"
| "find_global P (m # ms) =
     (case find P (mod_exports m) of Some e \<Rightarrow> lookup_of e | None \<Rightarrow> find_global P ms)"

definition find_export_global :: "registry \<Rightarrow> string \<Rightarrow> ExportLookup" where
  "find_export_global reg name = find_global (\<lambda>e. ef_name e = name) reg"

definition find_export_by_ordinal_global :: "registry \<Rightarrow> u16 \<Rightarrow> ExportLookup" where
  "find_export_by_ordinal_global reg ord = find_global (\<lambda>e. ef_ordinal e = ord) reg"

definition is_valid_module_handle :: "u64 \<Rightarrow> bool" where
  "is_valid_module_handle h = (if h = 0 then False else h = 0x1000)"

subsection \<open>Aliases of modules\<close>

fun starts_with_ci :: "string \<Rightarrow> string \<Rightarrow> bool" where
  "starts_with_ci s [] = True"
| "starts_with_ci [] (p # ps) = False"
| "starts_with_ci (c # s) (p # ps) = (if tolower c \<noteq> of_char p then False else starts_with_ci s ps)"

definition is_api_set_dll :: "string \<Rightarrow> bool" where
  "is_api_set_dll dll =
     (if length dll < 11 then False
      else starts_with_ci dll ''api-ms-win-'' \<or> starts_with_ci dll ''ext-ms-win-'')"

definition is_kernelbase_dll :: "string \<Rightarrow> bool" where
  "is_kernelbase_dll dll \<longleftrightarrow> ascii_iequals dll ''kernelbase.dll'' \<or> ascii_iequals dll ''kernelbase''"

definition vcruntime_names :: "string list" where
  "vcruntime_names = [''vcruntime140.dll'', ''vcruntime140'', ''vcruntime140_1.dll'',
     ''vcruntime140_1'', ''vcruntime140d.dll'', ''msvcr120.dll'', ''msvcr110.dll'',
     ''msvcr100.dll'', ''ucrtbase.dll'', ''ucrtbase'']"

definition is_vcruntime_dll :: "string \<Rightarrow> bool" where
  "is_vcruntime_dll dll = list_ex (ascii_iequals dll) vcruntime_names"

definition preferred_api_set_module :: "string \<Rightarrow> string" where
  "preferred_api_set_module dll =
     (if starts_with_ci dll ''api-ms-win-core-com-'' then ''ole32.dll''
      else if starts_with_ci dll ''api-ms-win-core-'' \<or> starts_with_ci dll ''ext-ms-win-kernel32-'' \<or>
          starts_with_ci dll ''api-ms-win-appmodel-''
      then ''KERNEL32.dll''
      else if starts_with_ci dll ''api-ms-win-crt-'' \<or> starts_with_ci dll ''api-ms-win-core-crt-''
      then ''msvcrt.dll''
      else if starts_with_ci dll ''api-ms-win-security-'' \<or> starts_with_ci dll ''api-ms-win-eventing-'' \<or>
          starts_with_ci dll ''api-ms-win-service-''
      then ''ADVAPI32.dll''
      else if starts_with_ci dll ''ext-ms-win-ntuser-'' \<or> starts_with_ci dll ''ext-ms-win-gui-''
      then ''USER32.dll''
      else if starts_with_ci dll ''ext-ms-win-gdi-'' then ''GDI32.dll''
      else if starts_with_ci dll ''api-ms-win-shcore-'' \<or> starts_with_ci dll ''api-ms-win-shell-''
      then ''SHELL32.dll''
      else [])"

definition api_set_providers :: "string list" where
  "api_set_providers = [''KERNEL32.dll'', ''USER32.dll'', ''GDI32.dll'', ''ADVAPI32.dll'',
     ''WS2_32.dll'', ''SHELL32.dll'', ''ole32.dll'', ''SHLWAPI.dll'', ''version.dll'', ''WINMM.dll'',
     ''COMCTL32.dll'', ''COMDLG32.dll'', ''IMM32.dll'', ''PSAPI.dll'', ''msvcrt.dll'', ''rpcrt4.dll'']"

definition is_module_registered_forwarded :: "registry \<Rightarrow> string \<Rightarrow> bool" where
  "is_module_registered_forwarded reg dll =
     (if is_module_registered reg dll then True
      else if is_kernelbase_dll dll then is_module_registered reg ''KERNEL32.dll''
      else if is_vcruntime_dll dll then is_module_registered reg ''msvcrt.dll''
      else if \<not> is_api_set_dll dll then False
      else list_ex (is_module_registered reg) api_set_providers)"

subsection \<open>Forwarders\<close>

definition kMaxForwarderDepth :: nat where "kMaxForwarderDepth = 32"

record ForwarderQuery =
  q_dll :: string
  q_by_ordinal :: bool
  q_symbol :: string
  q_ordinal :: u16

text \<open>A visit has the fields of a query; \<open>ForwarderVisit\<close> and \<open>ForwarderTarget\<close> are queries too.\<close>

definition has_visit :: "ForwarderQuery list \<Rightarrow> ForwarderQuery \<Rightarrow> bool" where
  "has_visit visits q =
     list_ex (\<lambda>v. if q_by_ordinal v \<noteq> q_by_ordinal q \<or> \<not> ascii_iequals (q_dll v) (q_dll q) then False
                  else if q_by_ordinal v then q_ordinal v = q_ordinal q
                  else q_symbol v = q_symbol q) visits"

fun rfind_dot :: "string \<Rightarrow> nat option" where
  "rfind_dot [] = None"
| "rfind_dot (c # cs) =
     (case rfind_dot cs of
        Some i \<Rightarrow> Some (Suc i)
      | None \<Rightarrow> if c = CHR ''.'' then Some 0 else None)"

fun parse_ordinal_digits :: "string \<Rightarrow> nat \<Rightarrow> nat option" where
  "parse_ordinal_digits [] v = Some v"
| "parse_ordinal_digits (c # cs) v =
     (let digit = of_char c :: nat in
      if digit < 48 \<or> 57 < digit then None
      else
        let value_digit = digit - 48 in
        if (0xFFFF - value_digit) div 10 < v then None
        else parse_ordinal_digits cs (v * 10 + value_digit))"

definition parse_forwarder :: "string \<Rightarrow> ForwarderQuery option" where
  "parse_forwarder fwd =
     (case rfind_dot fwd of
        None \<Rightarrow> None
      | Some separator \<Rightarrow>
          if separator = 0 \<or> length fwd \<le> separator + 1 then None
          else
            let dll0 = take separator fwd;
                dll = (if CHR ''.'' \<notin> set dll0 then dll0 @ ''.dll'' else dll0);
                name = drop (separator + 1) fwd
            in
            if hd name \<noteq> CHR ''#''
            then Some \<lparr>q_dll = dll, q_by_ordinal = False, q_symbol = name, q_ordinal = 0\<rparr>
            else if length name = 1 then None
            else (case parse_ordinal_digits (tl name) 0 of
                None \<Rightarrow> None
              | Some v \<Rightarrow>
                  if v = 0 then None
                  else Some \<lparr>q_dll = dll, q_by_ordinal = True, q_symbol = [], q_ordinal = to_u16 v\<rparr>))"

definition forwarder_error :: "lookup_detail \<Rightarrow> ExportLookup" where
  "forwarder_error d = no_lookup\<lparr>lk_detail := d\<rparr>"

definition kCandidates :: "string list" where
  "kCandidates = [''KERNEL32.dll'', ''USER32.dll'', ''GDI32.dll'', ''ADVAPI32.dll'', ''WS2_32.dll'',
     ''SHELL32.dll'', ''ole32.dll'', ''SHLWAPI.dll'', ''version.dll'', ''WINMM.dll'', ''COMCTL32.dll'',
     ''COMDLG32.dll'', ''IMM32.dll'', ''PSAPI.dll'', ''msvcrt.dll'', ''rpcrt4.dll'', ''dbghelp.dll'']"

text \<open>The first module whose resolution finds the symbol or fails with a reason.\<close>

definition conclusive :: "ExportLookup \<Rightarrow> bool" where
  "conclusive l \<longleftrightarrow> found l \<or> lk_detail l \<noteq> NoDetail"

fun first_conclusive :: "(string \<Rightarrow> ExportLookup) \<Rightarrow> string list \<Rightarrow> ExportLookup \<Rightarrow> ExportLookup" where
  "first_conclusive try [] direct = direct"
| "first_conclusive try (m # ms) direct =
     (if conclusive (try m) then try m else first_conclusive try ms direct)"

definition api_set_candidates :: "string \<Rightarrow> string list" where
  "api_set_candidates dll =
     (let preferred = preferred_api_set_module dll in
      (if preferred \<noteq> [] then [preferred] else []) @
      filter (\<lambda>m. m \<noteq> preferred) kCandidates)"

text \<open>The direct lookup of a query, by name or by ordinal.\<close>

definition find_direct :: "registry \<Rightarrow> ForwarderQuery \<Rightarrow> ExportLookup" where
  "find_direct reg q =
     (if q_by_ordinal q then find_export_by_ordinal reg (q_dll q) (q_ordinal q)
      else find_export reg (q_dll q) (q_symbol q))"

text \<open>
  \<open>resolve_forwarder_named\<close> and \<open>resolve_forwarder_ordinal\<close>, which differ in the direct lookup
  and in the API sets that only names reach. The first argument is the depth left, the depth
  limit minus \<open>depth\<close>; \<open>visits\<close> is the path to the query.
\<close>

fun resolve_forwarder ::
    "nat \<Rightarrow> registry \<Rightarrow> ForwarderQuery list \<Rightarrow> ForwarderQuery \<Rightarrow> ExportLookup" where
  "resolve_forwarder 0 reg visits q = forwarder_error DepthExceeded"
| "resolve_forwarder (Suc left) reg visits q =
     (if has_visit visits q then forwarder_error CycleDetected
      else
        let visits' = visits @ [q]; direct = find_direct reg q in
        if found direct then
          if lk_forwarder direct = [] then direct
          else (case parse_forwarder (lk_forwarder direct) of
              None \<Rightarrow> forwarder_error InvalidForwarder
            | Some target \<Rightarrow>
                let resolved = resolve_forwarder left reg visits' target in
                if \<not> found resolved \<and> lk_detail resolved = NoDetail
                then resolved\<lparr>lk_detail := TargetNotFound\<rparr> else resolved)
        else
          let kernel32 = resolve_forwarder left reg visits' (q\<lparr>q_dll := ''KERNEL32.dll''\<rparr>) in
          if is_kernelbase_dll (q_dll q) \<and> conclusive kernel32 then kernel32
          else
            let msvcrt = resolve_forwarder left reg visits' (q\<lparr>q_dll := ''msvcrt.dll''\<rparr>) in
            if is_vcruntime_dll (q_dll q) \<and> conclusive msvcrt then msvcrt
            else if q_by_ordinal q \<or> \<not> is_api_set_dll (q_dll q) then direct
            else first_conclusive (\<lambda>m. resolve_forwarder left reg visits' (q\<lparr>q_dll := m\<rparr>))
                   (api_set_candidates (q_dll q)) direct)"

definition find_export_forwarded :: "registry \<Rightarrow> string \<Rightarrow> string \<Rightarrow> ExportLookup" where
  "find_export_forwarded reg dll name =
     resolve_forwarder kMaxForwarderDepth reg []
       \<lparr>q_dll = dll, q_by_ordinal = False, q_symbol = name, q_ordinal = 0\<rparr>"

definition find_export_by_ordinal_forwarded :: "registry \<Rightarrow> string \<Rightarrow> u16 \<Rightarrow> ExportLookup" where
  "find_export_by_ordinal_forwarded reg dll ord =
     resolve_forwarder kMaxForwarderDepth reg []
       \<lparr>q_dll = dll, q_by_ordinal = True, q_symbol = [], q_ordinal = ord\<rparr>"

subsection \<open>The registry\<close>

text \<open>
  Names are unique up to case, and an export that forwards has no address of its own.
\<close>

definition wf_export_entry :: "ExportedFunction \<Rightarrow> bool" where
  "wf_export_entry e \<longleftrightarrow> (ef_forwarder e \<noteq> [] \<longrightarrow> ef_address e = 0)"

definition wf_registry :: "registry \<Rightarrow> bool" where
  "wf_registry reg \<longleftrightarrow> distinct (map (\<lambda>m. lowered (mod_name m)) reg) \<and>
     (\<forall>m \<in> set reg. \<forall>e \<in> set (mod_exports m). wf_export_entry e)"

lemma all_support_valid: "\<not> list_ex (\<lambda>e. \<not> is_valid_export_support (ef_support e)) es"
  by (simp add: list_ex_iff) (metis is_valid_export_support.simps ExportSupport.exhaust)

lemma find_module_None: "find_module reg dll = None \<longleftrightarrow> lowered dll \<notin> (\<lambda>m. lowered (mod_name m)) ` set reg"
  unfolding find_module_def find_None_iff ascii_iequals_iff image_iff by metis

lemma find_module_Some:
  "find_module reg dll = Some m \<Longrightarrow> m \<in> set reg \<and> lowered (mod_name m) = lowered dll"
  unfolding find_module_def by (induction reg) (auto simp: ascii_iequals_iff split: if_split_asm)

lemma find_module_append:
  "find_module (reg @ ms) dll =
     (case find_module reg dll of Some m \<Rightarrow> Some m | None \<Rightarrow> find_module ms dll)"
  by (induction reg) (simp_all add: find_module_def)

lemma find_module_cong: "lowered a = lowered b \<Longrightarrow> find_module reg a = find_module reg b"
  by (simp add: find_module_def ascii_iequals_iff)

lemma register_module_cases:
  "register_module m reg =
     (if find_module reg (mod_name m) = None \<and> (\<forall>e \<in> set (mod_exports m). wf_export_entry e)
      then (True, reg @ [m]) else (False, reg))"
  using all_support_valid [of "mod_exports m"]
  by (auto simp: register_module_def list_ex_iff wf_export_entry_def)

lemma register_module_wf:
  assumes "wf_registry reg"
  shows "wf_registry (snd (register_module m reg))"
  using assms by (auto simp: register_module_cases wf_registry_def find_module_None)

lemma find_module_register:
  assumes "register_module m reg = (True, reg')"
  shows "find_module reg' dll =
    (if lowered dll = lowered (mod_name m) then Some m else find_module reg dll)"
proof -
  from assms have reg': "reg' = reg @ [m]" and none: "find_module reg (mod_name m) = None"
    by (auto simp: register_module_cases split: if_split_asm)
  have single: "find_module [m] dll = (if lowered dll = lowered (mod_name m) then Some m else None)"
    by (auto simp: find_module_def ascii_iequals_iff)
  show ?thesis
    using none find_module_cong [of dll "mod_name m" reg]
    by (simp add: reg' find_module_append single split: option.split)
qed

text \<open>The registry keeps the contract of a registry of names.\<close>

definition acceptable_module :: "InternalModule \<Rightarrow> bool" where
  "acceptable_module m \<longleftrightarrow> (\<forall>e \<in> set (mod_exports m). wf_export_entry e)"

interpretation reg: named_registry register_module find_module mod_name acceptable_module
proof unfold_locales
  show "lowered a = lowered b \<Longrightarrow> find_module s a = find_module s b" for a b s
    by (rule find_module_cong)
  show "fst (register_module m s) \<longleftrightarrow> acceptable_module m \<and> find_module s (mod_name m) = None" for m s
    by (auto simp: register_module_cases acceptable_module_def)
  show "\<not> fst (register_module m s) \<Longrightarrow> snd (register_module m s) = s" for m s
    by (auto simp: register_module_cases split: if_split_asm)
  show "fst (register_module m s) \<Longrightarrow> find_module (snd (register_module m s)) a =
      (if lowered a = lowered (mod_name m) then Some m else find_module s a)" for m s a
    by (rule find_module_register) (metis prod.collapse)
qed

text \<open>
  \<open>register_builtin_modules\<close>: each of its calls registers the table of one module; the tables
  are an argument.
\<close>

definition register_builtin_modules :: "InternalModule list \<Rightarrow> registry \<Rightarrow> registry" where
  "register_builtin_modules tables reg = fold (\<lambda>m reg. snd (register_module m reg)) tables reg"

lemma register_builtin_modules_eq: "register_builtin_modules = reg.register_all"
  by (simp add: fun_eq_iff register_builtin_modules_def reg.register_all_def)

lemma register_builtin_modules_wf:
  "wf_registry reg \<Longrightarrow> wf_registry (register_builtin_modules tables reg)"
  unfolding register_builtin_modules_def
  by (induction tables arbitrary: reg) (simp_all add: register_module_wf)

subsection \<open>Parsing forwarders\<close>

lemma rfind_dot_None: "rfind_dot s = None \<longleftrightarrow> CHR ''.'' \<notin> set s"
  by (induction s) (auto split: option.split)

lemma rfind_dot_append: "CHR ''.'' \<notin> set s \<Longrightarrow> rfind_dot (d @ CHR ''.'' # s) = Some (length d)"
  by (induction d) (simp_all add: iffD2 [OF rfind_dot_None])

definition with_extension :: "string \<Rightarrow> string" where
  "with_extension dll = (if CHR ''.'' \<in> set dll then dll else dll @ ''.dll'')"

lemma parse_forwarder_name:
  assumes "dll \<noteq> []" "CHR ''.'' \<notin> set name" "name \<noteq> []" "hd name \<noteq> CHR ''#''"
  shows "parse_forwarder (dll @ CHR ''.'' # name) =
    Some \<lparr>q_dll = with_extension dll, q_by_ordinal = False, q_symbol = name, q_ordinal = 0\<rparr>"
  using assms by (simp add: parse_forwarder_def rfind_dot_append with_extension_def)

text \<open>The decimal text of a number, for ordinals.\<close>

fun decimal :: "nat \<Rightarrow> string" where
  "decimal n = (if n < 10 then [char_of (48 + n)] else decimal (n div 10) @ [char_of (48 + n mod 10)])"

declare decimal.simps [simp del]

lemma of_char_digit: "d < 10 \<Longrightarrow> of_char (char_of (48 + d :: nat) :: char) = 48 + d"
  by simp

lemma parse_ordinal_digits_append:
  "parse_ordinal_digits (a @ b) v =
     (case parse_ordinal_digits a v of None \<Rightarrow> None | Some w \<Rightarrow> parse_ordinal_digits b w)"
  by (induction a arbitrary: v) (simp_all add: Let_def)

lemma parse_decimal: "n \<le> u16_max \<Longrightarrow> parse_ordinal_digits (decimal n) 0 = Some n"
proof (induction n rule: decimal.induct)
  case (1 n)
  have digit: "parse_ordinal_digits [char_of (48 + d)] v = Some (v * 10 + d)"
    if "d < 10" "v \<le> (0xFFFF - d) div 10" for d v
    using that by (simp add: of_char_digit)
  show ?case
  proof (cases "n < 10")
    case True
    then show ?thesis using digit [of n 0] by (simp add: decimal.simps)
  next
    case False
    then have ih: "parse_ordinal_digits (decimal (n div 10)) 0 = Some (n div 10)" using 1 by simp
    have "n div 10 * 10 \<le> 0xFFFF - n mod 10" using 1(2) by (simp add: div_mult_mod_eq le_diff_conv2)
    then have "n div 10 \<le> (0xFFFF - n mod 10) div 10" by (simp add: less_eq_div_iff_mult_less_eq)
    then show ?thesis using False ih digit [of "n mod 10" "n div 10"]
      by (simp add: decimal.simps [of n] parse_ordinal_digits_append)
  qed
qed

lemma decimal_no_dot: "CHR ''.'' \<notin> set (decimal n)"
proof (induction n rule: decimal.induct)
  case (1 n)
  have dot: "CHR ''.'' \<noteq> char_of (48 + d)" if "d < 10" for d :: nat
  proof
    assume "CHR ''.'' = char_of (48 + d)"
    then have "of_char (char_of (48 + d) :: char) = (of_char CHR ''.'' :: nat)" by simp
    then show False using of_char_digit [OF that] by simp
  qed
  show ?case using 1 dot [of n] dot [of "n mod 10"]
    by (subst decimal.simps) auto
qed

lemma decimal_not_Nil: "decimal n \<noteq> []"
  by (subst decimal.simps) simp

lemma parse_forwarder_ordinal:
  assumes "dll \<noteq> []" "0 < n" "n \<le> u16_max"
  shows "parse_forwarder (dll @ ''.#'' @ decimal n) =
    Some \<lparr>q_dll = with_extension dll, q_by_ordinal = True, q_symbol = [], q_ordinal = n\<rparr>"
proof -
  have "rfind_dot (dll @ CHR ''.'' # CHR ''#'' # decimal n) = Some (length dll)"
    by (rule rfind_dot_append) (simp add: decimal_no_dot)
  then show ?thesis using assms parse_decimal [OF assms(3)]
    by (simp add: parse_forwarder_def with_extension_def decimal_not_Nil)
qed

subsection \<open>Resolving forwarders\<close>

text \<open>The modules a query may be answered by when its own module does not have the symbol.\<close>

definition aliases :: "ForwarderQuery \<Rightarrow> string set" where
  "aliases q =
     (if is_kernelbase_dll (q_dll q) then {''KERNEL32.dll''} else {}) \<union>
     (if is_vcruntime_dll (q_dll q) then {''msvcrt.dll''} else {}) \<union>
     (if \<not> q_by_ordinal q \<and> is_api_set_dll (q_dll q) then set (api_set_candidates (q_dll q)) else {})"

text \<open>
  What it means for a query to have an answer: a chain of forwarders and aliases that ends in
  an export with an address of its own.
\<close>

inductive answers :: "registry \<Rightarrow> ForwarderQuery \<Rightarrow> ExportLookup \<Rightarrow> bool" for reg where
  answer_direct: "find_direct reg q = l \<Longrightarrow> found l \<Longrightarrow> lk_forwarder l = [] \<Longrightarrow> answers reg q l"
| answer_forward: "found (find_direct reg q) \<Longrightarrow> lk_forwarder (find_direct reg q) \<noteq> [] \<Longrightarrow>
    parse_forwarder (lk_forwarder (find_direct reg q)) = Some t \<Longrightarrow> answers reg t l \<Longrightarrow> answers reg q l"
| answer_alias: "\<not> found (find_direct reg q) \<Longrightarrow> m \<in> aliases q \<Longrightarrow> answers reg (q\<lparr>q_dll := m\<rparr>) l \<Longrightarrow>
    answers reg q l"

lemma no_lookup_simps [simp]: "\<not> found no_lookup" "lk_detail no_lookup = NoDetail" "lk_forwarder no_lookup = []"
  by (simp_all add: no_lookup_def)

lemma forwarder_error_simps [simp]: "\<not> found (forwarder_error d)" "lk_detail (forwarder_error d) = d"
  by (simp_all add: forwarder_error_def)

lemma lookup_of_simps [simp]: "found (lookup_of e)" "lk_detail (lookup_of e) = NoDetail"
  "lk_forwarder (lookup_of e) = ef_forwarder e" "lk_address (lookup_of e) = ef_address e"
  by (simp_all add: lookup_of_def)

lemma first_conclusive_cases:
  obtains "first_conclusive f ms d = d" | m where "m \<in> set ms" "first_conclusive f ms d = f m"
proof -
  have "first_conclusive f ms d = d \<or> (\<exists>m \<in> set ms. first_conclusive f ms d = f m)"
    by (induction ms) auto
  then show thesis using that by blast
qed

lemma find_direct_not_found: "\<not> found (find_direct reg q) \<Longrightarrow> find_direct reg q = no_lookup"
  by (auto simp: find_direct_def find_export_def find_export_by_ordinal_def find_in_module_def
      split: if_split_asm option.split_asm)

lemma resolve_forwarder_sound:
  "found (resolve_forwarder n reg visits q) \<Longrightarrow> answers reg q (resolve_forwarder n reg visits q)"
proof (induction n arbitrary: visits q)
  case 0
  then show ?case by simp
next
  case (Suc n)
  let ?r = "resolve_forwarder n reg (visits @ [q])"
  have novisit: "\<not> has_visit visits q" using Suc.prems by auto
  show ?case
  proof (cases "found (find_direct reg q)")
    case hit: True
    show ?thesis
    proof (cases "lk_forwarder (find_direct reg q) = []")
      case True
      with hit novisit show ?thesis by (auto simp: Let_def intro: answer_direct)
    next
      case fwd: False
      then obtain t where t: "parse_forwarder (lk_forwarder (find_direct reg q)) = Some t"
        using Suc.prems hit novisit
        by (cases "parse_forwarder (lk_forwarder (find_direct reg q))") (auto simp: Let_def)
      then have "found (?r t)" using Suc.prems hit novisit fwd by (auto simp: Let_def split: if_split_asm)
      with Suc.IH t hit novisit fwd show ?thesis by (auto simp: Let_def intro: answer_forward)
    qed
  next
    case miss: False
    have via: "answers reg q (?r (q\<lparr>q_dll := m\<rparr>))" if "m \<in> aliases q" "found (?r (q\<lparr>q_dll := m\<rparr>))" for m
      using miss that Suc.IH by (blast intro: answer_alias)
    have res: "resolve_forwarder (Suc n) reg visits q =
        (if is_kernelbase_dll (q_dll q) \<and> conclusive (?r (q\<lparr>q_dll := ''KERNEL32.dll''\<rparr>))
         then ?r (q\<lparr>q_dll := ''KERNEL32.dll''\<rparr>)
         else if is_vcruntime_dll (q_dll q) \<and> conclusive (?r (q\<lparr>q_dll := ''msvcrt.dll''\<rparr>))
         then ?r (q\<lparr>q_dll := ''msvcrt.dll''\<rparr>)
         else if q_by_ordinal q \<or> \<not> is_api_set_dll (q_dll q) then find_direct reg q
         else first_conclusive (\<lambda>m. ?r (q\<lparr>q_dll := m\<rparr>)) (api_set_candidates (q_dll q)) (find_direct reg q))"
      using miss novisit by (simp add: Let_def)
    consider (direct) "resolve_forwarder (Suc n) reg visits q = find_direct reg q"
      | (other) m where "m \<in> aliases q" "resolve_forwarder (Suc n) reg visits q = ?r (q\<lparr>q_dll := m\<rparr>)"
    proof (cases rule: first_conclusive_cases [of "\<lambda>m. ?r (q\<lparr>q_dll := m\<rparr>)" "api_set_candidates (q_dll q)"
          "find_direct reg q"])
      case 1
      with res that show thesis by (auto simp: aliases_def split: if_split_asm)
    next
      case (2 m)
      with res that show thesis by (auto simp: aliases_def split: if_split_asm)
    qed
    then show ?thesis
    proof cases
      case direct
      then show ?thesis using Suc.prems miss by (simp only:)
    next
      case (other m)
      then show ?thesis using Suc.prems via [OF other(1)] by (simp only:)
    qed
  qed
qed

text \<open>An answer is an export of a registered module that does not forward further.\<close>

lemma find_direct_export:
  assumes "found (find_direct reg q)"
  shows "\<exists>m \<in> set reg. \<exists>e \<in> set (mod_exports m). find_direct reg q = lookup_of e"
proof -
  have mem: "\<exists>e \<in> set (mod_exports m). find_in_module P m = lookup_of e" if "found (find_in_module P m)" for P m
    using that find_some_sound [of P "mod_exports m"]
    by (auto simp: find_in_module_def split: option.split_asm)
  show ?thesis
    using assms find_module_Some mem
    unfolding find_direct_def find_export_def find_export_by_ordinal_def
    by (auto split: if_split_asm option.split_asm) (metis+)
qed

lemma answers_export:
  "answers reg q l \<Longrightarrow>
     \<exists>m \<in> set reg. \<exists>e \<in> set (mod_exports m). l = lookup_of e \<and> ef_forwarder e = []"
proof (induction rule: answers.induct)
  case (answer_direct q l)
  with find_direct_export [of reg q] show ?case by fastforce
qed

text \<open>
  A chain of direct forwarders, with its length: no alias is needed on the way. Every query of
  the chain answers the same.
\<close>

inductive forward_chain :: "registry \<Rightarrow> ForwarderQuery \<Rightarrow> nat \<Rightarrow> ExportLookup \<Rightarrow> bool" for reg where
  chain_end: "find_direct reg q = l \<Longrightarrow> found l \<Longrightarrow> lk_forwarder l = [] \<Longrightarrow> forward_chain reg q 0 l"
| chain_link: "found (find_direct reg q) \<Longrightarrow> lk_forwarder (find_direct reg q) \<noteq> [] \<Longrightarrow>
    parse_forwarder (lk_forwarder (find_direct reg q)) = Some t \<Longrightarrow> forward_chain reg t n l \<Longrightarrow>
    forward_chain reg q (Suc n) l"

inductive_cases forward_chain_0: "forward_chain reg q 0 l"
inductive_cases forward_chain_Suc: "forward_chain reg q (Suc n) l"
inductive_simps forward_chain_step: "forward_chain reg q n l"

lemma forward_chain_length: "forward_chain reg q n l \<Longrightarrow> forward_chain reg q m l' \<Longrightarrow> m = n \<and> l' = l"
proof (induction arbitrary: m l' rule: forward_chain.induct)
  case (chain_end q l)
  from chain_end.prems show ?case by (cases rule: forward_chain.cases) (use chain_end.hyps in auto)
next
  case (chain_link q t n l)
  from chain_link.prems show ?case
  proof (cases rule: forward_chain.cases)
    case chain_end
    then show ?thesis using chain_link.hyps by simp
  next
    case (chain_link t' n')
    with chain_link.hyps chain_link.IH [of n' l'] \<open>parse_forwarder _ = Some t\<close> show ?thesis by simp
  qed
qed

text \<open>Queries that count as visited have the same direct lookup.\<close>

definition same_visit :: "ForwarderQuery \<Rightarrow> ForwarderQuery \<Rightarrow> bool" where
  "same_visit v q \<longleftrightarrow> q_by_ordinal v = q_by_ordinal q \<and> lowered (q_dll v) = lowered (q_dll q) \<and>
     (if q_by_ordinal v then q_ordinal v = q_ordinal q else q_symbol v = q_symbol q)"

lemma has_visit_iff: "has_visit visits q \<longleftrightarrow> (\<exists>v \<in> set visits. same_visit v q)"
  by (auto simp: has_visit_def list_ex_iff same_visit_def ascii_iequals_iff)

lemma same_visit_direct: "same_visit v q \<Longrightarrow> find_direct reg v = find_direct reg q"
  using find_module_cong [of "q_dll v" "q_dll q" reg]
  by (auto simp: same_visit_def find_direct_def find_export_def find_export_by_ordinal_def
      split: if_split_asm)

lemma same_visit_chain: "same_visit v q \<Longrightarrow> forward_chain reg q n l \<Longrightarrow> forward_chain reg v n l"
  by (subst (asm) forward_chain_step, subst forward_chain_step) (auto simp: same_visit_direct)

text \<open>
  A chain that fits in the depth limit is followed to its end: no query of it can be mistaken
  for one already visited, because a chain that ends does not return to itself.
\<close>

lemma resolve_chain:
  assumes "forward_chain reg q n l" "n < left"
    and "\<forall>v \<in> set visits. \<exists>k l'. n < k \<and> forward_chain reg v k l'"
  shows "resolve_forwarder left reg visits q = l"
  using assms
proof (induction arbitrary: left visits rule: forward_chain.induct)
  case (chain_end q l)
  have "\<not> has_visit visits q"
  proof
    assume "has_visit visits q"
    then obtain v where v: "v \<in> set visits" "same_visit v q" by (auto simp: has_visit_iff)
    have "forward_chain reg v 0 l"
      by (rule same_visit_chain [OF v(2)], rule forward_chain.chain_end) (use chain_end in auto)
    with v(1) chain_end.prems(2) show False using forward_chain_length by blast
  qed
  then show ?case using chain_end by (cases left) (simp_all add: Let_def)
next
  case (chain_link q t n l)
  have chain: "forward_chain reg q (Suc n) l"
    using chain_link.hyps by (auto intro: forward_chain.chain_link)
  have novisit: "\<not> has_visit visits q"
  proof
    assume "has_visit visits q"
    then obtain v where v: "v \<in> set visits" "same_visit v q" by (auto simp: has_visit_iff)
    have "forward_chain reg v (Suc n) l" by (rule same_visit_chain [OF v(2) chain])
    with v(1) chain_link.prems(2) show False using forward_chain_length by blast
  qed
  from chain_link.prems(1) obtain left' where left: "left = Suc left'" "n < left'" by (cases left) auto
  have "resolve_forwarder left' reg (visits @ [q]) t = l"
  proof (rule chain_link.IH [OF left(2)], intro ballI)
    fix v assume "v \<in> set (visits @ [q])"
    then consider "v = q" | "v \<in> set visits" by auto
    then show "\<exists>k l'. n < k \<and> forward_chain reg v k l'"
    proof cases
      case 1
      then show ?thesis using chain by blast
    next
      case 2
      then show ?thesis using chain_link.prems(2) Suc_lessD by blast
    qed
  qed
  moreover have "found l"
    using chain_link.hyps(4) by (induction rule: forward_chain.induct) auto
  ultimately show ?case using chain_link.hyps novisit left by (simp add: Let_def)
qed

lemma find_export_forwarded_chain:
  assumes "forward_chain reg \<lparr>q_dll = dll, q_by_ordinal = False, q_symbol = name, q_ordinal = 0\<rparr> n l"
    and "n < 32"
  shows "find_export_forwarded reg dll name = l"
  unfolding find_export_forwarded_def kMaxForwarderDepth_def
  by (rule resolve_chain [OF assms]) simp

text \<open>The aliases: \<open>kernelbase\<close> answers with \<open>KERNEL32\<close>, the C runtimes with \<open>msvcrt\<close>.\<close>

lemma kernelbase_alias:
  assumes "is_kernelbase_dll dll" "\<not> found (find_export reg dll name)"
    and "found (find_export reg ''KERNEL32.dll'' name)"
    and "lk_forwarder (find_export reg ''KERNEL32.dll'' name) = []"
  shows "find_export_forwarded reg dll name = find_export reg ''KERNEL32.dll'' name"
proof -
  let ?q = "\<lambda>d. \<lparr>q_dll = d, q_by_ordinal = False, q_symbol = name, q_ordinal = 0\<rparr>"
  have ne: "\<not> ascii_iequals dll ''KERNEL32.dll''"
    using assms(1) by (auto simp: is_kernelbase_dll_def ascii_iequals_iff tolower_def Let_def)
  have direct: "find_direct reg (?q d) = find_export reg d name" for d
    by (simp add: find_direct_def)
  have "resolve_forwarder 31 reg [?q dll] (?q ''KERNEL32.dll'') = find_export reg ''KERNEL32.dll'' name"
    using assms(3,4) ne resolve_forwarder.simps(2) [of 30 reg "[?q dll]" "?q ''KERNEL32.dll''"]
    by (simp add: direct Let_def has_visit_def eval_nat_numeral)
  then show ?thesis
    using assms resolve_forwarder.simps(2) [of 31 reg "[]" "?q dll"]
    by (simp add: find_export_forwarded_def kMaxForwarderDepth_def direct Let_def has_visit_def
        conclusive_def)
qed

text \<open>
  The branch for \<open>api-ms-win-core-crt-\<close> is never taken: the branch for \<open>api-ms-win-core-\<close>
  before it has the same prefix.
\<close>

lemma starts_with_ci_append: "starts_with_ci s (p @ p') \<Longrightarrow> starts_with_ci s p"
  by (induction s p rule: starts_with_ci.induct) (auto split: if_split_asm)

lemma starts_with_ci_nth: "starts_with_ci s p \<Longrightarrow> i < length p \<Longrightarrow> tolower (s ! i) = of_char (p ! i)"
  by (induction s p arbitrary: i rule: starts_with_ci.induct)
    (auto simp: nth_Cons split: if_split_asm nat.split)

lemma core_crt_shadowed:
  assumes "starts_with_ci dll ''api-ms-win-core-crt-''"
  shows "preferred_api_set_module dll = ''KERNEL32.dll''"
proof -
  have core: "starts_with_ci dll ''api-ms-win-core-''"
    by (rule starts_with_ci_append [of _ _ "''crt-''"]) (use assms in simp)
  have "\<not> starts_with_ci dll ''api-ms-win-core-com-''"
    using starts_with_ci_nth [of dll "''api-ms-win-core-com-''" 17]
      starts_with_ci_nth [OF assms, of 17] by auto
  then show ?thesis using core assms by (simp add: preferred_api_set_module_def)
qed

subsection \<open>Properties\<close>

text \<open>A registry of two modules, the second of which forwards to the first.\<close>

definition sample_registry :: registry where
  "sample_registry =
     [\<lparr>mod_name = ''KERNEL32.dll'',
       mod_exports = [\<lparr>ef_name = ''Sleep'', ef_ordinal = 1, ef_address = 0x7000, ef_support = Full, ef_forwarder = []\<rparr>]\<rparr>,
      \<lparr>mod_name = ''fwd.dll'',
       mod_exports = [\<lparr>ef_name = ''Nap'', ef_ordinal = 2, ef_address = 0, ef_support = Full,
                        ef_forwarder = ''KERNEL32.Sleep''\<rparr>]\<rparr>]"

lemma sample_modules:
  "find_module sample_registry ''KERNEL32.dll'' = Some (sample_registry ! 0)"
  "find_module sample_registry ''fwd.dll'' = Some (sample_registry ! 1)"
  "find_module sample_registry ''kernelbase.dll'' = None"
  by (simp_all add: find_module_def sample_registry_def ascii_iequals_iff tolower_def)

definition sleep_lookup :: ExportLookup where
  "sleep_lookup = \<lparr>found = True, lk_ordinal = 1, lk_address = 0x7000, lk_support = Full,
     lk_detail = NoDetail, lk_forwarder = []\<rparr>"

lemma sample_lookups:
  "find_export sample_registry ''KERNEL32.dll'' ''Sleep'' = sleep_lookup"
  "find_export sample_registry ''fwd.dll'' ''Nap'' = sleep_lookup\<lparr>lk_ordinal := 2, lk_address := 0,
     lk_forwarder := ''KERNEL32.Sleep''\<rparr>"
  "find_export sample_registry ''kernelbase.dll'' ''Sleep'' = no_lookup"
  by (simp_all add: find_export_def sample_modules)
    (simp_all add: sample_registry_def find_in_module_def lookup_of_def sleep_lookup_def)

text \<open>
  C8: Registering the built-in modules keeps module names unique up to case and forwarders
  without an address; afterwards a name finds the module it found before, or else the first
  table with that name that could be registered.
\<close>

theorem builtin_modules_registered:
  assumes "wf_registry reg"
  shows "wf_registry (register_builtin_modules tables reg) \<and>
    find_module (register_builtin_modules tables reg) dll =
      (case find_module reg dll of
         Some m \<Rightarrow> Some m
       | None \<Rightarrow> find (\<lambda>m. acceptable_module m \<and> lowered (mod_name m) = lowered dll) tables)"
  using register_builtin_modules_wf [OF assms] reg.lookup_register_all
  by (simp add: register_builtin_modules_eq)

theorem builtin_modules_registered_witness: "wf_registry (register_builtin_modules sample_registry [])"
  using builtin_modules_registered [of "[]" sample_registry] by (simp add: wf_registry_def)

text \<open>
  C9: What a forwarded lookup finds is an export of a registered module that does not forward
  further, and it is reached from the query by following forwarders and module aliases.
\<close>

theorem forwarded_lookup_sound:
  assumes "found (find_export_forwarded reg dll name)"
  shows "answers reg \<lparr>q_dll = dll, q_by_ordinal = False, q_symbol = name, q_ordinal = 0\<rparr>
      (find_export_forwarded reg dll name) \<and>
    (\<exists>m \<in> set reg. \<exists>e \<in> set (mod_exports m).
       find_export_forwarded reg dll name = lookup_of e \<and> ef_forwarder e = [])"
proof -
  have "answers reg \<lparr>q_dll = dll, q_by_ordinal = False, q_symbol = name, q_ordinal = 0\<rparr>
      (find_export_forwarded reg dll name)"
    using resolve_forwarder_sound assms unfolding find_export_forwarded_def by blast
  then show ?thesis using answers_export by blast
qed

lemma sleep_found: "find_export_forwarded sample_registry ''KERNEL32.dll'' ''Sleep'' = sleep_lookup"
  by (rule find_export_forwarded_chain [where n = 0], rule chain_end)
    (simp_all add: find_direct_def sample_lookups, simp_all add: sleep_lookup_def)

theorem forwarded_lookup_sound_witness:
  "\<exists>m \<in> set sample_registry. \<exists>e \<in> set (mod_exports m). sleep_lookup = lookup_of e \<and> ef_forwarder e = []"
  using forwarded_lookup_sound [of sample_registry "''KERNEL32.dll''" "''Sleep''"]
  by (simp add: sleep_found sleep_lookup_def)

text \<open>
  A chain of fewer than 32 forwarders that ends in an export is followed to its end: no
  chain that ends is reported as a cycle.
\<close>

theorem forwarder_chain_followed:
  assumes "forward_chain reg \<lparr>q_dll = dll, q_by_ordinal = False, q_symbol = name, q_ordinal = 0\<rparr> n l"
    and "n < 32"
  shows "find_export_forwarded reg dll name = l"
  by (rule find_export_forwarded_chain [OF assms])

lemma nap_target: "parse_forwarder ''KERNEL32.Sleep'' =
  Some \<lparr>q_dll = ''KERNEL32.dll'', q_by_ordinal = False, q_symbol = ''Sleep'', q_ordinal = 0\<rparr>"
  using parse_forwarder_name [of "''KERNEL32''" "''Sleep''"] by (simp add: with_extension_def)

lemma nap_chain: "forward_chain sample_registry
  \<lparr>q_dll = ''fwd.dll'', q_by_ordinal = False, q_symbol = ''Nap'', q_ordinal = 0\<rparr> 1 sleep_lookup"
  unfolding One_nat_def
proof (rule chain_link)
  show "forward_chain sample_registry
      \<lparr>q_dll = ''KERNEL32.dll'', q_by_ordinal = False, q_symbol = ''Sleep'', q_ordinal = 0\<rparr> 0 sleep_lookup"
    by (rule chain_end) (simp_all add: find_direct_def sample_lookups, simp_all add: sleep_lookup_def)
qed (simp_all add: find_direct_def sample_lookups nap_target, simp_all add: sleep_lookup_def)

theorem forwarder_chain_followed_witness:
  "lk_address (find_export_forwarded sample_registry ''fwd.dll'' ''Nap'') = 0x7000"
  using forwarder_chain_followed [OF nap_chain] by (simp add: sleep_lookup_def)

text \<open>
  \<open>kernelbase.dll\<close> is served by \<open>KERNEL32.dll\<close>: a symbol it does not export itself is the
  one of that name in \<open>KERNEL32.dll\<close>.
\<close>

theorem kernelbase_served:
  assumes "is_kernelbase_dll dll" "\<not> found (find_export reg dll name)"
    and "found (find_export reg ''KERNEL32.dll'' name)"
    and "lk_forwarder (find_export reg ''KERNEL32.dll'' name) = []"
  shows "find_export_forwarded reg dll name = find_export reg ''KERNEL32.dll'' name"
  by (rule kernelbase_alias [OF assms])

theorem kernelbase_served_witness:
  "find_export_forwarded sample_registry ''kernelbase.dll'' ''Sleep'' = sleep_lookup"
  using kernelbase_served [of "''kernelbase.dll''" sample_registry "''Sleep''"]
  by (simp add: is_kernelbase_dll_def sample_lookups) (simp add: sleep_lookup_def sample_lookups)

text \<open>
  A forwarder by ordinal is parsed back: the text made of a module name, \<open>.#\<close> and the decimal
  digits of an ordinal from 1 to 65535 gives that ordinal of that module.
\<close>

theorem forwarder_ordinal_roundtrip:
  assumes "dll \<noteq> []" "0 < n" "n \<le> u16_max"
  shows "parse_forwarder (dll @ ''.#'' @ decimal n) =
    Some \<lparr>q_dll = with_extension dll, q_by_ordinal = True, q_symbol = [], q_ordinal = n\<rparr>"
  by (rule parse_forwarder_ordinal [OF assms])

theorem forwarder_ordinal_roundtrip_witness:
  "parse_forwarder ''WS2_32.#7'' =
     Some \<lparr>q_dll = ''WS2_32.dll'', q_by_ordinal = True, q_symbol = [], q_ordinal = 7\<rparr>"
  using forwarder_ordinal_roundtrip [of "''WS2_32''" 7]
  by (simp add: decimal.simps with_extension_def char_of_def bit_numeral_rec bit_Suc_0_iff)

text \<open>
  A finding. \<open>preferred_api_set_module\<close> lists \<open>api-ms-win-core-crt-\<close> among the prefixes of
  \<open>msvcrt.dll\<close>, but never gets there: the shorter prefix \<open>api-ms-win-core-\<close> is tested before,
  so every such module is given to \<open>KERNEL32.dll\<close>.
\<close>

theorem core_crt_goes_to_kernel32:
  assumes "starts_with_ci dll ''api-ms-win-core-crt-''"
  shows "preferred_api_set_module dll = ''KERNEL32.dll''"
  by (rule core_crt_shadowed [OF assms])

theorem core_crt_goes_to_kernel32_witness:
  "preferred_api_set_module ''api-ms-win-core-crt-l1-1-0.dll'' = ''KERNEL32.dll''"
  by (rule core_crt_goes_to_kernel32) (simp add: tolower_def)

end
