(* ===== verification/Import_Resolver.thy ===== *)
theory Import_Resolver
  imports Image_Patcher Module_Registry Pe_Parser
begin

text \<open>
  Resolving the imports of an image: \<open>src/loader/import_resolver.cpp\<close> and its header. Every
  imported symbol is looked up in the module registry (or, for inspection only, in the export
  table of a DLL beside the program), and the addresses found are written into the import
  address tables of the mapped image.

  The DLLs beside the requesting program are a parameter: \<open>None\<close> when there is no requester,
  otherwise the bytes \<open>find_side_by_side_dll\<close> and \<open>read_file_bytes\<close> get for a name, if any.
\<close>

subsection \<open>Data\<close>

datatype ImportStatus =
  Resolved | UnknownDll | UnknownSymbol | UnknownOrdinal | NotImpl | UnsupportedImport

text \<open>The texts of \<open>ResolvedImport.detail\<close>; \<open>NoReason\<close> is the empty string.\<close>

datatype import_reason =
    NoReason | ModuleNotRegistered | NotExportedByGuest | NotExported | LookupReason lookup_detail
  | KnownWithoutImplementation | NullSlot | SlotOutsideSections | SlotNotWritable | SlotNotFilled

record ResolvedImport =
  ri_dll :: string
  ri_by_ordinal :: bool
  ri_symbol :: string
  ri_ordinal :: u16
  ri_iat_rva :: u32
  ri_address :: u64
  ri_status :: ImportStatus
  ri_detail :: import_reason
  ri_mechanism :: mechanism
  ri_support :: ExportSupport
  ri_provider :: string

text \<open>The first failure of a result names the symbol and the reason: \<open>error_message\<close>.\<close>

record ResolveResult =
  rr_status :: ImportStatus
  rr_error :: "(string \<times> (u16 + string) \<times> import_reason) option"
  rr_imports :: "ResolvedImport list"

definition empty_result :: ResolveResult where
  "empty_result = \<lparr>rr_status = Resolved, rr_error = None, rr_imports = []\<rparr>"

type_synonym guest_files = "(string \<Rightarrow> bytes option) option"

subsection \<open>Inspecting\<close>

text \<open>\<open>fail\<close>: the entry gets the status, and the result keeps the first failure.\<close>

definition fail_import ::
    "ResolveResult \<Rightarrow> ResolvedImport \<Rightarrow> ImportStatus \<Rightarrow> import_reason \<Rightarrow> ResolveResult \<times> ResolvedImport" where
  "fail_import result entry st detail =
     (let entry' = entry\<lparr>ri_status := st, ri_detail := detail\<rparr> in
      (if rr_status result = Resolved
       then result\<lparr>rr_status := st,
              rr_error := Some (ri_dll entry,
                if ri_by_ordinal entry then Inl (ri_ordinal entry) else Inr (ri_symbol entry), detail)\<rparr>
       else result, entry'))"

definition new_entry :: "mechanism \<Rightarrow> string \<Rightarrow> ImportedSymbol \<Rightarrow> ResolvedImport" where
  "new_entry mech dll s =
     \<lparr>ri_dll = dll, ri_by_ordinal = imp_by_ordinal s,
      ri_symbol = (if imp_by_ordinal s then [] else imp_name s),
      ri_ordinal = (if imp_by_ordinal s then imp_ordinal s else 0), ri_iat_rva = iat_rva s,
      ri_address = 0, ri_status = Resolved, ri_detail = NoReason, ri_mechanism = mech,
      ri_support = Full, ri_provider = []\<rparr>"

text \<open>The description of the DLL beside the program, when it is a 64-bit DLL the reader accepts.\<close>

definition guest_dll :: "guest_files \<Rightarrow> string \<Rightarrow> PeInfo option" where
  "guest_dll guests dll =
     (case guests of None \<Rightarrow> None
      | Some files \<Rightarrow>
          (case files dll of None \<Rightarrow> None
           | Some bs \<Rightarrow>
               (case parse_pe bs of Inl e \<Rightarrow> None
                | Inr (info, ws) \<Rightarrow>
                    if is_dll info \<and> is_pe32_plus info \<and> machine info = 0x8664 then Some info else None)))"

definition guest_export :: "PeInfo \<Rightarrow> ImportedSymbol \<Rightarrow> ExportedSymbol option" where
  "guest_export info s =
     find (\<lambda>e. if imp_by_ordinal s then exp_ordinal e = imp_ordinal s
               else exp_by_name e \<and> exp_name e = imp_name s) (exports info)"

definition push_import :: "ResolveResult \<times> ResolvedImport \<Rightarrow> ResolveResult" where
  "push_import p = (case p of (result, entry) \<Rightarrow> result\<lparr>rr_imports := rr_imports result @ [entry]\<rparr>)"

definition inspect_symbol ::
    "registry \<Rightarrow> guest_files \<Rightarrow> mechanism \<Rightarrow> string \<Rightarrow> ImportedSymbol \<Rightarrow> ResolveResult \<Rightarrow> ResolveResult" where
  "inspect_symbol reg guests mech dll s result =
     (let entry = new_entry mech dll s;
          unknown = (if imp_by_ordinal s then UnknownOrdinal else UnknownSymbol)
      in push_import
        (if \<not> is_module_registered reg dll \<and> \<not> is_module_registered_forwarded reg dll then
           (case guest_dll guests dll of
              Some info \<Rightarrow>
                (case guest_export info s of
                   Some e \<Rightarrow> (result, entry\<lparr>ri_ordinal := exp_ordinal e, ri_address := 0x10000,
                               ri_support := Full, ri_provider := ''guest''\<rparr>)
                 | None \<Rightarrow> fail_import result entry unknown NotExportedByGuest)
            | None \<Rightarrow> fail_import result entry UnknownDll ModuleNotRegistered)
         else
           let lookup = (if imp_by_ordinal s
                 then find_export_by_ordinal_forwarded reg dll (imp_ordinal s)
                 else find_export_forwarded reg dll (imp_name s))
           in
           if \<not> found lookup
           then fail_import result entry unknown
                  (if lk_detail lookup = NoDetail then NotExported else LookupReason (lk_detail lookup))
           else if lk_address lookup = 0
           then fail_import result (entry\<lparr>ri_ordinal := lk_ordinal lookup\<rparr>) NotImpl
                  KnownWithoutImplementation
           else (result, entry\<lparr>ri_ordinal := lk_ordinal lookup, ri_address := lk_address lookup,
                   ri_support := lk_support lookup\<rparr>)))"

definition inspect_group ::
    "registry \<Rightarrow> guest_files \<Rightarrow> mechanism \<Rightarrow> ImportedDll list \<Rightarrow> ResolveResult \<Rightarrow> ResolveResult" where
  "inspect_group reg guests mech dlls result =
     fold (\<lambda>d. fold (inspect_symbol reg guests mech (dll_name d)) (symbols d)) dlls result"

definition inspect_imports :: "registry \<Rightarrow> PeInfo \<Rightarrow> guest_files \<Rightarrow> ResolveResult" where
  "inspect_imports reg info guests =
     inspect_group reg guests Delay (delay_imports info)
       (inspect_group reg guests Static (imports' info) empty_result)"

subsection \<open>Patching the address tables\<close>

definition address_le :: "u64 \<Rightarrow> bytes" where
  "address_le address =
     map word_of_nat
       [address AND 0xFF, drop_bit 8 address AND 0xFF, drop_bit 16 address AND 0xFF,
        drop_bit 24 address AND 0xFF, drop_bit 32 address AND 0xFF, drop_bit 40 address AND 0xFF,
        drop_bit 48 address AND 0xFF, drop_bit 56 address AND 0xFF]"

definition patch_address ::
    "Os \<Rightarrow> nat \<Rightarrow> MappedImage \<Rightarrow> ResolvedImport \<Rightarrow> MappedImage \<times> ResolvedImport" where
  "patch_address os page img entry =
     (if ri_iat_rva entry = 0
      then (img, entry\<lparr>ri_status := UnsupportedImport, ri_detail := NullSlot\<rparr>)
      else (case write_image_bytes os page img (ri_iat_rva entry) (Some (address_le (ri_address entry))) of
          (patch, img') \<Rightarrow>
            if patch \<noteq> PatchSuccess
            then (img', entry\<lparr>ri_status := UnsupportedImport,
                    ri_detail := if patch = InvalidAddress then SlotOutsideSections else SlotNotWritable\<rparr>)
            else (img', entry)))"

text \<open>The loop of \<open>resolve_imports\<close>; a delayed import is patched only when it has an address.\<close>

definition needs_patch :: "ResolvedImport \<Rightarrow> bool" where
  "needs_patch entry =
     (if ri_mechanism entry = Delay then ri_status entry = Resolved \<and> ri_address entry \<noteq> 0
      else ri_status entry = Resolved)"

fun resolve_entries ::
    "Os \<Rightarrow> nat \<Rightarrow> ResolvedImport list \<Rightarrow> MappedImage \<times> ResolveResult \<Rightarrow> MappedImage \<times> ResolveResult" where
  "resolve_entries os page [] st = st"
| "resolve_entries os page (entry # es) (img, result) =
     (if needs_patch entry then
        (case patch_address os page img entry of
           (img', entry') \<Rightarrow>
             resolve_entries os page es
               (img', push_import
                  (if ri_status entry' \<noteq> Resolved
                   then fail_import result entry' (ri_status entry') (ri_detail entry')
                   else (result, entry'))))
      else resolve_entries os page es (img, push_import (result, entry)))"

definition resolve_imports ::
    "Os \<Rightarrow> nat \<Rightarrow> registry \<Rightarrow> MappedImage \<Rightarrow> PeInfo \<Rightarrow> MappedImage \<times> ResolveResult" where
  "resolve_imports os page reg img info =
     (let result = inspect_imports reg info None in
      resolve_entries os page (rr_imports result) (img, result\<lparr>rr_imports := []\<rparr>))"

subsection \<open>What inspection guarantees\<close>

text \<open>Every entry has its status, and the status of the result is that of the first failure.\<close>

definition first_failure :: "ResolvedImport list \<Rightarrow> ImportStatus" where
  "first_failure es = (case find (\<lambda>e. ri_status e \<noteq> Resolved) es of
     None \<Rightarrow> Resolved | Some e \<Rightarrow> ri_status e)"

lemma first_failure_snoc:
  "first_failure (es @ [e]) = (if first_failure es = Resolved then ri_status e else first_failure es)"
proof (induction es)
  case Nil
  then show ?case by (simp add: first_failure_def)
next
  case (Cons a es)
  then show ?case by (simp add: first_failure_def)
qed

text \<open>
  The entry of a symbol: it is about that symbol, and when it is resolved it has an address, of
  an export that answers the query in the registry or, outside it, of a guest DLL.
\<close>

definition symbol_query :: "string \<Rightarrow> ImportedSymbol \<Rightarrow> ForwarderQuery" where
  "symbol_query dll s = \<lparr>q_dll = dll, q_by_ordinal = imp_by_ordinal s,
     q_symbol = (if imp_by_ordinal s then [] else imp_name s),
     q_ordinal = (if imp_by_ordinal s then imp_ordinal s else 0)\<rparr>"

definition entry_for ::
    "registry \<Rightarrow> guest_files \<Rightarrow> mechanism \<Rightarrow> string \<Rightarrow> ImportedSymbol \<Rightarrow> ResolvedImport \<Rightarrow> bool" where
  "entry_for reg guests mech dll s e \<longleftrightarrow>
     ri_dll e = dll \<and> ri_mechanism e = mech \<and> ri_iat_rva e = iat_rva s \<and>
     ri_by_ordinal e = imp_by_ordinal s \<and>
     (ri_status e = Resolved \<longrightarrow> ri_address e \<noteq> 0 \<and>
        (if ri_provider e = ''guest''
         then \<exists>info x. guest_dll guests dll = Some info \<and> guest_export info s = Some x \<and>
                ri_address e = 0x10000
         else \<exists>l. answers reg (symbol_query dll s) l \<and> lk_address l = ri_address e \<and>
                lk_ordinal l = ri_ordinal e \<and> lk_support l = ri_support e))"

lemma fail_import_cases:
  "fail_import result entry st detail =
     ((if rr_status result = Resolved
       then result\<lparr>rr_status := st, rr_error := rr_error (fst (fail_import result entry st detail))\<rparr>
       else result), entry\<lparr>ri_status := st, ri_detail := detail\<rparr>)"
  by (simp add: fail_import_def Let_def)

lemma rr_fail_import [simp]:
  "rr_imports (fst (fail_import result entry st detail)) = rr_imports result"
  "rr_status (fst (fail_import result entry st detail)) =
     (if rr_status result = Resolved then st else rr_status result)"
  "snd (fail_import result entry st detail) = entry\<lparr>ri_status := st, ri_detail := detail\<rparr>"
  by (simp_all add: fail_import_def Let_def)

lemma rr_push_import [simp]:
  "rr_imports (push_import p) = rr_imports (fst p) @ [snd p]"
  "rr_status (push_import p) = rr_status (fst p)"
  by (simp_all add: push_import_def split_beta)

lemma lookup_answers:
  assumes "lookup = (if imp_by_ordinal s then find_export_by_ordinal_forwarded reg dll (imp_ordinal s)
      else find_export_forwarded reg dll (imp_name s))" "found lookup"
  shows "answers reg (symbol_query dll s) lookup"
  using assms resolve_forwarder_sound [of 32 reg "[]"]
  by (auto simp: symbol_query_def find_export_by_ordinal_forwarded_def find_export_forwarded_def
      kMaxForwarderDepth_def split: if_split_asm)

text \<open>The outcome of one symbol: a result with the entry, and a failure noted if it is the first.\<close>

definition outcome_ok ::
    "registry \<Rightarrow> guest_files \<Rightarrow> mechanism \<Rightarrow> string \<Rightarrow> ImportedSymbol \<Rightarrow>
     ResolveResult \<Rightarrow> ResolveResult \<times> ResolvedImport \<Rightarrow> bool" where
  "outcome_ok reg guests mech dll s result p \<longleftrightarrow>
     rr_imports (fst p) = rr_imports result \<and> entry_for reg guests mech dll s (snd p) \<and>
     rr_status (fst p) = (if rr_status result = Resolved then ri_status (snd p) else rr_status result)"

lemma outcome_fail:
  assumes "st \<noteq> Resolved" "ri_dll e = dll" "ri_mechanism e = mech" "ri_iat_rva e = iat_rva s"
    "ri_by_ordinal e = imp_by_ordinal s"
  shows "outcome_ok reg guests mech dll s result (fail_import result e st detail)"
  using assms by (simp add: outcome_ok_def entry_for_def)

lemma new_entry_simps [simp]:
  "ri_dll (new_entry mech dll s) = dll" "ri_mechanism (new_entry mech dll s) = mech"
  "ri_iat_rva (new_entry mech dll s) = iat_rva s"
  "ri_by_ordinal (new_entry mech dll s) = imp_by_ordinal s"
  "ri_status (new_entry mech dll s) = Resolved" "ri_provider (new_entry mech dll s) = []"
  by (simp_all add: new_entry_def)

lemma inspect_symbol_spec:
  "\<exists>p. inspect_symbol reg guests mech dll s result = push_import p \<and>
    outcome_ok reg guests mech dll s result p"
proof -
  let ?e = "new_entry mech dll s"
  have failed: "outcome_ok reg guests mech dll s result (fail_import result e st detail)"
    if "st \<noteq> Resolved" "e = ?e \<or> e = ?e\<lparr>ri_ordinal := n\<rparr>" for st e n detail
    by (rule outcome_fail) (use that in auto)
  define lookup where "lookup = (if imp_by_ordinal s then find_export_by_ordinal_forwarded reg dll (imp_ordinal s)
      else find_export_forwarded reg dll (imp_name s))"
  show ?thesis
  proof (cases "\<not> is_module_registered reg dll \<and> \<not> is_module_registered_forwarded reg dll")
    case unknown: True
    show ?thesis
    proof (cases "guest_dll guests dll")
      case None
      with unknown show ?thesis
        by (intro exI conjI, simp add: inspect_symbol_def Let_def, intro failed) simp_all
    next
      case (Some info)
      show ?thesis
      proof (cases "guest_export info s")
        case None
        with unknown Some show ?thesis
          by (intro exI conjI, simp add: inspect_symbol_def Let_def, intro failed) simp_all
      next
        case (Some x)
        with unknown \<open>guest_dll guests dll = Some info\<close> show ?thesis
          by (intro exI conjI, simp add: inspect_symbol_def Let_def)
            (simp add: outcome_ok_def entry_for_def)
      qed
    qed
  next
    case False
    then have k: "(\<not> is_module_registered reg dll \<and> \<not> is_module_registered_forwarded reg dll) = False"
      by blast
    show ?thesis
    proof (cases "found lookup \<and> lk_address lookup \<noteq> 0")
      case True
      have "answers reg (symbol_query dll s) lookup"
        by (rule lookup_answers [OF lookup_def]) (use True in simp)
      then have "outcome_ok reg guests mech dll s result
          (result, ?e\<lparr>ri_ordinal := lk_ordinal lookup, ri_address := lk_address lookup,
             ri_support := lk_support lookup\<rparr>)"
        using True by (auto simp: outcome_ok_def entry_for_def)
      then show ?thesis using True
        unfolding inspect_symbol_def k Let_def lookup_def [symmetric] by auto
    next
      case False
      let ?unknown = "if imp_by_ordinal s then UnknownOrdinal else UnknownSymbol"
      let ?reason = "if lk_detail lookup = NoDetail then NotExported else LookupReason (lk_detail lookup)"
      have "inspect_symbol reg guests mech dll s result = push_import
          (if found lookup
           then fail_import result (?e\<lparr>ri_ordinal := lk_ordinal lookup\<rparr>) NotImpl KnownWithoutImplementation
           else fail_import result ?e ?unknown ?reason)"
        using False unfolding inspect_symbol_def k Let_def lookup_def [symmetric] by auto
      moreover have "outcome_ok reg guests mech dll s result
          (fail_import result (?e\<lparr>ri_ordinal := lk_ordinal lookup\<rparr>) NotImpl KnownWithoutImplementation)"
        "outcome_ok reg guests mech dll s result (fail_import result ?e ?unknown ?reason)"
        by (rule failed [where n = "lk_ordinal lookup"]; simp)+
      ultimately show ?thesis by (cases "found lookup") (simp_all only: if_True if_False, blast+)
    qed
  qed
qed

text \<open>The symbols of an image, in the order they are inspected.\<close>

definition wanted :: "mechanism \<Rightarrow> ImportedDll list \<Rightarrow> (mechanism \<times> string \<times> ImportedSymbol) list" where
  "wanted mech dlls = concat (map (\<lambda>d. map (\<lambda>s. (mech, dll_name d, s)) (symbols d)) dlls)"

definition matches ::
    "registry \<Rightarrow> guest_files \<Rightarrow> (mechanism \<times> string \<times> ImportedSymbol) list \<Rightarrow> ResolveResult \<Rightarrow> bool" where
  "matches reg guests ws result \<longleftrightarrow>
     list_all2 (\<lambda>(mech, dll, s) e. entry_for reg guests mech dll s e) ws (rr_imports result) \<and>
     rr_status result = first_failure (rr_imports result)"

lemma inspect_symbol_matches:
  assumes "matches reg guests ws result"
  shows "matches reg guests (ws @ [(mech, dll, s)]) (inspect_symbol reg guests mech dll s result)"
proof -
  from inspect_symbol_spec obtain p where "inspect_symbol reg guests mech dll s result = push_import p"
    "outcome_ok reg guests mech dll s result p" by blast
  with assms show ?thesis
    by (simp add: matches_def outcome_ok_def first_failure_snoc list_all2_appendI)
qed

lemma inspect_symbols_matches:
  "matches reg guests ws result \<Longrightarrow>
     matches reg guests (ws @ map (\<lambda>s. (mech, dll, s)) ss)
       (fold (inspect_symbol reg guests mech dll) ss result)"
proof (induction ss arbitrary: ws result)
  case Nil
  then show ?case by simp
next
  case (Cons s ss)
  from Cons.IH [OF inspect_symbol_matches [OF Cons.prems]] show ?case by simp
qed

lemma inspect_group_matches:
  "matches reg guests ws result \<Longrightarrow>
     matches reg guests (ws @ wanted mech dlls) (inspect_group reg guests mech dlls result)"
  unfolding inspect_group_def
proof (induction dlls arbitrary: ws result)
  case Nil
  then show ?case by (simp add: wanted_def)
next
  case (Cons d dlls)
  from Cons.IH [OF inspect_symbols_matches [OF Cons.prems, of mech "dll_name d" "symbols d"]]
  show ?case by (simp add: wanted_def)
qed

lemma inspect_imports_matches:
  "matches reg guests (wanted Static (imports' info) @ wanted Delay (delay_imports info))
     (inspect_imports reg info guests)"
proof -
  have "matches reg guests [] empty_result"
    by (simp add: matches_def empty_result_def first_failure_def)
  from inspect_group_matches [OF inspect_group_matches [OF this]]
  show ?thesis by (simp add: inspect_imports_def)
qed

subsection \<open>What resolving guarantees\<close>

text \<open>The bytes of an address are those of the relocation routine's 64-bit store.\<close>

lemma address_le_eq: "address_le a = le_bytes a"
  by (simp add: address_le_def le_bytes_def upt_8)

lemma length_address_le [simp]: "length (address_le a) = 8"
  by (simp add: address_le_def)

text \<open>The patches the loop asks for, in order.\<close>

definition slots :: "ResolvedImport list \<Rightarrow> (u32 \<times> bytes) list" where
  "slots es = map (\<lambda>e. (ri_iat_rva e, address_le (ri_address e)))
     (filter (\<lambda>e. needs_patch e \<and> ri_iat_rva e \<noteq> 0) es)"

lemma slots_Cons:
  "slots (e # es) = (if needs_patch e \<and> ri_iat_rva e \<noteq> 0
     then (ri_iat_rva e, address_le (ri_address e)) # slots es else slots es)"
  by (simp add: slots_def)

lemma patch_address_image:
  "fst (patch_address os page img e) =
     (if ri_iat_rva e = 0 then img
      else snd (patch_image os page img (ri_iat_rva e) (address_le (ri_address e))))"
  by (simp add: patch_address_def patch_image_def split: prod.split)

lemma resolve_entries_image:
  "fst (resolve_entries os page es (img, result)) = snd (patcher.patch_all os page (slots es) img)"
proof (induction es arbitrary: img result)
  case Nil
  then show ?case by (simp add: slots_def)
next
  case (Cons e es)
  show ?case
  proof (cases "needs_patch e")
    case False
    then show ?thesis using Cons.IH by (simp add: slots_Cons)
  next
    case True
    then show ?thesis using Cons.IH patch_address_image [of os page img e]
      by (simp add: slots_Cons patcher.patch_all_Cons split_beta)
  qed
qed

lemma resolve_imports_image:
  "fst (resolve_imports os page reg img info) =
     snd (patcher.patch_all os page (slots (rr_imports (inspect_imports reg info None))) img)"
  by (simp add: resolve_imports_def Let_def resolve_entries_image)

text \<open>
  The entries after the loop: one for each before it, which keeps its symbol, its slot and its
  address; one that is still resolved had its patch succeed.
\<close>

definition same_import :: "ResolvedImport \<Rightarrow> ResolvedImport \<Rightarrow> bool" where
  "same_import e e' \<longleftrightarrow> ri_dll e' = ri_dll e \<and> ri_symbol e' = ri_symbol e \<and>
     ri_iat_rva e' = ri_iat_rva e \<and> ri_address e' = ri_address e \<and> ri_mechanism e' = ri_mechanism e \<and>
     (ri_status e' = Resolved \<longrightarrow> e' = e)"

lemma patch_address_entry:
  "same_import e (snd (patch_address os page img e))"
  "ri_status (snd (patch_address os page img e)) = Resolved \<Longrightarrow>
     ri_iat_rva e \<noteq> 0 \<and> fst (patch_image os page img (ri_iat_rva e) (address_le (ri_address e)))"
  by (auto simp: patch_address_def patch_image_def same_import_def split: prod.split if_split_asm)

definition written :: "Os \<Rightarrow> nat \<Rightarrow> ResolvedImport list \<Rightarrow> MappedImage \<Rightarrow> ResolvedImport \<Rightarrow> bool" where
  "written os page es img e \<longleftrightarrow>
     (\<exists>j < length (slots es). slots es ! j = (ri_iat_rva e, address_le (ri_address e)) \<and>
        fst (patcher.patch_all os page (slots es) img) ! j)"

lemma written_here:
  assumes "needs_patch e" "ri_iat_rva e \<noteq> 0"
    "fst (patch_image os page img (ri_iat_rva e) (address_le (ri_address e)))"
  shows "written os page (e # es) img e"
  unfolding written_def by (rule exI [of _ 0]) (use assms in \<open>simp add: slots_Cons patcher.patch_all_Cons\<close>)

lemma written_later:
  assumes "written os page es (if needs_patch e' then fst (patch_address os page img e') else img) e"
  shows "written os page (e' # es) img e"
proof -
  let ?img = "if needs_patch e' then fst (patch_address os page img e') else img"
  from assms obtain j where j: "j < length (slots es)"
    "slots es ! j = (ri_iat_rva e, address_le (ri_address e))"
    "fst (patcher.patch_all os page (slots es) ?img) ! j" by (auto simp: written_def)
  show ?thesis
  proof (cases "needs_patch e' \<and> ri_iat_rva e' \<noteq> 0")
    case True
    then show ?thesis unfolding written_def
      by (intro exI [of _ "Suc j"]) (use j in \<open>simp add: slots_Cons patcher.patch_all_Cons patch_address_image\<close>)
  next
    case False
    then have "?img = img" by (auto simp: patch_address_image)
    then show ?thesis unfolding written_def
      by (intro exI [of _ j]) (use j False in \<open>auto simp: slots_Cons\<close>)
  qed
qed

lemma resolve_entries_imports:
  assumes "\<forall>e \<in> set es. ri_status e = Resolved \<longrightarrow> ri_address e \<noteq> 0"
  shows "\<exists>es'. rr_imports (snd (resolve_entries os page es (img, result))) = rr_imports result @ es' \<and>
    list_all2 same_import es es' \<and>
    (\<forall>e \<in> set es'. ri_status e = Resolved \<longrightarrow> written os page es img e)"
  using assms
proof (induction es arbitrary: img result)
  case Nil
  then show ?case by simp
next
  case (Cons e es)
  define img' where "img' = (if needs_patch e then fst (patch_address os page img e) else img)"
  define e' where "e' = (if needs_patch e then snd (patch_address os page img e) else e)"
  have step: "\<exists>result'. resolve_entries os page (e # es) (img, result) = resolve_entries os page es (img', result') \<and>
      rr_imports result' = rr_imports result @ [e']"
  proof (cases "needs_patch e")
    case False
    then show ?thesis by (intro exI [of _ "push_import (result, e)"]) (simp add: img'_def e'_def)
  next
    case True
    have keep: "e'\<lparr>ri_status := ri_status e', ri_detail := ri_detail e'\<rparr> = e'" by simp
    with True show ?thesis
      by (intro exI [of _ "push_import (if ri_status e' \<noteq> Resolved
            then fail_import result e' (ri_status e') (ri_detail e') else (result, e'))"])
        (auto simp: img'_def e'_def split_beta)
  qed
  then obtain result' where r: "resolve_entries os page (e # es) (img, result) = resolve_entries os page es (img', result')"
    "rr_imports result' = rr_imports result @ [e']" by blast
  obtain es' where es': "rr_imports (snd (resolve_entries os page es (img', result'))) = rr_imports result' @ es'"
    "list_all2 same_import es es'" "\<forall>e \<in> set es'. ri_status e = Resolved \<longrightarrow> written os page es img' e"
    using Cons.IH [of img' result'] Cons.prems by auto
  have same: "same_import e e'"
    using patch_address_entry(1) [of e os page img] by (simp add: e'_def same_import_def)
  have here: "written os page (e # es) img e'" if "ri_status e' = Resolved"
  proof -
    have eq: "e' = e" using same that by (simp add: same_import_def)
    have np: "needs_patch e" using that Cons.prems unfolding eq by (simp add: needs_patch_def)
    then have "ri_status (snd (patch_address os page img e)) = Resolved" using that by (simp add: e'_def)
    from patch_address_entry(2) [OF this] np show ?thesis unfolding eq by (simp add: written_here)
  qed
  have "\<forall>x \<in> set (e' # es'). ri_status x = Resolved \<longrightarrow> written os page (e # es) img x"
    using here es'(3) written_later [of os page es e img] by (auto simp: img'_def)
  then show ?case using r es' same by (intro exI [of _ "e' # es'"]) simp
qed


text \<open>Resolved entries of the inspection have an address, so the loop patches each of them.\<close>

lemma inspect_addresses:
  "\<forall>e \<in> set (rr_imports (inspect_imports reg info guests)). ri_status e = Resolved \<longrightarrow> ri_address e \<noteq> 0"
proof
  fix e assume "e \<in> set (rr_imports (inspect_imports reg info guests))"
  then obtain mech dll s where "entry_for reg guests mech dll s e"
    using inspect_imports_matches [of reg guests info]
    by (fastforce simp: matches_def list_all2_conv_all_nth in_set_conv_nth)
  then show "ri_status e = Resolved \<longrightarrow> ri_address e \<noteq> 0" by (simp add: entry_for_def)
qed

lemma resolve_imports_entries:
  "\<exists>es'. rr_imports (snd (resolve_imports os page reg img info)) = es' \<and>
    list_all2 same_import (rr_imports (inspect_imports reg info None)) es' \<and>
    (\<forall>e \<in> set es'. ri_status e = Resolved \<longrightarrow>
       written os page (rr_imports (inspect_imports reg info None)) img e)"
  using resolve_entries_imports [OF inspect_addresses [of reg info None], of os page img
      "(inspect_imports reg info None)\<lparr>rr_imports := []\<rparr>"]
  by (simp add: resolve_imports_def Let_def)

lemma resolve_imports_stores:
  assumes "good_image page img" "resolve_imports os page reg img info = (img', result)"
    and "patcher.apart (slots (rr_imports (inspect_imports reg info None)))"
    and "e \<in> set (rr_imports result)" "ri_status e = Resolved" "ri_address e \<le> u64_max"
  shows "ri_iat_rva e + 8 \<le> length (image_bytes img') \<and> le64 (image_bytes img') (ri_iat_rva e) = ri_address e"
proof -
  let ?es = "rr_imports (inspect_imports reg info None)"
  have img': "img' = snd (patcher.patch_all os page (slots ?es) img)"
    using resolve_imports_image [of os page reg img info] assms(2) by simp
  have "written os page ?es img e"
    using resolve_imports_entries [of os page reg img info] assms(2,4,5) by auto
  then obtain j where j: "j < length (slots ?es)" "slots ?es ! j = (ri_iat_rva e, address_le (ri_address e))"
    "fst (patcher.patch_all os page (slots ?es) img) ! j" by (auto simp: written_def)
  have k: "ri_iat_rva e + k < length (image_bytes img) \<and> image_bytes img' ! (ri_iat_rva e + k) = le_bytes (ri_address e) ! k"
    if "k < 8" for k
    using patcher.patch_all_stores [OF assms(1,3) j(1,3,2), of k] that
    by (simp add: img' address_le_eq)
  have "length (image_bytes img') = length (image_bytes img)"
    unfolding img' by (rule patcher.patch_all_length [OF assms(1)])
  moreover have "ri_iat_rva e + 8 \<le> length (image_bytes img)" using k [of 7] by simp
  moreover have "le64 (image_bytes img') (ri_iat_rva e) = le64 (le_bytes (ri_address e)) 0"
    by (rule le64_cong) (use k in simp)
  ultimately show ?thesis using le64_le_bytes [of "ri_address e"] assms(6) by simp
qed

lemma resolve_imports_frame:
  assumes "good_image page img" "resolve_imports os page reg img info = (img', result)"
  shows "good_image page img'" "length (image_bytes img') = length (image_bytes img)"
    "i < length (image_bytes img) \<Longrightarrow>
       \<forall>(rva, d) \<in> set (slots (rr_imports (inspect_imports reg info None))). i < rva \<or> rva + length d \<le> i \<Longrightarrow>
       image_bytes img' ! i = image_bytes img ! i"
proof -
  have img': "img' = snd (patcher.patch_all os page (slots (rr_imports (inspect_imports reg info None))) img)"
    using resolve_imports_image [of os page reg img info] assms(2) by simp
  show "good_image page img'" unfolding img' by (rule patcher.patch_all_good [OF assms(1)])
  show "length (image_bytes img') = length (image_bytes img)"
    unfolding img' by (rule patcher.patch_all_length [OF assms(1)])
  show "image_bytes img' ! i = image_bytes img ! i"
    if "i < length (image_bytes img)"
      "\<forall>(rva, d) \<in> set (slots (rr_imports (inspect_imports reg info None))). i < rva \<or> rva + length d \<le> i"
    unfolding img' by (rule patcher.patch_all_other [OF assms(1) that])
qed

end
