(* ===== verification/Dll_Overrides.thy ===== *)
theory Dll_Overrides
  imports Basics
begin

text \<open>
  Which implementation of a DLL is preferred: \<open>src/loader/dll_overrides.cpp\<close> and its header.
  The state is the table of modes and the flag that the environment has been read; the value of
  \<open>TL_DLL_OVERRIDES\<close> is an argument. The mutex is not modelled.
\<close>

datatype DllOverrideMode = BuiltinFirst | NativeFirst | BuiltinOnly | NativeOnly

record overrides =
  g_overrides :: "string \<rightharpoonup> DllOverrideMode"
  g_env_loaded :: bool

definition initial_overrides :: overrides where
  "initial_overrides = \<lparr>g_overrides = Map.empty, g_env_loaded = False\<rparr>"

definition ends_with :: "string \<Rightarrow> string \<Rightarrow> bool" where
  "ends_with s t \<longleftrightarrow> length t \<le> length s \<and> drop (length s - length t) s = t"

definition normalize_dll_name :: "string \<Rightarrow> string" where
  "normalize_dll_name name =
     (let result = map (\<lambda>c. char_of (tolower c)) name in
      if ends_with result ''.dll'' then result else result @ ''.dll'')"

definition set_dll_override :: "string \<Rightarrow> DllOverrideMode \<Rightarrow> overrides \<Rightarrow> overrides" where
  "set_dll_override dll mode st =
     st\<lparr>g_overrides := (g_overrides st)(normalize_dll_name dll \<mapsto> mode)\<rparr>"

text \<open>The tokens that \<open>std::getline\<close> reads up to a separator; no token follows a final one.\<close>

fun split_at :: "char \<Rightarrow> string \<Rightarrow> string \<Rightarrow> string list" where
  "split_at sep [] token = (if token = [] then [] else [token])"
| "split_at sep (c # cs) token =
     (if c = sep then token # split_at sep cs [] else split_at sep cs (token @ [c]))"

definition parse_mode :: "string \<Rightarrow> DllOverrideMode" where
  "parse_mode s =
     (if s = ''n'' \<or> s = ''native'' \<or> s = ''native_first'' then NativeFirst
      else if s = ''b'' \<or> s = ''builtin'' \<or> s = ''builtin_first'' then BuiltinFirst
      else if s = ''no'' \<or> s = ''native_only'' then NativeOnly
      else if s = ''bo'' \<or> s = ''builtin_only'' then BuiltinOnly
      else BuiltinFirst)"

definition apply_token ::
    "string \<Rightarrow> (string \<rightharpoonup> DllOverrideMode) \<Rightarrow> (string \<rightharpoonup> DllOverrideMode)" where
  "apply_token token table =
     (let name = takeWhile (\<lambda>c. c \<noteq> CHR ''='') token in
      if CHR ''='' \<notin> set token \<or> name = [] then table
      else table(normalize_dll_name name \<mapsto> parse_mode (drop (length name + 1) token)))"

definition load_dll_overrides_from_env :: "string option \<Rightarrow> overrides \<Rightarrow> overrides" where
  "load_dll_overrides_from_env env st =
     (if g_env_loaded st then st
      else case env of
        None \<Rightarrow> st\<lparr>g_env_loaded := True\<rparr>
      | Some text \<Rightarrow>
          if text = [] then st\<lparr>g_env_loaded := True\<rparr>
          else st\<lparr>g_env_loaded := True,
                  g_overrides := fold apply_token (split_at (CHR '','') text []) (g_overrides st)\<rparr>)"

definition get_dll_override ::
    "string option \<Rightarrow> string \<Rightarrow> overrides \<Rightarrow> DllOverrideMode \<times> overrides" where
  "get_dll_override env dll st =
     (let st' = load_dll_overrides_from_env env st in
      (case g_overrides st' (normalize_dll_name dll) of
         Some mode \<Rightarrow> mode
       | None \<Rightarrow> BuiltinFirst, st'))"

subsection \<open>Names\<close>

lemma tolower_idem: "tolower (char_of (tolower c) :: char) = tolower c"
proof -
  have "of_char c < (256::nat)" by simp
  then have "tolower c < 256" by (auto simp: tolower_def Let_def)
  then have "of_char (char_of (tolower c) :: char) = tolower c" by simp
  moreover have "\<not> (65 \<le> tolower c \<and> tolower c \<le> 90)" by (auto simp: tolower_def Let_def)
  ultimately show ?thesis by (simp add: tolower_def [of "char_of (tolower c)"] Let_def)
qed

lemma lowered_idem: "map (\<lambda>c. char_of (tolower c)) (map (\<lambda>c. char_of (tolower c)) s) =
    (map (\<lambda>c. char_of (tolower c)) s :: string)"
  by (simp add: tolower_idem)

text \<open>Normalising twice changes nothing more, and names that differ in case are the same name.\<close>

lemma normalize_idem: "normalize_dll_name (normalize_dll_name s) = normalize_dll_name s"
proof -
  define l :: "string \<Rightarrow> string" where "l = map (\<lambda>c. char_of (tolower c))"
  have ext: "l ''.dll'' = ''.dll''" by (simp add: l_def tolower_def Let_def char_of_def bit_0)
  have idem: "l (l t) = l t" for t unfolding l_def by (rule lowered_idem)
  have app: "l (t @ u) = l t @ l u" for t u by (simp add: l_def)
  have norm: "normalize_dll_name t = (if ends_with (l t) ''.dll'' then l t else l t @ ''.dll'')" for t
    by (simp add: normalize_dll_name_def l_def Let_def)
  have "ends_with (t @ ''.dll'') ''.dll''" for t by (simp add: ends_with_def)
  then show ?thesis by (simp add: norm idem app ext)
qed

lemma normalize_cong: "lowered a = lowered b \<Longrightarrow> normalize_dll_name a = normalize_dll_name b"
proof -
  assume "lowered a = lowered b"
  then have "map char_of (lowered a) = (map char_of (lowered b) :: string)" by simp
  then show ?thesis by (simp add: normalize_dll_name_def comp_def)
qed

subsection \<open>Modes\<close>

lemma load_env_idem:
  "load_dll_overrides_from_env env (load_dll_overrides_from_env env' st) = load_dll_overrides_from_env env' st"
  by (auto simp: load_dll_overrides_from_env_def split: option.split)

text \<open>
  Once the environment has been read, a mode that is set is the mode that is got, and others
  are untouched.
\<close>

lemma get_set_override:
  assumes "g_env_loaded st"
  shows "fst (get_dll_override env a (set_dll_override b mode st)) =
    (if normalize_dll_name a = normalize_dll_name b then mode else fst (get_dll_override env a st))"
  using assms by (simp add: get_dll_override_def set_dll_override_def load_dll_overrides_from_env_def Let_def)

text \<open>
  Before that, the environment overrides what was set: the first \<open>get_dll_override\<close> reads it
  over the table.
\<close>

lemma set_override_lost:
  "fst (get_dll_override (Some ''a=n'') ''a'' (set_dll_override ''a'' BuiltinOnly initial_overrides)) =
    NativeFirst"
  by (simp add: get_dll_override_def set_dll_override_def load_dll_overrides_from_env_def
      initial_overrides_def apply_token_def parse_mode_def normalize_dll_name_def Let_def)

subsection \<open>Properties\<close>

text \<open>
  Once the environment has been read, the mode set for a DLL is the mode got for every spelling
  of its name, with or without the extension and in any case, and no other DLL is affected.
\<close>

theorem override_set_then_got:
  assumes "g_env_loaded st"
  shows "fst (get_dll_override env a (set_dll_override b mode st)) =
    (if normalize_dll_name a = normalize_dll_name b then mode else fst (get_dll_override env a st))"
  by (rule get_set_override [OF assms])

theorem override_set_then_got_witness:
  "fst (get_dll_override None ''D3D9'' (set_dll_override ''d3d9.dll'' NativeOnly (initial_overrides\<lparr>g_env_loaded := True\<rparr>))) =
     NativeOnly"
proof -
  have "normalize_dll_name ''D3D9'' = normalize_dll_name ''d3d9.dll''"
    by (simp add: normalize_dll_name_def ends_with_def tolower_def char_of_def bit_numeral_rec bit_Suc_0_iff)
  then show ?thesis using override_set_then_got [of "initial_overrides\<lparr>g_env_loaded := True\<rparr>"] by simp
qed

text \<open>
  A finding. Before the environment has been read, a mode that is set explicitly is lost: the
  first \<open>get_dll_override\<close> reads the variable over it.
\<close>

theorem early_override_lost:
  "fst (get_dll_override (Some ''a=n'') ''a'' (set_dll_override ''a'' BuiltinOnly initial_overrides)) =
    NativeFirst"
  by (rule set_override_lost)

end
