(* ===== verification/Error_Map.thy ===== *)
theory Error_Map
  imports Prelude
begin

text \<open>
  The translation of host errors to Win32 errors: \<open>include/tradutorlinux/runtime/error_map.hpp\<close>,
  with the \<open>errno\<close> values of Linux on x86-64.
\<close>

definition kSuccess :: u32 where "kSuccess = 0"
definition kFileNotFound :: u32 where "kFileNotFound = 2"
definition kPathNotFound :: u32 where "kPathNotFound = 3"
definition kAccessDenied :: u32 where "kAccessDenied = 5"
definition kInvalidHandle :: u32 where "kInvalidHandle = 6"
definition kNotEnoughMemory :: u32 where "kNotEnoughMemory = 8"
definition kSharingViolation :: u32 where "kSharingViolation = 32"
definition kInvalidParameter :: u32 where "kInvalidParameter = 87"
definition kBrokenPipe :: u32 where "kBrokenPipe = 109"
definition kDiskFull :: u32 where "kDiskFull = 112"
definition kAlreadyExists :: u32 where "kAlreadyExists = 183"
definition kDirectoryNotEmpty :: u32 where "kDirectoryNotEmpty = 145"
definition kConnectionRefused :: u32 where "kConnectionRefused = 10061"
definition kTimedOut :: u32 where "kTimedOut = 10060"
definition kAddressInUse :: u32 where "kAddressInUse = 10048"

lemmas win_errors [eval_simps] =
  kSuccess_def kFileNotFound_def kPathNotFound_def kAccessDenied_def kInvalidHandle_def
  kNotEnoughMemory_def kSharingViolation_def kInvalidParameter_def kBrokenPipe_def kDiskFull_def
  kAlreadyExists_def kDirectoryNotEmpty_def kConnectionRefused_def kTimedOut_def kAddressInUse_def

text \<open>The host errors the switch names, by number.\<close>

definition errno_values :: "(string \<times> int) list" where
  "errno_values = [(''EPERM'', 1), (''ENOENT'', 2), (''EBADF'', 9), (''ENOMEM'', 12), (''EACCES'', 13),
     (''EBUSY'', 16), (''EEXIST'', 17), (''ENOTDIR'', 20), (''EISDIR'', 21), (''EINVAL'', 22),
     (''ETXTBSY'', 26), (''ENOSPC'', 28), (''EROFS'', 30), (''EPIPE'', 32), (''ENOTEMPTY'', 39),
     (''EADDRINUSE'', 98), (''ETIMEDOUT'', 110), (''ECONNREFUSED'', 111)]"

definition errno_is :: "string \<Rightarrow> int \<Rightarrow> bool" where
  "errno_is s e \<longleftrightarrow> map_of errno_values s = Some e"

definition errno_to_win32 :: "int \<Rightarrow> u32" where
  "errno_to_win32 e =
     (if e = 0 then kSuccess
      else if errno_is ''ENOENT'' e then kFileNotFound
      else if errno_is ''EACCES'' e \<or> errno_is ''EPERM'' e \<or> errno_is ''EROFS'' e then kAccessDenied
      else if errno_is ''ENOMEM'' e then kNotEnoughMemory
      else if errno_is ''EEXIST'' e then kAlreadyExists
      else if errno_is ''EINVAL'' e then kInvalidParameter
      else if errno_is ''EBADF'' e then kInvalidHandle
      else if errno_is ''ENOSPC'' e then kDiskFull
      else if errno_is ''EBUSY'' e \<or> errno_is ''ETXTBSY'' e then kSharingViolation
      else if errno_is ''EPIPE'' e then kBrokenPipe
      else if errno_is ''ENOTEMPTY'' e then kDirectoryNotEmpty
      else if errno_is ''EISDIR'' e then kAccessDenied
      else if errno_is ''ENOTDIR'' e then kPathNotFound
      else if errno_is ''ECONNREFUSED'' e then kConnectionRefused
      else if errno_is ''ETIMEDOUT'' e then kTimedOut
      else if errno_is ''EADDRINUSE'' e then kAddressInUse
      else kInvalidParameter)"

lemma errno_is_simps [eval_simps]:
  "errno_is ''EPERM'' e \<longleftrightarrow> e = 1" "errno_is ''ENOENT'' e \<longleftrightarrow> e = 2" "errno_is ''EBADF'' e \<longleftrightarrow> e = 9"
  "errno_is ''ENOMEM'' e \<longleftrightarrow> e = 12" "errno_is ''EACCES'' e \<longleftrightarrow> e = 13" "errno_is ''EBUSY'' e \<longleftrightarrow> e = 16"
  "errno_is ''EEXIST'' e \<longleftrightarrow> e = 17" "errno_is ''ENOTDIR'' e \<longleftrightarrow> e = 20" "errno_is ''EISDIR'' e \<longleftrightarrow> e = 21"
  "errno_is ''EINVAL'' e \<longleftrightarrow> e = 22" "errno_is ''ETXTBSY'' e \<longleftrightarrow> e = 26" "errno_is ''ENOSPC'' e \<longleftrightarrow> e = 28"
  "errno_is ''EROFS'' e \<longleftrightarrow> e = 30" "errno_is ''EPIPE'' e \<longleftrightarrow> e = 32" "errno_is ''ENOTEMPTY'' e \<longleftrightarrow> e = 39"
  "errno_is ''EADDRINUSE'' e \<longleftrightarrow> e = 98" "errno_is ''ETIMEDOUT'' e \<longleftrightarrow> e = 110"
  "errno_is ''ECONNREFUSED'' e \<longleftrightarrow> e = 111"
  by (auto simp: errno_is_def errno_values_def)

text \<open>No host error is reported as success, and only "no such file" as a missing file.\<close>

lemma errno_to_win32_success: "errno_to_win32 e = kSuccess \<longleftrightarrow> e = 0"
  by (simp add: errno_to_win32_def win_errors)

lemma errno_to_win32_not_found: "errno_to_win32 e = kFileNotFound \<longleftrightarrow> e = 2"
  by (simp add: errno_to_win32_def errno_is_simps win_errors)

lemma errno_to_win32_width: "errno_to_win32 e \<le> 10061"
  by (simp add: errno_to_win32_def win_errors)

end
