(* ===== verification/Sha256.thy ===== *)
theory Sha256
  imports Prelude
begin

text \<open>
  The SHA-256 digest of \<open>src/util/sha256.cpp\<close>: class \<open>Sha256\<close> with its buffer of one block, and
  \<open>sha256_bytes\<close>. All 32-bit arithmetic is on \<open>32 word\<close>, so it wraps as in the code.

  The lemmas relate the buffered computation to the padded message: feeding data in pieces is
  feeding it at once, and the digest is the compression of the blocks of the padded message.
\<close>

subsection \<open>The compression function\<close>

definition kRoundConstants :: "32 word list" where
  "kRoundConstants =
    [0x428A2F98, 0x71374491, 0xB5C0FBCF, 0xE9B5DBA5, 0x3956C25B, 0x59F111F1,
     0x923F82A4, 0xAB1C5ED5, 0xD807AA98, 0x12835B01, 0x243185BE, 0x550C7DC3,
     0x72BE5D74, 0x80DEB1FE, 0x9BDC06A7, 0xC19BF174, 0xE49B69C1, 0xEFBE4786,
     0x0FC19DC6, 0x240CA1CC, 0x2DE92C6F, 0x4A7484AA, 0x5CB0A9DC, 0x76F988DA,
     0x983E5152, 0xA831C66D, 0xB00327C8, 0xBF597FC7, 0xC6E00BF3, 0xD5A79147,
     0x06CA6351, 0x14292967, 0x27B70A85, 0x2E1B2138, 0x4D2C6DFC, 0x53380D13,
     0x650A7354, 0x766A0ABB, 0x81C2C92E, 0x92722C85, 0xA2BFE8A1, 0xA81A664B,
     0xC24B8B70, 0xC76C51A3, 0xD192E819, 0xD6990624, 0xF40E3585, 0x106AA070,
     0x19A4C116, 0x1E376C08, 0x2748774C, 0x34B0BCB5, 0x391C0CB3, 0x4ED8AA4A,
     0x5B9CCA4F, 0x682E6FF3, 0x748F82EE, 0x78A5636F, 0x84C87814, 0x8CC70208,
     0x90BEFFFA, 0xA4506CEB, 0xBEF9A3F7, 0xC67178F2]"

definition kInitialState :: "32 word list" where
  "kInitialState =
    [0x6A09E667, 0xBB67AE85, 0x3C6EF372, 0xA54FF53A, 0x510E527F, 0x9B05688C,
     0x1F83D9AB, 0x5BE0CD19]"

definition rotate_right :: "32 word \<Rightarrow> nat \<Rightarrow> 32 word" where
  "rotate_right v amount = drop_bit amount v OR push_bit (32 - amount) v"

definition choose3 :: "32 word \<Rightarrow> 32 word \<Rightarrow> 32 word \<Rightarrow> 32 word" where
  "choose3 x y z = (x AND y) XOR (NOT x AND z)"

definition majority :: "32 word \<Rightarrow> 32 word \<Rightarrow> 32 word \<Rightarrow> 32 word" where
  "majority x y z = (x AND y) XOR (x AND z) XOR (y AND z)"

definition block_word :: "bytes \<Rightarrow> nat \<Rightarrow> 32 word" where
  "block_word block i =
     push_bit 24 (ucast (block ! (i * 4))) OR push_bit 16 (ucast (block ! (i * 4 + 1))) OR
     push_bit 8 (ucast (block ! (i * 4 + 2))) OR ucast (block ! (i * 4 + 3))"

definition schedule_step :: "nat \<Rightarrow> 32 word list \<Rightarrow> 32 word list" where
  "schedule_step i w =
     (let s0 = rotate_right (w ! (i - 15)) 7 XOR rotate_right (w ! (i - 15)) 18 XOR drop_bit 3 (w ! (i - 15));
          s1 = rotate_right (w ! (i - 2)) 17 XOR rotate_right (w ! (i - 2)) 19 XOR drop_bit 10 (w ! (i - 2))
      in w @ [w ! (i - 16) + s0 + w ! (i - 7) + s1])"

definition schedule :: "bytes \<Rightarrow> 32 word list" where
  "schedule block = fold schedule_step [16..<64] (map (block_word block) [0..<16])"

record registers =
  reg_a :: "32 word"
  reg_b :: "32 word"
  reg_c :: "32 word"
  reg_d :: "32 word"
  reg_e :: "32 word"
  reg_f :: "32 word"
  reg_g :: "32 word"
  reg_h :: "32 word"

definition sha_round :: "32 word list \<Rightarrow> nat \<Rightarrow> registers \<Rightarrow> registers" where
  "sha_round w i r =
     (let s1 = rotate_right (reg_e r) 6 XOR rotate_right (reg_e r) 11 XOR rotate_right (reg_e r) 25;
          temp1 = reg_h r + s1 + choose3 (reg_e r) (reg_f r) (reg_g r) + kRoundConstants ! i + w ! i;
          s0 = rotate_right (reg_a r) 2 XOR rotate_right (reg_a r) 13 XOR rotate_right (reg_a r) 22;
          temp2 = s0 + majority (reg_a r) (reg_b r) (reg_c r)
      in \<lparr>reg_a = temp1 + temp2, reg_b = reg_a r, reg_c = reg_b r, reg_d = reg_c r,
          reg_e = reg_d r + temp1, reg_f = reg_e r, reg_g = reg_f r, reg_h = reg_g r\<rparr>)"

definition transform :: "bytes \<Rightarrow> 32 word list \<Rightarrow> 32 word list" where
  "transform block st =
     (let w = schedule block;
          r = fold (sha_round w) [0..<64]
                \<lparr>reg_a = st ! 0, reg_b = st ! 1, reg_c = st ! 2, reg_d = st ! 3,
                 reg_e = st ! 4, reg_f = st ! 5, reg_g = st ! 6, reg_h = st ! 7\<rparr>
      in [st ! 0 + reg_a r, st ! 1 + reg_b r, st ! 2 + reg_c r, st ! 3 + reg_d r,
          st ! 4 + reg_e r, st ! 5 + reg_f r, st ! 6 + reg_g r, st ! 7 + reg_h r])"

subsection \<open>The buffered computation\<close>

record hasher =
  state :: "32 word list"
  block :: bytes
  block_size :: nat
  bit_count :: "64 word"

definition new_hasher :: hasher where
  "new_hasher = \<lparr>state = kInitialState, block = replicate 64 0, block_size = 0, bit_count = 0\<rparr>"

definition put_bytes :: "bytes \<Rightarrow> nat \<Rightarrow> bytes \<Rightarrow> bytes" where
  "put_bytes blk off ds = take off blk @ ds @ drop (off + length ds) blk"

text \<open>
  One iteration of the loop of \<open>update\<close>: how much of the data that is left it copies, and what
  it does with the block. The size of the buffered data never exceeds the block; beyond that the
  code's loop would write past the block, and the model stops.
\<close>

definition feed_count :: "bytes \<Rightarrow> hasher \<Rightarrow> nat" where
  "feed_count ds h =
     (let available = 64 - block_size h in if length ds < available then length ds else available)"

definition feed :: "bytes \<Rightarrow> hasher \<Rightarrow> hasher" where
  "feed ds h =
     (let copied = feed_count ds h;
          blk = put_bytes (block h) (block_size h) (take copied ds);
          filled = block_size h + copied
      in if filled = 64 then h\<lparr>block := blk, block_size := 0, state := transform blk (state h)\<rparr>
         else h\<lparr>block := blk, block_size := filled\<rparr>)"

function update_loop :: "bytes \<Rightarrow> hasher \<Rightarrow> hasher" where
  "update_loop ds h =
     (if ds = [] \<or> 64 < block_size h then h
      else update_loop (drop (feed_count ds h) ds) (feed ds h))"
  by pat_completeness auto
termination
  by (relation "measure (\<lambda>(ds, h). 2 * length ds + (if block_size h = 64 then 1 else 0))")
    (auto simp: feed_count_def feed_def Let_def split: if_split_asm)

declare update_loop.simps [simp del]

definition update :: "bytes \<Rightarrow> hasher \<Rightarrow> hasher" where
  "update ds h = update_loop ds (h\<lparr>bit_count := bit_count h + word_of_nat (length ds) * 8\<rparr>)"

definition pad_zeros :: "nat \<Rightarrow> hasher \<Rightarrow> hasher" where
  "pad_zeros n h =
     (if block_size h < n
      then h\<lparr>block := put_bytes (block h) (block_size h) (replicate (n - block_size h) 0), block_size := n\<rparr>
      else h)"

definition length_bytes :: "64 word \<Rightarrow> bytes" where
  "length_bytes n = map (\<lambda>i. ucast (drop_bit (56 - i * 8) n)) [0..<8]"

definition state_bytes :: "32 word list \<Rightarrow> bytes" where
  "state_bytes st = concat (map (\<lambda>w. map (\<lambda>b. ucast (drop_bit (24 - b * 8) w)) [0..<4]) st)"

definition finish :: "hasher \<Rightarrow> bytes" where
  "finish h =
     (let h1 = h\<lparr>block := put_bytes (block h) (block_size h) [0x80], block_size := block_size h + 1\<rparr>;
          h2 = (if 56 < block_size h1
                then let h' = pad_zeros 64 h1 in
                     h'\<lparr>state := transform (block h') (state h'), block_size := 0\<rparr>
                else h1);
          h3 = pad_zeros 56 h2;
          blk = put_bytes (block h3) 56 (length_bytes (bit_count h))
      in state_bytes (transform blk (state h3)))"

definition hex_byte :: "byte \<Rightarrow> string" where
  "hex_byte b = [''0123456789abcdef'' ! unat (drop_bit 4 b), ''0123456789abcdef'' ! unat (b AND 15)]"

definition sha256_bytes :: "bytes \<Rightarrow> string" where
  "sha256_bytes ds = concat (map hex_byte (finish (update ds new_hasher)))"

subsection \<open>The digest of a message\<close>

fun chunks :: "bytes \<Rightarrow> bytes list" where
  "chunks xs = (if length xs < 64 then [] else take 64 xs # chunks (drop 64 xs))"

declare chunks.simps [simp del]

definition compress :: "bytes \<Rightarrow> 32 word list" where
  "compress m = fold transform (chunks m) kInitialState"

text \<open>The padding: a one bit, zeros up to 56 bytes modulo 64, and the length in bits.\<close>

definition sha_padding :: "nat \<Rightarrow> bytes" where
  "sha_padding n = 0x80 # replicate ((119 - n mod 64) mod 64) 0 @ length_bytes (word_of_nat n * 8)"

definition sha256_digest :: "bytes \<Rightarrow> bytes" where
  "sha256_digest m = state_bytes (compress (m @ sha_padding (length m)))"

lemma chunks_small: "length xs < 64 \<Longrightarrow> chunks xs = []"
  by (simp add: chunks.simps)

lemma chunks_block: "length xs = 64 \<Longrightarrow> chunks (xs @ ys) = xs # chunks ys"
  by (subst chunks.simps) simp

lemma chunks_append: "64 dvd length xs \<Longrightarrow> chunks (xs @ ys) = chunks xs @ chunks ys"
proof (induction xs rule: chunks.induct)
  case (1 xs)
  show ?case
  proof (cases "length xs < 64")
    case True
    with 1(2) have "xs = []" by (auto simp: dvd_def)
    then show ?thesis by (simp add: chunks_small)
  next
    case False
    then have "chunks (drop 64 xs @ ys) = chunks (drop 64 xs) @ chunks ys"
      using 1 by (auto intro: dvd_diff_nat)
    with False show ?thesis by (subst (1 2) chunks.simps) simp
  qed
qed

lemma compress_block: "64 dvd length m \<Longrightarrow> length b = 64 \<Longrightarrow> compress (m @ b) = transform b (compress m)"
  using chunks_block [of b "[]"] by (simp add: compress_def chunks_append chunks_small)

text \<open>A hasher has absorbed a message: whole blocks in the state, the rest in the buffer.\<close>

definition absorbed :: "bytes \<Rightarrow> hasher \<Rightarrow> bool" where
  "absorbed m h \<longleftrightarrow>
     (\<exists>a b. m = a @ b \<and> 64 dvd length a \<and> length b < 64 \<and> state h = compress a \<and>
        block_size h = length b \<and> length (block h) = 64 \<and> take (length b) (block h) = b) \<and>
     bit_count h = word_of_nat (length m) * 8"

lemma absorbed_new: "absorbed [] new_hasher"
  by (simp add: absorbed_def new_hasher_def compress_def chunks_small)

lemma length_put_bytes [simp]: "off + length ds \<le> length blk \<Longrightarrow> length (put_bytes blk off ds) = length blk"
  by (simp add: put_bytes_def)

lemma take_put_bytes: "off + length ds \<le> length blk \<Longrightarrow>
    take (off + length ds) (put_bytes blk off ds) = take off blk @ ds"
  by (simp add: put_bytes_def)

definition buffered :: "bytes \<Rightarrow> hasher \<Rightarrow> bool" where
  "buffered m h \<longleftrightarrow>
     (\<exists>a b. m = a @ b \<and> 64 dvd length a \<and> length b < 64 \<and> state h = compress a \<and>
        block_size h = length b \<and> length (block h) = 64 \<and> take (length b) (block h) = b)"

lemma absorbed_iff: "absorbed m h \<longleftrightarrow> buffered m h \<and> bit_count h = word_of_nat (length m) * 8"
  by (simp add: absorbed_def buffered_def)

lemma feed_buffered:
  assumes "buffered m h"
  shows "buffered (m @ take (feed_count ds h) ds) (feed ds h)" "bit_count (feed ds h) = bit_count h"
proof -
  from assms obtain a b where ab: "m = a @ b" "64 dvd length a" "length b < 64" "state h = compress a"
    "block_size h = length b" "length (block h) = 64" "take (length b) (block h) = b"
    by (auto simp: buffered_def)
  define n where "n = feed_count ds h"
  define blk where "blk = put_bytes (block h) (block_size h) (take n ds)"
  have h': "feed ds h = (if length b + n = 64
       then h\<lparr>block := blk, block_size := 0, state := transform blk (state h)\<rparr>
       else h\<lparr>block := blk, block_size := length b + n\<rparr>)"
    by (simp add: feed_def Let_def n_def blk_def ab)
  have n: "n \<le> length ds" "length b + n \<le> 64" using ab by (auto simp: n_def feed_count_def Let_def)
  have blk: "length blk = 64" "take (length b + n) blk = b @ take n ds"
    using take_put_bytes [of "length b" "take n ds" "block h"] ab n
    by (simp_all add: blk_def min_absorb2)
  show "buffered (m @ take (feed_count ds h) ds) (feed ds h)"
  proof (cases "length b + n = 64")
    case True
    then have "blk = b @ take n ds" using blk by simp
    moreover have "compress (a @ b @ take n ds) = transform (b @ take n ds) (compress a)"
      by (rule compress_block) (use ab n True in auto)
    ultimately show ?thesis using ab True blk n unfolding buffered_def n_def [symmetric]
      by (intro exI [of _ "a @ b @ take n ds"] exI [of _ "[]"]) (simp add: h' min_absorb2)
  next
    case False
    then show ?thesis using ab blk n unfolding buffered_def n_def [symmetric]
      by (intro exI [of _ a] exI [of _ "b @ take n ds"]) (simp add: h' min_absorb2)
  qed
  show "bit_count (feed ds h) = bit_count h" by (simp add: h')
qed

lemma buffered_size: "buffered m h \<Longrightarrow> block_size h < 64"
  by (auto simp: buffered_def)

lemma update_loop_buffered:
  "buffered m h \<Longrightarrow> buffered (m @ ds) (update_loop ds h) \<and> bit_count (update_loop ds h) = bit_count h"
proof (induction ds h arbitrary: m rule: update_loop.induct)
  case (1 ds h)
  show ?case
  proof (cases "ds = []")
    case True
    then show ?thesis using 1(2) by (simp add: update_loop.simps)
  next
    case False
    then have go: "\<not> (ds = [] \<or> 64 < block_size h)" using buffered_size [OF 1(2)] by simp
    from 1(1) [OF go feed_buffered(1) [OF 1(2), of ds]] feed_buffered(2) [OF 1(2), of ds] go
    show ?thesis by (subst (1 2) update_loop.simps) simp
  qed
qed

lemma update_absorbed: "absorbed m h \<Longrightarrow> absorbed (m @ ds) (update ds h)"
proof -
  assume "absorbed m h"
  then have b: "buffered m (h\<lparr>bit_count := c\<rparr>)" and c: "bit_count h = word_of_nat (length m) * 8" for c
    by (simp_all add: absorbed_iff buffered_def)
  from update_loop_buffered [OF b] c show ?thesis
    by (simp add: absorbed_iff update_def algebra_simps)
qed


text \<open>The digest: the padded message, whole blocks at a time.\<close>

lemma length_length_bytes [simp]: "length (length_bytes n) = 8"
  by (simp add: length_bytes_def)

lemma finish_absorbed:
  assumes "absorbed m h"
  shows "finish h = sha256_digest m"
proof -
  from assms obtain a b where ab: "m = a @ b" "64 dvd length a" "length b < 64" "state h = compress a"
    "block_size h = length b" "length (block h) = 64" "take (length b) (block h) = b"
    and bits: "bit_count h = word_of_nat (length m) * 8"
    by (auto simp: absorbed_def)
  define L where "L = length_bytes (word_of_nat (length m) * 8)"
  have len: "length L = 8" by (simp add: L_def)
  have mod: "length m mod 64 = length b" using ab by (auto simp: mod_add_eq dvd_def)
  define blk1 where "blk1 = put_bytes (block h) (length b) [0x80]"
  have blk1: "length blk1 = 64" "take (length b + 1) blk1 = b @ [0x80]"
    using ab take_put_bytes [of "length b" "[0x80]" "block h"] by (simp_all add: blk1_def)
  show ?thesis
  proof (cases "length b < 56")
    case True
    define blk2 where "blk2 = (if length b + 1 < 56
        then put_bytes blk1 (length b + 1) (replicate (56 - (length b + 1)) 0) else blk1)"
    have blk2: "length blk2 = 64 \<and> take 56 blk2 = b @ [0x80] @ replicate (55 - length b) 0"
    proof (cases "length b + 1 < 56")
      case True
      then show ?thesis
        using blk1 take_put_bytes [of "length b + 1" "replicate (56 - (length b + 1)) 0" blk1]
        by (simp add: blk2_def)
    next
      case False
      with \<open>length b < 56\<close> have "length b + 1 = 56" by simp
      with blk1 show ?thesis by (simp add: blk2_def)
    qed
    have last: "put_bytes blk2 56 L = b @ [0x80] @ replicate (55 - length b) 0 @ L"
      using blk2 by (simp add: put_bytes_def len)
    have pad: "sha_padding (length m) = 0x80 # replicate (55 - length b) 0 @ L"
    proof -
      have "(119 - length b) mod 64 = 55 - length b"
        using True by (simp add: mod_nat_eqI)
      then show ?thesis by (simp add: sha_padding_def mod L_def)
    qed
    have "finish h = state_bytes (transform (put_bytes blk2 56 L) (compress a))"
      using True ab bits by (simp add: finish_def Let_def pad_zeros_def blk1_def blk2_def L_def)
    also have "\<dots> = state_bytes (compress (a @ b @ [0x80] @ replicate (55 - length b) 0 @ L))"
      unfolding last by (subst compress_block) (use ab True len in auto)
    finally show ?thesis unfolding sha256_digest_def pad by (simp add: ab)
  next
    case False
    define blk2 where "blk2 = (if length b + 1 < 64
        then put_bytes blk1 (length b + 1) (replicate (64 - (length b + 1)) 0) else blk1)"
    have blk2: "blk2 = b @ [0x80] @ replicate (63 - length b) 0"
      using blk1 False ab(3) take_put_bytes [of "length b + 1" "replicate (64 - (length b + 1)) 0" blk1]
      by (auto simp: blk2_def not_less)
    define blk3 where "blk3 = put_bytes blk2 0 (replicate 56 0)"
    have blk3: "length blk3 = 64" "take 56 blk3 = replicate 56 0"
      using blk2 ab(3) by (simp_all add: blk3_def put_bytes_def)
    have last: "put_bytes blk3 56 L = replicate 56 0 @ L" using blk3 by (simp add: put_bytes_def len)
    have pad: "sha_padding (length m) = 0x80 # replicate (63 - length b) 0 @ replicate 56 0 @ L"
    proof -
      have "(119 - length b) mod 64 = (63 - length b) + 56"
        using False ab(3) by (simp add: mod_nat_eqI)
      then show ?thesis unfolding sha_padding_def mod L_def by (simp only: replicate_add append_assoc)
    qed
    have "finish h = state_bytes (transform (put_bytes blk3 56 L) (transform blk2 (compress a)))"
      using False ab bits by (simp add: finish_def Let_def pad_zeros_def blk1_def blk2_def blk3_def L_def)
    also have "transform blk2 (compress a) = compress (a @ blk2)"
      by (rule compress_block [symmetric]) (use ab blk2 in auto)
    also have "transform (put_bytes blk3 56 L) (compress (a @ blk2)) = compress ((a @ blk2) @ replicate 56 0 @ L)"
      unfolding last by (rule compress_block [symmetric]) (use ab blk2 len in \<open>auto intro: dvd_add\<close>)
    finally show ?thesis unfolding sha256_digest_def pad by (simp add: ab blk2)
  qed
qed

lemma update_append: "absorbed m h \<Longrightarrow> finish (update b (update a h)) = finish (update (a @ b) h)"
  by (simp add: finish_absorbed [OF update_absorbed [OF update_absorbed]]
      finish_absorbed [OF update_absorbed])

lemma sha256_bytes_digest: "sha256_bytes ds = concat (map hex_byte (sha256_digest ds))"
  using finish_absorbed [OF update_absorbed [OF absorbed_new, of ds]] by (simp add: sha256_bytes_def)

subsection \<open>Properties\<close>


end
