(* ===== verification/Codepages.thy ===== *)
theory Codepages
  imports Prelude
begin

text \<open>
  The single-byte code pages of \<open>src/util/unicode.cpp\<close>: CP1252, CP437, CP1250, CP1251 and
  ISO 8859-1, from bytes to code points and back. A reverse table is sorted by code point and
  searched by bisection (\<open>std::lower_bound\<close>, the first entry that is not below the key).
\<close>

subsection \<open>Tables\<close>

definition kCp1252Control :: "u32 list" where
  "kCp1252Control =
    [0x20AC, 0x0081, 0x201A, 0x0192, 0x201E, 0x2026, 0x2020, 0x2021, 0x02C6, 0x2030,
     0x0160, 0x2039, 0x0152, 0x008D, 0x017D, 0x008F, 0x0090, 0x2018, 0x2019, 0x201C,
     0x201D, 0x2022, 0x2013, 0x2014, 0x02DC, 0x2122, 0x0161, 0x203A, 0x0153, 0x009D,
     0x017E, 0x0178]"

definition kCp437High :: "u32 list" where
  "kCp437High =
    [0x00C7, 0x00FC, 0x00E9, 0x00E2, 0x00E4, 0x00E0, 0x00E5, 0x00E7, 0x00EA, 0x00EB,
     0x00E8, 0x00EF, 0x00EE, 0x00EC, 0x00C4, 0x00C5, 0x00C9, 0x00E6, 0x00C6, 0x00F4,
     0x00F6, 0x00F2, 0x00FB, 0x00F9, 0x00FF, 0x00D6, 0x00DC, 0x00A2, 0x00A3, 0x00A5,
     0x20A7, 0x0192, 0x00E1, 0x00ED, 0x00F3, 0x00FA, 0x00F1, 0x00D1, 0x00AA, 0x00BA,
     0x00BF, 0x2310, 0x00AC, 0x00BD, 0x00BC, 0x00A1, 0x00AB, 0x00BB, 0x2591, 0x2592,
     0x2593, 0x2502, 0x2524, 0x2561, 0x2562, 0x2556, 0x2555, 0x2563, 0x2551, 0x2557,
     0x255D, 0x255C, 0x255B, 0x2510, 0x2514, 0x2534, 0x252C, 0x251C, 0x2500, 0x253C,
     0x255E, 0x255F, 0x255A, 0x2554, 0x2569, 0x2566, 0x2560, 0x2550, 0x256C, 0x2567,
     0x2568, 0x2564, 0x2565, 0x2559, 0x2558, 0x2552, 0x2553, 0x256B, 0x256A, 0x2518,
     0x250C, 0x2588, 0x2584, 0x258C, 0x2590, 0x2580, 0x03B1, 0x00DF, 0x0393, 0x03C0,
     0x03A3, 0x03C3, 0x00B5, 0x03C4, 0x03A6, 0x0398, 0x03A9, 0x03B4, 0x221E, 0x03C6,
     0x03B5, 0x2229, 0x2261, 0x00B1, 0x2265, 0x2264, 0x2320, 0x2321, 0x00F7, 0x2248,
     0x00B0, 0x2219, 0x00B7, 0x221A, 0x207F, 0x00B2, 0x25A0, 0x00A0]"

definition kCp1250High :: "u32 list" where
  "kCp1250High =
    [0x20AC, 0x0081, 0x201A, 0x0083, 0x201E, 0x2026, 0x2020, 0x2021, 0x0088, 0x2030,
     0x0160, 0x2039, 0x015A, 0x0164, 0x017D, 0x0179, 0x0090, 0x2018, 0x2019, 0x201C,
     0x201D, 0x2022, 0x2013, 0x2014, 0x0098, 0x2122, 0x0161, 0x203A, 0x015B, 0x0165,
     0x017E, 0x017A, 0x00A0, 0x02C7, 0x02D8, 0x0141, 0x00A4, 0x0104, 0x00A6, 0x00A7,
     0x00A8, 0x00A9, 0x015E, 0x00AB, 0x00AC, 0x00AD, 0x00AE, 0x017B, 0x00B0, 0x00B1,
     0x02DB, 0x0142, 0x00B4, 0x00B5, 0x00B6, 0x00B7, 0x00B8, 0x0105, 0x015F, 0x00BB,
     0x013D, 0x02DD, 0x013E, 0x017C, 0x0154, 0x00C1, 0x00C2, 0x0102, 0x00C4, 0x0139,
     0x0106, 0x00C7, 0x010C, 0x00C9, 0x0118, 0x00CB, 0x011A, 0x00CD, 0x00CE, 0x010E,
     0x0110, 0x0143, 0x0147, 0x00D3, 0x00D4, 0x0150, 0x00D6, 0x00D7, 0x0158, 0x016E,
     0x00DA, 0x0170, 0x00DC, 0x00DD, 0x0162, 0x00DF, 0x0155, 0x00E1, 0x00E2, 0x0103,
     0x00E4, 0x013A, 0x0107, 0x00E7, 0x010D, 0x00E9, 0x0119, 0x00EB, 0x011B, 0x00ED,
     0x00EE, 0x010F, 0x0111, 0x0144, 0x0148, 0x00F3, 0x00F4, 0x0151, 0x00F6, 0x00F7,
     0x0159, 0x016F, 0x00FA, 0x0171, 0x00FC, 0x00FD, 0x0163, 0x02D9]"

definition kCp1251High :: "u32 list" where
  "kCp1251High =
    [0x0402, 0x0403, 0x201A, 0x0453, 0x201E, 0x2026, 0x2020, 0x2021, 0x20AC, 0x2030,
     0x0409, 0x2039, 0x040A, 0x040C, 0x040B, 0x040F, 0x0452, 0x2018, 0x2019, 0x201C,
     0x201D, 0x2022, 0x2013, 0x2014, 0x0098, 0x2122, 0x0459, 0x203A, 0x045A, 0x045C,
     0x045B, 0x045F, 0x00A0, 0x040E, 0x045E, 0x0408, 0x00A4, 0x0490, 0x00A6, 0x00A7,
     0x0401, 0x00A9, 0x0404, 0x00AB, 0x00AC, 0x00AD, 0x00AE, 0x0407, 0x00B0, 0x00B1,
     0x0406, 0x0456, 0x0491, 0x00B5, 0x00B6, 0x00B7, 0x0451, 0x2116, 0x0454, 0x00BB,
     0x0458, 0x0405, 0x0455, 0x0457, 0x0410, 0x0411, 0x0412, 0x0413, 0x0414, 0x0415,
     0x0416, 0x0417, 0x0418, 0x0419, 0x041A, 0x041B, 0x041C, 0x041D, 0x041E, 0x041F,
     0x0420, 0x0421, 0x0422, 0x0423, 0x0424, 0x0425, 0x0426, 0x0427, 0x0428, 0x0429,
     0x042A, 0x042B, 0x042C, 0x042D, 0x042E, 0x042F, 0x0430, 0x0431, 0x0432, 0x0433,
     0x0434, 0x0435, 0x0436, 0x0437, 0x0438, 0x0439, 0x043A, 0x043B, 0x043C, 0x043D,
     0x043E, 0x043F, 0x0440, 0x0441, 0x0442, 0x0443, 0x0444, 0x0445, 0x0446, 0x0447,
     0x0448, 0x0449, 0x044A, 0x044B, 0x044C, 0x044D, 0x044E, 0x044F]"

definition make_cp_reverse :: "u32 list \<Rightarrow> (u16 \<times> u8) list" where
  "make_cp_reverse high_table =
     sort_key fst (map (\<lambda>i. (to_u16 (high_table ! i), to_u8 (0x80 + i))) [0..<length high_table])"

definition kCp437Reverse :: "(u16 \<times> u8) list" where
  "kCp437Reverse = make_cp_reverse kCp437High"

definition kCp1250Reverse :: "(u16 \<times> u8) list" where
  "kCp1250Reverse = make_cp_reverse kCp1250High"

definition kCp1251Reverse :: "(u16 \<times> u8) list" where
  "kCp1251Reverse = make_cp_reverse kCp1251High"

subsection \<open>Conversions\<close>

definition cp1252_to_unicode :: "u8 \<Rightarrow> u32" where
  "cp1252_to_unicode b = (if 0x80 \<le> b \<and> b \<le> 0x9F then kCp1252Control ! (b - 0x80) else b)"

text \<open>The cases of the switch of \<open>unicode_to_cp1252\<close>.\<close>

definition cp1252_cases :: "(u32 \<times> u8) list" where
  "cp1252_cases =
    [(0x20AC, 0x80), (0x0081, 0x81), (0x201A, 0x82), (0x0192, 0x83), (0x201E, 0x84), (0x2026, 0x85),
     (0x2020, 0x86), (0x2021, 0x87), (0x02C6, 0x88), (0x2030, 0x89), (0x0160, 0x8A), (0x2039, 0x8B),
     (0x0152, 0x8C), (0x008D, 0x8D), (0x017D, 0x8E), (0x008F, 0x8F), (0x0090, 0x90), (0x2018, 0x91),
     (0x2019, 0x92), (0x201C, 0x93), (0x201D, 0x94), (0x2022, 0x95), (0x2013, 0x96), (0x2014, 0x97),
     (0x02DC, 0x98), (0x2122, 0x99), (0x0161, 0x9A), (0x203A, 0x9B), (0x0153, 0x9C), (0x009D, 0x9D),
     (0x017E, 0x9E), (0x0178, 0x9F)]"

definition unicode_to_cp1252 :: "u32 \<Rightarrow> u8 option" where
  "unicode_to_cp1252 cp =
     (if cp \<le> 0x7F \<or> 0xA0 \<le> cp \<and> cp \<le> 0xFF then Some (to_u8 cp) else map_of cp1252_cases cp)"

definition high_to_unicode :: "u32 list \<Rightarrow> u8 \<Rightarrow> u32" where
  "high_to_unicode high_table b = (if b < 0x80 then b else high_table ! (b - 0x80))"

definition find_reverse :: "(u16 \<times> u8) list \<Rightarrow> u32 \<Rightarrow> u8 option" where
  "find_reverse rev_table cp =
     (if cp < 0x80 then Some (to_u8 cp)
      else if 0xFFFF < cp then None
      else
        let cp16 = to_u16 cp in
        case dropWhile (\<lambda>e. fst e < cp16) rev_table of
          [] \<Rightarrow> None
        | e # es \<Rightarrow> if fst e = cp16 then Some (snd e) else None)"

definition cp437_to_unicode :: "u8 \<Rightarrow> u32" where
  "cp437_to_unicode b = high_to_unicode kCp437High b"

definition unicode_to_cp437 :: "u32 \<Rightarrow> u8 option" where
  "unicode_to_cp437 cp = find_reverse kCp437Reverse cp"

definition cp1250_to_unicode :: "u8 \<Rightarrow> u32" where
  "cp1250_to_unicode b = high_to_unicode kCp1250High b"

definition unicode_to_cp1250 :: "u32 \<Rightarrow> u8 option" where
  "unicode_to_cp1250 cp = find_reverse kCp1250Reverse cp"

definition cp1251_to_unicode :: "u8 \<Rightarrow> u32" where
  "cp1251_to_unicode b = high_to_unicode kCp1251High b"

definition unicode_to_cp1251 :: "u32 \<Rightarrow> u8 option" where
  "unicode_to_cp1251 cp = find_reverse kCp1251Reverse cp"

definition cp28591_to_unicode :: "u8 \<Rightarrow> u32" where
  "cp28591_to_unicode b = b"

definition unicode_to_cp28591 :: "u32 \<Rightarrow> u8 option" where
  "unicode_to_cp28591 cp = (if cp \<le> 0xFF then Some (to_u8 cp) else None)"

subsection \<open>A table with distinct code points is a code page\<close>

text \<open>Searching a list sorted by distinct keys finds exactly the pairs of the list.\<close>

lemma find_sorted:
  assumes "sorted (map fst es)" "distinct (map fst es)"
  shows "(case dropWhile (\<lambda>e. fst e < k) es of
     [] \<Rightarrow> None | e # es' \<Rightarrow> if fst e = k then Some (snd e) else None) = Some v \<longleftrightarrow> (k, v) \<in> set es"
  using assms
proof (induction es)
  case Nil
  then show ?case by simp
next
  case (Cons e es)
  show ?case
  proof (cases "fst e < k")
    case True
    with Cons show ?thesis by (cases e) auto
  next
    case False
    then have "(k, v) \<in> set (e # es) \<longleftrightarrow> e = (k, v)"
      using Cons.prems by (force simp: rev_image_eqI)
    with False show ?thesis by (cases e) auto
  qed
qed

locale code_page =
  fixes high :: "u32 list"
  assumes length_high: "length high = 128"
    and distinct_high: "distinct high"
    and range_high: "x \<in> set high \<Longrightarrow> 0x80 \<le> x \<and> x \<le> 0xFFFF"
begin

lemma high_nth: "i < 128 \<Longrightarrow> 0x80 \<le> high ! i \<and> high ! i \<le> 0xFFFF"
  using range_high [of "high ! i"] by (simp add: length_high)

lemma reverse_entries: "set (make_cp_reverse high) = {(high ! i, 0x80 + i) | i. i < 128}"
proof -
  have "to_u16 (high ! i) = high ! i \<and> to_u8 (0x80 + i) = 0x80 + i" if "i < 128" for i
    using high_nth [OF that] that by simp
  then have "(to_u16 (high ! i), to_u8 (0x80 + i)) = (high ! i, 0x80 + i)" if "i < 128" for i
    using that by simp
  then show ?thesis unfolding make_cp_reverse_def length_high set_sort set_map set_upt
    by (auto simp: image_iff)
qed

lemma reverse_keys: "distinct (map fst (make_cp_reverse high))" "sorted (map fst (make_cp_reverse high))"
proof -
  define es where "es = map (\<lambda>i. (to_u16 (high ! i), to_u8 (0x80 + i))) [0..<length high]"
  have "map fst es = map ((!) high) [0..<length high]"
    using high_nth by (simp add: es_def length_high)
  then have keys: "map fst es = high" by (simp only: map_nth)
  then have "distinct es \<and> inj_on fst (set es)" using distinct_high by (simp add: distinct_map flip: keys)
  then show "distinct (map fst (make_cp_reverse high))"
    by (simp add: make_cp_reverse_def distinct_map flip: es_def)
  show "sorted (map fst (make_cp_reverse high))" by (simp add: make_cp_reverse_def)
qed

lemma find_reverse_iff:
  "find_reverse (make_cp_reverse high) cp = Some b \<longleftrightarrow> b < 256 \<and> high_to_unicode high b = cp"
proof (cases "cp < 0x80 \<or> 0xFFFF < cp")
  case True
  have "b - 0x80 < 128" if "b < 256" for b :: nat using that by simp
  note h = high_nth [OF this]
  have "high_to_unicode high b = cp \<longleftrightarrow> b = cp" if "cp < 0x80" "b < 256" for b
    using h [OF that(2)] that by (auto simp: high_to_unicode_def)
  moreover have "high_to_unicode high b \<noteq> cp" if "0xFFFF < cp" "b < 256" for b
    using h [OF that(2)] that by (auto simp: high_to_unicode_def)
  ultimately have low: "cp < 0x80 \<Longrightarrow> b < 256 \<Longrightarrow> high_to_unicode high b = cp \<longleftrightarrow> b = cp"
    and none: "0xFFFF < cp \<Longrightarrow> b < 256 \<Longrightarrow> high_to_unicode high b \<noteq> cp" by blast+
  show ?thesis
  proof (cases "cp < 0x80")
    case True
    then have "find_reverse (make_cp_reverse high) cp = Some b \<longleftrightarrow> b = cp"
      by (auto simp: find_reverse_def)
    also have "\<dots> \<longleftrightarrow> b < 256 \<and> high_to_unicode high b = cp"
      using low [OF True] True by (cases "b < 256") auto
    finally show ?thesis .
  next
    case False
    then have "find_reverse (make_cp_reverse high) cp = None"
      using \<open>cp < 0x80 \<or> 0xFFFF < cp\<close> by (simp add: find_reverse_def)
    then show ?thesis using none False \<open>cp < 0x80 \<or> 0xFFFF < cp\<close> by auto
  qed
next
  case False
  then have "find_reverse (make_cp_reverse high) cp = Some b \<longleftrightarrow> (cp, b) \<in> set (make_cp_reverse high)"
    using find_sorted [OF reverse_keys(2,1), of cp b] by (simp add: find_reverse_def Let_def)
  also have "\<dots> \<longleftrightarrow> (\<exists>i < 128. cp = high ! i \<and> b = 0x80 + i)" by (auto simp: reverse_entries)
  also have "\<dots> \<longleftrightarrow> b < 256 \<and> high_to_unicode high b = cp"
  proof
    assume "\<exists>i < 128. cp = high ! i \<and> b = 0x80 + i"
    then show "b < 256 \<and> high_to_unicode high b = cp" by (auto simp: high_to_unicode_def)
  next
    assume b: "b < 256 \<and> high_to_unicode high b = cp"
    with False have "\<not> b < 0x80" by (auto simp: high_to_unicode_def)
    with b show "\<exists>i < 128. cp = high ! i \<and> b = 0x80 + i"
      by (intro exI [of _ "b - 0x80"]) (auto simp: high_to_unicode_def)
  qed
  finally show ?thesis .
qed

end

interpretation cp437: code_page kCp437High
proof unfold_locales
  show "length kCp437High = 128" by (simp add: kCp437High_def)
  show "distinct kCp437High" by (simp add: kCp437High_def)
  show "x \<in> set kCp437High \<Longrightarrow> 0x80 \<le> x \<and> x \<le> 0xFFFF" for x
    by (auto simp: kCp437High_def)
qed

interpretation cp1250: code_page kCp1250High
proof unfold_locales
  show "length kCp1250High = 128" by (simp add: kCp1250High_def)
  show "distinct kCp1250High" by (simp add: kCp1250High_def)
  show "x \<in> set kCp1250High \<Longrightarrow> 0x80 \<le> x \<and> x \<le> 0xFFFF" for x
    by (auto simp: kCp1250High_def)
qed

interpretation cp1251: code_page kCp1251High
proof unfold_locales
  show "length kCp1251High = 128" by (simp add: kCp1251High_def)
  show "distinct kCp1251High" by (simp add: kCp1251High_def)
  show "x \<in> set kCp1251High \<Longrightarrow> 0x80 \<le> x \<and> x \<le> 0xFFFF" for x
    by (auto simp: kCp1251High_def)
qed

text \<open>The three pages: a byte and a code point correspond in one direction iff in the other.\<close>

lemma unicode_to_cp437_iff: "unicode_to_cp437 cp = Some b \<longleftrightarrow> b < 256 \<and> cp437_to_unicode b = cp"
  unfolding unicode_to_cp437_def cp437_to_unicode_def kCp437Reverse_def by (rule cp437.find_reverse_iff)

lemma unicode_to_cp1250_iff: "unicode_to_cp1250 cp = Some b \<longleftrightarrow> b < 256 \<and> cp1250_to_unicode b = cp"
  unfolding unicode_to_cp1250_def cp1250_to_unicode_def kCp1250Reverse_def by (rule cp1250.find_reverse_iff)

lemma unicode_to_cp1251_iff: "unicode_to_cp1251 cp = Some b \<longleftrightarrow> b < 256 \<and> cp1251_to_unicode b = cp"
  unfolding unicode_to_cp1251_def cp1251_to_unicode_def kCp1251Reverse_def by (rule cp1251.find_reverse_iff)

lemma unicode_to_cp28591_iff: "unicode_to_cp28591 cp = Some b \<longleftrightarrow> b < 256 \<and> cp28591_to_unicode b = cp"
  by (auto simp: unicode_to_cp28591_def cp28591_to_unicode_def)

text \<open>CP1252: the switch lists the control table with its bytes.\<close>

lemma in_set_zip_upt:
  "length xs = n \<Longrightarrow> (c, b) \<in> set (zip xs [a..<a + n]) \<longleftrightarrow> (\<exists>i < n. c = xs ! i \<and> b = a + i)"
  by (auto simp: in_set_zip)

lemma cp1252_cases_eq: "cp1252_cases = zip kCp1252Control [0x80..<0xA0]"
  by (simp add: cp1252_cases_def kCp1252Control_def upt_rec)

lemma kCp1252Control_facts: "length kCp1252Control = 32" "distinct kCp1252Control"
  "\<forall>x \<in> set kCp1252Control. \<not> (x \<le> 0x7F \<or> 0xA0 \<le> x \<and> x \<le> 0xFF)"
  by (simp_all add: kCp1252Control_def)

lemma unicode_to_cp1252_iff: "unicode_to_cp1252 cp = Some b \<longleftrightarrow> b < 256 \<and> cp1252_to_unicode b = cp"
proof (cases "cp \<le> 0x7F \<or> 0xA0 \<le> cp \<and> cp \<le> 0xFF")
  case True
  have "kCp1252Control ! (b - 0x80) \<noteq> cp" if "0x80 \<le> b" "b \<le> 0x9F"
    using that True kCp1252Control_facts(1,3) nth_mem [of "b - 0x80" kCp1252Control] by auto
  then show ?thesis using True by (auto simp: unicode_to_cp1252_def cp1252_to_unicode_def)
next
  case False
  have "map_of cp1252_cases cp = Some b \<longleftrightarrow> (cp, b) \<in> set (zip kCp1252Control [0x80..<0xA0])"
    unfolding cp1252_cases_eq using kCp1252Control_facts by (simp add: map_of_eq_Some_iff)
  also have "\<dots> \<longleftrightarrow> (\<exists>i < 32. cp = kCp1252Control ! i \<and> b = 0x80 + i)"
    using in_set_zip_upt [where a = "0x80", OF kCp1252Control_facts(1)] by simp
  also have "\<dots> \<longleftrightarrow> b < 256 \<and> cp1252_to_unicode b = cp"
  proof
    assume "\<exists>i < 32. cp = kCp1252Control ! i \<and> b = 0x80 + i"
    then show "b < 256 \<and> cp1252_to_unicode b = cp" by (auto simp: cp1252_to_unicode_def)
  next
    assume b: "b < 256 \<and> cp1252_to_unicode b = cp"
    with False have "0x80 \<le> b \<and> b \<le> 0x9F" by (auto simp: cp1252_to_unicode_def split: if_split_asm)
    with b show "\<exists>i < 32. cp = kCp1252Control ! i \<and> b = 0x80 + i"
      by (intro exI [of _ "b - 0x80"]) (auto simp: cp1252_to_unicode_def)
  qed
  finally show ?thesis using False unfolding unicode_to_cp1252_def by (simp only: if_False)
qed

subsection \<open>Properties\<close>

text \<open>
  In each of the five code pages the conversion from Unicode is the exact inverse of the
  conversion to it: a byte is returned exactly when it stands for that code point.
\<close>

theorem code_pages_inverse:
  "(unicode_to_cp1252 cp = Some b \<longleftrightarrow> b < 256 \<and> cp1252_to_unicode b = cp) \<and>
   (unicode_to_cp437 cp = Some b \<longleftrightarrow> b < 256 \<and> cp437_to_unicode b = cp) \<and>
   (unicode_to_cp1250 cp = Some b \<longleftrightarrow> b < 256 \<and> cp1250_to_unicode b = cp) \<and>
   (unicode_to_cp1251 cp = Some b \<longleftrightarrow> b < 256 \<and> cp1251_to_unicode b = cp) \<and>
   (unicode_to_cp28591 cp = Some b \<longleftrightarrow> b < 256 \<and> cp28591_to_unicode b = cp)"
  by (intro conjI unicode_to_cp1252_iff unicode_to_cp437_iff unicode_to_cp1250_iff unicode_to_cp1251_iff
      unicode_to_cp28591_iff)

end
