(* ===== verification/Unicode.thy ===== *)
theory Unicode
  imports Prelude
begin

text \<open>
  UTF-8 and UTF-16 of \<open>src/util/unicode.cpp\<close>: decoding one code point at a position, encoding one,
  and the conversions of whole strings. A position past a decoder's call is returned with its
  result; the sentinel \<open>kInvalidCodepoint\<close> stands for a malformed sequence.
\<close>

definition kInvalidCodepoint :: u32 where "kInvalidCodepoint = 0x110000"

subsection \<open>UTF-8\<close>

text \<open>The loop over the continuation bytes; \<open>None\<close> is its early return.\<close>

fun continuations :: "bytes \<Rightarrow> nat \<Rightarrow> nat list \<Rightarrow> u32 \<Rightarrow> u32 option" where
  "continuations bs pos [] v = Some v"
| "continuations bs pos (i # is) v =
     (let c = byte_at bs (pos + i) in
      if c AND 0xC0 \<noteq> 0x80 then None
      else continuations bs pos is (push_bit 6 v OR (c AND 0x3F)))"

definition utf8_lead :: "nat \<Rightarrow> (nat \<times> u32) option" where
  "utf8_lead lead =
     (if lead AND 0xE0 = 0xC0 then Some (2, lead AND 0x1F)
      else if lead AND 0xF0 = 0xE0 then Some (3, lead AND 0x0F)
      else if lead AND 0xF8 = 0xF0 then Some (4, lead AND 0x07)
      else None)"

definition decode_utf8 :: "bytes \<Rightarrow> nat \<Rightarrow> u32 \<times> nat" where
  "decode_utf8 bs pos =
     (if length bs \<le> pos then (kInvalidCodepoint, pos)
      else
        let lead = byte_at bs pos in
        if lead < 0x80 then (lead, pos + 1)
        else case utf8_lead lead of
          None \<Rightarrow> (kInvalidCodepoint, pos + 1)
        | Some (needed, v0) \<Rightarrow>
            if length bs < pos + needed then (kInvalidCodepoint, length bs)
            else (case continuations bs pos [1..<needed] v0 of
                None \<Rightarrow> (kInvalidCodepoint, pos + 1)
              | Some v \<Rightarrow>
                  let overlong = needed = 2 \<and> v < 0x80 \<or> needed = 3 \<and> v < 0x800 \<or>
                        needed = 4 \<and> v < 0x10000
                  in
                  if overlong \<or> 0x10FFFF < v \<or> 0xD800 \<le> v \<and> v \<le> 0xDFFF
                  then (kInvalidCodepoint, pos + needed)
                  else (v, pos + needed)))"

definition utf8_bytes_for :: "u32 \<Rightarrow> bytes" where
  "utf8_bytes_for cp =
     map word_of_nat
       (if cp < 0x80 then [cp]
        else if cp < 0x800 then [0xC0 OR drop_bit 6 cp, 0x80 OR (cp AND 0x3F)]
        else if cp < 0x10000
        then [0xE0 OR drop_bit 12 cp, 0x80 OR (drop_bit 6 cp AND 0x3F), 0x80 OR (cp AND 0x3F)]
        else [0xF0 OR drop_bit 18 cp, 0x80 OR (drop_bit 12 cp AND 0x3F),
              0x80 OR (drop_bit 6 cp AND 0x3F), 0x80 OR (cp AND 0x3F)])"

subsection \<open>UTF-16\<close>

type_synonym units = "u16 list"

definition decode_utf16 :: "units \<Rightarrow> nat \<Rightarrow> nat \<Rightarrow> u32 \<times> nat" where
  "decode_utf16 us len pos =
     (let first = us ! pos in
      if 0xD800 \<le> first \<and> first \<le> 0xDBFF then
        (if pos + 1 < len \<and> 0xDC00 \<le> us ! (pos + 1) \<and> us ! (pos + 1) \<le> 0xDFFF
         then ((push_bit 10 (first - 0xD800) OR (us ! (pos + 1) - 0xDC00)) + 0x10000, pos + 2)
         else (kInvalidCodepoint, pos + 1))
      else if 0xDC00 \<le> first \<and> first \<le> 0xDFFF then (kInvalidCodepoint, pos + 1)
      else (first, pos + 1))"

definition utf16_units_for :: "u32 \<Rightarrow> units" where
  "utf16_units_for cp =
     (if cp < 0x10000 then [to_u16 cp]
      else let v = cp - 0x10000 in [to_u16 (0xD800 OR drop_bit 10 v), to_u16 (0xDC00 OR (v AND 0x3FF))])"

subsection \<open>Strings\<close>

lemma byte_at_Cons [simp]: "byte_at (b # bs) 0 = unat b" "byte_at (b # bs) (Suc i) = byte_at bs i"
  "byte_at (b # bs) (numeral k) = byte_at bs (pred_numeral k)"
  by (simp_all add: byte_at_def nth_Cons_numeral)

lemma byte_of_word: "n < 256 \<Longrightarrow> unat (word_of_nat n :: 8 word) = n"
  by (simp add: unsigned_of_nat take_bit_nat_eq_self)

lemma decode_utf8_progress:
  assumes "pos < length bs"
  shows "pos < snd (decode_utf8 bs pos) \<and> snd (decode_utf8 bs pos) \<le> length bs"
  using assms by (auto simp: decode_utf8_def utf8_lead_def Let_def split: option.split)

function wide_loop :: "bytes \<Rightarrow> nat \<Rightarrow> units \<Rightarrow> units" where
  "wide_loop bs pos result =
     (if pos < length bs then
        (case decode_utf8 bs pos of
           (cp, pos') \<Rightarrow>
             if cp = kInvalidCodepoint then wide_loop bs pos' (result @ [0x3F])
             else wide_loop bs pos' (result @ utf16_units_for cp))
      else result)"
  by pat_completeness auto
termination
proof (relation "measure (\<lambda>(bs, pos, result). length bs - pos)", goal_cases)
  case (2 bs pos result cp pos')
  then show ?case using decode_utf8_progress [of pos bs]
    by (cases "decode_utf8 bs pos") (auto intro!: diff_less_mono2)
next
  case (3 bs pos result cp pos')
  then show ?case using decode_utf8_progress [of pos bs]
    by (cases "decode_utf8 bs pos") (auto intro!: diff_less_mono2)
qed simp

declare wide_loop.simps [simp del]

definition utf8_to_wide :: "bytes \<Rightarrow> units" where
  "utf8_to_wide bs = wide_loop bs 0 []"

text \<open>The length of a terminated string: up to the first zero unit, at most \<open>max_length\<close>.\<close>

definition wide_length :: "units \<Rightarrow> nat \<Rightarrow> nat" where
  "wide_length us max_length = length (takeWhile (\<lambda>u. u \<noteq> 0) (take max_length us))"

lemma decode_utf16_progress: "pos < snd (decode_utf16 us len pos) \<and> snd (decode_utf16 us len pos) \<le> max len (pos + 1)"
  by (auto simp: decode_utf16_def Let_def)

function utf8_loop :: "units \<Rightarrow> nat \<Rightarrow> nat \<Rightarrow> bytes \<Rightarrow> bytes" where
  "utf8_loop us len pos result =
     (if pos < len then
        (case decode_utf16 us len pos of
           (cp, pos') \<Rightarrow>
             if cp = kInvalidCodepoint then utf8_loop us len pos' (result @ [0x3F])
             else utf8_loop us len pos' (result @ utf8_bytes_for cp))
      else result)"
  by pat_completeness auto
termination
proof (relation "measure (\<lambda>(us, len, pos, result). len - pos)", goal_cases)
  case (2 us len pos result cp pos')
  then show ?case using decode_utf16_progress [of pos us len]
    by (cases "decode_utf16 us len pos") (auto intro!: diff_less_mono2)
next
  case (3 us len pos result cp pos')
  then show ?case using decode_utf16_progress [of pos us len]
    by (cases "decode_utf16 us len pos") (auto intro!: diff_less_mono2)
qed simp

declare utf8_loop.simps [simp del]

definition wide_to_utf8 :: "units option \<Rightarrow> nat \<Rightarrow> bytes" where
  "wide_to_utf8 wide_str max_length =
     (case wide_str of
        None \<Rightarrow> []
      | Some us \<Rightarrow> if us ! 0 = 0 then [] else utf8_loop us (wide_length us max_length) 0 [])"

subsection \<open>Masks as arithmetic\<close>

lemma and_mod: "n AND (2 ^ k - 1) = n mod 2 ^ k" for n :: nat
  by (metis mask_eq_exp_minus_1 take_bit_eq_mask take_bit_eq_mod)

lemma and_high: "n AND push_bit k m = push_bit k (drop_bit k n AND m)" for n m :: nat
  by (simp add: bit_eq_iff bit_and_iff bit_push_bit_iff_nat bit_drop_bit_eq) auto

lemma mask_values [simp]:
  "n AND 0x3F = n mod 64" "n AND 0x1F = n mod 32" "n AND 0x0F = n mod 16" "n AND 0x07 = n mod 8"
  "n AND 0x3FF = n mod 1024" for n :: nat
  using and_mod [of n 6] and_mod [of n 5] and_mod [of n 4] and_mod [of n 3] and_mod [of n 10] by simp_all

lemma byte_masks:
  assumes "n < (256::nat)"
  shows "n AND 0xC0 = 64 * (n div 64)" "n AND 0xE0 = 32 * (n div 32)" "n AND 0xF0 = 16 * (n div 16)"
    "n AND 0xF8 = 8 * (n div 8)"
  using assms and_high [of n 6 3] and_high [of n 5 7] and_high [of n 4 15] and_high [of n 3 31]
    and_mod [of _ 2] and_mod [of _ 3] and_mod [of _ 4] and_mod [of _ 5]
  by (simp_all add: push_bit_nat_def drop_bit_nat_def mult.commute)

lemma or_values:
  "x < 64 \<Longrightarrow> 0x80 OR x = 0x80 + (x::nat)"
  "x < 32 \<Longrightarrow> 0xC0 OR x = 0xC0 + (x::nat)"
  "x < 16 \<Longrightarrow> 0xE0 OR x = 0xE0 + (x::nat)"
  "x < 8 \<Longrightarrow> 0xF0 OR x = 0xF0 + (x::nat)"
  "x < 1024 \<Longrightarrow> 0xD800 OR x = 0xD800 + (x::nat)"
  "x < 1024 \<Longrightarrow> 0xDC00 OR x = 0xDC00 + (x::nat)"
  using or_shift_eq_add [of x 6 2] or_shift_eq_add [of x 5 6] or_shift_eq_add [of x 4 14]
    or_shift_eq_add [of x 3 30] or_shift_eq_add [of x 10 54] or_shift_eq_add [of x 10 55]
  by (simp_all add: push_bit_nat_def or.commute)

lemma push_or: "c < 64 \<Longrightarrow> push_bit 6 v OR c = v * 64 + (c::nat)"
  "c < 1024 \<Longrightarrow> push_bit 10 v OR c = v * 1024 + (c::nat)"
  using or_shift_eq_add [of c 6 v] or_shift_eq_add [of c 10 v]
  by (simp_all add: push_bit_nat_def or.commute)


subsection \<open>Round trips\<close>

text \<open>A Unicode scalar value: a code point that is not a surrogate.\<close>

definition scalar :: "u32 \<Rightarrow> bool" where
  "scalar cp \<longleftrightarrow> cp \<le> 0x10FFFF \<and> \<not> (0xD800 \<le> cp \<and> cp \<le> 0xDFFF)"

lemma scalar_not_invalid: "scalar cp \<Longrightarrow> cp \<noteq> kInvalidCodepoint"
  by (simp add: scalar_def kInvalidCodepoint_def)

text \<open>Blocks of \<open>m\<close> consecutive numbers, as quotient and remainder.\<close>

lemma block_iff:
  fixes n m k :: nat
  assumes "0 < m"
  shows "n div m = k \<longleftrightarrow> m * k \<le> n \<and> n < m * k + m"
  using assms by (metis div_nat_eqI less_eq_div_iff_mult_less_eq mult.commute mult_Suc_right
      add.commute dividend_less_times_div le_refl)

lemma block_scaled: "0 < m \<Longrightarrow> m * (n div m) = m * k \<longleftrightarrow> m * k \<le> n \<and> n < m * k + m" for n m k :: nat
  by (simp add: block_iff)

lemma block_mod:
  fixes n m k :: nat
  assumes "m * k \<le> n" "n < m * k + m"
  shows "n mod m = n - m * k"
proof -
  have "n div m = k" using assms by (intro div_nat_eqI) (simp_all add: mult.commute)
  then show ?thesis by (metis minus_mult_div_eq_mod)
qed

text \<open>The lead byte and the continuation bytes by their values.\<close>

lemma utf8_lead_values:
  assumes "lead < 256"
  shows "utf8_lead lead =
    (if 0xC0 \<le> lead \<and> lead < 0xE0 then Some (2, lead - 0xC0)
     else if 0xE0 \<le> lead \<and> lead < 0xF0 then Some (3, lead - 0xE0)
     else if 0xF0 \<le> lead \<and> lead < 0xF8 then Some (4, lead - 0xF0)
     else None)"
proof -
  have "lead AND 0xE0 = 0xC0 \<longleftrightarrow> 0xC0 \<le> lead \<and> lead < 0xE0"
    "lead AND 0xF0 = 0xE0 \<longleftrightarrow> 0xE0 \<le> lead \<and> lead < 0xF0"
    "lead AND 0xF8 = 0xF0 \<longleftrightarrow> 0xF0 \<le> lead \<and> lead < 0xF8"
    using block_scaled [of 32 lead 6] block_scaled [of 16 lead 14] block_scaled [of 8 lead 30]
    unfolding byte_masks [OF assms] by simp_all
  moreover have "0xC0 \<le> lead \<Longrightarrow> lead < 0xE0 \<Longrightarrow> lead mod 32 = lead - 0xC0"
    "0xE0 \<le> lead \<Longrightarrow> lead < 0xF0 \<Longrightarrow> lead mod 16 = lead - 0xE0"
    "0xF0 \<le> lead \<Longrightarrow> lead < 0xF8 \<Longrightarrow> lead mod 8 = lead - 0xF0"
    using block_mod [of 32 6 lead] block_mod [of 16 14 lead] block_mod [of 8 30 lead] by simp_all
  ultimately show ?thesis by (simp only: utf8_lead_def mask_values) simp
qed

lemma continuation_values:
  fixes c :: nat
  assumes "c < 256"
  shows "c AND 0xC0 = 0x80 \<longleftrightarrow> 0x80 \<le> c \<and> c < 0xC0" "0x80 \<le> c \<Longrightarrow> c < 0xC0 \<Longrightarrow> c mod 64 = c - 0x80"
proof -
  show "c AND 0xC0 = 0x80 \<longleftrightarrow> 0x80 \<le> c \<and> c < 0xC0" 
    unfolding byte_masks(1) [OF assms] using block_scaled [of 64 c 2] by simp
  show "0x80 \<le> c \<Longrightarrow> c < 0xC0 \<Longrightarrow> c mod 64 = c - 0x80" using block_mod [of 64 2 c] by simp
qed

lemma continuations_step:
  assumes "byte_at bs (pos + i) = 0x80 + c" "c < 64"
  shows "continuations bs pos (i # is) v = continuations bs pos is (v * 64 + c)"
proof -
  have "0x80 + c < 256" using assms(2) by simp
  note c = continuation_values [OF this]
  have "byte_at bs (pos + i) AND 0xC0 = 0x80" "byte_at bs (pos + i) AND 0x3F = c"
    using assms c by (simp_all only: mask_values) simp_all
  then show ?thesis
    by (simp only: continuations.simps Let_def push_or(1) [OF assms(2)]) simp
qed

lemma upt_small: "[1..<2] = [1::nat]" "[1..<3] = [1, 2::nat]" "[1..<4] = [1, 2, 3::nat]"
  by (simp_all add: upt_rec)

lemma byte_sum: "numeral k + n < 256 \<Longrightarrow> unat (numeral k + word_of_nat n :: 8 word) = numeral k + n"
  using byte_of_word [of "numeral k + n"] by simp

lemma mod64: "n mod 64 < (64::nat)"
  by simp

text \<open>The digits of a code point to the base 64.\<close>

lemma base64_digits:
  fixes cp :: nat
  shows "(cp div 64) * 64 + cp mod 64 = cp"
    "((cp div 4096) * 64 + cp div 64 mod 64) * 64 + cp mod 64 = cp"
    "(((cp div 262144) * 64 + cp div 4096 mod 64) * 64 + cp div 64 mod 64) * 64 + cp mod 64 = cp"
proof -
  have "cp div 64 div 64 = cp div 4096" "cp div 4096 div 64 = cp div 262144"
    by (simp_all add: div_mult2_eq [symmetric])
  then have "cp div 4096 * 64 + cp div 64 mod 64 = cp div 64"
    "cp div 262144 * 64 + cp div 4096 mod 64 = cp div 4096"
    by (metis div_mult_mod_eq)+
  then show "(cp div 64) * 64 + cp mod 64 = cp"
    "((cp div 4096) * 64 + cp div 64 mod 64) * 64 + cp mod 64 = cp"
    "(((cp div 262144) * 64 + cp div 4096 mod 64) * 64 + cp div 64 mod 64) * 64 + cp mod 64 = cp"
    by (metis div_mult_mod_eq)+
qed

lemma utf8_bytes_values:
  assumes "cp \<le> 0x10FFFF"
  shows "utf8_bytes_for cp = map word_of_nat
    (if cp < 0x80 then [cp]
     else if cp < 0x800 then [0xC0 + cp div 64, 0x80 + cp mod 64]
     else if cp < 0x10000 then [0xE0 + cp div 4096, 0x80 + cp div 64 mod 64, 0x80 + cp mod 64]
     else [0xF0 + cp div 262144, 0x80 + cp div 4096 mod 64, 0x80 + cp div 64 mod 64, 0x80 + cp mod 64])"
proof -
  have "cp < 0x800 \<Longrightarrow> cp div 64 < 32" "cp < 0x10000 \<Longrightarrow> cp div 4096 < 16" "cp div 262144 < 8"
    using assms by auto
  then show ?thesis
    by (simp add: utf8_bytes_for_def drop_bit_nat_def or_values)
qed

lemma utf8_length: "1 \<le> length (utf8_bytes_for cp) \<and> length (utf8_bytes_for cp) \<le> 4"
  by (simp add: utf8_bytes_for_def)

lemma decode_utf8_ascii: "pos < length bs \<Longrightarrow> byte_at bs pos < 0x80 \<Longrightarrow> decode_utf8 bs pos = (byte_at bs pos, pos + 1)"
  by (simp add: decode_utf8_def)

lemma decode_utf8_seq:
  assumes "utf8_lead (byte_at bs pos) = Some (n, v0)" "0x80 \<le> byte_at bs pos" "0 < n" "pos + n \<le> length bs"
    "continuations bs pos [1..<n] v0 = Some cp" "scalar cp"
    "n = 2 \<longrightarrow> 0x80 \<le> cp" "n = 3 \<longrightarrow> 0x800 \<le> cp" "n = 4 \<longrightarrow> 0x10000 \<le> cp"
  shows "decode_utf8 bs pos = (cp, pos + n)"
  using assms by (auto simp: decode_utf8_def Let_def scalar_def not_le)

lemma byte_at_append: "byte_at (pre @ bs) (length pre + i) = byte_at bs i"
  by (simp add: byte_at_def nth_append)

lemma byte_at_append_left: "i < length bs \<Longrightarrow> byte_at (bs @ suf) i = byte_at bs i"
  by (simp add: byte_at_def nth_append)

text \<open>Decoding gives back the code point that was encoded, and goes past it.\<close>

lemma decode_encode_utf8:
  assumes "scalar cp"
  shows "decode_utf8 (pre @ utf8_bytes_for cp @ suf) (length pre) =
    (cp, length pre + length (utf8_bytes_for cp))"
proof -
  let ?bs = "pre @ utf8_bytes_for cp @ suf"
  let ?p = "length pre"
  have le: "cp \<le> 0x10FFFF" using assms by (simp add: scalar_def)
  note u = utf8_bytes_values [OF le]
  have at: "byte_at ?bs (?p + i) = byte_at (utf8_bytes_for cp) i" if "i < length (utf8_bytes_for cp)" for i
    using that byte_at_append [of pre "utf8_bytes_for cp @ suf" i] byte_at_append_left [of i "utf8_bytes_for cp" suf]
    by simp
  have d: "cp < 0x800 \<Longrightarrow> cp div 64 < 32" "cp < 0x10000 \<Longrightarrow> cp div 4096 < 16" "cp div 262144 < 8"
    using le by auto
  consider "cp < 0x80" | "0x80 \<le> cp" "cp < 0x800" | "0x800 \<le> cp" "cp < 0x10000" | "0x10000 \<le> cp"
    by linarith
  then show ?thesis
  proof cases
    case 1
    then have len: "length (utf8_bytes_for cp) = 1" by (simp add: u)
    moreover have "byte_at ?bs ?p = cp" using at [of 0] 1 len by (simp add: u byte_of_word)
    ultimately show ?thesis using decode_utf8_ascii [of ?p ?bs] 1 by simp
  next
    case 2
    then have len: "length (utf8_bytes_for cp) = 2" by (simp add: u)
    have b: "byte_at ?bs (?p + 0) = 0xC0 + cp div 64" "byte_at ?bs (?p + 1) = 0x80 + cp mod 64"
      by (subst at; use 2 d(1) len in \<open>simp add: u byte_of_word byte_sum\<close>)+
    have c: "continuations ?bs ?p [1..<2] (cp div 64) = Some cp"
      by (simp only: upt_small continuations_step [OF b(2) mod64]
          continuations.simps(1) base64_digits)
    have "decode_utf8 ?bs ?p = (cp, ?p + 2)"
      by (rule decode_utf8_seq [where ?v0.0 = "cp div 64"])
        (use 2 b(1) c d(1) assms len in \<open>simp_all add: utf8_lead_values\<close>)
    then show ?thesis by (simp add: len)
  next
    case 3
    then have len: "length (utf8_bytes_for cp) = 3" by (simp add: u)
    have b: "byte_at ?bs (?p + 0) = 0xE0 + cp div 4096" "byte_at ?bs (?p + 1) = 0x80 + cp div 64 mod 64"
      "byte_at ?bs (?p + 2) = 0x80 + cp mod 64"
      by (subst at; use 3 d(2) len in \<open>simp add: u byte_of_word byte_sum\<close>)+
    have c: "continuations ?bs ?p [1..<3] (cp div 4096) = Some cp"
      by (simp only: upt_small continuations_step [OF b(2) mod64] continuations_step [OF b(3) mod64]
          continuations.simps(1) base64_digits)
    have "decode_utf8 ?bs ?p = (cp, ?p + 3)"
      by (rule decode_utf8_seq [where ?v0.0 = "cp div 4096"])
        (use 3 b(1) c d(2) assms len in \<open>simp_all add: utf8_lead_values\<close>)
    then show ?thesis by (simp add: len)
  next
    case 4
    then have len: "length (utf8_bytes_for cp) = 4" by (simp add: u)
    have b: "byte_at ?bs (?p + 0) = 0xF0 + cp div 262144" "byte_at ?bs (?p + 1) = 0x80 + cp div 4096 mod 64"
      "byte_at ?bs (?p + 2) = 0x80 + cp div 64 mod 64" "byte_at ?bs (?p + 3) = 0x80 + cp mod 64"
      by (subst at; use 4 d(3) len in \<open>simp add: u byte_of_word byte_sum\<close>)+
    have c: "continuations ?bs ?p [1..<4] (cp div 262144) = Some cp"
      by (simp only: upt_small continuations_step [OF b(2) mod64] continuations_step [OF b(3) mod64] continuations_step [OF b(4) mod64]
          continuations.simps(1) base64_digits)
    have "decode_utf8 ?bs ?p = (cp, ?p + 4)"
      by (rule decode_utf8_seq [where ?v0.0 = "cp div 262144"])
        (use 4 b(1) c d(3) assms len in \<open>simp_all add: utf8_lead_values\<close>)
    then show ?thesis by (simp add: len)
  qed
qed

lemma to_u16_small: "n < 65536 \<Longrightarrow> to_u16 n = n"
  by (simp add: to_u16_def)

lemma utf16_units_values:
  assumes "cp \<le> 0x10FFFF"
  shows "utf16_units_for cp =
    (if cp < 0x10000 then [cp] else [0xD800 + (cp - 0x10000) div 1024, 0xDC00 + (cp - 0x10000) mod 1024])"
proof -
  have d: "(cp - 0x10000) div 1024 < 1024" using assms by (auto simp: less_mult_imp_div_less)
  show ?thesis
  proof (cases "cp < 0x10000")
    case False
    then show ?thesis
      using d by (simp add: utf16_units_for_def Let_def drop_bit_nat_def or_values to_u16_small)
  qed (simp add: utf16_units_for_def to_u16_small)
qed

lemma decode_encode_utf16:
  assumes "scalar cp" "length pre + length (utf16_units_for cp) \<le> len"
  shows "decode_utf16 (pre @ utf16_units_for cp @ suf) len (length pre) =
    (cp, length pre + length (utf16_units_for cp))"
proof -
  have le: "cp \<le> 0x10FFFF" using assms by (simp add: scalar_def)
  note u = utf16_units_values [OF le]
  show ?thesis
  proof (cases "cp < 0x10000")
    case True
    then show ?thesis using assms(1) by (auto simp: decode_utf16_def u scalar_def nth_append)
  next
    case False
    have d: "(cp - 0x10000) div 1024 < 1024" using le by (auto simp: less_mult_imp_div_less)
    have "decode_utf16 (pre @ utf16_units_for cp @ suf) len (length pre) =
      ((cp - 0x10000) div 1024 * 1024 + (cp - 0x10000) mod 1024 + 0x10000, length pre + 2)"
      using False d assms(2) by (simp add: decode_utf16_def u nth_append push_or Let_def)
    also have "(cp - 0x10000) div 1024 * 1024 + (cp - 0x10000) mod 1024 + 0x10000 = cp"
      unfolding div_mult_mod_eq using False by simp
    finally show ?thesis using False by (simp add: u)
  qed
qed

text \<open>A string of scalar values in the two encodings.\<close>

definition encode8 :: "u32 list \<Rightarrow> bytes" where "encode8 cps = concat (map utf8_bytes_for cps)"

definition encode16 :: "u32 list \<Rightarrow> units" where "encode16 cps = concat (map utf16_units_for cps)"

lemma encode_simps [simp]:
  "encode8 [] = []" "encode8 (cp # cps) = utf8_bytes_for cp @ encode8 cps"
  "encode16 [] = []" "encode16 (cp # cps) = utf16_units_for cp @ encode16 cps"
  by (simp_all add: encode8_def encode16_def)

lemma utf8_nonempty: "utf8_bytes_for cp \<noteq> []"
  by (simp add: utf8_bytes_for_def)

lemma utf16_nonempty: "utf16_units_for cp \<noteq> []"
  by (simp add: utf16_units_for_def Let_def)

lemma wide_loop_encoded:
  "list_all scalar cps \<Longrightarrow> wide_loop (pre @ encode8 cps) (length pre) r = r @ encode16 cps"
proof (induction cps arbitrary: pre r)
  case (Cons cp cps)
  have "wide_loop (pre @ encode8 (cp # cps)) (length pre) r =
    wide_loop ((pre @ utf8_bytes_for cp) @ encode8 cps) (length (pre @ utf8_bytes_for cp)) (r @ utf16_units_for cp)"
    using Cons.prems utf8_nonempty [of cp] scalar_not_invalid [of cp]
    by (subst wide_loop.simps) (simp add: decode_encode_utf8)
  also have "\<dots> = r @ encode16 (cp # cps)" using Cons.prems by (subst Cons.IH) simp_all
  finally show ?case .
qed (simp add: wide_loop.simps)

lemma utf8_loop_encoded:
  "list_all scalar cps \<Longrightarrow> len = length (pre @ encode16 cps) \<Longrightarrow>
   utf8_loop (pre @ encode16 cps @ suf) len (length pre) r = r @ encode8 cps"
proof (induction cps arbitrary: pre r)
  case (Cons cp cps)
  have "utf8_loop (pre @ encode16 (cp # cps) @ suf) len (length pre) r =
    utf8_loop ((pre @ utf16_units_for cp) @ encode16 cps @ suf) len (length (pre @ utf16_units_for cp))
      (r @ utf8_bytes_for cp)"
    using Cons.prems utf16_nonempty [of cp] scalar_not_invalid [of cp]
    by (subst utf8_loop.simps) (simp add: decode_encode_utf16)
  also have "\<dots> = r @ encode8 (cp # cps)" using Cons.prems by (subst Cons.IH) simp_all
  finally show ?case .
qed (simp add: utf8_loop.simps)

lemma encode16_nonzero: "list_all scalar cps \<Longrightarrow> 0 \<notin> set cps \<Longrightarrow> 0 \<notin> set (encode16 cps)"
  by (induction cps) (auto simp: utf16_units_values scalar_def split: if_splits)

lemma wide_length_encoded:
  assumes "0 \<notin> set us" "length us \<le> max_length"
  shows "wide_length (us @ 0 # rest) max_length = length us"
proof (cases "max_length - length us")
  case 0
  have "takeWhile (\<lambda>u. u \<noteq> 0) us = us"
    using assms(1) by (simp only: takeWhile_eq_all_conv) metis
  moreover have "take max_length (us @ 0 # rest) = us" using 0 assms(2) by simp
  ultimately show ?thesis by (simp only: wide_length_def)
next
  case (Suc n)
  have "takeWhile (\<lambda>u. u \<noteq> 0) (us @ 0 # take n rest) = us"
    using assms(1) by (subst takeWhile_append2) (auto intro!: gr0I)
  then show ?thesis using assms(2) Suc by (simp add: wide_length_def)
qed

lemma utf8_to_wide_encode: "list_all scalar cps \<Longrightarrow> utf8_to_wide (encode8 cps) = encode16 cps"
  using wide_loop_encoded [of cps "[]" "[]"] by (simp add: utf8_to_wide_def)

lemma wide_to_utf8_encode:
  assumes "list_all scalar cps" "0 \<notin> set cps" "length (encode16 cps) \<le> max_length"
  shows "wide_to_utf8 (Some (encode16 cps @ 0 # rest)) max_length = encode8 cps"
proof (cases cps)
  case (Cons cp more)
  have "encode16 cps \<noteq> []" using utf16_nonempty [of cp] Cons by simp
  then have "(encode16 cps @ 0 # rest) ! 0 \<noteq> 0"
    using encode16_nonzero [OF assms(1,2)] by (cases "encode16 cps") auto
  then show ?thesis
    using utf8_loop_encoded [OF assms(1), of _ "[]"] assms
    by (simp add: wide_to_utf8_def wide_length_encoded encode16_nonzero)
qed (simp add: wide_to_utf8_def)

text \<open>
  The decoder accepts the shortest form only: what it decodes to a code point is a scalar value,
  and the bytes it went past are that value's encoding.
\<close>

lemma continuations_Some:
  assumes "continuations bs pos (i # is) v = Some w"
  obtains c where "byte_at bs (pos + i) = 0x80 + c" "c < 64" "continuations bs pos is (v * 64 + c) = Some w"
proof -
  let ?b = "byte_at bs (pos + i)"
  have b: "?b < 256" using byte_at_less [of bs "pos + i"] by simp
  have "?b AND 0xC0 = 0x80" using assms by (auto simp: Let_def simp del: mask_values split: if_splits)
  then have r: "0x80 \<le> ?b" "?b < 0xC0" using continuation_values(1) [OF b] by auto
  define c where "c = ?b - 0x80"
  have c: "?b = 0x80 + c" "c < 64" using r by (auto simp: c_def)
  then show thesis using that [of c] assms continuations_step [OF c] by simp
qed

lemma digits64:
  fixes a b :: nat
  assumes "b < 64"
  shows "(a * 64 + b) div 64 = a" "(a * 64 + b) mod 64 = b"
  using assms by simp_all

lemma decode_utf8_Some:
  assumes "decode_utf8 bs pos = (cp, pos')" "cp \<noteq> kInvalidCodepoint"
  shows "scalar cp \<and> pos < pos' \<and> pos' \<le> length bs \<and>
    map (\<lambda>i. byte_at bs (pos + i)) [0..<pos' - pos] = map unat (utf8_bytes_for cp)"
proof -
  let ?b = "byte_at bs pos"
  have pos: "pos < length bs" using assms by (auto simp: decode_utf8_def split: if_splits)
  have b: "?b < 256" using byte_at_less [of bs pos] by simp
  show ?thesis
  proof (cases "?b < 0x80")
    case True
    then have "cp = ?b" "pos' = pos + 1" using assms(1) pos by (simp_all add: decode_utf8_def)
    then show ?thesis using True pos by (simp add: scalar_def utf8_bytes_for_def byte_of_word)
  next
    case False
    then obtain n v0 where lead: "utf8_lead ?b = Some (n, v0)"
      using assms pos by (auto simp: decode_utf8_def Let_def split: option.splits)
    have len: "pos + n \<le> length bs"
      using assms pos False lead by (auto simp: decode_utf8_def Let_def split: if_splits)
    obtain v where v: "continuations bs pos [1..<n] v0 = Some v"
      using assms pos False lead len by (auto simp: decode_utf8_def Let_def split: option.splits)
    have cp: "cp = v" "pos' = pos + n" "cp \<le> 0x10FFFF" "\<not> (0xD800 \<le> cp \<and> cp \<le> 0xDFFF)"
      "n = 2 \<longrightarrow> 0x80 \<le> cp" "n = 3 \<longrightarrow> 0x800 \<le> cp" "n = 4 \<longrightarrow> 0x10000 \<le> cp"
      using assms pos False lead len v by (auto simp: decode_utf8_def Let_def split: if_splits)
    note u = utf8_bytes_values [OF cp(3)]
    from lead have "(n = 2 \<and> 0xC0 \<le> ?b \<and> ?b < 0xE0 \<and> v0 = ?b - 0xC0) \<or>
      (n = 3 \<and> 0xE0 \<le> ?b \<and> ?b < 0xF0 \<and> v0 = ?b - 0xE0) \<or>
      (n = 4 \<and> 0xF0 \<le> ?b \<and> ?b < 0xF8 \<and> v0 = ?b - 0xF0)"
      by (auto simp: utf8_lead_values [OF b] split: if_splits)
    then consider (two) "n = 2" "?b = 0xC0 + v0" "v0 < 32" | (three) "n = 3" "?b = 0xE0 + v0" "v0 < 16"
      | (four) "n = 4" "?b = 0xF0 + v0" "v0 < 8" by fastforce
    then show ?thesis
    proof cases
      case two
      from v [unfolded two(1) upt_small] obtain c where c: "byte_at bs (pos + 1) = 0x80 + c" "c < 64"
        "v0 * 64 + c = v" by (elim continuations_Some) simp
      have "cp div 64 = v0" "cp mod 64 = c" "cp < 0x800" using c two(3) cp(1) digits64 [of c v0] by simp_all
      then show ?thesis using two c(1,2) cp(2-) pos len
        by (simp add: u scalar_def byte_sum upt_rec)
    next
      case three
      from v [unfolded three(1) upt_small] obtain c d where c: "byte_at bs (pos + 1) = 0x80 + c" "c < 64"
        "byte_at bs (pos + 2) = 0x80 + d" "d < 64" "(v0 * 64 + c) * 64 + d = v"
        by (elim continuations_Some) simp
      have d: "cp div 64 = v0 * 64 + c" "cp mod 64 = d" using c cp(1) digits64 [of d "v0 * 64 + c"] by simp_all
      have "cp div 4096 = cp div 64 div 64" by (simp add: div_mult2_eq [symmetric])
      then have "cp div 4096 = v0" "cp div 64 mod 64 = c" using d c(2) digits64 [of c v0] by simp_all
      moreover have "cp < 0x10000" using c three(3) cp(1) by simp
      ultimately show ?thesis using three c(1-4) d(2) cp(2-) pos len
        by (simp add: u scalar_def byte_sum upt_rec)
    next
      case four
      from v [unfolded four(1) upt_small] obtain c d e where c: "byte_at bs (pos + 1) = 0x80 + c" "c < 64"
        "byte_at bs (pos + 2) = 0x80 + d" "d < 64" "byte_at bs (pos + 3) = 0x80 + e" "e < 64"
        "((v0 * 64 + c) * 64 + d) * 64 + e = v"
        by (elim continuations_Some) simp
      have d: "cp div 64 = (v0 * 64 + c) * 64 + d" "cp mod 64 = e"
        using c cp(1) digits64 [of e "(v0 * 64 + c) * 64 + d"] by simp_all
      have "cp div 4096 = cp div 64 div 64" "cp div 262144 = cp div 64 div 64 div 64"
        by (simp_all add: div_mult2_eq [symmetric])
      then have "cp div 4096 = v0 * 64 + c" "cp div 64 mod 64 = d" "cp div 262144 = v0" "cp div 4096 mod 64 = c"
        using d c(2,4) digits64 [of d "v0 * 64 + c"] digits64 [of c v0] by simp_all
      moreover have "byte_at bs (Suc (Suc (Suc pos))) = 0x80 + e" using c(5) by (simp add: numeral_3_eq_3)
      ultimately show ?thesis using four c(1-4,6) d(2) cp(2-) pos len
        by (simp add: u scalar_def byte_sum upt_rec)
    qed
  qed
qed

subsection \<open>Properties\<close>

text \<open>
  The UTF-8 decoder accepts the shortest form only. A code point it returns is a Unicode scalar
  value, no surrogate, and the bytes it went past are that value's encoding, inside the string.
\<close>

theorem utf8_decoded_canonical:
  assumes "decode_utf8 bs pos = (cp, pos')" "cp \<noteq> kInvalidCodepoint"
  shows "scalar cp \<and> pos < pos' \<and> pos' \<le> length bs \<and>
    map (\<lambda>i. byte_at bs (pos + i)) [0..<pos' - pos] = map unat (utf8_bytes_for cp)"
  by (rule decode_utf8_Some [OF assms])

theorem utf8_decoded_canonical_witness: "scalar 0xE9"
proof -
  have "decode_utf8 [0xC3, 0xA9] 0 = (0xE9, 2)"
    using decode_encode_utf8 [of "0xE9" "[]" "[]"] by (simp add: scalar_def utf8_bytes_values)
  from utf8_decoded_canonical [OF this] show ?thesis by (simp add: kInvalidCodepoint_def)
qed

text \<open>
  C40: Converting a string of scalar values from UTF-8 to UTF-16 and back gives the same bytes, when
  it has no zero character and the terminated result fits the limit.
\<close>

theorem utf8_wide_roundtrip:
  assumes "list_all scalar cps" "0 \<notin> set cps" "length (utf8_to_wide (encode8 cps)) \<le> max_length"
  shows "wide_to_utf8 (Some (utf8_to_wide (encode8 cps) @ 0 # rest)) max_length = encode8 cps"
  using assms wide_to_utf8_encode by (simp add: utf8_to_wide_encode)

theorem utf8_wide_roundtrip_witness:
  "wide_to_utf8 (Some (utf8_to_wide (encode8 [0x41, 0x1F600]) @ [0])) 4096 = encode8 [0x41, 0x1F600]"
proof (rule utf8_wide_roundtrip)
  show "length (utf8_to_wide (encode8 [0x41, 0x1F600])) \<le> 4096"
    by (subst utf8_to_wide_encode) (simp_all add: scalar_def utf16_units_values)
qed (simp_all add: scalar_def)

end
