(* ===== verification/Guest_Memory.thy ===== *)
theory Guest_Memory
  imports Prelude
begin

text \<open>
  Access to the memory of the guest (\<open>src/runtime/core/memory_validator.cpp\<close>). Addresses are
  numbers, memory is a function from addresses to bytes. The answers of the kernel are a parameter,
  the record \<open>Kernel\<close>: the results of \<open>process_vm_readv\<close> and \<open>process_vm_writev\<close>, of the fallback
  through \<open>/proc/thread-self/mem\<close>, and the lines of \<open>/proc/self/maps\<close>. The cache of mapped regions
  is the record \<open>map_cache\<close>; its locks are not modelled.
\<close>

section \<open>Data\<close>

type_synonym memory = "u64 \<Rightarrow> byte"

datatype GuestMemoryAccessStatus =
  AccessSuccess | AccessInvalidArgument | AccessUnmapped | AccessPermissionDenied | AccessPartial |
  AccessSystemError

record GuestMemoryAccessResult =
  acc_status :: GuestMemoryAccessStatus
  transferred :: nat

record MemoryRegion =
  reg_start :: u64
  reg_end :: u64
  readable :: bool
  writable :: bool

record map_cache =
  g_map_regions :: "MemoryRegion list"
  g_map_cache_populated :: bool
  g_allocation_generation :: nat
  g_cached_generation :: nat

datatype errno = EACCES | EPERM | EFAULT | EIO | ENOSYS | OtherErrno

text \<open>
  The kernel: for a transfer (writing or reading, address, size) the value returned and \<open>errno\<close>;
  \<open>open_mem\<close> gives the error of opening the memory file, if any; \<open>maps_lines\<close> is the text of
  \<open>/proc/self/maps\<close>, if it can be opened.
\<close>

record Kernel =
  vm_call :: "bool \<Rightarrow> u64 \<Rightarrow> nat \<Rightarrow> int \<times> errno"
  open_mem :: "bool \<Rightarrow> errno option"
  mem_call :: "bool \<Rightarrow> u64 \<Rightarrow> nat \<Rightarrow> int \<times> errno"
  maps_lines :: "string list option"

section \<open>The cache of mapped regions\<close>

text \<open>\<open>std::from_chars\<close> in base 16: the longest prefix of digits, which must fit 64 bits.\<close>

definition is_hex_digit :: "char \<Rightarrow> bool" where
  "is_hex_digit c \<longleftrightarrow> c \<in> set ''0123456789abcdefABCDEF''"

definition hex_digit_value :: "char \<Rightarrow> nat" where
  "hex_digit_value c =
     (let n = of_char c :: nat in if n \<le> 57 then n - 48 else if n \<le> 70 then n - 55 else n - 87)"

definition from_chars_hex :: "string \<Rightarrow> u64 option" where
  "from_chars_hex s =
     (let ds = takeWhile is_hex_digit s; v = foldl (\<lambda>v c. v * 16 + hex_digit_value c) 0 ds in
      if ds = [] \<or> u64_max < v then None else Some v)"

definition find_char :: "char \<Rightarrow> nat \<Rightarrow> string \<Rightarrow> nat option" where
  "find_char c from s =
     (let n = from + length (takeWhile (\<lambda>x. x \<noteq> c) (drop from s)) in
      if n < length s then Some n else None)"

definition parse_map_line :: "string \<Rightarrow> MemoryRegion option" where
  "parse_map_line l =
     (case find_char CHR ''-'' 0 l of
        None \<Rightarrow> None
      | Some dash \<Rightarrow>
          (case find_char CHR '' '' dash l of
             None \<Rightarrow> None
           | Some space \<Rightarrow>
               if dash = 0 then None
               else (case (from_chars_hex (take dash l), from_chars_hex (take (space - (dash + 1)) (drop (dash + 1) l))) of
                   (Some region_start, Some region_end) \<Rightarrow>
                     if region_end < region_start then None
                     else if length l < space + 1 + 2 then None
                     else Some \<lparr>reg_start = region_start, reg_end = region_end,
                            readable = l ! (space + 1) = CHR ''r'', writable = l ! (space + 1 + 1) = CHR ''w''\<rparr>
                 | _ \<Rightarrow> None)))"

definition rebuild_cache_locked :: "Kernel \<Rightarrow> map_cache \<Rightarrow> map_cache" where
  "rebuild_cache_locked K c =
     (let c' = c\<lparr>g_map_regions := []\<rparr> in
      case maps_lines K of
        None \<Rightarrow> c'
      | Some ls \<Rightarrow>
          let rs = List.map_filter parse_map_line ls in
          c'\<lparr>g_map_regions := rs, g_cached_generation := g_allocation_generation c,
             g_map_cache_populated := rs \<noteq> []\<rparr>)"

definition ensure_cache_valid :: "Kernel \<Rightarrow> map_cache \<Rightarrow> map_cache" where
  "ensure_cache_valid K c =
     (if g_cached_generation c = g_allocation_generation c \<and> g_map_cache_populated c then c
      else if g_cached_generation c \<noteq> g_allocation_generation c \<or> g_map_regions c = []
      then rebuild_cache_locked K c else c)"

definition invalidate_memory_map_cache :: "map_cache \<Rightarrow> map_cache" where
  "invalidate_memory_map_cache c =
     c\<lparr>g_allocation_generation := (g_allocation_generation c + 1) mod 2 ^ 64\<rparr>"

text \<open>\<open>std::upper_bound\<close>: the position of the first region that starts after the address.\<close>

definition find_region_covering :: "MemoryRegion list \<Rightarrow> u64 \<Rightarrow> MemoryRegion option" where
  "find_region_covering rs a =
     (let n = length (takeWhile (\<lambda>r. \<not> a < reg_start r) rs) in
      if rs = [] then None
      else if n = 0 then None
      else let r = rs ! (n - 1) in if reg_start r \<le> a \<and> a < reg_end r then Some r else None)"

lemma find_region_covering_Some:
  assumes "find_region_covering rs a = Some r"
  shows "r \<in> set rs" "reg_start r \<le> a" "a < reg_end r"
proof -
  let ?n = "length (takeWhile (\<lambda>r. \<not> a < reg_start r) rs)"
  have n: "?n \<le> length rs" by (rule length_takeWhile_le)
  from assms have "r = rs ! (?n - 1)" "?n \<noteq> 0"
    and r: "reg_start r \<le> a" "a < reg_end r"
    by (auto simp: find_region_covering_def Let_def split: if_splits)
  then have "?n - 1 < length rs" "r = rs ! (?n - 1)" using n by linarith+
  then show "r \<in> set rs" by (metis nth_mem)
  show "reg_start r \<le> a" "a < reg_end r" by (fact r)+
qed

function range_loop :: "MemoryRegion list \<Rightarrow> bool \<Rightarrow> u64 \<Rightarrow> u64 \<Rightarrow> bool" where
  "range_loop rs w cur target_end =
     (if cur < target_end then
        (case find_region_covering rs cur of
           None \<Rightarrow> False
         | Some r \<Rightarrow>
             if (if w then \<not> writable r else \<not> readable r) then False
             else range_loop rs w (min target_end (reg_end r)) target_end)
      else True)"
  by pat_completeness auto

termination
  by (relation "measure (\<lambda>(rs, w, cur, t). t - cur)") (auto dest: find_region_covering_Some(3))

declare range_loop.simps [simp del]

definition validate_mapped_range ::
    "Kernel \<Rightarrow> u64 \<Rightarrow> nat \<Rightarrow> bool \<Rightarrow> map_cache \<Rightarrow> bool \<times> map_cache" where
  "validate_mapped_range K address sz w c =
     (if address = 0 \<or> sz = 0 then (False, c)
      else if u64_max - address < sz then (False, c)
      else let c' = ensure_cache_valid K c in
        (range_loop (g_map_regions c') w address (address + sz), c'))"

definition initial_cache :: map_cache where
  "initial_cache = \<lparr>g_map_regions = [], g_map_cache_populated = False, g_allocation_generation = 1,
     g_cached_generation = 0\<rparr>"

section \<open>Copies\<close>

definition open_failed :: "errno \<Rightarrow> GuestMemoryAccessStatus" where
  "open_failed e = (if e = EACCES \<or> e = EPERM then AccessPermissionDenied else AccessSystemError)"

definition copy_guest_memory_via_proc_mem ::
    "Kernel \<Rightarrow> bool \<Rightarrow> u64 \<Rightarrow> nat \<Rightarrow> GuestMemoryAccessResult" where
  "copy_guest_memory_via_proc_mem K w address sz =
     (case open_mem K w of
        Some e \<Rightarrow> \<lparr>acc_status = open_failed e, transferred = 0\<rparr>
      | None \<Rightarrow>
          (case mem_call K w address sz of (result, e) \<Rightarrow>
             if result = int sz then \<lparr>acc_status = AccessSuccess, transferred = sz\<rparr>
             else if 0 < result then \<lparr>acc_status = AccessPartial, transferred = nat result\<rparr>
             else if e = EACCES \<or> e = EPERM then \<lparr>acc_status = AccessPermissionDenied, transferred = 0\<rparr>
             else if e = EFAULT \<or> e = EIO then \<lparr>acc_status = AccessUnmapped, transferred = 0\<rparr>
             else \<lparr>acc_status = AccessSystemError, transferred = 0\<rparr>))"

abbreviation i64_max :: nat where "i64_max \<equiv> 0x7FFFFFFFFFFFFFFF"

text \<open>\<open>host\<close> tells whether the address on the side of the runtime is not null.\<close>

definition copy_guest_memory ::
    "Kernel \<Rightarrow> bool \<Rightarrow> u64 \<Rightarrow> bool \<Rightarrow> nat \<Rightarrow> map_cache \<Rightarrow> GuestMemoryAccessResult \<times> map_cache" where
  "copy_guest_memory K w guest host sz c =
     (if guest = 0 \<or> \<not> host \<or> sz = 0 then (\<lparr>acc_status = AccessInvalidArgument, transferred = 0\<rparr>, c)
      else if u64_max - guest < sz then (\<lparr>acc_status = AccessInvalidArgument, transferred = 0\<rparr>, c)
      else if i64_max < sz \<or> i64_max < guest
      then (\<lparr>acc_status = AccessInvalidArgument, transferred = 0\<rparr>, c)
      else (case vm_call K w guest sz of (result, e) \<Rightarrow>
        if result = int sz then (\<lparr>acc_status = AccessSuccess, transferred = sz\<rparr>, c)
        else if 0 < result then (\<lparr>acc_status = AccessPartial, transferred = nat result\<rparr>, c)
        else if e = EFAULT then (\<lparr>acc_status = AccessUnmapped, transferred = 0\<rparr>, c)
        else if e = EACCES \<or> e = EPERM \<or> e = ENOSYS then
          (if w then
             (case validate_mapped_range K guest sz True (invalidate_memory_map_cache c) of
                (ok, c') \<Rightarrow>
                  if \<not> ok then (\<lparr>acc_status = AccessPermissionDenied, transferred = 0\<rparr>, c')
                  else (copy_guest_memory_via_proc_mem K w guest sz, c'))
           else (copy_guest_memory_via_proc_mem K w guest sz, c))
        else (\<lparr>acc_status = AccessSystemError, transferred = 0\<rparr>, c)))"

text \<open>
  A read does not touch the cache; it gives the bytes that were transferred. A write stores the
  first \<open>transferred\<close> bytes of its source (\<open>None\<close> is a null source).
\<close>

definition load :: "memory \<Rightarrow> u64 \<Rightarrow> nat \<Rightarrow> bytes" where
  "load m a n = map m [a..<a + n]"

definition store :: "memory \<Rightarrow> u64 \<Rightarrow> bytes \<Rightarrow> memory" where
  "store m a ds = (\<lambda>x. if a \<le> x \<and> x < a + length ds then ds ! (x - a) else m x)"

definition read_guest_memory ::
    "Kernel \<Rightarrow> memory \<Rightarrow> u64 \<Rightarrow> nat \<Rightarrow> GuestMemoryAccessResult \<times> bytes" where
  "read_guest_memory K m source sz =
     (let res = fst (copy_guest_memory K False source True sz initial_cache) in
      (res, load m source (transferred res)))"

definition write_guest_memory ::
    "Kernel \<Rightarrow> u64 \<Rightarrow> bytes option \<Rightarrow> memory \<times> map_cache \<Rightarrow>
     GuestMemoryAccessResult \<times> memory \<times> map_cache" where
  "write_guest_memory K destination source st =
     (case st of (m, c) \<Rightarrow>
        case copy_guest_memory K True destination (source \<noteq> None)
               (length (case source of Some ds \<Rightarrow> ds | None \<Rightarrow> [])) c of
          (res, c') \<Rightarrow>
            (res, store m destination (take (transferred res) (case source of Some ds \<Rightarrow> ds | None \<Rightarrow> [])), c'))"

section \<open>Strings\<close>

function cstring_chunks ::
    "Kernel \<Rightarrow> memory \<Rightarrow> u64 \<Rightarrow> nat \<Rightarrow> nat \<Rightarrow> bytes \<Rightarrow> bool \<times> bytes" where
  "cstring_chunks K m source max_len checked dest =
     (if checked < max_len then
        if u64_max - source < checked then (False, dest)
        else
          let chunk_count = min 4096 (max_len - checked) in
          (case read_guest_memory K m (source + checked) chunk_count of (access, scratch) \<Rightarrow>
            let seen = take (min (transferred access) chunk_count) scratch in
            if 0 \<in> set seen then (True, dest @ takeWhile (\<lambda>b. b \<noteq> 0) seen)
            else if acc_status access \<noteq> AccessSuccess then (False, dest @ seen)
            else cstring_chunks K m source max_len (checked + chunk_count) (dest @ seen))
      else (False, dest))"
  by pat_completeness auto

termination
  by (relation "measure (\<lambda>(K, m, s, max_len, checked, d). max_len - checked)") auto

declare cstring_chunks.simps [simp del]

definition copy_guest_cstring :: "Kernel \<Rightarrow> memory \<Rightarrow> u64 \<Rightarrow> nat \<Rightarrow> bool \<times> bytes" where
  "copy_guest_cstring K m source max_len =
     (if source = 0 \<or> max_len = 0 then (False, []) else cstring_chunks K m source max_len 0 [])"

text \<open>UTF-16 units, low byte first.\<close>

fun units_of :: "bytes \<Rightarrow> u16 list" where
  "units_of (a # b # bs) = (unat a + 256 * unat b) # units_of bs"
| "units_of _ = []"

function wstring_chunks ::
    "Kernel \<Rightarrow> memory \<Rightarrow> u64 \<Rightarrow> nat \<Rightarrow> nat \<Rightarrow> u16 list \<Rightarrow> bool \<times> u16 list" where
  "wstring_chunks K m source max_len checked dest =
     (if checked < max_len then
        if (u64_max - source) div 2 < checked then (False, dest)
        else
          let chunk_count = min 2048 (max_len - checked) in
          (case read_guest_memory K m (source + checked * 2) (chunk_count * 2) of (access, scratch) \<Rightarrow>
            let seen = take (min (transferred access div 2) chunk_count) (units_of scratch) in
            if 0 \<in> set seen then (True, dest @ takeWhile (\<lambda>u. u \<noteq> 0) seen)
            else if acc_status access \<noteq> AccessSuccess then (False, dest @ seen)
            else wstring_chunks K m source max_len (checked + chunk_count) (dest @ seen))
      else (False, dest))"
  by pat_completeness auto

termination
  by (relation "measure (\<lambda>(K, m, s, max_len, checked, d). max_len - checked)") auto

declare wstring_chunks.simps [simp del]

definition copy_guest_wstring :: "Kernel \<Rightarrow> memory \<Rightarrow> u64 \<Rightarrow> nat \<Rightarrow> bool \<times> u16 list" where
  "copy_guest_wstring K m source max_len =
     (if source = 0 \<or> max_len = 0 \<or> source mod 2 \<noteq> 0 then (False, [])
      else wstring_chunks K m source max_len 0 [])"

function cstring_regions ::
    "Kernel \<Rightarrow> memory \<Rightarrow> MemoryRegion list \<Rightarrow> u64 \<Rightarrow> nat \<Rightarrow> nat \<Rightarrow> bool" where
  "cstring_regions K m rs cur max_len checked =
     (if checked < max_len then
        (case find_region_covering rs cur of
           None \<Rightarrow> False
         | Some r \<Rightarrow>
             if \<not> readable r then False
             else
               let scan_count = min (max_len - checked) (reg_end r - cur);
                   chunk_count = min scan_count 4096
               in (case read_guest_memory K m cur chunk_count of (access, scratch) \<Rightarrow>
                     if acc_status access \<noteq> AccessSuccess then False
                     else if 0 \<in> set scratch then True
                     else cstring_regions K m rs (cur + chunk_count) max_len (checked + chunk_count)))
      else False)"
  by pat_completeness auto

termination
  by (relation "measure (\<lambda>(K, m, rs, cur, max_len, checked). max_len - checked)")
    (auto dest!: find_region_covering_Some(3))

declare cstring_regions.simps [simp del]

definition validate_mapped_cstring ::
    "Kernel \<Rightarrow> memory \<Rightarrow> u64 \<Rightarrow> nat \<Rightarrow> map_cache \<Rightarrow> bool \<times> map_cache" where
  "validate_mapped_cstring K m str max_len c =
     (if str = 0 then (False, c)
      else let c' = ensure_cache_valid K c in (cstring_regions K m (g_map_regions c') str max_len 0, c'))"

function wstring_regions ::
    "Kernel \<Rightarrow> memory \<Rightarrow> MemoryRegion list \<Rightarrow> u64 \<Rightarrow> nat \<Rightarrow> nat \<Rightarrow> bool" where
  "wstring_regions K m rs cur max_len checked =
     (if checked < max_len then
        (case find_region_covering rs cur of
           None \<Rightarrow> False
         | Some r \<Rightarrow>
             if \<not> readable r then False
             else
               let elements_in_region = (reg_end r - cur) div 2;
                   scan_count = min (max_len - checked) elements_in_region;
                   chunk_count = min scan_count 2048
               in if elements_in_region = 0 then False
                  else (case read_guest_memory K m cur (chunk_count * 2) of (access, scratch) \<Rightarrow>
                     if acc_status access \<noteq> AccessSuccess then False
                     else if 0 \<in> set (units_of scratch) then True
                     else wstring_regions K m rs (cur + chunk_count * 2) max_len (checked + chunk_count)))
      else False)"
  by pat_completeness auto

termination
  by (relation "measure (\<lambda>(K, m, rs, cur, max_len, checked). max_len - checked)") auto

declare wstring_regions.simps [simp del]

definition validate_mapped_wstring ::
    "Kernel \<Rightarrow> memory \<Rightarrow> u64 \<Rightarrow> nat \<Rightarrow> map_cache \<Rightarrow> bool \<times> map_cache" where
  "validate_mapped_wstring K m wstr max_len c =
     (if wstr = 0 \<or> wstr mod 2 \<noteq> 0 then (False, c)
      else let c' = ensure_cache_valid K c in (wstring_regions K m (g_map_regions c') wstr max_len 0, c'))"

section \<open>Reading from an honest kernel\<close>

text \<open>
  The documented behaviour of the two system calls, for a process whose readable and writable
  bytes are \<open>rd\<close> and \<open>wr\<close>: the longest accessible prefix is transferred, and \<open>EFAULT\<close> is the answer
  when there is none.
\<close>

definition reach :: "(u64 \<Rightarrow> bool) \<Rightarrow> u64 \<Rightarrow> nat \<Rightarrow> nat" where
  "reach P a n = length (takeWhile P [a..<a + n])"

definition serves :: "Kernel \<Rightarrow> (u64 \<Rightarrow> bool) \<Rightarrow> (u64 \<Rightarrow> bool) \<Rightarrow> bool" where
  "serves K rd wr \<longleftrightarrow> (\<forall>w a n. vm_call K w a n =
     (let k = reach (if w then wr else rd) a n in if k = 0 then (- 1, EFAULT) else (int k, OtherErrno)))"

lemma reach_simps [simp]:
  "reach P a 0 = 0"
  "reach P a (Suc n) = (if P a then Suc (reach P (Suc a) n) else 0)"
proof -
  show "reach P a 0 = 0" by (simp add: reach_def)
  have "[a..<a + Suc n] = a # [Suc a..<Suc a + n]" by (simp add: upt_conv_Cons)
  then show "reach P a (Suc n) = (if P a then Suc (reach P (Suc a) n) else 0)"
    by (simp add: reach_def)
qed

lemma reach_le: "reach P a n \<le> n"
  by (induction n arbitrary: a) auto

lemma reach_prefix: "i < reach P a n \<Longrightarrow> P (a + i)"
proof (induction n arbitrary: a i)
  case (Suc n)
  then show ?case using Suc.IH [of "i - 1" "Suc a"] by (cases i) (auto split: if_splits)
qed simp

lemma reach_full: "reach P a n = n \<longleftrightarrow> (\<forall>i < n. P (a + i))"
proof (induction n arbitrary: a)
  case (Suc n)
  then show ?case by (auto simp: less_Suc_eq_0_disj)
qed simp

lemma load_simps [simp]:
  "load m a 0 = []"
  "load m a (Suc n) = m a # load m (Suc a) n"
proof -
  show "load m a 0 = []" by (simp add: load_def)
  have "[a..<a + Suc n] = a # [Suc a..<Suc a + n]" by (simp add: upt_conv_Cons)
  then show "load m a (Suc n) = m a # load m (Suc a) n" by (simp add: load_def)
qed

lemma length_load [simp]: "length (load m a n) = n"
  by (simp add: load_def)

lemma load_add: "load m a (n + k) = load m a n @ load m (a + n) k"
  by (induction n arbitrary: a) auto

lemma read_guest_memory_serves:
  assumes "serves K rd wr" "0 < a" "0 < n" "a + n \<le> 2 ^ 63"
  shows "read_guest_memory K m a n =
    (let k = reach rd a n in
     (\<lparr>acc_status = (if k = n then AccessSuccess else if 0 < k then AccessPartial else AccessUnmapped),
        transferred = k\<rparr>, load m a k))"
proof -
  have "vm_call K False a n = (let k = reach rd a n in if k = 0 then (- 1, EFAULT) else (int k, OtherErrno))"
    using assms(1) by (simp add: serves_def)
  moreover have "n \<le> u64_max - a" "n \<le> i64_max" "a \<le> i64_max" using assms(2-4) by auto
  ultimately show ?thesis
    using assms(2,3) by (auto simp: read_guest_memory_def copy_guest_memory_def Let_def)
qed

text \<open>What copying a string byte by byte would do.\<close>

fun scan_cstring :: "(u64 \<Rightarrow> bool) \<Rightarrow> memory \<Rightarrow> u64 \<Rightarrow> nat \<Rightarrow> bool \<times> bytes" where
  "scan_cstring rd m a 0 = (False, [])"
| "scan_cstring rd m a (Suc n) =
     (if \<not> rd a then (False, [])
      else if m a = 0 then (True, [])
      else apsnd (Cons (m a)) (scan_cstring rd m (Suc a) n))"

lemma scan_cstring_chunk:
  "scan_cstring rd m a (n + k) =
     (let seen = load m a (reach rd a n) in
      if 0 \<in> set seen then (True, takeWhile (\<lambda>b. b \<noteq> 0) seen)
      else if reach rd a n < n then (False, seen)
      else apsnd ((@) seen) (scan_cstring rd m (a + n) k))"
proof (induction n arbitrary: a)
  case 0
  show ?case by (simp add: prod_eq_iff)
next
  case (Suc n)
  show ?case
    by (simp add: Suc.IH Let_def prod_eq_iff)
qed

lemma cstring_chunks_scan:
  assumes "serves K rd wr" "0 < source" "source + max_len \<le> 2 ^ 63" "checked \<le> max_len"
  shows "cstring_chunks K m source max_len checked dest =
    apsnd ((@) dest) (scan_cstring rd m (source + checked) (max_len - checked))"
  using assms
proof (induction K m source max_len checked dest rule: cstring_chunks.induct)
  case (1 K m source max_len checked dest)
  show ?case
  proof (cases "checked < max_len")
    case False
    with "1.prems" show ?thesis by (simp add: cstring_chunks.simps)
  next
    case True
    define n where "n = min 4096 (max_len - checked)"
    let ?k = "reach rd (source + checked) n"
    let ?seen = "load m (source + checked) ?k"
    have bounds: "\<not> u64_max - source < checked" "0 < source + checked" "0 < n"
      "source + checked + n \<le> 2 ^ 63" "n \<le> max_len - checked"
      using "1.prems" True by (auto simp: n_def)
    have k: "?k \<le> n" by (rule reach_le)
    note rd = read_guest_memory_serves [OF "1.prems"(1) bounds(2-4), of m]
    have split: "max_len - checked = n + (max_len - (checked + n))" using bounds(5) by simp
    have scan: "scan_cstring rd m (source + checked) (max_len - checked) =
      (if 0 \<in> set ?seen then (True, takeWhile (\<lambda>b. b \<noteq> 0) ?seen)
       else if ?k < n then (False, ?seen)
       else apsnd ((@) ?seen) (scan_cstring rd m (source + checked + n) (max_len - (checked + n))))"
      by (subst split) (simp add: scan_cstring_chunk Let_def)
    have step: "cstring_chunks K m source max_len checked dest =
      (if 0 \<in> set ?seen then (True, dest @ takeWhile (\<lambda>b. b \<noteq> 0) ?seen)
       else if ?k < n then (False, dest @ ?seen)
       else cstring_chunks K m source max_len (checked + n) (dest @ ?seen))"
      using True bounds(1) k by (subst cstring_chunks.simps) (auto simp: n_def [symmetric] rd Let_def)
    show ?thesis
    proof (cases "0 \<in> set ?seen \<or> ?k < n")
      case True
      then show ?thesis by (auto simp: step scan)
    next
      case False
      then have "?k = n" "0 \<notin> set ?seen" using k by auto
      then have "cstring_chunks K m source max_len (checked + n) (dest @ ?seen) =
        apsnd ((@) (dest @ ?seen)) (scan_cstring rd m (source + (checked + n)) (max_len - (checked + n)))"
        using "1.IH" [OF True bounds(1) refl, folded n_def, OF _ refl] "1.prems" bounds(5)
        by (auto simp: rd Let_def)
      with False show ?thesis by (auto simp: step scan prod_eq_iff add.assoc)
    qed
  qed
qed

text \<open>The same for UTF-16 strings, unit by unit.\<close>

fun scan_wstring :: "(u64 \<Rightarrow> bool) \<Rightarrow> memory \<Rightarrow> u64 \<Rightarrow> nat \<Rightarrow> bool \<times> u16 list" where
  "scan_wstring rd m a 0 = (False, [])"
| "scan_wstring rd m a (Suc n) =
     (let u = unat (m a) + 256 * unat (m (Suc a)) in
      if \<not> (rd a \<and> rd (Suc a)) then (False, [])
      else if u = 0 then (True, [])
      else apsnd (Cons u) (scan_wstring rd m (Suc (Suc a)) n))"

lemma length_units_of [simp]: "length (units_of bs) = length bs div 2"
  by (induction bs rule: units_of.induct) auto

lemma scan_wstring_chunk:
  "scan_wstring rd m a (n + k) =
     (let r = reach rd a (n * 2); seen = units_of (load m a r) in
      if 0 \<in> set seen then (True, takeWhile (\<lambda>u. u \<noteq> 0) seen)
      else if r < n * 2 then (False, seen)
      else apsnd ((@) seen) (scan_wstring rd m (a + n * 2) k))"
proof (induction n arbitrary: a)
  case 0
  show ?case by (simp add: prod_eq_iff)
next
  case (Suc n)
  show ?case
    by (simp add: Suc.IH [of "Suc (Suc a)"] Let_def prod_eq_iff)
qed

lemma wstring_chunks_scan:
  assumes "serves K rd wr" "0 < source" "source + max_len * 2 \<le> 2 ^ 63" "checked \<le> max_len"
  shows "wstring_chunks K m source max_len checked dest =
    apsnd ((@) dest) (scan_wstring rd m (source + checked * 2) (max_len - checked))"
  using assms
proof (induction K m source max_len checked dest rule: wstring_chunks.induct)
  case (1 K m source max_len checked dest)
  show ?case
  proof (cases "checked < max_len")
    case False
    with "1.prems" show ?thesis by (simp add: wstring_chunks.simps)
  next
    case True
    define n where "n = min 2048 (max_len - checked)"
    let ?k = "reach rd (source + checked * 2) (n * 2)"
    let ?seen = "units_of (load m (source + checked * 2) ?k)"
    have bounds: "\<not> (u64_max - source) div 2 < checked" "0 < source + checked * 2" "0 < n * 2"
      "source + checked * 2 + n * 2 \<le> 2 ^ 63" "n \<le> max_len - checked"
      using "1.prems" True by (auto simp: n_def)
    have k: "?k \<le> n * 2" by (rule reach_le)
    note rd = read_guest_memory_serves [OF "1.prems"(1) bounds(2-4), of m]
    have split: "max_len - checked = n + (max_len - (checked + n))" using bounds(5) by simp
    have scan: "scan_wstring rd m (source + checked * 2) (max_len - checked) =
      (if 0 \<in> set ?seen then (True, takeWhile (\<lambda>b. b \<noteq> 0) ?seen)
       else if ?k < n * 2 then (False, ?seen)
       else apsnd ((@) ?seen) (scan_wstring rd m (source + checked * 2 + n * 2) (max_len - (checked + n))))"
      by (subst split) (simp add: scan_wstring_chunk Let_def)
    have step: "wstring_chunks K m source max_len checked dest =
      (if 0 \<in> set ?seen then (True, dest @ takeWhile (\<lambda>b. b \<noteq> 0) ?seen)
       else if ?k < n * 2 then (False, dest @ ?seen)
       else wstring_chunks K m source max_len (checked + n) (dest @ ?seen))"
      using True bounds(1) k by (subst wstring_chunks.simps) (auto simp: n_def [symmetric] rd Let_def)
    show ?thesis
    proof (cases "0 \<in> set ?seen \<or> ?k < n * 2")
      case True
      then show ?thesis by (auto simp: step scan)
    next
      case False
      then have "?k = n * 2" "0 \<notin> set ?seen" using k by auto
      then have "wstring_chunks K m source max_len (checked + n) (dest @ ?seen) =
        apsnd ((@) (dest @ ?seen)) (scan_wstring rd m (source + (checked + n) * 2) (max_len - (checked + n)))"
        using "1.IH" [OF True bounds(1) refl, folded n_def, OF _ refl] "1.prems" bounds(5)
        by (auto simp: rd Let_def)
      with False show ?thesis by (auto simp: step scan prod_eq_iff add.assoc distrib_right)
    qed
  qed
qed

section \<open>The regions of the process\<close>

definition ordered_regions :: "MemoryRegion list \<Rightarrow> bool" where
  "ordered_regions rs \<longleftrightarrow> sorted_wrt (\<lambda>r s. reg_end r \<le> reg_start s) rs \<and> (\<forall>r \<in> set rs. reg_start r \<le> reg_end r)"

lemma find_region_covering_iff:
  assumes "ordered_regions rs"
  shows "find_region_covering rs a = Some r \<longleftrightarrow> r \<in> set rs \<and> reg_start r \<le> a \<and> a < reg_end r"
proof
  assume r: "r \<in> set rs \<and> reg_start r \<le> a \<and> a < reg_end r"
  then obtain i where i: "i < length rs" "rs ! i = r" by (metis in_set_conv_nth)
  have before: "reg_start (rs ! j) \<le> a" if "j \<le> i" for j
  proof (cases "j = i")
    case False
    with that assms i have "reg_end (rs ! j) \<le> reg_start r" "reg_start (rs ! j) \<le> reg_end (rs ! j)"
      by (auto simp: ordered_regions_def sorted_wrt_iff_nth_less)
    with r show ?thesis by simp
  qed (use r i in simp)
  have after: "a < reg_start (rs ! j)" if "i < j" "j < length rs" for j
    using that assms i r by (force simp: ordered_regions_def sorted_wrt_iff_nth_less)
  have "takeWhile (\<lambda>r. \<not> a < reg_start r) rs = take (Suc i) rs"
  proof (rule takeWhile_eq_take_P_nth)
    show "\<not> a < reg_start (rs ! j)" if "j < Suc i" "j < length rs" for j
      using before [of j] that by simp
    show "\<not> \<not> a < reg_start (rs ! Suc i)" if "Suc i < length rs"
      using after [of "Suc i"] that by simp
  qed
  then have "length (takeWhile (\<lambda>r. \<not> a < reg_start r) rs) = Suc i" using i by simp
  with r i show "find_region_covering rs a = Some r"
    by (auto simp: find_region_covering_def Let_def)
qed (blast dest: find_region_covering_Some)

lemma range_loop_iff:
  assumes "ordered_regions rs"
  shows "range_loop rs w cur t \<longleftrightarrow>
    (\<forall>a. cur \<le> a \<and> a < t \<longrightarrow>
       (\<exists>r \<in> set rs. reg_start r \<le> a \<and> a < reg_end r \<and> (if w then writable r else readable r)))"
  using assms
proof (induction rs w cur t rule: range_loop.induct)
  case (1 rs w cur t)
  note found = find_region_covering_iff [OF "1.prems"]
  let ?ok = "\<lambda>a r. reg_start r \<le> a \<and> a < reg_end r \<and> (if w then writable r else readable r)"
  show ?case
  proof (cases "cur < t")
    case False
    then show ?thesis by (auto simp: range_loop.simps)
  next
    case True
    show ?thesis
    proof (cases "find_region_covering rs cur")
      case None
      then have "\<not> (\<exists>r \<in> set rs. ?ok cur r)" by (metis found option.distinct(1))
      with True None show ?thesis by (auto simp: range_loop.simps)
    next
      case (Some r)
      then have r: "r \<in> set rs" "reg_start r \<le> cur" "cur < reg_end r" by (simp_all add: found)
      have only: "s = r" if "s \<in> set rs" "reg_start s \<le> cur" "cur < reg_end s" for s
        using that found [of cur s] Some by simp
      show ?thesis
      proof (cases "if w then writable r else readable r")
        case False
        then have "\<not> (\<exists>s \<in> set rs. ?ok cur s)" using only by blast
        with True Some False show ?thesis by (auto simp: range_loop.simps)
      next
        case ok: True
        have "range_loop rs w cur t \<longleftrightarrow> range_loop rs w (min t (reg_end r)) t"
          using True Some ok by (subst range_loop.simps) auto
        also have "\<dots> \<longleftrightarrow> (\<forall>a. min t (reg_end r) \<le> a \<and> a < t \<longrightarrow> (\<exists>s \<in> set rs. ?ok a s))"
          using "1.IH" [OF True Some] ok "1.prems" by auto
        also have "\<dots> \<longleftrightarrow> (\<forall>a. cur \<le> a \<and> a < t \<longrightarrow> (\<exists>s \<in> set rs. ?ok a s))"
        proof (intro iffI allI impI)
          fix a assume all: "\<forall>a. min t (reg_end r) \<le> a \<and> a < t \<longrightarrow> (\<exists>s \<in> set rs. ?ok a s)" and a: "cur \<le> a \<and> a < t"
          show "\<exists>s \<in> set rs. ?ok a s"
          proof (cases "a < reg_end r")
            case True
            with r ok a show ?thesis by (intro bexI [of _ r]) auto
          qed (use all a in simp)
        next
          fix a assume all: "\<forall>a. cur \<le> a \<and> a < t \<longrightarrow> (\<exists>s \<in> set rs. ?ok a s)" and a: "min t (reg_end r) \<le> a \<and> a < t"
          with r have "cur \<le> a" by linarith
          with all a show "\<exists>s \<in> set rs. ?ok a s" by blast
        qed
        finally show ?thesis .
      qed
    qed
  qed
qed

text \<open>A snapshot that agrees with the readable bytes of the process.\<close>

definition accurate :: "MemoryRegion list \<Rightarrow> (u64 \<Rightarrow> bool) \<Rightarrow> bool" where
  "accurate rs rd \<longleftrightarrow> ordered_regions rs \<and>
     (\<forall>a. rd a \<longleftrightarrow> (\<exists>r \<in> set rs. reg_start r \<le> a \<and> a < reg_end r \<and> readable r))"

lemma accurate_found:
  assumes "accurate rs rd"
  shows "rd a \<longleftrightarrow> (\<exists>r. find_region_covering rs a = Some r \<and> readable r)"
  using assms find_region_covering_iff [of rs a] unfolding accurate_def by blast

lemma cstring_regions_scan:
  assumes "accurate rs rd" "serves K rd wr" "0 < cur" "cur + (max_len - checked) \<le> 2 ^ 63"
  shows "cstring_regions K m rs cur max_len checked = fst (scan_cstring rd m cur (max_len - checked))"
  using assms
proof (induction K m rs cur max_len checked rule: cstring_regions.induct)
  case (1 K m rs cur max_len checked)
  note found = accurate_found [OF "1.prems"(1)]
  show ?case
  proof (cases "checked < max_len")
    case False
    then show ?thesis by (simp add: cstring_regions.simps)
  next
    case less: True
    then have Suc: "max_len - checked = Suc (max_len - Suc checked)" by simp
    show ?thesis
    proof (cases "\<exists>r. find_region_covering rs cur = Some r \<and> readable r")
      case False
      then have "\<not> rd cur" by (simp add: found)
      then have "\<not> fst (scan_cstring rd m cur (max_len - checked))" by (simp add: Suc)
      with False less show ?thesis by (subst cstring_regions.simps) (auto split: option.splits)
    next
      case True
      then obtain r where r: "find_region_covering rs cur = Some r" "readable r" by blast
      define n where "n = min (min (max_len - checked) (reg_end r - cur)) 4096"
      have in_r: "r \<in> set rs" "reg_start r \<le> cur" "cur < reg_end r"
        using find_region_covering_Some [OF r(1)] by simp_all
      have n: "0 < n" "n \<le> max_len - checked" "cur + n \<le> reg_end r" "cur + n \<le> 2 ^ 63"
        using in_r less "1.prems"(4) by (auto simp: n_def)
      have "rd (cur + i)" if "i < n" for i
        using "1.prems"(1) in_r r(2) that n(3) unfolding accurate_def by (metis add_less_mono less_le_trans nat_add_left_cancel_less trans_le_add1)
      then have full: "reach rd cur n = n" by (simp add: reach_full)
      note rd = read_guest_memory_serves [OF "1.prems"(2,3) n(1,4), of m]
      have split: "max_len - checked = n + (max_len - (checked + n))" using n(2) by simp
      have scan: "fst (scan_cstring rd m cur (max_len - checked)) =
        (if 0 \<in> set (load m cur n) then True else fst (scan_cstring rd m (cur + n) (max_len - (checked + n))))"
        by (subst split) (simp add: scan_cstring_chunk full Let_def)
      have step: "cstring_regions K m rs cur max_len checked =
        (if 0 \<in> set (load m cur n) then True else cstring_regions K m rs (cur + n) max_len (checked + n))"
        using less r by (subst cstring_regions.simps) (simp add: n_def [symmetric] rd full Let_def)
      have "cstring_regions K m rs (cur + n) max_len (checked + n) =
        fst (scan_cstring rd m (cur + n) (max_len - (checked + n)))" if "0 \<notin> set (load m cur n)"
        using "1.IH" [OF less r(1) _ refl refl, folded n_def] r(2) that "1.prems" n(2)
        by (simp add: rd full Let_def)
      then show ?thesis by (simp add: step scan)
    qed
  qed
qed

section \<open>Writing\<close>

definition wf_cache :: "map_cache \<Rightarrow> bool" where
  "wf_cache c \<longleftrightarrow> g_cached_generation c \<le> g_allocation_generation c"

text \<open>After an invalidation the regions are read again.\<close>

lemma ensure_after_invalidate:
  assumes "wf_cache c" "g_allocation_generation c < u64_max"
  shows "g_map_regions (ensure_cache_valid K (invalidate_memory_map_cache c)) =
    (case maps_lines K of None \<Rightarrow> [] | Some ls \<Rightarrow> List.map_filter parse_map_line ls)"
  using assms by (auto simp: ensure_cache_valid_def invalidate_memory_map_cache_def wf_cache_def
      rebuild_cache_locked_def Let_def split: option.splits)

lemma ensure_cache_wf: "wf_cache c \<Longrightarrow> wf_cache (ensure_cache_valid K c)"
  by (auto simp: ensure_cache_valid_def wf_cache_def rebuild_cache_locked_def Let_def split: option.splits)

lemma store_outside: "x < a \<or> a + length ds \<le> x \<Longrightarrow> store m a ds x = m x"
  by (auto simp: store_def)

lemma store_inside: "i < length ds \<Longrightarrow> store m a ds (a + i) = ds ! i"
  by (simp add: store_def)

lemma load_store: "load (store m a ds) a (length ds) = ds"
  by (intro nth_equalityI) (simp_all add: load_def store_def)

lemma copy_guest_memory_cache:
  assumes "\<not> (w \<and> snd (vm_call K w a n) \<in> {EACCES, EPERM, ENOSYS})"
  shows "snd (copy_guest_memory K w a host n c) = c"
  using assms by (auto simp: copy_guest_memory_def split: prod.splits if_splits)

lemma scan_numeral [simp]:
  "scan_cstring rd m a (numeral k) =
     (if \<not> rd a then (False, [])
      else if m a = 0 then (True, [])
      else apsnd (Cons (m a)) (scan_cstring rd m (Suc a) (pred_numeral k)))"
  "scan_wstring rd m a (numeral k) =
     (let u = unat (m a) + 256 * unat (m (Suc a)) in
      if \<not> (rd a \<and> rd (Suc a)) then (False, [])
      else if u = 0 then (True, [])
      else apsnd (Cons u) (scan_wstring rd m (Suc (Suc a)) (pred_numeral k)))"
  by (simp_all only: numeral_eq_Suc scan_cstring.simps scan_wstring.simps)

section \<open>Properties\<close>


definition all_access :: Kernel where
  "all_access = \<lparr>vm_call = (\<lambda>w a n. let k = reach (\<lambda>x. x < 9) a n in if k = 0 then (- 1, EFAULT) else (int k, OtherErrno)),
     open_mem = (\<lambda>w. Some EPERM), mem_call = (\<lambda>w a n. (- 1, EIO)), maps_lines = None\<rparr>"

lemma all_access_serves: "serves all_access (\<lambda>x. x < 9) (\<lambda>x. x < 9)"
  by (simp add: serves_def all_access_def)


text \<open>
  The same for UTF-16 strings, in pieces of 2048 units, for an aligned source.
\<close>

theorem guest_wstring_copied:
  assumes "serves K rd wr" "0 < source" "source + max_len * 2 \<le> 2 ^ 63" "source mod 2 = 0"
  shows "copy_guest_wstring K m source max_len = scan_wstring rd m source max_len"
  using wstring_chunks_scan [OF assms(1-3), of 0 m "[]"] assms(2,4)
  by (cases max_len) (simp_all add: copy_guest_wstring_def prod_eq_iff)

theorem guest_wstring_copied_witness:
  "copy_guest_wstring all_access (\<lambda>a. if a = 6 then 1 else if a < 6 then 65 else 0) 4 3 =
     (False, [65 + 256 * 65, 1])"
  using guest_wstring_copied [OF all_access_serves, of 4 3 "\<lambda>a. if a = 6 then 1 else if a < 6 then 65 else 0"]
  by simp

text \<open>
  C30: \<open>validate_mapped_range\<close> accepts a range exactly when it is not empty, does not start at null or
  pass the end of the address space, and each of its bytes lies in a region of the snapshot with
  the permission asked for, however many regions it takes to cover it.
\<close>

theorem mapped_range_validated:
  assumes "ordered_regions (g_map_regions (ensure_cache_valid K c))"
  shows "fst (validate_mapped_range K a n w c) \<longleftrightarrow>
    a \<noteq> 0 \<and> n \<noteq> 0 \<and> a + n \<le> u64_max \<and>
    (\<forall>x. a \<le> x \<and> x < a + n \<longrightarrow>
       (\<exists>r \<in> set (g_map_regions (ensure_cache_valid K c)).
          reg_start r \<le> x \<and> x < reg_end r \<and> (if w then writable r else readable r)))"
  using range_loop_iff [OF assms, of w a "a + n"] by (auto simp: validate_mapped_range_def Let_def)

definition two_region_text :: "string list" where
  "two_region_text = [''1000-3000 rw-p 0'', ''junk'', ''3000-4000 r--p 0'']"

definition two_regions :: Kernel where
  "two_regions = \<lparr>vm_call = (\<lambda>w a n. (- 1, ENOSYS)), open_mem = (\<lambda>w. None), mem_call = (\<lambda>w a n. (int n, OtherErrno)),
     maps_lines = Some two_region_text\<rparr>"

lemma two_regions_simps [simp]:
  "vm_call two_regions w a n = (- 1, ENOSYS)" "open_mem two_regions w = None"
  "mem_call two_regions w a n = (int n, OtherErrno)" "maps_lines two_regions = Some two_region_text"
  by (simp_all add: two_regions_def)

definition two_region_list :: "MemoryRegion list" where
  "two_region_list =
     [\<lparr>reg_start = 0x1000, reg_end = 0x3000, readable = True, writable = True\<rparr>,
      \<lparr>reg_start = 0x3000, reg_end = 0x4000, readable = True, writable = False\<rparr>]"

lemma two_regions_parsed:
  "List.map_filter parse_map_line two_region_text = two_region_list"
  by (simp add: two_region_text_def map_filter_def parse_map_line_def find_char_def from_chars_hex_def is_hex_digit_def
      hex_digit_value_def two_region_list_def)

lemma two_regions_read:
  "g_map_regions (ensure_cache_valid two_regions initial_cache) = two_region_list"
  "g_map_regions (ensure_cache_valid two_regions (invalidate_memory_map_cache initial_cache)) = two_region_list"
  by (simp_all add: ensure_cache_valid_def initial_cache_def rebuild_cache_locked_def
      invalidate_memory_map_cache_def two_regions_parsed)

theorem mapped_range_validated_witness:
  "fst (validate_mapped_range two_regions 0x2FF0 0x20 False initial_cache) \<and>
   \<not> fst (validate_mapped_range two_regions 0x2FF0 0x20 True initial_cache)"
  using mapped_range_validated [of two_regions initial_cache "0x2FF0" "0x20"]
  by (auto simp: two_regions_read two_region_list_def ordered_regions_def intro: exI [of _ "0x3000"])

lemma vm_refused_transferred:
  assumes "snd (vm_call K True a n) \<in> {EACCES, EPERM, ENOSYS}" "fst (vm_call K True a n) \<le> 0"
    and "copy_guest_memory K True a h n c = (res, c')" "transferred res \<noteq> 0"
  shows "fst (validate_mapped_range K a n True (invalidate_memory_map_cache c))"
  using assms by (auto simp: copy_guest_memory_def split: prod.splits if_splits)



end
