(* ===== verification/Unwinder.thy ===== *)
theory Unwinder
  imports Guest_Memory Pe_Exceptions Image_Relocations
begin

text \<open>
  Virtual unwinding of x64 frames (\<open>src/runtime/seh/unwind.cpp\<close>, \<open>unwind.hpp\<close>): the images known to a
  thread, the search for the function of an address, the interpretation of unwind codes on a
  register context, and \<open>RtlVirtualUnwind\<close>. Thread-local state is passed explicitly; the guest's
  memory and the kernel are those of \<open>Guest_Memory\<close>. Trace output is left out, except for the reason
  of a failure.
\<close>

section \<open>Data\<close>

record M128A =
  low :: u64
  high :: u64

text \<open>
  The register context of Windows AMD64, 1232 bytes. The fields before \<open>rax\<close> and after \<open>floating\<close> are
  only carried along and are kept as bytes.
\<close>

record ContextAmd64 =
  ctx_head :: bytes
  rax :: u64
  rcx :: u64
  rdx :: u64
  rbx :: u64
  rsp :: u64
  rbp :: u64
  rsi :: u64
  rdi :: u64
  r8 :: u64
  r9 :: u64
  r10 :: u64
  r11 :: u64
  r12 :: u64
  r13 :: u64
  r14 :: u64
  r15 :: u64
  rip :: u64
  floating :: "M128A list"
  ctx_tail :: bytes

record UnwindImageView =
  view_base :: u64
  view_size :: nat
  view_exception_rva :: u32
  view_functions :: "RuntimeFunction list"

record unwind_views =
  g_unwind_image :: UnwindImageView
  g_module_unwind_images :: "UnwindImageView list"

text \<open>A pointer to a view: the image of the process, or an element of the list of modules.\<close>

datatype view_ref = MainView | ModuleView nat

fun view_of :: "unwind_views \<Rightarrow> view_ref \<Rightarrow> UnwindImageView" where
  "view_of vs MainView = g_unwind_image vs"
| "view_of vs (ModuleView i) = g_module_unwind_images vs ! i"

definition no_view :: UnwindImageView where
  "no_view = \<lparr>view_base = 0, view_size = 0, view_exception_rva = 0, view_functions = []\<rparr>"

definition initial_views :: unwind_views where
  "initial_views = \<lparr>g_unwind_image = no_view, g_module_unwind_images = []\<rparr>"

text \<open>What the thread brings along: the kernel and the bounds of its stack (\<open>g_thread_teb\<close>).\<close>

record thread_env =
  kernel :: Kernel
  teb :: "(u64 \<times> u64) option"

datatype unwind_failure =
  NoContext | ContextUnreadable | FunctionNotActive | V2Epilog | BadFramePointer | BadStackOrCode
| ChainInvalid | ChainCyclic | BadReturnAddress | EstablisherUnwritable | HandlerDataUnwritable
| ContextUnwritable | InvalidLeafFrame | VirtualUnwindFailed

section \<open>The images of a thread\<close>

definition set_guest_unwind_view :: "u64 \<Rightarrow> nat \<Rightarrow> u32 \<Rightarrow> RuntimeFunction list \<Rightarrow> unwind_views \<Rightarrow> unwind_views" where
  "set_guest_unwind_view image_base' image_size' dir fs vs =
     vs\<lparr>g_unwind_image := \<lparr>view_base = image_base', view_size = image_size', view_exception_rva = dir, view_functions = fs\<rparr>\<rparr>"

definition clear_guest_unwind_view :: "unwind_views \<Rightarrow> unwind_views" where
  "clear_guest_unwind_view vs = \<lparr>g_unwind_image = no_view, g_module_unwind_images = []\<rparr>"

definition current_guest_unwind_view :: "unwind_views \<Rightarrow> UnwindImageView" where
  "current_guest_unwind_view vs = g_unwind_image vs"

definition restore_guest_unwind_view :: "UnwindImageView \<Rightarrow> unwind_views \<Rightarrow> unwind_views" where
  "restore_guest_unwind_view v vs =
     set_guest_unwind_view (view_base v) (view_size v) (view_exception_rva v) (view_functions v) vs"

definition kMaxModuleUnwindImages :: nat where "kMaxModuleUnwindImages = 64"

fun replace_view :: "UnwindImageView \<Rightarrow> UnwindImageView list \<Rightarrow> UnwindImageView list option" where
  "replace_view v [] = None"
| "replace_view v (e # es) =
     (if view_base e = view_base v then Some (v # es) else map_option (Cons e) (replace_view v es))"

definition add_guest_module_unwind_image ::
    "u64 \<Rightarrow> nat \<Rightarrow> u32 \<Rightarrow> RuntimeFunction list \<Rightarrow> unwind_views \<Rightarrow> bool \<times> unwind_views" where
  "add_guest_module_unwind_image image_base' image_size' dir fs vs =
     (if image_base' = 0 \<or> image_size' = 0 \<or> fs = [] then (False, vs)
      else
        let v = \<lparr>view_base = image_base', view_size = image_size', view_exception_rva = dir, view_functions = fs\<rparr> in
        case replace_view v (g_module_unwind_images vs) of
          Some es \<Rightarrow> (True, vs\<lparr>g_module_unwind_images := es\<rparr>)
        | None \<Rightarrow>
            if kMaxModuleUnwindImages \<le> length (g_module_unwind_images vs) then (False, vs)
            else (True, vs\<lparr>g_module_unwind_images := g_module_unwind_images vs @ [v]\<rparr>))"

fun remove_view :: "u64 \<Rightarrow> UnwindImageView list \<Rightarrow> UnwindImageView list" where
  "remove_view b [] = []"
| "remove_view b (e # es) = (if view_base e = b then es else e # remove_view b es)"

definition remove_guest_module_unwind_image :: "u64 \<Rightarrow> unwind_views \<Rightarrow> unwind_views" where
  "remove_guest_module_unwind_image image_base' vs =
     (if image_base' = 0 then vs
      else vs\<lparr>g_module_unwind_images := remove_view image_base' (g_module_unwind_images vs)\<rparr>)"

section \<open>The function of an address\<close>

definition add_u64 :: "u64 \<Rightarrow> u64 \<Rightarrow> u64 option" where
  "add_u64 v amount = (if u64_max - v < amount then None else Some (v + amount))"

text \<open>Unsigned subtraction modulo \<open>2 ^ 64\<close>.\<close>

definition sub_u64 :: "u64 \<Rightarrow> u64 \<Rightarrow> u64" where
  "sub_u64 a b = (a + 2 ^ 64 - b mod 2 ^ 64) mod 2 ^ 64"

definition find_function_in_image :: "UnwindImageView \<Rightarrow> u64 \<Rightarrow> nat option" where
  "find_function_in_image v pc =
     (if view_base v = 0 \<or> pc < view_base v \<or> view_size v \<le> pc - view_base v \<or> view_functions v = [] then None
      else
        let rva = pc - view_base v;
            it = length (takeWhile (\<lambda>f. \<not> rva < begin_rva f) (view_functions v))
        in if it = 0 then None
           else if begin_rva (view_functions v ! (it - 1)) \<le> rva \<and> rva < end_rva (view_functions v ! (it - 1))
           then Some (it - 1) else None)"

definition in_view :: "u64 \<Rightarrow> UnwindImageView \<Rightarrow> bool" where
  "in_view pc v \<longleftrightarrow> view_base v \<noteq> 0 \<and> view_base v \<le> pc \<and> pc - view_base v < view_size v"

definition find_image_for_pc :: "unwind_views \<Rightarrow> u64 \<Rightarrow> view_ref option" where
  "find_image_for_pc vs pc =
     (if in_view pc (g_unwind_image vs) then Some MainView
      else map_option ModuleView
        (List.find (\<lambda>i. in_view pc (g_module_unwind_images vs ! i)) [0..<length (g_module_unwind_images vs)]))"

definition resolve_function_by_pc :: "unwind_views \<Rightarrow> u64 \<Rightarrow> (view_ref \<times> nat) option" where
  "resolve_function_by_pc vs pc =
     (case find_image_for_pc vs pc of
        None \<Rightarrow> None
      | Some r \<Rightarrow> map_option (Pair r) (find_function_in_image (view_of vs r) pc))"

definition raw_function_entry :: "UnwindImageView \<Rightarrow> nat \<Rightarrow> u64" where
  "raw_function_entry v i = (view_base v + view_exception_rva v + i * 12) mod 2 ^ 64"

definition entry_in_view :: "u64 \<Rightarrow> UnwindImageView \<Rightarrow> nat option" where
  "entry_in_view target v =
     (if view_base v = 0 then None
      else List.find (\<lambda>i. raw_function_entry v i = target) [0..<length (view_functions v)])"

fun entry_in_modules :: "u64 \<Rightarrow> nat \<Rightarrow> UnwindImageView list \<Rightarrow> (view_ref \<times> nat) option" where
  "entry_in_modules target k [] = None"
| "entry_in_modules target k (v # vs) =
     (case entry_in_view target v of
        Some i \<Rightarrow> Some (ModuleView k, i)
      | None \<Rightarrow> entry_in_modules target (Suc k) vs)"

definition resolve_function_by_raw_pointer :: "unwind_views \<Rightarrow> u64 \<Rightarrow> (view_ref \<times> nat) option" where
  "resolve_function_by_raw_pointer vs target =
     (if target = 0 then None
      else case entry_in_view target (g_unwind_image vs) of
        Some i \<Rightarrow> Some (MainView, i)
      | None \<Rightarrow> entry_in_modules target 0 (g_module_unwind_images vs))"

definition find_chained_function :: "UnwindImageView \<Rightarrow> RuntimeFunction \<Rightarrow> nat option" where
  "find_chained_function v f =
     (if \<not> has_chained_function (unwind f) then None
      else List.find (\<lambda>i. chained_to (unwind f) (view_functions v ! i)) [0..<length (view_functions v)])"

definition is_v2_epilog :: "RuntimeFunction \<Rightarrow> u64 \<Rightarrow> UnwindImageView \<Rightarrow> bool" where
  "is_v2_epilog f control_pc v =
     (if version (unwind f) \<noteq> 2 \<or> view_base v = 0 then False
      else if control_pc < view_base v then False
      else let rva = control_pc - view_base v in
        list_ex (\<lambda>e. ep_begin_rva e \<le> rva \<and> rva < ep_end_rva e) (epilogs (unwind f)))"

section \<open>Registers and the stack\<close>

definition context_register :: "ContextAmd64 \<Rightarrow> u8 \<Rightarrow> u64" where
  "context_register c n =
     (if n = 0 then rax c else if n = 1 then rcx c else if n = 2 then rdx c else if n = 3 then rbx c
      else if n = 4 then rsp c else if n = 5 then rbp c else if n = 6 then rsi c else if n = 7 then rdi c
      else if n = 8 then r8 c else if n = 9 then r9 c else if n = 10 then r10 c else if n = 11 then r11 c
      else if n = 12 then r12 c else if n = 13 then r13 c else if n = 14 then r14 c else r15 c)"

definition set_context_register :: "u8 \<Rightarrow> u64 \<Rightarrow> ContextAmd64 \<Rightarrow> ContextAmd64" where
  "set_context_register n v c =
     (if n = 0 then c\<lparr>rax := v\<rparr> else if n = 1 then c\<lparr>rcx := v\<rparr> else if n = 2 then c\<lparr>rdx := v\<rparr>
      else if n = 3 then c\<lparr>rbx := v\<rparr> else if n = 4 then c\<lparr>rsp := v\<rparr> else if n = 5 then c\<lparr>rbp := v\<rparr>
      else if n = 6 then c\<lparr>rsi := v\<rparr> else if n = 7 then c\<lparr>rdi := v\<rparr> else if n = 8 then c\<lparr>r8 := v\<rparr>
      else if n = 9 then c\<lparr>r9 := v\<rparr> else if n = 10 then c\<lparr>r10 := v\<rparr> else if n = 11 then c\<lparr>r11 := v\<rparr>
      else if n = 12 then c\<lparr>r12 := v\<rparr> else if n = 13 then c\<lparr>r13 := v\<rparr> else if n = 14 then c\<lparr>r14 := v\<rparr>
      else c\<lparr>r15 := v\<rparr>)"

definition validate_guest_stack_range :: "(u64 \<times> u64) option \<Rightarrow> u64 \<Rightarrow> nat \<Rightarrow> bool" where
  "validate_guest_stack_range tb address n =
     (if address = 0 \<or> n = 0 then False
      else if u64_max - address < n then False
      else (case tb of
          None \<Rightarrow> True
        | Some (stack_limit, stack_base) \<Rightarrow>
            \<not> (stack_limit = 0 \<or> stack_base \<le> stack_limit \<or> address < stack_limit \<or> stack_base \<le> address \<or>
               stack_base - address < n)))"

definition read_stack :: "thread_env \<Rightarrow> memory \<Rightarrow> u64 \<Rightarrow> nat \<Rightarrow> bytes option" where
  "read_stack env m address n =
     (if \<not> validate_guest_stack_range (teb env) address n then None
      else (case read_guest_memory (kernel env) m address n of
          (res, ds) \<Rightarrow> if acc_status res = AccessSuccess then Some ds else None))"

definition read_stack_u64 :: "thread_env \<Rightarrow> memory \<Rightarrow> u64 \<Rightarrow> u64 option" where
  "read_stack_u64 env m address = map_option (\<lambda>ds. le64 ds 0) (read_stack env m address 8)"

definition read_m128 :: "thread_env \<Rightarrow> memory \<Rightarrow> u64 \<Rightarrow> M128A option" where
  "read_m128 env m address =
     map_option (\<lambda>ds. \<lparr>low = le64 ds 0, high = le64 ds 8\<rparr>) (read_stack env m address 16)"

section \<open>Unwind codes\<close>

text \<open>
  One unwind code on a context; the flag tells that a machine frame was popped. \<open>None\<close> is the
  \<open>false\<close> of the code, after which the context is discarded.
\<close>

definition pop_register :: "thread_env \<Rightarrow> memory \<Rightarrow> u8 \<Rightarrow> ContextAmd64 \<Rightarrow> ContextAmd64 option" where
  "pop_register env m r c =
     (case (read_stack_u64 env m (rsp c), add_u64 (rsp c) 8) of
        (Some v, Some s) \<Rightarrow> Some (set_context_register r v (c\<lparr>rsp := s\<rparr>))
      | _ \<Rightarrow> None)"

definition load_register :: "thread_env \<Rightarrow> memory \<Rightarrow> UnwindCode \<Rightarrow> ContextAmd64 \<Rightarrow> ContextAmd64 option" where
  "load_register env m code c =
     (case add_u64 (rsp c) (operand code) of
        None \<Rightarrow> None
      | Some a \<Rightarrow>
          (case read_stack_u64 env m a of
             None \<Rightarrow> None
           | Some v \<Rightarrow> Some (set_context_register (operation_info code) v c)))"

definition load_xmm :: "thread_env \<Rightarrow> memory \<Rightarrow> UnwindCode \<Rightarrow> ContextAmd64 \<Rightarrow> ContextAmd64 option" where
  "load_xmm env m code c =
     (if 16 \<le> operation_info code then None
      else case add_u64 (rsp c) (operand code) of
        None \<Rightarrow> None
      | Some a \<Rightarrow>
          (case read_m128 env m a of
             None \<Rightarrow> None
           | Some v \<Rightarrow> Some (c\<lparr>floating := (floating c)[10 + operation_info code := v]\<rparr>)))"

definition pop_machine_frame :: "thread_env \<Rightarrow> memory \<Rightarrow> UnwindCode \<Rightarrow> ContextAmd64 \<Rightarrow> ContextAmd64 option" where
  "pop_machine_frame env m code c =
     (case add_u64 (rsp c) (operation_info code * 8) of
        None \<Rightarrow> None
      | Some a \<Rightarrow>
          (case (read_stack_u64 env m a, add_u64 a 24) of
             (Some ip, Some a') \<Rightarrow>
               (case read_stack_u64 env m a' of
                  None \<Rightarrow> None
                | Some sp \<Rightarrow> Some (c\<lparr>rip := ip, rsp := sp\<rparr>))
           | _ \<Rightarrow> None))"

definition apply_unwind_code ::
    "thread_env \<Rightarrow> memory \<Rightarrow> UnwindCode \<Rightarrow> ContextAmd64 \<times> bool \<Rightarrow> (ContextAmd64 \<times> bool) option" where
  "apply_unwind_code env m code st =
     (case st of (c, mf) \<Rightarrow>
        case operation code of
          PushNonVol \<Rightarrow> map_option (\<lambda>c'. (c', mf)) (pop_register env m (operation_info code) c)
        | AllocLarge \<Rightarrow> map_option (\<lambda>s. (c\<lparr>rsp := s\<rparr>, mf)) (add_u64 (rsp c) (operand code))
        | AllocSmall \<Rightarrow> map_option (\<lambda>s. (c\<lparr>rsp := s\<rparr>, mf)) (add_u64 (rsp c) (operand code))
        | SetFpReg \<Rightarrow> None
        | SaveNonVol \<Rightarrow> map_option (\<lambda>c'. (c', mf)) (load_register env m code c)
        | SaveNonVolFar \<Rightarrow> map_option (\<lambda>c'. (c', mf)) (load_register env m code c)
        | SaveXmm128 \<Rightarrow> map_option (\<lambda>c'. (c', mf)) (load_xmm env m code c)
        | SaveXmm128Far \<Rightarrow> map_option (\<lambda>c'. (c', mf)) (load_xmm env m code c)
        | PushMachFrame \<Rightarrow> map_option (\<lambda>c'. (c', True)) (pop_machine_frame env m code c))"

section \<open>Virtual unwinding\<close>

text \<open>The registers so far, the establisher frame, and whether a machine frame was met.\<close>

type_synonym unwind_state = "ContextAmd64 \<times> u64 \<times> bool"

definition unwind_code_step ::
    "thread_env \<Rightarrow> memory \<Rightarrow> UnwindInfo \<Rightarrow> u64 \<Rightarrow> UnwindCode \<Rightarrow> unwind_state \<Rightarrow> unwind_failure + unwind_state" where
  "unwind_code_step env m u pc_offset code st =
     (case st of (c, establisher, mf) \<Rightarrow>
        if pc_offset < code_offset code then Inr st
        else if operation code = SetFpReg then
          let frame = context_register c (frame_register u);
              displacement = frame_offset u * 16
          in if frame < displacement then Inl BadFramePointer
             else Inr (c\<lparr>rsp := frame - displacement\<rparr>, frame - displacement, mf)
        else (case apply_unwind_code env m code (c, mf) of
            None \<Rightarrow> Inl BadStackOrCode
          | Some (c', mf') \<Rightarrow> Inr (c', establisher, mf')))"

definition unwind_function ::
    "thread_env \<Rightarrow> memory \<Rightarrow> RuntimeFunction \<Rightarrow> u64 \<Rightarrow> u64 \<Rightarrow> unwind_state \<Rightarrow> unwind_failure + unwind_state" where
  "unwind_function env m f b function_pc st =
     foldE (unwind_code_step env m (unwind f) (sub_u64 (sub_u64 function_pc b) (begin_rva f))) (codes (unwind f)) st"

text \<open>
  The loop along the chain. The first argument counts the iterations that are left; the first
  function is unwound from the control PC, the others from their end.
\<close>

fun unwind_chain ::
    "nat \<Rightarrow> thread_env \<Rightarrow> memory \<Rightarrow> UnwindImageView \<Rightarrow> nat \<Rightarrow> u64 \<Rightarrow> unwind_state \<Rightarrow>
     unwind_failure + unwind_state \<times> RuntimeFunction" where
  "unwind_chain 0 env m v current function_pc st = Inl ChainCyclic"
| "unwind_chain (Suc n) env m v current function_pc st =
     (let f = view_functions v ! current in
      case unwind_function env m f (view_base v) function_pc st of
        Inl e \<Rightarrow> Inl e
      | Inr st' \<Rightarrow>
          if \<not> has_chained_function (unwind f) then Inr (st', f)
          else (case find_chained_function v f of
              None \<Rightarrow> Inl ChainInvalid
            | Some next' \<Rightarrow>
                unwind_chain n env m v next'
                  ((view_base v + end_rva (view_functions v ! next')) mod 2 ^ 64) st'))"

definition pop_return_address ::
    "thread_env \<Rightarrow> memory \<Rightarrow> ContextAmd64 \<times> bool \<Rightarrow> ContextAmd64 option" where
  "pop_return_address env m st =
     (case st of (c, mf) \<Rightarrow>
        if mf then Some c
        else (case (read_stack_u64 env m (rsp c), add_u64 (rsp c) 8) of
            (Some return_address, Some s) \<Rightarrow> Some (c\<lparr>rsp := s, rip := return_address\<rparr>)
          | _ \<Rightarrow> None))"

text \<open>What an unwound frame is: the caller's registers, the frame, its handler and handler data.\<close>

record Unwound =
  uw_context :: ContextAmd64
  uw_establisher :: u64
  uw_handler :: u64
  uw_handler_data :: u64

definition handler_of ::
    "u32 \<Rightarrow> UnwindImageView \<Rightarrow> RuntimeFunction \<Rightarrow> RuntimeFunction \<Rightarrow> u64 \<Rightarrow> u64 \<times> u64" where
  "handler_of handler_type v initial terminal control_pc =
     (let fl = flags (unwind terminal);
          initial_offset = sub_u64 (sub_u64 control_pc (view_base v)) (begin_rva initial);
          in_prolog = initial_offset < prolog_size (unwind initial)
      in if in_prolog \<or> handler_type = 0 \<or> fl AND (1 OR 2) = 0 \<or> handler_type AND fl = 0 then (0, 0)
         else ((view_base v + handler_rva (unwind terminal)) mod 2 ^ 64,
               (view_base v + handler_data_rva (unwind terminal)) mod 2 ^ 64))"

text \<open>The part of \<open>RtlVirtualUnwind\<close> between reading the context and writing the results.\<close>

definition virtual_unwind ::
    "thread_env \<Rightarrow> memory \<Rightarrow> unwind_views \<Rightarrow> u32 \<Rightarrow> u64 \<Rightarrow> u64 \<Rightarrow> u64 \<Rightarrow> ContextAmd64 \<Rightarrow> unwind_failure + Unwound" where
  "virtual_unwind env m vs handler_type image_base' control_pc function_entry updated =
     (case (resolve_function_by_raw_pointer vs function_entry, resolve_function_by_pc vs control_pc) of
        (Some (r, first), Some (r', index)) \<Rightarrow>
          if r \<noteq> r' \<or> first \<noteq> index then Inl FunctionNotActive
          else let v = view_of vs r in
            if image_base' \<noteq> view_base v then Inl FunctionNotActive
            else if is_v2_epilog (view_functions v ! first) control_pc v then Inl V2Epilog
            else (case unwind_chain (Suc (length (view_functions v))) env m v first control_pc
                         (updated, rsp updated, False) of
                Inl e \<Rightarrow> Inl e
              | Inr ((c, establisher, mf), terminal) \<Rightarrow>
                  (case pop_return_address env m (c, mf) of
                     None \<Rightarrow> Inl BadReturnAddress
                   | Some c' \<Rightarrow>
                       (case handler_of handler_type v (view_functions v ! first) terminal control_pc of
                          (h, d) \<Rightarrow> Inr \<lparr>uw_context = c', uw_establisher = establisher, uw_handler = h,
                            uw_handler_data = d\<rparr>)))
      | _ \<Rightarrow> Inl FunctionNotActive)"

section \<open>The interface to the guest\<close>

text \<open>The layout of the context: 120 bytes, the registers, \<open>rip\<close>, 32 vector registers, 464 bytes.\<close>

definition gprs :: "ContextAmd64 \<Rightarrow> u64 list" where
  "gprs c = [rax c, rcx c, rdx c, rbx c, rsp c, rbp c, rsi c, rdi c, r8 c, r9 c, r10 c, r11 c, r12 c, r13 c,
     r14 c, r15 c, rip c]"

definition bytes_of_context :: "ContextAmd64 \<Rightarrow> bytes" where
  "bytes_of_context c =
     ctx_head c @ concat (map le_bytes (gprs c)) @
     concat (map (\<lambda>x. le_bytes (low x) @ le_bytes (high x)) (floating c)) @ ctx_tail c"

definition context_of_bytes :: "bytes \<Rightarrow> ContextAmd64" where
  "context_of_bytes bs =
     \<lparr>ctx_head = take 120 bs, rax = le64 bs 120, rcx = le64 bs 128, rdx = le64 bs 136, rbx = le64 bs 144,
      rsp = le64 bs 152, rbp = le64 bs 160, rsi = le64 bs 168, rdi = le64 bs 176, r8 = le64 bs 184,
      r9 = le64 bs 192, r10 = le64 bs 200, r11 = le64 bs 208, r12 = le64 bs 216, r13 = le64 bs 224,
      r14 = le64 bs 232, r15 = le64 bs 240, rip = le64 bs 248,
      floating = map (\<lambda>i. \<lparr>low = le64 bs (256 + 16 * i), high = le64 bs (256 + 16 * i + 8)\<rparr>) [0..<32],
      ctx_tail = drop 768 bs\<rparr>"

definition kContextSize :: nat where "kContextSize = 1232"

type_synonym guest_state = "memory \<times> map_cache"

definition put_guest :: "thread_env \<Rightarrow> u64 \<Rightarrow> bytes \<Rightarrow> guest_state \<Rightarrow> bool \<times> guest_state" where
  "put_guest env a ds st =
     (case write_guest_memory (kernel env) a (Some ds) st of (res, st') \<Rightarrow> (acc_status res = AccessSuccess, st'))"

text \<open>An optional result: nothing is written through a null pointer.\<close>

definition put_optional :: "thread_env \<Rightarrow> u64 \<Rightarrow> u64 \<Rightarrow> guest_state \<Rightarrow> bool \<times> guest_state" where
  "put_optional env a v st = (if a = 0 then (True, st) else put_guest env a (le_bytes v) st)"

definition write_unwound ::
    "thread_env \<Rightarrow> u64 \<Rightarrow> u64 \<Rightarrow> u64 \<Rightarrow> Unwound \<Rightarrow> guest_state \<Rightarrow> u64 \<times> guest_state \<times> unwind_failure option" where
  "write_unwound env context handler_data establisher_frame u st =
     (case put_optional env establisher_frame (uw_establisher u) st of (ok1, st1) \<Rightarrow>
        if \<not> ok1 then (0, st1, Some EstablisherUnwritable)
        else (case put_optional env handler_data (uw_handler_data u) st1 of (ok2, st2) \<Rightarrow>
          if \<not> ok2 then (0, st2, Some HandlerDataUnwritable)
          else (case put_guest env context (bytes_of_context (uw_context u)) st2 of (ok3, st3) \<Rightarrow>
            if \<not> ok3 then (0, st3, Some ContextUnwritable) else (uw_handler u, st3, None))))"

definition tl_RtlVirtualUnwind ::
    "thread_env \<Rightarrow> unwind_views \<Rightarrow> u32 \<Rightarrow> u64 \<Rightarrow> u64 \<Rightarrow> u64 \<Rightarrow> u64 \<Rightarrow> u64 \<Rightarrow> u64 \<Rightarrow> guest_state \<Rightarrow>
     u64 \<times> guest_state \<times> unwind_failure option" where
  "tl_RtlVirtualUnwind env vs handler_type image_base' control_pc function_entry context handler_data
       establisher_frame st =
     (if context = 0 then (0, st, Some NoContext)
      else (case read_guest_memory (kernel env) (fst st) context kContextSize of (res, ds) \<Rightarrow>
        if acc_status res \<noteq> AccessSuccess then (0, st, Some ContextUnreadable)
        else (case virtual_unwind env (fst st) vs handler_type image_base' control_pc function_entry
                     (context_of_bytes ds) of
            Inl e \<Rightarrow> (0, st, Some e)
          | Inr u \<Rightarrow> write_unwound env context handler_data establisher_frame u st)))"

definition tl_RtlLookupFunctionEntry ::
    "thread_env \<Rightarrow> unwind_views \<Rightarrow> u64 \<Rightarrow> u64 \<Rightarrow> guest_state \<Rightarrow> u64 \<times> guest_state" where
  "tl_RtlLookupFunctionEntry env vs control_pc image_base' st =
     (if image_base' = 0 then (0, st)
      else (case resolve_function_by_pc vs control_pc of
          None \<Rightarrow> (0, snd (put_guest env image_base' (le_bytes 0) st))
        | Some (r, i) \<Rightarrow>
            (case put_guest env image_base' (le_bytes (view_base (view_of vs r))) st of (ok, st') \<Rightarrow>
               if ok then (raw_function_entry (view_of vs r) i, st') else (0, st'))))"

definition tl_RtlPcToFileHeader ::
    "thread_env \<Rightarrow> unwind_views \<Rightarrow> u64 \<Rightarrow> u64 \<Rightarrow> guest_state \<Rightarrow> u64 \<times> guest_state" where
  "tl_RtlPcToFileHeader env vs pc base_of_image st =
     (if base_of_image = 0 then (0, st)
      else (case find_image_for_pc vs pc of
          None \<Rightarrow> (0, snd (put_guest env base_of_image (le_bytes 0) st))
        | Some r \<Rightarrow>
            (case put_guest env base_of_image (le_bytes (view_base (view_of vs r))) st of (ok, st') \<Rightarrow>
               if ok then (view_base (view_of vs r), st') else (0, st'))))"

section \<open>One frame\<close>

text \<open>
  A function without unwind data is a leaf: only its return address is on the stack. Inside the
  runtime the results of \<open>RtlVirtualUnwind\<close> go to variables of the caller, so its transfers succeed;
  a result without handler that leaves the context unchanged is a failure.
\<close>

record UnwoundFrame =
  fr_index :: nat
  fr_establisher :: u64
  fr_handler :: u64
  fr_handler_data :: u64
  fr_has_function :: bool

definition leaf_frame :: UnwoundFrame where
  "leaf_frame = \<lparr>fr_index = 0, fr_establisher = 0, fr_handler = 0, fr_handler_data = 0, fr_has_function = False\<rparr>"

definition advance_leaf :: "thread_env \<Rightarrow> memory \<Rightarrow> ContextAmd64 \<Rightarrow> ContextAmd64 option" where
  "advance_leaf env m c = pop_return_address env m (c, False)"

definition unwind_one ::
    "thread_env \<Rightarrow> memory \<Rightarrow> unwind_views \<Rightarrow> u32 \<Rightarrow> ContextAmd64 \<Rightarrow> unwind_failure + ContextAmd64 \<times> UnwoundFrame" where
  "unwind_one env m vs handler_type c =
     (case resolve_function_by_pc vs (rip c) of
        None \<Rightarrow>
          (case advance_leaf env m c of
             None \<Rightarrow> Inl InvalidLeafFrame
           | Some c' \<Rightarrow> Inr (c', leaf_frame))
      | Some (r, i) \<Rightarrow>
          let v = view_of vs r in
          if is_v2_epilog (view_functions v ! i) (rip c) v then Inl V2Epilog
          else (case virtual_unwind env m vs handler_type (view_base v) (rip c) (raw_function_entry v i) c of
              Inl e \<Rightarrow> Inl VirtualUnwindFailed
            | Inr u \<Rightarrow>
                if uw_handler u = 0 \<and> uw_context u = c then Inl VirtualUnwindFailed
                else Inr (uw_context u,
                  \<lparr>fr_index = i, fr_establisher = uw_establisher u, fr_handler = uw_handler u,
                   fr_handler_data = uw_handler_data u, fr_has_function = True\<rparr>)))"

end
