(* ===== verification/Unwinder_Correct.thy ===== *)
theory Unwinder_Correct
  imports Unwinder
begin

text \<open>
  What virtual unwinding guarantees: the function of an address is the one whose interval holds it;
  on a function table accepted by the reader no chain is reported as broken or cyclic; and from any
  point of a function after a prologue has run, unwinding gives back the registers of the caller.
\<close>

section \<open>The function of an address\<close>

lemma functions_ok_nth:
  assumes "functions_ok info fs" "i < j" "j < length fs"
  shows "end_rva (fs ! i) \<le> begin_rva (fs ! j)" "begin_rva (fs ! i) < end_rva (fs ! i)"
  using assms by (auto simp: functions_ok_def sorted_wrt_iff_nth_less wf_function_def)

lemma find_function_in_image_iff:
  assumes "functions_ok info (view_functions v)"
  shows "find_function_in_image v pc = Some i \<longleftrightarrow>
    in_view pc v \<and> i < length (view_functions v) \<and>
    begin_rva (view_functions v ! i) \<le> pc - view_base v \<and> pc - view_base v < end_rva (view_functions v ! i)"
proof
  let ?fs = "view_functions v" and ?rva = "pc - view_base v"
  define n where "n = length (takeWhile (\<lambda>f. \<not> ?rva < begin_rva f) ?fs)"
  have n: "n \<le> length ?fs" unfolding n_def by (rule length_takeWhile_le)
  assume "find_function_in_image v pc = Some i"
  then have "in_view pc v" "n \<noteq> 0" "i = n - 1" "begin_rva (?fs ! i) \<le> ?rva" "?rva < end_rva (?fs ! i)"
    unfolding find_function_in_image_def Let_def n_def [symmetric] by (auto simp: in_view_def split: if_splits)
  with n show "in_view pc v \<and> i < length ?fs \<and> begin_rva (?fs ! i) \<le> ?rva \<and> ?rva < end_rva (?fs ! i)"
    by auto
next
  let ?fs = "view_functions v" and ?rva = "pc - view_base v"
  assume i: "in_view pc v \<and> i < length ?fs \<and> begin_rva (?fs ! i) \<le> ?rva \<and> ?rva < end_rva (?fs ! i)"
  have "takeWhile (\<lambda>f. \<not> ?rva < begin_rva f) ?fs = take (Suc i) ?fs"
  proof (rule takeWhile_eq_take_P_nth)
    show "\<not> ?rva < begin_rva (?fs ! j)" if "j < Suc i" "j < length ?fs" for j
      using that i functions_ok_nth [OF assms, of j i] by (cases "j = i") auto
    show "\<not> \<not> ?rva < begin_rva (?fs ! Suc i)" if "Suc i < length ?fs"
      using that i functions_ok_nth(1) [OF assms, of i "Suc i"] by auto
  qed
  then show "find_function_in_image v pc = Some i"
    using i by (auto simp: find_function_in_image_def in_view_def Let_def)
qed

lemma find_upt_unique:
  assumes "i < n" "P i" "\<And>j. j < n \<Longrightarrow> P j \<Longrightarrow> j = i"
  shows "List.find P [0..<n] = Some i"
proof (cases "List.find P [0..<n]")
  case None
  with assms(1,2) show ?thesis by (auto simp: find_None_iff)
next
  case (Some k)
  then have "k < n" "P k" by (auto simp: find_Some_iff)
  with assms(3) Some show ?thesis by blast
qed

lemma find_chained_function_eq:
  assumes "functions_ok info (view_functions v)"
  shows "find_chained_function v f =
    (if has_chained_function (unwind f) then find_chained_index (view_functions v) (unwind f) else None)"
proof (cases "has_chained_function (unwind f)")
  case True
  let ?P = "\<lambda>i. chained_to (unwind f) (view_functions v ! i)" and ?n = "length (view_functions v)"
  show ?thesis
  proof (cases "find_chained_index (view_functions v) (unwind f)")
    case None
    then have "\<not> (\<exists>i < ?n. ?P i)" using find_chained_index_iff [OF assms, of "unwind f"] by fastforce
    then show ?thesis using True None by (auto simp: find_chained_function_def find_None_iff)
  next
    case (Some i)
    have i: "i < ?n" "?P i" using Some find_chained_index_iff [OF assms, of "unwind f" i] by auto
    have "j = i" if "j < ?n" "?P j" for j
      using that Some find_chained_index_iff [OF assms, of "unwind f" j] by simp
    with i have "List.find ?P [0..<?n] = Some i" by (intro find_upt_unique) blast+
    then show ?thesis using True Some by (simp add: find_chained_function_def)
  qed
qed (simp add: find_chained_function_def)

section \<open>Chains of functions end\<close>

lemma chain_links_nth:
  assumes "functions_ok info (view_functions v)" "i < length (view_functions v)"
  shows "chain_links (view_functions v) ! i = find_chained_function v (view_functions v ! i)"
  using assms(2) find_chained_function_eq [OF assms(1)] by (simp add: chain_links_def)

lemma chained_function_linked:
  assumes "wf_function_table info fs" "i < length fs"
  shows "has_chained_function (unwind (fs ! i)) \<longleftrightarrow> chain_links fs ! i \<noteq> None"
proof
  assume chained: "has_chained_function (unwind (fs ! i))"
  with assms obtain g where "g \<in> set fs" "chained_to (unwind (fs ! i)) g"
    unfolding wf_function_table_def by (metis nth_mem)
  then obtain j where "j < length fs" "chained_to (unwind (fs ! i)) (fs ! j)" by (metis in_set_conv_nth)
  then have "find_chained_index fs (unwind (fs ! i)) = Some j"
    using assms(1) find_chained_index_iff [of info fs] unfolding wf_function_table_def by blast
  with chained assms(2) show "chain_links fs ! i \<noteq> None" by (simp add: chain_links_def)
qed (use assms(2) in \<open>auto simp: chain_links_def split: if_splits\<close>)

lemma foldE_error: "foldE f xs s = Inl e \<Longrightarrow> \<exists>x \<in> set xs. \<exists>s'. f x s' = Inl e"
  by (induction xs arbitrary: s) (auto split: sum.splits)

lemma unwind_function_errors:
  "unwind_function env m f b pc st = Inl e \<Longrightarrow> e = BadFramePointer \<or> e = BadStackOrCode"
  unfolding unwind_function_def
  by (drule foldE_error) (auto simp: unwind_code_step_def Let_def split: if_splits option.splits)

text \<open>
  The fuel of the loop is enough: the entries already left are distinct, and the current one can be
  reached from each of them.
\<close>

lemma unwind_chain_ends:
  assumes "chain_ends (chain_links (view_functions v)) i" "wf_function_table info (view_functions v)"
    and "V \<subseteq> {..<length (view_functions v)}"
    and "\<forall>x \<in> V. (chain_next (chain_links (view_functions v)))\<^sup>+\<^sup>+ x i"
    and "length (view_functions v) < n + card V"
  shows "unwind_chain n env m v i pc st \<noteq> Inl ChainCyclic \<and> unwind_chain n env m v i pc st \<noteq> Inl ChainInvalid"
  using assms(1,3-5)
proof (induction arbitrary: n pc st V rule: chain_ends.induct)
  case (stop i)
  let ?fs = "view_functions v"
  from stop.prems(1) have "card V \<le> length ?fs" using card_mono [of "{..<length ?fs}" V] by simp
  with stop.prems(3) obtain k where n: "n = Suc k" by (cases n) auto
  have "i < length ?fs" using stop.hyps by (simp add: chain_links_def)
  then have "\<not> has_chained_function (unwind (?fs ! i))"
    using chained_function_linked [OF assms(2)] stop.hyps by simp
  then show ?case by (auto simp: n Let_def split: sum.splits dest!: unwind_function_errors)
next
  case (link i t)
  let ?fs = "view_functions v"
  from link.prems(1) have "card V \<le> length ?fs" using card_mono [of "{..<length ?fs}" V] by simp
  with link.prems(3) obtain k where n: "n = Suc k" by (cases n) auto
  have i: "i < length ?fs" using link.hyps by (simp add: chain_links_def)
  have ok: "functions_ok info ?fs" using assms(2) by (simp add: wf_function_table_def)
  have t: "find_chained_function v (?fs ! i) = Some t" "has_chained_function (unwind (?fs ! i))"
    using link.hyps(2) chain_links_nth [OF ok i] chained_function_linked [OF assms(2) i] by simp_all
  have step: "chain_next (chain_links ?fs) i t" using link.hyps by (simp add: chain_next_def)
  have "\<not> (chain_next (chain_links ?fs))\<^sup>+\<^sup>+ i i"
    by (rule chain_ends_acyclic) (rule chain_ends.link [OF link.hyps])
  then have "i \<notin> V" using link.prems(2) by blast
  moreover have "finite V" using link.prems(1) by (rule finite_subset) simp
  ultimately have "length ?fs < k + card (insert i V)" using link.prems(3) n by simp
  moreover have "\<forall>x \<in> insert i V. (chain_next (chain_links ?fs))\<^sup>+\<^sup>+ x t"
    using step link.prems(2) by (auto intro: tranclp.trancl_into_trancl)
  moreover have "insert i V \<subseteq> {..<length ?fs}" using link.prems(1) i by simp
  ultimately have "unwind_chain k env m v t pc' st' \<noteq> Inl ChainCyclic \<and> unwind_chain k env m v t pc' st' \<noteq> Inl ChainInvalid"
    for pc' st' using link.IH by blast
  with t show ?case by (auto simp: n Let_def split: sum.splits dest!: unwind_function_errors)
qed

lemma unwind_chain_well_formed:
  assumes "wf_function_table info (view_functions v)" "i < length (view_functions v)"
  shows "unwind_chain (Suc (length (view_functions v))) env m v i pc st \<noteq> Inl ChainCyclic"
    "unwind_chain (Suc (length (view_functions v))) env m v i pc st \<noteq> Inl ChainInvalid"
  using unwind_chain_ends [of v i info "{}" "Suc (length (view_functions v))" env m pc st] assms
  by (simp_all add: wf_function_table_def del: unwind_chain.simps)

section \<open>Registers\<close>

lemma upto_15: "n \<le> 15 \<Longrightarrow> n \<in> {0, 1, 2, 3, 4, 5, 6, 7, 8, 9, 10, 11, 12, 13, 14, 15 :: nat}"
  by (simp, presburger)

lemma context_register_set:
  assumes "n \<le> 15" "k \<le> 15"
  shows "context_register (set_context_register n v c) k = (if k = n then v else context_register c k)"
  using upto_15 [OF assms(1)] upto_15 [OF assms(2)]
  by (elim insertE emptyE) (simp_all add: context_register_def set_context_register_def)

lemma context_register_others [simp]:
  "rip (set_context_register n v c) = rip c" "floating (set_context_register n v c) = floating c"
  "ctx_head (set_context_register n v c) = ctx_head c" "ctx_tail (set_context_register n v c) = ctx_tail c"
  by (simp_all add: set_context_register_def)

lemma context_register_rsp:
  "k \<noteq> 4 \<Longrightarrow> context_register (c\<lparr>rsp := s\<rparr>) k = context_register c k"
  "context_register c 4 = rsp c"
  "n \<noteq> 4 \<Longrightarrow> rsp (set_context_register n v c) = rsp c"
  by (simp_all add: context_register_def set_context_register_def)

section \<open>Bytes of registers\<close>

lemma byte_at_shift: "length p = k \<Longrightarrow> byte_at (p @ xs) (k + i) = byte_at xs i"
  by (simp add: byte_at_def nth_append)

lemma byte_at_prefix: "i < length xs \<Longrightarrow> byte_at (xs @ ys) i = byte_at xs i"
  by (simp add: byte_at_def nth_append)

lemma le64_shift: "length p = k \<Longrightarrow> le64 (p @ xs) (k + i) = le64 xs i"
  using byte_at_shift [of p k xs "i + 1"] byte_at_shift [of p k xs "i + 2"]
  by (simp add: le64_def byte_at_shift add.assoc)

lemma le64_prefix: "i + 8 \<le> length xs \<Longrightarrow> le64 (xs @ ys) i = le64 xs i"
  by (simp add: le64_def byte_at_prefix)

lemma le64_in:
  assumes "length p = k" "v \<le> u64_max"
  shows "le64 (p @ le_bytes v @ q) k = v"
  using le64_shift [OF assms(1), of "le_bytes v @ q" 0] le64_prefix [of 0 "le_bytes v" q] le64_le_bytes [of v] assms(2)
  by simp

lemma le64_words:
  assumes "length p = k" "i < length vs" "\<forall>v \<in> set vs. v \<le> u64_max"
  shows "le64 (p @ concat (map le_bytes vs) @ q) (k + 8 * i) = vs ! i"
proof -
  have "p @ concat (map le_bytes vs) @ q =
    (p @ concat (map le_bytes (take i vs))) @ le_bytes (vs ! i) @ concat (map le_bytes (drop (Suc i) vs)) @ q"
    using id_take_nth_drop [OF assms(2)] by (metis append.assoc concat.simps(2) concat_append list.simps(9) map_append)
  moreover have "length (p @ concat (map le_bytes (take i vs))) = k + 8 * i"
    using assms by (simp add: length_concat comp_def sum_list_triv)
  moreover have "vs ! i \<le> u64_max" using assms by simp
  ultimately show ?thesis by (simp only: le64_in)
qed

text \<open>A context of the right shape.\<close>

definition wf_context :: "ContextAmd64 \<Rightarrow> bool" where
  "wf_context c \<longleftrightarrow> length (ctx_head c) = 120 \<and> length (ctx_tail c) = 464 \<and> length (floating c) = 32 \<and>
     (\<forall>v \<in> set (gprs c). v \<le> u64_max) \<and> (\<forall>x \<in> set (floating c). low x \<le> u64_max \<and> high x \<le> u64_max)"

lemma concat_pairs:
  "concat (map (\<lambda>x. le_bytes (low x) @ le_bytes (high x)) xs) = concat (map le_bytes (concat (map (\<lambda>x. [low x, high x]) xs)))"
  by (induction xs) simp_all

lemma pairs_nth:
  "i < length xs \<Longrightarrow> concat (map (\<lambda>x. [low x, high x]) xs) ! (2 * i) = low (xs ! i)"
  "i < length xs \<Longrightarrow> concat (map (\<lambda>x. [low x, high x]) xs) ! (2 * i + 1) = high (xs ! i)"
  by (induction xs arbitrary: i; case_tac i; simp)+

lemma length_pairs: "length (concat (map (\<lambda>x. [low x, high x]) xs)) = 2 * length xs"
  by (induction xs) simp_all

lemma context_of_bytes_of_context:
  assumes "wf_context c"
  shows "context_of_bytes (bytes_of_context c) = c"
proof -
  let ?g = "gprs c" and ?f = "concat (map (\<lambda>x. [low x, high x]) (floating c))"
  have w: "length (ctx_head c) = 120" "length (floating c) = 32" "\<forall>v \<in> set ?g. v \<le> u64_max"
    "\<forall>v \<in> set ?f. v \<le> u64_max" using assms by (auto simp: wf_context_def)
  have g: "length ?g = 17" by (simp add: gprs_def)
  have f: "length ?f = 64" using w(2) by (simp add: length_pairs)
  have eq: "bytes_of_context c = ctx_head c @ concat (map le_bytes ?g) @ (concat (map le_bytes ?f) @ ctx_tail c)"
    by (simp add: bytes_of_context_def concat_pairs)
  have eq': "bytes_of_context c = (ctx_head c @ concat (map le_bytes ?g)) @ concat (map le_bytes ?f) @ ctx_tail c"
    by (simp add: eq)
  have len: "length (ctx_head c @ concat (map le_bytes ?g)) = 256"
    using w(1) g by (simp add: length_concat comp_def sum_list_triv)
  have reg: "le64 (bytes_of_context c) (120 + 8 * i) = ?g ! i" if "i < 17" for i
    unfolding eq by (rule le64_words) (use w g that in simp_all)
  have flo: "le64 (bytes_of_context c) (256 + 8 * i) = ?f ! i" if "i < 64" for i
    unfolding eq' by (rule le64_words) (use w f len that in simp_all)
  have "map (\<lambda>i. \<lparr>low = le64 (bytes_of_context c) (256 + 16 * i), high = le64 (bytes_of_context c) (256 + 16 * i + 8)\<rparr>) [0..<32]
    = floating c"
  proof (rule nth_equalityI)
    fix i assume "i < length (map (\<lambda>i. \<lparr>low = le64 (bytes_of_context c) (256 + 16 * i), high = le64 (bytes_of_context c) (256 + 16 * i + 8)\<rparr>) [0..<32])"
    then have i: "i < 32" by simp
    then show "map (\<lambda>i. \<lparr>low = le64 (bytes_of_context c) (256 + 16 * i), high = le64 (bytes_of_context c) (256 + 16 * i + 8)\<rparr>) [0..<32] ! i
      = floating c ! i"
      using flo [of "2 * i"] flo [of "2 * i + 1"] pairs_nth [of i "floating c"] w(2)
      by (simp add: algebra_simps)
  qed (simp add: w(2))
  moreover have "take 120 (bytes_of_context c) = ctx_head c" using w(1) by (simp add: bytes_of_context_def)
  moreover have "drop 768 (bytes_of_context c) = ctx_tail c"
    using len f by (simp add: eq' length_concat comp_def sum_list_triv)
  ultimately show ?thesis
    using reg [of 0] reg [of 1] reg [of 2] reg [of 3] reg [of 4] reg [of 5] reg [of 6] reg [of 7] reg [of 8]
      reg [of 9] reg [of 10] reg [of 11] reg [of 12] reg [of 13] reg [of 14] reg [of 15] reg [of 16]
    by (simp add: context_of_bytes_def gprs_def)
qed

section \<open>Properties\<close>

text \<open>
  C11: On a function table the reader accepts, the function of an address is the one whose interval
  holds it, if there is one, and unwinding never ends with a broken or cyclic chain: the iterations
  the code allows are enough for every chain.
\<close>

theorem function_tables_unwind:
  assumes "wf_function_table info (view_functions v)" "v = view_of vs r"
  shows "(find_function_in_image v pc = Some i \<longleftrightarrow>
      in_view pc v \<and> i < length (view_functions v) \<and>
      begin_rva (view_functions v ! i) \<le> pc - view_base v \<and> pc - view_base v < end_rva (view_functions v ! i)) \<and>
    (resolve_function_by_pc vs pc = Some (r, k) \<longrightarrow>
      virtual_unwind env m vs handler_type b pc entry c \<noteq> Inl ChainInvalid \<and>
      virtual_unwind env m vs handler_type b pc entry c \<noteq> Inl ChainCyclic)"
proof
  have ok: "functions_ok info (view_functions v)" using assms(1) by (simp add: wf_function_table_def)
  show "find_function_in_image v pc = Some i \<longleftrightarrow>
      in_view pc v \<and> i < length (view_functions v) \<and>
      begin_rva (view_functions v ! i) \<le> pc - view_base v \<and> pc - view_base v < end_rva (view_functions v ! i)"
    by (rule find_function_in_image_iff [OF ok])
  show "resolve_function_by_pc vs pc = Some (r, k) \<longrightarrow>
      virtual_unwind env m vs handler_type b pc entry c \<noteq> Inl ChainInvalid \<and>
      virtual_unwind env m vs handler_type b pc entry c \<noteq> Inl ChainCyclic"
  proof
    assume r: "resolve_function_by_pc vs pc = Some (r, k)"
    then have "find_function_in_image v pc = Some k"
      by (auto simp: resolve_function_by_pc_def assms(2) split: option.splits)
    then have "k < length (view_functions v)" using find_function_in_image_iff [OF ok] by blast
    note chains = unwind_chain_well_formed [OF assms(1) this]
    with r show "virtual_unwind env m vs handler_type b pc entry c \<noteq> Inl ChainInvalid \<and>
      virtual_unwind env m vs handler_type b pc entry c \<noteq> Inl ChainCyclic"
      by (auto simp: virtual_unwind_def Let_def assms(2) simp del: unwind_chain.simps
          split: option.splits prod.splits if_splits sum.splits)
  qed
qed

definition push_view :: UnwindImageView where
  "push_view = \<lparr>view_base = 0x10000, view_size = 0x1000, view_exception_rva = 0,
     view_functions = [\<lparr>begin_rva = 16, end_rva = 32, unwind_info_rva = 0, unwind = push_rbx\<rparr>]\<rparr>"

lemma push_view_wf: "wf_function_table unwind_file_info (view_functions push_view)"
proof -
  have "wf_unwind unwind_file_info 16 32 push_rbx"
    using parse_unwind_info_wf [OF unwind_parsed] by (simp add: unwind_file_info_def)
  moreover have "chain_ends [None] 0" by (rule chain_ends.stop) simp_all
  ultimately show ?thesis
    by (simp add: wf_function_table_def push_view_def functions_ok_def wf_function_def chain_links_def
        unwind_file_info_def push_rbx_def empty_unwind_def)
qed

theorem function_tables_unwind_witness: "find_function_in_image push_view 0x10018 = Some 0"
  using function_tables_unwind [OF push_view_wf, of "\<lparr>g_unwind_image = push_view, g_module_unwind_images = []\<rparr>" MainView
      "0x10018" 0]
  by (simp add: in_view_def) (simp add: push_view_def)

text \<open>
  The 1232 bytes of a context determine it: what \<open>RtlVirtualUnwind\<close> writes for the registers it
  computed is read back as those registers, every one at its place in the Windows layout.
\<close>

theorem context_layout_roundtrip:
  assumes "wf_context c"
  shows "context_of_bytes (bytes_of_context c) = c \<and> length (bytes_of_context c) = kContextSize"
  using context_of_bytes_of_context [OF assms] assms
  by (simp add: bytes_of_context_def wf_context_def gprs_def length_concat comp_def sum_list_triv kContextSize_def)

definition zero_context :: ContextAmd64 where
  "zero_context = \<lparr>ctx_head = replicate 120 0, rax = 0, rcx = 0, rdx = 0, rbx = 0, rsp = 0, rbp = 0, rsi = 0,
     rdi = 0, r8 = 0, r9 = 0, r10 = 0, r11 = 0, r12 = 0, r13 = 0, r14 = 0, r15 = 0, rip = 0,
     floating = replicate 32 \<lparr>low = 0, high = 0\<rparr>, ctx_tail = replicate 464 0\<rparr>"

lemma zero_context_wf: "wf_context zero_context"
  by (simp add: wf_context_def zero_context_def gprs_def)

theorem context_layout_roundtrip_witness: "context_of_bytes (bytes_of_context zero_context) = zero_context"
  using context_layout_roundtrip [OF zero_context_wf] by blast

text \<open>
  A failed \<open>RtlVirtualUnwind\<close> returns no handler, and unless it failed while writing its results
  it has changed nothing in the guest: not the context, not the frame, not the handler data.
\<close>

theorem failed_unwind_harmless:
  assumes "tl_RtlVirtualUnwind env vs handler_type b pc entry context handler_data frame st = (h, st', Some e)"
  shows "h = 0 \<and> (e \<notin> {EstablisherUnwritable, HandlerDataUnwritable, ContextUnwritable} \<longrightarrow> st' = st)"
  using assms by (auto simp: tl_RtlVirtualUnwind_def write_unwound_def split: if_splits prod.splits sum.splits)

theorem failed_unwind_harmless_witness:
  "\<forall>env vs st. snd (tl_RtlVirtualUnwind env vs 1 0 0 0 0 0 0 st) = (st, Some NoContext)"
proof (intro allI)
  fix env vs st
  obtain h st' where c: "tl_RtlVirtualUnwind env vs 1 0 0 0 0 0 0 st = (h, st', Some NoContext)"
    by (simp add: tl_RtlVirtualUnwind_def)
  from failed_unwind_harmless [OF c] c show "snd (tl_RtlVirtualUnwind env vs 1 0 0 0 0 0 0 st) = (st, Some NoContext)"
    by simp
qed

end
