(* ===== verification/Prologues.thy ===== *)
theory Prologues
  imports Unwinder_Correct
begin

text \<open>
  The instructions that unwind codes describe, and the theorem that unwinding undoes them. The codes
  of a function are listed last instruction first, each with the offset of the end of its
  instruction; \<open>run_prolog\<close> executes them in the order of the program on registers and memory.
\<close>

section \<open>Running a prologue\<close>

definition saved_value :: "UnwindCode \<Rightarrow> ContextAmd64 \<Rightarrow> bytes" where
  "saved_value code c =
     (if operation code \<in> {SaveXmm128, SaveXmm128Far}
      then (let x = floating c ! (10 + operation_info code) in le_bytes (low x) @ le_bytes (high x))
      else le_bytes (context_register c (operation_info code)))"

text \<open>What an instruction stores, given the registers before it.\<close>

definition prolog_store :: "UnwindCode \<Rightarrow> ContextAmd64 \<Rightarrow> (u64 \<times> bytes) list" where
  "prolog_store code c =
     (case operation code of
        PushNonVol \<Rightarrow> [(rsp c - 8, saved_value code c)]
      | SaveNonVol \<Rightarrow> [(rsp c + operand code, saved_value code c)]
      | SaveNonVolFar \<Rightarrow> [(rsp c + operand code, saved_value code c)]
      | SaveXmm128 \<Rightarrow> [(rsp c + operand code, saved_value code c)]
      | SaveXmm128Far \<Rightarrow> [(rsp c + operand code, saved_value code c)]
      | _ \<Rightarrow> [])"

definition prolog_context :: "UnwindInfo \<Rightarrow> UnwindCode \<Rightarrow> ContextAmd64 \<Rightarrow> ContextAmd64" where
  "prolog_context u code c =
     (case operation code of
        PushNonVol \<Rightarrow> c\<lparr>rsp := rsp c - 8\<rparr>
      | AllocLarge \<Rightarrow> c\<lparr>rsp := rsp c - operand code\<rparr>
      | AllocSmall \<Rightarrow> c\<lparr>rsp := rsp c - operand code\<rparr>
      | SetFpReg \<Rightarrow> set_context_register (frame_register u) (rsp c + frame_offset u * 16) c
      | _ \<Rightarrow> c)"

fun run_prolog :: "UnwindInfo \<Rightarrow> UnwindCode list \<Rightarrow> ContextAmd64 \<times> memory \<Rightarrow> ContextAmd64 \<times> memory" where
  "run_prolog u [] st = st"
| "run_prolog u (code # cs) (c, m) =
     run_prolog u cs (prolog_context u code c, fold (\<lambda>(a, ds) m. store m a ds) (prolog_store code c) m)"

text \<open>The registers and the stores of a prologue, without the memory.\<close>

definition prolog_contexts :: "UnwindInfo \<Rightarrow> UnwindCode list \<Rightarrow> ContextAmd64 \<Rightarrow> ContextAmd64" where
  "prolog_contexts u cs c = fold (prolog_context u) cs c"

fun prolog_stores :: "UnwindInfo \<Rightarrow> UnwindCode list \<Rightarrow> ContextAmd64 \<Rightarrow> (u64 \<times> bytes) list" where
  "prolog_stores u [] c = []"
| "prolog_stores u (code # cs) c = prolog_store code c @ prolog_stores u cs (prolog_context u code c)"

lemma run_prolog_eq:
  "run_prolog u cs (c, m) =
    (prolog_contexts u cs c, fold (\<lambda>(a, ds) m. store m a ds) (prolog_stores u cs c) m)"
  by (induction cs arbitrary: c m) (simp_all add: prolog_contexts_def)

lemma prolog_stores_append:
  "prolog_stores u (cs @ ds) c = prolog_stores u cs c @ prolog_stores u ds (prolog_contexts u cs c)"
  by (induction cs arbitrary: c) (simp_all add: prolog_contexts_def)

lemma prolog_contexts_snoc: "prolog_contexts u (cs @ [code]) c = prolog_context u code (prolog_contexts u cs c)"
  by (simp add: prolog_contexts_def)

text \<open>
  What a prologue has to satisfy: no machine frame, general registers other than \<open>rsp\<close>, the stack
  pointer does not leave the address space; the frame register is set at most once, and if it is
  saved after that it was also saved before.
\<close>

definition code_ok :: "UnwindInfo \<Rightarrow> UnwindCode \<Rightarrow> ContextAmd64 \<Rightarrow> bool" where
  "code_ok u code c \<longleftrightarrow>
     (case operation code of
        PushNonVol \<Rightarrow> 8 \<le> rsp c \<and> operation_info code \<le> 15 \<and> operation_info code \<noteq> 4
      | AllocLarge \<Rightarrow> operand code \<le> rsp c
      | AllocSmall \<Rightarrow> operand code \<le> rsp c
      | SetFpReg \<Rightarrow> frame_register u \<le> 15 \<and> frame_register u \<noteq> 4 \<and> rsp c + frame_offset u * 16 \<le> u64_max
      | SaveNonVol \<Rightarrow> rsp c + operand code \<le> u64_max \<and> operation_info code \<le> 15 \<and> operation_info code \<noteq> 4
      | SaveNonVolFar \<Rightarrow> rsp c + operand code \<le> u64_max \<and> operation_info code \<le> 15 \<and> operation_info code \<noteq> 4
      | SaveXmm128 \<Rightarrow> rsp c + operand code \<le> u64_max \<and> operation_info code \<le> 15
      | SaveXmm128Far \<Rightarrow> rsp c + operand code \<le> u64_max \<and> operation_info code \<le> 15
      | PushMachFrame \<Rightarrow> False)"

fun prolog_ok :: "UnwindInfo \<Rightarrow> UnwindCode list \<Rightarrow> ContextAmd64 \<Rightarrow> bool" where
  "prolog_ok u [] c \<longleftrightarrow> True"
| "prolog_ok u (code # cs) c \<longleftrightarrow> code_ok u code c \<and> prolog_ok u cs (prolog_context u code c)"

definition saves_register :: "UnwindCode list \<Rightarrow> u8 \<Rightarrow> bool" where
  "saves_register cs r \<longleftrightarrow>
     (\<exists>code \<in> set cs. operation code \<in> {PushNonVol, SaveNonVol, SaveNonVolFar} \<and> operation_info code = r)"

definition saves_xmm :: "UnwindCode list \<Rightarrow> u8 \<Rightarrow> bool" where
  "saves_xmm cs r \<longleftrightarrow>
     (\<exists>code \<in> set cs. operation code \<in> {SaveXmm128, SaveXmm128Far} \<and> operation_info code = r)"

definition sets_frame :: "UnwindCode list \<Rightarrow> bool" where
  "sets_frame cs \<longleftrightarrow> (\<exists>code \<in> set cs. operation code = SetFpReg)"

text \<open>Read from the end: a code after the frame register was set neither sets nor newly saves it.\<close>

definition frame_shape :: "UnwindInfo \<Rightarrow> UnwindCode list \<Rightarrow> bool" where
  "frame_shape u cs \<longleftrightarrow>
     (\<forall>pre code post. cs = pre @ code # post \<longrightarrow> sets_frame pre \<longrightarrow>
        operation code \<noteq> SetFpReg \<and>
        (saves_register [code] (frame_register u) \<longrightarrow> saves_register pre (frame_register u)))"

lemma prolog_ok_snoc:
  "prolog_ok u (cs @ [code]) c \<longleftrightarrow> prolog_ok u cs c \<and> code_ok u code (prolog_contexts u cs c)"
  by (induction cs arbitrary: c) (simp_all add: prolog_contexts_def)

lemma frame_shape_snoc: "frame_shape u (cs @ [code]) \<Longrightarrow> frame_shape u cs"
  unfolding frame_shape_def by (metis append.assoc append_Cons)

lemma frame_shape_free: "\<not> sets_frame cs \<Longrightarrow> frame_shape u cs"
  by (auto simp: frame_shape_def sets_frame_def)

lemma saves_register_snoc:
  "saves_register (cs @ [code]) r \<longleftrightarrow> saves_register cs r \<or> saves_register [code] r"
  "saves_xmm (cs @ [code]) r \<longleftrightarrow> saves_xmm cs r \<or> saves_xmm [code] r"
  "sets_frame (cs @ [code]) \<longleftrightarrow> sets_frame cs \<or> operation code = SetFpReg"
  by (auto simp: saves_register_def saves_xmm_def sets_frame_def)

text \<open>A prologue changes no register but \<open>rsp\<close> and the frame register.\<close>

lemma prolog_contexts_registers:
  assumes "prolog_ok u cs c" "r \<le> 15" "r \<noteq> 4" "r \<noteq> frame_register u \<or> \<not> sets_frame cs"
  shows "context_register (prolog_contexts u cs c) r = context_register c r"
  using assms
proof (induction cs rule: rev_induct)
  case (snoc code cs)
  then have IH: "context_register (prolog_contexts u cs c) r = context_register c r"
    and ok: "code_ok u code (prolog_contexts u cs c)"
    by (auto simp: prolog_ok_snoc saves_register_snoc)
  from ok snoc.prems show ?case
    by (auto simp: prolog_contexts_snoc prolog_context_def code_ok_def saves_register_snoc IH
        context_register_rsp context_register_set split: UnwindOperation.splits)
qed (simp add: prolog_contexts_def)

lemma prolog_contexts_floating [simp]: "floating (prolog_contexts u cs c) = floating c"
proof (induction cs rule: rev_induct)
  case (snoc code cs)
  then show ?case by (simp add: prolog_contexts_snoc prolog_context_def split: UnwindOperation.splits)
qed (simp add: prolog_contexts_def)

section \<open>Undoing one instruction\<close>

lemma context_register_le: "wf_context c \<Longrightarrow> context_register c r \<le> u64_max"
  by (simp add: wf_context_def gprs_def context_register_def)

lemma wf_context_set: "wf_context c \<Longrightarrow> v \<le> u64_max \<Longrightarrow> wf_context (set_context_register n v c)"
  by (simp add: wf_context_def gprs_def set_context_register_def)

lemma wf_context_rsp: "wf_context c \<Longrightarrow> v \<le> u64_max \<Longrightarrow> wf_context (c\<lparr>rsp := v\<rparr>)"
  by (simp add: wf_context_def gprs_def)

lemma wf_context_rsp_le: "wf_context c \<Longrightarrow> rsp c \<le> u64_max"
  by (simp add: wf_context_def gprs_def)

lemma wf_prolog_context:
  assumes "wf_context c" "code_ok u code c"
  shows "wf_context (prolog_context u code c)"
  using assms wf_context_rsp_le [OF assms(1)]
  by (auto simp: prolog_context_def code_ok_def intro!: wf_context_rsp wf_context_set
      split: UnwindOperation.splits)

lemma wf_prolog_contexts: "wf_context c \<Longrightarrow> prolog_ok u cs c \<Longrightarrow> wf_context (prolog_contexts u cs c)"
  by (induction cs rule: rev_induct) (simp_all add: prolog_contexts_snoc prolog_ok_snoc wf_prolog_context,
      simp add: prolog_contexts_def)

lemma add_u64_fits: "v + n \<le> u64_max \<Longrightarrow> add_u64 v n = Some (v + n)"
  by (simp add: add_u64_def)

lemma read_saved_u64:
  "read_stack env m a 8 = Some (le_bytes v) \<Longrightarrow> v \<le> u64_max \<Longrightarrow> read_stack_u64 env m a = Some v"
  by (simp add: read_stack_u64_def le64_le_bytes)

lemma read_saved_m128:
  assumes "read_stack env m a 16 = Some (le_bytes (low x) @ le_bytes (high x))" "low x \<le> u64_max" "high x \<le> u64_max"
  shows "read_m128 env m a = Some x"
  using assms le64_prefix [of 0 "le_bytes (low x)" "le_bytes (high x)"] le64_shift [of "le_bytes (low x)" 8 "le_bytes (high x)" 0]
  by (simp add: read_m128_def le64_le_bytes)

text \<open>
  The registers \<open>y\<close> after undoing an instruction that started with the registers \<open>c\<close>: the stack pointer
  and the register it saved are those of \<open>c\<close>, the others those of \<open>x\<close>.
\<close>

definition undone :: "UnwindCode \<Rightarrow> ContextAmd64 \<Rightarrow> ContextAmd64 \<Rightarrow> ContextAmd64 \<Rightarrow> bool" where
  "undone code c x y \<longleftrightarrow> rsp y = rsp c \<and> rip y = rip x \<and> length (floating y) = length (floating x) \<and>
     (\<forall>r \<le> 15. r \<noteq> 4 \<longrightarrow>
        context_register y r = context_register (if saves_register [code] r then c else x) r) \<and>
     (\<forall>r \<le> 15. floating y ! (10 + r) = floating (if saves_xmm [code] r then c else x) ! (10 + r))"

lemma undo_step:
  assumes "code_ok u code c" "wf_context c" "\<not> pc < code_offset code" "length (floating x) = 32"
    and "\<forall>(a, ds) \<in> set (prolog_store code c). read_stack env m a (length ds) = Some ds"
    and "operation code \<noteq> SetFpReg \<Longrightarrow> rsp x = rsp (prolog_context u code c)"
    and "operation code = SetFpReg \<Longrightarrow> context_register x (frame_register u) = rsp c + frame_offset u * 16"
  shows "\<exists>y. unwind_code_step env m u pc code (x, est, False) =
      Inr (y, if operation code = SetFpReg then rsp c else est, False) \<and> undone code c x y"
proof -
  note sp = wf_context_rsp_le [OF assms(2)] and reg = context_register_le [OF assms(2)]
  have xmm: "low (floating c ! (10 + r)) \<le> u64_max" "high (floating c ! (10 + r)) \<le> u64_max" if "r \<le> 15" for r
    using assms(2) that by (auto simp: wf_context_def)
  show ?thesis
  proof (cases "operation code")
    case PushNonVol
    with assms have "read_stack_u64 env m (rsp x) = Some (context_register c (operation_info code))"
      by (intro read_saved_u64 reg) (simp add: prolog_store_def prolog_context_def saved_value_def)
    moreover have "add_u64 (rsp x) 8 = Some (rsp c)"
      using PushNonVol assms sp by (simp add: prolog_context_def code_ok_def add_u64_fits)
    ultimately show ?thesis
      using PushNonVol assms(1,3) by (auto simp: unwind_code_step_def apply_unwind_code_def pop_register_def undone_def
          code_ok_def saves_register_def saves_xmm_def context_register_rsp context_register_set)
  next
    case AllocLarge
    then have "add_u64 (rsp x) (operand code) = Some (rsp c)"
      using assms sp by (simp add: prolog_context_def code_ok_def add_u64_fits)
    then show ?thesis
      using AllocLarge assms(3) by (auto simp: unwind_code_step_def apply_unwind_code_def undone_def
          saves_register_def saves_xmm_def context_register_rsp)
  next
    case AllocSmall
    then have "add_u64 (rsp x) (operand code) = Some (rsp c)"
      using assms sp by (simp add: prolog_context_def code_ok_def add_u64_fits)
    then show ?thesis
      using AllocSmall assms(3) by (auto simp: unwind_code_step_def apply_unwind_code_def undone_def
          saves_register_def saves_xmm_def context_register_rsp)
  next
    case SetFpReg
    then show ?thesis
      using assms by (auto simp: unwind_code_step_def undone_def saves_register_def saves_xmm_def
          context_register_rsp Let_def)
  next
    case PushMachFrame
    with assms(1) show ?thesis by (simp add: code_ok_def)
  next
    case op: SaveNonVol
    with assms have "read_stack_u64 env m (rsp x + operand code) = Some (context_register c (operation_info code))"
      by (intro read_saved_u64 reg) (simp add: prolog_store_def prolog_context_def saved_value_def)
    with op assms show ?thesis
      by (auto simp: unwind_code_step_def apply_unwind_code_def load_register_def undone_def add_u64_fits
          code_ok_def prolog_context_def saves_register_def saves_xmm_def context_register_rsp context_register_set)
  next
    case op: SaveNonVolFar
    with assms have "read_stack_u64 env m (rsp x + operand code) = Some (context_register c (operation_info code))"
      by (intro read_saved_u64 reg) (simp add: prolog_store_def prolog_context_def saved_value_def)
    with op assms show ?thesis
      by (auto simp: unwind_code_step_def apply_unwind_code_def load_register_def undone_def add_u64_fits
          code_ok_def prolog_context_def saves_register_def saves_xmm_def context_register_rsp context_register_set)
  next
    case op: SaveXmm128
    with assms xmm have "read_m128 env m (rsp x + operand code) = Some (floating c ! (10 + operation_info code))"
      by (intro read_saved_m128) (simp_all add: prolog_store_def prolog_context_def saved_value_def code_ok_def Let_def)
    with op assms show ?thesis
      by (auto simp: unwind_code_step_def apply_unwind_code_def load_xmm_def undone_def add_u64_fits
          code_ok_def prolog_context_def saves_register_def saves_xmm_def context_register_def nth_list_update)
  next
    case op: SaveXmm128Far
    with assms xmm have "read_m128 env m (rsp x + operand code) = Some (floating c ! (10 + operation_info code))"
      by (intro read_saved_m128) (simp_all add: prolog_store_def prolog_context_def saved_value_def code_ok_def Let_def)
    with op assms show ?thesis
      by (auto simp: unwind_code_step_def apply_unwind_code_def load_xmm_def undone_def add_u64_fits
          code_ok_def prolog_context_def saves_register_def saves_xmm_def context_register_def nth_list_update)
  qed
qed

section \<open>Undoing a prologue\<close>

definition restored :: "UnwindCode list \<Rightarrow> ContextAmd64 \<Rightarrow> ContextAmd64 \<Rightarrow> ContextAmd64 \<Rightarrow> bool" where
  "restored cs c x y \<longleftrightarrow> rsp y = rsp c \<and> rip y = rip x \<and> length (floating y) = length (floating x) \<and>
     (\<forall>r \<le> 15. r \<noteq> 4 \<longrightarrow>
        context_register y r = context_register (if saves_register cs r then c else x) r) \<and>
     (\<forall>r \<le> 15. floating y ! (10 + r) = floating (if saves_xmm cs r then c else x) ! (10 + r))"

text \<open>The frame register holds its value from when it is set on.\<close>

lemma frame_register_kept:
  assumes "code_ok u code c" "operation code \<noteq> SetFpReg" "frame_register u \<noteq> 4"
  shows "context_register (prolog_context u code c) (frame_register u) = context_register c (frame_register u)"
  using assms by (simp add: prolog_context_def code_ok_def context_register_rsp split: UnwindOperation.splits)

lemma sets_frame_register:
  "prolog_ok u cs c \<Longrightarrow> sets_frame cs \<Longrightarrow> frame_register u \<le> 15 \<and> frame_register u \<noteq> 4"
  by (induction cs arbitrary: c) (auto simp: sets_frame_def code_ok_def)

definition established :: "UnwindInfo \<Rightarrow> UnwindCode list \<Rightarrow> ContextAmd64 \<Rightarrow> u64 \<Rightarrow> u64" where
  "established u cs c est =
     (if sets_frame cs then context_register (prolog_contexts u cs c) (frame_register u) - frame_offset u * 16 else est)"

lemma undo_prolog:
  assumes "prolog_ok u cs c" "wf_context c" "length (floating x) = 32" "\<forall>code \<in> set cs. \<not> pc < code_offset code"
    and "\<forall>(a, ds) \<in> set (prolog_stores u cs c). read_stack env m a (length ds) = Some ds"
    and "frame_shape u cs"
    and "rsp x = rsp (prolog_contexts u cs c) \<or> cs \<noteq> [] \<and> operation (last cs) = SetFpReg"
    and "sets_frame cs \<Longrightarrow> context_register x (frame_register u) = context_register (prolog_contexts u cs c) (frame_register u)"
  shows "\<exists>y. foldE (unwind_code_step env m u pc) (rev cs) (x, est, False) = Inr (y, established u cs c est, False) \<and>
    restored cs c x y"
  using assms
proof (induction cs arbitrary: x est rule: rev_induct)
  case Nil
  then show ?case
    by (auto simp: restored_def prolog_contexts_def saves_register_def saves_xmm_def established_def sets_frame_def)
next
  case (snoc code cs)
  let ?d = "prolog_contexts u cs c" and ?fr = "frame_register u"
  have ok: "prolog_ok u cs c" "code_ok u code ?d" and wf: "wf_context ?d"
    using snoc.prems(1,2) by (simp_all add: prolog_ok_snoc wf_prolog_contexts)
  have shape: "sets_frame cs \<longrightarrow> operation code \<noteq> SetFpReg \<and> (saves_register [code] ?fr \<longrightarrow> saves_register cs ?fr)"
    using snoc.prems(6) unfolding frame_shape_def by blast
  have fr: "?fr \<le> 15 \<and> ?fr \<noteq> 4" if "sets_frame cs" using that ok(1) by (rule sets_frame_register [rotated])
  have kept: "context_register (prolog_context u code ?d) ?fr = context_register ?d ?fr" if "sets_frame cs"
    using that shape fr ok(2) by (intro frame_register_kept) auto
  have "\<exists>z. unwind_code_step env m u pc code (x, est, False) =
      Inr (z, if operation code = SetFpReg then rsp ?d else est, False) \<and> undone code ?d x z"
  proof (rule undo_step [OF ok(2) wf])
    show "\<not> pc < code_offset code" "length (floating x) = 32" using snoc.prems(3,4) by simp_all
    show "\<forall>(a, ds) \<in> set (prolog_store code ?d). read_stack env m a (length ds) = Some ds"
      using snoc.prems(5) by (auto simp: prolog_stores_append)
    show "rsp x = rsp (prolog_context u code ?d)" if "operation code \<noteq> SetFpReg"
      using that snoc.prems(7) by (simp add: prolog_contexts_snoc)
    show "context_register x ?fr = rsp ?d + frame_offset u * 16" if "operation code = SetFpReg"
      using that snoc.prems(8) ok(2)
      by (simp add: saves_register_snoc prolog_contexts_snoc prolog_context_def code_ok_def context_register_set)
  qed
  then obtain z where z: "unwind_code_step env m u pc code (x, est, False) =
      Inr (z, if operation code = SetFpReg then rsp ?d else est, False)" "undone code ?d x z" by blast
  have "\<exists>y. foldE (unwind_code_step env m u pc) (rev cs) (z, if operation code = SetFpReg then rsp ?d else est, False) =
      Inr (y, established u cs c (if operation code = SetFpReg then rsp ?d else est), False) \<and> restored cs c z y"
  proof (rule snoc.IH [OF ok(1) snoc.prems(2)])
    show "length (floating z) = 32" using z(2) snoc.prems(3) by (simp add: undone_def)
    show "\<forall>code \<in> set cs. \<not> pc < code_offset code" using snoc.prems(4) by simp
    show "\<forall>(a, ds) \<in> set (prolog_stores u cs c). read_stack env m a (length ds) = Some ds"
      using snoc.prems(5) by (auto simp: prolog_stores_append)
    show "frame_shape u cs" using snoc.prems(6) by (rule frame_shape_snoc)
    show "rsp z = rsp ?d \<or> cs \<noteq> [] \<and> operation (last cs) = SetFpReg" using z(2) by (simp add: undone_def)
    show "context_register z ?fr = context_register ?d ?fr" if "sets_frame cs"
      using that z(2) snoc.prems(8) kept fr by (simp add: undone_def saves_register_snoc prolog_contexts_snoc)
  qed
  then obtain y where y: "foldE (unwind_code_step env m u pc) (rev cs) (z, if operation code = SetFpReg then rsp ?d else est, False) =
      Inr (y, established u cs c (if operation code = SetFpReg then rsp ?d else est), False)" "restored cs c z y" by blast
  have same: "context_register ?d r = context_register c r"
    if "r \<le> 15" "r \<noteq> 4" "saves_register [code] r" "\<not> saves_register cs r" for r
    using prolog_contexts_registers [OF ok(1) that(1,2)] shape that(3,4) by auto
  have "restored (cs @ [code]) c x y"
    using y(2) z(2) same by (auto simp: restored_def undone_def saves_register_snoc)
  moreover have "established u cs c (if operation code = SetFpReg then rsp ?d else est) = established u (cs @ [code]) c est"
    using kept shape ok(2)
    by (auto simp: established_def saves_register_snoc prolog_contexts_snoc prolog_context_def code_ok_def context_register_set)
  ultimately show ?case using y(1) z(1) by simp
qed

section \<open>The frame in memory\<close>

text \<open>The return address and what the prologue stores, as places and contents.\<close>

definition frame_slots :: "UnwindInfo \<Rightarrow> UnwindCode list \<Rightarrow> ContextAmd64 \<Rightarrow> memory \<Rightarrow> (u64 \<times> bytes) list" where
  "frame_slots u cs c m = (rsp c, load m (rsp c) 8) # prolog_stores u cs c"

definition slots_apart :: "(u64 \<times> bytes) list \<Rightarrow> bool" where
  "slots_apart ss = sorted_wrt (\<lambda>(a, ds) (b, es). a + length ds \<le> b \<or> b + length es \<le> a) ss"

lemma load_fold_store_other:
  assumes "\<forall>(b, es) \<in> set ss. a + n \<le> b \<or> b + length es \<le> a"
  shows "load (fold (\<lambda>(a, ds) m. store m a ds) ss m) a n = load m a n"
  using assms
proof (induction ss arbitrary: m)
  case (Cons s ss)
  have "load (store m (fst s) (snd s)) a n = load m a n"
    using Cons.prems by (auto simp: load_def store_def)
  with Cons show ?case by (simp add: case_prod_beta)
qed simp

lemma load_fold_store:
  assumes "slots_apart ss" "(a, ds) \<in> set ss"
  shows "load (fold (\<lambda>(a, ds) m. store m a ds) ss m) a (length ds) = ds"
  using assms
proof (induction ss arbitrary: m)
  case (Cons s ss)
  show ?case
  proof (cases "(a, ds) \<in> set ss")
    case True
    with Cons show ?thesis by (simp add: slots_apart_def case_prod_beta)
  next
    case False
    with Cons.prems have "s = (a, ds)" "\<forall>(b, es) \<in> set ss. a + length ds \<le> b \<or> b + length es \<le> a"
      by (auto simp: slots_apart_def)
    then show ?thesis by (simp add: load_fold_store_other load_store)
  qed
qed simp

lemma frame_slots_load:
  assumes "slots_apart (frame_slots u cs c m)" "(a, ds) \<in> set (frame_slots u cs c m)"
  shows "load (snd (run_prolog u cs (c, m))) a (length ds) = ds"
proof (cases "(a, ds) \<in> set (prolog_stores u cs c)")
  case True
  with assms(1) show ?thesis
    by (simp add: run_prolog_eq frame_slots_def load_fold_store slots_apart_def)
next
  case False
  with assms have "a = rsp c" "ds = load m (rsp c) 8"
    "\<forall>(b, es) \<in> set (prolog_stores u cs c). a + length ds \<le> b \<or> b + length es \<le> a"
    by (auto simp: frame_slots_def slots_apart_def)
  then show ?thesis by (simp add: run_prolog_eq load_fold_store_other)
qed

lemma read_stack_load:
  assumes "serves (kernel env) rd wr" "teb env = Some (lo, hi)" "0 < lo" "hi \<le> 2 ^ 63"
    and "\<forall>x. lo \<le> x \<and> x < hi \<longrightarrow> rd x" "lo \<le> a" "a + n \<le> hi" "0 < n"
  shows "read_stack env m a n = Some (load m a n)"
proof -
  have "validate_guest_stack_range (teb env) a n" using assms by (auto simp: validate_guest_stack_range_def)
  moreover have "reach rd a n = n" using assms by (simp add: reach_full)
  moreover have "0 < a" "a + n \<le> 2 ^ 63" using assms by simp_all
  ultimately show ?thesis
    using read_guest_memory_serves [OF assms(1), of a n m] assms(8) by (simp add: read_stack_def Let_def)
qed

text \<open>
  A point inside the function: the memory still holds the frame, the stack pointer is where the
  prologue left it (or the frame register was set last and replaces it), and so is the frame
  register, if it was set. Everything else may have changed.
\<close>

definition in_frame :: "UnwindInfo \<Rightarrow> UnwindCode list \<Rightarrow> ContextAmd64 \<times> memory \<Rightarrow> ContextAmd64 \<times> memory \<Rightarrow> bool" where
  "in_frame u cs entry now \<longleftrightarrow>
     (case run_prolog u cs entry of (c1, m1) \<Rightarrow>
        length (floating (fst now)) = 32 \<and>
        (\<forall>(a, ds) \<in> set (frame_slots u cs (fst entry) (snd entry)). load (snd now) a (length ds) = load m1 a (length ds)) \<and>
        (rsp (fst now) = rsp c1 \<or> cs \<noteq> [] \<and> operation (last cs) = SetFpReg) \<and>
        (sets_frame cs \<longrightarrow>
           context_register (fst now) (frame_register u) = context_register c1 (frame_register u)))"

definition executed_codes :: "UnwindInfo \<Rightarrow> nat \<Rightarrow> UnwindCode list" where
  "executed_codes u pc_offset = rev (filter (\<lambda>code. code_offset code \<le> pc_offset) (codes u))"

lemma unwind_steps_filter:
  "foldE (unwind_code_step env m u pc) cs st =
   foldE (unwind_code_step env m u pc) (filter (\<lambda>code. code_offset code \<le> pc) cs) st"
  by (induction cs arbitrary: st) (auto simp: unwind_code_step_def split: sum.split prod.split)

text \<open>The stack of the thread: readable from its limit to its base.\<close>

definition stack_readable :: "thread_env \<Rightarrow> u64 \<Rightarrow> u64 \<Rightarrow> bool" where
  "stack_readable env lo hi \<longleftrightarrow> (\<exists>rd wr. serves (kernel env) rd wr \<and> (\<forall>x. lo \<le> x \<and> x < hi \<longrightarrow> rd x)) \<and>
     teb env = Some (lo, hi) \<and> 0 < lo \<and> hi \<le> 2 ^ 63"

definition stack_frame :: "UnwindInfo \<Rightarrow> UnwindCode list \<Rightarrow> ContextAmd64 \<times> memory \<Rightarrow> u64 \<Rightarrow> u64 \<Rightarrow> bool" where
  "stack_frame u cs entry lo hi \<longleftrightarrow> wf_context (fst entry) \<and> prolog_ok u cs (fst entry) \<and> frame_shape u cs \<and>
     slots_apart (frame_slots u cs (fst entry) (snd entry)) \<and>
     (\<forall>(a, ds) \<in> set (frame_slots u cs (fst entry) (snd entry)). lo \<le> a \<and> a + length ds \<le> hi)"

lemma unwind_function_restores:
  assumes "stack_readable env lo hi" "stack_frame u cs (c, m0) lo hi" "in_frame u cs (c, m0) (x, m)"
    and "cs = executed_codes u pc"
  shows "\<exists>y. foldE (unwind_code_step env m u pc) (codes u) (x, rsp x, False) =
      Inr (y, established u cs c (rsp x), False) \<and> restored cs c x y \<and>
      pop_return_address env m (y, False) = Some (y\<lparr>rsp := rsp c + 8, rip := le64 (load m0 (rsp c) 8) 0\<rparr>)"
proof -
  obtain rd wr where env: "serves (kernel env) rd wr" "\<forall>x. lo \<le> x \<and> x < hi \<longrightarrow> rd x" "teb env = Some (lo, hi)"
    "0 < lo" "hi \<le> 2 ^ 63" using assms(1) by (auto simp: stack_readable_def)
  have fr: "wf_context c" "prolog_ok u cs c" "frame_shape u cs" "slots_apart (frame_slots u cs c m0)"
    "\<forall>(a, ds) \<in> set (frame_slots u cs c m0). lo \<le> a \<and> a + length ds \<le> hi"
    using assms(2) by (simp_all add: stack_frame_def)
  let ?now = "run_prolog u cs (c, m0)"
  have now: "length (floating x) = 32"
    "\<forall>(a, ds) \<in> set (frame_slots u cs c m0). load m a (length ds) = load (snd ?now) a (length ds)"
    "rsp x = rsp (prolog_contexts u cs c) \<or> cs \<noteq> [] \<and> operation (last cs) = SetFpReg"
    "sets_frame cs \<Longrightarrow> context_register x (frame_register u) = context_register (prolog_contexts u cs c) (frame_register u)"
    using assms(3) by (auto simp: in_frame_def run_prolog_eq)
  have slot: "read_stack env m a (length ds) = Some ds" if "(a, ds) \<in> set (frame_slots u cs c m0)" "ds \<noteq> []" for a ds
  proof -
    have "lo \<le> a" "a + length ds \<le> hi" using fr(5) that by auto
    then have "read_stack env m a (length ds) = Some (load m a (length ds))"
      using that by (intro read_stack_load [OF env(1,3-5,2)]) simp_all
    also have "load m a (length ds) = ds" using now(2) frame_slots_load [OF fr(4) that(1)] that(1) by fastforce
    finally show ?thesis .
  qed
  have full: "ds \<noteq> []" if "(a, ds) \<in> set (prolog_stores u cs c)" for a ds
    using that by (induction cs arbitrary: c) (auto simp: prolog_store_def saved_value_def Let_def le_bytes_def split: UnwindOperation.splits if_splits)
  have "\<exists>y. foldE (unwind_code_step env m u pc) (rev cs) (x, rsp x, False) =
      Inr (y, established u cs c (rsp x), False) \<and> restored cs c x y"
  proof (rule undo_prolog [OF fr(2,1) now(1) _ _ fr(3) now(3,4)])
    show "\<forall>code \<in> set cs. \<not> pc < code_offset code" by (auto simp: assms(4) executed_codes_def)
    show "\<forall>(a, ds) \<in> set (prolog_stores u cs c). read_stack env m a (length ds) = Some ds"
      using slot full by (auto simp: frame_slots_def)
  qed
  moreover have "foldE (unwind_code_step env m u pc) (codes u) (x, rsp x, False) =
      foldE (unwind_code_step env m u pc) (rev cs) (x, rsp x, False)"
    by (subst unwind_steps_filter) (simp add: assms(4) executed_codes_def)
  ultimately obtain y where y: "foldE (unwind_code_step env m u pc) (codes u) (x, rsp x, False) =
      Inr (y, established u cs c (rsp x), False)" "restored cs c x y" by auto
  have "load m0 (rsp c) 8 \<noteq> []" by (simp add: load_def)
  then have "read_stack env m (rsp c) 8 = Some (load m0 (rsp c) 8)"
    using slot [of "rsp c" "load m0 (rsp c) 8"] by (simp add: frame_slots_def)
  moreover have "rsp c + 8 \<le> hi" using fr(5) by (simp add: frame_slots_def)
  ultimately have "pop_return_address env m (y, False) = Some (y\<lparr>rsp := rsp c + 8, rip := le64 (load m0 (rsp c) 8) 0\<rparr>)"
    using y(2) env(5) by (simp add: pop_return_address_def restored_def read_stack_u64_def add_u64_fits)
  with y show ?thesis by blast
qed

section \<open>Properties\<close>


text \<open>A function that pushes \<open>rbx\<close> and takes 32 bytes, called from a stack in \<open>0x1000 .. 0x3000\<close>.\<close>

definition frame_unwind :: UnwindInfo where
  "frame_unwind = empty_unwind\<lparr>version := 1, prolog_size := 5,
     codes := [\<lparr>code_offset = 5, operation = AllocSmall, operation_info = 3, operand = 32\<rparr>,
               \<lparr>code_offset = 1, operation = PushNonVol, operation_info = 3, operand = 0\<rparr>]\<rparr>"

definition frame_function :: RuntimeFunction where
  "frame_function = \<lparr>begin_rva = 0x10, end_rva = 0x30, unwind_info_rva = 0x40, unwind = frame_unwind\<rparr>"

definition frame_views :: unwind_views where
  "frame_views = \<lparr>g_unwind_image = \<lparr>view_base = 0x10000, view_size = 0x1000, view_exception_rva = 0x100,
     view_functions = [frame_function]\<rparr>, g_module_unwind_images = []\<rparr>"

definition frame_env :: thread_env where
  "frame_env = \<lparr>kernel = all_access\<lparr>vm_call := \<lambda>w a n. let k = reach (\<lambda>x. True) a n in
     if k = 0 then (- 1, EFAULT) else (int k, OtherErrno)\<rparr>, teb = Some (0x1000, 0x3000)\<rparr>"

definition frame_entry :: ContextAmd64 where
  "frame_entry = \<lparr>ctx_head = replicate 120 0, rax = 0, rcx = 0, rdx = 0, rbx = 77, rsp = 0x2000, rbp = 0, rsi = 0,
     rdi = 0, r8 = 0, r9 = 0, r10 = 0, r11 = 0, r12 = 0, r13 = 0, r14 = 0, r15 = 0, rip = 0x10010,
     floating = replicate 32 \<lparr>low = 0, high = 0\<rparr>, ctx_tail = replicate 464 0\<rparr>"

definition frame_memory :: memory where
  "frame_memory = (\<lambda>a. if a = 0x2000 then 99 else 0)"

definition frame_now :: "ContextAmd64 \<times> memory" where
  "frame_now = (frame_entry\<lparr>rsp := 0x1FD8, rbx := 5, rax := 6, rip := 0x10020\<rparr>,
     store frame_memory 0x1FF8 (le_bytes 77))"

lemma frame_executed: "executed_codes frame_unwind 16 = rev (codes frame_unwind)"
  by (simp add: executed_codes_def frame_unwind_def)

lemma frame_run:
  "run_prolog frame_unwind (rev (codes frame_unwind)) (frame_entry, frame_memory) =
     (frame_entry\<lparr>rsp := 0x1FD8\<rparr>, store frame_memory 0x1FF8 (le_bytes 77))"
  by (simp add: frame_unwind_def prolog_context_def prolog_store_def saved_value_def frame_entry_def context_register_def)

lemma frame_readable: "stack_readable frame_env 0x1000 0x3000"
  unfolding stack_readable_def
  by (intro conjI exI [of _ "\<lambda>x. True"]) (simp_all add: serves_def frame_env_def)

lemma frame_stack: "stack_frame frame_unwind (rev (codes frame_unwind)) (frame_entry, frame_memory) 0x1000 0x3000"
proof -
  have "frame_shape frame_unwind (rev (codes frame_unwind))"
    by (rule frame_shape_free) (simp add: sets_frame_def frame_unwind_def)
  then show ?thesis
    by (simp add: stack_frame_def frame_unwind_def wf_context_def gprs_def frame_entry_def code_ok_def
        prolog_context_def slots_apart_def frame_slots_def prolog_store_def saved_value_def)
qed

lemma frame_in_place:
  "in_frame frame_unwind (rev (codes frame_unwind)) (frame_entry, frame_memory) frame_now"
proof -
  have "\<not> sets_frame (rev (codes frame_unwind))" by (simp add: sets_frame_def frame_unwind_def)
  then show ?thesis by (simp add: in_frame_def frame_run frame_now_def) (simp add: frame_entry_def)
qed


end
