(* ===== verification/Exception_Dispatch.thy ===== *)
theory Exception_Dispatch
  imports Unwinder
begin

text \<open>
  Raising, dispatching and unwinding of exceptions (\<open>src/runtime/seh/unwind.cpp\<close>): the table of
  vectored handlers, the scope tables of \<open>__C_specific_handler\<close>, the search for a handler along the
  frames, and the unwind to a target frame. Code of the guest, and the C++ frame handlers of
  \<open>cxx_eh.cpp\<close>, are parameters (the record \<open>guest_code\<close>): functions that answer with a disposition and
  may change the exception record, the context and the memory. What never returns in the program is
  an \<open>outcome\<close> here.
\<close>

section \<open>Data\<close>

record ExceptionRecordAmd64 =
  exc_code :: u32
  exc_flags :: u32
  exc_nested :: u64
  exc_address :: u64
  exc_parameter_count :: u32
  exc_parameters :: "u64 list"

record DispatcherContextAmd64 =
  control_pc :: u64
  dc_image_base :: u64
  function_entry :: u64
  establisher_frame :: u64
  target_ip :: u64
  language_handler :: u64
  handler_data :: u64
  scope_index :: u32

definition kExceptionNoncontinuable :: u32 where "kExceptionNoncontinuable = 1"
definition kExceptionUnwinding :: u32 where "kExceptionUnwinding = 2"
definition kExceptionTargetUnwind :: u32 where "kExceptionTargetUnwind = 0x20"
definition kExceptionContinueExecution :: int where "kExceptionContinueExecution = 0"
definition kExceptionContinueSearch :: int where "kExceptionContinueSearch = 1"
definition kExceptionExecuteHandler :: int where "kExceptionExecuteHandler = 4"
definition kVectoredContinueExecution :: int where "kVectoredContinueExecution = 0"
definition kVectoredContinueSearch :: int where "kVectoredContinueSearch = - 1"
definition kInvalidDisposition :: int where "kInvalidDisposition = 0x7FFFFFFF"
definition kStatusUnwindConsolidate :: u32 where "kStatusUnwindConsolidate = 0x80000029"
definition kCxxException :: u32 where "kCxxException = 0xE06D7363"

text \<open>What code of the guest can change while it handles an exception.\<close>

record seh_state =
  sh_record :: "ExceptionRecordAmd64 option"
  sh_context :: ContextAmd64
  sh_memory :: memory

record guest_code =
  call_vectored :: "u64 \<Rightarrow> seh_state \<Rightarrow> int \<times> seh_state"
  call_language :: "u64 \<Rightarrow> u64 \<Rightarrow> DispatcherContextAmd64 \<times> seh_state \<Rightarrow> int \<times> DispatcherContextAmd64 \<times> seh_state"
  call_consolidation :: "u64 \<Rightarrow> seh_state \<Rightarrow> u64 \<times> seh_state"
  unhandled_filter :: u64
  cxx_funclet_active :: bool
  is_supported_cxx :: "memory \<Rightarrow> u64 \<Rightarrow> bool"
  is_fh4_cxx :: "memory \<Rightarrow> u64 \<Rightarrow> bool"
  cxx_handler4 :: "u64 \<Rightarrow> DispatcherContextAmd64 \<times> seh_state \<Rightarrow> int \<times> DispatcherContextAmd64 \<times> seh_state"
  prepare_cleanup :: "ContextAmd64 \<Rightarrow> ContextAmd64 \<Rightarrow> u64 \<Rightarrow> u64 \<Rightarrow> u64 \<Rightarrow> ContextAmd64 option"
  prepare_catch :: "ContextAmd64 \<Rightarrow> u64 \<Rightarrow> u64 \<Rightarrow> ContextAmd64 option"

datatype seh_failure =
  BadArguments | NestedCxxException | ParametersUnreadable | NotContinuable | BadVectoredHandler
| UnwindError unwind_failure | BadDisposition | BadTarget | BadRecord | ContextInaccessible | BadCleanup
| BadTermination | BadConsolidation | BadCatch | TargetNotFound | Unhandled

text \<open>
  The end of a dispatch: the guest goes on with the interrupted context (and the record its handlers
  left), it is entered at the target of an unwind, or its thread ends with the exception's code.
\<close>

datatype outcome =
  Continued ContextAmd64 "ExceptionRecordAmd64 option" | Entered ContextAmd64 | Terminated u32 seh_failure

section \<open>Addresses in the image\<close>

definition image_range :: "unwind_views \<Rightarrow> u64 \<Rightarrow> nat \<Rightarrow> bool" where
  "image_range vs pointer n =
     (let v = g_unwind_image vs in
      if pointer = 0 \<or> view_base v = 0 then False
      else \<not> (pointer < view_base v \<or> view_size v < n \<or> view_size v - n < pointer - view_base v))"

definition image_rva :: "unwind_views \<Rightarrow> u32 \<Rightarrow> nat \<Rightarrow> bool" where
  "image_rva vs rva n =
     (let v = g_unwind_image vs in
      \<not> (view_base v = 0 \<or> view_size v < rva \<or> view_size v - rva < n))"

definition valid_guest_code :: "unwind_views \<Rightarrow> u64 \<Rightarrow> bool" where
  "valid_guest_code vs pointer = image_range vs pointer 1"

definition invoke_vectored :: "guest_code \<Rightarrow> unwind_views \<Rightarrow> u64 \<Rightarrow> seh_state \<Rightarrow> int \<times> seh_state" where
  "invoke_vectored g vs routine st =
     (if \<not> valid_guest_code vs routine then (kInvalidDisposition, st) else call_vectored g routine st)"

definition invoke_language_handler ::
    "guest_code \<Rightarrow> unwind_views \<Rightarrow> u64 \<Rightarrow> u64 \<Rightarrow> DispatcherContextAmd64 \<times> seh_state \<Rightarrow>
     int \<times> DispatcherContextAmd64 \<times> seh_state" where
  "invoke_language_handler g vs routine establisher st =
     (if \<not> valid_guest_code vs routine then (kInvalidDisposition, st) else call_language g routine establisher st)"

definition invoke_cxx_or_language_handler ::
    "guest_code \<Rightarrow> unwind_views \<Rightarrow> u64 \<Rightarrow> bool \<Rightarrow> u64 \<Rightarrow> DispatcherContextAmd64 \<times> seh_state \<Rightarrow>
     int \<times> DispatcherContextAmd64 \<times> seh_state" where
  "invoke_cxx_or_language_handler g vs routine fh4 establisher st =
     (if fh4 then cxx_handler4 g establisher st else invoke_language_handler g vs routine establisher st)"

definition validate_exception_record :: "ExceptionRecordAmd64 option \<Rightarrow> bool" where
  "validate_exception_record r = (case r of None \<Rightarrow> False | Some r \<Rightarrow> exc_parameter_count r \<le> 15)"

text \<open>\<open>None\<close> stands for the \<open>false\<close> of the code.\<close>

definition invoke_consolidation_callback :: "guest_code \<Rightarrow> unwind_views \<Rightarrow> seh_state \<Rightarrow> u64 option \<times> seh_state" where
  "invoke_consolidation_callback g vs st =
     (case sh_record st of
        None \<Rightarrow> (None, st)
      | Some r \<Rightarrow>
          if exc_code r \<noteq> kStatusUnwindConsolidate \<or> exc_parameter_count r = 0 then (None, st)
          else let callback_address = exc_parameters r ! 0 in
            if callback_address = 0 \<or> \<not> valid_guest_code vs callback_address then (None, st)
            else (case call_consolidation g callback_address st of (ip, st') \<Rightarrow>
              (if valid_guest_code vs ip then Some ip else None, st')))"

section \<open>Vectored handlers\<close>

record VectoredHandlerSlot =
  vh_used :: bool
  vh_routine :: u64
  vh_order :: int

record veh_state =
  g_vectored_handlers :: "VectoredHandlerSlot list"
  g_next_first_veh_order :: int
  g_next_last_veh_order :: int
  last_error :: u32

definition free_slot :: VectoredHandlerSlot where
  "free_slot = \<lparr>vh_used = False, vh_routine = 0, vh_order = 0\<rparr>"

definition initial_veh :: veh_state where
  "initial_veh = \<lparr>g_vectored_handlers = replicate 64 free_slot, g_next_first_veh_order = - 1,
     g_next_last_veh_order = 1, last_error = 0\<rparr>"

definition kSlotSize :: nat where "kSlotSize = 24"

text \<open>A handle is the address of the slot; \<open>table\<close> is the address of the array.\<close>

definition add_vectored_exception_handler ::
    "unwind_views \<Rightarrow> u64 \<Rightarrow> u32 \<Rightarrow> u64 \<Rightarrow> veh_state \<Rightarrow> u64 \<times> veh_state" where
  "add_vectored_exception_handler vs table first handler st =
     (if handler = 0 \<or> \<not> valid_guest_code vs handler then (0, st\<lparr>last_error := 87\<rparr>)
      else (case List.find (\<lambda>i. \<not> vh_used (g_vectored_handlers st ! i)) [0..<length (g_vectored_handlers st)] of
          None \<Rightarrow> (0, st\<lparr>last_error := 8\<rparr>)
        | Some i \<Rightarrow>
            if first \<noteq> 0 then
              (table + i * kSlotSize,
               st\<lparr>g_vectored_handlers := (g_vectored_handlers st)[i :=
                    \<lparr>vh_used = True, vh_routine = handler, vh_order = g_next_first_veh_order st\<rparr>],
                  g_next_first_veh_order := g_next_first_veh_order st - 1, last_error := 0\<rparr>)
            else
              (table + i * kSlotSize,
               st\<lparr>g_vectored_handlers := (g_vectored_handlers st)[i :=
                    \<lparr>vh_used = True, vh_routine = handler, vh_order = g_next_last_veh_order st\<rparr>],
                  g_next_last_veh_order := g_next_last_veh_order st + 1, last_error := 0\<rparr>)))"

definition remove_vectored_exception_handler :: "u64 \<Rightarrow> u64 \<Rightarrow> veh_state \<Rightarrow> u32 \<times> veh_state" where
  "remove_vectored_exception_handler table handle st =
     (let finish = table + length (g_vectored_handlers st) * kSlotSize;
          i = (handle - table) div kSlotSize
      in if handle = 0 then (0, st\<lparr>last_error := 87\<rparr>)
         else if handle < table \<or> finish \<le> handle \<or> (handle - table) mod kSlotSize \<noteq> 0
         then (0, st\<lparr>last_error := 87\<rparr>)
         else if \<not> vh_used (g_vectored_handlers st ! i) then (0, st\<lparr>last_error := 87\<rparr>)
         else (1, st\<lparr>g_vectored_handlers := (g_vectored_handlers st)[i := free_slot], last_error := 0\<rparr>))"

text \<open>The callbacks of a dispatch, in the order they are called.\<close>

definition vectored_callbacks :: "veh_state \<Rightarrow> u64 list" where
  "vectored_callbacks st = map vh_routine (sort_key vh_order (filter vh_used (g_vectored_handlers st)))"

section \<open>Scope tables\<close>

definition mem32 :: "memory \<Rightarrow> u64 \<Rightarrow> u32" where
  "mem32 m a = le32 (load m a 4) 0"

text \<open>The records of the table from the last to the first; \<open>n\<close> of them are left.\<close>

fun scope_loop ::
    "guest_code \<Rightarrow> unwind_views \<Rightarrow> u64 \<Rightarrow> u32 \<Rightarrow> nat \<Rightarrow> DispatcherContextAmd64 \<times> seh_state \<Rightarrow>
     int \<times> DispatcherContextAmd64 \<times> seh_state" where
  "scope_loop g vs data control_rva 0 st = (kExceptionContinueSearch, st)"
| "scope_loop g vs data control_rva (Suc n) st =
     (let rec = data + 4 + n * 16;
          m = sh_memory (snd st);
          begin' = mem32 m rec; end' = mem32 m (rec + 4); filter_rva = mem32 m (rec + 8); target_rva = mem32 m (rec + 12)
      in if end' \<le> begin' \<or> \<not> image_rva vs begin' 1 \<or> \<not> image_rva vs (end' - 1) 1 \<or>
            control_rva < begin' \<or> end' \<le> control_rva
         then scope_loop g vs data control_rva n st
         else if filter_rva \<noteq> 1 \<and> filter_rva \<noteq> 0 \<and> \<not> image_rva vs filter_rva 1 then (kInvalidDisposition, st)
         else (case (if filter_rva = 1 then (1, snd st)
                     else if filter_rva \<noteq> 0 then invoke_vectored g vs (view_base (g_unwind_image vs) + filter_rva) (snd st)
                     else (kVectoredContinueSearch, snd st)) of
             (result, s) \<Rightarrow>
               if result = - 1 then (kExceptionContinueExecution, fst st, s)
               else if result = 0 then scope_loop g vs data control_rva n (fst st, s)
               else if result \<noteq> 1 \<or> target_rva = 0 \<or> \<not> image_rva vs target_rva 1 then (kInvalidDisposition, fst st, s)
               else (kExceptionExecuteHandler,
                 (fst st)\<lparr>scope_index := n, target_ip := view_base (g_unwind_image vs) + target_rva\<rparr>, s)))"

definition c_specific_handler ::
    "guest_code \<Rightarrow> unwind_views \<Rightarrow> bool \<Rightarrow> DispatcherContextAmd64 option \<Rightarrow> seh_state \<Rightarrow>
     int \<times> DispatcherContextAmd64 option \<times> seh_state" where
  "c_specific_handler g vs has_context dispatcher st =
     (case dispatcher of
        None \<Rightarrow> (kInvalidDisposition, None, st)
      | Some d \<Rightarrow>
          let v = g_unwind_image vs; data = handler_data d; count = mem32 (sh_memory st) data in
          if \<not> validate_exception_record (sh_record st) \<or> \<not> has_context \<or> data = 0 \<or> view_base v = 0
          then (kInvalidDisposition, dispatcher, st)
          else if \<not> image_range vs data 4 then (kInvalidDisposition, dispatcher, st)
          else if 1024 < count \<or> \<not> image_range vs data (4 + count * 16) then (kInvalidDisposition, dispatcher, st)
          else if control_pc d < view_base v \<or> view_size v \<le> control_pc d - view_base v
          then (kInvalidDisposition, dispatcher, st)
          else (case scope_loop g vs data (to_u32 (control_pc d - view_base v)) count (d, st) of
              (disposition, d', st') \<Rightarrow> (disposition, Some d', st')))"

section \<open>Unwinding to a target\<close>

definition dispatcher_for :: "unwind_views \<Rightarrow> ContextAmd64 \<Rightarrow> UnwoundFrame \<Rightarrow> u64 \<Rightarrow> DispatcherContextAmd64" where
  "dispatcher_for vs before frame target =
     \<lparr>control_pc = rip before, dc_image_base = view_base (g_unwind_image vs),
      function_entry = raw_function_entry (g_unwind_image vs) (fr_index frame),
      establisher_frame = fr_establisher frame, target_ip = target, language_handler = fr_handler frame,
      handler_data = fr_handler_data frame, scope_index = 0\<rparr>"

definition record_code :: "seh_state \<Rightarrow> u32" where
  "record_code st = (case sh_record st of Some r \<Rightarrow> exc_code r | None \<Rightarrow> 0)"

definition is_cxx :: "seh_state \<Rightarrow> bool" where
  "is_cxx st \<longleftrightarrow> sh_record st \<noteq> None \<and> record_code st = kCxxException"

text \<open>The target's own termination handler: \<open>Inl\<close> when the unwind ends there.\<close>

definition target_handler ::
    "guest_code \<Rightarrow> unwind_views \<Rightarrow> u64 \<Rightarrow> ContextAmd64 \<Rightarrow> ContextAmd64 \<Rightarrow> UnwoundFrame \<Rightarrow> seh_state \<Rightarrow>
     outcome + seh_state" where
  "target_handler g vs target before cursor frame st =
     (let fh4 = is_cxx st \<and> is_fh4_cxx g (sh_memory st) (fr_handler_data frame);
          supported = is_cxx st \<and> is_supported_cxx g (sh_memory st) (fr_handler_data frame)
      in if is_cxx st \<and> fr_handler frame \<noteq> 0 \<and> \<not> supported then Inr st
         else if sh_record st \<noteq> None \<and> fr_handler frame \<noteq> 0 then
           (case invoke_cxx_or_language_handler g vs (fr_handler frame) fh4 (fr_establisher frame)
                   (dispatcher_for vs before frame target, st) of
              (disposition, d, st') \<Rightarrow>
                if supported \<and> disposition = kExceptionExecuteHandler \<and> target_ip d \<noteq> 0 then
                  Inl (case prepare_cleanup g cursor before (fr_establisher frame) (target_ip d) target of
                      None \<Rightarrow> Terminated (record_code st') BadCleanup
                    | Some c \<Rightarrow> Entered c)
                else if disposition \<noteq> kExceptionContinueSearch \<and> disposition \<noteq> kExceptionExecuteHandler
                then Inl (Terminated (record_code st') BadTermination)
                else Inr st')
         else Inr st)"

text \<open>Entering the target, with the registers of its frame.\<close>

definition enter_target ::
    "guest_code \<Rightarrow> unwind_views \<Rightarrow> u64 \<Rightarrow> u64 \<Rightarrow> u64 \<Rightarrow> bool \<Rightarrow> ContextAmd64 \<Rightarrow> seh_state \<Rightarrow> outcome" where
  "enter_target g vs target_frame target return_value supported before st =
     (let result = before\<lparr>rip := target, rax := return_value\<rparr>;
          finish = (\<lambda>c s. if supported then
              (case prepare_catch g c target_frame target of
                 None \<Rightarrow> Terminated (record_code s) BadCatch
               | Some c' \<Rightarrow> Entered c')
            else Entered c)
      in if sh_record st \<noteq> None \<and> record_code st = kStatusUnwindConsolidate then
           (case invoke_consolidation_callback g vs st of
              (None, s) \<Rightarrow> Terminated (record_code s) BadConsolidation
            | (Some ip, s) \<Rightarrow> finish (result\<lparr>rip := ip\<rparr>) s)
         else finish result st)"

definition mark_record :: "u32 \<Rightarrow> seh_state \<Rightarrow> seh_state" where
  "mark_record flag st = st\<lparr>sh_record := map_option (\<lambda>r. r\<lparr>exc_flags := exc_flags r OR flag\<rparr>) (sh_record st)\<rparr>"

definition matches_target :: "seh_state \<Rightarrow> u64 \<Rightarrow> ContextAmd64 \<Rightarrow> UnwoundFrame \<Rightarrow> bool" where
  "matches_target st target_frame cursor frame \<longleftrightarrow>
     fr_establisher frame = target_frame \<or>
     \<not> is_cxx st \<and> (sub_u64 (rsp cursor) 8 = target_frame \<or> rsp cursor = target_frame)"

text \<open>The termination handler of a frame on the way; \<open>Inl\<close> is the end of the thread.\<close>

definition pass_handler ::
    "guest_code \<Rightarrow> unwind_views \<Rightarrow> u64 \<Rightarrow> ContextAmd64 \<Rightarrow> UnwoundFrame \<Rightarrow> seh_state \<Rightarrow> outcome + seh_state" where
  "pass_handler g vs target before frame st =
     (if fr_handler frame = 0 then Inr st
      else if is_cxx st \<and> \<not> is_supported_cxx g (sh_memory st) (fr_handler_data frame) then Inr st
      else (case invoke_cxx_or_language_handler g vs (fr_handler frame)
                   (is_cxx st \<and> is_fh4_cxx g (sh_memory st) (fr_handler_data frame)) (fr_establisher frame)
                   (dispatcher_for vs before frame (if is_cxx st then 0 else target), st) of
          (disposition, d, st') \<Rightarrow>
            if disposition = kInvalidDisposition \<or>
               disposition \<noteq> kExceptionContinueSearch \<and> disposition \<noteq> kExceptionContinueExecution
            then Inl (Terminated (record_code st') BadTermination)
            else Inr st'))"

fun unwind_loop ::
    "nat \<Rightarrow> thread_env \<Rightarrow> guest_code \<Rightarrow> unwind_views \<Rightarrow> u64 \<Rightarrow> u64 \<Rightarrow> u64 \<Rightarrow> ContextAmd64 \<Rightarrow> seh_state \<Rightarrow> outcome" where
  "unwind_loop 0 env g vs target_frame target return_value cursor st = Terminated (record_code st) TargetNotFound"
| "unwind_loop (Suc n) env g vs target_frame target return_value cursor st =
     (case unwind_one env (sh_memory st) vs 2 cursor of
        Inl e \<Rightarrow> Terminated (record_code st) (UnwindError e)
      | Inr (cursor', frame) \<Rightarrow>
          if fr_has_function frame \<and> matches_target st target_frame cursor' frame then
            (let st1 = mark_record kExceptionTargetUnwind st;
                 supported = is_cxx st1 \<and> is_supported_cxx g (sh_memory st1) (fr_handler_data frame)
             in case target_handler g vs target cursor cursor' frame st1 of
                  Inl out \<Rightarrow> out
                | Inr st2 \<Rightarrow> enter_target g vs target_frame target return_value supported cursor st2)
          else (case pass_handler g vs target cursor frame st of
              Inl out \<Rightarrow> out
            | Inr st' \<Rightarrow>
                unwind_loop n env g vs target_frame target return_value cursor' (st'\<lparr>sh_context := cursor'\<rparr>)))"

definition max_frames :: "unwind_views \<Rightarrow> nat" where
  "max_frames vs = length (view_functions (g_unwind_image vs)) + 65"

text \<open>\<open>unwind_to_target\<close> on a record and a context that have been read.\<close>

definition unwind_from ::
    "thread_env \<Rightarrow> guest_code \<Rightarrow> unwind_views \<Rightarrow> u64 \<Rightarrow> u64 \<Rightarrow> u64 \<Rightarrow> seh_state \<Rightarrow> outcome" where
  "unwind_from env g vs target_frame target return_value st =
     (let st1 = st\<lparr>sh_record := map_option (\<lambda>r. r\<lparr>exc_flags := kExceptionUnwinding\<rparr>) (sh_record st)\<rparr> in
      unwind_loop (max_frames vs) env g vs target_frame target return_value
        ((sh_context st)\<lparr>rax := return_value\<rparr>) st1)"

definition record_of_bytes :: "bytes \<Rightarrow> ExceptionRecordAmd64" where
  "record_of_bytes bs =
     \<lparr>exc_code = le32 bs 0, exc_flags = le32 bs 4, exc_nested = le64 bs 8, exc_address = le64 bs 16,
      exc_parameter_count = le32 bs 24, exc_parameters = map (\<lambda>i. le64 bs (32 + 8 * i)) [0..<15]\<rparr>"

text \<open>
  \<open>unwind_to_target\<close> on addresses of the guest, null for no record. A context and a record of the
  runtime itself, as in the dispatch below, are given to \<open>unwind_from\<close> directly.
\<close>

definition unwind_to_target ::
    "thread_env \<Rightarrow> guest_code \<Rightarrow> unwind_views \<Rightarrow> u64 \<Rightarrow> u64 \<Rightarrow> u64 \<Rightarrow> u64 \<Rightarrow> u64 \<Rightarrow> memory \<Rightarrow> outcome" where
  "unwind_to_target env g vs target_frame target exception_record return_value context m =
     (if target_frame = 0 \<or> target = 0 \<or> context = 0 \<or> \<not> valid_guest_code vs target then Terminated 0 BadTarget
      else (case read_guest_memory (kernel env) m context kContextSize of (res, ds) \<Rightarrow>
        if acc_status res \<noteq> AccessSuccess then Terminated 0 ContextInaccessible
        else if exception_record = 0 then
          unwind_from env g vs target_frame target return_value
            \<lparr>sh_record = None, sh_context = context_of_bytes ds, sh_memory = m\<rparr>
        else (case read_guest_memory (kernel env) m exception_record 152 of (res', rs) \<Rightarrow>
          if acc_status res' \<noteq> AccessSuccess \<or> \<not> validate_exception_record (Some (record_of_bytes rs))
          then Terminated 0 BadRecord
          else unwind_from env g vs target_frame target return_value
            \<lparr>sh_record = Some (record_of_bytes rs), sh_context = context_of_bytes ds, sh_memory = m\<rparr>)))"

section \<open>Raising\<close>

definition record_noncontinuable :: "seh_state \<Rightarrow> bool" where
  "record_noncontinuable st \<longleftrightarrow>
     (case sh_record st of Some r \<Rightarrow> exc_flags r AND kExceptionNoncontinuable \<noteq> 0 | None \<Rightarrow> False)"

fun veh_loop :: "guest_code \<Rightarrow> unwind_views \<Rightarrow> u32 \<Rightarrow> u64 list \<Rightarrow> seh_state \<Rightarrow> outcome + seh_state" where
  "veh_loop g vs code [] st = Inr st"
| "veh_loop g vs code (h # hs) st =
     (case invoke_vectored g vs h st of (disposition, st') \<Rightarrow>
        if disposition = kVectoredContinueExecution then
          Inl (if record_noncontinuable st'
               then Terminated code NotContinuable else Continued (sh_context st') (sh_record st'))
        else if disposition \<noteq> kVectoredContinueSearch then Inl (Terminated code BadVectoredHandler)
        else veh_loop g vs code hs st')"

text \<open>
  \<open>UnhandledExceptionFilter\<close> for the record and context of the dispatch: the filter works on copies,
  and only the context is written back, when it asks for the execution to go on.
\<close>

definition tl_UnhandledExceptionFilter :: "guest_code \<Rightarrow> unwind_views \<Rightarrow> seh_state \<Rightarrow> int \<times> seh_state" where
  "tl_UnhandledExceptionFilter g vs st =
     (if \<not> validate_exception_record (sh_record st) then (kVectoredContinueSearch, st)
      else if unhandled_filter g = 0 \<or> \<not> image_range vs (unhandled_filter g) 1 then (kVectoredContinueSearch, st)
      else (case call_vectored g (unhandled_filter g) st of (result, st') \<Rightarrow>
        if result \<noteq> kVectoredContinueExecution then (kVectoredContinueSearch, st\<lparr>sh_memory := sh_memory st'\<rparr>)
        else (result, st\<lparr>sh_context := sh_context st', sh_memory := sh_memory st'\<rparr>)))"

definition unhandled :: "guest_code \<Rightarrow> unwind_views \<Rightarrow> u32 \<Rightarrow> seh_state \<Rightarrow> outcome" where
  "unhandled g vs code st =
     (case tl_UnhandledExceptionFilter g vs st of (final_disposition, st') \<Rightarrow>
        if final_disposition = kVectoredContinueExecution \<and> \<not> record_noncontinuable st'
        then Continued (sh_context st') (sh_record st')
        else Terminated code Unhandled)"

fun search_loop ::
    "nat \<Rightarrow> thread_env \<Rightarrow> guest_code \<Rightarrow> unwind_views \<Rightarrow> u32 \<Rightarrow> ContextAmd64 \<Rightarrow> seh_state \<Rightarrow> outcome" where
  "search_loop 0 env g vs code cursor st = unhandled g vs code st"
| "search_loop (Suc n) env g vs code cursor st =
     (case unwind_one env (sh_memory st) vs 1 cursor of
        Inl e \<Rightarrow> if e = InvalidLeafFrame then unhandled g vs code st else Terminated code (UnwindError e)
      | Inr (cursor', frame) \<Rightarrow>
          if fr_handler frame = 0 then search_loop n env g vs code cursor' st
          else if code = kCxxException \<and> \<not> is_supported_cxx g (sh_memory st) (fr_handler_data frame)
          then search_loop n env g vs code cursor' st
          else (case invoke_cxx_or_language_handler g vs (fr_handler frame)
                       (code = kCxxException \<and> is_fh4_cxx g (sh_memory st) (fr_handler_data frame))
                       (fr_establisher frame) (dispatcher_for vs cursor frame 0, st) of
              (disposition, d, st') \<Rightarrow>
                if disposition = kExceptionContinueExecution then
                  (if record_noncontinuable st' then Terminated code NotContinuable
                   else Continued (sh_context st') (sh_record st'))
                else if disposition = kExceptionExecuteHandler \<and> target_ip d \<noteq> 0 then
                  (if fr_establisher frame = 0 \<or> \<not> valid_guest_code vs (target_ip d) then Terminated 0 BadTarget
                   else if \<not> validate_exception_record (sh_record st') then Terminated 0 BadRecord
                   else unwind_from env g vs (fr_establisher frame) (target_ip d) 0 st')
                else if disposition \<noteq> kExceptionContinueSearch then Terminated code BadDisposition
                else search_loop n env g vs code cursor' st'))"

definition raised_record :: "u32 \<Rightarrow> u32 \<Rightarrow> ContextAmd64 \<Rightarrow> u32 \<Rightarrow> u64 list \<Rightarrow> ExceptionRecordAmd64" where
  "raised_record code fl context count ps =
     \<lparr>exc_code = code, exc_flags = fl, exc_nested = 0, exc_address = rip context, exc_parameter_count = count,
      exc_parameters = ps @ replicate (15 - length ps) 0\<rparr>"

definition dispatch_raised_exception ::
    "thread_env \<Rightarrow> guest_code \<Rightarrow> unwind_views \<Rightarrow> veh_state \<Rightarrow> ContextAmd64 \<Rightarrow> u32 \<Rightarrow> u32 \<Rightarrow> u32 \<Rightarrow> u64 \<Rightarrow> memory \<Rightarrow>
     outcome" where
  "dispatch_raised_exception env g vs veh context code fl parameter_count parameters m =
     (if fl div 2 \<noteq> 0 \<or> 15 < parameter_count \<or> parameter_count \<noteq> 0 \<and> parameters = 0
      then Terminated code BadArguments
      else if code = kCxxException \<and> cxx_funclet_active g then Terminated code NestedCxxException
      else (case (if parameter_count = 0 then Some []
                  else (case read_guest_memory (kernel env) m parameters (parameter_count * 8) of (res, ds) \<Rightarrow>
                    if acc_status res = AccessSuccess then Some (map (\<lambda>i. le64 ds (8 * i)) [0..<parameter_count])
                    else None)) of
          None \<Rightarrow> Terminated code ParametersUnreadable
        | Some ps \<Rightarrow>
            (case veh_loop g vs code (vectored_callbacks veh)
                    \<lparr>sh_record = Some (raised_record code fl context parameter_count ps), sh_context = context,
                     sh_memory = m\<rparr> of
               Inl out \<Rightarrow> out
             | Inr st \<Rightarrow> search_loop (max_frames vs) env g vs code (sh_context st) st)))"

end
