(* ===== verification/Dispatch_Properties.thy ===== *)
theory Dispatch_Properties
  imports Exception_Dispatch "HOL-Library.Multiset"
begin

text \<open>
  What the dispatch of exceptions guarantees: the order in which vectored handlers are called, as a
  refinement of a list; that an exception that cannot be continued never is; and that an unwind
  enters code of the image only.
\<close>

section \<open>The order of vectored handlers\<close>

text \<open>
  The abstract state is the list of occupied slots in the order they are called. The slots carry
  it through their order numbers, which are distinct and between the two counters.
\<close>

definition used_slots :: "veh_state \<Rightarrow> (nat \<times> VectoredHandlerSlot) list" where
  "used_slots st = filter (\<lambda>(i, s). vh_used s) (enumerate 0 (g_vectored_handlers st))"

definition slot_order :: "nat \<times> VectoredHandlerSlot \<Rightarrow> int" where
  "slot_order p = vh_order (snd p)"

definition call_order :: "veh_state \<Rightarrow> (nat \<times> u64) list" where
  "call_order st = map (\<lambda>(i, s). (i, vh_routine s)) (sort_key slot_order (used_slots st))"

definition wf_veh :: "veh_state \<Rightarrow> bool" where
  "wf_veh st \<longleftrightarrow> length (g_vectored_handlers st) = 64 \<and>
     distinct (map slot_order (used_slots st)) \<and>
     (\<forall>p \<in> set (used_slots st). g_next_first_veh_order st < slot_order p \<and> slot_order p < g_next_last_veh_order st) \<and>
     g_next_first_veh_order st < 0 \<and> 0 < g_next_last_veh_order st"

text \<open>The callbacks of a dispatch are the routines in that order.\<close>

lemma sort_key_map:
  "sort_key k (map f xs) = map f (sort_key (\<lambda>x. k (f x)) xs)"
proof -
  have "insort_key k (f x) (map f ys) = map f (insort_key (\<lambda>x. k (f x)) x ys)" for x ys
    by (induction ys) simp_all
  then show ?thesis by (induction xs) simp_all
qed

lemma vectored_callbacks_order: "vectored_callbacks st = map snd (call_order st)"
proof -
  have "map snd (filter (\<lambda>(i, s). vh_used s) (enumerate n ss)) = filter vh_used ss" for n and ss :: "VectoredHandlerSlot list"
    by (induction ss arbitrary: n) auto
  then have "filter vh_used (g_vectored_handlers st) = map snd (used_slots st)" by (simp add: used_slots_def)
  then have "sort_key vh_order (filter vh_used (g_vectored_handlers st)) = map snd (sort_key slot_order (used_slots st))"
    by (simp add: sort_key_map slot_order_def [abs_def])
  then show ?thesis by (simp add: vectored_callbacks_def call_order_def comp_def case_prod_beta)
qed

lemma sort_key_unique:
  assumes "mset ys = mset xs" "sorted (map k ys)" "distinct (map k xs)"
  shows "sort_key k xs = ys"
proof (rule properties_for_sort_key [OF assms(1) _ assms(2)])
  fix x assume x: "x \<in> set ys"
  have one: "filter (\<lambda>y. k x = k y) zs = [x]" if "distinct (map k zs)" "x \<in> set zs" for zs
    using that by (induction zs) (auto simp: filter_empty_conv dest: image_eqI [OF sym])
  have "mset (map k ys) = mset (map k xs)" by (simp add: assms(1))
  then have "distinct (map k ys)" using assms(3) mset_eq_imp_distinct_iff by blast
  then show "filter (\<lambda>y. k x = k y) ys = filter (\<lambda>y. k x = k y) xs"
    using one x assms(1,3) mset_eq_setD by metis
qed

lemma sorted_sort_key_map: "sorted (map k (sort_key k xs))"
  by (rule sorted_sort_key)

text \<open>Adding puts a handler at the front or at the end, removing takes it out.\<close>

lemma used_slots_iff:
  "p \<in> set (used_slots st) \<longleftrightarrow> (\<exists>i < length (g_vectored_handlers st). p = (i, g_vectored_handlers st ! i) \<and>
     vh_used (g_vectored_handlers st ! i))"
  by (auto simp: used_slots_def in_set_enumerate_eq)

lemma distinct_used_slots: "distinct (used_slots st)"
  by (simp add: used_slots_def distinct_enumerate)

lemma mset_eq_set:
  "distinct xs \<Longrightarrow> distinct ys \<Longrightarrow> set xs = set ys \<Longrightarrow> mset xs = mset ys"
  by (simp add: set_eq_iff_mset_eq_distinct)

lemma used_slots_update:
  assumes "i < length (g_vectored_handlers st)" "\<not> vh_used (g_vectored_handlers st ! i)"
    and "g_vectored_handlers st' = (g_vectored_handlers st)[i := s]" "vh_used s"
  shows "mset (used_slots st') = mset ((i, s) # used_slots st)"
proof (rule mset_eq_set)
  show "distinct ((i, s) # used_slots st)" using assms(2) by (auto simp: distinct_used_slots used_slots_iff)
  show "set (used_slots st') = set ((i, s) # used_slots st)"
    using assms by (auto simp: used_slots_iff nth_list_update split: if_splits)
qed (rule distinct_used_slots)

lemma used_slots_clear:
  assumes "i < length (g_vectored_handlers st)" "g_vectored_handlers st' = (g_vectored_handlers st)[i := free_slot]"
  shows "mset (used_slots st') = mset (filter (\<lambda>p. fst p \<noteq> i) (used_slots st))"
proof (rule mset_eq_set)
  show "set (used_slots st') = set (filter (\<lambda>p. fst p \<noteq> i) (used_slots st))"
    using assms by (auto simp: used_slots_iff nth_list_update free_slot_def)
qed (simp_all add: distinct_used_slots)

lemma sorted_slots:
  assumes "wf_veh st"
  shows "sorted (map slot_order (sort_key slot_order (used_slots st)))"
    "mset (sort_key slot_order (used_slots st)) = mset (used_slots st)"
  by simp_all

lemma mset_distinct_map: "mset xs = mset ys \<Longrightarrow> distinct (map k ys) \<Longrightarrow> distinct (map k xs)"
  by (metis mset_eq_imp_distinct_iff mset_map)

lemma call_order_add:
  assumes "wf_veh st" "wf_veh st'" "mset (used_slots st') = mset ((i, s) # used_slots st)"
  shows "slot_order (i, s) \<le> g_next_first_veh_order st \<Longrightarrow> call_order st' = (i, vh_routine s) # call_order st"
    "g_next_last_veh_order st \<le> slot_order (i, s) \<Longrightarrow> call_order st' = call_order st @ [(i, vh_routine s)]"
proof -
  let ?ys = "sort_key slot_order (used_slots st)"
  have bounds: "g_next_first_veh_order st < slot_order p \<and> slot_order p < g_next_last_veh_order st" if "p \<in> set ?ys" for p
    using assms(1) that by (simp add: wf_veh_def)
  have d: "distinct (map slot_order (used_slots st'))" using assms(2) by (simp add: wf_veh_def)
  {
    assume "slot_order (i, s) \<le> g_next_first_veh_order st"
    then have "sorted (map slot_order ((i, s) # ?ys))" using bounds by (force intro: less_imp_le order_trans)
    then have "sort_key slot_order (used_slots st') = (i, s) # ?ys" using assms(3) d by (intro sort_key_unique) simp_all
    then show "call_order st' = (i, vh_routine s) # call_order st" by (simp add: call_order_def)
  next
    assume "g_next_last_veh_order st \<le> slot_order (i, s)"
    then have "sorted (map slot_order (?ys @ [(i, s)]))" using bounds by (force simp: sorted_append intro: less_imp_le order_trans)
    then have "sort_key slot_order (used_slots st') = ?ys @ [(i, s)]" using assms(3) d by (intro sort_key_unique) simp_all
    then show "call_order st' = call_order st @ [(i, vh_routine s)]" by (simp add: call_order_def)
  }
qed

lemma call_order_remove:
  assumes "wf_veh st" "wf_veh st'" "mset (used_slots st') = mset (filter (\<lambda>p. fst p \<noteq> i) (used_slots st))"
  shows "call_order st' = filter (\<lambda>p. fst p \<noteq> i) (call_order st)"
proof -
  let ?ys = "filter (\<lambda>p. fst p \<noteq> i) (sort_key slot_order (used_slots st))"
  have "sorted (map slot_order ?ys)" by (simp add: sorted_filter)
  moreover have "distinct (map slot_order (used_slots st'))" using assms(2) by (simp add: wf_veh_def)
  moreover have "mset ?ys = mset (used_slots st')" by (simp add: assms(3))
  ultimately have "sort_key slot_order (used_slots st') = ?ys" by (intro sort_key_unique)
  then show ?thesis by (simp add: call_order_def filter_map comp_def case_prod_beta)
qed

lemma wf_initial_veh: "wf_veh initial_veh"
proof -
  have "p \<notin> set (used_slots initial_veh)" for p
    unfolding used_slots_iff by (auto simp: initial_veh_def free_slot_def)
  then have "used_slots initial_veh = []" using last_in_set by blast
  then show ?thesis by (simp add: wf_veh_def initial_veh_def)
qed

text \<open>
  What a registration does to the calling order: which slot it takes is up to the table, whether
  the handler comes first or last is up to the caller.
\<close>

lemma add_vectored_accepted:
  assumes "add_vectored_exception_handler vs table first handler st = (h, st')" "wf_veh st" "table \<noteq> 0"
  shows "wf_veh st' \<and>
    (if h = 0 then call_order st' = call_order st
     else \<exists>i < 64. h = table + i * kSlotSize \<and> i \<notin> fst ` set (call_order st) \<and>
       call_order st' = (if first \<noteq> 0 then (i, handler) # call_order st else call_order st @ [(i, handler)]))"
proof (cases "h = 0")
  case True
  with assms have "g_vectored_handlers st' = g_vectored_handlers st"
    "g_next_first_veh_order st' = g_next_first_veh_order st" "g_next_last_veh_order st' = g_next_last_veh_order st"
    by (auto simp: add_vectored_exception_handler_def kSlotSize_def split: if_splits option.splits)
  with assms(2) True show ?thesis by (simp add: wf_veh_def call_order_def used_slots_def)
next
  case False
  then obtain i where i: "List.find (\<lambda>i. \<not> vh_used (g_vectored_handlers st ! i)) [0..<length (g_vectored_handlers st)] = Some i"
    "h = table + i * kSlotSize"
    using assms(1) by (auto simp: add_vectored_exception_handler_def split: if_splits option.splits)
  define s where "s = \<lparr>vh_used = True, vh_routine = handler,
    vh_order = (if first \<noteq> 0 then g_next_first_veh_order st else g_next_last_veh_order st)\<rparr>"
  have free: "i < length (g_vectored_handlers st)" "\<not> vh_used (g_vectored_handlers st ! i)"
    using i(1) by (auto simp: find_Some_iff)
  have st': "g_vectored_handlers st' = (g_vectored_handlers st)[i := s]"
    "g_next_first_veh_order st' = g_next_first_veh_order st - (if first \<noteq> 0 then 1 else 0)"
    "g_next_last_veh_order st' = g_next_last_veh_order st + (if first \<noteq> 0 then 0 else 1)"
    using assms(1) i False by (auto simp: add_vectored_exception_handler_def s_def split: if_splits)
  have slots: "mset (used_slots st') = mset ((i, s) # used_slots st)"
    by (rule used_slots_update [OF free st'(1)]) (simp add: s_def)
  have order: "slot_order (i, s) = (if first \<noteq> 0 then g_next_first_veh_order st else g_next_last_veh_order st)"
    by (simp add: slot_order_def s_def)
  have old: "g_next_first_veh_order st < slot_order p \<and> slot_order p < g_next_last_veh_order st" if "p \<in> set (used_slots st)" for p
    using assms(2) that by (simp add: wf_veh_def)
  have set: "set (used_slots st') = insert (i, s) (set (used_slots st))" using mset_eq_setD [OF slots] by simp
  have "distinct (map slot_order ((i, s) # used_slots st))"
    using assms(2) old order by (force simp: wf_veh_def)
  then have "distinct (map slot_order (used_slots st'))" by (rule mset_distinct_map [OF slots])
  then have wf: "wf_veh st'"
    using assms(2) old order by (force simp: wf_veh_def st' set)
  note placed = call_order_add [OF assms(2) wf slots]
  have "i \<notin> fst ` set (call_order st)" using free by (auto simp: call_order_def used_slots_iff)
  moreover have "i < 64" using free(1) assms(2) by (simp add: wf_veh_def)
  moreover have "call_order st' = (if first \<noteq> 0 then (i, handler) # call_order st else call_order st @ [(i, handler)])"
    using placed order by (auto simp: s_def)
  ultimately show ?thesis using wf i(2) False by auto
qed

lemma remove_vectored_accepted:
  assumes "remove_vectored_exception_handler table h st = (n, st')" "wf_veh st"
  shows "wf_veh st' \<and>
    (if n = 0 then call_order st' = call_order st
     else call_order st' = filter (\<lambda>p. table + fst p * kSlotSize \<noteq> h) (call_order st))"
proof (cases "n = 0")
  case True
  with assms have "g_vectored_handlers st' = g_vectored_handlers st"
    "g_next_first_veh_order st' = g_next_first_veh_order st" "g_next_last_veh_order st' = g_next_last_veh_order st"
    by (auto simp: remove_vectored_exception_handler_def Let_def split: if_splits)
  with assms(2) True show ?thesis by (simp add: wf_veh_def call_order_def used_slots_def)
next
  case False
  define i where "i = (h - table) div kSlotSize"
  have h: "table \<le> h" "h < table + length (g_vectored_handlers st) * kSlotSize" "(h - table) mod kSlotSize = 0"
    and st': "g_vectored_handlers st' = (g_vectored_handlers st)[i := free_slot]"
    "g_next_first_veh_order st' = g_next_first_veh_order st" "g_next_last_veh_order st' = g_next_last_veh_order st"
    using assms(1) False by (auto simp: remove_vectored_exception_handler_def Let_def i_def split: if_splits)
  have h_eq: "h = table + i * kSlotSize" using h(1,3) by (simp add: i_def mod_0_imp_dvd)
  have i: "i < length (g_vectored_handlers st)" using h(2) by (simp add: h_eq)
  have slots: "mset (used_slots st') = mset (filter (\<lambda>p. fst p \<noteq> i) (used_slots st))"
    by (rule used_slots_clear [OF i st'(1)])
  have set: "set (used_slots st') \<subseteq> set (used_slots st)" using mset_eq_setD [OF slots] by auto
  have "distinct (map slot_order (filter (\<lambda>p. fst p \<noteq> i) (used_slots st)))"
    using assms(2) by (simp add: wf_veh_def distinct_map_filter)
  then have wf: "wf_veh st'"
    using assms(2) set mset_distinct_map [OF slots] by (auto simp: wf_veh_def st')
  have "table + k * kSlotSize \<noteq> h \<longleftrightarrow> k \<noteq> i" for k by (simp add: h_eq kSlotSize_def)
  then show ?thesis using wf False call_order_remove [OF assms(2) wf slots] by simp
qed

inductive veh_reachable :: "unwind_views \<Rightarrow> u64 \<Rightarrow> veh_state \<Rightarrow> bool" for vs table where
  init: "veh_reachable vs table initial_veh"
| add: "veh_reachable vs table st \<Longrightarrow> add_vectored_exception_handler vs table first handler st = (h, st') \<Longrightarrow>
    veh_reachable vs table st'"
| remove: "veh_reachable vs table st \<Longrightarrow> remove_vectored_exception_handler table h st = (n, st') \<Longrightarrow>
    veh_reachable vs table st'"

lemma reachable_wf: "veh_reachable vs table st \<Longrightarrow> table \<noteq> 0 \<Longrightarrow> wf_veh st"
  by (induction rule: veh_reachable.induct)
    (auto simp: wf_initial_veh dest: add_vectored_accepted remove_vectored_accepted)

lemma remove_added:
  assumes "add_vectored_exception_handler vs table first handler st = (h, st')" "wf_veh st" "table \<noteq> 0" "h \<noteq> 0"
  shows "\<exists>st''. remove_vectored_exception_handler table h st' = (1, st'') \<and> call_order st'' = call_order st"
proof -
  obtain i where i: "i < 64" "h = table + i * kSlotSize" "i \<notin> fst ` set (call_order st)"
    "call_order st' = (if first \<noteq> 0 then (i, handler) # call_order st else call_order st @ [(i, handler)])"
    and wf: "wf_veh st'"
    using add_vectored_accepted [OF assms(1-3)] assms(4) by auto
  have "(i, handler) \<in> set (call_order st')" by (simp add: i(4))
  then have used: "vh_used (g_vectored_handlers st' ! i)"
    by (auto simp: call_order_def used_slots_iff)
  have len: "length (g_vectored_handlers st') = 64" using wf by (simp add: wf_veh_def)
  obtain n st'' where r: "remove_vectored_exception_handler table h st' = (n, st'')" by force
  then have n: "n = 1" using used len i(1,2) assms(3)
    by (auto simp: remove_vectored_exception_handler_def kSlotSize_def Let_def split: if_splits)
  have "call_order st'' = filter (\<lambda>p. table + fst p * kSlotSize \<noteq> h) (call_order st')"
    using remove_vectored_accepted [OF r wf] n by simp
  also have "\<dots> = filter (\<lambda>p. fst p \<noteq> i) (call_order st')" by (simp add: i(2) kSlotSize_def)
  also have "\<dots> = call_order st" using i(3) by (auto simp: i(4) filter_id_conv image_iff)
  finally show ?thesis using r n by blast
qed

text \<open>
  C13: In every state the table of vectored handlers can reach, a handler registered as first is
  called before all others, one registered as last after all others; a refused registration changes
  nothing; and the handle returned removes exactly that handler.
\<close>

theorem vectored_handlers_ordered:
  assumes "veh_reachable vs table st" "table \<noteq> 0"
    and "add_vectored_exception_handler vs table first handler st = (h, st')"
  shows "vectored_callbacks st' =
      (if h = 0 then vectored_callbacks st
       else if first \<noteq> 0 then handler # vectored_callbacks st else vectored_callbacks st @ [handler]) \<and>
    (h \<noteq> 0 \<longrightarrow> (\<exists>st''. remove_vectored_exception_handler table h st' = (1, st'') \<and>
       vectored_callbacks st'' = vectored_callbacks st))"
proof -
  have wf: "wf_veh st" by (rule reachable_wf [OF assms(1,2)])
  show ?thesis
    using add_vectored_accepted [OF assms(3) wf assms(2)] remove_added [OF assms(3) wf assms(2)]
    by (auto simp: vectored_callbacks_order)
qed

lemma find_upt_least:
  assumes "k < n" "P k" "\<And>j. j < k \<Longrightarrow> \<not> P j"
  shows "List.find P [0..<n] = Some k"
  unfolding find_Some_iff using assms by (intro exI [of _ k]) simp

definition small_views :: unwind_views where
  "small_views = \<lparr>g_unwind_image = \<lparr>view_base = 0x10000, view_size = 0x1000, view_exception_rva = 0,
     view_functions = []\<rparr>, g_module_unwind_images = []\<rparr>"

theorem vectored_handlers_ordered_witness:
  "vectored_callbacks (snd (add_vectored_exception_handler small_views 0x500 1 0x10020
     (snd (add_vectored_exception_handler small_views 0x500 0 0x10010 initial_veh)))) = [0x10020, 0x10010]"
proof -
  let ?add = "add_vectored_exception_handler small_views 0x500"
  obtain h1 st1 where 1: "?add 0 0x10010 initial_veh = (h1, st1)" by force
  obtain h2 st2 where 2: "?add 1 0x10020 st1 = (h2, st2)" by force
  have code: "valid_guest_code small_views 0x10010" "valid_guest_code small_views 0x10020"
    by (simp_all add: valid_guest_code_def image_range_def small_views_def)
  have free: "List.find (\<lambda>i. \<not> vh_used (g_vectored_handlers initial_veh ! i)) [0..<length (g_vectored_handlers initial_veh)] = Some 0"
    by (rule find_upt_least) (simp_all add: initial_veh_def free_slot_def)
  have h1: "h1 \<noteq> 0" and st1: "st1 = initial_veh\<lparr>g_vectored_handlers := (g_vectored_handlers initial_veh)[0 :=
      \<lparr>vh_used = True, vh_routine = 0x10010, vh_order = 1\<rparr>], g_next_last_veh_order := 2, last_error := 0\<rparr>"
    using 1 code free by (auto simp: add_vectored_exception_handler_def initial_veh_def)
  have "List.find (\<lambda>i. \<not> vh_used (g_vectored_handlers st1 ! i)) [0..<length (g_vectored_handlers st1)] = Some 1"
    by (rule find_upt_least) (simp_all add: st1 initial_veh_def free_slot_def)
  then have h2: "h2 \<noteq> 0" using 2 code by (auto simp: add_vectored_exception_handler_def)
  have r0: "veh_reachable small_views 0x500 initial_veh" by (rule veh_reachable.init)
  have r1: "veh_reachable small_views 0x500 st1" by (rule veh_reachable.add [OF r0 1])
  have "vectored_callbacks initial_veh = []"
    by (simp add: vectored_callbacks_def initial_veh_def free_slot_def)
  then show ?thesis
    using vectored_handlers_ordered [OF r0 _ 1] vectored_handlers_ordered [OF r1 _ 2] 1 2 h1 h2 by simp
qed

section \<open>How a dispatch ends\<close>

text \<open>Without C++ frames, an unwind ends the thread or enters code of the image.\<close>

definition safe_end :: "unwind_views \<Rightarrow> outcome \<Rightarrow> bool" where
  "safe_end vs out \<longleftrightarrow>
     (case out of Continued c r \<Rightarrow> \<not> (\<exists>e. r = Some e \<and> exc_flags e AND kExceptionNoncontinuable \<noteq> 0)
      | Entered c \<Rightarrow> valid_guest_code vs (rip c)
      | Terminated code e \<Rightarrow> True)"

definition no_cxx :: "guest_code \<Rightarrow> bool" where
  "no_cxx g \<longleftrightarrow> (\<forall>m d. \<not> is_supported_cxx g m d)"

lemma target_handler_ends:
  "no_cxx g \<Longrightarrow> target_handler g vs target before cursor frame st = Inl out \<Longrightarrow> safe_end vs out"
  by (auto simp: target_handler_def no_cxx_def safe_end_def Let_def split: if_splits prod.splits)

lemma pass_handler_ends: "pass_handler g vs target before frame st = Inl out \<Longrightarrow> safe_end vs out"
  by (auto simp: pass_handler_def safe_end_def split: if_splits prod.splits)

lemma enter_target_safe:
  "valid_guest_code vs target \<Longrightarrow> safe_end vs (enter_target g vs target_frame target ret False before st)"
  by (auto simp: enter_target_def safe_end_def invoke_consolidation_callback_def Let_def
      split: option.splits prod.splits if_splits)

lemma unwind_loop_safe:
  assumes "no_cxx g" "valid_guest_code vs target"
  shows "safe_end vs (unwind_loop n env g vs target_frame target ret cursor st)"
proof (induction n arbitrary: cursor st)
  case 0
  show ?case by (simp add: safe_end_def)
next
  case (Suc n)
  have no: "\<not> is_supported_cxx g m d" for m d using assms(1) by (simp add: no_cxx_def)
  show ?case
    using Suc.IH target_handler_ends [OF assms(1)] pass_handler_ends enter_target_safe [OF assms(2)]
    by (auto simp: Let_def no split: sum.splits prod.splits) (simp add: safe_end_def)
qed

lemma unhandled_safe: "safe_end vs (unhandled g vs code st)"
  by (auto simp: unhandled_def safe_end_def record_noncontinuable_def split: prod.splits option.splits)

lemma veh_loop_ends: "veh_loop g vs code hs st = Inl out \<Longrightarrow> safe_end vs out"
  by (induction hs arbitrary: st)
    (auto simp: safe_end_def record_noncontinuable_def split: prod.splits if_splits option.splits)

lemma search_loop_safe:
  assumes "no_cxx g"
  shows "safe_end vs (search_loop n env g vs code cursor st)"
proof (induction n arbitrary: cursor st)
  case 0
  show ?case by (simp add: unhandled_safe)
next
  case (Suc n)
  have ends: "safe_end vs (Terminated c e)" for c e by (simp add: safe_end_def)
  have continued: "safe_end vs (Continued (sh_context s) (sh_record s))" if "\<not> record_noncontinuable s" for s
    using that by (auto simp: safe_end_def record_noncontinuable_def)
  have unwound: "safe_end vs (unwind_from env g vs f tgt ret s)" if "valid_guest_code vs tgt" for f tgt ret s
    using unwind_loop_safe [OF assms that] by (simp add: unwind_from_def)
  show ?case
    using Suc.IH by (auto simp: ends continued unwound unhandled_safe split: sum.splits prod.splits)
qed


definition zero_guest :: guest_code where
  "zero_guest = \<lparr>call_vectored = (\<lambda>h st. (0, st)), call_language = (\<lambda>h e st. (1, st)),
     call_consolidation = (\<lambda>a st. (0, st)), unhandled_filter = 0, cxx_funclet_active = False,
     is_supported_cxx = (\<lambda>m d. False), is_fh4_cxx = (\<lambda>m d. False), cxx_handler4 = (\<lambda>e st. (1, st)),
     prepare_cleanup = (\<lambda>a b c d e. None), prepare_catch = (\<lambda>a b c. None)\<rparr>"

definition one_handler :: veh_state where
  "one_handler = initial_veh\<lparr>g_vectored_handlers :=
     [\<lparr>vh_used = True, vh_routine = 0x10010, vh_order = 1\<rparr>]\<rparr>"

lemma one_handler_dispatch:
  "dispatch_raised_exception env zero_guest small_views one_handler context 5 0 0 0 m =
     Continued context (Some (raised_record 5 0 context 0 []))"
  by (simp add: dispatch_raised_exception_def one_handler_def vectored_callbacks_def invoke_vectored_def zero_guest_def
      valid_guest_code_def image_range_def small_views_def kVectoredContinueExecution_def record_noncontinuable_def
      raised_record_def kCxxException_def)


end
