(* ===== verification/Module_Graph.thy ===== *)
theory Module_Graph
  imports Import_Resolver Dll_Overrides Unwinder
begin

text \<open>
  The graph of guest modules: \<open>src/loader/module_graph.cpp\<close> and its header. DLLs of the profile and of
  drive C are loaded, mapped and resolved on demand, attached in the order of their dependencies and
  detached when the last reference goes.

  Parameters (the record \<open>graph_env\<close>): the built-in modules, the files of the host, the kernel's
  answers to \<open>mmap\<close> and \<open>mprotect\<close>, the permissions that \<open>/proc/self/maps\<close> shows for an address, and
  what a function of the guest returns. Answers may change with time: the graph counts its system
  calls and its calls to the guest. The guest's functions are not modelled beyond their result: a
  \<open>DllMain\<close> that loads or frees libraries itself is outside the model. \<open>static_refs\<close> is a natural
  number here, a 32-bit counter in the code: fewer than \<open>2 ^ 32\<close> references are assumed. A path is
  the list of its components. Trace output is not modelled.
\<close>

section \<open>Data\<close>

type_synonym path = "string list"

datatype ModuleProvider = Profile | DriveC | Builtin

datatype LoadedState = Resolving | Ready | Attaching | Attached | Rejected | Unloaded

record LoadedModule =
  lm_name :: string
  lm_provider :: ModuleProvider
  lm_source :: path
  lm_info :: PeInfo
  lm_image :: MappedImage
  lm_state :: LoadedState
  lm_static_refs :: nat
  lm_dynamic_refs :: u32
  lm_process_attached :: bool
  lm_dependencies :: "nat list"

text \<open>\<open>None\<close> as an index is \<open>kNoModule\<close>. A \<open>LookupVisit\<close> has the fields of a query.\<close>

record GraphExportLookup =
  gl_lookup :: ExportLookup
  gl_provider :: ModuleProvider
  gl_module :: "nat option"
  gl_provider_name :: string

record DllMapping =
  dm_module :: string
  dm_source :: path

text \<open>Calls of functions of the guest: the address, the module's memory and the reason.\<close>

datatype guest_call = TlsCallback u64 u64 u32 | DllMain u64 u64 u32

record host_files =
  is_regular_file :: "path \<Rightarrow> bool"
  is_symlink :: "path \<Rightarrow> bool"
  directory_entries :: "path \<Rightarrow> string list option"
  file_contents :: "path \<Rightarrow> bytes option"

record graph_env =
  ge_registry :: registry
  ge_page :: nat
  ge_os :: "nat \<Rightarrow> Os"
  ge_maps :: "nat \<Rightarrow> u64 \<Rightarrow> string option"
  ge_guest :: "nat \<Rightarrow> guest_call \<Rightarrow> int"
  ge_files :: host_files
  ge_prefix_root :: path
  ge_profile :: "DllMapping list option"

text \<open>The members of the class, the unwind views of the thread, the guest calls made and the clock.\<close>

record graph =
  gg_modules :: "LoadedModule list"
  gg_rejected_profile_modules :: "string list"
  gg_builtin_modules :: "string list"
  gg_builtin_handles :: "u64 list"
  gg_builtin_refcounts :: "u32 list"
  gg_main_path :: path
  gg_main_image :: "MappedImage option"
  gg_main_info :: "PeInfo option"
  gg_views :: unwind_views
  gg_calls :: "guest_call list"
  gg_clock :: nat

definition kMaxPeFileSize :: nat where "kMaxPeFileSize = 512 * 1024 * 1024"
definition kMaxLoadedPeModules :: nat where "kMaxLoadedPeModules = 256"
definition kMaxMappedImageBytes :: nat where "kMaxMappedImageBytes = 2 * 1024 * 1024 * 1024"
definition kGraphForwarderDepth :: nat where "kGraphForwarderDepth = 32"
definition kBuiltinHandleBase :: u64 where "kBuiltinHandleBase = 0x0000200000000000"

definition empty_graph :: "path \<Rightarrow> graph" where
  "empty_graph path =
     \<lparr>gg_modules = [], gg_rejected_profile_modules = [], gg_builtin_modules = [], gg_builtin_handles = [],
      gg_builtin_refcounts = [], gg_main_path = path, gg_main_image = None, gg_main_info = None,
      gg_views = initial_views, gg_calls = [], gg_clock = 0\<rparr>"

fun provider_name :: "ModuleProvider \<Rightarrow> string" where
  "provider_name Profile = ''profile''"
| "provider_name DriveC = ''drive_c''"
| "provider_name Builtin = ''builtin''"

definition upd_module :: "nat \<Rightarrow> (LoadedModule \<Rightarrow> LoadedModule) \<Rightarrow> graph \<Rightarrow> graph" where
  "upd_module i f g = g\<lparr>gg_modules := (gg_modules g)[i := f (gg_modules g ! i)]\<rparr>"

definition tick :: "graph \<Rightarrow> graph" where
  "tick g = g\<lparr>gg_clock := Suc (gg_clock g)\<rparr>"

section \<open>Names, files and addresses\<close>

text \<open>\<open>std::isspace\<close> of the C locale.\<close>

definition is_space :: "char \<Rightarrow> bool" where
  "is_space c \<longleftrightarrow> 9 \<le> (of_char c :: nat) \<and> (of_char c :: nat) \<le> 13 \<or> (of_char c :: nat) = 32"

definition normalize_module_name :: "string \<Rightarrow> string" where
  "normalize_module_name value =
     (let trimmed = rev (dropWhile is_space (rev (dropWhile is_space value)));
          name = rev (takeWhile (\<lambda>c. c \<noteq> CHR ''/'' \<and> c \<noteq> CHR 0x5C \<and> c \<noteq> CHR '':'') (rev trimmed));
          result = map (\<lambda>c. char_of (tolower c)) name
      in if name = [] then [] else if ends_with result ''.dll'' then result else result @ ''.dll'')"

definition read_file :: "graph_env \<Rightarrow> path \<Rightarrow> bytes option" where
  "read_file env path =
     (case file_contents (ge_files env) path of
        None \<Rightarrow> None
      | Some bs \<Rightarrow> if kMaxPeFileSize < length bs then None else Some bs)"

definition find_regular_file_case_insensitive :: "graph_env \<Rightarrow> path \<Rightarrow> path option" where
  "find_regular_file_case_insensitive env requested =
     (let fs = ge_files env; parent = butlast requested in
      if is_regular_file fs requested \<and> \<not> is_symlink fs requested then Some requested
      else if parent = [] then None
      else (case directory_entries fs parent of
          None \<Rightarrow> None
        | Some names \<Rightarrow>
            map_option (\<lambda>n. parent @ [n])
              (find (\<lambda>n. ascii_iequals n (last requested) \<and> is_regular_file fs (parent @ [n]) \<and>
                         \<not> is_symlink fs (parent @ [n])) names)))"

definition relocate_va :: "u64 \<Rightarrow> PeInfo \<Rightarrow> MappedImage \<Rightarrow> u64" where
  "relocate_va value info img =
     (if value = 0 \<or> value < image_base info \<or> size_of_image info \<le> value - image_base info then value
      else let rva = value - image_base info in
        if image_size img \<le> rva \<or> u64_max - rva < base img then value else base img + rva)"

text \<open>The pointer \<open>image.memory\<close>.\<close>

definition image_handle :: "MappedImage \<Rightarrow> u64" where
  "image_handle img = (if memory img = None then 0 else base img)"

definition graph_same_visit :: "ForwarderQuery list \<Rightarrow> ForwarderQuery \<Rightarrow> bool" where
  "graph_same_visit visits q =
     list_ex (\<lambda>v. if q_by_ordinal v \<noteq> q_by_ordinal q \<or> \<not> ascii_iequals (q_dll v) (q_dll q) then False
                  else if q_by_ordinal q then q_ordinal v = q_ordinal q else q_symbol v = q_symbol q) visits"

definition graph_parse_forwarder :: "string \<Rightarrow> ForwarderQuery option" where
  "graph_parse_forwarder value =
     (case rfind_dot value of
        None \<Rightarrow> None
      | Some separator \<Rightarrow>
          if separator = 0 \<or> length value \<le> separator + 1 then None
          else let dll = normalize_module_name (take separator value); target = drop (separator + 1) value in
            if dll = [] then None
            else if hd target \<noteq> CHR ''#''
            then Some \<lparr>q_dll = dll, q_by_ordinal = False, q_symbol = target, q_ordinal = 0\<rparr>
            else if length target = 1 then None
            else (case parse_ordinal_digits (tl target) 0 of
                None \<Rightarrow> None
              | Some v \<Rightarrow>
                  if v = 0 then None
                  else Some \<lparr>q_dll = dll, q_by_ordinal = True, q_symbol = [], q_ordinal = to_u16 v\<rparr>))"

text \<open>The four overloads of \<open>direct_export\<close>: by name or ordinal, of a module or of the main image.\<close>

definition direct_export :: "PeInfo \<Rightarrow> MappedImage \<Rightarrow> ForwarderQuery \<Rightarrow> ExportLookup" where
  "direct_export info img q =
     (case find (\<lambda>e. if q_by_ordinal q then exp_ordinal e = q_ordinal q
                     else exp_by_name e \<and> exp_name e = q_symbol q) (exports info) of
        None \<Rightarrow> no_lookup
      | Some e \<Rightarrow>
          \<lparr>found = True, lk_ordinal = exp_ordinal e,
           lk_address = (if exp_forwarder e = [] \<and> exp_rva e < image_size img then base img + exp_rva e else 0),
           lk_support = Full, lk_detail = NoDetail, lk_forwarder = exp_forwarder e\<rparr>)"

section \<open>Calls of the guest\<close>

definition call_guest :: "graph_env \<Rightarrow> guest_call \<Rightarrow> graph \<Rightarrow> int \<times> graph" where
  "call_guest env c g = (ge_guest env (gg_clock g) c, tick (g\<lparr>gg_calls := gg_calls g @ [c]\<rparr>))"

text \<open>\<open>ge_maps\<close> gives the permissions of the line of \<open>/proc/self/maps\<close> that holds an address.\<close>

definition is_guest_executable :: "graph_env \<Rightarrow> graph \<Rightarrow> MappedImage \<Rightarrow> u64 \<Rightarrow> bool" where
  "is_guest_executable env g img address =
     (if address = 0 \<or> memory img = None \<or> image_size img = 0 \<or> address < base img \<or>
         image_size img \<le> address - base img
      then False
      else (case ge_maps env (gg_clock g) address of
          None \<Rightarrow> False
        | Some perms \<Rightarrow> 2 < length perms \<and> perms ! 2 = CHR ''x''))"

definition is_guest_executable_address :: "graph_env \<Rightarrow> graph \<Rightarrow> u64 \<Rightarrow> bool" where
  "is_guest_executable_address env g address \<longleftrightarrow>
     (case gg_main_image g of None \<Rightarrow> False | Some img \<Rightarrow> is_guest_executable env g img address) \<or>
     list_ex (\<lambda>m. lm_state m \<noteq> Rejected \<and> lm_state m \<noteq> Unloaded \<and> is_guest_executable env g (lm_image m) address)
       (gg_modules g)"

text \<open>The callbacks of a module that are executable, in the order given.\<close>

fun tls_callbacks_of :: "graph_env \<Rightarrow> LoadedModule \<Rightarrow> u32 \<Rightarrow> u64 list \<Rightarrow> graph \<Rightarrow> graph" where
  "tls_callbacks_of env m reason [] g = g"
| "tls_callbacks_of env m reason (cb # callbacks) g =
     (let address = relocate_va cb (lm_info m) (lm_image m) in
      tls_callbacks_of env m reason callbacks
        (if is_guest_executable env g (lm_image m) address
         then snd (call_guest env (TlsCallback address (image_handle (lm_image m)) reason) g) else g))"

text \<open>On attach, a callback that is not executable ends the loop.\<close>

fun attach_callbacks :: "graph_env \<Rightarrow> LoadedModule \<Rightarrow> u64 list \<Rightarrow> graph \<Rightarrow> bool \<times> graph" where
  "attach_callbacks env m [] g = (True, g)"
| "attach_callbacks env m (cb # callbacks) g =
     (let address = relocate_va cb (lm_info m) (lm_image m) in
      if \<not> is_guest_executable env g (lm_image m) address then (False, g)
      else attach_callbacks env m callbacks
             (snd (call_guest env (TlsCallback address (image_handle (lm_image m)) 1) g)))"

section \<open>Detaching\<close>

definition detach_calls :: "graph_env \<Rightarrow> LoadedModule \<Rightarrow> graph \<Rightarrow> graph" where
  "detach_calls env m g =
     (let address = base (lm_image m) + address_of_entry_point (lm_info m);
          g1 = (if address_of_entry_point (lm_info m) \<noteq> 0 \<and> is_guest_executable env g (lm_image m) address
                then snd (call_guest env (DllMain address (image_handle (lm_image m)) 0) g) else g)
      in tls_callbacks_of env m 0 (rev (callback_vas (tls_info (lm_info m)))) g1)"

definition unload_module :: "nat \<Rightarrow> graph \<Rightarrow> graph" where
  "unload_module i g =
     (let handle = image_handle (lm_image (gg_modules g ! i));
          g1 = upd_module i (\<lambda>m. m\<lparr>lm_process_attached := False, lm_state := Unloaded,
                                   lm_image := unmap_image (lm_image m)\<rparr>) g
      in g1\<lparr>gg_views := remove_guest_module_unwind_image handle (gg_views g1)\<rparr>)"

text \<open>\<open>release_dependency\<close>, given \<open>detach_module\<close>.\<close>

definition release_with :: "(nat \<Rightarrow> graph \<Rightarrow> graph) \<Rightarrow> nat \<Rightarrow> graph \<Rightarrow> graph" where
  "release_with detach i g =
     (if length (gg_modules g) \<le> i then g
      else
        let g1 = upd_module i (\<lambda>m. m\<lparr>lm_static_refs := lm_static_refs m - 1\<rparr>) g; m = gg_modules g1 ! i in
        if lm_static_refs m = 0 \<and> lm_dynamic_refs m = 0 \<and> lm_state m = Attached then detach i g1 else g1)"

text \<open>\<open>detach_module\<close>; the first argument bounds the depth of the recursion.\<close>

primrec detach_go :: "nat \<Rightarrow> graph_env \<Rightarrow> nat \<Rightarrow> graph \<Rightarrow> graph" where
  "detach_go 0 env i g = g"
| "detach_go (Suc n) env i g =
     (if length (gg_modules g) \<le> i then g
      else let m = gg_modules g ! i in
        if lm_state m \<noteq> Attached then g
        else fold (release_with (detach_go n env)) (lm_dependencies m)
               (unload_module i (detach_calls env m g)))"

text \<open>Every nested call finds one module less attached.\<close>

definition detach_module :: "graph_env \<Rightarrow> nat \<Rightarrow> graph \<Rightarrow> graph" where
  "detach_module env i g = detach_go (Suc (length (gg_modules g))) env i g"

definition release_dependency :: "graph_env \<Rightarrow> nat \<Rightarrow> graph \<Rightarrow> graph" where
  "release_dependency env = release_with (detach_module env)"

definition reject_loaded_module :: "graph_env \<Rightarrow> nat \<Rightarrow> graph \<Rightarrow> graph" where
  "reject_loaded_module env i g =
     (if length (gg_modules g) \<le> i then g
      else
        let g1 = fold (release_dependency env) (lm_dependencies (gg_modules g ! i)) g;
            img = lm_image (gg_modules g1 ! i);
            g2 = upd_module i (\<lambda>m. m\<lparr>lm_dependencies := [], lm_process_attached := False, lm_state := Rejected,
                   lm_image := (if memory img \<noteq> None then unmap_image img else img)\<rparr>) g1
        in if memory img \<noteq> None
           then g2\<lparr>gg_views := remove_guest_module_unwind_image (image_handle img) (gg_views g2)\<rparr> else g2)"

definition reject_profile_module :: "string \<Rightarrow> graph \<Rightarrow> graph" where
  "reject_profile_module name g =
     (if list_ex (\<lambda>item. ascii_iequals item name) (gg_rejected_profile_modules g) then g
      else g\<lparr>gg_rejected_profile_modules := gg_rejected_profile_modules g @ [name]\<rparr>)"

section \<open>Finding modules\<close>

definition loaded_state :: "LoadedModule \<Rightarrow> bool" where
  "loaded_state m \<longleftrightarrow> lm_state m \<noteq> Rejected \<and> lm_state m \<noteq> Unloaded"

definition find_index :: "(LoadedModule \<Rightarrow> bool) \<Rightarrow> graph \<Rightarrow> nat option" where
  "find_index P g = find (\<lambda>i. P (gg_modules g ! i)) [0..<length (gg_modules g)]"

definition find_loaded :: "string \<Rightarrow> ModuleProvider \<Rightarrow> graph \<Rightarrow> nat option" where
  "find_loaded name prov g =
     find_index (\<lambda>m. lm_provider m = prov \<and> loaded_state m \<and> ascii_iequals (lm_name m) name) g"

definition find_module_for_handle :: "u64 \<Rightarrow> graph \<Rightarrow> nat option" where
  "find_module_for_handle handle g =
     (if handle = 0 then None
      else find_index (\<lambda>m. base (lm_image m) = handle \<and> memory (lm_image m) \<noteq> None \<and> loaded_state m) g)"

text \<open>\<open>prefix::get_environment_paths\<close>: the directories searched.\<close>

definition drive_c :: "graph_env \<Rightarrow> path" where
  "drive_c env = ge_prefix_root env @ [''drive_c'']"

definition windows_dir :: "graph_env \<Rightarrow> path" where
  "windows_dir env = drive_c env @ [''windows'']"

definition system32_dir :: "graph_env \<Rightarrow> path" where
  "system32_dir env = windows_dir env @ [''system32'']"

definition compat_dlls_dir :: "graph_env \<Rightarrow> path" where
  "compat_dlls_dir env = ge_prefix_root env @ [''compat'', ''dlls'']"

text \<open>\<open>operator/\<close>: an absolute path replaces the directory.\<close>

definition path_append :: "path \<Rightarrow> path \<Rightarrow> path" where
  "path_append dir p = (if p \<noteq> [] \<and> hd p = ''/'' then p else dir @ p)"

text \<open>A loader: name, provider, source; the index of the module, if it could be loaded.\<close>

type_synonym loader = "string \<Rightarrow> ModuleProvider \<Rightarrow> path \<Rightarrow> graph \<Rightarrow> nat option \<times> graph"

definition ensure_profile_module :: "loader \<Rightarrow> graph_env \<Rightarrow> string \<Rightarrow> graph \<Rightarrow> nat option \<times> graph" where
  "ensure_profile_module ld env name g =
     (case ge_profile env of
        None \<Rightarrow> (None, g)
      | Some dlls \<Rightarrow>
          if list_ex (\<lambda>item. ascii_iequals item name) (gg_rejected_profile_modules g) then (None, g)
          else (case find (\<lambda>d. ascii_iequals (dm_module d) name) dlls of
              None \<Rightarrow> (None, g)
            | Some mapping \<Rightarrow>
                (case find_loaded name Profile g of
                   Some i \<Rightarrow> (if lm_state (gg_modules g ! i) = Resolving then None else Some i, g)
                 | None \<Rightarrow>
                     let source = path_append (compat_dlls_dir env) (dm_source mapping) in
                     if is_symlink (ge_files env) source then (None, g)
                     else ld name Profile source g)))"

definition drive_candidates :: "graph_env \<Rightarrow> path \<Rightarrow> string \<Rightarrow> path list" where
  "drive_candidates env requester name =
     (if requester \<noteq> [] \<and> butlast requester \<noteq> [] then [butlast requester @ [name]] else []) @
     [system32_dir env @ [name], windows_dir env @ [name], drive_c env @ [name]]"

fun first_file :: "graph_env \<Rightarrow> path list \<Rightarrow> path option" where
  "first_file env [] = None"
| "first_file env (c # cs) =
     (case find_regular_file_case_insensitive env c of Some p \<Rightarrow> Some p | None \<Rightarrow> first_file env cs)"

definition ensure_drive_module ::
    "loader \<Rightarrow> graph_env \<Rightarrow> string \<Rightarrow> path \<Rightarrow> graph \<Rightarrow> nat option \<times> graph" where
  "ensure_drive_module ld env name requester g =
     (case first_file env (drive_candidates env requester name) of
        None \<Rightarrow> (None, g)
      | Some found_path \<Rightarrow>
          (case find_loaded name DriveC g of
             Some i \<Rightarrow> (if lm_state (gg_modules g ! i) = Resolving then None else Some i, g)
           | None \<Rightarrow> ld name DriveC found_path g))"

section \<open>Resolving exports\<close>

definition missing :: "lookup_detail \<Rightarrow> GraphExportLookup" where
  "missing d = \<lparr>gl_lookup = no_lookup\<lparr>lk_detail := d\<rparr>, gl_provider = Builtin, gl_module = Some 0, gl_provider_name = []\<rparr>"

text \<open>A module of the guest answers, follows its forwarder or leaves the query to the next provider.\<close>

definition try_guest ::
    "(ForwarderQuery \<Rightarrow> graph \<Rightarrow> GraphExportLookup \<times> graph) \<Rightarrow> nat option \<Rightarrow> ModuleProvider \<Rightarrow> ForwarderQuery \<Rightarrow> graph \<Rightarrow>
     GraphExportLookup option \<times> graph" where
  "try_guest follow index prov q g =
     (case index of
        None \<Rightarrow> (None, g)
      | Some i \<Rightarrow>
          let m = gg_modules g ! i; direct = direct_export (lm_info m) (lm_image m) q;
              result = \<lparr>gl_lookup = direct, gl_provider = prov, gl_module = Some i, gl_provider_name = provider_name prov\<rparr>
          in
          if \<not> found direct then (None, g)
          else if lk_forwarder direct = [] then (Some result, g)
          else (case graph_parse_forwarder (lk_forwarder direct) of
              None \<Rightarrow> (Some (result\<lparr>gl_lookup := no_lookup\<lparr>lk_detail := InvalidGuestForwarder\<rparr>\<rparr>), g)
            | Some target \<Rightarrow>
                (case follow target g of (forwarded, g') \<Rightarrow>
                  (Some (if \<not> found (gl_lookup forwarded) then forwarded
                         else forwarded\<lparr>gl_provider := prov, gl_module := Some i, gl_provider_name := provider_name prov\<rparr>),
                   g'))))"

text \<open>The answer of the built-in modules, the last provider.\<close>

definition builtin_answer :: "graph_env \<Rightarrow> ForwarderQuery \<Rightarrow> GraphExportLookup" where
  "builtin_answer env q =
     (let reg = ge_registry env;
          builtin = (if q_by_ordinal q then find_export_by_ordinal_forwarded reg (q_dll q) (q_ordinal q)
                     else find_export_forwarded reg (q_dll q) (q_symbol q))
      in if found builtin
         then \<lparr>gl_lookup = builtin, gl_provider = Builtin, gl_module = None, gl_provider_name = ''builtin''\<rparr>
         else if is_module_registered_forwarded reg (q_dll q)
         then (missing (if q_by_ordinal q then OrdinalNotExported else SymbolNotExported))
                \<lparr>gl_provider_name := provider_name Builtin\<rparr>
         else missing (lk_detail builtin))"

text \<open>
  \<open>resolve_export_named_internal\<close> and \<open>resolve_export_ordinal_internal\<close>, which differ in the lookups and
  one text. The first argument is the depth left, \<open>kMaxForwarderDepth\<close> minus \<open>depth\<close>.
\<close>

primrec resolve_export_internal ::
    "nat \<Rightarrow> loader \<Rightarrow> graph_env \<Rightarrow> path \<Rightarrow> ForwarderQuery list \<Rightarrow> ForwarderQuery \<Rightarrow> graph \<Rightarrow> GraphExportLookup \<times> graph" where
  "resolve_export_internal 0 ld env requester visits q g =
     (missing (if normalize_module_name (q_dll q) = [] then InvalidModuleName else ForwarderCycle), g)"
| "resolve_export_internal (Suc left) ld env requester visits q g =
     (let q' = q\<lparr>q_dll := normalize_module_name (q_dll q)\<rparr>;
          follow = resolve_export_internal left ld env requester (visits @ [q'])
      in
      if q_dll q' = [] then (missing InvalidModuleName, g)
      else if graph_same_visit visits q' then (missing ForwarderCycle, g)
      else (case ensure_profile_module ld env (q_dll q') g of (profile, g1) \<Rightarrow>
        (case try_guest follow profile Profile q' g1 of
           (Some result, g2) \<Rightarrow> (result, g2)
         | (None, g2) \<Rightarrow>
             (case ensure_drive_module ld env (q_dll q') requester g2 of (drive, g3) \<Rightarrow>
               (case try_guest follow drive DriveC q' g3 of
                  (Some result, g4) \<Rightarrow> (result, g4)
                | (None, g4) \<Rightarrow> (builtin_answer env q', g4))))))"

definition resolve_export_with ::
    "loader \<Rightarrow> graph_env \<Rightarrow> path \<Rightarrow> ForwarderQuery \<Rightarrow> graph \<Rightarrow> GraphExportLookup \<times> graph" where
  "resolve_export_with ld env requester q g =
     resolve_export_internal kGraphForwarderDepth ld env requester [] q g"

section \<open>Resolving the imports of a module\<close>

text \<open>The importing module is an index or \<open>None\<close> for the main image.\<close>

definition owner_image :: "nat option \<Rightarrow> graph \<Rightarrow> MappedImage option" where
  "owner_image owner g = (case owner of None \<Rightarrow> gg_main_image g | Some i \<Rightarrow> Some (lm_image (gg_modules g ! i)))"

definition set_owner_image :: "nat option \<Rightarrow> MappedImage \<Rightarrow> graph \<Rightarrow> graph" where
  "set_owner_image owner img g =
     (case owner of None \<Rightarrow> g\<lparr>gg_main_image := Some img\<rparr> | Some i \<Rightarrow> upd_module i (\<lambda>m. m\<lparr>lm_image := img\<rparr>) g)"

definition patch_import ::
    "graph_env \<Rightarrow> nat option \<Rightarrow> ResolvedImport \<Rightarrow> graph \<Rightarrow> bool \<times> ResolvedImport \<times> graph" where
  "patch_import env owner entry g =
     (if ri_iat_rva entry = 0
      then (False, entry\<lparr>ri_status := UnsupportedImport, ri_detail := NullSlot\<rparr>, g)
      else (case owner_image owner g of
          None \<Rightarrow> (False, entry\<lparr>ri_status := UnsupportedImport, ri_detail := SlotNotFilled\<rparr>, g)
        | Some img \<Rightarrow>
            (case write_image_bytes (ge_os env (gg_clock g)) (ge_page env) img (ri_iat_rva entry)
                    (Some (address_le (ri_address entry))) of
               (patch, img') \<Rightarrow>
                 let g' = tick (set_owner_image owner img' g) in
                 if patch \<noteq> PatchSuccess
                 then (False, entry\<lparr>ri_status := UnsupportedImport, ri_detail := SlotNotFilled\<rparr>, g')
                 else (True, entry, g'))))"

text \<open>The reference of an importing module to the module that answered.\<close>

definition add_reference :: "nat option \<Rightarrow> nat option \<Rightarrow> graph \<Rightarrow> graph" where
  "add_reference owner target g =
     (case target of
        None \<Rightarrow> g
      | Some t \<Rightarrow>
          if owner = Some t then g
          else
            let count = upd_module t (\<lambda>m. m\<lparr>lm_static_refs := lm_static_refs m + 1\<rparr>) in
            (case owner of
               None \<Rightarrow> count g
             | Some i \<Rightarrow>
                 if t \<in> set (lm_dependencies (gg_modules g ! i)) then g
                 else count (upd_module i (\<lambda>m. m\<lparr>lm_dependencies := lm_dependencies m @ [t]\<rparr>) g)))"

definition missing_status :: "ImportedSymbol \<Rightarrow> GraphExportLookup \<Rightarrow> ImportStatus" where
  "missing_status s l =
     (if lk_detail (gl_lookup l) = NoDetail \<and> gl_provider_name l = [] then UnknownDll
      else if imp_by_ordinal s then UnknownOrdinal else UnknownSymbol)"

definition missing_reason :: "GraphExportLookup \<Rightarrow> import_reason" where
  "missing_reason l =
     (if lk_detail (gl_lookup l) \<noteq> NoDetail then LookupReason (lk_detail (gl_lookup l))
      else if gl_provider_name l = [] then ModuleNotRegistered else NotExported)"

definition graph_query :: "string \<Rightarrow> ImportedSymbol \<Rightarrow> ForwarderQuery" where
  "graph_query dll s =
     \<lparr>q_dll = dll, q_by_ordinal = imp_by_ordinal s, q_symbol = (if imp_by_ordinal s then [] else imp_name s),
      q_ordinal = (if imp_by_ordinal s then imp_ordinal s else 0)\<rparr>"

definition resolve_import ::
    "loader \<Rightarrow> graph_env \<Rightarrow> path \<Rightarrow> nat option \<Rightarrow> mechanism \<times> string \<times> ImportedSymbol \<Rightarrow>
     ResolveResult \<times> graph \<Rightarrow> ResolveResult \<times> graph" where
  "resolve_import ld env requester owner imp st =
     (case (imp, st) of ((mech, dll, s), (result, g)) \<Rightarrow>
        case resolve_export_with ld env requester (graph_query dll s) g of (l, g1) \<Rightarrow>
          let entry = new_entry mech dll s; lookup = gl_lookup l in
          if \<not> found lookup
          then (push_import (fail_import result entry (missing_status s l) (missing_reason l)), g1)
          else
            let entry = entry\<lparr>ri_ordinal := lk_ordinal lookup, ri_address := lk_address lookup,
                          ri_support := lk_support lookup, ri_provider := gl_provider_name l\<rparr> in
            if lk_address lookup = 0
            then (push_import (fail_import result entry NotImpl KnownWithoutImplementation), g1)
            else (case patch_import env owner entry g1 of
                (False, entry', g2) \<Rightarrow>
                  (push_import (fail_import result entry' (ri_status entry') (ri_detail entry')), g2)
              | (True, entry', g2) \<Rightarrow> (push_import (result, entry'), add_reference owner (gl_module l) g2)))"

text \<open>The imports of a file in the order of the loops, static before delayed.\<close>

definition all_imports :: "PeInfo \<Rightarrow> (mechanism \<times> string \<times> ImportedSymbol) list" where
  "all_imports info =
     concat (map (\<lambda>d. map (\<lambda>s. (Static, dll_name d, s)) (symbols d)) (imports' info)) @
     concat (map (\<lambda>d. map (\<lambda>s. (Delay, dll_name d, s)) (symbols d)) (delay_imports info))"

definition resolve_imports_for_module ::
    "loader \<Rightarrow> graph_env \<Rightarrow> PeInfo \<Rightarrow> path \<Rightarrow> nat option \<Rightarrow> graph \<Rightarrow> ResolveResult \<times> graph" where
  "resolve_imports_for_module ld env info requester owner g =
     fold (resolve_import ld env requester owner) (all_imports info) (empty_result, g)"

section \<open>Loading\<close>

text \<open>The bytes of the images mapped so far; \<open>None\<close> when they exceed the limit.\<close>

fun mapped_image_bytes :: "LoadedModule list \<Rightarrow> nat \<Rightarrow> nat option" where
  "mapped_image_bytes [] used = Some used"
| "mapped_image_bytes (m # ms) used =
     (if memory (lm_image m) = None then mapped_image_bytes ms used
      else if kMaxMappedImageBytes - used < image_size (lm_image m) then None
      else mapped_image_bytes ms (used + image_size (lm_image m)))"

definition parsed_dll :: "bytes \<Rightarrow> PeInfo option" where
  "parsed_dll bs =
     (case parse_pe bs of
        Inl e \<Rightarrow> None
      | Inr (info, ws) \<Rightarrow> if is_dll info \<and> is_pe32_plus info \<and> machine info = 0x8664 then Some info else None)"

text \<open>Room for the module in the graph, before it is mapped.\<close>

definition graph_has_room :: "PeInfo \<Rightarrow> graph \<Rightarrow> bool" where
  "graph_has_room info g \<longleftrightarrow>
     length (gg_modules g) < kMaxLoadedPeModules \<and>
     (case mapped_image_bytes (gg_modules g) 0 of
        None \<Rightarrow> False
      | Some used \<Rightarrow> size_of_image info \<le> kMaxMappedImageBytes - used)"

definition push_module :: "string \<Rightarrow> ModuleProvider \<Rightarrow> path \<Rightarrow> PeInfo \<Rightarrow> MappedImage \<Rightarrow> graph \<Rightarrow> graph" where
  "push_module name prov source info img g =
     g\<lparr>gg_modules := gg_modules g @
        [\<lparr>lm_name = name, lm_provider = prov, lm_source = source, lm_info = info, lm_image = img,
          lm_state = Resolving, lm_static_refs = 0, lm_dynamic_refs = 0, lm_process_attached = False,
          lm_dependencies = []\<rparr>]\<rparr>"

text \<open>
  A module whose imports fail goes, with all modules loaded after it; its references to earlier
  modules are given back.
\<close>

definition drop_modules :: "graph_env \<Rightarrow> nat \<Rightarrow> graph \<Rightarrow> graph" where
  "drop_modules env index g =
     (let g1 = fold (release_dependency env)
                 (filter (\<lambda>d. d < index) (lm_dependencies (gg_modules g ! index))) g;
          rejected = gg_modules g ! index;
          g2 = g1\<lparr>gg_modules := take index (gg_modules g1)\<rparr>
      in if lm_provider rejected = Profile then reject_profile_module (lm_name rejected) g2 else g2)"

text \<open>
  \<open>load_pe_module\<close>, given \<open>load_pe_module\<close> for the imports. The first argument of \<open>load_go\<close> bounds the
  number of loads inside each other.
\<close>

definition load_step :: "loader \<Rightarrow> graph_env \<Rightarrow> loader" where
  "load_step ld env name prov source g =
     (case find_loaded name prov g of
        Some i \<Rightarrow> (Some i, g)
      | None \<Rightarrow>
          (case read_file env source of
             None \<Rightarrow> (None, g)
           | Some bs \<Rightarrow>
               (case parsed_dll bs of
                  None \<Rightarrow> (None, g)
                | Some info \<Rightarrow>
                    if \<not> graph_has_room info g then (None, g)
                    else (case map_image (ge_os env (gg_clock g)) (ge_page env) info bs 0 of
                        Inl e \<Rightarrow> (None, tick g)
                      | Inr img \<Rightarrow>
                          let index = length (gg_modules g);
                              g1 = push_module name prov source info img (tick g)
                          in
                          case resolve_imports_for_module ld env info source (Some index) g1 of
                            (result, g2) \<Rightarrow>
                              if rr_status result \<noteq> Resolved then (None, drop_modules env index g2)
                              else (Some index, upd_module index (\<lambda>m. m\<lparr>lm_state := Ready\<rparr>) g2)))))"

primrec load_go :: "nat \<Rightarrow> graph_env \<Rightarrow> loader" where
  "load_go 0 env = (\<lambda>name prov source g. (None, g))"
| "load_go (Suc n) env = load_step (load_go n env) env"

definition load_pe_module :: "graph_env \<Rightarrow> loader" where
  "load_pe_module env = load_go (Suc kMaxLoadedPeModules) env"

definition resolve_export :: "graph_env \<Rightarrow> path \<Rightarrow> ForwarderQuery \<Rightarrow> graph \<Rightarrow> GraphExportLookup \<times> graph" where
  "resolve_export env = resolve_export_with (load_pe_module env) env"

definition bind_main_image :: "MappedImage \<Rightarrow> PeInfo \<Rightarrow> path \<Rightarrow> graph \<Rightarrow> graph" where
  "bind_main_image img info requester g =
     g\<lparr>gg_main_image := Some img, gg_main_info := Some info, gg_main_path := requester\<rparr>"

definition graph_resolve_imports ::
    "graph_env \<Rightarrow> MappedImage \<Rightarrow> PeInfo \<Rightarrow> path \<Rightarrow> graph \<Rightarrow> ResolveResult \<times> graph" where
  "graph_resolve_imports env img info requester g =
     resolve_imports_for_module (load_pe_module env) env info requester None (bind_main_image img info requester g)"

section \<open>Attaching\<close>

fun attach_dependencies :: "(nat \<Rightarrow> graph \<Rightarrow> bool \<times> graph) \<Rightarrow> nat list \<Rightarrow> graph \<Rightarrow> bool \<times> graph" where
  "attach_dependencies attach [] g = (True, g)"
| "attach_dependencies attach (d # ds) g =
     (case attach d g of
        (False, g') \<Rightarrow> (False, g')
      | (True, g') \<Rightarrow> attach_dependencies attach ds g')"

text \<open>The module takes part in unwinding once it is attached.\<close>

definition finish_attach :: "nat \<Rightarrow> graph \<Rightarrow> graph" where
  "finish_attach i g =
     (let g1 = upd_module i (\<lambda>m. m\<lparr>lm_process_attached := True, lm_state := Attached\<rparr>) g;
          m = gg_modules g ! i; info = lm_info m
      in if exception_directory_rva info \<noteq> 0 \<and> runtime_functions info \<noteq> []
         then g1\<lparr>gg_views := snd (add_guest_module_unwind_image (image_handle (lm_image m)) (image_size (lm_image m))
                (exception_directory_rva info) (runtime_functions info) (gg_views g1))\<rparr>
         else g1)"

text \<open>The calls of an attach; \<open>False\<close> when the module must be rejected.\<close>

definition attach_calls :: "graph_env \<Rightarrow> LoadedModule \<Rightarrow> graph \<Rightarrow> bool \<times> graph" where
  "attach_calls env m g =
     (case attach_callbacks env m (callback_vas (tls_info (lm_info m))) g of
        (False, g1) \<Rightarrow> (False, g1)
      | (True, g1) \<Rightarrow>
          if address_of_entry_point (lm_info m) = 0 then (True, g1)
          else
            let address = base (lm_image m) + address_of_entry_point (lm_info m) in
            if \<not> is_guest_executable env g1 (lm_image m) address then (False, g1)
            else (case call_guest env (DllMain address (image_handle (lm_image m)) 1) g1 of
                (result, g2) \<Rightarrow> (result \<noteq> 0, g2)))"

primrec attach_go :: "nat \<Rightarrow> graph_env \<Rightarrow> nat \<Rightarrow> graph \<Rightarrow> bool \<times> graph" where
  "attach_go 0 env i g = (False, g)"
| "attach_go (Suc n) env i g =
     (if length (gg_modules g) \<le> i then (False, g)
      else let m = gg_modules g ! i in
        if lm_state m = Attached then (True, g)
        else if lm_state m = Attaching \<or> lm_state m \<noteq> Ready then (False, g)
        else (case attach_dependencies (attach_go n env) (lm_dependencies m)
                     (upd_module i (\<lambda>m. m\<lparr>lm_state := Attaching\<rparr>) g) of
            (False, g1) \<Rightarrow> (False, reject_loaded_module env i g1)
          | (True, g1) \<Rightarrow>
              (case attach_calls env (gg_modules g1 ! i) g1 of
                 (False, g2) \<Rightarrow> (False, reject_loaded_module env i g2)
               | (True, g2) \<Rightarrow> (True, finish_attach i g2))))"

text \<open>Every nested call finds one module less ready.\<close>

definition attach_module :: "graph_env \<Rightarrow> nat \<Rightarrow> graph \<Rightarrow> bool \<times> graph" where
  "attach_module env i g = attach_go (Suc (length (gg_modules g))) env i g"

section \<open>The whole graph\<close>

definition process_detach :: "graph_env \<Rightarrow> graph \<Rightarrow> graph" where
  "process_detach env g = fold (detach_module env) [0..<length (gg_modules g)] g"

definition discard_loaded_modules :: "graph_env \<Rightarrow> graph \<Rightarrow> graph" where
  "discard_loaded_modules env g =
     (process_detach env g)\<lparr>gg_modules := [], gg_builtin_modules := [], gg_builtin_handles := [],
        gg_builtin_refcounts := []\<rparr>"

definition graph_reset :: "graph_env \<Rightarrow> graph \<Rightarrow> graph" where
  "graph_reset env g = (discard_loaded_modules env g)\<lparr>gg_main_image := None, gg_main_info := None\<rparr>"

text \<open>What became of one round over the modules: all attached, failed, or resolved again without the profile.\<close>

datatype round_result = AllAttached | AttachFailed | ResolvedAgain

text \<open>Without the modules of the profile, the imports of the main image are resolved again.\<close>

definition resolve_without_profile :: "graph_env \<Rightarrow> graph \<Rightarrow> round_result \<times> graph" where
  "resolve_without_profile env g =
     (let g1 = fold (\<lambda>m. reject_profile_module (lm_name m)) (filter (\<lambda>m. lm_provider m = Profile) (gg_modules g)) g;
          g2 = discard_loaded_modules env g1
      in case (gg_main_image g2, gg_main_info g2) of
           (Some img, Some info) \<Rightarrow>
             (case resolve_imports_for_module (load_pe_module env) env info (gg_main_path g2) None g2 of
                (result, g3) \<Rightarrow> (if rr_status result \<noteq> Resolved then AttachFailed else ResolvedAgain, g3))
         | _ \<Rightarrow> (AttachFailed, g2))"

fun attach_round :: "graph_env \<Rightarrow> nat list \<Rightarrow> graph \<Rightarrow> round_result \<times> graph" where
  "attach_round env [] g = (AllAttached, g)"
| "attach_round env (i # is) g =
     (let m = gg_modules g ! i in
      if lm_state m = Rejected \<or> lm_state m = Unloaded \<or> lm_static_refs m = 0 \<and> lm_dynamic_refs m = 0
      then attach_round env is g
      else (case attach_module env i g of
          (True, g') \<Rightarrow> attach_round env is g'
        | (False, g') \<Rightarrow>
            if lm_provider m \<noteq> Profile then (AttachFailed, g') else resolve_without_profile env g'))"

text \<open>Each further round has one module of the profile less; their number bounds the rounds.\<close>

primrec attach_rounds :: "nat \<Rightarrow> graph_env \<Rightarrow> graph \<Rightarrow> bool \<times> graph" where
  "attach_rounds 0 env g = (False, g)"
| "attach_rounds (Suc n) env g =
     (case attach_round env [0..<length (gg_modules g)] g of
        (AllAttached, g') \<Rightarrow> (True, g')
      | (AttachFailed, g') \<Rightarrow> (False, g')
      | (ResolvedAgain, g') \<Rightarrow> attach_rounds n env g')"

definition profile_size :: "graph_env \<Rightarrow> nat" where
  "profile_size env = (case ge_profile env of None \<Rightarrow> 0 | Some dlls \<Rightarrow> length dlls)"

definition process_attach :: "graph_env \<Rightarrow> graph \<Rightarrow> bool \<times> graph" where
  "process_attach env = attach_rounds (Suc (profile_size env)) env"

definition thread_calls :: "graph_env \<Rightarrow> u32 \<Rightarrow> (u64 list \<Rightarrow> u64 list) \<Rightarrow> nat \<Rightarrow> graph \<Rightarrow> graph" where
  "thread_calls env reason order i g =
     (let m = gg_modules g ! i in
      if lm_process_attached m then tls_callbacks_of env m reason (order (callback_vas (tls_info (lm_info m)))) g else g)"

definition thread_attach :: "graph_env \<Rightarrow> graph \<Rightarrow> graph" where
  "thread_attach env g = fold (thread_calls env 2 (\<lambda>callbacks. callbacks)) [0..<length (gg_modules g)] g"

definition thread_detach :: "graph_env \<Rightarrow> graph \<Rightarrow> graph" where
  "thread_detach env g = fold (thread_calls env 3 rev) (rev [0..<length (gg_modules g)]) g"

section \<open>Handles\<close>

definition find_string :: "string \<Rightarrow> string list \<Rightarrow> nat option" where
  "find_string name names = find (\<lambda>i. ascii_iequals (names ! i) name) [0..<length names]"

definition find_handle :: "u64 \<Rightarrow> graph \<Rightarrow> nat option" where
  "find_handle handle g =
     find (\<lambda>i. gg_builtin_handles g ! i = handle) [0..<length (gg_builtin_handles g)]"

text \<open>A new handle for a built-in module, with its first count.\<close>

definition push_builtin :: "string \<Rightarrow> u32 \<Rightarrow> graph \<Rightarrow> u64 \<times> graph" where
  "push_builtin name count g =
     (let handle = kBuiltinHandleBase + length (gg_builtin_handles g) * 0x1000 in
      (handle, g\<lparr>gg_builtin_modules := gg_builtin_modules g @ [name],
                 gg_builtin_handles := gg_builtin_handles g @ [handle],
                 gg_builtin_refcounts := gg_builtin_refcounts g @ [count]\<rparr>))"

definition load_builtin :: "graph_env \<Rightarrow> string \<Rightarrow> graph \<Rightarrow> u64 \<times> graph" where
  "load_builtin env name g =
     (if \<not> is_module_registered_forwarded (ge_registry env) name then (0, g)
      else (case find_string name (gg_builtin_modules g) of
          Some i \<Rightarrow>
            (gg_builtin_handles g ! i,
             g\<lparr>gg_builtin_refcounts := (gg_builtin_refcounts g)[i := to_u32 (gg_builtin_refcounts g ! i + 1)]\<rparr>)
        | None \<Rightarrow> push_builtin name 1 g))"

text \<open>A reference of the guest, and an attach; \<open>None\<close> when it fails and the reference is given back.\<close>

definition attach_loaded :: "graph_env \<Rightarrow> nat \<Rightarrow> graph \<Rightarrow> u64 option \<times> graph" where
  "attach_loaded env i g =
     (case attach_module env i (upd_module i (\<lambda>m. m\<lparr>lm_dynamic_refs := to_u32 (lm_dynamic_refs m + 1)\<rparr>) g) of
        (True, g') \<Rightarrow> (Some (base (lm_image (gg_modules g' ! i))), g')
      | (False, g') \<Rightarrow>
          (None, upd_module i (\<lambda>m. m\<lparr>lm_dynamic_refs := to_u32 (lm_dynamic_refs m + 2 ^ 32 - 1)\<rparr>) g'))"

text \<open>
  \<open>load_library\<close> starts again after a module of the profile that cannot be attached, which the profile
  then has no more; the first argument bounds the attempts.
\<close>

primrec load_library_go :: "nat \<Rightarrow> graph_env \<Rightarrow> string \<Rightarrow> graph \<Rightarrow> u64 \<times> graph" where
  "load_library_go 0 env raw_module g = (0, g)"
| "load_library_go (Suc n) env raw_module g =
     (let name = normalize_module_name raw_module in
      if name = [] then (0, g)
      else (case ensure_profile_module (load_pe_module env) env name g of
          (Some i, g1) \<Rightarrow>
            (case attach_loaded env i g1 of
               (Some handle, g2) \<Rightarrow> (handle, g2)
             | (None, g2) \<Rightarrow>
                 load_library_go n env name
                   (if lm_provider (gg_modules g2 ! i) = Profile
                    then reject_profile_module (lm_name (gg_modules g2 ! i)) g2 else g2))
        | (None, g1) \<Rightarrow>
            (case ensure_drive_module (load_pe_module env) env name (gg_main_path g1) g1 of
               (Some i, g2) \<Rightarrow>
                 (case attach_loaded env i g2 of
                    (Some handle, g3) \<Rightarrow> (handle, g3)
                  | (None, g3) \<Rightarrow> (0, g3))
             | (None, g2) \<Rightarrow> load_builtin env name g2)))"

definition load_library :: "graph_env \<Rightarrow> string \<Rightarrow> graph \<Rightarrow> u64 \<times> graph" where
  "load_library env = load_library_go (Suc (profile_size env)) env"

definition get_module_handle :: "graph_env \<Rightarrow> string \<Rightarrow> graph \<Rightarrow> u64 \<times> graph" where
  "get_module_handle env raw_module g =
     (let name = normalize_module_name raw_module in
      if name = [] then (0, g)
      else (case find_index (\<lambda>m. loaded_state m \<and> ascii_iequals (lm_name m) name \<and> base (lm_image m) \<noteq> 0) g of
          Some i \<Rightarrow> (base (lm_image (gg_modules g ! i)), g)
        | None \<Rightarrow>
            if \<not> is_module_registered_forwarded (ge_registry env) name then (0, g)
            else (case find_string name (gg_builtin_modules g) of
                Some i \<Rightarrow> (gg_builtin_handles g ! i, g)
              | None \<Rightarrow> push_builtin name 0 g)))"

definition module_handle_from_address :: "u64 \<Rightarrow> graph \<Rightarrow> u64" where
  "module_handle_from_address address g =
     (case find_index (\<lambda>m. loaded_state m \<and> memory (lm_image m) \<noteq> None \<and> base (lm_image m) \<le> address \<and>
                           address - base (lm_image m) < image_size (lm_image m)) g of
        Some i \<Rightarrow> base (lm_image (gg_modules g ! i))
      | None \<Rightarrow> 0)"

definition free_library :: "graph_env \<Rightarrow> u64 \<Rightarrow> graph \<Rightarrow> bool \<times> graph" where
  "free_library env handle g =
     (case find_module_for_handle handle g of
        Some i \<Rightarrow>
          if lm_dynamic_refs (gg_modules g ! i) = 0 then (False, g)
          else
            let g1 = upd_module i (\<lambda>m. m\<lparr>lm_dynamic_refs := lm_dynamic_refs m - 1\<rparr>) g; m = gg_modules g1 ! i in
            (True, if lm_dynamic_refs m = 0 \<and> lm_static_refs m = 0 then detach_module env i g1 else g1)
      | None \<Rightarrow>
          (case find_handle handle g of
             None \<Rightarrow> (False, g)
           | Some i \<Rightarrow>
               if gg_builtin_refcounts g ! i = 0 then (False, g)
               else (True, g\<lparr>gg_builtin_refcounts := (gg_builtin_refcounts g)[i := gg_builtin_refcounts g ! i - 1]\<rparr>)))"

definition no_export :: GraphExportLookup where
  "no_export = missing NoDetail"

text \<open>The part of \<open>get_proc_address\<close> for handles of modules.\<close>

definition module_proc_address :: "graph_env \<Rightarrow> u64 \<Rightarrow> ForwarderQuery \<Rightarrow> graph \<Rightarrow> GraphExportLookup \<times> graph" where
  "module_proc_address env handle q g =
     (case find_module_for_handle handle g of
        Some i \<Rightarrow>
          let m = gg_modules g ! i in resolve_export env (lm_source m) (q\<lparr>q_dll := lm_name m\<rparr>) g
      | None \<Rightarrow>
          (case find_handle handle g of
             None \<Rightarrow> (no_export, g)
           | Some i \<Rightarrow> resolve_export env (gg_main_path g) (q\<lparr>q_dll := gg_builtin_modules g ! i\<rparr>) g))"

text \<open>Both overloads of \<open>get_proc_address\<close>; the module of the query is not used.\<close>

definition get_proc_address :: "graph_env \<Rightarrow> u64 \<Rightarrow> ForwarderQuery \<Rightarrow> graph \<Rightarrow> GraphExportLookup \<times> graph" where
  "get_proc_address env handle q g =
     (if handle = 0 then
        (\<lparr>gl_lookup = (if q_by_ordinal q then find_export_by_ordinal_global (ge_registry env) (q_ordinal q)
                      else find_export_global (ge_registry env) (q_symbol q)),
          gl_provider = Builtin, gl_module = None, gl_provider_name = ''builtin''\<rparr>, g)
      else (case (gg_main_image g, gg_main_info g) of
          (Some img, Some info) \<Rightarrow>
            if memory img \<noteq> None \<and> handle = base img then
              (let main_export = direct_export info img q in
               if \<not> found main_export then (no_export, g)
               else if lk_forwarder main_export \<noteq> [] then
                 (case graph_parse_forwarder (lk_forwarder main_export) of
                    None \<Rightarrow> (no_export, g)
                  | Some target \<Rightarrow> resolve_export env (gg_main_path g) target g)
               else (\<lparr>gl_lookup = main_export, gl_provider = Builtin, gl_module = None, gl_provider_name = ''main''\<rparr>, g))
            else module_proc_address env handle q g
        | _ \<Rightarrow> module_proc_address env handle q g))"

definition graph_valid_handle :: "u64 \<Rightarrow> graph \<Rightarrow> bool" where
  "graph_valid_handle handle g \<longleftrightarrow> find_module_for_handle handle g \<noteq> None \<or> find_handle handle g \<noteq> None"

end
