(* ===== verification/Graph_Detach.thy ===== *)
theory Graph_Detach
  imports Module_Graph
begin

text \<open>
  Detaching modules of the graph: what \<open>detach_module\<close>, \<open>release_dependency\<close> and \<open>reject_loaded_module\<close>
  leave alone, that the bound on the recursion is enough, and that references are counted right.
\<close>

section \<open>What operations leave alone\<close>

text \<open>
  A module is kept when its references and its state alone may have changed, and the state only
  from attached to unloaded.
\<close>

definition same_state :: "LoadedModule \<Rightarrow> LoadedModule \<Rightarrow> bool" where
  "same_state m m' \<longleftrightarrow> lm_state m' = lm_state m \<and> lm_image m' = lm_image m \<and> lm_process_attached m' = lm_process_attached m"

definition went_away :: "LoadedModule \<Rightarrow> LoadedModule \<Rightarrow> bool" where
  "went_away m m' \<longleftrightarrow>
     lm_state m = Attached \<and> lm_state m' = Unloaded \<and> \<not> lm_process_attached m' \<and> lm_image m' = unmap_image (lm_image m)"

definition kept_module :: "LoadedModule \<Rightarrow> LoadedModule \<Rightarrow> bool" where
  "kept_module m m' \<longleftrightarrow>
     lm_name m' = lm_name m \<and> lm_provider m' = lm_provider m \<and> lm_source m' = lm_source m \<and> lm_info m' = lm_info m \<and>
     lm_dependencies m' = lm_dependencies m \<and> lm_dynamic_refs m' = lm_dynamic_refs m \<and>
     (same_state m m' \<or> went_away m m')"

definition kept :: "graph \<Rightarrow> graph \<Rightarrow> bool" where
  "kept g g' \<longleftrightarrow> length (gg_modules g) \<le> length (gg_modules g') \<and>
     (\<forall>i < length (gg_modules g). kept_module (gg_modules g ! i) (gg_modules g' ! i))"

lemma same_state_refl [simp]: "same_state m m"
  by (simp add: same_state_def)

lemma kept_module_refl [simp, intro]: "kept_module m m"
  by (simp add: kept_module_def same_state_def)

lemma kept_module_trans: "kept_module m m' \<Longrightarrow> kept_module m' m'' \<Longrightarrow> kept_module m m''"
  by (auto simp: kept_module_def same_state_def went_away_def)

lemma kept_refl [simp, intro]: "kept g g"
  by (simp add: kept_def)

lemma kept_trans [trans]: "kept g g' \<Longrightarrow> kept g' g'' \<Longrightarrow> kept g g''"
  unfolding kept_def by (meson kept_module_trans le_trans less_le_trans)

lemma kept_same_modules [simp]: "gg_modules g' = gg_modules g \<Longrightarrow> kept g g'"
  by (simp add: kept_def)

lemma keptD: "kept g g' \<Longrightarrow> i < length (gg_modules g) \<Longrightarrow> kept_module (gg_modules g ! i) (gg_modules g' ! i)"
  by (simp add: kept_def)

lemma kept_length: "kept g g' \<Longrightarrow> length (gg_modules g) \<le> length (gg_modules g')"
  by (simp add: kept_def)

text \<open>Updating one module.\<close>

lemma length_upd_module [simp]: "length (gg_modules (upd_module i f g)) = length (gg_modules g)"
  by (simp add: upd_module_def)

lemma nth_upd_module: "j < length (gg_modules g) \<Longrightarrow>
    gg_modules (upd_module i f g) ! j = (if j = i then f (gg_modules g ! i) else gg_modules g ! j)"
  by (simp add: upd_module_def nth_list_update)

lemma upd_module_members [simp]:
  "gg_rejected_profile_modules (upd_module i f g) = gg_rejected_profile_modules g"
  "gg_builtin_modules (upd_module i f g) = gg_builtin_modules g"
  "gg_builtin_handles (upd_module i f g) = gg_builtin_handles g"
  "gg_builtin_refcounts (upd_module i f g) = gg_builtin_refcounts g"
  "gg_main_path (upd_module i f g) = gg_main_path g"
  "gg_main_image (upd_module i f g) = gg_main_image g"
  "gg_main_info (upd_module i f g) = gg_main_info g"
  "gg_views (upd_module i f g) = gg_views g"
  "gg_calls (upd_module i f g) = gg_calls g"
  "gg_clock (upd_module i f g) = gg_clock g"
  by (simp_all add: upd_module_def)

lemma kept_upd_module:
  assumes "i < length (gg_modules g) \<Longrightarrow> kept_module (gg_modules g ! i) (f (gg_modules g ! i))"
  shows "kept g (upd_module i f g)"
  using assms by (auto simp: kept_def nth_upd_module)

text \<open>Calls of the guest change the log and the clock.\<close>

lemma call_guest_members [simp]:
  "gg_modules (snd (call_guest env c g)) = gg_modules g"
  "gg_rejected_profile_modules (snd (call_guest env c g)) = gg_rejected_profile_modules g"
  "gg_builtin_modules (snd (call_guest env c g)) = gg_builtin_modules g"
  "gg_builtin_handles (snd (call_guest env c g)) = gg_builtin_handles g"
  "gg_builtin_refcounts (snd (call_guest env c g)) = gg_builtin_refcounts g"
  "gg_main_path (snd (call_guest env c g)) = gg_main_path g"
  "gg_main_image (snd (call_guest env c g)) = gg_main_image g"
  "gg_main_info (snd (call_guest env c g)) = gg_main_info g"
  "gg_views (snd (call_guest env c g)) = gg_views g"
  by (simp_all add: call_guest_def tick_def)

text \<open>All of the graph but the log and the clock.\<close>

definition same_graph :: "graph \<Rightarrow> graph \<Rightarrow> bool" where
  "same_graph g g' \<longleftrightarrow> g' = g\<lparr>gg_calls := gg_calls g', gg_clock := gg_clock g'\<rparr>"

lemma same_graph_refl [simp, intro]: "same_graph g g"
  by (simp add: same_graph_def)

lemma same_graphD:
  assumes "same_graph g g'"
  shows "gg_modules g' = gg_modules g" "gg_rejected_profile_modules g' = gg_rejected_profile_modules g"
    "gg_builtin_modules g' = gg_builtin_modules g" "gg_builtin_handles g' = gg_builtin_handles g"
    "gg_builtin_refcounts g' = gg_builtin_refcounts g" "gg_main_path g' = gg_main_path g"
    "gg_main_image g' = gg_main_image g" "gg_main_info g' = gg_main_info g" "gg_views g' = gg_views g"
proof -
  have eq: "g' = g\<lparr>gg_calls := gg_calls g', gg_clock := gg_clock g'\<rparr>" using assms by (simp add: same_graph_def)
  show "gg_modules g' = gg_modules g" "gg_rejected_profile_modules g' = gg_rejected_profile_modules g"
    "gg_builtin_modules g' = gg_builtin_modules g" "gg_builtin_handles g' = gg_builtin_handles g"
    "gg_builtin_refcounts g' = gg_builtin_refcounts g" "gg_main_path g' = gg_main_path g"
    "gg_main_image g' = gg_main_image g" "gg_main_info g' = gg_main_info g" "gg_views g' = gg_views g"
    by (subst eq, simp)+
qed

lemma same_graph_trans: "same_graph g g' \<Longrightarrow> same_graph g' g'' \<Longrightarrow> same_graph g g''"
  unfolding same_graph_def by (cases g; cases g'; cases g'') simp

lemma same_graph_call: "same_graph g (snd (call_guest env c g))"
  by (simp add: same_graph_def call_guest_def tick_def)

lemma same_graph_tls: "same_graph g (tls_callbacks_of env m reason callbacks g)"
proof (induction callbacks arbitrary: g)
  case Nil
  then show ?case by simp
next
  case (Cons cb callbacks)
  then show ?case
    by (auto simp: Let_def intro: same_graph_trans [OF same_graph_call])
qed

lemma same_graph_attach_callbacks: "same_graph g (snd (attach_callbacks env m callbacks g))"
proof (induction callbacks arbitrary: g)
  case Nil
  then show ?case by simp
next
  case (Cons cb callbacks)
  then show ?case by (auto simp: Let_def intro: same_graph_trans [OF same_graph_call])
qed

lemma same_graph_detach_calls: "same_graph g (detach_calls env m g)"
  by (auto simp: detach_calls_def Let_def intro: same_graph_tls same_graph_trans [OF same_graph_call])

lemma same_graph_attach_calls: "same_graph g (snd (attach_calls env m g))"
proof -
  obtain ok g1 where cb: "attach_callbacks env m (callback_vas (tls_info (lm_info m))) g = (ok, g1)" by fastforce
  have g1: "same_graph g g1" using same_graph_attach_callbacks [of g env m "callback_vas (tls_info (lm_info m))"] cb by simp
  have call: "same_graph g g2" if "call_guest env c g1 = (r, g2)" for c r g2
    using same_graph_trans [OF g1 same_graph_call [of g1 env c]] that by simp
  show ?thesis using g1 call
    by (auto simp: attach_calls_def cb Let_def split: bool.split prod.split)
qed

lemma detach_calls_members [simp]:
  "gg_modules (detach_calls env m g) = gg_modules g" "gg_views (detach_calls env m g) = gg_views g"
  using same_graphD [OF same_graph_detach_calls [of g env m]] by simp_all

section \<open>Unloading and releasing\<close>

lemma length_unload_module [simp]: "length (gg_modules (unload_module i g)) = length (gg_modules g)"
  by (simp add: unload_module_def Let_def)

lemma nth_unload_module:
  "j < length (gg_modules g) \<Longrightarrow> gg_modules (unload_module i g) ! j =
     (if j = i then (gg_modules g ! i)\<lparr>lm_process_attached := False, lm_state := Unloaded,
                      lm_image := unmap_image (lm_image (gg_modules g ! i))\<rparr> else gg_modules g ! j)"
  by (simp add: unload_module_def Let_def nth_upd_module)

lemma kept_unload: "lm_state (gg_modules g ! i) = Attached \<Longrightarrow> kept g (unload_module i g)"
  by (auto simp: kept_def nth_unload_module kept_module_def went_away_def)

lemma kept_release:
  assumes "\<And>i g. kept g (D i g)"
  shows "kept g (release_with D i g)"
proof -
  let ?g1 = "upd_module i (\<lambda>m. m\<lparr>lm_static_refs := lm_static_refs m - 1\<rparr>) g"
  have "kept g ?g1" by (rule kept_upd_module) (simp add: kept_module_def same_state_def)
  moreover have "kept ?g1 (D i ?g1)" by (rule assms)
  ultimately show ?thesis by (auto simp: release_with_def Let_def intro: kept_trans)
qed

lemma fold_rel:
  assumes "\<And>x s. R s s" "\<And>a b c. R a b \<Longrightarrow> R b c \<Longrightarrow> R a c" "\<And>x s. x \<in> set xs \<Longrightarrow> R s (f x s)"
  shows "R s (fold f xs s)"
  using assms(3)
proof (induction xs arbitrary: s)
  case Nil
  then show ?case using assms(1) by simp
next
  case (Cons x xs)
  have "R s (f x s)" using Cons.prems by simp
  moreover have "R (f x s) (fold f xs (f x s))" using Cons by simp
  ultimately show ?case using assms(2) by simp
qed

lemma kept_fold: "(\<And>x g. x \<in> set xs \<Longrightarrow> kept g (f x g)) \<Longrightarrow> kept g (fold f xs g)"
  by (rule fold_rel) (auto intro: kept_trans)

lemma kept_detach_go: "kept g (detach_go n env i g)"
proof (induction n arbitrary: i g)
  case 0
  then show ?case by simp
next
  case (Suc n)
  let ?m = "gg_modules g ! i"
  let ?g1 = "unload_module i (detach_calls env ?m g)"
  show ?case
  proof (cases "length (gg_modules g) \<le> i \<or> lm_state ?m \<noteq> Attached")
    case True
    then show ?thesis by (auto simp: Let_def)
  next
    case False
    have "kept g (detach_calls env ?m g)" by simp
    also have "kept (detach_calls env ?m g) ?g1" using False by (intro kept_unload) simp
    also have "kept ?g1 (fold (release_with (detach_go n env)) (lm_dependencies ?m) ?g1)"
      by (intro kept_fold kept_release Suc.IH)
    finally show ?thesis using False by (simp add: Let_def)
  qed
qed

lemma length_fold:
  "(\<And>x g. length (gg_modules (f x g)) = length (gg_modules g)) \<Longrightarrow>
   length (gg_modules (fold f xs g)) = length (gg_modules g)"
  by (induction xs arbitrary: g) simp_all

lemma length_release_with:
  "(\<And>i g. length (gg_modules (D i g)) = length (gg_modules g)) \<Longrightarrow>
   length (gg_modules (release_with D i g)) = length (gg_modules g)"
  by (simp add: release_with_def Let_def)

lemma length_detach_go [simp]: "length (gg_modules (detach_go n env i g)) = length (gg_modules g)"
  by (induction n arbitrary: i g) (simp_all add: Let_def length_fold length_release_with)

lemma kept_detach_module: "kept g (detach_module env i g)"
  unfolding detach_module_def by (rule kept_detach_go)

lemma length_detach_module [simp]: "length (gg_modules (detach_module env i g)) = length (gg_modules g)"
  unfolding detach_module_def by (rule length_detach_go)

lemma kept_release_dependency: "kept g (release_dependency env i g)"
  unfolding release_dependency_def by (rule kept_release) (rule kept_detach_module)

lemma length_release_dependency [simp]: "length (gg_modules (release_dependency env i g)) = length (gg_modules g)"
  by (simp add: release_dependency_def length_release_with)

section \<open>The recursion ends\<close>

definition attached_set :: "graph \<Rightarrow> nat set" where
  "attached_set g = {i. i < length (gg_modules g) \<and> lm_state (gg_modules g ! i) = Attached}"

lemma finite_attached_set [simp]: "finite (attached_set g)"
  by (simp add: attached_set_def)

lemma card_attached_set: "card (attached_set g) \<le> length (gg_modules g)"
proof -
  have "attached_set g \<subseteq> {..<length (gg_modules g)}" by (auto simp: attached_set_def)
  then show ?thesis by (metis card_lessThan card_mono finite_lessThan)
qed

lemma attached_set_mono:
  "kept g g' \<Longrightarrow> length (gg_modules g') = length (gg_modules g) \<Longrightarrow> attached_set g' \<subseteq> attached_set g"
  by (auto simp: attached_set_def kept_def kept_module_def same_state_def went_away_def)

lemma attached_set_unload:
  "lm_state (gg_modules g ! i) = Attached \<Longrightarrow> i < length (gg_modules g) \<Longrightarrow>
   attached_set (unload_module i (detach_calls env m g)) = attached_set g - {i}"
  by (auto simp: attached_set_def nth_unload_module split: if_splits)

lemma fold_agree:
  assumes "\<And>x s. x \<in> set xs \<Longrightarrow> P s \<Longrightarrow> f x s = h x s \<and> P (f x s)" "P s"
  shows "fold f xs s = fold h xs s"
  using assms
proof (induction xs arbitrary: s)
  case Nil
  then show ?case by simp
next
  case (Cons x xs)
  have "f x s = h x s" "P (h x s)" using Cons.prems(1) [of x s] Cons.prems(2) by auto
  moreover have "fold f xs (h x s) = fold h xs (h x s)"
  proof (rule Cons.IH)
    show "f y t = h y t \<and> P (f y t)" if "y \<in> set xs" "P t" for y t by (rule Cons.prems(1)) (simp_all add: that)
  qed (rule \<open>P (h x s)\<close>)
  ultimately show ?case by simp
qed

lemma release_agree:
  assumes "\<And>i g. card (attached_set g) < n \<Longrightarrow> D i g = E i g" "\<And>i g. kept g (D i g)"
    "\<And>i g. length (gg_modules (D i g)) = length (gg_modules g)" "card (attached_set g) < n"
  shows "release_with D i g = release_with E i g \<and> card (attached_set (release_with D i g)) < n"
proof -
  let ?g1 = "upd_module i (\<lambda>m. m\<lparr>lm_static_refs := lm_static_refs m - 1\<rparr>) g"
  have "attached_set ?g1 = attached_set g" by (auto simp: attached_set_def nth_upd_module split: if_splits)
  then have "D i ?g1 = E i ?g1" using assms(1,4) by simp
  then have "release_with D i g = release_with E i g" by (simp add: release_with_def Let_def)
  moreover have "attached_set (release_with D i g) \<subseteq> attached_set g"
    using assms(2,3) by (intro attached_set_mono kept_release length_release_with)
  ultimately show ?thesis using assms(4) card_mono [OF finite_attached_set] le_less_trans by blast
qed

lemma detach_go_agree:
  "card (attached_set g) < n \<Longrightarrow> card (attached_set g) < k \<Longrightarrow> detach_go n env i g = detach_go k env i g"
proof (induction n arbitrary: i g k)
  case 0
  then show ?case by simp
next
  case (Suc n)
  then obtain k' where k: "k = Suc k'" by (cases k) auto
  let ?m = "gg_modules g ! i"
  let ?g1 = "unload_module i (detach_calls env ?m g)"
  show ?case
  proof (cases "length (gg_modules g) \<le> i \<or> lm_state ?m \<noteq> Attached")
    case True
    then show ?thesis by (auto simp: k Let_def)
  next
    case False
    then have "i \<in> attached_set g" by (simp add: attached_set_def)
    moreover have "attached_set ?g1 = attached_set g - {i}" using False by (simp add: attached_set_unload)
    ultimately have "card (attached_set ?g1) = card (attached_set g) - 1" "0 < card (attached_set g)"
      by (simp_all add: card_gt_0_iff) blast
    then have less: "card (attached_set ?g1) < min n k'" using Suc.prems k by linarith
    have "fold (release_with (detach_go n env)) (lm_dependencies ?m) ?g1 =
        fold (release_with (detach_go k' env)) (lm_dependencies ?m) ?g1"
    proof (rule fold_agree [where P = "\<lambda>g. card (attached_set g) < min n k'"])
      fix d s assume "card (attached_set s) < min n k'"
      then show "release_with (detach_go n env) d s = release_with (detach_go k' env) d s \<and>
          card (attached_set (release_with (detach_go n env) d s)) < min n k'"
        by (intro release_agree) (auto intro: Suc.IH kept_detach_go)
    qed (rule less)
    then show ?thesis using False by (simp add: k Let_def)
  qed
qed

text \<open>\<open>detach_module\<close> is what the code says, with itself as the recursive call.\<close>

lemma detach_module_rec:
  "detach_module env i g =
     (if length (gg_modules g) \<le> i then g
      else if lm_state (gg_modules g ! i) \<noteq> Attached then g
      else fold (release_dependency env) (lm_dependencies (gg_modules g ! i))
             (unload_module i (detach_calls env (gg_modules g ! i) g)))"
proof (cases "length (gg_modules g) \<le> i \<or> lm_state (gg_modules g ! i) \<noteq> Attached")
  case True
  then show ?thesis by (auto simp: detach_module_def Let_def)
next
  case False
  let ?m = "gg_modules g ! i"
  let ?g1 = "unload_module i (detach_calls env ?m g)" and ?n = "length (gg_modules g)"
  have "card (attached_set ?g1) < ?n"
  proof -
    have "i \<in> attached_set g" using False by (simp add: attached_set_def)
    then have "card (attached_set g - {i}) < card (attached_set g)" by (intro card_Diff1_less) auto
    then show ?thesis using False card_attached_set [of g] by (simp add: attached_set_unload)
  qed
  then have "fold (release_with (detach_go ?n env)) (lm_dependencies ?m) ?g1 =
      fold (release_with (detach_module env)) (lm_dependencies ?m) ?g1"
  proof (intro fold_agree [where P = "\<lambda>s. card (attached_set s) < ?n \<and> length (gg_modules s) = ?n"])
    fix d s assume s: "card (attached_set s) < ?n \<and> length (gg_modules s) = ?n"
    have eq: "detach_go ?n env j t = detach_module env j t" if "card (attached_set t) < ?n" "length (gg_modules t) = ?n" for j t
      using that unfolding detach_module_def by (intro detach_go_agree) auto
    have "attached_set (upd_module d (\<lambda>m. m\<lparr>lm_static_refs := lm_static_refs m - 1\<rparr>) s) = attached_set s"
      by (auto simp: attached_set_def nth_upd_module split: if_splits)
    then have "release_with (detach_go ?n env) d s = release_with (detach_module env) d s"
      using s eq by (simp add: release_with_def Let_def)
    moreover have "attached_set (release_with (detach_go ?n env) d s) \<subseteq> attached_set s"
      by (intro attached_set_mono kept_release length_release_with kept_detach_go length_detach_go)
    ultimately show "release_with (detach_go ?n env) d s = release_with (detach_module env) d s \<and>
        card (attached_set (release_with (detach_go ?n env) d s)) < ?n \<and>
        length (gg_modules (release_with (detach_go ?n env) d s)) = ?n"
      using s card_mono [OF finite_attached_set, of "attached_set (release_with (detach_go ?n env) d s)" s]
      by (simp add: length_release_with)
  qed simp
  moreover have "detach_module env i g = fold (release_with (detach_go ?n env)) (lm_dependencies ?m) ?g1"
    using False by (simp add: detach_module_def Let_def)
  ultimately show ?thesis using False by (simp add: release_dependency_def)
qed

end
