(* ===== verification/Graph_Invariant.thy ===== *)
theory Graph_Invariant
  imports Graph_Detach
begin

text \<open>
  The invariant of the module graph: every reference a loaded module holds is counted, attached
  modules have their dependencies attached, exactly the loaded modules are mapped, and the unwind data
  the thread knows belongs to attached modules.
\<close>

section \<open>References\<close>

text \<open>
  The loaded modules outside \<open>X\<close> that depend on a module. While a module is taken down it is in \<open>X\<close>, and
  the references it has still to give back are \<open>pending\<close>.
\<close>

definition owners :: "nat set \<Rightarrow> nat \<Rightarrow> graph \<Rightarrow> nat set" where
  "owners X j g = {i. i < length (gg_modules g) \<and> i \<notin> X \<and> loaded_state (gg_modules g ! i) \<and>
     j \<in> set (lm_dependencies (gg_modules g ! i))}"

definition counted :: "nat set \<Rightarrow> nat list \<Rightarrow> graph \<Rightarrow> bool" where
  "counted X pending g \<longleftrightarrow> (\<forall>j < length (gg_modules g).
     card (owners X j g) + count_list pending j \<le> lm_static_refs (gg_modules g ! j))"

definition wf_dependencies :: "graph \<Rightarrow> bool" where
  "wf_dependencies g \<longleftrightarrow> (\<forall>i < length (gg_modules g).
     distinct (lm_dependencies (gg_modules g ! i)) \<and>
     (\<forall>d \<in> set (lm_dependencies (gg_modules g ! i)). d < length (gg_modules g)))"

definition none_attached :: "nat set \<Rightarrow> graph \<Rightarrow> bool" where
  "none_attached X g \<longleftrightarrow> (\<forall>i \<in> X. i < length (gg_modules g) \<longrightarrow> lm_state (gg_modules g ! i) \<noteq> Attached)"

definition wf_images :: "graph \<Rightarrow> bool" where
  "wf_images g \<longleftrightarrow> (\<forall>m \<in> set (gg_modules g).
     (loaded_state m \<longleftrightarrow> memory (lm_image m) \<noteq> None) \<and> (lm_process_attached m \<longleftrightarrow> lm_state m = Attached))"

definition wf_views :: "graph \<Rightarrow> bool" where
  "wf_views g \<longleftrightarrow> distinct (map view_base (g_module_unwind_images (gg_views g))) \<and>
     (\<forall>v \<in> set (g_module_unwind_images (gg_views g)). view_base v \<noteq> 0 \<and>
        (\<exists>m \<in> set (gg_modules g). lm_state m = Attached \<and> view_base v = base (lm_image m)))"

definition wf_graph :: "nat set \<Rightarrow> nat list \<Rightarrow> graph \<Rightarrow> bool" where
  "wf_graph X pending g \<longleftrightarrow>
     counted X pending g \<and> wf_dependencies g \<and> none_attached X g \<and> wf_images g \<and> wf_views g"

definition dependencies_attached :: "graph \<Rightarrow> bool" where
  "dependencies_attached g \<longleftrightarrow> (\<forall>i < length (gg_modules g). lm_state (gg_modules g ! i) = Attached \<longrightarrow>
     (\<forall>d \<in> set (lm_dependencies (gg_modules g ! i)). lm_state (gg_modules g ! d) = Attached))"

lemma finite_owners [simp]: "finite (owners X j g)"
  by (simp add: owners_def)

lemma count_list_distinct: "distinct xs \<Longrightarrow> count_list xs x = (if x \<in> set xs then 1 else 0)"
  by (induction xs) auto

lemma owners_mono:
  assumes "kept g g'" "length (gg_modules g') = length (gg_modules g)"
  shows "owners X j g' \<subseteq> owners X j g"
  using assms by (auto simp: owners_def kept_def kept_module_def same_state_def went_away_def loaded_state_def)

lemma wf_dependencies_kept:
  "kept g g' \<Longrightarrow> length (gg_modules g') = length (gg_modules g) \<Longrightarrow> wf_dependencies g \<Longrightarrow> wf_dependencies g'"
  by (auto simp: wf_dependencies_def kept_def kept_module_def)

lemma none_attached_kept:
  "kept g g' \<Longrightarrow> length (gg_modules g') = length (gg_modules g) \<Longrightarrow> none_attached X g \<Longrightarrow> none_attached X g'"
  by (auto simp: none_attached_def kept_def kept_module_def same_state_def went_away_def)

lemma wf_graphD:
  assumes "wf_graph X pending g"
  shows "counted X pending g" "wf_dependencies g" "none_attached X g" "wf_images g" "wf_views g"
  using assms by (simp_all add: wf_graph_def)

lemma memory_unmap [simp]: "memory (unmap_image img) = None"
  by (simp add: unmap_image_def)

section \<open>Views\<close>

lemma remove_view_subset: "set (remove_view b vs) \<subseteq> set vs"
  by (induction vs) auto

lemma remove_view_bases: "distinct (map view_base vs) \<Longrightarrow> view_base ` set (remove_view b vs) = view_base ` set vs - {b}"
proof (induction vs)
  case Nil
  then show ?case by simp
next
  case (Cons v vs)
  then have "view_base v \<notin> view_base ` set vs" by simp
  then have "view_base ` set vs - {view_base v} = view_base ` set vs" by blast
  then show ?case using Cons by (cases "view_base v = b") (simp_all add: insert_Diff_if)
qed

lemma distinct_remove_view: "distinct (map view_base vs) \<Longrightarrow> distinct (map view_base (remove_view b vs))"
  using remove_view_subset by (induction vs) fastforce+

text \<open>Views stay right when the modules that are attached and not removed stay as they are.\<close>

lemma wf_views_remove:
  assumes "wf_views g" "g_module_unwind_images (gg_views g') =
      g_module_unwind_images (remove_guest_module_unwind_image b (gg_views g))"
    and "\<And>k. k < length (gg_modules g) \<Longrightarrow> lm_state (gg_modules g ! k) = Attached \<Longrightarrow>
      base (lm_image (gg_modules g ! k)) \<noteq> 0 \<Longrightarrow> base (lm_image (gg_modules g ! k)) \<noteq> b \<Longrightarrow>
      k < length (gg_modules g') \<and> lm_state (gg_modules g' ! k) = Attached \<and>
      base (lm_image (gg_modules g' ! k)) = base (lm_image (gg_modules g ! k))"
  shows "wf_views g'"
proof -
  let ?vs = "g_module_unwind_images (gg_views g)" and ?vs' = "g_module_unwind_images (gg_views g')"
  have d: "distinct (map view_base ?vs)" using assms(1) by (simp add: wf_views_def)
  have vs: "?vs' = (if b = 0 then ?vs else remove_view b ?vs)"
    by (simp add: assms(2) remove_guest_module_unwind_image_def)
  then have "distinct (map view_base ?vs')" using d by (simp add: distinct_remove_view)
  moreover have "view_base v \<noteq> 0 \<and> (\<exists>m \<in> set (gg_modules g'). lm_state m = Attached \<and> view_base v = base (lm_image m))"
    if v: "v \<in> set ?vs'" for v
  proof -
    have "v \<in> set ?vs" using v vs remove_view_subset [of b ?vs] by (auto split: if_splits)
    then obtain m where m: "m \<in> set (gg_modules g)" "lm_state m = Attached" "view_base v = base (lm_image m)" "view_base v \<noteq> 0"
      using assms(1) by (auto simp: wf_views_def)
    obtain k where k: "k < length (gg_modules g)" "gg_modules g ! k = m" using m(1) by (auto simp: in_set_conv_nth)
    have "base (lm_image m) \<noteq> b"
      using v vs remove_view_bases [OF d, of b] m(3,4) by (auto split: if_splits)
    then have "gg_modules g' ! k \<in> set (gg_modules g')" "lm_state (gg_modules g' ! k) = Attached"
      "view_base v = base (lm_image (gg_modules g' ! k))"
      using assms(3) [OF k(1)] k(2) m by simp_all
    then show ?thesis using m(4) by blast
  qed
  ultimately show ?thesis by (simp add: wf_views_def)
qed

lemmas wf_views_keep = wf_views_remove [where b = 0, unfolded remove_guest_module_unwind_image_def, simplified]

section \<open>Detaching\<close>

lemma wf_graph_same:
  assumes "same_graph g g'" "wf_graph X pending g"
  shows "wf_graph X pending g'"
  using assms(2) by (simp add: wf_graph_def counted_def owners_def wf_dependencies_def none_attached_def wf_images_def
      wf_views_def same_graphD [OF assms(1)])

lemma dependencies_attached_same:
  "same_graph g g' \<Longrightarrow> dependencies_attached g \<Longrightarrow> dependencies_attached g'"
  by (simp add: dependencies_attached_def same_graphD)

lemma wf_images_nth:
  "wf_images g \<Longrightarrow> i < length (gg_modules g) \<Longrightarrow>
   (loaded_state (gg_modules g ! i) \<longleftrightarrow> memory (lm_image (gg_modules g ! i)) \<noteq> None) \<and>
   (lm_process_attached (gg_modules g ! i) \<longleftrightarrow> lm_state (gg_modules g ! i) = Attached)"
  by (simp add: wf_images_def)

lemma wf_imagesI:
  "(\<And>i. i < length (gg_modules g) \<Longrightarrow>
     (loaded_state (gg_modules g ! i) \<longleftrightarrow> memory (lm_image (gg_modules g ! i)) \<noteq> None) \<and>
     (lm_process_attached (gg_modules g ! i) \<longleftrightarrow> lm_state (gg_modules g ! i) = Attached)) \<Longrightarrow> wf_images g"
  by (auto simp: wf_images_def in_set_conv_nth)

lemma owners_unload:
  assumes "i < length (gg_modules g)" "lm_state (gg_modules g ! i) = Attached" "none_attached X g"
  shows "owners X j (unload_module i g) = owners X j g - {i}"
    and "i \<in> owners X j g \<longleftrightarrow> j \<in> set (lm_dependencies (gg_modules g ! i))"
proof -
  have "i \<notin> X" using assms by (auto simp: none_attached_def)
  then show "owners X j (unload_module i g) = owners X j g - {i}"
    "i \<in> owners X j g \<longleftrightarrow> j \<in> set (lm_dependencies (gg_modules g ! i))"
    using assms by (auto simp: owners_def nth_unload_module loaded_state_def split: if_splits)
qed

lemma wf_graph_unload:
  assumes wf: "wf_graph X pending g" and i: "i < length (gg_modules g)" "lm_state (gg_modules g ! i) = Attached"
  shows "wf_graph X (lm_dependencies (gg_modules g ! i) @ pending) (unload_module i g)"
proof -
  let ?ds = "lm_dependencies (gg_modules g ! i)" and ?g = "unload_module i g"
  note none = wf_graphD(3) [OF wf]
  have kept: "kept g ?g" by (rule kept_unload) (rule i)
  have "card (owners X j ?g) + count_list (?ds @ pending) j \<le> lm_static_refs (gg_modules ?g ! j)"
    if j: "j < length (gg_modules g)" for j
  proof -
    have "distinct ?ds" using wf_graphD(2) [OF wf] i by (simp add: wf_dependencies_def)
    then have "card (owners X j ?g) + count_list ?ds j = card (owners X j g)"
      using owners_unload [OF i none, of j] by (simp add: count_list_distinct card_Diff_singleton card_gt_0_iff Suc_diff_1)
        (metis One_nat_def Suc_pred' card_gt_0_iff empty_iff finite_owners)
    moreover have "card (owners X j g) + count_list pending j \<le> lm_static_refs (gg_modules g ! j)"
      using wf_graphD(1) [OF wf] j by (simp add: counted_def)
    moreover have "lm_static_refs (gg_modules ?g ! j) = lm_static_refs (gg_modules g ! j)"
      using j by (simp add: nth_unload_module)
    ultimately show ?thesis by simp
  qed
  then have "counted X (?ds @ pending) ?g" by (simp add: counted_def)
  moreover have "wf_images ?g"
    using wf_images_nth [OF wf_graphD(4) [OF wf]] by (intro wf_imagesI) (auto simp: nth_unload_module loaded_state_def split: if_splits)
  moreover have "wf_views ?g"
  proof (rule wf_views_remove [OF wf_graphD(5) [OF wf]])
    show "g_module_unwind_images (gg_views ?g) =
        g_module_unwind_images (remove_guest_module_unwind_image (image_handle (lm_image (gg_modules g ! i))) (gg_views g))"
      by (simp add: unload_module_def Let_def)
    have "memory (lm_image (gg_modules g ! i)) \<noteq> None"
      using wf_images_nth [OF wf_graphD(4) [OF wf] i(1)] i(2) by (simp add: loaded_state_def)
    then show "k < length (gg_modules ?g) \<and> lm_state (gg_modules ?g ! k) = Attached \<and>
        base (lm_image (gg_modules ?g ! k)) = base (lm_image (gg_modules g ! k))"
      if "k < length (gg_modules g)" "lm_state (gg_modules g ! k) = Attached"
        "base (lm_image (gg_modules g ! k)) \<noteq> image_handle (lm_image (gg_modules g ! i))" for k
      using that by (auto simp: nth_unload_module image_handle_def)
  qed
  ultimately show ?thesis
    using wf kept by (simp add: wf_graph_def wf_dependencies_kept [OF kept] none_attached_kept [OF kept])
qed

text \<open>Giving back one reference.\<close>

lemma wf_graph_release_one:
  assumes "wf_graph X (d # pending) g"
  shows "wf_graph X pending (upd_module d (\<lambda>m. m\<lparr>lm_static_refs := lm_static_refs m - 1\<rparr>) g)"
proof -
  let ?g = "upd_module d (\<lambda>m. m\<lparr>lm_static_refs := lm_static_refs m - 1\<rparr>) g"
  have kept: "kept g ?g" by (rule kept_upd_module) (simp add: kept_module_def same_state_def)
  have own: "owners X j ?g = owners X j g" for j
    by (auto simp: owners_def nth_upd_module loaded_state_def split: if_splits)
  have "card (owners X j ?g) + count_list pending j \<le> lm_static_refs (gg_modules ?g ! j)"
    if "j < length (gg_modules g)" for j
  proof -
    have "card (owners X j g) + count_list (d # pending) j \<le> lm_static_refs (gg_modules g ! j)"
      using wf_graphD(1) [OF assms] that by (simp add: counted_def)
    then show ?thesis using that by (cases "j = d") (simp_all del: One_nat_def add: own nth_upd_module)
  qed
  then have "counted X pending ?g" by (simp add: counted_def)
  moreover have "wf_images ?g"
    using wf_images_nth [OF wf_graphD(4) [OF assms]] by (intro wf_imagesI) (auto simp: nth_upd_module loaded_state_def)
  moreover have "wf_views ?g"
    by (rule wf_views_keep [OF wf_graphD(5) [OF assms]]) (auto simp: nth_upd_module)
  ultimately show ?thesis
    using wf_dependencies_kept [OF kept] none_attached_kept [OF kept] wf_graphD [OF assms]
    by (simp del: One_nat_def add: wf_graph_def)
qed

lemma dependencies_attached_release_one:
  "dependencies_attached g \<Longrightarrow> wf_dependencies g \<Longrightarrow>
   dependencies_attached (upd_module d (\<lambda>m. m\<lparr>lm_static_refs := lm_static_refs m - 1\<rparr>) g)"
  by (auto simp: dependencies_attached_def nth_upd_module wf_dependencies_def)

text \<open>An attached module nobody refers to can go without taking the dependency of another.\<close>

lemma dependencies_attached_unload:
  assumes wf: "wf_graph X pending g" and da: "dependencies_attached g"
    and i: "i < length (gg_modules g)" "lm_state (gg_modules g ! i) = Attached" "lm_static_refs (gg_modules g ! i) = 0"
  shows "dependencies_attached (unload_module i g)"
proof -
  have "card (owners X i g) = 0" using wf_graphD(1) [OF wf] i by (auto simp: counted_def)
  then have none: "owners X i g = {}" by simp
  have "i \<notin> set (lm_dependencies (gg_modules g ! k))"
    if "k < length (gg_modules g)" "lm_state (gg_modules g ! k) = Attached" for k
  proof
    assume "i \<in> set (lm_dependencies (gg_modules g ! k))"
    moreover have "k \<notin> X" using wf_graphD(3) [OF wf] that by (auto simp: none_attached_def)
    ultimately have "k \<in> owners X i g" using that by (simp add: owners_def loaded_state_def)
    then show False using none by simp
  qed
  then show ?thesis using da wf_graphD(2) [OF wf]
    by (auto simp: dependencies_attached_def nth_unload_module wf_dependencies_def split: if_splits)
qed

text \<open>What a detach keeps, and a release that may detach.\<close>

definition detaches :: "(nat \<Rightarrow> graph \<Rightarrow> graph) \<Rightarrow> bool" where
  "detaches D \<longleftrightarrow> (\<forall>X pending i g. wf_graph X pending g \<longrightarrow> wf_graph X pending (D i g) \<and>
     (dependencies_attached g \<and> (i < length (gg_modules g) \<longrightarrow> lm_static_refs (gg_modules g ! i) = 0) \<longrightarrow>
        dependencies_attached (D i g)))"

lemma wf_graph_beyond:
  assumes "wf_graph X (d # pending) g" "length (gg_modules g) \<le> d"
  shows "wf_graph X pending g"
proof -
  have "count_list (d # pending) j = count_list pending j" if "j < length (gg_modules g)" for j
    using assms(2) that by auto
  then show ?thesis using assms(1) by (auto simp: wf_graph_def counted_def)
qed

lemma wf_graph_release:
  assumes "detaches D" "wf_graph X (d # pending) g"
  shows "wf_graph X pending (release_with D d g) \<and>
    (dependencies_attached g \<longrightarrow> dependencies_attached (release_with D d g))"
proof (cases "length (gg_modules g) \<le> d")
  case True
  then show ?thesis using wf_graph_beyond [OF assms(2)] by (simp add: release_with_def)
next
  case False
  let ?g = "upd_module d (\<lambda>m. m\<lparr>lm_static_refs := lm_static_refs m - 1\<rparr>) g"
  have wf: "wf_graph X pending ?g" by (rule wf_graph_release_one) (rule assms(2))
  have da: "dependencies_attached g \<Longrightarrow> dependencies_attached ?g"
    using wf_graphD(2) [OF assms(2)] by (rule dependencies_attached_release_one [rotated])
  show ?thesis
    using assms(1) wf da False by (auto simp: release_with_def Let_def detaches_def)
qed

lemma wf_graph_releases:
  assumes "detaches D" "wf_graph X (ds @ pending) g"
  shows "wf_graph X pending (fold (release_with D) ds g) \<and>
    (dependencies_attached g \<longrightarrow> dependencies_attached (fold (release_with D) ds g))"
  using assms(2)
proof (induction ds arbitrary: g)
  case Nil
  then show ?case by simp
next
  case (Cons d ds)
  then have "wf_graph X (ds @ pending) (release_with D d g)"
    "dependencies_attached g \<Longrightarrow> dependencies_attached (release_with D d g)"
    using wf_graph_release [OF assms(1), of X d "ds @ pending" g] by auto
  then show ?case using Cons.IH by auto
qed

lemma detaches_detach_go: "detaches (detach_go n env)"
proof (induction n)
  case 0
  then show ?case by (simp add: detaches_def)
next
  case (Suc n)
  have "wf_graph X pending (detach_go (Suc n) env i g) \<and>
     (dependencies_attached g \<and> (i < length (gg_modules g) \<longrightarrow> lm_static_refs (gg_modules g ! i) = 0) \<longrightarrow>
        dependencies_attached (detach_go (Suc n) env i g))"
    if wf: "wf_graph X pending g" for X pending i g
  proof (cases "length (gg_modules g) \<le> i \<or> lm_state (gg_modules g ! i) \<noteq> Attached")
    case True
    then show ?thesis using wf by (auto simp: Let_def)
  next
    case False
    let ?m = "gg_modules g ! i"
    let ?g0 = "detach_calls env ?m g"
    let ?g1 = "unload_module i ?g0"
    have same: "same_graph g ?g0" by (rule same_graph_detach_calls)
    have wf0: "wf_graph X pending ?g0" by (rule wf_graph_same [OF same wf])
    have wf1: "wf_graph X (lm_dependencies ?m @ pending) ?g1"
      using wf_graph_unload [OF wf0, of i] False by simp
    have da1: "dependencies_attached ?g1" if "dependencies_attached g" "lm_static_refs ?m = 0"
      using dependencies_attached_unload [OF wf0 dependencies_attached_same [OF same that(1)], of i] False that(2) by simp
    show ?thesis using wf_graph_releases [OF Suc.IH wf1] da1 False by (simp add: Let_def)
  qed
  then show ?case unfolding detaches_def by blast
qed

lemma detaches_detach_module: "detaches (detach_module env)"
proof -
  have "detaches (\<lambda>i g. detach_go (Suc (length (gg_modules g))) env i g)"
    using detaches_detach_go unfolding detaches_def by blast
  then show ?thesis unfolding detach_module_def [abs_def] .
qed

lemmas wf_graph_release_dependencies = wf_graph_releases [OF detaches_detach_module, folded release_dependency_def]

lemma wf_graph_detach_module:
  "wf_graph X pending g \<Longrightarrow> wf_graph X pending (detach_module env i g)"
  using detaches_detach_module unfolding detaches_def by blast

lemma dependencies_attached_detach_module:
  "wf_graph X pending g \<Longrightarrow> dependencies_attached g \<Longrightarrow>
   (i < length (gg_modules g) \<Longrightarrow> lm_static_refs (gg_modules g ! i) = 0) \<Longrightarrow>
   dependencies_attached (detach_module env i g)"
  using detaches_detach_module unfolding detaches_def by blast

end
