(* ===== verification/Graph_Loading.thy ===== *)
theory Graph_Loading
  imports Graph_Invariant
begin

text \<open>
  Loading and resolving keep the invariant. The locale \<open>module_loader\<close> states what a loader promises to
  the resolution of exports and imports, which call it; \<open>load_pe_module\<close> keeps the promise when the
  loader it calls for the imports of the module does, and so by induction on the depth of the loads.
\<close>

lemma kept_module_attached: "kept_module m m' \<Longrightarrow> lm_state m' = Attached \<Longrightarrow> lm_state m = Attached"
  by (auto simp: kept_module_def same_state_def went_away_def)

text \<open>The handles of built-in modules and what is known of the main image.\<close>

definition same_books :: "graph \<Rightarrow> graph \<Rightarrow> bool" where
  "same_books g g' \<longleftrightarrow> gg_builtin_modules g' = gg_builtin_modules g \<and> gg_builtin_handles g' = gg_builtin_handles g \<and>
     gg_builtin_refcounts g' = gg_builtin_refcounts g \<and> gg_main_path g' = gg_main_path g \<and> gg_main_info g' = gg_main_info g"

lemma same_books_refl [simp, intro]: "same_books g g"
  by (simp add: same_books_def)

lemma same_books_trans: "same_books g g' \<Longrightarrow> same_books g' g'' \<Longrightarrow> same_books g g''"
  by (simp add: same_books_def)

lemma same_books_upd [simp]: "same_books g (upd_module i f g)"
  by (simp add: same_books_def)

lemma same_books_same: "same_graph g g' \<Longrightarrow> same_books g g'"
  by (simp add: same_books_def same_graphD)

lemma same_books_unload: "same_books g (unload_module i g)"
  by (simp add: same_books_def unload_module_def Let_def)

lemma same_books_release: "(\<And>i g. same_books g (D i g)) \<Longrightarrow> same_books g (release_with D i g)"
  unfolding release_with_def Let_def by (auto intro: same_books_trans [OF same_books_upd])

lemma same_books_fold: "(\<And>x g. same_books g (f x g)) \<Longrightarrow> same_books g (fold f xs g)"
  by (rule fold_rel) (auto intro: same_books_trans)

lemma same_books_detach_go: "same_books g (detach_go n env i g)"
proof (induction n arbitrary: i g)
  case 0
  then show ?case by simp
next
  case (Suc n)
  let ?g1 = "detach_calls env (gg_modules g ! i) g"
  have "same_books g (unload_module i ?g1)"
    by (rule same_books_trans [OF same_books_same [OF same_graph_detach_calls] same_books_unload])
  moreover have "same_books h (fold (release_with (detach_go n env)) ds h)" for ds h
    by (intro same_books_fold same_books_release Suc.IH)
  ultimately show ?case using same_books_trans by (auto simp: Let_def)
qed

lemma same_books_release_dependency: "same_books g (release_dependency env i g)"
  unfolding release_dependency_def detach_module_def by (rule same_books_release) (rule same_books_detach_go)

section \<open>Safe steps\<close>

definition none_above :: "nat \<Rightarrow> graph \<Rightarrow> bool" where
  "none_above n g \<longleftrightarrow> (\<forall>k. n \<le> k \<and> k < length (gg_modules g) \<longrightarrow> lm_state (gg_modules g ! k) \<noteq> Attached)"

definition nothing_attached :: "graph \<Rightarrow> graph \<Rightarrow> bool" where
  "nothing_attached g g' \<longleftrightarrow> (\<forall>n \<le> length (gg_modules g). none_above n g \<longrightarrow> none_above n g')"

definition safe_step :: "graph \<Rightarrow> graph \<Rightarrow> bool" where
  "safe_step g g' \<longleftrightarrow> kept g g' \<and> same_books g g' \<and> nothing_attached g g' \<and> (wf_graph {} [] g \<longrightarrow> wf_graph {} [] g') \<and>
     (wf_graph {} [] g \<and> dependencies_attached g \<longrightarrow> dependencies_attached g')"

lemma nothing_attached_refl [simp, intro]: "nothing_attached g g"
  by (simp add: nothing_attached_def)

lemma nothing_attached_trans:
  "nothing_attached g g' \<Longrightarrow> nothing_attached g' g'' \<Longrightarrow> length (gg_modules g) \<le> length (gg_modules g') \<Longrightarrow>
   nothing_attached g g''"
  by (simp add: nothing_attached_def)

lemma nothing_attached_kept:
  "kept g g' \<Longrightarrow> length (gg_modules g') = length (gg_modules g) \<Longrightarrow> nothing_attached g g'"
  by (auto simp: nothing_attached_def none_above_def kept_def kept_module_def same_state_def went_away_def)

lemma safe_step_refl [simp, intro]: "safe_step g g"
  by (simp add: safe_step_def)

lemma safe_step_trans [trans]: "safe_step g g' \<Longrightarrow> safe_step g' g'' \<Longrightarrow> safe_step g g''"
  by (auto simp: safe_step_def intro: kept_trans same_books_trans nothing_attached_trans dest: kept_length)

lemma safe_step_members:
  "gg_modules g' = gg_modules g \<Longrightarrow> gg_views g' = gg_views g \<Longrightarrow> same_books g g' \<Longrightarrow> safe_step g g'"
  by (auto simp: safe_step_def wf_graph_def counted_def owners_def wf_dependencies_def none_attached_def
      wf_images_def wf_views_def dependencies_attached_def nothing_attached_def none_above_def)

lemma safe_step_length: "safe_step g g' \<Longrightarrow> i < length (gg_modules g) \<Longrightarrow> i < length (gg_modules g')"
  by (auto simp: safe_step_def dest: kept_length)

text \<open>
  Steps on behalf of the module \<open>n\<close> that is being resolved, the last one loaded when it was pushed: the
  modules below it are kept, and it goes on being resolved. Without such a module all are kept.
\<close>

definition resolving :: "nat option \<Rightarrow> graph \<Rightarrow> bool" where
  "resolving owner g \<longleftrightarrow> (case owner of None \<Rightarrow> True
     | Some n \<Rightarrow> n < length (gg_modules g) \<and> lm_state (gg_modules g ! n) = Resolving)"

definition owner_step :: "nat option \<Rightarrow> graph \<Rightarrow> graph \<Rightarrow> bool" where
  "owner_step owner g g' \<longleftrightarrow>
     length (gg_modules g) \<le> length (gg_modules g') \<and>
     (\<forall>k < (case owner of None \<Rightarrow> length (gg_modules g) | Some n \<Rightarrow> n). kept_module (gg_modules g ! k) (gg_modules g' ! k)) \<and>
     resolving owner g' \<and> same_books g g' \<and> nothing_attached g g' \<and> (wf_graph {} [] g \<longrightarrow> wf_graph {} [] g') \<and>
     (wf_graph {} [] g \<and> dependencies_attached g \<longrightarrow> dependencies_attached g')"

lemma owner_step_refl: "resolving owner g \<Longrightarrow> owner_step owner g g"
  by (simp add: owner_step_def)

lemma owner_step_trans: "owner_step owner g g' \<Longrightarrow> owner_step owner g' g'' \<Longrightarrow> owner_step owner g g''"
  unfolding owner_step_def by (cases owner) (auto intro: kept_module_trans same_books_trans nothing_attached_trans)

lemma owner_step_safe:
  assumes "safe_step g g'" "resolving owner g"
  shows "owner_step owner g g'"
proof -
  have "resolving owner g'"
    using assms by (auto simp: resolving_def safe_step_def kept_def kept_module_def same_state_def went_away_def
        split: option.splits)
  then show ?thesis
    using assms by (auto simp: owner_step_def safe_step_def kept_def resolving_def split: option.splits)
qed

lemma owner_step_resolving: "owner_step owner g g' \<Longrightarrow> resolving owner g'"
  by (simp add: owner_step_def)

lemma owner_step_None: "owner_step None g g' \<longleftrightarrow> safe_step g g'"
  by (auto simp: owner_step_def safe_step_def kept_def resolving_def)

section \<open>The steps of resolving an import\<close>

lemma write_image_bytes_keeps:
  assumes "write_image_bytes os page img rva data = (status, img')"
  shows "base img' = base img \<and> image_size img' = image_size img \<and> (memory img' = None \<longleftrightarrow> memory img = None)"
  using assms by (auto simp: write_image_bytes_def Let_def split: option.splits if_splits prod.splits)

text \<open>A change of a module that leaves its state, its base and its references.\<close>

lemma wf_graph_upd:
  assumes wf: "wf_graph X pending g"
    and f: "lm_dependencies (f (gg_modules g ! i)) = lm_dependencies (gg_modules g ! i)"
      "loaded_state (f (gg_modules g ! i)) = loaded_state (gg_modules g ! i)"
      "lm_state (f (gg_modules g ! i)) = Attached \<longleftrightarrow> lm_state (gg_modules g ! i) = Attached"
      "lm_process_attached (f (gg_modules g ! i)) = lm_process_attached (gg_modules g ! i)"
      "base (lm_image (f (gg_modules g ! i))) = base (lm_image (gg_modules g ! i))"
      "memory (lm_image (f (gg_modules g ! i))) = None \<longleftrightarrow> memory (lm_image (gg_modules g ! i)) = None"
      "lm_static_refs (gg_modules g ! i) \<le> lm_static_refs (f (gg_modules g ! i))"
  shows "wf_graph X pending (upd_module i f g)"
    and "dependencies_attached g \<Longrightarrow> dependencies_attached (upd_module i f g)"
proof -
  have own: "owners X j (upd_module i f g) = owners X j g" for j
    using f by (auto simp: owners_def nth_upd_module split: if_splits)
  have "counted X pending (upd_module i f g)"
    using wf_graphD(1) [OF wf] f(7) by (auto simp: counted_def own nth_upd_module intro: le_trans)
  moreover have "wf_dependencies (upd_module i f g)"
    using wf_graphD(2) [OF wf] f(1) by (auto simp: wf_dependencies_def nth_upd_module split: if_splits)
  moreover have "none_attached X (upd_module i f g)"
    using wf_graphD(3) [OF wf] f(3) by (auto simp: none_attached_def nth_upd_module)
  moreover have "wf_images (upd_module i f g)"
    using wf_images_nth [OF wf_graphD(4) [OF wf]] f by (intro wf_imagesI) (auto simp: nth_upd_module)
  moreover have "wf_views (upd_module i f g)"
    using f by (intro wf_views_keep [OF wf_graphD(5) [OF wf]]) (auto simp: nth_upd_module)
  ultimately show "wf_graph X pending (upd_module i f g)" by (simp add: wf_graph_def)
  show "dependencies_attached (upd_module i f g)" if "dependencies_attached g"
    using that f wf_graphD(2) [OF wf] by (auto simp: dependencies_attached_def nth_upd_module wf_dependencies_def split: if_splits)
qed

lemma owner_step_patch:
  assumes "resolving owner g" "patch_import env owner entry g = (ok, entry', g')"
  shows "owner_step owner g g'"
proof (cases "ri_iat_rva entry = 0 \<or> owner_image owner g = None")
  case True
  then have "g' = g" using assms(2) by (auto simp: patch_import_def split: if_splits)
  then show ?thesis using assms(1) by (simp add: owner_step_refl)
next
  case False
  then obtain img where img: "owner_image owner g = Some img" by auto
  obtain status img' where w: "write_image_bytes (ge_os env (gg_clock g)) (ge_page env) img (ri_iat_rva entry)
      (Some (address_le (ri_address entry))) = (status, img')" by fastforce
  have g': "g' = tick (set_owner_image owner img' g)"
    using assms(2) False by (auto simp: patch_import_def img w Let_def split: if_splits)
  note keeps = write_image_bytes_keeps [OF w]
  show ?thesis
  proof (cases owner)
    case None
    have "safe_step g g'" by (rule safe_step_members) (simp_all add: g' None set_owner_image_def tick_def same_books_def)
    then show ?thesis using assms(1) by (rule owner_step_safe)
  next
    case (Some n)
    let ?g = "upd_module n (\<lambda>m. m\<lparr>lm_image := img'\<rparr>) g"
    have n: "n < length (gg_modules g)" "lm_state (gg_modules g ! n) = Resolving"
      using assms(1) by (simp_all add: resolving_def Some)
    have img_n: "img = lm_image (gg_modules g ! n)" using img by (simp add: owner_image_def Some)
    have "wf_graph {} [] ?g" if "wf_graph {} [] g"
      using keeps by (intro wf_graph_upd(1) [OF that]) (simp_all add: img_n loaded_state_def)
    moreover have "dependencies_attached ?g" if "wf_graph {} [] g" "dependencies_attached g"
      using keeps by (intro wf_graph_upd(2) [OF that(1) _ _ _ _ _ _ _ that(2)]) (simp_all add: img_n loaded_state_def)
    ultimately have "owner_step owner g ?g"
      using n by (auto simp: owner_step_def Some resolving_def nth_upd_module nothing_attached_def none_above_def)
    moreover have "owner_step owner ?g g'"
      using n by (intro owner_step_safe safe_step_members)
        (simp_all add: g' Some set_owner_image_def tick_def resolving_def nth_upd_module same_books_def)
    ultimately show ?thesis by (rule owner_step_trans)
  qed
qed

lemma owner_step_reference:
  assumes "resolving owner g" "\<And>t. target = Some t \<Longrightarrow> t < length (gg_modules g)"
  shows "owner_step owner g (add_reference owner target g)"
proof (cases target)
  case None
  then show ?thesis using assms(1) by (simp add: add_reference_def owner_step_refl)
next
  case (Some t)
  then have t: "t < length (gg_modules g)" using assms(2) by simp
  let ?count = "upd_module t (\<lambda>m. m\<lparr>lm_static_refs := lm_static_refs m + 1\<rparr>)"
  have one: "kept g (?count g)" for g by (rule kept_upd_module) (simp add: kept_module_def same_state_def)
  show ?thesis
  proof (cases owner)
    case None
    have "safe_step g (?count g)"
      unfolding safe_step_def using one [of g] nothing_attached_kept [OF one [of g]] wf_graph_upd [of "{}" "[]" g "\<lambda>m. m\<lparr>lm_static_refs := lm_static_refs m + 1\<rparr>" t]
      by (auto simp: loaded_state_def)
    then show ?thesis using assms(1) by (auto simp: add_reference_def Some None intro: owner_step_safe)
  next
    case owner: (Some n)
    have n: "n < length (gg_modules g)" "lm_state (gg_modules g ! n) = Resolving"
      using assms(1) by (simp_all add: resolving_def owner)
    show ?thesis
    proof (cases "n = t \<or> t \<in> set (lm_dependencies (gg_modules g ! n))")
      case True
      then show ?thesis using assms(1) by (auto simp: add_reference_def Some owner owner_step_refl)
    next
      case False
      let ?g1 = "upd_module n (\<lambda>m. m\<lparr>lm_dependencies := lm_dependencies m @ [t]\<rparr>) g"
      define h where "h = ?count ?g1"
      have h: "length (gg_modules h) = length (gg_modules g)" "gg_views h = gg_views g" by (simp_all add: h_def)
      have bk: "same_books g h" by (simp add: h_def same_books_def)
      have nth: "gg_modules h ! k = (if k = t then (gg_modules g ! t)\<lparr>lm_static_refs := lm_static_refs (gg_modules g ! t) + 1\<rparr>
          else if k = n then (gg_modules g ! n)\<lparr>lm_dependencies := lm_dependencies (gg_modules g ! n) @ [t]\<rparr>
          else gg_modules g ! k)" if "k < length (gg_modules g)" for k
        using that t n(1) False by (simp add: h_def nth_upd_module)
      have own: "owners {} j h = (if j = t then insert n (owners {} t g) else owners {} j g)" for j
        using n False by (auto simp: owners_def h nth loaded_state_def split: if_splits)
      have "wf_graph {} [] h" if wf: "wf_graph {} [] g"
      proof -
        have "n \<notin> owners {} t g" using False by (simp add: owners_def)
        then have "counted {} [] h"
          using wf_graphD(1) [OF wf] by (auto simp: counted_def own h nth)
        moreover have "wf_dependencies h"
          using wf_graphD(2) [OF wf] t False by (auto simp: wf_dependencies_def h nth split: if_splits)
        moreover have "wf_images h"
          using wf_images_nth [OF wf_graphD(4) [OF wf]] by (intro wf_imagesI) (auto simp: h nth loaded_state_def)
        moreover have "wf_views h"
          by (rule wf_views_keep [OF wf_graphD(5) [OF wf]]) (auto simp: h nth)
        ultimately show ?thesis by (simp add: wf_graph_def none_attached_def)
      qed
      moreover have "dependencies_attached h" if "wf_graph {} [] g" "dependencies_attached g"
      proof -
        have st: "lm_state (gg_modules h ! k) = lm_state (gg_modules g ! k)" if "k < length (gg_modules g)" for k
          using that by (simp add: nth)
        have dp: "lm_dependencies (gg_modules h ! k) = lm_dependencies (gg_modules g ! k)"
          if "k < length (gg_modules g)" "lm_state (gg_modules g ! k) = Attached" for k using that n by (auto simp: nth)
        show ?thesis
          using that(2) wf_graphD(2) [OF that(1)] n by (auto simp: dependencies_attached_def wf_dependencies_def h st dp)
      qed
      ultimately have "owner_step owner g h"
        using n False bk by (auto simp: owner_step_def owner resolving_def h nth kept_module_def same_state_def
            nothing_attached_def none_above_def)
      then show ?thesis using False by (simp add: add_reference_def Some owner h_def)
    qed
  qed
qed

section \<open>Taking a module down\<close>

lemma owners_without: "i \<in> owners {} j g \<Longrightarrow> card (owners {i} j g) + 1 = card (owners {} j g)"
proof -
  assume i: "i \<in> owners {} j g"
  have "owners {i} j g = owners {} j g - {i}" by (auto simp: owners_def)
  then show ?thesis using i by (simp add: card_gt_0_iff) (metis Suc_pred' card_gt_0_iff empty_iff finite_owners One_nat_def)
qed

text \<open>A module that is not attached goes; it has its references \<open>ds\<close> still to give back.\<close>

lemma wf_graph_take_down:
  assumes wf: "wf_graph {} [] g" and i: "i < length (gg_modules g)" "lm_state (gg_modules g ! i) \<noteq> Attached"
    and loaded: "loaded_state (gg_modules g ! i)" and ds: "distinct ds" "set ds \<subseteq> set (lm_dependencies (gg_modules g ! i))"
  shows "wf_graph {i} ds g"
proof -
  have "card (owners {i} j g) + count_list ds j \<le> lm_static_refs (gg_modules g ! j)" if j: "j < length (gg_modules g)" for j
  proof -
    have le: "card (owners {} j g) \<le> lm_static_refs (gg_modules g ! j)" using wf_graphD(1) [OF wf] j by (simp add: counted_def)
    have sub: "owners {i} j g \<subseteq> owners {} j g" by (auto simp: owners_def)
    show ?thesis
    proof (cases "j \<in> set ds")
      case True
      then have "i \<in> owners {} j g" using i loaded ds by (auto simp: owners_def)
      then show ?thesis using owners_without [of i j g] le True ds(1) by (simp add: count_list_distinct)
    next
      case False
      then show ?thesis using card_mono [OF finite_owners sub] le by (simp add: count_list_0_iff)
    qed
  qed
  then show ?thesis using wf i by (simp add: wf_graph_def counted_def none_attached_def)
qed

lemma release_dependencies_facts:
  "kept g (fold (release_dependency env) ds g)" "length (gg_modules (fold (release_dependency env) ds g)) = length (gg_modules g)"
  by (auto intro: kept_fold kept_release_dependency length_fold)

text \<open>After the last references are given back, the module and those above it can be cut off.\<close>

lemma wf_graph_cut:
  assumes wf: "wf_graph {n} [] g" and n: "n < length (gg_modules g)"
    and below: "\<And>k d. k < n \<Longrightarrow> d \<in> set (lm_dependencies (gg_modules g ! k)) \<Longrightarrow> d < n"
    and above: "none_above n g"
  shows "wf_graph {} [] (g\<lparr>gg_modules := take n (gg_modules g)\<rparr>)"
    and "dependencies_attached g \<Longrightarrow> dependencies_attached (g\<lparr>gg_modules := take n (gg_modules g)\<rparr>)"
proof -
  let ?g = "g\<lparr>gg_modules := take n (gg_modules g)\<rparr>"
  have own: "owners {} j ?g \<subseteq> owners {n} j g" for j by (auto simp: owners_def)
  have "card (owners {} j ?g) \<le> lm_static_refs (gg_modules g ! j)" if "j < n" for j
  proof -
    have "card (owners {n} j g) \<le> lm_static_refs (gg_modules g ! j)"
      using wf_graphD(1) [OF wf] that n by (simp add: counted_def)
    then show ?thesis using card_mono [OF finite_owners own] le_trans by blast
  qed
  then have "counted {} [] ?g" using n by (simp add: counted_def)
  moreover have "wf_dependencies ?g" using wf_graphD(2) [OF wf] n below by (auto simp: wf_dependencies_def)
  moreover have "wf_images ?g" using wf_graphD(4) [OF wf] by (auto simp: wf_images_def dest: in_set_takeD)
  moreover have "wf_views ?g"
  proof (rule wf_views_keep [OF wf_graphD(5) [OF wf]])
    fix k assume "k < length (gg_modules g)" "lm_state (gg_modules g ! k) = Attached"
    then have "k < n" using above by (meson none_above_def not_le)
    then show "k < length (gg_modules ?g) \<and> lm_state (gg_modules ?g ! k) = Attached \<and>
        base (lm_image (gg_modules ?g ! k)) = base (lm_image (gg_modules g ! k))"
      using n \<open>lm_state (gg_modules g ! k) = Attached\<close> by simp
  qed simp
  ultimately show "wf_graph {} [] ?g" by (simp add: wf_graph_def none_attached_def)
  show "dependencies_attached ?g" if "dependencies_attached g"
    using that n below unfolding dependencies_attached_def by (simp; meson less_trans)
qed

section \<open>The contract of a loader\<close>

lemma find_index_bound: "find_index P g = Some i \<Longrightarrow> i < length (gg_modules g) \<and> P (gg_modules g ! i)"
  by (auto simp: find_index_def find_Some_iff)

lemma find_loaded_bound: "find_loaded name prov g = Some i \<Longrightarrow> i < length (gg_modules g)"
  by (auto simp: find_loaded_def dest: find_index_bound)

locale module_loader =
  fixes ld :: loader and env :: graph_env
  assumes loads_safely: "ld name prov source g = (r, g') \<Longrightarrow> safe_step g g'"
    and loads_index: "ld name prov source g = (Some i, g') \<Longrightarrow> i < length (gg_modules g')"
begin

lemma ensure_profile:
  assumes "ensure_profile_module ld env name g = (r, g')"
  shows "safe_step g g' \<and> (\<forall>i. r = Some i \<longrightarrow> i < length (gg_modules g'))"
  using assms loads_safely loads_index find_loaded_bound
  by (auto simp: ensure_profile_module_def Let_def split: option.splits if_splits)

lemma ensure_drive:
  assumes "ensure_drive_module ld env name requester g = (r, g')"
  shows "safe_step g g' \<and> (\<forall>i. r = Some i \<longrightarrow> i < length (gg_modules g'))"
  using assms loads_safely loads_index find_loaded_bound
  by (auto simp: ensure_drive_module_def Let_def split: option.splits if_splits)

text \<open>A found export comes from a module of the graph or from none.\<close>

definition answers :: "graph \<Rightarrow> GraphExportLookup \<times> graph \<Rightarrow> bool" where
  "answers g p \<longleftrightarrow> (case p of (l, g') \<Rightarrow> safe_step g g' \<and>
     (\<forall>i. found (gl_lookup l) \<and> gl_module l = Some i \<longrightarrow> i < length (gg_modules g')))"

lemma try_guest_answers:
  assumes "try_guest follow index prov q g = (r, g')"
    and "\<And>i. index = Some i \<Longrightarrow> i < length (gg_modules g)" "\<And>q g. answers g (follow q g)"
  shows "safe_step g g' \<and> (\<forall>l. r = Some l \<longrightarrow> answers g (l, g'))"
proof (cases index)
  case None
  then show ?thesis using assms(1) by (simp add: try_guest_def)
next
  case (Some i)
  let ?d = "direct_export (lm_info (gg_modules g ! i)) (lm_image (gg_modules g ! i)) q"
  have i: "i < length (gg_modules g)" by (rule assms(2)) (rule Some)
  show ?thesis
  proof (cases "found ?d \<and> lk_forwarder ?d \<noteq> [] \<and> graph_parse_forwarder (lk_forwarder ?d) \<noteq> None")
    case True
    then obtain target where t: "graph_parse_forwarder (lk_forwarder ?d) = Some target" by auto
    obtain l' g1 where f: "follow target g = (l', g1)" by fastforce
    have "safe_step g g1" "found (gl_lookup l') \<Longrightarrow> gl_module l' = Some k \<Longrightarrow> k < length (gg_modules g1)" for k
      using assms(3) [of g target] by (auto simp: f answers_def)
    then show ?thesis
      using assms(1) True i by (auto simp: try_guest_def Some Let_def t f answers_def dest: safe_step_length split: if_splits)
  next
    case False
    then show ?thesis
      using assms(1) i by (auto simp: try_guest_def Some Let_def answers_def split: if_splits option.splits)
  qed
qed

lemma missing_answers: "answers g (missing d, g)"
  by (simp add: answers_def missing_def no_lookup_def)

lemma builtin_answers: "safe_step g g' \<Longrightarrow> answers g (builtin_answer env q, g')"
  by (auto simp: answers_def builtin_answer_def Let_def missing_def no_lookup_def)

lemma answers_trans: "safe_step g g' \<Longrightarrow> answers g' (l, g'') \<Longrightarrow> answers g (l, g'')"
  by (auto simp: answers_def intro: safe_step_trans)

lemma resolve_export_internal_answers: "answers g (resolve_export_internal left ld env requester visits q g)"
proof (induction left arbitrary: visits q g)
  case 0
  then show ?case by (simp add: missing_answers)
next
  case (Suc left)
  let ?q = "q\<lparr>q_dll := normalize_module_name (q_dll q)\<rparr>"
  let ?follow = "resolve_export_internal left ld env requester (visits @ [?q])"
  show ?case
  proof (cases "q_dll ?q = [] \<or> graph_same_visit visits ?q")
    case True
    then show ?thesis by (auto simp: missing_answers Let_def)
  next
    case False
    obtain p g1 where p: "ensure_profile_module ld env (normalize_module_name (q_dll q)) g = (p, g1)" by fastforce
    note p' = ensure_profile [OF p]
    obtain r2 g2 where t: "try_guest ?follow p Profile ?q g1 = (r2, g2)" by fastforce
    have t': "safe_step g1 g2 \<and> (\<forall>l. r2 = Some l \<longrightarrow> answers g1 (l, g2))"
      by (rule try_guest_answers [OF t]) (use p' Suc.IH in auto)
    show ?thesis
    proof (cases r2)
      case (Some l)
      then show ?thesis using False p' t' p t by (auto simp: Let_def intro: answers_trans)
    next
      case None
      obtain d g3 where d: "ensure_drive_module ld env (normalize_module_name (q_dll q)) requester g2 = (d, g3)" by fastforce
      note d' = ensure_drive [OF d]
      obtain r4 g4 where u: "try_guest ?follow d DriveC ?q g3 = (r4, g4)" by fastforce
      have u': "safe_step g3 g4 \<and> (\<forall>l. r4 = Some l \<longrightarrow> answers g3 (l, g4))"
        by (rule try_guest_answers [OF u]) (use d' Suc.IH in auto)
      have g3: "safe_step g g3" using p' t' d' by (blast intro: safe_step_trans)
      have eq: "resolve_export_internal (Suc left) ld env requester visits q g =
          (case r4 of Some l \<Rightarrow> (l, g4) | None \<Rightarrow> (builtin_answer env ?q, g4))"
        using False by (simp add: Let_def p t None d u split: option.split)
      show ?thesis
      proof (cases r4)
        case None
        then show ?thesis unfolding eq using g3 u' by (auto intro: builtin_answers safe_step_trans)
      next
        case (Some l)
        then show ?thesis unfolding eq using g3 u' by (auto intro: answers_trans)
      qed
    qed
  qed
qed

lemma resolve_export_answers: "answers g (resolve_export_with ld env requester q g)"
  unfolding resolve_export_with_def by (rule resolve_export_internal_answers)

lemma resolve_import_step:
  assumes "resolving owner g" "resolve_import ld env requester owner imp (result, g) = (result', g')"
  shows "owner_step owner g g'"
proof -
  obtain mech dll s where imp: "imp = (mech, dll, s)" by (cases imp) auto
  obtain l g1 where l: "resolve_export_with ld env requester (graph_query dll s) g = (l, g1)" by fastforce
  have ans: "safe_step g g1" "found (gl_lookup l) \<Longrightarrow> gl_module l = Some i \<Longrightarrow> i < length (gg_modules g1)" for i
    using resolve_export_answers [of g requester "graph_query dll s"] by (auto simp: answers_def l)
  have g1: "owner_step owner g g1" using ans(1) assms(1) by (rule owner_step_safe)
  let ?e = "(new_entry mech dll s)\<lparr>ri_ordinal := lk_ordinal (gl_lookup l), ri_address := lk_address (gl_lookup l),
      ri_support := lk_support (gl_lookup l), ri_provider := gl_provider_name l\<rparr>"
  show ?thesis
  proof (cases "found (gl_lookup l) \<and> lk_address (gl_lookup l) \<noteq> 0")
    case False
    then show ?thesis using assms(2) g1 by (auto simp: resolve_import_def imp l Let_def split: if_splits)
  next
    case True
    obtain ok e' g2 where p: "patch_import env owner ?e g1 = (ok, e', g2)" by (metis prod_cases3)
    have g2: "owner_step owner g1 g2" by (rule owner_step_patch [OF owner_step_resolving [OF g1] p])
    have len: "length (gg_modules g1) \<le> length (gg_modules g2)" using g2 by (simp add: owner_step_def)
    have "owner_step owner g2 (add_reference owner (gl_module l) g2)"
      by (rule owner_step_reference [OF owner_step_resolving [OF g2]]) (use ans(2) True len in fastforce)
    then show ?thesis
      using assms(2) True p owner_step_trans [OF g1 g2] owner_step_trans
      by (auto simp: resolve_import_def imp l Let_def split: bool.splits)
  qed
qed

lemma resolve_imports_step:
  assumes "resolving owner g" "resolve_imports_for_module ld env info requester owner g = (result, g')"
  shows "owner_step owner g g'"
proof -
  have "owner_step owner g (snd (fold (resolve_import ld env requester owner) imps (result, g)))"
    if "resolving owner g" for imps result g
    using that
  proof (induction imps arbitrary: result g)
    case Nil
    then show ?case by (simp add: owner_step_refl)
  next
    case (Cons imp imps)
    obtain r g1 where s: "resolve_import ld env requester owner imp (result, g) = (r, g1)" by fastforce
    have g1: "owner_step owner g g1" by (rule resolve_import_step [OF Cons.prems s])
    show ?case using owner_step_trans [OF g1 Cons.IH [OF owner_step_resolving [OF g1]]] by (simp add: s)
  qed
  from this [OF assms(1), of "all_imports info" empty_result] show ?thesis
    using assms(2) by (simp add: resolve_imports_for_module_def)
qed

text \<open>The last module, whose imports could not be resolved, is cut off with those above it.\<close>

lemma drop_modules_safe:
  assumes g: "wf_graph {} [] g \<Longrightarrow> wf_dependencies g"
    and kept: "\<And>k. k < length (gg_modules g) \<Longrightarrow> kept_module (gg_modules g ! k) (gg_modules g2 ! k)"
    and n: "length (gg_modules g) < length (gg_modules g2)" "lm_state (gg_modules g2 ! length (gg_modules g)) = Resolving"
    and above: "none_above (length (gg_modules g)) g2" and books: "same_books g g2"
    and wf: "wf_graph {} [] g \<Longrightarrow> wf_graph {} [] g2"
    and da: "wf_graph {} [] g \<Longrightarrow> dependencies_attached g \<Longrightarrow> dependencies_attached g2"
  shows "safe_step g (drop_modules env (length (gg_modules g)) g2)"
proof -
  let ?n = "length (gg_modules g)"
  let ?ds = "filter (\<lambda>d. d < ?n) (lm_dependencies (gg_modules g2 ! ?n))"
  define g3 where "g3 = fold (release_dependency env) ?ds g2"
  let ?g = "g3\<lparr>gg_modules := take ?n (gg_modules g3)\<rparr>"
  have k3: "kept g2 g3" and l3: "length (gg_modules g3) = length (gg_modules g2)"
    by (simp_all add: g3_def release_dependencies_facts)
  have km: "kept_module (gg_modules g ! k) (gg_modules g3 ! k)" if "k < ?n" for k
    using kept [OF that] keptD [OF k3, of k] that n(1) by (meson kept_module_trans less_trans)
  have "kept g ?g" using km l3 n(1) by (simp add: kept_def)
  moreover have above3: "none_above ?n g3"
    using above nothing_attached_kept [OF k3 l3] n(1) by (simp add: nothing_attached_def)
  then have "nothing_attached g ?g"
    using l3 n(1) by (auto simp: nothing_attached_def none_above_def dest: kept_module_attached [OF km])
  moreover have "wf_graph {} [] ?g \<and> (dependencies_attached g \<longrightarrow> dependencies_attached ?g)" if wfg: "wf_graph {} [] g"
  proof -
    have w2: "wf_graph {?n} ?ds g2"
      using wf [OF wfg] n wf_graphD(2) [OF wf [OF wfg]]
      by (intro wf_graph_take_down) (auto simp: loaded_state_def wf_dependencies_def)
    have w3: "wf_graph {?n} [] g3" "dependencies_attached g2 \<Longrightarrow> dependencies_attached g3"
      using wf_graph_release_dependencies [of "{?n}" ?ds "[]" g2 env] w2 by (simp_all add: g3_def)
    have below: "d < ?n" if "k < ?n" "d \<in> set (lm_dependencies (gg_modules g3 ! k))" for k d
      using km [OF that(1)] that g [OF wfg] by (auto simp: kept_module_def wf_dependencies_def)
    have n3: "?n < length (gg_modules g3)" using n(1) l3 by simp
    show ?thesis
      using wf_graph_cut [OF w3(1) n3 below above3] w3(2) da [OF wfg] by auto
  qed
  moreover have "same_books g ?g"
  proof -
    have "same_books g2 g3" unfolding g3_def by (rule same_books_fold) (rule same_books_release_dependency)
    then show ?thesis using books by (simp add: same_books_def)
  qed
  ultimately have "safe_step g ?g" by (simp add: safe_step_def)
  moreover have "safe_step ?g (drop_modules env ?n g2)"
    by (rule safe_step_members) (simp_all add: drop_modules_def g3_def Let_def reject_profile_module_def same_books_def)
  ultimately show ?thesis by (rule safe_step_trans)
qed

lemma push_module_members [simp]:
  "length (gg_modules (push_module name prov source info img g)) = Suc (length (gg_modules g))"
  "gg_views (push_module name prov source info img g) = gg_views g"
  by (simp_all add: push_module_def)

lemma nth_push_module:
  "k \<le> length (gg_modules g) \<Longrightarrow> gg_modules (push_module name prov source info img g) ! k =
     (if k = length (gg_modules g) then
        \<lparr>lm_name = name, lm_provider = prov, lm_source = source, lm_info = info, lm_image = img,
          lm_state = Resolving, lm_static_refs = 0, lm_dynamic_refs = 0, lm_process_attached = False,
          lm_dependencies = []\<rparr> else gg_modules g ! k)"
  by (simp add: push_module_def nth_append)

lemma push_module_wf:
  assumes "memory img \<noteq> None" "wf_graph {} [] g"
  shows "wf_graph {} [] (push_module name prov source info img g)"
    and "dependencies_attached g \<Longrightarrow> dependencies_attached (push_module name prov source info img g)"
proof -
  define h where "h = push_module name prov source info img g"
  let ?n = "length (gg_modules g)"
  have h: "length (gg_modules h) = Suc ?n" "gg_views h = gg_views g" by (simp_all add: h_def)
  have nth: "gg_modules h ! k = gg_modules g ! k" if "k < ?n" for k using that by (simp add: h_def nth_push_module)
  have top: "lm_state (gg_modules h ! ?n) = Resolving" "lm_dependencies (gg_modules h ! ?n) = []"
    "lm_image (gg_modules h ! ?n) = img" "\<not> lm_process_attached (gg_modules h ! ?n)" by (simp_all add: h_def nth_push_module)
  have own: "owners {} j h = owners {} j g" for j
    by (auto simp: owners_def h less_Suc_eq nth top)
  have none: "owners {} ?n g = {}"
    using wf_graphD(2) [OF assms(2)] by (auto simp: owners_def wf_dependencies_def)
  have "counted {} [] h"
    using wf_graphD(1) [OF assms(2)] by (auto simp: counted_def h own less_Suc_eq nth none)
  moreover have "wf_dependencies h"
    using wf_graphD(2) [OF assms(2)] by (auto simp: wf_dependencies_def h less_Suc_eq nth top)
  moreover have "wf_images h"
    using wf_graphD(4) [OF assms(2)] assms(1)
    by (simp add: h_def push_module_def wf_images_def loaded_state_def)
  moreover have "wf_views h"
    by (rule wf_views_keep [OF wf_graphD(5) [OF assms(2)]]) (auto simp: h nth)
  ultimately show "wf_graph {} [] (push_module name prov source info img g)"
    unfolding h_def [symmetric] by (simp add: wf_graph_def none_attached_def)
  show "dependencies_attached (push_module name prov source info img g)" if "dependencies_attached g"
    using that wf_graphD(2) [OF assms(2)] unfolding h_def [symmetric]
    by (auto simp: dependencies_attached_def h less_Suc_eq nth top wf_dependencies_def)
qed

lemma image_just_mapped: "map_image os page info file opt = Inr img \<Longrightarrow> memory img \<noteq> None"
  by (erule map_image_steps) simp

lemma load_step_safe:
  assumes "load_step ld env name prov source g = (r, g')"
  shows "safe_step g g' \<and> (\<forall>i. r = Some i \<longrightarrow> i < length (gg_modules g'))"
proof -
  consider (same) "g' = g \<or> g' = tick g" "r = None \<or> r = find_loaded name prov g"
    | (pushed) info bs img where "map_image (ge_os env (gg_clock g)) (ge_page env) info bs 0 = Inr img"
        "(case resolve_imports_for_module ld env info source (Some (length (gg_modules g)))
            (push_module name prov source info img (tick g)) of (result, g2) \<Rightarrow>
           if rr_status result \<noteq> Resolved then (None, drop_modules env (length (gg_modules g)) g2)
           else (Some (length (gg_modules g)), upd_module (length (gg_modules g)) (\<lambda>m. m\<lparr>lm_state := Ready\<rparr>) g2)) = (r, g')"
    using assms unfolding load_step_def
    by (cases "find_loaded name prov g") (auto simp: Let_def split: option.splits sum.splits if_splits)
  then show ?thesis
  proof cases
    case same
    then have "safe_step g g'" by (auto simp: tick_def same_books_def intro: safe_step_members)
    moreover have "i < length (gg_modules g')" if "r = Some i" for i
      using same find_loaded_bound [of name prov g i] that by (auto simp: tick_def)
    ultimately show ?thesis by blast
  next
    case pushed
    let ?n = "length (gg_modules g)"
    define g1 where "g1 = push_module name prov source info img (tick g)"
    obtain result g2 where res: "resolve_imports_for_module ld env info source (Some ?n) g1 = (result, g2)" by fastforce
    have tick: "gg_modules (tick g) = gg_modules g" "safe_step g (tick g)"
      by (simp_all add: tick_def safe_step_members same_books_def)
    have "resolving (Some ?n) g1" by (simp add: resolving_def g1_def tick nth_push_module)
    then have step: "owner_step (Some ?n) g1 g2" by (rule resolve_imports_step) (rule res)
    have km: "kept_module (gg_modules g ! k) (gg_modules g2 ! k)" if "k < ?n" for k
      using step that by (auto simp: owner_step_def g1_def nth_push_module tick)
    have n: "?n < length (gg_modules g2)" "lm_state (gg_modules g2 ! ?n) = Resolving"
      using step by (simp_all add: owner_step_def resolving_def)
    have "none_above ?n g1" by (auto simp: none_above_def g1_def nth_push_module tick le_less_Suc_eq)
    then have above: "none_above ?n g2" using step by (simp add: owner_step_def nothing_attached_def g1_def tick)
    have "same_books g g1" by (simp add: g1_def push_module_def tick_def same_books_def)
    then have books: "same_books g g2" using step same_books_trans by (auto simp: owner_step_def)
    have wf1: "wf_graph {} [] g1 \<and> (dependencies_attached g \<longrightarrow> dependencies_attached g1)" if "wf_graph {} [] g"
    proof -
      have "wf_graph {} [] (tick g)" "dependencies_attached g \<longrightarrow> dependencies_attached (tick g)"
        using tick(2) that by (auto simp: safe_step_def)
      then show ?thesis
        unfolding g1_def using push_module_wf [OF image_just_mapped [OF pushed(1)]] by blast
    qed
    have wf2: "wf_graph {} [] g2" "dependencies_attached g \<Longrightarrow> dependencies_attached g2" if "wf_graph {} [] g"
      using wf1 [OF that] step by (auto simp: owner_step_def)
    show ?thesis
    proof (cases "rr_status result = Resolved")
      case False
      then have "r = None" "g' = drop_modules env ?n g2" using pushed(2) res by (simp_all add: g1_def)
      moreover have "safe_step g (drop_modules env ?n g2)"
        by (rule drop_modules_safe [OF _ km n above books]) (use wf2 wf_graphD(2) in auto)
      ultimately show ?thesis by simp
    next
      case True
      let ?g = "upd_module ?n (\<lambda>m. m\<lparr>lm_state := Ready\<rparr>) g2"
      have eq: "r = Some ?n" "g' = ?g" using pushed(2) res True by (simp_all add: g1_def)
      have "kept g ?g" using km n by (auto simp: kept_def nth_upd_module)
      moreover have "lm_state (gg_modules ?g ! k) \<noteq> Attached"
        if "j \<le> ?n" "none_above j g" "j \<le> k" "k < length (gg_modules g2)" for j k
      proof (cases "k < ?n")
        case True
        then show ?thesis using that n by (auto simp: none_above_def nth_upd_module dest: kept_module_attached [OF km])
      next
        case False
        then show ?thesis using that n above by (simp add: none_above_def nth_upd_module)
      qed
      then have "nothing_attached g ?g" by (simp add: nothing_attached_def none_above_def)
      moreover have "wf_graph {} [] ?g" if "wf_graph {} [] g"
        using n by (intro wf_graph_upd(1) [OF wf2(1) [OF that]]) (simp_all add: loaded_state_def)
      moreover have "dependencies_attached ?g" if "wf_graph {} [] g" "dependencies_attached g"
        using n by (intro wf_graph_upd(2) [OF wf2(1) [OF that(1)] _ _ _ _ _ _ _ wf2(2) [OF that]]) (simp_all add: loaded_state_def)
      moreover have "same_books g ?g" using books by (simp add: same_books_def)
      ultimately show ?thesis using n eq by (simp add: safe_step_def)
    qed
  qed
qed

end

lemma module_loader_load_go: "module_loader (load_go n env)"
proof (induction n)
  case 0
  then show ?case by unfold_locales auto
next
  case (Suc n)
  show ?case by unfold_locales (use module_loader.load_step_safe [OF Suc] in auto)
qed

end
