(* ===== verification/Graph_Attach.thy ===== *)
theory Graph_Attach
  imports Graph_Loading
begin

text \<open>
  Attaching modules keeps the invariant, and a module is attached only after its dependencies; the
  operations of the graph and the states they reach.
\<close>

interpretation loading: module_loader "load_pe_module env" env for env
  unfolding load_pe_module_def by (rule module_loader_load_go)

definition sound_graph :: "graph \<Rightarrow> bool" where
  "sound_graph g \<longleftrightarrow> wf_graph {} [] g \<and> dependencies_attached g"

lemma sound_graphD: "sound_graph g \<Longrightarrow> wf_graph {} [] g" "sound_graph g \<Longrightarrow> dependencies_attached g"
  by (simp_all add: sound_graph_def)

lemma sound_graph_safe: "safe_step g g' \<Longrightarrow> sound_graph g \<Longrightarrow> sound_graph g'"
  by (simp add: safe_step_def sound_graph_def)

lemma sound_graph_same: "same_graph g g' \<Longrightarrow> sound_graph g \<Longrightarrow> sound_graph g'"
  by (simp add: sound_graph_def wf_graph_same dependencies_attached_same)

lemma sound_graph_upd:
  assumes "sound_graph g"
    "lm_dependencies (f (gg_modules g ! i)) = lm_dependencies (gg_modules g ! i)"
    "loaded_state (f (gg_modules g ! i)) = loaded_state (gg_modules g ! i)"
    "lm_state (f (gg_modules g ! i)) = Attached \<longleftrightarrow> lm_state (gg_modules g ! i) = Attached"
    "lm_process_attached (f (gg_modules g ! i)) = lm_process_attached (gg_modules g ! i)"
    "lm_image (f (gg_modules g ! i)) = lm_image (gg_modules g ! i)"
    "lm_static_refs (f (gg_modules g ! i)) = lm_static_refs (gg_modules g ! i)"
  shows "sound_graph (upd_module i f g)"
  using assms wf_graph_upd [OF sound_graphD(1) [OF assms(1)], of f i] by (simp add: sound_graph_def)

section \<open>Rejecting a module\<close>

lemma nth_reject_loaded_module:
  assumes "i < length (gg_modules g)" "k < length (gg_modules g)" "k \<noteq> i"
  shows "gg_modules (reject_loaded_module env i g) ! k =
    gg_modules (fold (release_dependency env) (lm_dependencies (gg_modules g ! i)) g) ! k"
  using assms by (simp add: reject_loaded_module_def Let_def nth_upd_module release_dependencies_facts)

lemma length_reject_loaded_module [simp]:
  "length (gg_modules (reject_loaded_module env i g)) = length (gg_modules g)"
  by (simp add: reject_loaded_module_def Let_def release_dependencies_facts)

lemma sound_graph_reject:
  assumes sound: "sound_graph g" and i: "i < length (gg_modules g)" "lm_state (gg_modules g ! i) \<noteq> Attached"
    and loaded: "loaded_state (gg_modules g ! i)"
  shows "sound_graph (reject_loaded_module env i g)"
proof -
  let ?ds = "lm_dependencies (gg_modules g ! i)"
  define g1 where "g1 = fold (release_dependency env) ?ds g"
  have k1: "kept g g1" and l1: "length (gg_modules g1) = length (gg_modules g)"
    by (simp_all add: g1_def release_dependencies_facts)
  have "wf_graph {i} ?ds g"
    using sound i loaded wf_graphD(2) [OF sound_graphD(1) [OF sound]]
    by (intro wf_graph_take_down) (auto simp: sound_graph_def wf_dependencies_def)
  then have w1: "wf_graph {i} [] g1" and d1: "dependencies_attached g1"
    using wf_graph_release_dependencies [of "{i}" ?ds "[]" g env] sound by (simp_all add: g1_def sound_graph_def)
  have st: "lm_state (gg_modules g1 ! i) = lm_state (gg_modules g ! i)"
    using keptD [OF k1 i(1)] i(2) by (auto simp: kept_module_def same_state_def went_away_def)
  then have mem: "memory (lm_image (gg_modules g1 ! i)) \<noteq> None"
    using wf_images_nth [OF wf_graphD(4) [OF w1], of i] i l1 loaded by (simp add: loaded_state_def)
  define h where "h = reject_loaded_module env i g"
  have h: "length (gg_modules h) = length (gg_modules g1)"
    "gg_views h = remove_guest_module_unwind_image (base (lm_image (gg_modules g1 ! i))) (gg_views g1)"
    using i mem by (auto simp: h_def reject_loaded_module_def g1_def [symmetric] Let_def l1 image_handle_def)
  have nth: "gg_modules h ! k = (if k = i then (gg_modules g1 ! i)\<lparr>lm_dependencies := [], lm_process_attached := False,
        lm_state := Rejected, lm_image := unmap_image (lm_image (gg_modules g1 ! i))\<rparr> else gg_modules g1 ! k)"
    if "k < length (gg_modules g1)" for k
    using that i mem l1 by (auto simp: h_def reject_loaded_module_def g1_def [symmetric] Let_def nth_upd_module)
  have own: "owners {} j h = owners {i} j g1" for j
    by (auto simp: owners_def h nth loaded_state_def split: if_splits)
  have "counted {} [] h" using wf_graphD(1) [OF w1] by (auto simp: counted_def own h nth)
  moreover have "wf_dependencies h" using wf_graphD(2) [OF w1] by (auto simp: wf_dependencies_def h nth split: if_splits)
  moreover have "wf_images h"
    using wf_images_nth [OF wf_graphD(4) [OF w1]] by (intro wf_imagesI) (auto simp: h nth loaded_state_def)
  moreover have "wf_views h"
    using i(2) st by (intro wf_views_remove [OF wf_graphD(5) [OF w1]]) (auto simp: h nth)
  moreover have "dependencies_attached h"
  proof -
    have att: "lm_state (gg_modules h ! k) = Attached \<longleftrightarrow> lm_state (gg_modules g1 ! k) = Attached"
      if "k < length (gg_modules g1)" for k using that st i(2) by (auto simp: nth)
    have "k \<noteq> i" if "lm_state (gg_modules g1 ! k) = Attached" for k using that st i(2) by auto
    then have dp: "lm_dependencies (gg_modules h ! k) = lm_dependencies (gg_modules g1 ! k)"
      if "k < length (gg_modules g1)" "lm_state (gg_modules g1 ! k) = Attached" for k using that by (simp add: nth)
    show ?thesis using d1 wf_graphD(2) [OF w1]
      by (auto simp: dependencies_attached_def wf_dependencies_def h att dp)
  qed
  ultimately show ?thesis unfolding h_def [symmetric] by (simp add: sound_graph_def wf_graph_def none_attached_def)
qed

section \<open>Attaching\<close>

lemma replace_view_Some:
  "replace_view v es = Some es' \<Longrightarrow> map view_base es' = map view_base es \<and> set es' \<subseteq> insert v (set es)"
  by (induction es arbitrary: es') (auto split: if_splits)

lemma replace_view_None: "replace_view v es = None \<longleftrightarrow> view_base v \<notin> view_base ` set es"
  by (induction es) auto

lemma length_finish_attach [simp]: "length (gg_modules (finish_attach i g)) = length (gg_modules g)"
  by (simp add: finish_attach_def Let_def)

lemma nth_finish_attach:
  "k < length (gg_modules g) \<Longrightarrow> gg_modules (finish_attach i g) ! k =
     (if k = i then (gg_modules g ! i)\<lparr>lm_process_attached := True, lm_state := Attached\<rparr> else gg_modules g ! k)"
  by (simp add: finish_attach_def Let_def nth_upd_module)

lemma finish_attach_views:
  "g_module_unwind_images (gg_views (finish_attach i g)) = g_module_unwind_images (gg_views g) \<or>
   (\<exists>v. view_base v = image_handle (lm_image (gg_modules g ! i)) \<and> view_base v \<noteq> 0 \<and>
     (replace_view v (g_module_unwind_images (gg_views g)) = Some (g_module_unwind_images (gg_views (finish_attach i g))) \<or>
      replace_view v (g_module_unwind_images (gg_views g)) = None \<and>
      g_module_unwind_images (gg_views (finish_attach i g)) = g_module_unwind_images (gg_views g) @ [v]))"
proof -
  let ?img = "lm_image (gg_modules g ! i)" and ?info = "lm_info (gg_modules g ! i)"
  define v where "v = \<lparr>view_base = image_handle ?img, view_size = image_size ?img,
      view_exception_rva = exception_directory_rva ?info, view_functions = runtime_functions ?info\<rparr>"
  have "g_module_unwind_images (gg_views (finish_attach i g)) = g_module_unwind_images (gg_views g) \<or>
      image_handle ?img \<noteq> 0 \<and>
      (case replace_view v (g_module_unwind_images (gg_views g)) of
         Some es \<Rightarrow> g_module_unwind_images (gg_views (finish_attach i g)) = es
       | None \<Rightarrow> g_module_unwind_images (gg_views (finish_attach i g)) = g_module_unwind_images (gg_views g) @ [v])"
    by (auto simp: finish_attach_def Let_def add_guest_module_unwind_image_def v_def [symmetric] split: option.splits)
  moreover have "view_base v = image_handle ?img" by (simp add: v_def)
  ultimately show ?thesis by (auto split: option.splits)
qed

lemma sound_graph_finish:
  assumes sound: "sound_graph g" and i: "i < length (gg_modules g)" "lm_state (gg_modules g ! i) = Attaching"
    and deps: "\<forall>d \<in> set (lm_dependencies (gg_modules g ! i)). lm_state (gg_modules g ! d) = Attached"
  shows "sound_graph (finish_attach i g)"
proof -
  note wf = sound_graphD(1) [OF sound] and da = sound_graphD(2) [OF sound]
  define h where "h = finish_attach i g"
  have h: "length (gg_modules h) = length (gg_modules g)" by (simp add: h_def)
  have nth: "gg_modules h ! k = (if k = i then (gg_modules g ! i)\<lparr>lm_process_attached := True, lm_state := Attached\<rparr>
      else gg_modules g ! k)" if "k < length (gg_modules g)" for k using that by (simp add: h_def nth_finish_attach)
  have own: "owners {} j h = owners {} j g" for j
    using i by (auto simp: owners_def h nth loaded_state_def split: if_splits)
  have "counted {} [] h" using wf_graphD(1) [OF wf] by (auto simp: counted_def own h nth)
  moreover have "wf_dependencies h" using wf_graphD(2) [OF wf] by (auto simp: wf_dependencies_def h nth)
  moreover have mem: "memory (lm_image (gg_modules g ! i)) \<noteq> None"
    using wf_images_nth [OF wf_graphD(4) [OF wf] i(1)] i(2) by (simp add: loaded_state_def)
  then have "wf_images h"
    using wf_images_nth [OF wf_graphD(4) [OF wf]] by (intro wf_imagesI) (auto simp: h nth loaded_state_def)
  moreover have "wf_views h"
  proof -
    let ?vs = "g_module_unwind_images (gg_views g)" and ?vs' = "g_module_unwind_images (gg_views h)"
    have d: "distinct (map view_base ?vs)" using wf_graphD(5) [OF wf] by (simp add: wf_views_def)
    have old: "view_base v \<noteq> 0 \<and> (\<exists>m \<in> set (gg_modules h). lm_state m = Attached \<and> view_base v = base (lm_image m))"
      if v: "v \<in> set ?vs" for v
    proof -
      obtain k where k: "k < length (gg_modules g)" "lm_state (gg_modules g ! k) = Attached"
        "view_base v = base (lm_image (gg_modules g ! k))" "view_base v \<noteq> 0"
      proof -
        obtain m where "m \<in> set (gg_modules g)" "lm_state m = Attached" "view_base v = base (lm_image m)" "view_base v \<noteq> 0"
          using wf_graphD(5) [OF wf] v by (auto simp: wf_views_def)
        then show ?thesis using that by (auto simp: in_set_conv_nth)
      qed
      then have eq: "gg_modules h ! k = gg_modules g ! k" using i by (auto simp: nth)
      have "gg_modules h ! k \<in> set (gg_modules h)" using k(1) h by (intro nth_mem) simp
      moreover have "lm_state (gg_modules h ! k) = Attached" "view_base v = base (lm_image (gg_modules h ! k))"
        using k by (simp_all add: eq)
      ultimately show ?thesis using k(4) by blast
    qed
    have new: "\<exists>m \<in> set (gg_modules h). lm_state m = Attached \<and> b = base (lm_image m)"
      if "b = image_handle (lm_image (gg_modules g ! i))" for b
    proof -
      have "gg_modules h ! i \<in> set (gg_modules h)" using i(1) h by (intro nth_mem) simp
      moreover have "lm_state (gg_modules h ! i) = Attached" "b = base (lm_image (gg_modules h ! i))"
        using i mem that by (auto simp: nth image_handle_def)
      ultimately show ?thesis by blast
    qed
    show ?thesis
      using finish_attach_views [of i g] unfolding h_def [symmetric]
    proof (elim disjE exE conjE)
      assume "?vs' = ?vs"
      then show ?thesis using old d by (simp add: wf_views_def)
    next
      fix v assume v: "view_base v = image_handle (lm_image (gg_modules g ! i))" "view_base v \<noteq> 0"
        and "replace_view v ?vs = Some ?vs'"
      then have "map view_base ?vs' = map view_base ?vs" "set ?vs' \<subseteq> insert v (set ?vs)"
        using replace_view_Some by blast+
      then show ?thesis using old new [OF v(1)] v(2) d unfolding wf_views_def by auto
    next
      fix v assume v: "view_base v = image_handle (lm_image (gg_modules g ! i))" "view_base v \<noteq> 0"
        and "replace_view v ?vs = None" "?vs' = ?vs @ [v]"
      then show ?thesis using old new [OF v(1)] v(2) d unfolding wf_views_def by (auto simp: replace_view_None)
    qed
  qed
  moreover have "dependencies_attached h"
  proof -
    have st: "lm_state (gg_modules h ! k) = (if k = i then Attached else lm_state (gg_modules g ! k))"
      and dp: "lm_dependencies (gg_modules h ! k) = lm_dependencies (gg_modules g ! k)" if "k < length (gg_modules g)" for k
      using that by (simp_all add: nth)
    have "lm_state (gg_modules h ! d) = Attached"
      if k: "k < length (gg_modules g)" "lm_state (gg_modules h ! k) = Attached" "d \<in> set (lm_dependencies (gg_modules g ! k))" for k d
    proof -
      have "d < length (gg_modules g)" using wf_graphD(2) [OF wf] k by (auto simp: wf_dependencies_def)
      moreover have "lm_state (gg_modules g ! d) = Attached"
        using deps da k st [OF k(1)] by (cases "k = i") (auto simp: dependencies_attached_def)
      ultimately show ?thesis by (simp add: st)
    qed
    then show ?thesis by (simp add: dependencies_attached_def h dp)
  qed
  ultimately show ?thesis unfolding h_def [symmetric] by (simp add: sound_graph_def wf_graph_def none_attached_def)
qed

text \<open>What an attach does to the other modules, whether it succeeds or not, and when it succeeds.\<close>

definition attach_leaves :: "graph \<Rightarrow> graph \<Rightarrow> bool" where
  "attach_leaves g g' \<longleftrightarrow> length (gg_modules g') = length (gg_modules g) \<and>
     (\<forall>k < length (gg_modules g). lm_state (gg_modules g ! k) = Attaching \<longrightarrow>
        lm_state (gg_modules g' ! k) = Attaching \<and>
        lm_dependencies (gg_modules g' ! k) = lm_dependencies (gg_modules g ! k))"

definition advanced :: "graph \<Rightarrow> graph \<Rightarrow> bool" where
  "advanced g g' \<longleftrightarrow> length (gg_modules g') = length (gg_modules g) \<and>
     (\<forall>k < length (gg_modules g).
        lm_dependencies (gg_modules g' ! k) = lm_dependencies (gg_modules g ! k) \<and>
        (lm_state (gg_modules g' ! k) = lm_state (gg_modules g ! k) \<or>
         lm_state (gg_modules g ! k) = Ready \<and> lm_state (gg_modules g' ! k) = Attached))"

definition attach_spec :: "nat \<Rightarrow> graph \<Rightarrow> bool \<times> graph \<Rightarrow> bool" where
  "attach_spec i g p \<longleftrightarrow> sound_graph (snd p) \<and> attach_leaves g (snd p) \<and>
     (fst p \<longrightarrow> advanced g (snd p) \<and> i < length (gg_modules g) \<and> lm_state (gg_modules (snd p) ! i) = Attached)"

lemma attach_leaves_refl [simp]: "attach_leaves g g"
  by (simp add: attach_leaves_def)

lemma attach_leaves_trans: "attach_leaves g g' \<Longrightarrow> attach_leaves g' g'' \<Longrightarrow> attach_leaves g g''"
  by (auto simp: attach_leaves_def)

lemma advanced_refl [simp]: "advanced g g"
  by (simp add: advanced_def)

lemma advanced_trans: "advanced g g' \<Longrightarrow> advanced g' g'' \<Longrightarrow> advanced g g''"
  by (fastforce simp: advanced_def)

lemma attach_dependencies_spec:
  assumes "\<And>d g. sound_graph g \<Longrightarrow> attach_spec d g (attach d g)" "sound_graph g"
    and "attach_dependencies attach ds g = (ok, g')"
  shows "sound_graph g' \<and> attach_leaves g g' \<and>
    (ok \<longrightarrow> advanced g g' \<and> (\<forall>d \<in> set ds. d < length (gg_modules g) \<and> lm_state (gg_modules g' ! d) = Attached))"
  using assms(2,3)
proof (induction ds arbitrary: g)
  case Nil
  then show ?case by simp
next
  case (Cons d ds)
  obtain ok1 g1 where d: "attach d g = (ok1, g1)" by fastforce
  have spec: "attach_spec d g (ok1, g1)" using assms(1) [OF Cons.prems(1), of d] d by simp
  show ?case
  proof (cases ok1)
    case False
    then show ?thesis using Cons.prems(2) spec d by (auto simp: attach_spec_def)
  next
    case True
    have rest: "attach_dependencies attach ds g1 = (ok, g')" using Cons.prems(2) True d by simp
    have "sound_graph g1" using spec by (simp add: attach_spec_def)
    from Cons.IH [OF this rest] spec True show ?thesis
      by (auto simp: attach_spec_def intro: attach_leaves_trans advanced_trans)
        (auto simp: advanced_def)
  qed
qed

lemma attach_leaves_reject:
  assumes "i < length (gg_modules g)" "attach_leaves g g1" "lm_state (gg_modules g ! i) \<noteq> Attaching"
  shows "attach_leaves g (reject_loaded_module env i g1)"
proof -
  let ?ds = "lm_dependencies (gg_modules g1 ! i)"
  have l: "length (gg_modules g1) = length (gg_modules g)" using assms(2) by (simp add: attach_leaves_def)
  have "kept g1 (fold (release_dependency env) ?ds g1)" by (rule release_dependencies_facts)
  then have "lm_state (gg_modules (reject_loaded_module env i g1) ! k) = Attaching \<and>
      lm_dependencies (gg_modules (reject_loaded_module env i g1) ! k) = lm_dependencies (gg_modules g1 ! k)"
    if "k < length (gg_modules g)" "lm_state (gg_modules g1 ! k) = Attaching" "k \<noteq> i" for k
    using that assms(1) l nth_reject_loaded_module [of i g1 k env]
    by (auto simp: kept_def kept_module_def same_state_def went_away_def)
  then show ?thesis using assms l unfolding attach_leaves_def by (metis length_reject_loaded_module)
qed

lemma attach_go_spec: "sound_graph g \<Longrightarrow> attach_spec i g (attach_go n env i g)"
proof (induction n arbitrary: i g)
  case 0
  then show ?case by (simp add: attach_spec_def)
next
  case (Suc n)
  note sound = Suc.prems
  let ?m = "gg_modules g ! i"
  show ?case
  proof (cases "length (gg_modules g) \<le> i \<or> lm_state ?m \<noteq> Ready")
    case True
    then show ?thesis using sound by (auto simp: attach_spec_def Let_def)
  next
    case False
    then have i: "i < length (gg_modules g)" "lm_state ?m = Ready" by auto
    define g1 where "g1 = upd_module i (\<lambda>m. m\<lparr>lm_state := Attaching\<rparr>) g"
    have s1: "sound_graph g1"
      unfolding g1_def using i by (intro sound_graph_upd [OF sound]) (simp_all add: loaded_state_def)
    have m1: "gg_modules g1 ! i = ?m\<lparr>lm_state := Attaching\<rparr>" "length (gg_modules g1) = length (gg_modules g)"
      using i by (simp_all add: g1_def nth_upd_module)
    obtain ok g2 where a: "attach_dependencies (attach_go n env) (lm_dependencies ?m) g1 = (ok, g2)" by fastforce
    from attach_dependencies_spec [OF Suc.IH s1 a]
    have s2: "sound_graph g2" and l2: "attach_leaves g1 g2"
      and adv: "ok \<Longrightarrow> advanced g1 g2 \<and> (\<forall>d \<in> set (lm_dependencies ?m). lm_state (gg_modules g2 ! d) = Attached)"
      by auto
    have i2: "i < length (gg_modules g2)" "lm_state (gg_modules g2 ! i) = Attaching"
      "lm_dependencies (gg_modules g2 ! i) = lm_dependencies ?m"
      using l2 i m1 by (auto simp: attach_leaves_def)
    have l12: "attach_leaves g g2"
      using l2 i by (auto simp: attach_leaves_def g1_def nth_upd_module)
    have reject: "attach_spec i g (False, reject_loaded_module env i h)" if "same_graph g2 h" for h
    proof -
      have "sound_graph (reject_loaded_module env i h)"
        using i2 by (intro sound_graph_reject sound_graph_same [OF that s2])
          (simp_all add: same_graphD(1) [OF that] loaded_state_def)
      moreover have "attach_leaves g (reject_loaded_module env i h)"
        using l12 i by (intro attach_leaves_reject) (simp_all add: attach_leaves_def same_graphD(1) [OF that])
      ultimately show ?thesis by (simp add: attach_spec_def)
    qed
    show ?thesis
    proof (cases ok)
      case no: False
      then show ?thesis using reject [of g2] i a by (simp add: g1_def Let_def)
    next
      case yes: True
      obtain ok3 g3 where c: "attach_calls env (gg_modules g2 ! i) g2 = (ok3, g3)" by fastforce
      have same: "same_graph g2 g3" using same_graph_attach_calls [of g2 env "gg_modules g2 ! i"] c by simp
      show ?thesis
      proof (cases ok3)
        case False
        then show ?thesis using reject [OF same] i a c yes by (simp add: g1_def Let_def)
      next
        case True
        have "sound_graph (finish_attach i g3)"
          using adv [OF yes] i2 by (intro sound_graph_finish sound_graph_same [OF same s2]) (simp_all add: same_graphD(1) [OF same])
        moreover have "attach_leaves g (finish_attach i g3)"
          using l12 i by (auto simp: attach_leaves_def nth_finish_attach same_graphD(1) [OF same])
        moreover have "advanced g (finish_attach i g3)"
          using adv [OF yes] i i2 by (auto simp: advanced_def g1_def nth_upd_module nth_finish_attach same_graphD(1) [OF same])
        moreover have "lm_state (gg_modules (finish_attach i g3) ! i) = Attached"
          using i2 by (simp add: nth_finish_attach same_graphD(1) [OF same])
        ultimately show ?thesis using True i a c yes by (simp add: g1_def Let_def attach_spec_def)
      qed
    qed
  qed
qed

lemma attach_module_spec: "sound_graph g \<Longrightarrow> attach_spec i g (attach_module env i g)"
  unfolding attach_module_def by (rule attach_go_spec)

section \<open>The recursion of attaching ends\<close>

definition ready_set :: "graph \<Rightarrow> nat set" where
  "ready_set g = {i. i < length (gg_modules g) \<and> lm_state (gg_modules g ! i) = Ready}"

text \<open>No operation of an attach makes a module ready.\<close>

definition no_readier :: "graph \<Rightarrow> graph \<Rightarrow> bool" where
  "no_readier g g' \<longleftrightarrow> ready_set g' \<subseteq> ready_set g \<and> length (gg_modules g') = length (gg_modules g)"

lemma finite_ready_set [simp]: "finite (ready_set g)"
  by (simp add: ready_set_def)

lemma no_readier_trans: "no_readier g g' \<Longrightarrow> no_readier g' g'' \<Longrightarrow> no_readier g g''"
  by (auto simp: no_readier_def)

lemma no_readier_kept: "kept g g' \<Longrightarrow> length (gg_modules g') = length (gg_modules g) \<Longrightarrow> no_readier g g'"
  by (auto simp: no_readier_def ready_set_def kept_def kept_module_def same_state_def went_away_def)

lemma no_readier_reject: "no_readier g (reject_loaded_module env i g)"
proof (cases "i < length (gg_modules g)")
  case True
  have "no_readier g (fold (release_dependency env) (lm_dependencies (gg_modules g ! i)) g)"
    by (rule no_readier_kept) (simp_all add: release_dependencies_facts)
  then show ?thesis using True
    by (auto simp: no_readier_def ready_set_def reject_loaded_module_def Let_def nth_upd_module release_dependencies_facts
        split: if_splits)
next
  case False
  then show ?thesis by (simp add: no_readier_def reject_loaded_module_def)
qed

lemma no_readier_finish: "no_readier g (finish_attach i g)"
  by (auto simp: no_readier_def ready_set_def nth_finish_attach split: if_splits)

lemma no_readier_same: "same_graph g g' \<Longrightarrow> no_readier g g'"
  by (simp add: no_readier_def ready_set_def same_graphD)

lemma attach_dependencies_no_readier:
  "(\<And>d g. no_readier g (snd (attach d g))) \<Longrightarrow> no_readier g (snd (attach_dependencies attach ds g))"
proof (induction ds arbitrary: g)
  case Nil
  then show ?case by (simp add: no_readier_def)
next
  case (Cons d ds)
  obtain ok g1 where d: "attach d g = (ok, g1)" by fastforce
  have "no_readier g g1" using Cons.prems [of g d] d by simp
  moreover have "no_readier g1 (snd (attach_dependencies attach ds g1))" by (rule Cons.IH) (rule Cons.prems)
  ultimately show ?case using no_readier_trans by (cases ok) (auto simp: d)
qed

lemma no_readier_attach_go: "no_readier g (snd (attach_go n env i g))"
proof (induction n arbitrary: i g)
  case 0
  then show ?case by (simp add: no_readier_def)
next
  case (Suc n)
  let ?m = "gg_modules g ! i"
  define g1 where "g1 = upd_module i (\<lambda>m. m\<lparr>lm_state := Attaching\<rparr>) g"
  have g1: "no_readier g g1" by (auto simp: no_readier_def ready_set_def g1_def nth_upd_module split: if_splits)
  obtain ok g2 where a: "attach_dependencies (attach_go n env) (lm_dependencies ?m) g1 = (ok, g2)" by fastforce
  have g2: "no_readier g g2"
    using attach_dependencies_no_readier [of "attach_go n env" g1 "lm_dependencies ?m", OF Suc.IH] a
      no_readier_trans [OF g1] by simp
  obtain ok3 g3 where c: "attach_calls env (gg_modules g2 ! i) g2 = (ok3, g3)" by fastforce
  have g3: "no_readier g g3"
    using no_readier_trans [OF g2 no_readier_same] same_graph_attach_calls [of g2 env "gg_modules g2 ! i"] c by simp
  show ?case
    using no_readier_trans [OF g2 no_readier_reject] no_readier_trans [OF g3 no_readier_reject]
      no_readier_trans [OF g3 no_readier_finish] a c
    by (auto simp: Let_def g1_def [symmetric] no_readier_def [of g g] split: bool.split)
qed

lemma attach_dependencies_agree:
  assumes "\<And>d g. P g \<Longrightarrow> attach d g = attach' d g" "\<And>d g. P g \<Longrightarrow> P (snd (attach d g))" "P g"
  shows "attach_dependencies attach ds g = attach_dependencies attach' ds g"
  using assms(3)
proof (induction ds arbitrary: g)
  case Nil
  then show ?case by simp
next
  case (Cons d ds)
  obtain ok g1 where d: "attach d g = (ok, g1)" by fastforce
  have "P g1" using assms(2) [OF Cons.prems, of d] d by simp
  moreover have "attach' d g = (ok, g1)" using assms(1) [OF Cons.prems, of d] d by simp
  ultimately show ?case using Cons.IH d by (cases ok) auto
qed

lemma attach_go_agree:
  "card (ready_set g) < n \<Longrightarrow> card (ready_set g) < k \<Longrightarrow> attach_go n env i g = attach_go k env i g"
proof (induction n arbitrary: i g k)
  case 0
  then show ?case by simp
next
  case (Suc n)
  then obtain k' where k: "k = Suc k'" by (cases k) auto
  let ?m = "gg_modules g ! i"
  show ?case
  proof (cases "length (gg_modules g) \<le> i \<or> lm_state ?m \<noteq> Ready")
    case True
    then show ?thesis by (auto simp: k Let_def)
  next
    case False
    let ?g1 = "upd_module i (\<lambda>m. m\<lparr>lm_state := Attaching\<rparr>) g"
    have "i \<in> ready_set g" using False by (simp add: ready_set_def)
    moreover have "ready_set ?g1 = ready_set g - {i}"
      by (auto simp: ready_set_def nth_upd_module split: if_splits)
    ultimately have "card (ready_set ?g1) = card (ready_set g) - 1" "0 < card (ready_set g)"
      by (simp_all add: card_gt_0_iff) blast
    then have less: "card (ready_set ?g1) < min n k'" using Suc.prems k by linarith
    have "attach_dependencies (attach_go n env) (lm_dependencies ?m) ?g1 =
        attach_dependencies (attach_go k' env) (lm_dependencies ?m) ?g1"
    proof (rule attach_dependencies_agree [where P = "\<lambda>g. card (ready_set g) < min n k'"])
      show "attach_go n env d s = attach_go k' env d s" if "card (ready_set s) < min n k'" for d s
        using Suc.IH that by simp
      show "card (ready_set (snd (attach_go n env d s))) < min n k'" if "card (ready_set s) < min n k'" for d s
        using no_readier_attach_go [of s n env d] that card_mono [OF finite_ready_set]
        unfolding no_readier_def by (meson le_less_trans)
    qed (rule less)
    then show ?thesis using False by (simp add: k Let_def)
  qed
qed

end
