(* ===== verification/Graph_Properties.thy ===== *)
theory Graph_Properties
  imports Graph_Attach
begin

text \<open>
  The operations of the module graph, the states they reach, and what holds of them.
\<close>

section \<open>Every operation keeps the graph sound\<close>

lemma same_graph_thread_calls: "same_graph g (thread_calls env reason order i g)"
  by (auto simp: thread_calls_def Let_def intro: same_graph_tls)

lemma same_graph_fold: "(\<And>x g. same_graph g (f x g)) \<Longrightarrow> same_graph g (fold f xs g)"
  by (rule fold_rel) (auto intro: same_graph_trans)

lemma same_graph_thread_attach: "same_graph g (thread_attach env g)" "same_graph g (thread_detach env g)"
  by (auto simp: thread_attach_def thread_detach_def intro: same_graph_fold same_graph_thread_calls)

lemma sound_graph_detach:
  assumes "sound_graph g" "i < length (gg_modules g) \<Longrightarrow> lm_static_refs (gg_modules g ! i) = 0"
  shows "sound_graph (detach_module env i g)"
  using assms wf_graph_detach_module dependencies_attached_detach_module unfolding sound_graph_def by blast

lemma sound_graph_dynamic:
  "sound_graph g \<Longrightarrow> sound_graph (upd_module i (\<lambda>m. m\<lparr>lm_dynamic_refs := f m\<rparr>) g)"
  by (rule sound_graph_upd) (simp_all add: loaded_state_def)

lemma attach_loaded_spec:
  assumes "sound_graph g" "attach_loaded env i g = (r, g')"
  shows "sound_graph g' \<and> (\<forall>h. r = Some h \<longrightarrow> i < length (gg_modules g') \<and> lm_state (gg_modules g' ! i) = Attached \<and>
    h = base (lm_image (gg_modules g' ! i)))"
proof -
  let ?g = "upd_module i (\<lambda>m. m\<lparr>lm_dynamic_refs := to_u32 (lm_dynamic_refs m + 1)\<rparr>) g"
  obtain ok g1 where a: "attach_module env i ?g = (ok, g1)" by fastforce
  have "attach_spec i ?g (ok, g1)" using attach_module_spec [OF sound_graph_dynamic [OF assms(1)]] a by metis
  then show ?thesis
    using assms(2) a by (cases ok) (auto simp: attach_loaded_def attach_spec_def attach_leaves_def intro: sound_graph_dynamic)
qed

lemma sound_graph_members:
  "gg_modules g' = gg_modules g \<Longrightarrow> gg_views g' = gg_views g \<Longrightarrow> sound_graph g \<Longrightarrow> sound_graph g'"
  by (auto simp: sound_graph_def wf_graph_def counted_def owners_def wf_dependencies_def none_attached_def
      wf_images_def wf_views_def dependencies_attached_def)

lemma push_builtin_members [simp]:
  "gg_modules (snd (push_builtin name count g)) = gg_modules g" "gg_views (snd (push_builtin name count g)) = gg_views g"
  by (simp_all add: push_builtin_def Let_def)

lemma load_builtin_members:
  "gg_modules (snd (load_builtin env name g)) = gg_modules g" "gg_views (snd (load_builtin env name g)) = gg_views g"
  by (auto simp: load_builtin_def split: option.split)

lemma reject_profile_members [simp]:
  "gg_modules (reject_profile_module name g) = gg_modules g" "gg_views (reject_profile_module name g) = gg_views g"
  by (simp_all add: reject_profile_module_def)

text \<open>A handle \<open>load_library\<close> returns is that of an attached module or of a built-in one.\<close>

definition good_handle :: "u64 \<Rightarrow> graph \<Rightarrow> bool" where
  "good_handle h g \<longleftrightarrow> h = 0 \<or> (\<exists>i < length (gg_modules g). lm_state (gg_modules g ! i) = Attached \<and>
     h = base (lm_image (gg_modules g ! i))) \<or> h \<in> set (gg_builtin_handles g)"

definition builtin_lists :: "graph \<Rightarrow> bool" where
  "builtin_lists g \<longleftrightarrow> length (gg_builtin_modules g) = length (gg_builtin_handles g) \<and>
     length (gg_builtin_refcounts g) = length (gg_builtin_handles g) \<and>
     (\<forall>i < length (gg_builtin_handles g). gg_builtin_handles g ! i = kBuiltinHandleBase + i * 0x1000)"

lemma find_string_bound: "find_string name names = Some i \<Longrightarrow> i < length names \<and> ascii_iequals (names ! i) name"
  by (auto simp: find_string_def find_Some_iff)

lemma load_builtin_good:
  assumes "builtin_lists g" "load_builtin env name g = (h, g')"
  shows "builtin_lists g' \<and> good_handle h g'"
proof (cases "find_string name (gg_builtin_modules g)")
  case None
  then show ?thesis using assms
    by (auto simp: load_builtin_def good_handle_def builtin_lists_def push_builtin_def Let_def nth_append less_Suc_eq split: if_splits)
next
  case (Some i)
  then have "i < length (gg_builtin_handles g)" using find_string_bound assms(1) by (fastforce simp: builtin_lists_def)
  then have "gg_builtin_handles g ! i \<in> set (gg_builtin_handles g)" by simp
  then show ?thesis using assms Some
    by (auto simp del: in_set_conv_nth simp: load_builtin_def good_handle_def builtin_lists_def split: if_splits)
qed

lemma good_handle_0 [simp]: "good_handle 0 g"
  by (simp add: good_handle_def)

lemma builtin_lists_books: "same_books g g' \<Longrightarrow> builtin_lists g \<Longrightarrow> builtin_lists g'"
  by (simp add: same_books_def builtin_lists_def)

text \<open>Attaching changes no book.\<close>

lemma same_books_reject: "same_books g (reject_loaded_module env i g)"
proof -
  have "same_books g (fold (release_dependency env) (lm_dependencies (gg_modules g ! i)) g)"
    by (rule same_books_fold) (rule same_books_release_dependency)
  then show ?thesis by (simp add: reject_loaded_module_def Let_def same_books_def)
qed

lemma same_books_finish: "same_books g (finish_attach i g)"
  by (simp add: finish_attach_def Let_def same_books_def)

lemma same_books_attach_dependencies:
  "(\<And>d g. same_books g (snd (attach d g))) \<Longrightarrow> same_books g (snd (attach_dependencies attach ds g))"
proof (induction ds arbitrary: g)
  case Nil
  then show ?case by simp
next
  case (Cons d ds)
  obtain ok g1 where d: "attach d g = (ok, g1)" by fastforce
  have "same_books g g1" using Cons.prems [of g d] d by simp
  moreover have "same_books g1 (snd (attach_dependencies attach ds g1))" by (rule Cons.IH) (rule Cons.prems)
  ultimately show ?case using same_books_trans by (cases ok) (auto simp: d)
qed

lemma same_books_attach_go: "same_books g (snd (attach_go n env i g))"
proof (induction n arbitrary: i g)
  case 0
  then show ?case by simp
next
  case (Suc n)
  let ?m = "gg_modules g ! i"
  define g1 where "g1 = upd_module i (\<lambda>m. m\<lparr>lm_state := Attaching\<rparr>) g"
  have g1: "same_books g g1" by (simp add: g1_def)
  obtain ok g2 where a: "attach_dependencies (attach_go n env) (lm_dependencies ?m) g1 = (ok, g2)" by fastforce
  have g2: "same_books g g2"
    using same_books_attach_dependencies [of "attach_go n env" g1 "lm_dependencies ?m", OF Suc.IH] a
      same_books_trans [OF g1] by simp
  obtain ok3 g3 where c: "attach_calls env (gg_modules g2 ! i) g2 = (ok3, g3)" by fastforce
  have g3: "same_books g g3"
    using same_books_trans [OF g2 same_books_same] same_graph_attach_calls [of g2 env "gg_modules g2 ! i"] c by simp
  show ?case
    using same_books_trans [OF g2 same_books_reject] same_books_trans [OF g3 same_books_reject]
      same_books_trans [OF g3 same_books_finish] a c
    by (auto simp: Let_def g1_def [symmetric] split: bool.split)
qed

lemma same_books_attach_loaded: "attach_loaded env i g = (r, g') \<Longrightarrow> same_books g g'"
proof -
  assume e: "attach_loaded env i g = (r, g')"
  let ?g = "upd_module i (\<lambda>m. m\<lparr>lm_dynamic_refs := to_u32 (lm_dynamic_refs m + 1)\<rparr>) g"
  obtain ok g1 where a: "attach_module env i ?g = (ok, g1)" by fastforce
  have "same_books h (snd (attach_module env i h))" for h
    unfolding attach_module_def by (rule same_books_attach_go)
  from this [of ?g] a have "same_books ?g g1" by simp
  then have "same_books g g1" by (simp add: same_books_def)
  then show ?thesis using e a by (cases ok) (auto simp: attach_loaded_def same_books_def)
qed

definition graph_ok :: "graph \<Rightarrow> bool" where
  "graph_ok g \<longleftrightarrow> sound_graph g \<and> builtin_lists g"

lemma graph_ok_safe: "safe_step g g' \<Longrightarrow> graph_ok g \<Longrightarrow> graph_ok g'"
  using sound_graph_safe [of g g'] builtin_lists_books [of g g'] unfolding graph_ok_def safe_step_def by blast

lemma attach_loaded_ok:
  assumes "graph_ok g" "attach_loaded env i g = (r, g')"
  shows "graph_ok g' \<and> (\<forall>h. r = Some h \<longrightarrow> good_handle h g')"
proof -
  have "builtin_lists g'"
    using builtin_lists_books [OF same_books_attach_loaded [OF assms(2)]] assms(1) by (simp add: graph_ok_def)
  moreover have "sound_graph g" using assms(1) by (simp add: graph_ok_def)
  note attach_loaded_spec [OF this assms(2)]
  ultimately show ?thesis by (auto simp: graph_ok_def good_handle_def)
qed

lemma graph_ok_reject_profile: "graph_ok g \<Longrightarrow> graph_ok (reject_profile_module name g)"
  using sound_graph_members [of "reject_profile_module name g" g]
  by (auto simp: graph_ok_def builtin_lists_def reject_profile_module_def)

lemma load_library_ok:
  "graph_ok g \<Longrightarrow> load_library_go n env name g = (h, g') \<Longrightarrow> graph_ok g' \<and> good_handle h g'"
proof (induction n arbitrary: name g)
  case 0
  then show ?case by simp
next
  case (Suc n)
  let ?name = "normalize_module_name name"
  show ?case
  proof (cases "?name = []")
    case True
    then show ?thesis using Suc.prems by simp
  next
    case False
    obtain p g1 where p: "ensure_profile_module (load_pe_module env) env ?name g = (p, g1)" by fastforce
    have ok1: "graph_ok g1" using loading.ensure_profile [OF p] graph_ok_safe Suc.prems(1) by blast
    show ?thesis
    proof (cases p)
      case (Some i)
      obtain r g2 where a: "attach_loaded env i g1 = (r, g2)" by fastforce
      note ok2 = attach_loaded_ok [OF ok1 a]
      show ?thesis
      proof (cases r)
        case None
        let ?g = "if lm_provider (gg_modules g2 ! i) = Profile
          then reject_profile_module (lm_name (gg_modules g2 ! i)) g2 else g2"
        have "graph_ok ?g" using ok2 graph_ok_reject_profile by simp
        moreover have "load_library_go n env ?name ?g = (h, g')" using Suc.prems(2) False p Some a None by simp
        ultimately show ?thesis by (rule Suc.IH)
      next
        case (Some h2)
        then show ?thesis using Suc.prems(2) False p \<open>p = Some i\<close> a ok2 by simp
      qed
    next
      case None
      obtain d g2 where d: "ensure_drive_module (load_pe_module env) env ?name (gg_main_path g1) g1 = (d, g2)" by fastforce
      have ok2: "graph_ok g2" using loading.ensure_drive [OF d] graph_ok_safe ok1 by blast
      show ?thesis
      proof (cases d)
        case None
        then have "load_builtin env ?name g2 = (h, g')" using Suc.prems(2) False p \<open>p = None\<close> d by simp
        then show ?thesis
          using load_builtin_good ok2 sound_graph_members load_builtin_members unfolding graph_ok_def by (metis snd_conv)
      next
        case (Some i)
        obtain r g3 where a: "attach_loaded env i g2 = (r, g3)" by fastforce
        then show ?thesis
          using attach_loaded_ok [OF ok2 a] Suc.prems(2) False p \<open>p = None\<close> d Some by (cases r) auto
      qed
    qed
  qed
qed

section \<open>Taking everything down\<close>

lemma detach_module_detaches:
  assumes "i < length (gg_modules g)"
  shows "lm_state (gg_modules (detach_module env i g) ! i) \<noteq> Attached"
proof (cases "lm_state (gg_modules g ! i) = Attached")
  case False
  then show ?thesis by (simp add: detach_module_rec)
next
  case True
  let ?ds = "lm_dependencies (gg_modules g ! i)"
  let ?g1 = "unload_module i (detach_calls env (gg_modules g ! i) g)"
  have "kept ?g1 (fold (release_dependency env) ?ds ?g1)" by (rule release_dependencies_facts)
  moreover have "lm_state (gg_modules ?g1 ! i) = Unloaded" "i < length (gg_modules ?g1)"
    using assms by (simp_all add: nth_unload_module)
  ultimately have "lm_state (gg_modules (fold (release_dependency env) ?ds ?g1) ! i) \<noteq> Attached"
    using keptD kept_module_attached by fastforce
  then show ?thesis using True assms by (simp add: detach_module_rec)
qed

lemma detach_all:
  "wf_graph {} [] g \<Longrightarrow>
   wf_graph {} [] (fold (detach_module env) is g) \<and> kept g (fold (detach_module env) is g) \<and>
   length (gg_modules (fold (detach_module env) is g)) = length (gg_modules g) \<and>
   (\<forall>i \<in> set is. i < length (gg_modules g) \<longrightarrow> lm_state (gg_modules (fold (detach_module env) is g) ! i) \<noteq> Attached)"
proof (induction "is" arbitrary: g)
  case Nil
  then show ?case by simp
next
  case (Cons i "is")
  let ?g1 = "detach_module env i g" and ?g2 = "fold (detach_module env) is (detach_module env i g)"
  have w: "wf_graph {} [] ?g1" by (rule wf_graph_detach_module) (rule Cons.prems)
  note ih = Cons.IH [OF w]
  have k: "kept g ?g2" using ih kept_trans [OF kept_detach_module] by blast
  have "lm_state (gg_modules ?g2 ! i) \<noteq> Attached" if "i < length (gg_modules g)"
    using ih detach_module_detaches [OF that, of env] keptD [of ?g1 ?g2 i] kept_module_attached that by auto
  then show ?case using ih k by auto
qed

lemma process_detach_facts:
  assumes "wf_graph {} [] g"
  shows "wf_graph {} [] (process_detach env g)" "kept g (process_detach env g)"
    "length (gg_modules (process_detach env g)) = length (gg_modules g)"
    "\<forall>m \<in> set (gg_modules (process_detach env g)). lm_state m \<noteq> Attached"
    "g_module_unwind_images (gg_views (process_detach env g)) = []"
proof -
  let ?g = "process_detach env g"
  note f = detach_all [OF assms, of env "[0..<length (gg_modules g)]", folded process_detach_def]
  show w: "wf_graph {} [] ?g" and "kept g ?g" and len: "length (gg_modules ?g) = length (gg_modules g)" using f by simp_all
  show none: "\<forall>m \<in> set (gg_modules ?g). lm_state m \<noteq> Attached"
    using f by (auto simp: in_set_conv_nth)
  show "g_module_unwind_images (gg_views ?g) = []"
    using wf_graphD(5) [OF w] none unfolding wf_views_def by (metis list.set_intros(1) neq_Nil_conv)
qed

lemma same_books_detach_module: "same_books g (detach_module env i g)"
  unfolding detach_module_def by (rule same_books_detach_go)

lemma graph_ok_discard:
  assumes "wf_graph {} [] g"
  shows "graph_ok (discard_loaded_modules env g)"
  using process_detach_facts(5) [OF assms, of env]
  by (simp add: graph_ok_def sound_graph_def wf_graph_def counted_def wf_dependencies_def none_attached_def wf_images_def
      wf_views_def dependencies_attached_def builtin_lists_def discard_loaded_modules_def)

section \<open>The other operations\<close>

lemma graph_ok_resolve:
  assumes "graph_ok g" "resolve_imports_for_module (load_pe_module env) env info requester None g = (result, g')"
  shows "graph_ok g'"
proof -
  have "owner_step None g g'" by (rule loading.resolve_imports_step [OF _ assms(2)]) (simp add: resolving_def)
  then show ?thesis using assms(1) graph_ok_safe by (simp add: owner_step_None)
qed

lemma graph_ok_resolve_export:
  assumes "graph_ok g" "resolve_export env requester q g = (l, g')"
  shows "graph_ok g'"
proof -
  have "safe_step g g'"
    using loading.resolve_export_answers [of g env requester q] assms(2) by (simp add: loading.answers_def resolve_export_def)
  then show ?thesis using assms(1) by (rule graph_ok_safe)
qed

lemma graph_ok_members:
  "gg_modules g' = gg_modules g \<Longrightarrow> gg_views g' = gg_views g \<Longrightarrow> builtin_lists g' \<Longrightarrow> graph_ok g \<Longrightarrow> graph_ok g'"
  using sound_graph_members by (simp add: graph_ok_def)

lemma graph_ok_bind: "graph_ok g \<Longrightarrow> graph_ok (bind_main_image img info path g)"
  by (rule graph_ok_members [of _ g]) (simp_all add: bind_main_image_def graph_ok_def builtin_lists_def)

lemma graph_ok_attach_module:
  assumes "graph_ok g" "attach_module env i g = (ok, g')"
  shows "graph_ok g'"
proof -
  have "same_books g (snd (attach_module env i g))" unfolding attach_module_def by (rule same_books_attach_go)
  then have "builtin_lists g'" using assms builtin_lists_books [of g g'] by (simp add: graph_ok_def)
  moreover have "attach_spec i g (ok, g')" using attach_module_spec [of g i env] assms by (simp add: graph_ok_def)
  ultimately show ?thesis by (simp add: graph_ok_def attach_spec_def)
qed

lemma graph_ok_without_profile:
  assumes "graph_ok g" "resolve_without_profile env g = (r, g')"
  shows "graph_ok g'"
proof -
  let ?g1 = "fold (\<lambda>m. reject_profile_module (lm_name m)) (filter (\<lambda>m. lm_provider m = Profile) (gg_modules g)) g"
  have rej: "graph_ok (fold (\<lambda>m. reject_profile_module (lm_name m)) ms g)" if "graph_ok g" for ms :: "LoadedModule list" and g
    using that by (induction ms arbitrary: g) (simp_all add: graph_ok_reject_profile)
  have "wf_graph {} [] ?g1" using rej [OF assms(1)] by (simp add: graph_ok_def sound_graph_def)
  then have ok: "graph_ok (discard_loaded_modules env ?g1)" by (rule graph_ok_discard)
  then show ?thesis
    using assms(2) graph_ok_resolve [OF ok] by (auto simp: resolve_without_profile_def Let_def split: option.splits prod.splits)
qed

lemma graph_ok_round: "graph_ok g \<Longrightarrow> attach_round env is g = (r, g') \<Longrightarrow> graph_ok g'"
proof (induction "is" arbitrary: g)
  case Nil
  then show ?case by simp
next
  case (Cons i "is")
  obtain ok g1 where a: "attach_module env i g = (ok, g1)" by fastforce
  have g1: "graph_ok g1" by (rule graph_ok_attach_module [OF Cons.prems(1) a])
  show ?case using Cons.prems Cons.IH [OF g1] Cons.IH [OF Cons.prems(1)] graph_ok_without_profile [OF g1] g1
    by (cases ok) (auto simp: Let_def a split: if_splits)
qed

lemma graph_ok_process_attach: "graph_ok g \<Longrightarrow> attach_rounds n env g = (ok, g') \<Longrightarrow> graph_ok g'"
proof (induction n arbitrary: g)
  case 0
  then show ?case by simp
next
  case (Suc n)
  obtain r g1 where a: "attach_round env [0..<length (gg_modules g)] g = (r, g1)" by fastforce
  have "graph_ok g1" by (rule graph_ok_round [OF Suc.prems(1) a])
  then show ?case using Suc a by (cases r) auto
qed

lemma graph_ok_free:
  assumes "graph_ok g" "free_library env h g = (ok, g')"
  shows "graph_ok g'"
proof (cases "find_module_for_handle h g")
  case (Some i)
  let ?g = "upd_module i (\<lambda>m. m\<lparr>lm_dynamic_refs := lm_dynamic_refs m - 1\<rparr>) g"
  have ok1: "graph_ok ?g" using assms(1) sound_graph_dynamic [of g i "\<lambda>m. lm_dynamic_refs m - 1"]
    by (simp add: graph_ok_def builtin_lists_def)
  have "graph_ok (detach_module env i ?g)" if "lm_static_refs (gg_modules ?g ! i) = 0"
    using ok1 sound_graph_detach [of ?g i env] that builtin_lists_books [OF same_books_detach_module [of ?g env i]]
    by (simp add: graph_ok_def)
  then show ?thesis using assms ok1 by (auto simp: free_library_def Some Let_def split: if_splits)
next
  case None
  then show ?thesis using assms
    by (auto simp: free_library_def graph_ok_def builtin_lists_def split: option.splits if_splits intro: sound_graph_members)
qed

lemma get_module_handle_ok:
  assumes "graph_ok g" "get_module_handle env name g = (h, g')"
  shows "graph_ok g'"
  using assms
  by (auto simp: get_module_handle_def Let_def push_builtin_def graph_ok_def builtin_lists_def nth_append less_Suc_eq
      split: if_splits option.splits intro: sound_graph_members)

lemma graph_ok_proc_address:
  assumes "graph_ok g" "get_proc_address env h q g = (l, g')"
  shows "graph_ok g'"
  using assms graph_ok_resolve_export
  by (auto simp: get_proc_address_def module_proc_address_def Let_def split: if_splits option.splits)

section \<open>Reachable graphs\<close>

text \<open>
  The operations of the class while the program runs; \<open>process_detach\<close> comes at its end. The arguments
  and the answers of files, kernel and guest are arbitrary.
\<close>

inductive graph_step :: "graph_env \<Rightarrow> graph \<Rightarrow> graph \<Rightarrow> bool" for env where
  resolve: "graph_resolve_imports env img info path g = (r, g') \<Longrightarrow> graph_step env g g'"
| bind: "graph_step env g (bind_main_image img info path g)"
| attach: "process_attach env g = (ok, g') \<Longrightarrow> graph_step env g g'"
| load: "load_library env name g = (h, g') \<Longrightarrow> graph_step env g g'"
| free: "free_library env h g = (ok, g') \<Longrightarrow> graph_step env g g'"
| handle: "get_module_handle env name g = (h, g') \<Longrightarrow> graph_step env g g'"
| address: "get_proc_address env h q g = (l, g') \<Longrightarrow> graph_step env g g'"
| thread_start: "graph_step env g (thread_attach env g)"
| thread_end: "graph_step env g (thread_detach env g)"
| restart: "graph_step env g (graph_reset env g)"

inductive graph_reachable :: "graph_env \<Rightarrow> graph \<Rightarrow> bool" for env where
  start: "graph_reachable env (empty_graph path)"
| further: "graph_reachable env g \<Longrightarrow> graph_step env g g' \<Longrightarrow> graph_reachable env g'"

lemma graph_ok_step:
  assumes "graph_step env g g'" "graph_ok g"
  shows "graph_ok g'"
  using assms(1)
proof cases
  case (resolve img info path r)
  then show ?thesis using graph_ok_resolve [OF graph_ok_bind [OF assms(2)]] by (auto simp: graph_resolve_imports_def)
next
  case (bind img info path)
  then show ?thesis using graph_ok_bind [OF assms(2)] by simp
next
  case (attach ok)
  then show ?thesis using graph_ok_process_attach assms(2) unfolding process_attach_def by blast
next
  case (load name h)
  then show ?thesis using load_library_ok assms(2) unfolding load_library_def by blast
next
  case (free h ok)
  then show ?thesis using graph_ok_free assms(2) by blast
next
  case (handle name h)
  then show ?thesis using get_module_handle_ok assms(2) by blast
next
  case (address h q l)
  then show ?thesis using graph_ok_proc_address assms(2) by blast
next
  case thread_start
  then show ?thesis using graph_ok_members assms(2) same_graphD [OF same_graph_thread_attach(1) [of g env]]
    by (auto simp: graph_ok_def builtin_lists_def intro: sound_graph_same [OF same_graph_thread_attach(1)])
next
  case thread_end
  then show ?thesis using graph_ok_members assms(2) same_graphD [OF same_graph_thread_attach(2) [of g env]]
    by (auto simp: graph_ok_def builtin_lists_def intro: sound_graph_same [OF same_graph_thread_attach(2)])
next
  case restart
  have "graph_ok (discard_loaded_modules env g)"
    by (rule graph_ok_discard) (use assms(2) in \<open>simp add: graph_ok_def sound_graph_def\<close>)
  then have "graph_ok (graph_reset env g)"
    by (rule graph_ok_members [rotated 3]) (simp_all add: graph_reset_def builtin_lists_def discard_loaded_modules_def)
  then show ?thesis using restart by simp
qed

lemma graph_ok_reachable: "graph_reachable env g \<Longrightarrow> graph_ok g"
proof (induction rule: graph_reachable.induct)
  case (start path)
  show ?case
    by (simp add: graph_ok_def sound_graph_def wf_graph_def counted_def wf_dependencies_def none_attached_def wf_images_def
      wf_views_def dependencies_attached_def builtin_lists_def empty_graph_def initial_views_def)
next
  case (further g g')
  then show ?case using graph_ok_step by blast
qed

section \<open>The recursion of loading ends\<close>

text \<open>Two loaders that agree on graphs of at least \<open>k\<close> modules.\<close>

definition agree_from :: "nat \<Rightarrow> loader \<Rightarrow> loader \<Rightarrow> bool" where
  "agree_from k ld ld' \<longleftrightarrow> (\<forall>name prov source g. k \<le> length (gg_modules g) \<longrightarrow> ld name prov source g = ld' name prov source g)"

lemma agree_profile:
  "agree_from k ld ld' \<Longrightarrow> k \<le> length (gg_modules g) \<Longrightarrow>
   ensure_profile_module ld env name g = ensure_profile_module ld' env name g"
  by (auto simp: ensure_profile_module_def agree_from_def Let_def split: option.split)

lemma agree_drive:
  "agree_from k ld ld' \<Longrightarrow> k \<le> length (gg_modules g) \<Longrightarrow>
   ensure_drive_module ld env name requester g = ensure_drive_module ld' env name requester g"
  by (auto simp: ensure_drive_module_def agree_from_def split: option.split)

lemma agree_try_guest:
  "(\<And>q. follow q g = follow' q g) \<Longrightarrow> try_guest follow index prov q g = try_guest follow' index prov q g"
  by (auto simp: try_guest_def Let_def split: option.split)

lemma safe_step_longer: "safe_step g g' \<Longrightarrow> k \<le> length (gg_modules g) \<Longrightarrow> k \<le> length (gg_modules g')"
  by (auto simp: safe_step_def dest: kept_length)

lemma agree_resolve_export:
  assumes "module_loader ld" "agree_from k ld ld'"
  shows "k \<le> length (gg_modules g) \<Longrightarrow>
    resolve_export_internal left ld env requester visits q g = resolve_export_internal left ld' env requester visits q g"
proof (induction left arbitrary: visits q g)
  case 0
  then show ?case by simp
next
  case (Suc left)
  let ?q = "q\<lparr>q_dll := normalize_module_name (q_dll q)\<rparr>" and ?n = "normalize_module_name (q_dll q)"
  let ?f = "resolve_export_internal left ld env requester (visits @ [?q])"
  let ?f' = "resolve_export_internal left ld' env requester (visits @ [?q])"
  obtain p g1 where p: "ensure_profile_module ld env ?n g = (p, g1)" by fastforce
  have p': "ensure_profile_module ld' env ?n g = (p, g1)" using agree_profile [OF assms(2) Suc.prems] p by simp
  have s1: "safe_step g g1" "\<And>i. p = Some i \<Longrightarrow> i < length (gg_modules g1)"
    using module_loader.ensure_profile [OF assms(1) p] by auto
  note k1 = safe_step_longer [OF s1(1) Suc.prems]
  have t: "try_guest ?f p Profile ?q g1 = try_guest ?f' p Profile ?q g1"
    by (rule agree_try_guest) (rule Suc.IH [OF k1])
  obtain r2 g2 where t2: "try_guest ?f p Profile ?q g1 = (r2, g2)" by fastforce
  have "safe_step g1 g2"
    using module_loader.try_guest_answers [OF assms(1) t2] s1(2) module_loader.resolve_export_internal_answers [OF assms(1)]
    by blast
  note k2 = safe_step_longer [OF this k1]
  obtain d g3 where d: "ensure_drive_module ld env ?n requester g2 = (d, g3)" by fastforce
  have d': "ensure_drive_module ld' env ?n requester g2 = (d, g3)" using agree_drive [OF assms(2) k2] d by simp
  have "safe_step g2 g3" using module_loader.ensure_drive [OF assms(1) d] by simp
  note k3 = safe_step_longer [OF this k2]
  have u: "try_guest ?f d DriveC ?q g3 = try_guest ?f' d DriveC ?q g3"
    by (rule agree_try_guest) (rule Suc.IH [OF k3])
  have t': "try_guest ?f' p Profile ?q g1 = (r2, g2)" using t t2 by simp
  obtain r4 g4 where u4: "try_guest ?f d DriveC ?q g3 = (r4, g4)" by fastforce
  have u': "try_guest ?f' d DriveC ?q g3 = (r4, g4)" using u u4 by simp
  show ?case by (cases r2) (simp_all add: Let_def p p' t2 t' d d' u4 u')
qed

lemma agree_resolve_imports:
  assumes "module_loader ld" "agree_from k ld ld'"
  shows "resolving owner g \<Longrightarrow> k \<le> length (gg_modules g) \<Longrightarrow>
    fold (resolve_import ld env requester owner) imps (result, g) =
    fold (resolve_import ld' env requester owner) imps (result, g)"
proof (induction imps arbitrary: result g)
  case Nil
  then show ?case by simp
next
  case (Cons imp imps)
  have same: "resolve_import ld env requester owner imp (result, g) = resolve_import ld' env requester owner imp (result, g)"
    by (simp add: resolve_import_def resolve_export_with_def agree_resolve_export [OF assms Cons.prems(2)] split: prod.split)
  obtain r g1 where r: "resolve_import ld env requester owner imp (result, g) = (r, g1)" by fastforce
  then have r': "resolve_import ld' env requester owner imp (result, g) = (r, g1)" using same by simp
  have step: "owner_step owner g g1" by (rule module_loader.resolve_import_step [OF assms(1) Cons.prems(1) r])
  have "k \<le> length (gg_modules g1)" using step Cons.prems(2) by (simp add: owner_step_def)
  from Cons.IH [OF owner_step_resolving [OF step] this] show ?case by (simp add: r r')
qed

lemma agree_load_step:
  assumes "module_loader ld" "agree_from (Suc k) ld ld'" "k \<le> length (gg_modules g)"
  shows "load_step ld env name prov source g = load_step ld' env name prov source g"
proof -
  have "resolve_imports_for_module ld env info source (Some (length (gg_modules g)))
        (push_module name prov source info img (tick g)) =
      resolve_imports_for_module ld' env info source (Some (length (gg_modules g)))
        (push_module name prov source info img (tick g))" for info img
    unfolding resolve_imports_for_module_def using assms(3)
    by (intro agree_resolve_imports [OF assms(1,2)]) (simp_all add: resolving_def loading.nth_push_module tick_def)
  then show ?thesis by (auto simp: load_step_def Let_def split: option.split sum.split)
qed

lemma load_step_full:
  "kMaxLoadedPeModules \<le> length (gg_modules g) \<Longrightarrow> load_step ld env name prov source g = load_step ld' env name prov source g"
  by (simp add: load_step_def graph_has_room_def cong: option.case_cong)

lemma load_go_agree:
  "agree_from k (load_go (Suc n) env) (load_go (Suc n') env)"
  if "kMaxLoadedPeModules \<le> k + n" "kMaxLoadedPeModules \<le> k + n'"
  using that
proof (induction n arbitrary: k n')
  case 0
  have "load_go (Suc 0) env name prov source g = load_go (Suc n') env name prov source g"
    if "k \<le> length (gg_modules g)" for name prov source g
    using load_step_full [of g] 0 that by simp
  then show ?case by (simp add: agree_from_def)
next
  case (Suc n)
  show ?case
  proof (cases n')
    case 0
    have "load_go (Suc (Suc n)) env name prov source g = load_go (Suc n') env name prov source g"
      if "k \<le> length (gg_modules g)" for name prov source g
      using load_step_full [of g] 0 Suc.prems that by simp
    then show ?thesis by (simp add: agree_from_def)
  next
    case (Suc n2)
    have agree: "agree_from (Suc k) (load_go (Suc n) env) (load_go (Suc n2) env)"
      by (rule Suc.IH) (use Suc.prems \<open>n' = Suc n2\<close> in simp_all)
    have "load_go (Suc (Suc n)) env name prov source g = load_go (Suc n') env name prov source g"
      if "k \<le> length (gg_modules g)" for name prov source g
      unfolding \<open>n' = Suc n2\<close> load_go.simps(2) [of "Suc n"] load_go.simps(2) [of "Suc n2"]
      by (rule agree_load_step [OF module_loader_load_go agree that])
    then show ?thesis by (simp add: agree_from_def)
  qed
qed

lemma load_pe_module_rec: "load_pe_module env name prov source g = load_step (load_pe_module env) env name prov source g"
proof -
  have "agree_from (Suc 0) (load_go kMaxLoadedPeModules env) (load_pe_module env)"
  proof -
    have "kMaxLoadedPeModules = Suc 255" by (simp add: kMaxLoadedPeModules_def)
    moreover have "agree_from (Suc 0) (load_go (Suc 255) env) (load_go (Suc kMaxLoadedPeModules) env)"
      by (rule load_go_agree) (simp_all add: kMaxLoadedPeModules_def)
    ultimately show ?thesis by (simp only: load_pe_module_def)
  qed
  from agree_load_step [OF module_loader_load_go this, of g env name prov source]
  show ?thesis by (simp add: load_pe_module_def)
qed

end
