(* ===== verification/Graph_Correct.thy ===== *)
theory Graph_Correct
  imports Graph_Properties Sample_Image
begin

text \<open>
  What the module graph promises: the invariant of every reachable graph, valid handles, a complete
  teardown, and recursions that end. The witnesses load a DLL.
\<close>

section \<open>A DLL to load\<close>

text \<open>The sample file as a DLL, found on drive C by its name.\<close>

definition dll_file :: bytes where
  "dll_file = sample_file[87 := 0x20]"

lemma dll_values:
  "length dll_file = 356" "rd16 dll_file 0 = 0x5a4d" "rd16 dll_file 68 = 0x8664" "rd16 dll_file 70 = 2"
  "rd16 dll_file 84 = 0xa0" "rd16 dll_file 86 = 0x2022" "rd16 dll_file 88 = 0x20b" "rd16 dll_file 156 = 3"
  "rd16 dll_file 352 = 0xa000" "rd16 dll_file 354 = 0" "rd64 dll_file 112 = 0x400000"
  by (simp_all add: dll_file_def sample_length rd16_in rd64_in le16_def le64_def byte_at_def,
      simp_all add: sample_file_def)

lemma dll_words: "i + 4 \<le> 84 \<or> 88 \<le> i \<Longrightarrow> rd32 dll_file i = rd32 sample_file i"
  by (auto simp: rd32_def dll_file_def read_u32_def has_range_def le32_def byte_at_def nth_list_update)

lemma dll_names: "section_name dll_file 248 = ''.text''" "section_name dll_file 288 = ''.reloc''"
  using sample_names
  by (simp_all add: section_name_def read_bytes_def has_range_def sample_length dll_file_def drop_update_cancel)

definition dll_info :: PeInfo where
  "dll_info = sample_info\<lparr>is_dll := True\<rparr>"

lemma dll_nt: "check_nt_headers dll_file = None"
  by (simp add: check_nt_headers_def eval_simps dll_values dll_words sample_values has_range_def)

lemma dll_headers: "parse_headers dll_file = Inr (dll_info\<lparr>relocations := []\<rparr>)"
  by (simp add: parse_headers_def dll_nt check_coff_headers_def check_optional_header_def
      read_optional_header_def is_power_of_two_def directory_count_def read_sections_def section_step_def
      read_section_def check_section_def section_span_def section_end_def read_directories_def
      read_directory_def eval_simps dll_values dll_words dll_names sample_values dll_info_def sample_info_def empty_info_def
      Let_def upt_rec)

lemma dll_parsed: "parse_pe dll_file = Inr (dll_info, [])"
  by (simp add: parse_pe_def dll_headers parse_directories_def parse_exports_def parse_imports_def
      parse_delay_imports_def parse_runtime_functions_def parse_tls_directory_def parse_relocations_def
      rva_to_file_offset_def section_file_offset.simps section_span_def section_end_def reloc_blocks.simps
      reloc_block_def reloc_entry_def to_u16_def
      eval_simps dll_values dll_words sample_values dll_info_def sample_info_def empty_info_def Let_def upt_rec)

lemma dll_fields: "size_of_image dll_info = 64" "size_of_headers dll_info = 16"
  "image_base dll_info = 0x400000" "relocation_directory_rva dll_info = 32"
  "relocation_directory_size dll_info = 12" "is_dll dll_info" "is_pe32_plus dll_info" "machine dll_info = 0x8664"
  "address_of_entry_point dll_info = 16" "imports' dll_info = []" "delay_imports dll_info = []"
  "callback_vas (tls_info dll_info) = []" "exception_directory_rva dll_info = 0" "sections dll_info = sections sample_info"
  by (simp_all add: dll_info_def sample_info_def empty_info_def empty_tls_def)

lemma dll_loaded: "load_image dll_info dll_file sample_regions 64 = sample_memory"
  by (simp add: load_image_def sample_regions_def copy_region_def write_at_def dll_values dll_fields)
    (simp add: dll_file_def sample_file_def sample_memory_def numeral_eq_Suc)

lemma dll_mapped: "map_image willing_os 16 dll_info dll_file 0 = Inr (sample_image 0x400000 0 sample_memory 0)"
proof -
  have "image_regions 16 dll_info = Inr sample_regions"
    by (simp add: dll_info_def sample_info_def sample_regions_def empty_info_def map_image_eval)
  then show ?thesis
    by (simp add: map_image_def dll_fields reserve_def relocate_image_def
        willing_os_def dll_loaded align_up_def image_delta_def sample_protected sample_image_def)
qed

text \<open>An environment with that file in drive C, a kernel that grants everything and a guest that returns 1.\<close>

definition dll_path :: path where
  "dll_path = [''drive_c'', ''windows'', ''system32'', ''a.dll'']"

definition dll_env :: graph_env where
  "dll_env =
     \<lparr>ge_registry = [], ge_page = 16, ge_os = (\<lambda>t. willing_os),
      ge_maps = (\<lambda>t a. Some ''r-xp''), ge_guest = (\<lambda>t c. 1),
      ge_files = \<lparr>is_regular_file = (\<lambda>p. p = dll_path), is_symlink = (\<lambda>p. False),
        directory_entries = (\<lambda>p. None), file_contents = (\<lambda>p. if p = dll_path then Some dll_file else None)\<rparr>,
      ge_prefix_root = [], ge_profile = None\<rparr>"

definition dll_module :: "LoadedState \<Rightarrow> u32 \<Rightarrow> LoadedModule" where
  "dll_module st refs =
     \<lparr>lm_name = ''a.dll'', lm_provider = DriveC, lm_source = dll_path, lm_info = dll_info,
      lm_image = sample_image 0x400000 0 sample_memory 0, lm_state = st, lm_static_refs = 0,
      lm_dynamic_refs = refs, lm_process_attached = (st = Attached), lm_dependencies = []\<rparr>"

definition dll_graph :: graph where
  "dll_graph = (empty_graph [])
     \<lparr>gg_modules := [dll_module Attached 1], gg_calls := [DllMain 0x400010 0x400000 1], gg_clock := 2\<rparr>"

lemma dll_name: "normalize_module_name ''A'' = ''a.dll''"
  by (simp add: normalize_module_name_def is_space_def tolower_def ends_with_def Let_def char_of_def bit_Suc_0_iff)

lemma dll_lookup: "ensure_drive_module ld dll_env ''a.dll'' [] (empty_graph []) = ld ''a.dll'' DriveC dll_path (empty_graph [])"
  by (simp add: ensure_drive_module_def drive_candidates_def find_regular_file_case_insensitive_def dll_env_def dll_path_def
      system32_dir_def windows_dir_def drive_c_def find_loaded_def find_index_def empty_graph_def)

lemma dll_found:
  "load_pe_module dll_env ''a.dll'' DriveC dll_path (empty_graph []) =
     (Some 0, (empty_graph [])\<lparr>gg_modules := [dll_module Ready 0], gg_clock := 1\<rparr>)"
proof -
  have read: "read_file dll_env dll_path = Some dll_file"
    by (simp add: read_file_def dll_env_def dll_values kMaxPeFileSize_def)
  have parsed: "parsed_dll dll_file = Some dll_info" by (simp add: parsed_dll_def dll_parsed dll_fields)
  have mapped: "map_image (ge_os dll_env 0) (ge_page dll_env) dll_info dll_file 0 = Inr (sample_image 0x400000 0 sample_memory 0)"
    using dll_mapped by (simp add: dll_env_def)
  show ?thesis
    by (subst load_pe_module_rec)
      (simp add: load_step_def find_loaded_def find_index_def empty_graph_def read parsed mapped graph_has_room_def
        kMaxLoadedPeModules_def kMaxMappedImageBytes_def dll_fields resolve_imports_for_module_def all_imports_def
        tick_def push_module_def upd_module_def empty_result_def dll_module_def)
qed

lemma dll_attached:
  "attach_module dll_env 0 ((empty_graph [])\<lparr>gg_modules := [dll_module Ready 1], gg_clock := 1\<rparr>) = (True, dll_graph)"
  by (simp add: attach_module_def dll_module_def dll_fields upd_module_def attach_calls_def is_guest_executable_def
      sample_image_def dll_env_def call_guest_def tick_def image_handle_def finish_attach_def dll_graph_def empty_graph_def)

lemma dll_library: "load_library dll_env ''A'' (empty_graph []) = (0x400000, dll_graph)"
proof -
  have "ensure_profile_module ld dll_env name g = (None, g)" for ld name g
    by (simp add: ensure_profile_module_def dll_env_def)
  moreover have "upd_module 0 (\<lambda>m. m\<lparr>lm_dynamic_refs := to_u32 (lm_dynamic_refs m + 1)\<rparr>)
      ((empty_graph [])\<lparr>gg_modules := [dll_module Ready 0], gg_clock := 1\<rparr>) =
      (empty_graph [])\<lparr>gg_modules := [dll_module Ready 1], gg_clock := 1\<rparr>"
    by (simp add: upd_module_def dll_module_def to_u32_def)
  then have "attach_loaded dll_env 0 ((empty_graph [])\<lparr>gg_modules := [dll_module Ready 0], gg_clock := 1\<rparr>) =
      (Some 0x400000, dll_graph)"
    unfolding attach_loaded_def by (simp only: dll_attached) (simp add: dll_graph_def dll_module_def sample_image_def)
  moreover have "gg_main_path (empty_graph []) = []" by (simp add: empty_graph_def)
  ultimately show ?thesis
    by (simp add: load_library_def dll_name dll_lookup dll_found)
qed

lemma dll_reachable: "graph_reachable dll_env dll_graph"
  by (rule graph_reachable.further [OF graph_reachable.start graph_step.load [OF dll_library]])

section \<open>Properties\<close>

lemma attach_module_rec:
  "attach_module env i g =
     (if length (gg_modules g) \<le> i then (False, g)
      else if lm_state (gg_modules g ! i) = Attached then (True, g)
      else if lm_state (gg_modules g ! i) \<noteq> Ready then (False, g)
      else (case attach_dependencies (attach_module env) (lm_dependencies (gg_modules g ! i))
                   (upd_module i (\<lambda>m. m\<lparr>lm_state := Attaching\<rparr>) g) of
          (False, g1) \<Rightarrow> (False, reject_loaded_module env i g1)
        | (True, g1) \<Rightarrow>
            (case attach_calls env (gg_modules g1 ! i) g1 of
               (False, g2) \<Rightarrow> (False, reject_loaded_module env i g2)
             | (True, g2) \<Rightarrow> (True, finish_attach i g2))))"
proof (cases "length (gg_modules g) \<le> i \<or> lm_state (gg_modules g ! i) \<noteq> Ready")
  case True
  then show ?thesis by (auto simp: attach_module_def Let_def)
next
  case False
  let ?n = "length (gg_modules g)" and ?g1 = "upd_module i (\<lambda>m. m\<lparr>lm_state := Attaching\<rparr>) g"
  have bound: "card (ready_set s) \<le> length (gg_modules s)" for s
    using card_mono [of "{..<length (gg_modules s)}" "ready_set s"] by (auto simp: ready_set_def)
  have "i \<in> ready_set g" using False by (simp add: ready_set_def)
  moreover have "ready_set ?g1 = ready_set g - {i}"
    by (auto simp: ready_set_def nth_upd_module split: if_splits)
  ultimately have "card (ready_set ?g1) < card (ready_set g)" by (metis card_Diff1_less finite_ready_set)
  then have less: "card (ready_set ?g1) < ?n" using bound [of g] by linarith
  have "attach_dependencies (attach_go ?n env) (lm_dependencies (gg_modules g ! i)) ?g1 =
      attach_dependencies (attach_module env) (lm_dependencies (gg_modules g ! i)) ?g1"
  proof (rule attach_dependencies_agree [where P = "\<lambda>g. card (ready_set g) < ?n"])
    show "attach_go ?n env d s = attach_module env d s" if "card (ready_set s) < ?n" for d s
      unfolding attach_module_def using that bound [of s] by (intro attach_go_agree) simp_all
    show "card (ready_set (snd (attach_go ?n env d s))) < ?n" if "card (ready_set s) < ?n" for d s
      using no_readier_attach_go [of s ?n env d] that card_mono [OF finite_ready_set]
      unfolding no_readier_def by (meson le_less_trans)
  qed (rule less)
  then show ?thesis using False by (simp add: attach_module_def Let_def)
qed

text \<open>
  C15: The recursions of the module graph end: \<open>detach_module\<close>, \<open>attach_module\<close> and \<open>load_pe_module\<close> with
  the bounds of the model satisfy the equations of the code, in which the recursive calls have no bound.
  Every nested detach finds one attached module less, every nested attach one ready module less, and
  at most 256 modules can be in the graph when a load starts another.
\<close>

theorem graph_recursions_end:
  "detach_module env i g =
     (if length (gg_modules g) \<le> i then g
      else if lm_state (gg_modules g ! i) \<noteq> Attached then g
      else fold (release_with (detach_module env)) (lm_dependencies (gg_modules g ! i))
             (unload_module i (detach_calls env (gg_modules g ! i) g))) \<and>
   attach_module env i g =
     (if length (gg_modules g) \<le> i then (False, g)
      else if lm_state (gg_modules g ! i) = Attached then (True, g)
      else if lm_state (gg_modules g ! i) \<noteq> Ready then (False, g)
      else (case attach_dependencies (attach_module env) (lm_dependencies (gg_modules g ! i))
                   (upd_module i (\<lambda>m. m\<lparr>lm_state := Attaching\<rparr>) g) of
          (False, g1) \<Rightarrow> (False, reject_loaded_module env i g1)
        | (True, g1) \<Rightarrow>
            (case attach_calls env (gg_modules g1 ! i) g1 of
               (False, g2) \<Rightarrow> (False, reject_loaded_module env i g2)
             | (True, g2) \<Rightarrow> (True, finish_attach i g2)))) \<and>
   load_pe_module env name prov source g = load_step (load_pe_module env) env name prov source g"
  using detach_module_rec [of env i g] attach_module_rec [of env i g] load_pe_module_rec [of env name prov source g]
  by (simp only: release_dependency_def)

text \<open>
  C14: In every graph the operations can reach, exactly the modules neither rejected nor unloaded are
  mapped, a module counts at least the loaded modules that depend on it, the dependencies of an attached
  module are attached, and unwind data is registered once and for attached modules only.
\<close>

theorem graph_invariant:
  assumes "graph_reachable env g"
  shows "(\<forall>i < length (gg_modules g).
      let m = gg_modules g ! i in
      (memory (lm_image m) \<noteq> None \<longleftrightarrow> lm_state m \<noteq> Rejected \<and> lm_state m \<noteq> Unloaded) \<and>
      card {k. k < length (gg_modules g) \<and> loaded_state (gg_modules g ! k) \<and> i \<in> set (lm_dependencies (gg_modules g ! k))}
        \<le> lm_static_refs m \<and>
      distinct (lm_dependencies m) \<and>
      (\<forall>d \<in> set (lm_dependencies m). d < length (gg_modules g) \<and>
         (lm_state m = Attached \<longrightarrow> lm_state (gg_modules g ! d) = Attached))) \<and>
    distinct (map view_base (g_module_unwind_images (gg_views g))) \<and>
    (\<forall>v \<in> set (g_module_unwind_images (gg_views g)).
       \<exists>m \<in> set (gg_modules g). lm_state m = Attached \<and> view_base v = base (lm_image m))"
proof -
  have ok: "sound_graph g" using graph_ok_reachable [OF assms] by (simp add: graph_ok_def)
  note w = wf_graphD [OF sound_graphD(1) [OF ok]]
  show ?thesis
    using w sound_graphD(2) [OF ok]
    by (auto simp: Let_def counted_def owners_def wf_dependencies_def wf_images_def wf_views_def loaded_state_def
        dependencies_attached_def)
qed

theorem graph_invariant_witness: "length (gg_modules dll_graph) = 1 \<and> lm_state (gg_modules dll_graph ! 0) = Attached \<and>
    memory (lm_image (gg_modules dll_graph ! 0)) \<noteq> None"
  using graph_invariant [OF dll_reachable] by (simp add: dll_graph_def dll_module_def Let_def)

text \<open>
  C16: A handle that \<open>load_library\<close> returns is valid afterwards: it is the base of an attached, mapped
  module or the handle of a built-in module.
\<close>

theorem library_handle_valid:
  assumes "graph_reachable env g" "load_library env name g = (h, g')" "h \<noteq> 0"
  shows "graph_valid_handle h g' \<and>
    ((\<exists>i < length (gg_modules g'). lm_state (gg_modules g' ! i) = Attached \<and> base (lm_image (gg_modules g' ! i)) = h \<and>
        memory (lm_image (gg_modules g' ! i)) \<noteq> None) \<or>
     h \<in> set (gg_builtin_handles g'))"
proof -
  have ok: "graph_ok g' \<and> good_handle h g'"
    using load_library_ok graph_ok_reachable [OF assms(1)] assms(2) unfolding load_library_def by blast
  then have "wf_images g'" using sound_graphD(1) wf_graphD(4) by (auto simp: graph_ok_def)
  then have mapped: "memory (lm_image (gg_modules g' ! i)) \<noteq> None \<and> loaded_state (gg_modules g' ! i)"
    if "i < length (gg_modules g')" "lm_state (gg_modules g' ! i) = Attached" for i
    using that by (auto simp: wf_images_def loaded_state_def)
  have either: "(\<exists>i < length (gg_modules g'). lm_state (gg_modules g' ! i) = Attached \<and> h = base (lm_image (gg_modules g' ! i))) \<or>
      h \<in> set (gg_builtin_handles g')"
    using ok assms(3) by (auto simp: good_handle_def)
  then have "graph_valid_handle h g'"
  proof
    assume "h \<in> set (gg_builtin_handles g')"
    then have "find_handle h g' \<noteq> None"
      by (auto simp: find_handle_def find_None_iff in_set_conv_nth)
    then show ?thesis by (simp add: graph_valid_handle_def)
  next
    assume "\<exists>i < length (gg_modules g'). lm_state (gg_modules g' ! i) = Attached \<and> h = base (lm_image (gg_modules g' ! i))"
    then have "find_module_for_handle h g' \<noteq> None"
      using mapped assms(3) by (auto simp: find_module_for_handle_def find_index_def find_None_iff)
    then show ?thesis by (simp add: graph_valid_handle_def)
  qed
  then show ?thesis using either mapped by blast
qed

theorem library_handle_valid_witness: "graph_valid_handle 0x400000 dll_graph"
  using library_handle_valid [OF graph_reachable.start dll_library] by simp

text \<open>
  C17: After \<open>process_detach\<close> of a reachable graph no module is attached or counts as attached, no unwind
  data is registered, and every module that was attached has been unmapped.
\<close>

theorem process_detach_complete:
  assumes "graph_reachable env g"
  shows "(\<forall>m \<in> set (gg_modules (process_detach env g)). lm_state m \<noteq> Attached \<and> \<not> lm_process_attached m) \<and>
    g_module_unwind_images (gg_views (process_detach env g)) = [] \<and>
    (\<forall>i < length (gg_modules g). lm_state (gg_modules g ! i) = Attached \<longrightarrow>
       lm_state (gg_modules (process_detach env g) ! i) = Unloaded \<and>
       memory (lm_image (gg_modules (process_detach env g) ! i)) = None)"
proof -
  have "wf_graph {} [] g" using graph_ok_reachable [OF assms] sound_graphD(1) by (simp add: graph_ok_def)
  note f = process_detach_facts [OF this, of env]
  have "\<not> lm_process_attached m" if "m \<in> set (gg_modules (process_detach env g))" for m
    using f(4) wf_graphD(4) [OF f(1)] that by (auto simp: wf_images_def)
  moreover have "lm_state (gg_modules (process_detach env g) ! i) = Unloaded \<and>
       memory (lm_image (gg_modules (process_detach env g) ! i)) = None"
    if "i < length (gg_modules g)" "lm_state (gg_modules g ! i) = Attached" for i
  proof -
    have "kept_module (gg_modules g ! i) (gg_modules (process_detach env g) ! i)" using f(2) that(1) by (simp add: kept_def)
    moreover have "lm_state (gg_modules (process_detach env g) ! i) \<noteq> Attached" using f(3,4) that(1) by simp
    ultimately show ?thesis using that(2) by (auto simp: kept_module_def same_state_def went_away_def)
  qed
  ultimately show ?thesis using f(4,5) by blast
qed

theorem process_detach_complete_witness: "memory (lm_image (gg_modules (process_detach dll_env dll_graph) ! 0)) = None"
  using process_detach_complete [OF dll_reachable] by (simp add: dll_graph_def dll_module_def)

text \<open>
  Two modules in the order a program leaves them that imports \<open>a.dll\<close> before \<open>b.dll\<close>, which imports
  \<open>a.dll\<close> too: the dependency is loaded first, and has two references.
\<close>

definition b_module :: "LoadedState \<Rightarrow> LoadedModule" where
  "b_module st = (dll_module st 0)
     \<lparr>lm_name := ''b.dll'', lm_image := (sample_image 0x500000 0x100000 sample_memory 0), lm_static_refs := 1,
      lm_dependencies := [0]\<rparr>"

definition shared_graph :: "LoadedState \<Rightarrow> graph" where
  "shared_graph st = (empty_graph [])\<lparr>gg_modules := [(dll_module st 0)\<lparr>lm_static_refs := 2\<rparr>, b_module st]\<rparr>"

text \<open>
  \<open>process_detach\<close> takes modules down in the order they were loaded, whatever references they have: a
  dependency that was loaded first gets its \<open>DLL_PROCESS_DETACH\<close> and is unmapped before the module that
  imports it, in the same order in which they were attached.
\<close>

theorem detach_order_by_index:
  "gg_calls (snd (process_attach dll_env (shared_graph Ready))) =
     [DllMain 0x400010 0x400000 1, DllMain 0x500010 0x500000 1] \<and>
   gg_calls (process_detach dll_env (shared_graph Attached)) =
     [DllMain 0x400010 0x400000 0, DllMain 0x500010 0x500000 0]"
proof
  show "gg_calls (process_detach dll_env (shared_graph Attached)) =
     [DllMain 0x400010 0x400000 0, DllMain 0x500010 0x500000 0]"
    by (simp add: process_detach_def shared_graph_def b_module_def dll_module_def empty_graph_def upt_rec detach_module_rec
        detach_calls_def dll_fields is_guest_executable_def sample_image_def dll_env_def call_guest_def tick_def image_handle_def
        unload_module_def upd_module_def Let_def release_dependency_def release_with_def unmap_image_def)
next
  show "gg_calls (snd (process_attach dll_env (shared_graph Ready))) =
     [DllMain 0x400010 0x400000 1, DllMain 0x500010 0x500000 1]"
    by (simp add: process_attach_def profile_size_def shared_graph_def b_module_def dll_module_def empty_graph_def upt_rec
        attach_module_rec attach_calls_def finish_attach_def
        dll_fields is_guest_executable_def sample_image_def dll_env_def call_guest_def tick_def image_handle_def
        upd_module_def Let_def)
qed

end
