(* ===== verification/Virtual_Memory.thy ===== *)
theory Virtual_Memory
  imports Image_Model Guest_Memory
begin

text \<open>
  The virtual memory of the guest: \<open>src/runtime/ntdll.cpp\<close>. A table of 256 slots records the ranges the
  guest allocated, each with a list of regions of one state and protection, and the views of files that
  \<open>MapViewOfFile\<close> adds.

  Parameters: the page size, a power of two, and the answers of the kernel to \<open>mmap\<close>, \<open>mprotect\<close> and
  reads of \<open>/proc/self/maps\<close> (the record \<open>vm_os\<close>). The calls made are logged in the state. The null
  address is 0; the pointers to results are those of the callers in the program, never null. Lines of
  \<open>/proc/self/maps\<close> begin with two plain hexadecimal numbers, as the kernel writes them. Locks, trace
  output and failures of the host's allocator are not modelled.
\<close>

section \<open>Data\<close>

record AllocationRegion =
  rg_offset :: u64
  rg_size :: u64
  rg_state :: u32
  rg_protect :: u32

record AllocationSlot =
  as_address :: u64
  as_size :: u64
  as_view :: bool
  as_allocation_protect :: u32
  as_state :: u32
  as_protect :: u32
  as_regions :: "AllocationRegion list"

definition empty_slot :: AllocationSlot where
  "empty_slot = \<lparr>as_address = 0, as_size = 0, as_view = False, as_allocation_protect = 0, as_state = 0,
     as_protect = 0, as_regions = []\<rparr>"

datatype NtStatus = NtSuccess | NtInvalidParameter | NtNoMemory | NtMemoryNotAllocated | NtConflictingAddresses | NtAccessDenied

record NtMemoryInformation =
  BaseAddress :: u64
  AllocationBase :: u64
  AllocationProtect :: u32
  RegionSize :: u64
  State :: u32
  Protect :: u32
  Type :: u32

datatype mprotect_error = IsENOMEM | IsEACCES | IsOtherError

record vm_os =
  vo_mmap :: "u64 \<Rightarrow> u64 \<Rightarrow> Prot \<Rightarrow> u64 option"
  vo_mmap_any :: "u64 \<Rightarrow> Prot \<Rightarrow> u64 option"
  vo_mprotect :: "u64 \<Rightarrow> u64 \<Rightarrow> Prot \<Rightarrow> mprotect_error option"
  vo_maps :: "string list option"

datatype vm_call = Mmap u64 u64 | Munmap u64 u64 | Mprotect u64 u64 Prot

record vm =
  vm_allocations :: "AllocationSlot list"
  vm_limit :: u64
  vm_cache :: map_cache
  vm_calls :: "vm_call list"

definition log_call :: "vm_call \<Rightarrow> vm \<Rightarrow> vm" where
  "log_call c st = st\<lparr>vm_calls := vm_calls st @ [c]\<rparr>"

definition vm_invalidate :: "vm \<Rightarrow> vm" where
  "vm_invalidate st = st\<lparr>vm_cache := invalidate_memory_map_cache (vm_cache st)\<rparr>"

definition upd_slot :: "nat \<Rightarrow> (AllocationSlot \<Rightarrow> AllocationSlot) \<Rightarrow> vm \<Rightarrow> vm" where
  "upd_slot i f st = st\<lparr>vm_allocations := (vm_allocations st)[i := f (vm_allocations st ! i)]\<rparr>"

definition kMemCommit :: u32 where "kMemCommit = 0x1000"
definition kMemReserve :: u32 where "kMemReserve = 0x2000"
definition kMemRelease :: u32 where "kMemRelease = 0x8000"
definition kMemFree :: u32 where "kMemFree = 0x10000"
definition kPageNoAccess :: u32 where "kPageNoAccess = 0x01"
definition kPageReadOnly :: u32 where "kPageReadOnly = 0x02"
definition kPageReadWrite :: u32 where "kPageReadWrite = 0x04"
definition kPageWriteCopy :: u32 where "kPageWriteCopy = 0x08"
definition kPageExecute :: u32 where "kPageExecute = 0x10"
definition kPageExecuteRead :: u32 where "kPageExecuteRead = 0x20"
definition kPageExecuteReadWrite :: u32 where "kPageExecuteReadWrite = 0x40"
definition kPageExecuteWriteCopy :: u32 where "kPageExecuteWriteCopy = 0x80"

lemmas vm_consts = kMemCommit_def kMemReserve_def kMemRelease_def kMemFree_def kPageNoAccess_def kPageReadOnly_def
  kPageReadWrite_def kPageWriteCopy_def kPageExecute_def kPageExecuteRead_def kPageExecuteReadWrite_def
  kPageExecuteWriteCopy_def

fun NtStatusToDosError :: "NtStatus \<Rightarrow> u32" where
  "NtStatusToDosError NtSuccess = 0"
| "NtStatusToDosError NtNoMemory = 8"
| "NtStatusToDosError NtMemoryNotAllocated = 87"
| "NtStatusToDosError NtConflictingAddresses = 87"
| "NtStatusToDosError NtInvalidParameter = 87"
| "NtStatusToDosError NtAccessDenied = 5"

section \<open>Protections and pages\<close>

definition is_valid_protect :: "u32 \<Rightarrow> bool" where
  "is_valid_protect p \<longleftrightarrow>
     p \<in> set [kPageNoAccess, kPageReadOnly, kPageReadWrite, kPageWriteCopy, kPageExecute, kPageExecuteRead,
              kPageExecuteReadWrite, kPageExecuteWriteCopy]"

text \<open>The runtime never maps a page writable and executable.\<close>

definition prot_to_host :: "u32 \<Rightarrow> Prot" where
  "prot_to_host p =
     (if p = kPageNoAccess then PROT_NONE
      else if p = kPageReadOnly then PROT_R
      else if p = kPageReadWrite \<or> p = kPageWriteCopy then PROT_RW
      else if p = kPageExecute then \<lparr>prot_read = False, prot_write = False, prot_exec = True\<rparr>
      else if p = kPageExecuteRead then PROT_RX
      else PROT_RW)"

definition host_to_win_protect :: "string \<Rightarrow> u32" where
  "host_to_win_protect perms =
     (let r = 0 < length perms \<and> perms ! 0 = CHR ''r'';
          w = 1 < length perms \<and> perms ! 1 = CHR ''w'';
          x = 2 < length perms \<and> perms ! 2 = CHR ''x''
      in if \<not> r \<and> \<not> w \<and> \<not> x then kPageNoAccess
         else if r \<and> \<not> w \<and> \<not> x then kPageReadOnly
         else if r \<and> w \<and> \<not> x then kPageReadWrite
         else if r \<and> \<not> w \<and> x then kPageExecuteRead
         else if r \<and> w \<and> x then kPageExecuteReadWrite
         else if \<not> r \<and> x then kPageExecute
         else kPageReadWrite)"

text \<open>The sum may wrap; the mask clears the bits below the page size.\<close>

definition align_to_page :: "u64 \<Rightarrow> u64 \<Rightarrow> u64" where
  "align_to_page page v = align_down ((v + page - 1) mod 2 ^ 64) page"

definition vm_align_down :: "u64 \<Rightarrow> u64 \<Rightarrow> u64" where
  "vm_align_down page p = align_down p page"

section \<open>The table\<close>

definition contains_range :: "AllocationSlot \<Rightarrow> u64 \<Rightarrow> u64 \<Rightarrow> bool" where
  "contains_range slot address sz =
     (if as_address slot = 0 \<or> as_size slot = 0 \<or> address = 0 then False
      else if address < as_address slot \<or> as_size slot < address - as_address slot then False
      else sz \<le> as_size slot - (address - as_address slot))"

definition find_slot :: "(AllocationSlot \<Rightarrow> bool) \<Rightarrow> vm \<Rightarrow> nat option" where
  "find_slot P st = find (\<lambda>i. P (vm_allocations st ! i)) [0..<length (vm_allocations st)]"

definition find_private_allocation_locked :: "u64 \<Rightarrow> u64 \<Rightarrow> vm \<Rightarrow> nat option" where
  "find_private_allocation_locked address sz = find_slot (\<lambda>s. \<not> as_view s \<and> contains_range s address sz)"

definition counts_as_used :: "AllocationSlot \<Rightarrow> bool" where
  "counts_as_used s \<longleftrightarrow> \<not> (as_view s \<or> as_address s = 0 \<or> as_state s = kMemFree)"

text \<open>The bytes in use; \<open>None\<close> when the sum does not fit 64 bits.\<close>

fun used_bytes :: "AllocationSlot list \<Rightarrow> nat \<Rightarrow> nat option" where
  "used_bytes [] used = Some used"
| "used_bytes (s # slots) used =
     (if \<not> counts_as_used s then used_bytes slots used
      else if u64_max - used < as_size s then None
      else used_bytes slots (used + as_size s))"

definition guest_memory_limit_exceeded_locked :: "u64 \<Rightarrow> vm \<Rightarrow> bool" where
  "guest_memory_limit_exceeded_locked requested st =
     (if vm_limit st = 0 then False
      else (case used_bytes (vm_allocations st) 0 of
          None \<Rightarrow> True
        | Some used \<Rightarrow> vm_limit st < used \<or> vm_limit st - used < requested))"

definition guest_memory_limit_exceeded :: "u64 \<Rightarrow> vm \<Rightarrow> bool" where
  "guest_memory_limit_exceeded = guest_memory_limit_exceeded_locked"

definition in_allocation_region :: "u64 \<Rightarrow> AllocationRegion \<Rightarrow> bool" where
  "in_allocation_region off r \<longleftrightarrow> rg_offset r \<le> off \<and> off - rg_offset r < rg_size r"

definition find_allocation_region_locked :: "AllocationSlot \<Rightarrow> u64 \<Rightarrow> AllocationRegion option" where
  "find_allocation_region_locked slot address =
     (if address < as_address slot \<or> as_size slot \<le> address - as_address slot then None
      else find (in_allocation_region (address - as_address slot)) (as_regions slot))"

text \<open>The parts of a region before, inside and after the range from \<open>off\<close> to \<open>e\<close>.\<close>

definition split_region :: "u64 \<Rightarrow> u64 \<Rightarrow> u32 \<Rightarrow> AllocationRegion \<Rightarrow> AllocationRegion list" where
  "split_region off e protection r =
     (let r_end = rg_offset r + rg_size r; c_start = max (rg_offset r) off; c_end = min r_end e in
      (if rg_offset r < off then [r\<lparr>rg_size := off - rg_offset r\<rparr>] else []) @
      [r\<lparr>rg_offset := c_start, rg_size := c_end - c_start, rg_protect := protection\<rparr>] @
      (if c_end < r_end then [r\<lparr>rg_offset := c_end, rg_size := r_end - c_end\<rparr>] else []))"

text \<open>The loop over the regions: the new list and whether a region was changed.\<close>

fun protect_regions ::
    "u64 \<Rightarrow> u64 \<Rightarrow> u64 \<Rightarrow> u32 \<Rightarrow> AllocationRegion list \<Rightarrow> AllocationRegion list \<Rightarrow> bool \<Rightarrow>
     (AllocationRegion list \<times> bool) option" where
  "protect_regions slot_size off e protection [] updated changed = Some (updated, changed)"
| "protect_regions slot_size off e protection (r # rs) updated changed =
     (if slot_size < rg_offset r \<or> slot_size - rg_offset r < rg_size r then None
      else if rg_offset r + rg_size r \<le> off \<or> e \<le> rg_offset r
      then protect_regions slot_size off e protection rs (updated @ [r]) changed
      else protect_regions slot_size off e protection rs (updated @ split_region off e protection r) True)"

definition build_allocation_protection ::
    "AllocationSlot \<Rightarrow> u64 \<Rightarrow> u64 \<Rightarrow> u32 \<Rightarrow> AllocationRegion list option" where
  "build_allocation_protection slot off sz protection =
     (if as_size slot < off \<or> sz = 0 \<or> as_size slot - off < sz then None
      else (case protect_regions (as_size slot) off (off + sz) protection (as_regions slot) [] False of
          None \<Rightarrow> None
        | Some (updated, changed) \<Rightarrow> if changed \<and> updated \<noteq> [] then Some updated else None))"

section \<open>Allocating\<close>

text \<open>Committing a reservation made before; it must be committed whole.\<close>

definition commit_reservation :: "vm_os \<Rightarrow> u64 \<Rightarrow> u64 \<Rightarrow> u32 \<Rightarrow> vm \<Rightarrow> NtStatus \<times> vm" where
  "commit_reservation os base_address aligned protection st =
     (case find_private_allocation_locked base_address aligned st of
        None \<Rightarrow> (NtInvalidParameter, st)
      | Some i \<Rightarrow>
          let slot = vm_allocations st ! i in
          if as_address slot \<noteq> base_address \<or> as_state slot \<noteq> kMemReserve \<or> as_size slot \<noteq> aligned
          then (NtInvalidParameter, st)
          else
            let prot = prot_to_host protection; st1 = log_call (Mprotect (as_address slot) (as_size slot) prot) st in
            (case vo_mprotect os (as_address slot) (as_size slot) prot of
               Some IsENOMEM \<Rightarrow> (NtNoMemory, st1)
             | Some _ \<Rightarrow> (NtInvalidParameter, st1)
             | None \<Rightarrow>
                 (NtSuccess,
                  vm_invalidate (upd_slot i
                    (\<lambda>s. s\<lparr>as_state := kMemCommit, as_protect := protection,
                           as_regions := (case as_regions s of
                              [r] \<Rightarrow> [r\<lparr>rg_state := kMemCommit, rg_protect := protection\<rparr>]
                            | rs \<Rightarrow> rs)\<rparr>) st1))))"

definition overlaps :: "u64 \<Rightarrow> u64 \<Rightarrow> AllocationSlot \<Rightarrow> bool" where
  "overlaps result aligned slot \<longleftrightarrow>
     (as_address slot \<le> result \<and> result - as_address slot < as_size slot) \<or>
     (result \<le> as_address slot \<and> as_address slot - result < aligned)"

text \<open>Slots of freed ranges that the new mapping covers are given up.\<close>

definition drop_freed :: "u64 \<Rightarrow> u64 \<Rightarrow> AllocationSlot \<Rightarrow> AllocationSlot" where
  "drop_freed result aligned slot =
     (if as_view slot \<or> as_state slot \<noteq> kMemFree \<or> as_address slot = 0 then slot
      else if overlaps result aligned slot then empty_slot else slot)"

definition slot_available :: "AllocationSlot \<Rightarrow> bool" where
  "slot_available s \<longleftrightarrow> as_address s = 0 \<or> \<not> as_view s \<and> as_state s = kMemFree"

definition record_allocation :: "u64 \<Rightarrow> u64 \<Rightarrow> bool \<Rightarrow> u32 \<Rightarrow> vm \<Rightarrow> NtStatus \<times> vm" where
  "record_allocation result aligned commit protection st =
     (let failed = (NtNoMemory, log_call (Munmap result aligned) st) in
      if guest_memory_limit_exceeded_locked aligned st then failed
      else
        let st1 = st\<lparr>vm_allocations := map (drop_freed result aligned) (vm_allocations st)\<rparr> in
        (case find_slot slot_available st1 of
           None \<Rightarrow> (NtNoMemory, log_call (Munmap result aligned) st1)
         | Some i \<Rightarrow>
             let state = (if commit then kMemCommit else kMemReserve); prot = (if commit then protection else 0) in
             (NtSuccess,
              vm_invalidate (upd_slot i (\<lambda>s.
                \<lparr>as_address = result, as_size = aligned, as_view = False, as_allocation_protect = protection,
                 as_state = state, as_protect = prot,
                 as_regions = [\<lparr>rg_offset = 0, rg_size = aligned, rg_state = state, rg_protect = prot\<rparr>]\<rparr>) st1))))"

definition kAllowedAlloc :: u32 where
  "kAllowedAlloc = kMemCommit OR kMemReserve OR 0x00100000 OR 0x00080000 OR 0x00020000"

text \<open>The result has the status, the base and the size of the allocation.\<close>

definition NtAllocateVirtualMemory ::
    "vm_os \<Rightarrow> u64 \<Rightarrow> u64 \<Rightarrow> u64 \<Rightarrow> u32 \<Rightarrow> u32 \<Rightarrow> vm \<Rightarrow> NtStatus \<times> u64 \<times> u64 \<times> vm" where
  "NtAllocateVirtualMemory os page base_address sz allocation_type protection st =
     (let failed = (\<lambda>status st. (status, base_address, sz, st));
          reserve = allocation_type AND kMemReserve \<noteq> 0; commit = allocation_type AND kMemCommit \<noteq> 0;
          aligned = align_to_page page sz
      in
      if sz = 0 then failed NtInvalidParameter st
      else if allocation_type AND (u32_max - kAllowedAlloc) \<noteq> 0 \<or> allocation_type AND (kMemCommit OR kMemReserve) = 0
      then failed NtInvalidParameter st
      else if \<not> is_valid_protect protection then failed NtInvalidParameter st
      else if guest_memory_limit_exceeded aligned st then failed NtNoMemory st
      else if commit \<and> \<not> reserve \<and> base_address \<noteq> 0 then
        (case commit_reservation os base_address aligned protection st of
           (NtSuccess, st1) \<Rightarrow> (NtSuccess, base_address, aligned, st1)
         | (status, st1) \<Rightarrow> failed status st1)
      else
        let prot = (if commit then prot_to_host protection else PROT_NONE);
            result = (case vo_mmap os base_address aligned prot of Some a \<Rightarrow> Some a | None \<Rightarrow> vo_mmap_any os aligned prot)
        in
        (case result of
           None \<Rightarrow> failed NtNoMemory st
         | Some a \<Rightarrow>
             (case record_allocation a aligned commit protection (log_call (Mmap a aligned) st) of
                (NtSuccess, st1) \<Rightarrow> (NtSuccess, a, aligned, st1)
              | (status, st1) \<Rightarrow> failed status st1)))"

section \<open>Freeing and protecting\<close>

definition NtFreeVirtualMemory :: "u64 \<Rightarrow> u64 \<Rightarrow> u32 \<Rightarrow> vm \<Rightarrow> NtStatus \<times> u64 \<times> vm" where
  "NtFreeVirtualMemory base_address sz free_type st =
     (if base_address = 0 then (NtInvalidParameter, sz, st)
      else if free_type \<noteq> kMemRelease then (NtInvalidParameter, sz, st)
      else if sz \<noteq> 0 then (NtInvalidParameter, sz, st)
      else (case find_slot (\<lambda>s. \<not> as_view s \<and> as_address s = base_address \<and> as_state s \<noteq> kMemFree) st of
          None \<Rightarrow> (NtMemoryNotAllocated, sz, st)
        | Some i \<Rightarrow>
            let slot = vm_allocations st ! i;
                freed_size = (if as_size slot \<noteq> 0 then as_size slot else sz)
            in
            (NtSuccess, 0,
             vm_invalidate (upd_slot i (\<lambda>s. s\<lparr>as_view := False, as_allocation_protect := 0, as_state := kMemFree,
                 as_protect := 0,
                 as_regions := [\<lparr>rg_offset = 0, rg_size = freed_size, rg_state = kMemFree, rg_protect = 0\<rparr>]\<rparr>)
               (log_call (Munmap base_address freed_size) st)))))"

definition mprotect_status :: "mprotect_error \<Rightarrow> NtStatus" where
  "mprotect_status e =
     (case e of IsENOMEM \<Rightarrow> NtNoMemory | IsEACCES \<Rightarrow> NtAccessDenied | IsOtherError \<Rightarrow> NtInvalidParameter)"

text \<open>The first line of \<open>/proc/self/maps\<close> whose range has the address: its bounds and the line.\<close>

definition map_line_range :: "string \<Rightarrow> (u64 \<times> u64 \<times> nat) option" where
  "map_line_range l =
     (case find_char CHR ''-'' 0 l of
        None \<Rightarrow> None
      | Some dash \<Rightarrow>
          (case find_char CHR '' '' dash l of
             None \<Rightarrow> None
           | Some sp \<Rightarrow>
               (case (from_chars_hex (take dash l), from_chars_hex (take (sp - dash - 1) (drop (dash + 1) l))) of
                  (Some s, Some e) \<Rightarrow> Some (s, e, sp)
                | _ \<Rightarrow> None)))"

fun find_map_line :: "u64 \<Rightarrow> string list \<Rightarrow> (u64 \<times> u64 \<times> nat \<times> string) option" where
  "find_map_line target [] = None"
| "find_map_line target (l # ls) =
     (case map_line_range l of
        None \<Rightarrow> find_map_line target ls
      | Some (s, e, sp) \<Rightarrow> if s \<le> target \<and> target < e then Some (s, e, sp, l) else find_map_line target ls)"

definition line_perms :: "nat \<Rightarrow> string \<Rightarrow> string option" where
  "line_perms sp l = (if sp + 1 + 3 \<le> length l then Some (take 3 (drop (sp + 1) l)) else None)"

definition external_protection :: "vm_os \<Rightarrow> u64 \<Rightarrow> u32" where
  "external_protection os aligned_start =
     (case vo_maps os of
        None \<Rightarrow> kPageReadWrite
      | Some ls \<Rightarrow>
          (case find_map_line aligned_start ls of
             None \<Rightarrow> kPageReadWrite
           | Some (s, e, sp, l) \<Rightarrow>
               (case line_perms sp l of None \<Rightarrow> kPageReadWrite | Some perms \<Rightarrow> host_to_win_protect perms)))"

text \<open>\<open>mprotect\<close>, then what success changes in the state.\<close>

definition protect_pages_with ::
    "vm_os \<Rightarrow> u64 \<Rightarrow> u64 \<Rightarrow> u64 \<Rightarrow> u32 \<Rightarrow> u32 \<Rightarrow> (vm \<Rightarrow> vm) \<Rightarrow> vm \<Rightarrow> NtStatus \<times> u64 \<times> u32 option \<times> vm" where
  "protect_pages_with os sz aligned_base aligned_size new_protect old f st =
     (let prot = prot_to_host new_protect; st1 = log_call (Mprotect aligned_base aligned_size prot) st in
      case vo_mprotect os aligned_base aligned_size prot of
        Some e \<Rightarrow> (mprotect_status e, sz, None, st1)
      | None \<Rightarrow> (NtSuccess, aligned_size, Some old, vm_invalidate (f st1)))"

definition set_regions :: "AllocationRegion list \<Rightarrow> AllocationSlot \<Rightarrow> AllocationSlot" where
  "set_regions updated s =
     s\<lparr>as_regions := updated,
       as_state := (case updated of [r] \<Rightarrow> rg_state r | _ \<Rightarrow> 0),
       as_protect := (case updated of [r] \<Rightarrow> rg_protect r | _ \<Rightarrow> 0)\<rparr>"

definition NtProtectVirtualMemory ::
    "vm_os \<Rightarrow> u64 \<Rightarrow> u64 \<Rightarrow> u64 \<Rightarrow> u32 \<Rightarrow> vm \<Rightarrow> NtStatus \<times> u64 \<times> u32 option \<times> vm" where
  "NtProtectVirtualMemory os page base_address sz new_protect st =
     (let aligned_base = vm_align_down page base_address;
          aligned_size = align_to_page page ((sz + (base_address - aligned_base)) mod 2 ^ 64)
      in
      if base_address = 0 \<or> sz = 0 \<or> \<not> is_valid_protect new_protect then (NtInvalidParameter, sz, None, st)
      else (case find_private_allocation_locked aligned_base aligned_size st of
          None \<Rightarrow>
            if list_ex (\<lambda>s. \<not> as_view s \<and> contains_range s base_address 1) (vm_allocations st)
            then (NtInvalidParameter, sz, None, st)
            else protect_pages_with os sz aligned_base aligned_size new_protect
                   (external_protection os aligned_base) (\<lambda>st. st) st
        | Some i \<Rightarrow>
            let slot = vm_allocations st ! i in
            (case find_allocation_region_locked slot aligned_base of
               None \<Rightarrow> (NtInvalidParameter, sz, None, st)
             | Some r \<Rightarrow>
                 if rg_state r \<noteq> kMemCommit then (NtInvalidParameter, sz, None, st)
                 else (case build_allocation_protection slot (aligned_base - as_address slot) aligned_size new_protect of
                     None \<Rightarrow> (NtNoMemory, sz, None, st)
                   | Some updated \<Rightarrow>
                       protect_pages_with os sz aligned_base aligned_size new_protect (rg_protect r)
                         (upd_slot i (set_regions updated)) st))))"

section \<open>Querying\<close>

definition in_slot :: "u64 \<Rightarrow> AllocationSlot \<Rightarrow> bool" where
  "in_slot addr s \<longleftrightarrow> as_address s \<noteq> 0 \<and> as_address s \<le> addr \<and> addr < (as_address s + as_size s) mod 2 ^ 64"

definition slot_information :: "u64 \<Rightarrow> AllocationSlot \<Rightarrow> NtMemoryInformation" where
  "slot_information addr s =
     (let offset = addr - as_address s;
          r = (case find (in_allocation_region offset) (as_regions s) of
                 Some r \<Rightarrow> r
               | None \<Rightarrow> \<lparr>rg_offset = 0, rg_size = as_size s, rg_state = as_state s, rg_protect = as_protect s\<rparr>);
          free = rg_state r = kMemFree
      in \<lparr>BaseAddress = as_address s + rg_offset r, AllocationBase = (if free then 0 else as_address s),
          AllocationProtect = (if free then 0 else as_allocation_protect s),
          RegionSize = rg_size r - (offset - rg_offset r), State = rg_state r,
          Protect = (if rg_state r = kMemCommit then rg_protect r else 0),
          Type = (if free then 0 else if as_view s then 0x40000 else 0x20000)\<rparr>)"

definition line_information :: "u64 \<Rightarrow> u64 \<times> u64 \<times> nat \<times> string \<Rightarrow> NtMemoryInformation" where
  "line_information target line =
     (case line of (s, e, sp, l) \<Rightarrow>
        let prot = host_to_win_protect (case line_perms sp l of Some perms \<Rightarrow> perms | None \<Rightarrow> []) in
        \<lparr>BaseAddress = s, AllocationBase = s, AllocationProtect = prot, RegionSize = e - target, State = kMemCommit,
         Protect = prot, Type = (if CHR ''/'' \<in> set l then 0x1000000 else 0x20000)\<rparr>)"

definition NtQueryVirtualMemory :: "vm_os \<Rightarrow> u64 \<Rightarrow> vm \<Rightarrow> NtStatus \<times> NtMemoryInformation option" where
  "NtQueryVirtualMemory os addr st =
     (if addr = 0 then (NtInvalidParameter, None)
      else (case find_slot (in_slot addr) st of
          Some i \<Rightarrow> (NtSuccess, Some (slot_information addr (vm_allocations st ! i)))
        | None \<Rightarrow>
            (case vo_maps os of
               None \<Rightarrow> (NtInvalidParameter, None)
             | Some ls \<Rightarrow>
                 (case find_map_line addr ls of
                    None \<Rightarrow> (NtInvalidParameter, None)
                  | Some line \<Rightarrow> (NtSuccess, Some (line_information addr line))))))"

end
