(* ===== verification/Virtual_Tables.thy ===== *)
theory Virtual_Tables
  imports Virtual_Memory
begin

text \<open>
  The regions of an allocation tile it, the table has no overlaps, and the operations on the table are
  functions on the map from addresses to state and protection.
\<close>

section \<open>Regions tile an allocation\<close>

fun tiled :: "nat \<Rightarrow> AllocationRegion list \<Rightarrow> nat \<Rightarrow> bool" where
  "tiled b [] e \<longleftrightarrow> b = e"
| "tiled b (r # rs) e \<longleftrightarrow> rg_offset r = b \<and> 0 < rg_size r \<and> tiled (b + rg_size r) rs e"

lemma tiled_le: "tiled b rs e \<Longrightarrow> b \<le> e"
  by (induction rs arbitrary: b) fastforce+

lemma tiled_append: "tiled b xs m \<Longrightarrow> tiled m ys e \<Longrightarrow> tiled b (xs @ ys) e"
  by (induction xs arbitrary: b) auto

lemma tiled_bounds: "tiled b rs e \<Longrightarrow> r \<in> set rs \<Longrightarrow> b \<le> rg_offset r \<and> rg_offset r + rg_size r \<le> e \<and> 0 < rg_size r"
  by (induction rs arbitrary: b) (fastforce dest: tiled_le)+

definition region_view :: "AllocationRegion list \<Rightarrow> nat \<Rightarrow> (u32 \<times> u32) option" where
  "region_view rs x = map_option (\<lambda>r. (rg_state r, rg_protect r)) (find (in_allocation_region x) rs)"

lemma region_view_simps [simp]:
  "region_view [] x = None"
  "region_view (r # rs) x = (if in_allocation_region x r then Some (rg_state r, rg_protect r) else region_view rs x)"
  by (simp_all add: region_view_def)

lemma region_view_append: "region_view (xs @ ys) x = (case region_view xs x of None \<Rightarrow> region_view ys x | Some p \<Rightarrow> Some p)"
  by (induction xs) auto

lemma region_view_outside: "tiled b rs e \<Longrightarrow> x < b \<or> e \<le> x \<Longrightarrow> region_view rs x = None"
  by (induction rs arbitrary: b) (fastforce simp: in_allocation_region_def dest: tiled_le)+

lemma region_view_inside: "tiled b rs e \<Longrightarrow> b \<le> x \<Longrightarrow> x < e \<Longrightarrow> region_view rs x \<noteq> None"
proof (induction rs arbitrary: b)
  case Nil
  then show ?case by simp
next
  case (Cons r rs)
  then show ?case by (cases "x < b + rg_size r") (auto simp: in_allocation_region_def)
qed

text \<open>What protecting a range does to one region, and to the list.\<close>

definition region_parts :: "u64 \<Rightarrow> u64 \<Rightarrow> u32 \<Rightarrow> AllocationRegion \<Rightarrow> AllocationRegion list" where
  "region_parts off e p r = (if rg_offset r + rg_size r \<le> off \<or> e \<le> rg_offset r then [r] else split_region off e p r)"

lemma protect_regions_eq:
  "tiled b rs n \<Longrightarrow> n \<le> slot_size \<Longrightarrow>
   protect_regions slot_size off e p rs acc ch =
     Some (acc @ concat (map (region_parts off e p) rs),
           ch \<or> (\<exists>r \<in> set rs. \<not> (rg_offset r + rg_size r \<le> off \<or> e \<le> rg_offset r)))"
proof (induction rs arbitrary: b acc ch)
  case Nil
  then show ?case by simp
next
  case (Cons r rs)
  have "rg_offset r + rg_size r \<le> n" using Cons.prems(1) tiled_le by fastforce
  then have ok: "\<not> (slot_size < rg_offset r \<or> slot_size - rg_offset r < rg_size r)" using Cons.prems(2) by linarith
  have "tiled (b + rg_size r) rs n" using Cons.prems(1) by simp
  then show ?case using ok Cons.IH [of "b + rg_size r"] Cons.prems(2) by (simp add: region_parts_def)
qed

lemma split_region_tiled:
  assumes "off < e" "0 < rg_size r" "\<not> (rg_offset r + rg_size r \<le> off \<or> e \<le> rg_offset r)"
  shows "tiled (rg_offset r) (split_region off e p r) (rg_offset r + rg_size r)"
  using assms by (auto simp: split_region_def Let_def)

lemma region_parts_tiled: "off < e \<Longrightarrow> 0 < rg_size r \<Longrightarrow> tiled (rg_offset r) (region_parts off e p r) (rg_offset r + rg_size r)"
  using split_region_tiled by (simp add: region_parts_def)

lemma parts_tiled: "off < e \<Longrightarrow> tiled b rs n \<Longrightarrow> tiled b (concat (map (region_parts off e p) rs)) n"
  by (induction rs arbitrary: b) (auto intro: tiled_append region_parts_tiled)

lemma in_alloc_region_iff: "in_allocation_region x r \<longleftrightarrow> rg_offset r \<le> x \<and> x < rg_offset r + rg_size r"
  by (auto simp: in_allocation_region_def)

lemma region_parts_view:
  assumes "off < e" "0 < rg_size r" "in_allocation_region x r"
  shows "region_view (region_parts off e p r) x = Some (rg_state r, if off \<le> x \<and> x < e then p else rg_protect r)"
proof (cases "rg_offset r + rg_size r \<le> off \<or> e \<le> rg_offset r")
  case True
  then show ?thesis using assms by (auto simp: region_parts_def in_alloc_region_iff)
next
  case False
  consider "x < off" | "e \<le> x" | "off \<le> x" "x < e" by linarith
  then show ?thesis
    using False assms
    by cases (simp_all add: region_parts_def split_region_def in_alloc_region_iff Let_def max_def min_def)
qed

lemma parts_view:
  assumes "off < e" "tiled b rs n"
  shows "region_view (concat (map (region_parts off e p) rs)) x =
    map_option (\<lambda>(s, q). (s, if off \<le> x \<and> x < e then p else q)) (region_view rs x)"
  using assms(2)
proof (induction rs arbitrary: b)
  case Nil
  then show ?case by simp
next
  case (Cons r rs)
  have t: "tiled (rg_offset r) (region_parts off e p r) (rg_offset r + rg_size r)"
    using Cons.prems assms(1) by (intro region_parts_tiled) simp_all
  show ?case
  proof (cases "in_allocation_region x r")
    case True
    then show ?thesis using region_parts_view [OF assms(1) _ True] Cons.prems by (simp add: region_view_append)
  next
    case False
    then have "x < rg_offset r \<or> rg_offset r + rg_size r \<le> x" by (auto simp: in_allocation_region_def)
    then have "region_view (region_parts off e p r) x = None" using region_view_outside [OF t] by blast
    moreover have "tiled (b + rg_size r) rs n" using Cons.prems by simp
    ultimately show ?thesis using Cons.IH False by (simp add: region_view_append)
  qed
qed

lemma parts_states: "r' \<in> set (region_parts off e p r) \<Longrightarrow> rg_state r' = rg_state r \<and> (rg_protect r' = rg_protect r \<or> rg_protect r' = p)"
  by (auto simp: region_parts_def split_region_def Let_def split: if_splits)

lemma region_parts_not_Nil [simp]: "region_parts off e p r \<noteq> []"
  by (simp add: region_parts_def split_region_def Let_def)

lemma touched_region:
  assumes "tiled b rs n" "off < e" "b \<le> off" "off < n"
  shows "\<exists>r \<in> set rs. \<not> (rg_offset r + rg_size r \<le> off \<or> e \<le> rg_offset r)"
  using assms
proof (induction rs arbitrary: b)
  case Nil
  then show ?case by simp
next
  case (Cons r rs)
  then show ?case by (cases "off < b + rg_size r") auto
qed

lemma build_protection_Some:
  assumes "tiled 0 (as_regions slot) (as_size slot)"
  shows "build_allocation_protection slot off sz p =
    (if off \<le> as_size slot \<and> 0 < sz \<and> off + sz \<le> as_size slot
     then Some (concat (map (region_parts off (off + sz) p) (as_regions slot))) else None)"
proof (cases "off \<le> as_size slot \<and> 0 < sz \<and> off + sz \<le> as_size slot")
  case True
  have "\<exists>r \<in> set (as_regions slot). \<not> (rg_offset r + rg_size r \<le> off \<or> off + sz \<le> rg_offset r)"
    by (rule touched_region [OF assms]) (use True in auto)
  moreover from this have "as_regions slot \<noteq> []" by auto
  ultimately show ?thesis
    using True protect_regions_eq [OF assms le_refl, of off "off + sz" p "[]" False]
    by (cases "as_regions slot") (auto simp: build_allocation_protection_def)
next
  case False
  then show ?thesis by (auto simp: build_allocation_protection_def)
qed

section \<open>The table\<close>

definition slot_range :: "AllocationSlot \<Rightarrow> u64 set" where
  "slot_range s = {as_address s ..< as_address s + as_size s}"

definition live :: "AllocationSlot \<Rightarrow> bool" where
  "live s \<longleftrightarrow> as_address s \<noteq> 0 \<and> (as_view s \<or> as_state s \<noteq> kMemFree)"

definition tracked :: "AllocationSlot \<Rightarrow> bool" where
  "tracked s \<longleftrightarrow> as_address s \<noteq> 0 \<and> \<not> as_view s"

text \<open>
  All regions of a slot have one state; a slot with one region repeats its state and protection, and a
  slot with several is committed.
\<close>

definition uniform :: "u32 \<Rightarrow> AllocationSlot \<Rightarrow> bool" where
  "uniform u s \<longleftrightarrow>
     (\<forall>r \<in> set (as_regions s). rg_state r = u \<and> (u = kMemCommit \<longrightarrow> is_valid_protect (rg_protect r))) \<and>
     (case as_regions s of
        [r] \<Rightarrow> as_state s = u \<and> as_protect s = rg_protect r
      | _ \<Rightarrow> u = kMemCommit \<and> as_state s = 0 \<and> as_protect s = 0)"

definition wf_slot :: "u64 \<Rightarrow> AllocationSlot \<Rightarrow> bool" where
  "wf_slot page s \<longleftrightarrow>
     0 < as_size s \<and> page dvd as_address s \<and> page dvd as_size s \<and> as_address s + as_size s < 2 ^ 64 \<and>
     tiled 0 (as_regions s) (as_size s) \<and> (\<exists>u \<in> {kMemCommit, kMemReserve, kMemFree}. uniform u s)"

lemma uniform_set_regions:
  "\<forall>r \<in> set rs. rg_state r = kMemCommit \<and> is_valid_protect (rg_protect r) \<Longrightarrow> uniform kMemCommit (set_regions rs s)"
  by (cases rs; cases "tl rs") (auto simp: uniform_def set_regions_def)

text \<open>What the calls of \<open>mmap\<close> and \<open>munmap\<close> have left mapped.\<close>

fun mapped_after :: "vm_call list \<Rightarrow> u64 set \<Rightarrow> u64 set" where
  "mapped_after [] m = m"
| "mapped_after (Mmap a n # cs) m = mapped_after cs (m \<union> {a ..< a + n})"
| "mapped_after (Munmap a n # cs) m = mapped_after cs (m - {a ..< a + n})"
| "mapped_after (Mprotect a n p # cs) m = mapped_after cs m"

definition mapped :: "vm \<Rightarrow> u64 set" where
  "mapped st = mapped_after (vm_calls st) {}"

definition total_used :: "AllocationSlot list \<Rightarrow> nat" where
  "total_used slots = sum_list (map as_size (filter counts_as_used slots))"

text \<open>Two live slots do not overlap, nor do two slots of private allocations, even freed ones.\<close>

definition clash :: "AllocationSlot \<Rightarrow> AllocationSlot \<Rightarrow> bool" where
  "clash s t \<longleftrightarrow> live s \<and> live t \<or> tracked s \<and> tracked t"

definition apart :: "AllocationSlot list \<Rightarrow> bool" where
  "apart slots \<longleftrightarrow> (\<forall>i < length slots. \<forall>j < length slots. i \<noteq> j \<longrightarrow> clash (slots ! i) (slots ! j) \<longrightarrow>
     slot_range (slots ! i) \<inter> slot_range (slots ! j) = {})"

lemma apartD:
  "apart slots \<Longrightarrow> i < length slots \<Longrightarrow> j < length slots \<Longrightarrow> i \<noteq> j \<Longrightarrow> clash (slots ! i) (slots ! j) \<Longrightarrow>
   slot_range (slots ! i) \<inter> slot_range (slots ! j) = {}"
  unfolding apart_def by blast

lemma clash_sym: "clash s t \<longleftrightarrow> clash t s"
  by (auto simp: clash_def)

definition wf_vm :: "u64 \<Rightarrow> vm \<Rightarrow> bool" where
  "wf_vm page st \<longleftrightarrow>
     (\<forall>s \<in> set (vm_allocations st). (tracked s \<longrightarrow> wf_slot page s) \<and>
        (as_address s \<noteq> 0 \<and> as_view s \<longrightarrow> 0 < as_size s \<and> as_address s + as_size s < 2 ^ 64 \<and> as_regions s = [] \<and>
           as_state s = kMemCommit) \<and>
        (as_address s = 0 \<longrightarrow> as_regions s = [] \<and> \<not> as_view s)) \<and>
     apart (vm_allocations st) \<and>
     mapped st = (\<Union>s \<in> {s \<in> set (vm_allocations st). live s}. slot_range s) \<and>
     (vm_limit st \<noteq> 0 \<longrightarrow> total_used (vm_allocations st) \<le> vm_limit st)"

text \<open>The kernel: \<open>mmap\<close> gives whole pages below \<open>2 ^ 64\<close> that are not mapped yet, and refuses an empty range.\<close>

definition honest :: "u64 \<Rightarrow> vm_os \<Rightarrow> vm \<Rightarrow> bool" where
  "honest page os st \<longleftrightarrow>
     (\<forall>n p a. (\<exists>hint. vo_mmap os hint n p = Some a) \<or> vo_mmap_any os n p = Some a \<longrightarrow>
        0 < n \<and> 0 < a \<and> page dvd a \<and> a + n < 2 ^ 64 \<and> {a ..< a + n} \<inter> mapped st = {})"

lemma mapped_append: "mapped_after (cs @ ds) m = mapped_after ds (mapped_after cs m)"
  by (induction cs m rule: mapped_after.induct) simp_all

lemma mapped_log:
  "mapped (log_call (Mmap a n) st) = mapped st \<union> {a ..< a + n}"
  "mapped (log_call (Munmap a n) st) = mapped st - {a ..< a + n}"
  "mapped (log_call (Mprotect a n p) st) = mapped st"
  by (simp_all add: mapped_def log_call_def mapped_append)

lemma vm_members [simp]:
  "vm_allocations (log_call c st) = vm_allocations st" "vm_limit (log_call c st) = vm_limit st"
  "vm_allocations (vm_invalidate st) = vm_allocations st" "vm_limit (vm_invalidate st) = vm_limit st"
  "mapped (vm_invalidate st) = mapped st"
  "vm_limit (upd_slot i f st) = vm_limit st" "mapped (upd_slot i f st) = mapped st"
  "vm_allocations (upd_slot i f st) = (vm_allocations st)[i := f (vm_allocations st ! i)]"
  by (simp_all add: log_call_def vm_invalidate_def mapped_def upd_slot_def)

lemma used_bytes_eq:
  "used \<le> u64_max \<Longrightarrow> used_bytes slots used = (if used + total_used slots \<le> u64_max then Some (used + total_used slots) else None)"
proof (induction slots arbitrary: used)
  case Nil
  then show ?case by (simp add: total_used_def)
next
  case (Cons s slots)
  show ?case
  proof (cases "counts_as_used s")
    case True
    show ?thesis
    proof (cases "u64_max - used < as_size s")
      case True
      then show ?thesis using \<open>counts_as_used s\<close> by (simp add: total_used_def)
    next
      case False
      then show ?thesis using True Cons.IH [of "used + as_size s"] Cons.prems by (simp add: total_used_def add.assoc)
    qed
  next
    case False
    then show ?thesis using Cons by (simp add: total_used_def)
  qed
qed

lemma not_exceeded:
  assumes "\<not> guest_memory_limit_exceeded_locked n st" "vm_limit st \<noteq> 0"
  shows "total_used (vm_allocations st) + n \<le> vm_limit st"
  using assms used_bytes_eq [of 0 "vm_allocations st"]
  by (auto simp: guest_memory_limit_exceeded_locked_def split: if_splits)

lemma find_slot_Some:
  "find_slot P st = Some i \<Longrightarrow> i < length (vm_allocations st) \<and> P (vm_allocations st ! i) \<and> (\<forall>j < i. \<not> P (vm_allocations st ! j))"
  by (auto simp: find_slot_def find_Some_iff)

lemma find_slot_None: "find_slot P st = None \<longleftrightarrow> (\<forall>s \<in> set (vm_allocations st). \<not> P s)"
  by (simp add: find_slot_def find_None_iff) (metis in_set_conv_nth)

section \<open>Replacing a slot\<close>

definition live_bytes :: "AllocationSlot list \<Rightarrow> u64 set" where
  "live_bytes slots = (\<Union>s \<in> {s \<in> set slots. live s}. slot_range s)"

definition ok_slot :: "u64 \<Rightarrow> AllocationSlot \<Rightarrow> bool" where
  "ok_slot page s \<longleftrightarrow> (tracked s \<longrightarrow> wf_slot page s) \<and>
     (as_address s \<noteq> 0 \<and> as_view s \<longrightarrow> 0 < as_size s \<and> as_address s + as_size s < 2 ^ 64 \<and> as_regions s = [] \<and>
        as_state s = kMemCommit) \<and>
     (as_address s = 0 \<longrightarrow> as_regions s = [] \<and> \<not> as_view s)"

lemma wf_vm_iff:
  "wf_vm page st \<longleftrightarrow> (\<forall>s \<in> set (vm_allocations st). ok_slot page s) \<and> apart (vm_allocations st) \<and>
     mapped st = live_bytes (vm_allocations st) \<and> (vm_limit st \<noteq> 0 \<longrightarrow> total_used (vm_allocations st) \<le> vm_limit st)"
  by (simp add: wf_vm_def ok_slot_def live_bytes_def)

lemma ok_empty [simp]: "ok_slot page empty_slot"
  by (simp add: ok_slot_def tracked_def empty_slot_def)

definition weight :: "AllocationSlot \<Rightarrow> nat" where
  "weight s = (if counts_as_used s then as_size s else 0)"

lemma total_used_weight: "total_used slots = sum_list (map weight slots)"
  by (induction slots) (simp_all add: total_used_def weight_def)

lemma total_used_update:
  "i < length slots \<Longrightarrow> total_used (slots[i := s]) + weight (slots ! i) = total_used slots + weight s"
proof -
  assume i: "i < length slots"
  then have "weight (slots ! i) \<le> total_used slots"
    using elem_le_sum_list [of i "map weight slots"] by (simp add: total_used_weight)
  then show ?thesis using i by (simp add: total_used_weight map_update sum_list_update)
qed

lemma mem_live_bytes: "x \<in> live_bytes xs \<longleftrightarrow> (\<exists>j < length xs. live (xs ! j) \<and> x \<in> slot_range (xs ! j))"
  by (auto simp: live_bytes_def in_set_conv_nth)

lemma live_bytes_update:
  assumes "i < length slots" "apart slots"
  shows "live_bytes (slots[i := s]) =
    (live_bytes slots - (if live (slots ! i) then slot_range (slots ! i) else {})) \<union> (if live s then slot_range s else {})"
proof -
  have mem: "x \<in> live_bytes xs \<longleftrightarrow> (\<exists>j < length xs. live (xs ! j) \<and> x \<in> slot_range (xs ! j))" for x xs
    by (rule mem_live_bytes)
  have other: "x \<notin> slot_range (slots ! i)"
    if "j < length slots" "j \<noteq> i" "live (slots ! j)" "x \<in> slot_range (slots ! j)" "live (slots ! i)" for x j
    using apartD [OF assms(2) that(1) assms(1) that(2)] that by (auto simp: clash_def)
  show ?thesis
  proof (rule set_eqI)
    fix x
    show "x \<in> live_bytes (slots[i := s]) \<longleftrightarrow>
      x \<in> (live_bytes slots - (if live (slots ! i) then slot_range (slots ! i) else {})) \<union> (if live s then slot_range s else {})"
      (is "?l \<longleftrightarrow> ?r")
    proof
      assume ?l
      then obtain j where j: "j < length slots" "live (slots[i := s] ! j)" "x \<in> slot_range (slots[i := s] ! j)"
        unfolding mem by auto
      then show ?r using other [of j x] assms(1) mem [of x slots] by (cases "j = i") auto
    next
      assume r: ?r
      show ?l
      proof (cases "live s \<and> x \<in> slot_range s")
        case True
        then show ?thesis using assms(1) by (auto simp: mem)
      next
        case False
        then have "x \<in> live_bytes slots" "\<not> (live (slots ! i) \<and> x \<in> slot_range (slots ! i))" using r by (auto split: if_splits)
        then obtain j where "j < length slots" "live (slots ! j)" "x \<in> slot_range (slots ! j)" "j \<noteq> i"
          unfolding mem by blast
        then show ?thesis unfolding mem by (metis length_list_update nth_list_update_neq)
      qed
    qed
  qed
qed

lemma apart_update:
  assumes "apart slots" "i < length slots"
    "\<And>j. j < length slots \<Longrightarrow> j \<noteq> i \<Longrightarrow> clash s (slots ! j) \<Longrightarrow> slot_range s \<inter> slot_range (slots ! j) = {}"
  shows "apart (slots[i := s])"
  unfolding apart_def
proof (intro allI impI)
  fix j k
  assume jk: "j < length (slots[i := s])" "k < length (slots[i := s])" "j \<noteq> k" "clash (slots[i := s] ! j) (slots[i := s] ! k)"
  consider "j = i" | "k = i" | "j \<noteq> i" "k \<noteq> i" by blast
  then show "slot_range (slots[i := s] ! j) \<inter> slot_range (slots[i := s] ! k) = {}"
  proof cases
    case 1
    then show ?thesis using jk assms(3) [of k] assms(2) by simp
  next
    case 2
    then show ?thesis using jk assms(3) [of j] assms(2) clash_sym [of s] by (auto simp: Int_commute)
  next
    case 3
    then show ?thesis using jk apartD [OF assms(1), of j k] by simp
  qed
qed

lemma ok_slots_update:
  "\<forall>s \<in> set slots. ok_slot page s \<Longrightarrow> ok_slot page s' \<Longrightarrow> \<forall>s \<in> set (slots[i := s']). ok_slot page s"
  using set_update_subset_insert by fastforce

text \<open>A slot that keeps its range and whether it is live.\<close>

lemma wf_vm_same_range:
  assumes "wf_vm page st" "i < length (vm_allocations st)" "ok_slot page (f (vm_allocations st ! i))"
    "as_address (f (vm_allocations st ! i)) = as_address (vm_allocations st ! i)"
    "as_size (f (vm_allocations st ! i)) = as_size (vm_allocations st ! i)"
    "as_view (f (vm_allocations st ! i)) = as_view (vm_allocations st ! i)"
    "as_state (f (vm_allocations st ! i)) = kMemFree \<longleftrightarrow> as_state (vm_allocations st ! i) = kMemFree"
  shows "wf_vm page (upd_slot i f st)"
proof -
  let ?s = "vm_allocations st ! i" and ?s' = "f (vm_allocations st ! i)"
  have same: "slot_range ?s' = slot_range ?s" "live ?s' = live ?s" "tracked ?s' = tracked ?s" "weight ?s' = weight ?s"
    using assms(4-) by (simp_all add: slot_range_def live_def tracked_def weight_def counts_as_used_def)
  have wf: "apart (vm_allocations st)" "mapped st = live_bytes (vm_allocations st)" using assms(1) by (simp_all add: wf_vm_iff)
  have "apart ((vm_allocations st)[i := ?s'])"
  proof (rule apart_update [OF wf(1) assms(2)])
    fix j
    assume j: "j < length (vm_allocations st)" "j \<noteq> i" "clash ?s' (vm_allocations st ! j)"
    then have "clash ?s (vm_allocations st ! j)" using same by (simp add: clash_def)
    then show "slot_range ?s' \<inter> slot_range (vm_allocations st ! j) = {}"
      using apartD [OF wf(1) assms(2) j(1)] j(2) same(1) by simp
  qed
  moreover have "live_bytes ((vm_allocations st)[i := ?s']) = live_bytes (vm_allocations st)"
  proof -
    have "(if live ?s then slot_range ?s else {}) \<subseteq> live_bytes (vm_allocations st)"
      using assms(2) by (auto simp: mem_live_bytes)
    then show ?thesis using live_bytes_update [OF assms(2) wf(1), of ?s'] same by auto
  qed
  moreover have "total_used ((vm_allocations st)[i := ?s']) = total_used (vm_allocations st)"
    using total_used_update [OF assms(2), of ?s'] same by simp
  ultimately show ?thesis
    using assms(1,3) ok_slots_update [of "vm_allocations st" page ?s' i] by (simp add: wf_vm_iff)
qed

section \<open>The state of a page\<close>

definition page_state :: "vm \<Rightarrow> u64 \<Rightarrow> (u32 \<times> u32) option" where
  "page_state st a =
     (case find (\<lambda>s. tracked s \<and> live s \<and> a \<in> slot_range s) (vm_allocations st) of
        None \<Rightarrow> None
      | Some s \<Rightarrow> region_view (as_regions s) (a - as_address s))"

lemma page_state_in:
  assumes "apart (vm_allocations st)" "i < length (vm_allocations st)" "tracked (vm_allocations st ! i)"
    "live (vm_allocations st ! i)" "a \<in> slot_range (vm_allocations st ! i)"
  shows "page_state st a = region_view (as_regions (vm_allocations st ! i)) (a - as_address (vm_allocations st ! i))"
proof -
  let ?P = "\<lambda>s. tracked s \<and> live s \<and> a \<in> slot_range s"
  have "\<not> ?P (vm_allocations st ! j)" if "j < i" for j
    using apartD [OF assms(1), of j i] assms(2-) that by (auto simp: clash_def)
  then have "find ?P (vm_allocations st) = Some (vm_allocations st ! i)"
    using assms by (auto simp: find_Some_iff)
  then show ?thesis by (simp add: page_state_def)
qed

lemma page_state_out:
  assumes "\<And>s. s \<in> set (vm_allocations st) \<Longrightarrow> tracked s \<Longrightarrow> live s \<Longrightarrow> a \<notin> slot_range s"
  shows "page_state st a = None"
proof -
  have "find (\<lambda>s. tracked s \<and> live s \<and> a \<in> slot_range s) (vm_allocations st) = None"
    using assms by (auto simp: find_None_iff)
  then show ?thesis by (simp add: page_state_def)
qed

text \<open>Outside the old and the new range of a slot, replacing it changes no page.\<close>

lemma page_state_other:
  assumes "apart (vm_allocations st)" "apart (vm_allocations st')" "vm_allocations st' = (vm_allocations st)[i := s]"
    "i < length (vm_allocations st)" "tracked (vm_allocations st ! i) \<and> live (vm_allocations st ! i) \<Longrightarrow> a \<notin> slot_range (vm_allocations st ! i)"
    "tracked s \<and> live s \<Longrightarrow> a \<notin> slot_range s"
  shows "page_state st' a = page_state st a"
proof (cases "\<exists>j < length (vm_allocations st). j \<noteq> i \<and> tracked (vm_allocations st ! j) \<and> live (vm_allocations st ! j) \<and>
    a \<in> slot_range (vm_allocations st ! j)")
  case True
  then obtain j where j: "j < length (vm_allocations st)" "j \<noteq> i" "tracked (vm_allocations st ! j)" "live (vm_allocations st ! j)"
    "a \<in> slot_range (vm_allocations st ! j)" by blast
  then show ?thesis
    using page_state_in [OF assms(1), of j a] page_state_in [OF assms(2), of j a] by (simp add: assms(3))
next
  case False
  have "page_state st a = None"
    by (rule page_state_out) (use False assms(5) in \<open>auto simp: in_set_conv_nth\<close>)
  moreover have "page_state st' a = None"
    by (rule page_state_out) (use False assms(4,6) in \<open>auto simp: assms(3) in_set_conv_nth nth_list_update split: if_splits\<close>)
  ultimately show ?thesis by simp
qed

lemma page_state_members [simp]: "page_state (log_call c st) a = page_state st a" "page_state (vm_invalidate st) a = page_state st a"
  by (simp_all add: page_state_def)

lemma wf_vm_log_protect [simp]: "wf_vm page (log_call (Mprotect a n p) st) = wf_vm page st"
  by (simp add: wf_vm_iff mapped_log)

lemma wf_vm_invalidate [simp]: "wf_vm page (vm_invalidate st) = wf_vm page st"
  by (simp add: wf_vm_iff)

end
