(* ===== verification/Virtual_Correct.thy ===== *)
theory Virtual_Correct
  imports Virtual_Tables
begin

text \<open>
  The operations on the virtual memory keep the table well formed and do to the pages what their
  contracts say.
\<close>

section \<open>Protecting\<close>

lemma wf_vmD:
  "wf_vm page st \<Longrightarrow> i < length (vm_allocations st) \<Longrightarrow> ok_slot page (vm_allocations st ! i)"
  "wf_vm page st \<Longrightarrow> apart (vm_allocations st)"
  "wf_vm page st \<Longrightarrow> mapped st = live_bytes (vm_allocations st)"
  by (simp_all add: wf_vm_iff)

lemma find_private_Some:
  assumes "find_private_allocation_locked a n st = Some i"
  shows "i < length (vm_allocations st)" "tracked (vm_allocations st ! i)" "as_address (vm_allocations st ! i) \<le> a"
    "a + n \<le> as_address (vm_allocations st ! i) + as_size (vm_allocations st ! i)" "a \<noteq> 0"
  using find_slot_Some [OF assms [unfolded find_private_allocation_locked_def]]
  by (auto simp: contains_range_def tracked_def split: if_splits)

lemma uniform_state:
  assumes "wf_slot page s" "r \<in> set (as_regions s)"
  shows "rg_state r = kMemCommit \<or> rg_state r = kMemReserve \<or> rg_state r = kMemFree"
    "rg_state r = kMemFree \<longleftrightarrow> as_state s = kMemFree"
proof -
  from assms(1) obtain u where u: "u \<in> {kMemCommit, kMemReserve, kMemFree}" "uniform u s" by (auto simp: wf_slot_def)
  then have r: "rg_state r = u" using assms(2) by (simp add: uniform_def)
  with u(1) show "rg_state r = kMemCommit \<or> rg_state r = kMemReserve \<or> rg_state r = kMemFree" by auto
  show "rg_state r = kMemFree \<longleftrightarrow> as_state s = kMemFree"
    using u r by (auto simp: uniform_def vm_consts split: list.splits)
qed

lemma all_committed:
  "wf_slot page s \<Longrightarrow> r \<in> set (as_regions s) \<Longrightarrow> rg_state r = kMemCommit \<Longrightarrow>
   \<forall>r \<in> set (as_regions s). rg_state r = kMemCommit \<and> is_valid_protect (rg_protect r)"
  by (auto simp: wf_slot_def uniform_def)

lemma wf_slot_protect:
  assumes "wf_slot page s" "rg_state r = kMemCommit" "r \<in> set (as_regions s)" "off < e" "is_valid_protect p"
  shows "wf_slot page (set_regions (concat (map (region_parts off e p) (as_regions s))) s)"
proof -
  let ?new = "concat (map (region_parts off e p) (as_regions s))"
  note old = all_committed [OF assms(1,3,2)]
  have states: "\<forall>r \<in> set ?new. rg_state r = kMemCommit \<and> is_valid_protect (rg_protect r)"
  proof
    fix r'
    assume "r' \<in> set ?new"
    then obtain r where "r \<in> set (as_regions s)" "r' \<in> set (region_parts off e p r)" by auto
    then show "rg_state r' = kMemCommit \<and> is_valid_protect (rg_protect r')"
      using parts_states [of r' off e p r] old assms(5) by auto
  qed
  have "tiled 0 ?new (as_size s)" using assms(1) by (intro parts_tiled [OF assms(4)]) (simp add: wf_slot_def)
  then show ?thesis
    using assms(1) uniform_set_regions [OF states, of s] by (simp add: wf_slot_def) (simp add: set_regions_def)
qed

text \<open>A request the table serves, and its effect; otherwise nothing changes.\<close>

lemma protect_tracked:
  assumes wf: "wf_vm page st" and p: "is_valid_protect p"
    and i: "find_private_allocation_locked a n st = Some i" and r: "find_allocation_region_locked (vm_allocations st ! i) a = Some r"
      "rg_state r = kMemCommit"
    and b: "build_allocation_protection (vm_allocations st ! i) (a - as_address (vm_allocations st ! i)) n p = Some updated"
  shows "wf_vm page (upd_slot i (set_regions updated) st)"
    "page_state st a = Some (kMemCommit, rg_protect r)" "0 < n"
    "page_state (upd_slot i (set_regions updated) st) x =
       (if a \<le> x \<and> x < a + n then Some (kMemCommit, p) else page_state st x)"
proof -
  let ?s = "vm_allocations st ! i" and ?st = "upd_slot i (set_regions updated) st"
  note f = find_private_Some [OF i]
  have ok: "wf_slot page ?s" using wf_vmD(1) [OF wf f(1)] f(2) by (simp add: ok_slot_def)
  then have t: "tiled 0 (as_regions ?s) (as_size ?s)" by (simp add: wf_slot_def)
  let ?off = "a - as_address ?s"
  have u: "updated = concat (map (region_parts ?off (?off + n) p) (as_regions ?s))" and n: "0 < n" "?off + n \<le> as_size ?s"
    using b build_protection_Some [OF t, of ?off n p] by (auto split: if_splits)
  show "0 < n" by (fact n(1))
  have r': "r \<in> set (as_regions ?s)" "in_allocation_region ?off r"
    "find (in_allocation_region ?off) (as_regions ?s) = Some r"
    using r(1) by (auto simp: find_allocation_region_locked_def find_Some_iff split: if_splits)
  have live: "live ?s" using uniform_state(2) [OF ok r'(1)] r(2) f(2) by (auto simp: live_def tracked_def vm_consts)
  have all_commit: "\<forall>r \<in> set (as_regions ?s). rg_state r = kMemCommit"
    using all_committed [OF ok r'(1) r(2)] by blast
  have ok': "wf_slot page (set_regions updated ?s)"
    unfolding u by (rule wf_slot_protect [OF ok r(2) r'(1) _ p]) (use n in simp)
  have keep: "as_address (set_regions updated ?s) = as_address ?s" "as_size (set_regions updated ?s) = as_size ?s"
    "as_view (set_regions updated ?s) = as_view ?s" "as_regions (set_regions updated ?s) = updated"
    by (simp_all add: set_regions_def)
  have "updated \<noteq> []" using r'(1) by (auto simp: u)
  then have "hd updated \<in> set updated" by simp
  then have nf: "as_state (set_regions updated ?s) \<noteq> kMemFree"
    using uniform_state(2) [OF ok', of "hd updated"] keep(4) all_commit parts_states
    by (fastforce simp: u vm_consts)
  have "as_state ?s \<noteq> kMemFree" using live f(2) by (simp add: live_def tracked_def)
  then show wf': "wf_vm page ?st"
    using ok' keep f(2) nf by (intro wf_vm_same_range [OF wf f(1)]) (simp_all add: ok_slot_def tracked_def)
  have tr': "tracked (vm_allocations ?st ! i)" "live (vm_allocations ?st ! i)"
    using f(1,2) keep nf by (simp_all add: tracked_def live_def)
  have range: "slot_range (vm_allocations ?st ! i) = slot_range ?s" using f(1) keep by (simp add: slot_range_def)
  have "a \<in> slot_range ?s" using f(3,4) n(1) by (simp add: slot_range_def)
  from page_state_in [OF wf_vmD(2) [OF wf] f(1,2) live this]
  show "page_state st a = Some (kMemCommit, rg_protect r)" using r'(3) r(2) by (simp add: region_view_def)
  show "page_state ?st x = (if a \<le> x \<and> x < a + n then Some (kMemCommit, p) else page_state st x)"
  proof (cases "x \<in> slot_range ?s")
    case True
    have old: "page_state st x = region_view (as_regions ?s) (x - as_address ?s)"
      by (rule page_state_in [OF wf_vmD(2) [OF wf] f(1,2) live True])
    have "page_state ?st x = region_view updated (x - as_address ?s)"
      using page_state_in [OF wf_vmD(2) [OF wf'] _ tr', of x] True f(1) keep range by simp
    also have "\<dots> = map_option (\<lambda>(s, q). (s, if ?off \<le> x - as_address ?s \<and> x - as_address ?s < ?off + n then p else q))
        (region_view (as_regions ?s) (x - as_address ?s))"
      unfolding u by (rule parts_view [OF _ t]) (use n(1) in simp)
    finally have new: "page_state ?st x = \<dots>" .
    have "x - as_address ?s < as_size ?s" using True f(3) by (auto simp: slot_range_def)
    then obtain s q where sq: "region_view (as_regions ?s) (x - as_address ?s) = Some (s, q)"
      using region_view_inside [OF t] by fastforce
    then have "s = kMemCommit" using all_commit by (auto simp: region_view_def find_Some_iff)
    moreover have "(?off \<le> x - as_address ?s \<and> x - as_address ?s < ?off + n) \<longleftrightarrow> (a \<le> x \<and> x < a + n)"
      using True f(3) by (auto simp: slot_range_def)
    ultimately show ?thesis using new old sq by simp
  next
    case False
    have "page_state ?st x = page_state st x"
      by (rule page_state_other [where i = i and s = "set_regions updated ?s"])
        (use wf_vmD(2) [OF wf] wf_vmD(2) [OF wf'] f(1) False range keep in \<open>auto simp: slot_range_def\<close>)
    moreover have "\<not> (a \<le> x \<and> x < a + n)" using False f(3,4) by (auto simp: slot_range_def)
    ultimately show ?thesis by metis
  qed
qed

section \<open>Freeing\<close>

lemma freed_slot_ok:
  assumes "wf_slot page s"
  shows "wf_slot page (s\<lparr>as_view := False, as_allocation_protect := 0, as_state := kMemFree, as_protect := 0,
    as_regions := [\<lparr>rg_offset = 0, rg_size = as_size s, rg_state = kMemFree, rg_protect = 0\<rparr>]\<rparr>)"
  using assms by (simp add: wf_slot_def uniform_def vm_consts)

lemma free_effect:
  assumes wf: "wf_vm page st" and free: "NtFreeVirtualMemory a sz t st = (NtSuccess, n, st')"
  obtains i where "i < length (vm_allocations st)" "tracked (vm_allocations st ! i)" "live (vm_allocations st ! i)"
    "as_address (vm_allocations st ! i) = a" "wf_vm page st'" "n = 0"
    "\<And>x. page_state st' x = (if x \<in> slot_range (vm_allocations st ! i) then None else page_state st x)"
    "mapped st' = mapped st - slot_range (vm_allocations st ! i)"
proof -
  from free obtain i where i: "find_slot (\<lambda>s. \<not> as_view s \<and> as_address s = a \<and> as_state s \<noteq> kMemFree) st = Some i"
    and a: "a \<noteq> 0"
    by (auto simp: NtFreeVirtualMemory_def split: if_splits option.splits)
  let ?s = "vm_allocations st ! i"
  note f = find_slot_Some [OF i]
  have tl: "tracked ?s" "live ?s" using f a by (auto simp: tracked_def live_def)
  have ok: "wf_slot page ?s" using wf_vmD(1) [OF wf] f tl by (simp add: ok_slot_def)
  then have "as_size ?s \<noteq> 0" by (simp add: wf_slot_def)
  define s' where "s' = ?s\<lparr>as_view := False, as_allocation_protect := 0, as_state := kMemFree, as_protect := 0,
    as_regions := [\<lparr>rg_offset = 0, rg_size = as_size ?s, rg_state = kMemFree, rg_protect = 0\<rparr>]\<rparr>"
  have st': "st' = vm_invalidate (upd_slot i (\<lambda>s. s') (log_call (Munmap a (as_size ?s)) st))" "n = 0"
    using free i \<open>as_size ?s \<noteq> 0\<close> by (auto simp: NtFreeVirtualMemory_def s'_def upd_slot_def Let_def split: if_splits)
  then have slots: "vm_allocations st' = (vm_allocations st)[i := s']" by simp
  have range: "slot_range s' = slot_range ?s" "slot_range ?s = {a ..< a + as_size ?s}" using f
    by (simp_all add: s'_def slot_range_def)
  have dead: "\<not> live s'" "tracked s'" using tl by (simp_all add: s'_def live_def tracked_def)
  have apart': "apart (vm_allocations st')"
    unfolding slots
  proof (rule apart_update [OF wf_vmD(2) [OF wf]])
    fix j
    assume j: "j < length (vm_allocations st)" "j \<noteq> i" "clash s' (vm_allocations st ! j)"
    then have "clash ?s (vm_allocations st ! j)" using dead tl by (simp add: clash_def)
    then show "slot_range s' \<inter> slot_range (vm_allocations st ! j) = {}"
      using apartD [OF wf_vmD(2) [OF wf], of i j] j f range by auto
  qed (use f in simp)
  have mapped': "mapped st' = mapped st - slot_range ?s" using range st'(1) by (simp add: mapped_log)
  moreover have "live_bytes (vm_allocations st') = live_bytes (vm_allocations st) - slot_range ?s"
    using live_bytes_update [OF _ wf_vmD(2) [OF wf], of i s'] f tl dead slots by simp
  moreover have "ok_slot page s'" using freed_slot_ok [OF ok] dead f a by (simp add: ok_slot_def s'_def tracked_def)
  moreover have "total_used (vm_allocations st') \<le> total_used (vm_allocations st)"
    using total_used_update [of i "vm_allocations st" s'] f slots by (simp add: weight_def counts_as_used_def s'_def)
  ultimately have wf': "wf_vm page st'"
    using wf apart' st'(1) ok_slots_update [of "vm_allocations st" page s' i] slots
    by (auto simp: wf_vm_iff)
  have "page_state st' x = (if x \<in> slot_range ?s then None else page_state st x)" for x
  proof (cases "x \<in> slot_range ?s")
    case True
    have "x \<notin> slot_range s" if "s \<in> set (vm_allocations st')" "tracked s" "live s" for s
    proof -
      from that(1) obtain j where j: "j < length (vm_allocations st)" "s = vm_allocations st' ! j"
        unfolding slots by (metis in_set_conv_nth length_list_update)
      then have "j \<noteq> i" using that(3) dead f by (auto simp: slots)
      then have "s = vm_allocations st ! j" using j by (simp add: slots)
      then show ?thesis using apartD [OF wf_vmD(2) [OF wf], of i j] f j(1) \<open>j \<noteq> i\<close> True tl that by (auto simp: clash_def)
    qed
    then show ?thesis using page_state_out True by simp
  next
    case False
    have "page_state st' x = page_state st x"
      by (rule page_state_other [where i = i and s = s']) (use wf_vmD(2) [OF wf] apart' slots f False dead in auto)
    then show ?thesis using False by simp
  qed
  then show ?thesis using that [of i] f tl wf' mapped' st'(2) by blast
qed

section \<open>Allocating\<close>

lemma drop_freed_cases: "drop_freed a n s = s \<or> drop_freed a n s = empty_slot \<and> \<not> live s"
  by (auto simp: drop_freed_def live_def)

lemma drop_freed_same [simp]: "live s \<Longrightarrow> drop_freed a n s = s"
  using drop_freed_cases by blast

lemma empty_slot_dead [simp]: "\<not> live empty_slot" "\<not> tracked empty_slot" "weight empty_slot = 0"
  by (simp_all add: live_def tracked_def weight_def counts_as_used_def empty_slot_def)

lemma live_drop_freed [simp]: "live (drop_freed a n s) = live s"
  using drop_freed_cases [of a n s] by auto

lemma tracked_drop_freed: "tracked (drop_freed a n s) \<Longrightarrow> drop_freed a n s = s"
  using drop_freed_cases [of a n s] by auto

lemma weight_drop_freed: "weight (drop_freed a n s) = weight s"
  by (auto simp: drop_freed_def weight_def counts_as_used_def empty_slot_def)

text \<open>Giving up freed slots changes nothing that is live.\<close>

definition dropped :: "u64 \<Rightarrow> u64 \<Rightarrow> vm \<Rightarrow> vm" where
  "dropped a n st = st\<lparr>vm_allocations := map (drop_freed a n) (vm_allocations st)\<rparr>"

lemma dropped_members [simp]:
  "vm_limit (dropped a n st) = vm_limit st" "mapped (dropped a n st) = mapped st"
  "vm_allocations (dropped a n st) = map (drop_freed a n) (vm_allocations st)"
  by (simp_all add: dropped_def mapped_def)

lemma apart_dropped: "apart slots \<Longrightarrow> apart (map (drop_freed a n) slots)"
  unfolding apart_def
proof (intro allI impI)
  fix i j
  assume slots: "\<forall>i < length slots. \<forall>j < length slots. i \<noteq> j \<longrightarrow> clash (slots ! i) (slots ! j) \<longrightarrow>
     slot_range (slots ! i) \<inter> slot_range (slots ! j) = {}"
    and ij: "i < length (map (drop_freed a n) slots)" "j < length (map (drop_freed a n) slots)" "i \<noteq> j"
      "clash (map (drop_freed a n) slots ! i) (map (drop_freed a n) slots ! j)"
  then have "drop_freed a n (slots ! i) = slots ! i" "drop_freed a n (slots ! j) = slots ! j"
    using tracked_drop_freed by (auto simp: clash_def)
  then show "slot_range (map (drop_freed a n) slots ! i) \<inter> slot_range (map (drop_freed a n) slots ! j) = {}"
    using slots ij by simp
qed

lemma live_bytes_dropped [simp]: "live_bytes (map (drop_freed a n) slots) = live_bytes slots"
  by (rule set_eqI) (auto simp: mem_live_bytes)

lemma wf_vm_dropped: "wf_vm page st \<Longrightarrow> wf_vm page (dropped a n st)"
proof -
  assume wf: "wf_vm page st"
  have "total_used (map (drop_freed a n) slots) = total_used slots" for slots
    by (simp add: total_used_weight weight_drop_freed comp_def)
  moreover have "ok_slot page (drop_freed a n s)" if "ok_slot page s" for s
    using drop_freed_cases [of a n s] that by auto
  ultimately show ?thesis using wf apart_dropped by (auto simp: wf_vm_iff)
qed

lemma page_state_dropped [simp]: "page_state (dropped a n st) x = page_state st x"
proof -
  have "find (\<lambda>s. tracked s \<and> live s \<and> x \<in> slot_range s) (map (drop_freed a n) slots) =
      find (\<lambda>s. tracked s \<and> live s \<and> x \<in> slot_range s) slots" for slots
    by (induction slots) auto
  then show ?thesis by (simp add: page_state_def)
qed

lemma not_overlapping: "0 < as_size s \<Longrightarrow> 0 < n \<Longrightarrow> \<not> overlaps a n s \<Longrightarrow> {a ..< a + n} \<inter> slot_range s = {}"
  by (auto simp: overlaps_def slot_range_def)

lemma survivor_apart:
  assumes "wf_vm page st" "{a ..< a + n} \<inter> mapped st = {}" "0 < n" "s \<in> set (vm_allocations (dropped a n st))"
    "tracked s \<or> live s"
  shows "{a ..< a + n} \<inter> slot_range s = {}"
proof -
  from assms(4) obtain s0 where s0: "s0 \<in> set (vm_allocations st)" "s = drop_freed a n s0" by auto
  then have same: "s = s0" using assms(5) tracked_drop_freed by auto
  show ?thesis
  proof (cases "live s")
    case True
    then have "slot_range s \<subseteq> mapped st" using s0 same assms(1) by (auto simp: wf_vm_iff live_bytes_def)
    then show ?thesis using assms(2) by blast
  next
    case False
    then have t: "tracked s" using assms(5) by blast
    then have "0 < as_size s" using s0 same assms(1) by (auto simp: wf_vm_iff ok_slot_def wf_slot_def)
    moreover have "\<not> overlaps a n s0"
    proof
      assume "overlaps a n s0"
      then have "drop_freed a n s0 = empty_slot" using t False same by (auto simp: drop_freed_def tracked_def live_def)
      then show False using t s0(2) by simp
    qed
    ultimately show ?thesis using not_overlapping assms(3) same by blast
  qed
qed

definition new_slot :: "u64 \<Rightarrow> u64 \<Rightarrow> bool \<Rightarrow> u32 \<Rightarrow> AllocationSlot" where
  "new_slot a n commit p =
     (let state = (if commit then kMemCommit else kMemReserve); prot = (if commit then p else 0) in
      \<lparr>as_address = a, as_size = n, as_view = False, as_allocation_protect = p, as_state = state, as_protect = prot,
       as_regions = [\<lparr>rg_offset = 0, rg_size = n, rg_state = state, rg_protect = prot\<rparr>]\<rparr>)"

lemma new_slot_facts:
  assumes "0 < n" "0 < a"
  shows "live (new_slot a n commit p)" "tracked (new_slot a n commit p)" "slot_range (new_slot a n commit p) = {a ..< a + n}"
    "weight (new_slot a n commit p) = n"
    "x \<in> {a ..< a + n} \<Longrightarrow> region_view (as_regions (new_slot a n commit p)) (x - as_address (new_slot a n commit p)) =
       Some (if commit then (kMemCommit, p) else (kMemReserve, 0))"
  using assms
  by (auto simp: new_slot_def live_def tracked_def slot_range_def weight_def counts_as_used_def vm_consts in_alloc_region_iff Let_def)

lemma new_slot_ok:
  "0 < n \<Longrightarrow> 0 < a \<Longrightarrow> page dvd a \<Longrightarrow> page dvd n \<Longrightarrow> a + n < 2 ^ 64 \<Longrightarrow> is_valid_protect p \<Longrightarrow> ok_slot page (new_slot a n commit p)"
  by (auto simp: ok_slot_def new_slot_def tracked_def wf_slot_def uniform_def vm_consts Let_def)

lemma recorded:
  assumes wf: "wf_vm page st" and new: "0 < n" "0 < a" "page dvd a" "page dvd n" "a + n < 2 ^ 64" "{a ..< a + n} \<inter> mapped st = {}"
    and p: "is_valid_protect p" and room: "\<not> guest_memory_limit_exceeded_locked n st"
    and i: "find_slot slot_available (dropped a n st) = Some i"
    and st': "vm_allocations st' = (vm_allocations (dropped a n st))[i := new_slot a n commit p]"
      "mapped st' = mapped st \<union> {a ..< a + n}" "vm_limit st' = vm_limit st"
  shows "wf_vm page st'"
    "page_state st' x = (if x \<in> {a ..< a + n} then Some (if commit then (kMemCommit, p) else (kMemReserve, 0)) else page_state st x)"
proof -
  let ?d = "dropped a n st" and ?s = "new_slot a n commit p"
  have wfd: "wf_vm page ?d" by (rule wf_vm_dropped [OF wf])
  note f = find_slot_Some [OF i]
  note s = new_slot_facts [OF new(1,2), where commit = commit and p = p]
  have dead: "\<not> live (vm_allocations ?d ! i)" "weight (vm_allocations ?d ! i) = 0"
    using f wf_vmD(1) [OF wfd, of i] by (auto simp: slot_available_def live_def weight_def counts_as_used_def ok_slot_def)
  have ap: "apart (vm_allocations st')"
    unfolding st'(1)
  proof (rule apart_update [OF wf_vmD(2) [OF wfd]])
    fix j
    assume j: "j < length (vm_allocations ?d)" "clash ?s (vm_allocations ?d ! j)"
    have "vm_allocations ?d ! j \<in> set (vm_allocations ?d)" using j(1) by (rule nth_mem)
    then show "slot_range ?s \<inter> slot_range (vm_allocations ?d ! j) = {}"
      using survivor_apart [OF wf new(6,1)] j(2) s(3) by (auto simp: clash_def)
  qed (use f in simp)
  have bytes: "live_bytes (vm_allocations st') = live_bytes (vm_allocations ?d) \<union> {a ..< a + n}"
    using live_bytes_update [OF _ wf_vmD(2) [OF wfd], of i ?s] f dead s st'(1) by simp
  have "total_used (vm_allocations ?d) = total_used (vm_allocations st)"
    by (simp add: total_used_weight weight_drop_freed comp_def)
  then have used: "total_used (vm_allocations st') = total_used (vm_allocations st) + n"
    using total_used_update [of i "vm_allocations ?d" ?s] f dead s st'(1) by simp
  have "ok_slot page ?s" by (rule new_slot_ok) fact+
  then have "\<forall>s \<in> set (vm_allocations st'). ok_slot page s"
    unfolding st'(1) using wfd [unfolded wf_vm_iff] by (intro ok_slots_update) blast+
  moreover have "mapped st' = live_bytes (vm_allocations st')" using bytes st'(2) wf_vmD(3) [OF wfd] by simp
  ultimately show "wf_vm page st'" using ap used st'(3) not_exceeded [OF room] by (simp add: wf_vm_iff)
  show "page_state st' x = (if x \<in> {a ..< a + n} then Some (if commit then (kMemCommit, p) else (kMemReserve, 0)) else page_state st x)"
  proof (cases "x \<in> {a ..< a + n}")
    case True
    have at: "i < length (vm_allocations st')" "vm_allocations st' ! i = ?s" using f by (simp_all add: st'(1))
    show ?thesis using page_state_in [OF ap at(1)] s True by (simp add: at(2))
  next
    case False
    have "page_state st' x = page_state ?d x"
    proof (rule page_state_other [OF wf_vmD(2) [OF wfd] ap st'(1)])
      show "i < length (vm_allocations ?d)" using f by blast
      show "x \<notin> slot_range (vm_allocations ?d ! i)" if "tracked (vm_allocations ?d ! i) \<and> live (vm_allocations ?d ! i)"
        using that dead by blast
      show "x \<notin> slot_range ?s" using False s(3) by simp
    qed
    then show ?thesis unfolding if_not_P [OF False] by (simp only: page_state_dropped)
  qed
qed

lemma record_allocation_eq:
  "record_allocation a n commit p st =
     (if guest_memory_limit_exceeded_locked n st then (NtNoMemory, log_call (Munmap a n) st)
      else (case find_slot slot_available (dropped a n st) of
          None \<Rightarrow> (NtNoMemory, log_call (Munmap a n) (dropped a n st))
        | Some i \<Rightarrow> (NtSuccess, vm_invalidate (upd_slot i (\<lambda>s. new_slot a n commit p) (dropped a n st)))))"
  unfolding record_allocation_def dropped_def new_slot_def Let_def by (rule refl)

lemma exceeded_log [simp]: "guest_memory_limit_exceeded_locked n (log_call c st) = guest_memory_limit_exceeded_locked n st"
  by (simp add: guest_memory_limit_exceeded_locked_def cong: option.case_cong if_cong)

lemma record_allocation_effect:
  assumes wf: "wf_vm page st" and new: "0 < n" "0 < a" "page dvd a" "page dvd n" "a + n < 2 ^ 64" "{a ..< a + n} \<inter> mapped st = {}"
    and p: "is_valid_protect p" and rec: "record_allocation a n commit p (log_call (Mmap a n) st) = (status, st')"
  shows "wf_vm page st' \<and> (if status = NtSuccess
     then page_state st' x = (if x \<in> {a ..< a + n} then Some (if commit then (kMemCommit, p) else (kMemReserve, 0)) else page_state st x)
     else status = NtNoMemory \<and> page_state st' x = page_state st x)"
proof -
  let ?st = "log_call (Mmap a n) st"
  have undone: "wf_vm page (log_call (Munmap a n) (g ?st)) \<and> page_state (log_call (Munmap a n) (g ?st)) x = page_state st x"
    if "g = (\<lambda>st. st) \<or> g = dropped a n" for g
    using that wf wf_vm_dropped [OF wf, of a n] new(6) by (auto simp: wf_vm_iff mapped_log)
  show ?thesis
  proof (cases "guest_memory_limit_exceeded_locked n ?st")
    case True
    then show ?thesis using rec undone [of "\<lambda>st. st"] by (auto simp: record_allocation_eq)
  next
    case room: False
    then have room': "\<not> guest_memory_limit_exceeded_locked n st" by simp
    show ?thesis
    proof (cases "find_slot slot_available (dropped a n ?st)")
      case None
      then show ?thesis using rec room undone [of "dropped a n"]
        by (auto simp: record_allocation_eq)
    next
      case (Some i)
      then have i: "find_slot slot_available (dropped a n st) = Some i" by (simp add: find_slot_def)
      have "status = NtSuccess \<and> st' = vm_invalidate (upd_slot i (\<lambda>s. new_slot a n commit p) (dropped a n ?st))"
        using rec room Some by (auto simp: record_allocation_eq)
      then have "status = NtSuccess" "vm_allocations st' = (vm_allocations (dropped a n st))[i := new_slot a n commit p]"
        "mapped st' = mapped st \<union> {a ..< a + n}" "vm_limit st' = vm_limit st"
        by (simp_all add: mapped_log)
      then show ?thesis using recorded [OF wf new p room' i, of st' commit] by simp
    qed
  qed
qed

section \<open>Committing a reservation\<close>

lemma committed_slot_ok:
  assumes "wf_slot page s" "as_state s = kMemReserve" "is_valid_protect p"
  obtains r where "as_regions s = [r]" "rg_offset r = 0" "rg_size r = as_size s" "rg_state r = kMemReserve"
    "wf_slot page (s\<lparr>as_state := kMemCommit, as_protect := p, as_regions := [r\<lparr>rg_state := kMemCommit, rg_protect := p\<rparr>]\<rparr>)"
proof -
  from assms(1) obtain u where u: "uniform u s" "tiled 0 (as_regions s) (as_size s)" by (auto simp: wf_slot_def)
  then obtain r where r: "as_regions s = [r]"
    using assms(2) by (auto simp: uniform_def vm_consts split: list.splits)
  then show ?thesis using that u assms by (auto simp: uniform_def wf_slot_def)
qed

lemma commit_effect:
  assumes wf: "wf_vm page st" and p: "is_valid_protect p" and com: "commit_reservation os a n p st = (status, st')"
  shows "wf_vm page st' \<and> (if status = NtSuccess
     then page_state st' x = (if x \<in> {a ..< a + n} then Some (kMemCommit, p) else page_state st x) \<and>
       (\<forall>y \<in> {a ..< a + n}. \<exists>q. page_state st y = Some (kMemReserve, q))
     else page_state st' x = page_state st x)"
proof (cases "status = NtSuccess")
  case False
  then have "st' = st \<or> (\<exists>a n p. st' = log_call (Mprotect a n p) st)"
    using com by (auto simp: commit_reservation_def Let_def split: option.splits if_splits mprotect_error.splits)
  then show ?thesis using wf False by auto
next
  case True
  then obtain i where i: "find_private_allocation_locked a n st = Some i"
    and at: "as_address (vm_allocations st ! i) = a" "as_state (vm_allocations st ! i) = kMemReserve"
      "as_size (vm_allocations st ! i) = n"
    using com by (auto simp: commit_reservation_def Let_def split: option.splits if_splits mprotect_error.splits)
  let ?s = "vm_allocations st ! i"
  note f = find_private_Some [OF i]
  have ok: "wf_slot page ?s" using wf_vmD(1) [OF wf f(1)] f(2) by (simp add: ok_slot_def)
  obtain r where r: "as_regions ?s = [r]" "rg_offset r = 0" "rg_size r = n" "rg_state r = kMemReserve"
    and ok': "wf_slot page (?s\<lparr>as_state := kMemCommit, as_protect := p, as_regions := [r\<lparr>rg_state := kMemCommit, rg_protect := p\<rparr>]\<rparr>)"
    using committed_slot_ok [OF ok at(2) p] at(3) by metis
  define s' where "s' = ?s\<lparr>as_state := kMemCommit, as_protect := p, as_regions := [r\<lparr>rg_state := kMemCommit, rg_protect := p\<rparr>]\<rparr>"
  have st': "st' = vm_invalidate (upd_slot i (\<lambda>s. s') (log_call (Mprotect a n (prot_to_host p)) st))"
    using com True i at r
    by (auto simp: commit_reservation_def s'_def upd_slot_def Let_def split: option.splits mprotect_error.splits)
  have live: "live ?s" "live s'" "tracked s'" "slot_range ?s = {a ..< a + n}" "slot_range s' = {a ..< a + n}"
    using f(2) at by (simp_all add: live_def tracked_def vm_consts s'_def slot_range_def)
  have wf': "wf_vm page (upd_slot i (\<lambda>s. s') (log_call (Mprotect a n (prot_to_host p)) st))"
    using f ok' at by (intro wf_vm_same_range) (simp_all add: wf s'_def ok_slot_def tracked_def vm_consts)
  then have wf'': "wf_vm page st'" by (simp add: st')
  have slots: "vm_allocations st' = (vm_allocations st)[i := s']" by (simp add: st')
  have old: "page_state st y = Some (kMemReserve, rg_protect r)" if "y \<in> {a ..< a + n}" for y
    using page_state_in [OF wf_vmD(2) [OF wf] f(1,2) live(1), of y] that live(4) r at by (auto simp: in_alloc_region_iff)
  have "page_state st' x = (if x \<in> {a ..< a + n} then Some (kMemCommit, p) else page_state st x)"
  proof (cases "x \<in> {a ..< a + n}")
    case True
    have at': "i < length (vm_allocations st')" "vm_allocations st' ! i = s'" using f by (simp_all add: slots)
    show ?thesis
      using page_state_in [OF wf_vmD(2) [OF wf''] at'(1), of x] live True r at by (auto simp: at'(2) s'_def in_alloc_region_iff)
  next
    case False
    have "page_state st' x = page_state st x"
      by (rule page_state_other [where i = i and s = s'])
        (use wf_vmD(2) [OF wf] wf_vmD(2) [OF wf''] slots f live False in auto)
    then show ?thesis using False by metis
  qed
  then show ?thesis using wf'' old True by auto
qed

section \<open>The operations\<close>

lemma align_to_page_dvd: "page dvd align_to_page page v"
  by (simp add: align_to_page_def align_down_mult)

lemma align_to_page_ge: "0 < page \<Longrightarrow> v + page - 1 < 2 ^ 64 \<Longrightarrow> v \<le> align_to_page page v \<and> align_to_page page v < v + page"
proof -
  assume "0 < page" "v + page - 1 < 2 ^ 64"
  then have "align_to_page page v = v + page - 1 - (v + page - 1) mod page" by (simp add: align_to_page_def align_down_def)
  moreover have "(v + page - 1) mod page < page" using \<open>0 < page\<close> by simp
  ultimately show ?thesis using \<open>0 < page\<close> by linarith
qed

lemma align_to_page_wrapped: "page < 2 ^ 64 \<Longrightarrow> v < 2 ^ 64 \<Longrightarrow> 2 ^ 64 \<le> v + page - 1 \<Longrightarrow> align_to_page page v = 0"
proof -
  assume a: "page < 2 ^ 64" "v < 2 ^ 64" "2 ^ 64 \<le> v + page - 1"
  then have "(v + page - 1) mod 2 ^ 64 = v + page - 1 - 2 ^ 64" by (simp add: mod_if)
  also have "\<dots> < page" using a by linarith
  finally show ?thesis by (simp add: align_to_page_def align_down_def)
qed

text \<open>What an allocation does: the state and protection of its pages, and nothing else.\<close>

definition allocated :: "u64 \<Rightarrow> u64 \<Rightarrow> u32 \<Rightarrow> u32 \<Rightarrow> vm \<Rightarrow> vm \<Rightarrow> bool" where
  "allocated a n type p st st' \<longleftrightarrow> (\<forall>x. page_state st' x =
     (if a \<le> x \<and> x < a + n then Some (if type AND kMemCommit \<noteq> 0 then (kMemCommit, p) else (kMemReserve, 0))
      else page_state st x))"

definition same_pages :: "vm \<Rightarrow> vm \<Rightarrow> bool" where
  "same_pages st st' \<longleftrightarrow> (\<forall>x. page_state st' x = page_state st x)"

lemma allocate_effect:
  assumes wf: "wf_vm page st" and os: "honest page os st"
    and al: "NtAllocateVirtualMemory os page a sz type p st = (status, b, n, st')"
  shows "wf_vm page st'"
    "status = NtSuccess \<Longrightarrow> n = align_to_page page sz \<and> 0 < sz \<and> 0 < n \<and> 0 < b \<and> is_valid_protect p \<and> allocated b n type p st st'"
    "status \<noteq> NtSuccess \<Longrightarrow> b = a \<and> n = sz \<and> same_pages st st'"
proof -
  let ?n = "align_to_page page sz" and ?commit = "type AND kMemCommit \<noteq> 0"
  have "wf_vm page st' \<and> (if status = NtSuccess
      then n = ?n \<and> 0 < sz \<and> 0 < n \<and> 0 < b \<and> is_valid_protect p \<and> allocated b n type p st st'
      else b = a \<and> n = sz \<and> same_pages st st')"
  proof (cases "sz = 0 \<or> type AND (u32_max - kAllowedAlloc) \<noteq> 0 \<or> type AND (kMemCommit OR kMemReserve) = 0 \<or>
      \<not> is_valid_protect p \<or> guest_memory_limit_exceeded ?n st")
    case True
    then have "status \<noteq> NtSuccess \<and> b = a \<and> n = sz \<and> st' = st"
      using al by (auto simp: NtAllocateVirtualMemory_def Let_def split: if_splits)
    then show ?thesis using wf by (simp add: same_pages_def)
  next
    case False
    then have p: "is_valid_protect p" and sz: "0 < sz" by simp_all
    show ?thesis
    proof (cases "?commit \<and> type AND kMemReserve = 0 \<and> a \<noteq> 0")
      case True
      obtain s1 st1 where c: "commit_reservation os a ?n p st = (s1, st1)" by fastforce
      note e = commit_effect [OF wf p c]
      have n: "0 < ?n" if "s1 = NtSuccess"
      proof -
        from c that obtain i where i: "find_private_allocation_locked a ?n st = Some i" "as_size (vm_allocations st ! i) = ?n"
          by (auto simp: commit_reservation_def Let_def split: option.splits if_splits mprotect_error.splits)
        then show ?thesis using find_private_Some(1,2) [OF i(1)] wf_vmD(1) [OF wf] by (fastforce simp: ok_slot_def wf_slot_def)
      qed
      have "(if s1 = NtSuccess then status = NtSuccess \<and> b = a \<and> n = ?n else status = s1 \<and> b = a \<and> n = sz) \<and> st' = st1"
        using al False True c by (auto simp: NtAllocateVirtualMemory_def Let_def split: NtStatus.splits if_splits)
      then show ?thesis using e n p sz True by (auto simp: allocated_def same_pages_def split: if_splits)
    next
      case no_commit: False
      let ?prot = "if ?commit then prot_to_host p else PROT_NONE"
      let ?r = "case vo_mmap os a ?n ?prot of Some a \<Rightarrow> Some a | None \<Rightarrow> vo_mmap_any os ?n ?prot"
      show ?thesis
      proof (cases ?r)
        case None
        then have "status \<noteq> NtSuccess \<and> b = a \<and> n = sz \<and> st' = st"
          using al False no_commit by (auto simp: NtAllocateVirtualMemory_def Let_def split: if_splits)
        then show ?thesis using wf by (simp add: same_pages_def)
      next
        case (Some r)
        then have r: "0 < ?n" "0 < r" "page dvd r" "r + ?n < 2 ^ 64" "{r ..< r + ?n} \<inter> mapped st = {}"
          using os unfolding honest_def by (auto split: option.splits)
        obtain s1 st1 where c: "record_allocation r ?n ?commit p (log_call (Mmap r ?n) st) = (s1, st1)" by fastforce
        have "(if s1 = NtSuccess then status = NtSuccess \<and> b = r \<and> n = ?n else status = s1 \<and> b = a \<and> n = sz) \<and> st' = st1"
          using al False no_commit c Some
          by (simp add: NtAllocateVirtualMemory_def Let_def del: One_nat_def split: if_splits) (auto split: NtStatus.splits)
        then show ?thesis
          using record_allocation_effect [OF wf r(1-3) align_to_page_dvd r(4,5) p c] r(1,2) p sz
          by (cases "s1 = NtSuccess") (simp_all add: allocated_def same_pages_def)
      qed
    qed
  qed
  then show "wf_vm page st'"
    "status = NtSuccess \<Longrightarrow> n = align_to_page page sz \<and> 0 < sz \<and> 0 < n \<and> 0 < b \<and> is_valid_protect p \<and> allocated b n type p st st'"
    "status \<noteq> NtSuccess \<Longrightarrow> b = a \<and> n = sz \<and> same_pages st st'" by (auto split: if_splits)
qed

lemma contains_byte: "tracked s \<Longrightarrow> a \<in> slot_range s \<Longrightarrow> contains_range s a 1"
  by (auto simp: tracked_def slot_range_def contains_range_def)

lemma protect_effect:
  assumes wf: "wf_vm page st" and pr: "NtProtectVirtualMemory os page a sz p st = (status, n, old, st')"
  shows "wf_vm page st' \<and> (status \<noteq> NtSuccess \<longrightarrow> same_pages st st') \<and>
    (status = NtSuccess \<longrightarrow> is_valid_protect p \<and> n = align_to_page page ((sz + (a - align_down a page)) mod 2 ^ 64) \<and>
       (if find_private_allocation_locked (align_down a page) n st = None
        then same_pages st st' \<and> (\<forall>s \<in> set (vm_allocations st). tracked s \<longrightarrow> a \<notin> slot_range s)
        else \<exists>q. old = Some q \<and> page_state st (align_down a page) = Some (kMemCommit, q) \<and> 0 < n \<and>
          (\<forall>x. page_state st' x = (if align_down a page \<le> x \<and> x < align_down a page + n then Some (kMemCommit, p) else page_state st x))))"
proof -
  let ?b = "align_down a page" and ?n = "align_to_page page ((sz + (a - align_down a page)) mod 2 ^ 64)"
  show ?thesis
  proof (cases "a = 0 \<or> sz = 0 \<or> \<not> is_valid_protect p")
    case True
    then show ?thesis using pr wf by (auto simp: NtProtectVirtualMemory_def same_pages_def Let_def)
  next
    case False
    then have p: "is_valid_protect p" by simp
    show ?thesis
    proof (cases "find_private_allocation_locked ?b ?n st")
      case None
      show ?thesis
      proof (cases "list_ex (\<lambda>s. \<not> as_view s \<and> contains_range s a 1) (vm_allocations st)")
        case True
        then show ?thesis using pr wf False None
          by (auto simp: NtProtectVirtualMemory_def vm_align_down_def same_pages_def Let_def)
      next
        case outside: False
        have "a \<notin> slot_range s" if "s \<in> set (vm_allocations st)" "tracked s" for s
          using outside that contains_byte by (auto simp: list_ex_iff tracked_def)
        moreover have "protect_pages_with os sz ?b ?n p (external_protection os ?b) (\<lambda>st. st) st = (status, n, old, st')"
          using pr False None outside by (simp add: NtProtectVirtualMemory_def vm_align_down_def Let_def)
        ultimately show ?thesis
          using wf p None by (auto simp: protect_pages_with_def same_pages_def mprotect_status_def Let_def
              split: option.splits mprotect_error.splits)
      qed
    next
      case (Some i)
      let ?s = "vm_allocations st ! i"
      show ?thesis
      proof (cases "find_allocation_region_locked ?s ?b")
        case None
        then show ?thesis using pr wf False Some
          by (auto simp: NtProtectVirtualMemory_def vm_align_down_def same_pages_def Let_def)
      next
        case region: (Some r)
        show ?thesis
        proof (cases "rg_state r = kMemCommit")
          case no: False
          then show ?thesis using pr wf False Some region
            by (auto simp: NtProtectVirtualMemory_def vm_align_down_def same_pages_def Let_def)
        next
          case commit: True
          show ?thesis
          proof (cases "build_allocation_protection ?s (?b - as_address ?s) ?n p")
            case None
            then show ?thesis using pr wf False Some region commit
              by (auto simp: NtProtectVirtualMemory_def vm_align_down_def same_pages_def Let_def)
          next
            case built: (Some updated)
            have eq: "protect_pages_with os sz ?b ?n p (rg_protect r) (upd_slot i (set_regions updated)) st = (status, n, old, st')"
              using pr False Some region commit built by (simp add: NtProtectVirtualMemory_def vm_align_down_def Let_def)
            let ?st = "log_call (Mprotect ?b ?n (prot_to_host p)) st"
            have i': "find_private_allocation_locked ?b ?n ?st = Some i"
              using Some by (simp add: find_private_allocation_locked_def find_slot_def)
            have wf': "wf_vm page ?st" using wf by simp
            note e = protect_tracked [OF wf' p i', unfolded vm_members page_state_members, OF region commit built]
            show ?thesis
            proof (cases "status = NtSuccess")
              case True
              then have "n = ?n" "old = Some (rg_protect r)" "st' = vm_invalidate (upd_slot i (set_regions updated) ?st)"
                using eq by (auto simp: protect_pages_with_def mprotect_status_def Let_def split: option.splits mprotect_error.splits)
              then show ?thesis using e True p Some by auto
            next
              case False
              then have "st' = ?st"
                using eq by (auto simp: protect_pages_with_def Let_def split: option.splits)
              then show ?thesis using wf False by (simp add: same_pages_def)
            qed
          qed
        qed
      qed
    qed
  qed
qed

end
