(* ===== verification/Virtual_Api.thy ===== *)
theory Virtual_Api
  imports Virtual_Correct Image_Relocations Error_Map Unicode
begin

text \<open>
  The functions of \<open>src/runtime/dlls/kernel32/memory.cpp\<close> on virtual memory, views of files and encoded
  pointers, over the table of \<open>Virtual_Memory\<close>. Parameters (the record \<open>api_env\<close>): the kernel's answers,
  the descriptors behind file handles, where the table of file mappings lies in memory and the size of
  its slots, the identifiers of process and thread. Calls of the kernel that fail change no mapping and
  are not logged.
\<close>

section \<open>State\<close>

record FileMappingSlot =
  fm_used :: bool
  fm_fd :: int
  fm_size :: u64
  fm_protect :: u32
  fm_name :: bytes

definition empty_mapping :: FileMappingSlot where
  "empty_mapping = \<lparr>fm_used = False, fm_fd = -1, fm_size = 0, fm_protect = 0, fm_name = []\<rparr>"

text \<open>\<open>mmap\<close> of a view: size, writable, descriptor or \<open>-1\<close>, offset; the errno or the address.\<close>

record api_env =
  ae_page :: u64
  ae_os :: vm_os
  ae_mmap_view :: "u64 \<Rightarrow> bool \<Rightarrow> int \<Rightarrow> u64 \<Rightarrow> int + u64"
  ae_munmap :: "u64 \<Rightarrow> u64 \<Rightarrow> int option"
  ae_msync :: "u64 \<Rightarrow> u64 \<Rightarrow> int option"
  ae_kernel :: Kernel
  ae_mappings_at :: u64
  ae_mapping_size :: nat
  ae_file_fd :: "u64 \<Rightarrow> int"
  ae_fstat_size :: "int \<Rightarrow> u64 option"
  ae_dup :: "int \<Rightarrow> int"
  ae_pid :: "64 word"
  ae_tid :: "64 word"

record api =
  ap_vm :: vm
  ap_memory :: memory
  ap_last_error :: u32
  ap_mappings :: "FileMappingSlot list"
  g_pointer_cookie :: "64 word"

definition kErrorInvalidAddress :: u32 where "kErrorInvalidAddress = 487"

definition set_last_error :: "u32 \<Rightarrow> api \<Rightarrow> api" where
  "set_last_error e st = st\<lparr>ap_last_error := e\<rparr>"

definition bump_guest_allocation_generation :: "api \<Rightarrow> api" where
  "bump_guest_allocation_generation st = st\<lparr>ap_vm := vm_invalidate (ap_vm st)\<rparr>"

text \<open>\<open>write_guest_value\<close>, given the bytes of the value.\<close>

definition write_guest_value :: "api_env \<Rightarrow> u64 \<Rightarrow> bytes \<Rightarrow> api \<Rightarrow> bool \<times> api" where
  "write_guest_value env destination bs st =
     (case write_guest_memory (ae_kernel env) destination (Some bs) (ap_memory st, vm_cache (ap_vm st)) of
        (res, m, c) \<Rightarrow> (acc_status res = AccessSuccess, st\<lparr>ap_memory := m, ap_vm := (ap_vm st)\<lparr>vm_cache := c\<rparr>\<rparr>))"

section \<open>Encoded pointers\<close>

definition kGoldenRatio :: "64 word" where "kGoldenRatio = 0x9E3779B97F4A7C15"

definition process_pointer_cookie :: "api_env \<Rightarrow> api \<Rightarrow> 64 word \<times> api" where
  "process_pointer_cookie env st =
     (if g_pointer_cookie st \<noteq> 0 then (g_pointer_cookie st, st)
      else
        let c = push_bit 32 (ae_pid env) XOR ae_tid env XOR kGoldenRatio; candidate = (if c = 0 then kGoldenRatio else c) in
        (candidate, st\<lparr>g_pointer_cookie := candidate\<rparr>))"

definition tl_EncodePointer :: "api_env \<Rightarrow> 64 word \<Rightarrow> api \<Rightarrow> 64 word \<times> api" where
  "tl_EncodePointer env value st =
     (case process_pointer_cookie env st of
        (cookie, st1) \<Rightarrow> (word_rotl 17 (value XOR cookie), set_last_error kSuccess st1))"

definition tl_DecodePointer :: "api_env \<Rightarrow> 64 word \<Rightarrow> api \<Rightarrow> 64 word \<times> api" where
  "tl_DecodePointer env value st =
     (case process_pointer_cookie env st of
        (cookie, st1) \<Rightarrow> (word_rotr 17 value XOR cookie, set_last_error kSuccess st1))"

section \<open>Virtual memory\<close>

definition tl_VirtualAlloc :: "api_env \<Rightarrow> u64 \<Rightarrow> u64 \<Rightarrow> u32 \<Rightarrow> u32 \<Rightarrow> api \<Rightarrow> u64 \<times> api" where
  "tl_VirtualAlloc env address sz allocation_type protection st =
     (case NtAllocateVirtualMemory (ae_os env) (ae_page env) address sz allocation_type protection (ap_vm st) of
        (status, b, n, v) \<Rightarrow>
          let st1 = st\<lparr>ap_vm := v\<rparr> in
          if status \<noteq> NtSuccess then (0, set_last_error (NtStatusToDosError status) st1)
          else (b, set_last_error kSuccess st1))"

definition tl_VirtualFree :: "u64 \<Rightarrow> u64 \<Rightarrow> u32 \<Rightarrow> api \<Rightarrow> bool \<times> api" where
  "tl_VirtualFree address sz free_type st =
     (case NtFreeVirtualMemory address sz free_type (ap_vm st) of
        (status, n, v) \<Rightarrow>
          let st1 = st\<lparr>ap_vm := v\<rparr> in
          if status \<noteq> NtSuccess then (False, set_last_error (NtStatusToDosError status) st1)
          else (True, set_last_error kSuccess st1))"

text \<open>A 32-bit value, low byte first.\<close>

definition le_bytes4 :: "u32 \<Rightarrow> bytes" where
  "le_bytes4 v = take 4 (le_bytes v)"

definition tl_VirtualProtect :: "api_env \<Rightarrow> u64 \<Rightarrow> u64 \<Rightarrow> u32 \<Rightarrow> u64 \<Rightarrow> api \<Rightarrow> bool \<times> api" where
  "tl_VirtualProtect env address sz new_protection old_protection st =
     (if old_protection = 0 then (False, set_last_error kInvalidParameter st)
      else (case NtProtectVirtualMemory (ae_os env) (ae_page env) address sz new_protection (ap_vm st) of
          (status, n, old, v) \<Rightarrow>
            let st1 = st\<lparr>ap_vm := v\<rparr> in
            if status \<noteq> NtSuccess then
              (False, set_last_error (if status = NtInvalidParameter \<or> status = NtAccessDenied then kErrorInvalidAddress
                                      else NtStatusToDosError status) st1)
            else (case write_guest_value env old_protection (le_bytes4 (case old of Some p \<Rightarrow> p | None \<Rightarrow> 0)) st1 of
                (False, st2) \<Rightarrow> (False, set_last_error kInvalidParameter st2)
              | (True, st2) \<Rightarrow> (True, set_last_error kSuccess st2))))"

text \<open>The 48 bytes of \<open>GuestMemoryBasicInformation\<close>.\<close>

definition basic_information :: "NtMemoryInformation \<Rightarrow> bytes" where
  "basic_information info =
     le_bytes (BaseAddress info) @ le_bytes (AllocationBase info) @ le_bytes4 (AllocationProtect info) @ le_bytes4 0 @
     le_bytes (RegionSize info) @ le_bytes4 (State info) @ le_bytes4 (Protect info) @ le_bytes4 (Type info) @ le_bytes4 0"

definition tl_VirtualQuery :: "api_env \<Rightarrow> u64 \<Rightarrow> u64 \<Rightarrow> u64 \<Rightarrow> api \<Rightarrow> u64 \<times> api" where
  "tl_VirtualQuery env address memory_information len st =
     (if memory_information = 0 \<or> len < 48 then (0, set_last_error kInvalidParameter st)
      else (case NtQueryVirtualMemory (ae_os env) address (ap_vm st) of
          (NtSuccess, Some info) \<Rightarrow>
            (case write_guest_value env memory_information (basic_information info) st of
               (False, st1) \<Rightarrow> (0, set_last_error kInvalidParameter st1)
             | (True, st1) \<Rightarrow> (48, set_last_error kSuccess st1))
        | _ \<Rightarrow> (0, set_last_error kErrorInvalidAddress st)))"

definition tl_VirtualQueryEx :: "api_env \<Rightarrow> u64 \<Rightarrow> u64 \<Rightarrow> u64 \<Rightarrow> u64 \<Rightarrow> api \<Rightarrow> u64 \<times> api" where
  "tl_VirtualQueryEx env process_handle address buffer len st =
     (if buffer = 0 \<or> len < 48 then (0, set_last_error kInvalidParameter st)
      else tl_VirtualQuery env address buffer len st)"

section \<open>File mappings and views\<close>

text \<open>A handle is the address of a slot of the table.\<close>

definition find_file_mapping_slot_locked :: "api_env \<Rightarrow> u64 \<Rightarrow> api \<Rightarrow> nat option" where
  "find_file_mapping_slot_locked env handle st =
     (let b = ae_mappings_at env; e = b + length (ap_mappings st) * ae_mapping_size env in
      if handle = 0 then None
      else if handle < b \<or> e \<le> handle \<or> (handle - b) mod ae_mapping_size env \<noteq> 0 then None
      else let i = (handle - b) div ae_mapping_size env in
        if fm_used (ap_mappings st ! i) then Some i else None)"

definition mapping_handle :: "api_env \<Rightarrow> nat \<Rightarrow> u64" where
  "mapping_handle env i = ae_mappings_at env + i * ae_mapping_size env"

text \<open>
  \<open>tl_CreateFileMappingA\<close>, given what copying the name gives: no name, a failure or its bytes. The
  handle of no file is 0 or \<open>INVALID_HANDLE_VALUE\<close>.
\<close>

definition create_file_mapping ::
    "api_env \<Rightarrow> u64 \<Rightarrow> u32 \<Rightarrow> u32 \<Rightarrow> u32 \<Rightarrow> (bool \<times> bytes) option \<Rightarrow> api \<Rightarrow> u64 \<times> api" where
  "create_file_mapping env file_handle protection size_high size_low name st =
     (let with_file = file_handle \<noteq> 0 \<and> file_handle \<noteq> u64_max;
          fd = (if with_file then ae_file_fd env file_handle else -1)
      in
      if with_file \<and> fd < 0 then (0, set_last_error kInvalidHandle st)
      else
        let requested = size_high * 2 ^ 32 + size_low;
            max_size = (if requested = 0 \<and> 0 \<le> fd then (case ae_fstat_size env fd of Some n \<Rightarrow> n | None \<Rightarrow> requested) else requested)
        in
        (case find (\<lambda>i. \<not> fm_used (ap_mappings st ! i)) [0..<length (ap_mappings st)] of
           None \<Rightarrow> (0, set_last_error kNotEnoughMemory st)
         | Some i \<Rightarrow>
             let s = (ap_mappings st ! i)\<lparr>fm_used := True, fm_fd := (if 0 \<le> fd then ae_dup env fd else -1),
                        fm_size := max_size, fm_protect := protection\<rparr>
             in
             (case name of
                Some (False, _) \<Rightarrow>
                  (0, set_last_error kInvalidParameter (st\<lparr>ap_mappings := (ap_mappings st)[i := empty_mapping]\<rparr>))
              | Some (True, bs) \<Rightarrow>
                  (mapping_handle env i, set_last_error kSuccess (st\<lparr>ap_mappings := (ap_mappings st)[i := s\<lparr>fm_name := bs\<rparr>]\<rparr>))
              | None \<Rightarrow> (mapping_handle env i, set_last_error kSuccess (st\<lparr>ap_mappings := (ap_mappings st)[i := s]\<rparr>)))))"

definition tl_CreateFileMappingA :: "api_env \<Rightarrow> u64 \<Rightarrow> u32 \<Rightarrow> u32 \<Rightarrow> u32 \<Rightarrow> u64 \<Rightarrow> api \<Rightarrow> u64 \<times> api" where
  "tl_CreateFileMappingA env file_handle protection size_high size_low name st =
     create_file_mapping env file_handle protection size_high size_low
       (if name = 0 then None else Some (copy_guest_cstring (ae_kernel env) (ap_memory st) name 4096)) st"

text \<open>The converted name is a string of the runtime itself, which is copied when it ends before the limit.\<close>

definition tl_CreateFileMappingW :: "api_env \<Rightarrow> u64 \<Rightarrow> u32 \<Rightarrow> u32 \<Rightarrow> u32 \<Rightarrow> u64 \<Rightarrow> api \<Rightarrow> u64 \<times> api" where
  "tl_CreateFileMappingW env file_handle protection size_high size_low name st =
     (let copied = copy_guest_wstring (ae_kernel env) (ap_memory st) name 4096;
          utf8_name = (if name = 0 then [] else wide_to_utf8 (Some (snd copied @ [0])) (length (snd copied)))
      in
      if name \<noteq> 0 \<and> \<not> fst copied then (0, set_last_error kInvalidParameter st)
      else create_file_mapping env file_handle protection size_high size_low
             (if utf8_name = [] then None else Some (length utf8_name < 4096, utf8_name)) st)"

text \<open>A view is recorded in a slot that has no address.\<close>

definition record_view :: "api_env \<Rightarrow> u64 \<Rightarrow> u64 \<Rightarrow> bool \<Rightarrow> vm \<Rightarrow> bool \<times> vm" where
  "record_view env result sz writable_view v =
     (let protection = (if writable_view then kPageReadWrite else kPageReadOnly); v1 = log_call (Mmap result sz) v in
      case find_slot (\<lambda>s. as_address s = 0) v1 of
        None \<Rightarrow> (False, log_call (Munmap result sz) v1)
      | Some i \<Rightarrow>
          (True, upd_slot i (\<lambda>s. s\<lparr>as_address := result, as_size := sz, as_view := True,
                   as_allocation_protect := protection, as_state := kMemCommit, as_protect := protection\<rparr>) v1))"

definition tl_MapViewOfFile :: "api_env \<Rightarrow> u64 \<Rightarrow> u32 \<Rightarrow> u32 \<Rightarrow> u32 \<Rightarrow> u64 \<Rightarrow> api \<Rightarrow> u64 \<times> api" where
  "tl_MapViewOfFile env handle desired_access offset_high offset_low number_of_bytes st =
     (case find_file_mapping_slot_locked env handle st of
        None \<Rightarrow> (0, set_last_error kInvalidHandle st)
      | Some i \<Rightarrow>
          let slot = ap_mappings st ! i; fd = fm_fd slot;
              writable_view = (desired_access AND 2 \<noteq> 0 \<or> desired_access AND 0xF0000 \<noteq> 0);
              offset = offset_high * 2 ^ 32 + offset_low;
              sz = (if 0 < number_of_bytes then number_of_bytes
                    else if offset < fm_size slot then fm_size slot - offset else 4096)
          in
          (case ae_mmap_view env sz writable_view (if 0 \<le> fd then fd else -1) (if 0 \<le> fd then offset else 0) of
             Inl e \<Rightarrow> (0, set_last_error (errno_to_win32 e) st)
           | Inr result \<Rightarrow>
               (case record_view env result sz writable_view (ap_vm st) of
                  (False, v) \<Rightarrow> (0, set_last_error kNotEnoughMemory (bump_guest_allocation_generation (st\<lparr>ap_vm := v\<rparr>)))
                | (True, v) \<Rightarrow> (result, set_last_error kSuccess (bump_guest_allocation_generation (st\<lparr>ap_vm := v\<rparr>))))))"

definition tl_UnmapViewOfFile :: "api_env \<Rightarrow> u64 \<Rightarrow> api \<Rightarrow> bool \<times> api" where
  "tl_UnmapViewOfFile env base_address st =
     (if base_address = 0 then (False, set_last_error kInvalidParameter st)
      else (case find_slot (\<lambda>s. as_view s \<and> as_address s = base_address \<and> 0 < as_size s) (ap_vm st) of
          None \<Rightarrow> (False, set_last_error kInvalidParameter st)
        | Some i \<Rightarrow>
            let sz = as_size (vm_allocations (ap_vm st) ! i); v = upd_slot i (\<lambda>s. empty_slot) (ap_vm st) in
            (case ae_munmap env base_address sz of
               Some e \<Rightarrow> (False, set_last_error (errno_to_win32 e) (st\<lparr>ap_vm := v\<rparr>))
             | None \<Rightarrow>
                 (True, set_last_error kSuccess
                   (bump_guest_allocation_generation (st\<lparr>ap_vm := log_call (Munmap base_address sz) v\<rparr>))))))"

definition tl_FlushViewOfFile :: "api_env \<Rightarrow> u64 \<Rightarrow> u64 \<Rightarrow> api \<Rightarrow> bool \<times> api" where
  "tl_FlushViewOfFile env base_address number_of_bytes st =
     (let sz = (if 0 < number_of_bytes then number_of_bytes else 4096) in
      if base_address = 0 then (False, set_last_error kInvalidParameter st)
      else if base_address mod 4096 \<noteq> 0 then (False, set_last_error kInvalidParameter st)
      else (case ae_msync env base_address sz of
          Some e \<Rightarrow> (False, set_last_error (errno_to_win32 e) st)
        | None \<Rightarrow> (True, set_last_error kSuccess st)))"

text \<open>A fixed handle, which no table has.\<close>

definition tl_OpenFileMappingW :: "u32 \<Rightarrow> bool \<Rightarrow> u64 \<Rightarrow> api \<Rightarrow> u64 \<times> api" where
  "tl_OpenFileMappingW desired_access inherit_handle name st = (0x2000, set_last_error kSuccess st)"

definition tl_GetLargePageMinimum :: u64 where
  "tl_GetLargePageMinimum = 2097152"

end
