(* ===== verification/Virtual_Properties.thy ===== *)
theory Virtual_Properties
  imports Virtual_Api
begin

text \<open>
  The states the functions on virtual memory reach, what holds in all of them, and what the functions
  do to the pages of the guest.
\<close>

section \<open>Reachable states\<close>

definition initial_vm :: "u64 \<Rightarrow> vm" where
  "initial_vm limit = \<lparr>vm_allocations = replicate 256 empty_slot, vm_limit = limit, vm_cache = initial_cache, vm_calls = []\<rparr>"

definition initial_api :: "u64 \<Rightarrow> memory \<Rightarrow> api" where
  "initial_api limit m = \<lparr>ap_vm = initial_vm limit, ap_memory = m, ap_last_error = 0,
     ap_mappings = replicate 64 empty_mapping, g_pointer_cookie = 0\<rparr>"

text \<open>The kernel also maps views where nothing is mapped, and unmaps what was mapped.\<close>

definition honest_api :: "u64 \<Rightarrow> api_env \<Rightarrow> api \<Rightarrow> bool" where
  "honest_api page env st \<longleftrightarrow> ae_page env = page \<and> honest page (ae_os env) (ap_vm st) \<and>
     (\<forall>n w fd off a. ae_mmap_view env n w fd off = Inr a \<longrightarrow>
        0 < n \<and> 0 < a \<and> a + n < 2 ^ 64 \<and> {a ..< a + n} \<inter> mapped (ap_vm st) = {}) \<and>
     (\<forall>a n. ae_munmap env a n = None)"

inductive api_step :: "u64 \<Rightarrow> api \<Rightarrow> api \<Rightarrow> bool" for page where
  alloc: "honest_api page env st \<Longrightarrow> tl_VirtualAlloc env a n t p st = (r, st') \<Longrightarrow> api_step page st st'"
| free: "tl_VirtualFree a n t st = (r, st') \<Longrightarrow> api_step page st st'"
| protect: "honest_api page env st \<Longrightarrow> tl_VirtualProtect env a n p q st = (r, st') \<Longrightarrow> api_step page st st'"
| query: "tl_VirtualQueryEx env h a q n st = (r, st') \<Longrightarrow> api_step page st st'"
| create: "create_file_mapping env h p hi lo name st = (r, st') \<Longrightarrow> api_step page st st'"
| map_view: "honest_api page env st \<Longrightarrow> tl_MapViewOfFile env h d hi lo n st = (r, st') \<Longrightarrow> api_step page st st'"
| unmap_view: "honest_api page env st \<Longrightarrow> tl_UnmapViewOfFile env a st = (r, st') \<Longrightarrow> api_step page st st'"
| encode: "tl_EncodePointer env v st = (w, st') \<Longrightarrow> api_step page st st'"
| decode: "tl_DecodePointer env v st = (w, st') \<Longrightarrow> api_step page st st'"

inductive api_reachable :: "u64 \<Rightarrow> api \<Rightarrow> bool" for page where
  start: "api_reachable page (initial_api limit m)"
| further: "api_reachable page st \<Longrightarrow> api_step page st st' \<Longrightarrow> api_reachable page st'"

lemma wf_initial: "wf_vm page (initial_vm limit)"
proof -
  have "apart (replicate k empty_slot)" for k by (simp add: apart_def clash_def)
  moreover have "live_bytes (replicate k empty_slot) = {}" for k by (auto simp: live_bytes_def)
  moreover have "total_used (replicate k empty_slot) = 0" for k
    by (simp add: total_used_weight sum_list_replicate)
  ultimately show ?thesis by (simp add: wf_vm_iff initial_vm_def mapped_def)
qed

lemma wf_vm_cache: "wf_vm page (v\<lparr>vm_cache := c\<rparr>) = wf_vm page v" "page_state (v\<lparr>vm_cache := c\<rparr>) x = page_state v x"
  by (simp_all add: wf_vm_iff mapped_def page_state_def)

lemma vm_of_api [simp]:
  "ap_vm (set_last_error e st) = ap_vm st" "wf_vm page (ap_vm (bump_guest_allocation_generation st)) = wf_vm page (ap_vm st)"
  "page_state (ap_vm (bump_guest_allocation_generation st)) x = page_state (ap_vm st) x"
  by (simp_all add: set_last_error_def bump_guest_allocation_generation_def)

lemma written_value:
  assumes "write_guest_value env a bs st = (ok, st')"
  shows "wf_vm page (ap_vm st') = wf_vm page (ap_vm st)" "page_state (ap_vm st') x = page_state (ap_vm st) x"
  using assms by (auto simp: write_guest_value_def wf_vm_cache split: prod.splits)

section \<open>Views\<close>

lemma recorded_view:
  assumes wf: "wf_vm page v" and new: "0 < n" "0 < a" "a + n < 2 ^ 64" "{a ..< a + n} \<inter> mapped v = {}"
    and rec: "record_view env a n w v = (ok, v')"
  shows "wf_vm page v' \<and> page_state v' x = page_state v x"
proof (cases "find_slot (\<lambda>s. as_address s = 0) v")
  case None
  then have "v' = log_call (Munmap a n) (log_call (Mmap a n) v)"
    using rec by (simp add: record_view_def find_slot_def)
  then show ?thesis using wf new(4) by (auto simp: wf_vm_iff mapped_log)
next
  case (Some i)
  note f = find_slot_Some [OF Some]
  let ?p = "if w then kPageReadWrite else kPageReadOnly"
  define s where "s = (vm_allocations v ! i)\<lparr>as_address := a, as_size := n, as_view := True,
    as_allocation_protect := ?p, as_state := kMemCommit, as_protect := ?p\<rparr>"
  have v': "vm_allocations v' = (vm_allocations v)[i := s]" "mapped v' = mapped v \<union> {a ..< a + n}" "vm_limit v' = vm_limit v"
    using rec Some by (auto simp: record_view_def find_slot_def s_def mapped_log Let_def)
  have ok: "ok_slot page (vm_allocations v ! i)" using wf_vmD(1) [OF wf] f by blast
  then have dead: "\<not> live (vm_allocations v ! i)" "weight (vm_allocations v ! i) = 0" "as_regions (vm_allocations v ! i) = []"
    using f by (auto simp: live_def weight_def counts_as_used_def ok_slot_def)
  have s: "live s" "\<not> tracked s" "slot_range s = {a ..< a + n}" "weight s = 0"
    using new by (simp_all add: s_def live_def tracked_def slot_range_def weight_def counts_as_used_def)
  have "as_address s = a" "as_size s = n" "as_view s" "as_regions s = []" "as_state s = kMemCommit"
    using dead by (simp_all add: s_def)
  then have oks: "ok_slot page s" using new s by (simp add: ok_slot_def)
  have "\<forall>s \<in> set (vm_allocations v). ok_slot page s" using wf by (simp add: wf_vm_iff)
  from ok_slots_update [OF this oks] have slots: "\<forall>s \<in> set (vm_allocations v'). ok_slot page s" by (simp add: v'(1))
  have ap: "apart (vm_allocations v')"
    unfolding v'(1)
  proof (rule apart_update [OF wf_vmD(2) [OF wf]])
    fix j
    assume j: "j < length (vm_allocations v)" "clash s (vm_allocations v ! j)"
    then have "live (vm_allocations v ! j)" using s(2) by (simp add: clash_def)
    then have "slot_range (vm_allocations v ! j) \<subseteq> mapped v"
      unfolding wf_vmD(3) [OF wf] using j(1) mem_live_bytes by blast
    then show "slot_range s \<inter> slot_range (vm_allocations v ! j) = {}" using new(4) s(3) by blast
  qed (use f in blast)
  have "live_bytes (vm_allocations v') = live_bytes (vm_allocations v) \<union> {a ..< a + n}"
    using live_bytes_update [OF _ wf_vmD(2) [OF wf], of i s] f dead s v'(1) by simp
  moreover have "total_used (vm_allocations v') = total_used (vm_allocations v)"
    using total_used_update [of i "vm_allocations v" s] f dead s v'(1) by simp
  ultimately have "wf_vm page v'" using wf slots ap v' by (simp add: wf_vm_iff)
  moreover have "page_state v' x = page_state v x"
  proof (rule page_state_other [OF wf_vmD(2) [OF wf] ap v'(1)])
    show "i < length (vm_allocations v)" using f by blast
  qed (use dead s in blast)+
  ultimately show ?thesis by blast
qed

lemma released_view:
  assumes wf: "wf_vm page v" and i: "find_slot (\<lambda>s. as_view s \<and> as_address s = a \<and> 0 < as_size s) v = Some i" and a: "a \<noteq> 0"
  defines "v' \<equiv> log_call (Munmap a (as_size (vm_allocations v ! i))) (upd_slot i (\<lambda>s. empty_slot) v)"
  shows "wf_vm page v' \<and> page_state v' x = page_state v x"
proof -
  let ?s = "vm_allocations v ! i"
  note f = find_slot_Some [OF i]
  have s: "live ?s" "\<not> tracked ?s" "slot_range ?s = {a ..< a + as_size ?s}" "weight ?s = 0"
    using f a by (auto simp: live_def tracked_def slot_range_def weight_def counts_as_used_def)
  have v': "vm_allocations v' = (vm_allocations v)[i := empty_slot]" "mapped v' = mapped v - slot_range ?s" "vm_limit v' = vm_limit v"
    using s(3) by (simp_all add: v'_def mapped_log)
  have "\<forall>s \<in> set (vm_allocations v). ok_slot page s" using wf by (simp add: wf_vm_iff)
  from ok_slots_update [OF this ok_empty] have slots: "\<forall>s \<in> set (vm_allocations v'). ok_slot page s" by (simp add: v'(1))
  have ap: "apart (vm_allocations v')"
    unfolding v'(1) by (rule apart_update [OF wf_vmD(2) [OF wf]]) (use f in \<open>auto simp: clash_def\<close>)
  have "live_bytes (vm_allocations v') = live_bytes (vm_allocations v) - slot_range ?s"
    using live_bytes_update [OF _ wf_vmD(2) [OF wf], of i empty_slot] f s v'(1) by simp
  moreover have "total_used (vm_allocations v') = total_used (vm_allocations v)"
    using total_used_update [of i "vm_allocations v" empty_slot] f s v'(1) by simp
  ultimately have "wf_vm page v'" using wf slots ap v' by (simp add: wf_vm_iff)
  moreover have "page_state v' x = page_state v x"
  proof (rule page_state_other [OF wf_vmD(2) [OF wf] ap v'(1)])
    show "i < length (vm_allocations v)" using f by blast
  qed (use s in \<open>auto simp: empty_slot_dead\<close>)
  ultimately show ?thesis by blast
qed

section \<open>The invariant\<close>

lemma file_mapping_vm: "create_file_mapping env h p hi lo name st = (r, st') \<Longrightarrow> ap_vm st' = ap_vm st"
  by (auto simp: create_file_mapping_def Let_def split: if_splits option.splits prod.splits bool.splits)

lemma map_view_cases:
  assumes "tl_MapViewOfFile env h d hi lo n st = (r, st')"
  shows "(\<exists>e. st' = set_last_error e st) \<or>
    (\<exists>a sz w ok v fd off e. ae_mmap_view env sz w fd off = Inr a \<and> record_view env a sz w (ap_vm st) = (ok, v) \<and>
      st' = set_last_error e (bump_guest_allocation_generation (st\<lparr>ap_vm := v\<rparr>)))"
  using assms unfolding tl_MapViewOfFile_def Let_def
  by (simp only: prod.inject split: option.splits sum.splits prod.splits bool.splits) blast+

lemma query_vm:
  assumes "tl_VirtualQueryEx env h a q n st = (r, st')"
  shows "wf_vm page (ap_vm st') = wf_vm page (ap_vm st)"
  using assms written_value(1)
  by (fastforce simp: tl_VirtualQueryEx_def tl_VirtualQuery_def split: if_splits NtStatus.splits option.splits prod.splits bool.splits)

lemma wf_step: "api_step page st st' \<Longrightarrow> wf_vm page (ap_vm st) \<Longrightarrow> wf_vm page (ap_vm st')"
proof (induction rule: api_step.induct)
  case (alloc env st a n t p r st')
  obtain status b k v where al: "NtAllocateVirtualMemory (ae_os env) (ae_page env) a n t p (ap_vm st) = (status, b, k, v)"
    by (metis prod.exhaust)
  have "wf_vm page v" using allocate_effect(1) [of page "ap_vm st"] al alloc by (auto simp: honest_api_def)
  then show ?case using alloc al by (auto simp: tl_VirtualAlloc_def Let_def split: if_splits)
next
  case (free a n t st r st')
  obtain status k v where fr: "NtFreeVirtualMemory a n t (ap_vm st) = (status, k, v)" by (metis prod.exhaust)
  have "wf_vm page v"
  proof (cases "status = NtSuccess")
    case True
    then show ?thesis using free_effect [OF free(2)] fr by blast
  next
    case False
    then have "v = ap_vm st" using fr by (auto simp: NtFreeVirtualMemory_def Let_def split: if_splits option.splits)
    then show ?thesis using free by simp
  qed
  then show ?case using free fr by (auto simp: tl_VirtualFree_def Let_def split: if_splits)
next
  case (protect env st a n p q r st')
  obtain status k old v where pr: "NtProtectVirtualMemory (ae_os env) (ae_page env) a n p (ap_vm st) = (status, k, old, v)"
    by (metis prod.exhaust)
  have "wf_vm page v" using protect_effect [of page "ap_vm st"] pr protect by (auto simp: honest_api_def)
  then show ?case using protect pr written_value(1)
    by (fastforce simp: tl_VirtualProtect_def Let_def split: if_splits prod.splits bool.splits)
next
  case (query env h a q n st r st')
  then show ?case using query_vm by blast
next
  case (create env h p hi lo name st r st')
  then show ?case using file_mapping_vm by metis
next
  case (map_view env st h d hi lo n r st')
  from map_view_cases [OF map_view(2)] show ?case
  proof
    assume "\<exists>e. st' = set_last_error e st"
    then show ?thesis using map_view(3) by auto
  next
    assume "\<exists>a sz w ok v fd off e. ae_mmap_view env sz w fd off = Inr a \<and> record_view env a sz w (ap_vm st) = (ok, v) \<and>
      st' = set_last_error e (bump_guest_allocation_generation (st\<lparr>ap_vm := v\<rparr>))"
    then obtain a sz w ok v fd off e where v: "ae_mmap_view env sz w fd off = Inr a" "record_view env a sz w (ap_vm st) = (ok, v)"
      "st' = set_last_error e (bump_guest_allocation_generation (st\<lparr>ap_vm := v\<rparr>))" by blast
    have "0 < sz" "0 < a" "a + sz < 2 ^ 64" "{a ..< a + sz} \<inter> mapped (ap_vm st) = {}"
      using map_view(1) v(1) unfolding honest_api_def by blast+
    from recorded_view [OF map_view(3) this v(2)] show ?thesis by (simp add: v(3))
  qed
next
  case (unmap_view env st a r st')
  then show ?case using released_view [OF unmap_view(3)]
    by (auto simp: tl_UnmapViewOfFile_def honest_api_def Let_def split: if_splits option.splits)
next
  case (encode env v st w st')
  then show ?case by (auto simp: tl_EncodePointer_def process_pointer_cookie_def Let_def split: if_splits prod.splits)
next
  case (decode env v st w st')
  then show ?case by (auto simp: tl_DecodePointer_def process_pointer_cookie_def Let_def split: if_splits prod.splits)
qed

lemma wf_reachable: "api_reachable page st \<Longrightarrow> wf_vm page (ap_vm st)"
  by (induction rule: api_reachable.induct) (use wf_initial wf_step in \<open>auto simp: initial_api_def\<close>)

section \<open>Queries\<close>

lemma found_slot:
  assumes wf: "wf_vm page v" and i: "i < length (vm_allocations v)" "tracked (vm_allocations v ! i)" "live (vm_allocations v ! i)"
    "a \<in> slot_range (vm_allocations v ! i)"
  shows "find_slot (in_slot a) v = Some i"
proof -
  have range: "in_slot a s \<longleftrightarrow> as_address s \<noteq> 0 \<and> a \<in> slot_range s" if "s \<in> set (vm_allocations v)" for s
  proof -
    have "ok_slot page s" using wf that by (simp add: wf_vm_iff)
    then have "as_address s \<noteq> 0 \<Longrightarrow> as_address s + as_size s < 2 ^ 64"
      by (cases "as_view s") (auto simp: ok_slot_def tracked_def wf_slot_def)
    then show ?thesis by (auto simp: in_slot_def slot_range_def)
  qed
  have "in_slot a (vm_allocations v ! i)" using range i by (simp add: tracked_def)
  moreover have "\<not> in_slot a (vm_allocations v ! j)" if "j < i" for j
  proof
    assume "in_slot a (vm_allocations v ! j)"
    then have j: "as_address (vm_allocations v ! j) \<noteq> 0" "a \<in> slot_range (vm_allocations v ! j)" using range that i(1) by auto
    then have "clash (vm_allocations v ! j) (vm_allocations v ! i)" using i by (auto simp: clash_def live_def tracked_def)
    then show False using apartD [OF wf_vmD(2) [OF wf], of j i] that i j(2) by auto
  qed
  ultimately show ?thesis using i(1) by (auto simp: find_slot_def find_Some_iff)
qed

lemma page_state_slot:
  assumes "wf_vm page v" "page_state v a = Some (s, q)"
  obtains i r where "i < length (vm_allocations v)" "tracked (vm_allocations v ! i)" "live (vm_allocations v ! i)"
    "a \<in> slot_range (vm_allocations v ! i)" "find (in_allocation_region (a - as_address (vm_allocations v ! i))) (as_regions (vm_allocations v ! i)) = Some r"
    "rg_state r = s" "rg_protect r = q"
proof -
  from assms(2) obtain t where t: "find (\<lambda>s. tracked s \<and> live s \<and> a \<in> slot_range s) (vm_allocations v) = Some t"
    "region_view (as_regions t) (a - as_address t) = Some (s, q)"
    by (auto simp: page_state_def split: option.splits)
  then obtain i where i: "i < length (vm_allocations v)" "t = vm_allocations v ! i" "tracked t" "live t" "a \<in> slot_range t"
    by (auto simp: find_Some_iff)
  then show ?thesis using that [of i] t(2) by (auto simp: region_view_def)
qed

lemma same_region_view:
  "tiled b rs e \<Longrightarrow> find (in_allocation_region x) rs = Some r \<Longrightarrow> in_allocation_region y r \<Longrightarrow>
   find (in_allocation_region y) rs = Some r"
proof (induction rs arbitrary: b)
  case Nil
  then show ?case by simp
next
  case (Cons r0 rs)
  show ?case
  proof (cases "in_allocation_region x r0")
    case True
    then show ?thesis using Cons.prems by simp
  next
    case False
    then have f: "find (in_allocation_region x) rs = Some r" and t: "tiled (b + rg_size r0) rs e" using Cons.prems by simp_all
    then have "r \<in> set rs" by (auto simp: find_Some_iff)
    then have "b + rg_size r0 \<le> rg_offset r" using tiled_bounds [OF t] by blast
    then have "\<not> in_allocation_region y r0" using Cons.prems(1,3) by (simp add: in_alloc_region_iff)
    then show ?thesis using Cons.IH [OF t f Cons.prems(3)] by simp
  qed
qed

section \<open>Properties\<close>


text \<open>
  C18: The table implements a map from addresses to state and protection. In a reachable state a
  successful \<open>VirtualAlloc\<close> sets it on the pages of the range it returns, a failed one nowhere;
  \<open>VirtualFree\<close> clears it on one whole allocation; \<open>VirtualProtect\<close> on allocated memory sets the protection
  of the pages that meet the range, which were committed, and nothing else.
\<close>

theorem virtual_memory_refined:
  assumes "api_reachable page st" "honest_api page env st"
  shows
    "(\<forall>a n t p b st'. tl_VirtualAlloc env a n t p st = (b, st') \<longrightarrow>
        page_state (ap_vm st') =
          (\<lambda>x. if b \<noteq> 0 \<and> b \<le> x \<and> x < b + align_to_page page n
               then Some (if t AND kMemCommit \<noteq> 0 then (kMemCommit, p) else (kMemReserve, 0))
               else page_state (ap_vm st) x)) \<and>
     (\<forall>a n t st'. tl_VirtualFree a n t st = (True, st') \<longrightarrow>
        (\<exists>s \<in> set (vm_allocations (ap_vm st)). as_address s = a \<and> live s \<and> \<not> as_view s \<and>
          page_state (ap_vm st') = (\<lambda>x. if x \<in> slot_range s then None else page_state (ap_vm st) x))) \<and>
     (\<forall>a n p q st'. tl_VirtualProtect env a n p q st = (True, st') \<longrightarrow> page_state (ap_vm st) a \<noteq> None \<longrightarrow>
        (let b = align_down a page; k = align_to_page page ((n + (a - b)) mod 2 ^ 64) in
          (\<exists>q. page_state (ap_vm st) b = Some (kMemCommit, q)) \<and>
          page_state (ap_vm st') = (\<lambda>x. if b \<le> x \<and> x < b + k then Some (kMemCommit, p) else page_state (ap_vm st) x)))"
proof (intro conjI allI impI)
  have wf: "wf_vm page (ap_vm st)" by (rule wf_reachable [OF assms(1)])
  have env: "ae_page env = page" "honest page (ae_os env) (ap_vm st)" using assms(2) by (simp_all add: honest_api_def)
  {
    fix a n t p b st'
    assume al: "tl_VirtualAlloc env a n t p st = (b, st')"
    obtain status c k v where nt: "NtAllocateVirtualMemory (ae_os env) page a n t p (ap_vm st) = (status, c, k, v)"
      by (metis prod.exhaust)
    then have "ap_vm st' = v \<and> b = (if status = NtSuccess then c else 0)"
      using al env(1) by (auto simp: tl_VirtualAlloc_def Let_def split: if_splits)
    then show "page_state (ap_vm st') =
          (\<lambda>x. if b \<noteq> 0 \<and> b \<le> x \<and> x < b + align_to_page page n
               then Some (if t AND kMemCommit \<noteq> 0 then (kMemCommit, p) else (kMemReserve, 0))
               else page_state (ap_vm st) x)"
      using allocate_effect(2,3) [OF wf env(2) nt]
      by (cases "status = NtSuccess") (simp_all add: allocated_def same_pages_def fun_eq_iff)
  next
    fix a n t st'
    assume fr: "tl_VirtualFree a n t st = (True, st')"
    obtain status k v where nt: "NtFreeVirtualMemory a n t (ap_vm st) = (status, k, v)" by (metis prod.exhaust)
    then have v: "status = NtSuccess" "ap_vm st' = v" using fr by (auto simp: tl_VirtualFree_def Let_def split: if_splits)
    from free_effect [OF wf nt [unfolded v(1)]] obtain i where i: "i < length (vm_allocations (ap_vm st))"
      "tracked (vm_allocations (ap_vm st) ! i)" "live (vm_allocations (ap_vm st) ! i)" "as_address (vm_allocations (ap_vm st) ! i) = a"
      "\<And>x. page_state v x = (if x \<in> slot_range (vm_allocations (ap_vm st) ! i) then None else page_state (ap_vm st) x)"
      by metis
    then show "\<exists>s \<in> set (vm_allocations (ap_vm st)). as_address s = a \<and> live s \<and> \<not> as_view s \<and>
        page_state (ap_vm st') = (\<lambda>x. if x \<in> slot_range s then None else page_state (ap_vm st) x)"
      by (intro bexI [of _ "vm_allocations (ap_vm st) ! i"]) (auto simp: v(2) tracked_def)
  next
    fix a n p q st'
    assume pr: "tl_VirtualProtect env a n p q st = (True, st')" and here: "page_state (ap_vm st) a \<noteq> None"
    obtain status k old v where nt: "NtProtectVirtualMemory (ae_os env) page a n p (ap_vm st) = (status, k, old, v)"
      by (metis prod.exhaust)
    then have v: "status = NtSuccess" "page_state (ap_vm st') x = page_state v x" for x
      using pr env(1) written_value(2)
      by (fastforce simp: tl_VirtualProtect_def Let_def split: if_splits prod.splits bool.splits)+
    obtain s r where "page_state (ap_vm st) a = Some (s, r)" using here by auto
    then obtain i where "i < length (vm_allocations (ap_vm st))" "tracked (vm_allocations (ap_vm st) ! i)"
      "a \<in> slot_range (vm_allocations (ap_vm st) ! i)"
      using page_state_slot [OF wf] by metis
    then have "\<exists>s \<in> set (vm_allocations (ap_vm st)). tracked s \<and> a \<in> slot_range s" by (meson nth_mem)
    then show "let b = align_down a page; k = align_to_page page ((n + (a - b)) mod 2 ^ 64) in
          (\<exists>q. page_state (ap_vm st) b = Some (kMemCommit, q)) \<and>
          page_state (ap_vm st') = (\<lambda>x. if b \<le> x \<and> x < b + k then Some (kMemCommit, p) else page_state (ap_vm st) x)"
      using protect_effect [OF wf nt] v unfolding Let_def fun_eq_iff by (auto split: if_splits)
  }
qed

text \<open>
  A query at an address of an allocation reports the state and protection of its page; every byte
  from the base address it reports to the queried one, and from there on as many as it reports, has the
  same state and protection.
\<close>

theorem query_reports_pages:
  assumes "api_reachable page st" "page_state (ap_vm st) a = Some (s, p)"
  shows "\<exists>info. NtQueryVirtualMemory os a (ap_vm st) = (NtSuccess, Some info) \<and> State info = s \<and>
    Protect info = (if s = kMemCommit then p else 0) \<and> 0 < RegionSize info \<and>
    AllocationBase info \<le> BaseAddress info \<and> BaseAddress info \<le> a \<and>
    (\<forall>x. BaseAddress info \<le> x \<and> x < a + RegionSize info \<longrightarrow> page_state (ap_vm st) x = Some (s, p))"
proof -
  have wf: "wf_vm page (ap_vm st)" by (rule wf_reachable [OF assms(1)])
  obtain i r where i: "i < length (vm_allocations (ap_vm st))" "tracked (vm_allocations (ap_vm st) ! i)" "live (vm_allocations (ap_vm st) ! i)"
    "a \<in> slot_range (vm_allocations (ap_vm st) ! i)"
    and r: "find (in_allocation_region (a - as_address (vm_allocations (ap_vm st) ! i))) (as_regions (vm_allocations (ap_vm st) ! i)) = Some r"
      "rg_state r = s" "rg_protect r = p"
    by (rule page_state_slot [OF wf assms(2)])
  let ?s = "vm_allocations (ap_vm st) ! i"
  have ws: "wf_slot page ?s" using wf_vmD(1) [OF wf i(1)] i(2) by (simp add: ok_slot_def)
  then have t: "tiled 0 (as_regions ?s) (as_size ?s)" by (simp add: wf_slot_def)
  have in_r: "r \<in> set (as_regions ?s)" "in_allocation_region (a - as_address ?s) r" using r(1) by (auto simp: find_Some_iff)
  have a: "as_address ?s \<le> a" "0 < as_address ?s" using i(2,4) by (auto simp: slot_range_def tracked_def)
  have b: "rg_offset r + rg_size r \<le> as_size ?s" using tiled_bounds [OF t in_r(1)] by simp
  have nf: "s \<noteq> kMemFree" using uniform_state(2) [OF ws in_r(1)] r(2) i(2,3) by (simp add: live_def tracked_def)
  have q: "NtQueryVirtualMemory os a (ap_vm st) = (NtSuccess, Some (slot_information a ?s))"
    using a found_slot [OF wf i] by (simp add: NtQueryVirtualMemory_def)
  have info: "slot_information a ?s = \<lparr>BaseAddress = as_address ?s + rg_offset r, AllocationBase = as_address ?s,
      AllocationProtect = as_allocation_protect ?s, RegionSize = rg_size r - (a - as_address ?s - rg_offset r), State = s,
      Protect = (if s = kMemCommit then p else 0), Type = (if as_view ?s then 0x40000 else 0x20000)\<rparr>"
    using r nf by (simp add: slot_information_def Let_def)
  have same: "page_state (ap_vm st) x = Some (s, p)"
    if "as_address ?s + rg_offset r \<le> x" "x < as_address ?s + rg_offset r + rg_size r" for x
  proof -
    have "rg_offset r \<le> x - as_address ?s" "x - as_address ?s < rg_offset r + rg_size r" using that by linarith+
    then have x: "x \<in> slot_range ?s" "in_allocation_region (x - as_address ?s) r"
      using that b by (auto simp: slot_range_def in_alloc_region_iff)
    from page_state_in [OF wf_vmD(2) [OF wf] i(1-3) x(1)] same_region_view [OF t r(1) x(2)] show ?thesis
      using r by (simp add: region_view_def)
  qed
  have "0 < rg_size r - (a - as_address ?s - rg_offset r)" "as_address ?s + rg_offset r \<le> a"
    "a + (rg_size r - (a - as_address ?s - rg_offset r)) = as_address ?s + rg_offset r + rg_size r"
    using in_r(2) a(1) by (auto simp: in_alloc_region_iff)
  then show ?thesis using q info same by (intro exI [of _ "slot_information a ?s"]) simp
qed

section \<open>A guest with one page\<close>

definition page_os :: vm_os where
  "page_os = \<lparr>vo_mmap = (\<lambda>hint n p. None), vo_mmap_any = (\<lambda>n p. if n = 0x1000 then Some 0x10000 else None),
     vo_mprotect = (\<lambda>a n p. None), vo_maps = None\<rparr>"

definition page_env :: api_env where
  "page_env = \<lparr>ae_page = 0x1000, ae_os = page_os, ae_mmap_view = (\<lambda>n w fd off. Inl 12), ae_munmap = (\<lambda>a n. None),
     ae_msync = (\<lambda>a n. None), ae_kernel = all_access, ae_mappings_at = 0x1000, ae_mapping_size = 64,
     ae_file_fd = (\<lambda>h. -1), ae_fstat_size = (\<lambda>fd. None), ae_dup = (\<lambda>fd. -1), ae_pid = 1, ae_tid = 1\<rparr>"

definition empty_api :: api where
  "empty_api = initial_api 0x1000 (\<lambda>a. 0)"

definition page_vm :: vm where
  "page_vm = vm_invalidate (upd_slot 0 (\<lambda>s. new_slot 0x10000 0x1000 True 4) (log_call (Mmap 0x10000 0x1000) (initial_vm 0x1000)))"

definition page_api :: api where
  "page_api = set_last_error 0 (empty_api\<lparr>ap_vm := page_vm\<rparr>)"

lemma empty_honest: "honest_api 0x1000 page_env empty_api"
  by (auto simp: honest_api_def honest_def page_env_def page_os_def empty_api_def initial_api_def initial_vm_def mapped_def
      split: if_splits)

lemma first_slot: "0 < length (vm_allocations st) \<Longrightarrow> P (vm_allocations st ! 0) \<Longrightarrow> find_slot P st = Some 0"
  by (simp add: find_slot_def upt_rec)

lemma page_allocated: "tl_VirtualAlloc page_env 0 1 0x3000 4 empty_api = (0x10000, page_api)"
proof -
  have room: "\<not> guest_memory_limit_exceeded_locked 0x1000 (initial_vm 0x1000)"
    using used_bytes_eq [of 0 "replicate 256 empty_slot"]
    by (simp add: guest_memory_limit_exceeded_locked_def initial_vm_def total_used_weight sum_list_replicate)
  have free: "find_slot slot_available (dropped 0x10000 0x1000 (log_call c (initial_vm 0x1000))) = Some 0" for c
    by (rule first_slot) (simp_all add: initial_vm_def drop_freed_def slot_available_def empty_slot_def)
  have "dropped 0x10000 0x1000 (log_call c (initial_vm 0x1000)) = log_call c (initial_vm 0x1000)" for c
    by (simp add: dropped_def log_call_def initial_vm_def drop_freed_def empty_slot_def)
  then have rec: "record_allocation 0x10000 0x1000 True 4 (log_call (Mmap 0x10000 0x1000) (initial_vm 0x1000)) = (NtSuccess, page_vm)"
    using room free by (simp add: record_allocation_eq page_vm_def)
  have "align_to_page 0x1000 1 = 0x1000" by (simp add: align_to_page_def align_down_def)
  moreover have "is_valid_protect 4" by (simp add: is_valid_protect_def vm_consts)
  moreover have "(0x3000 AND (u32_max - kAllowedAlloc) :: nat) = 0" "(0x3000 AND (kMemCommit OR kMemReserve) :: nat) \<noteq> 0"
    "(0x3000 AND kMemReserve :: nat) \<noteq> 0" "(0x3000 AND kMemCommit :: nat) \<noteq> 0"
    by (simp_all add: kAllowedAlloc_def vm_consts)
  ultimately have "NtAllocateVirtualMemory page_os 0x1000 0 1 0x3000 4 (initial_vm 0x1000) = (NtSuccess, 0x10000, 0x1000, page_vm)"
    using room rec unfolding NtAllocateVirtualMemory_def guest_memory_limit_exceeded_def Let_def
    by (simp add: page_os_def)
  then show ?thesis
    by (simp add: tl_VirtualAlloc_def page_env_def empty_api_def initial_api_def page_api_def set_last_error_def kSuccess_def Let_def)
qed

lemma page_reachable: "api_reachable 0x1000 page_api"
  using api_reachable.further [OF api_reachable.start api_step.alloc [OF empty_honest [unfolded empty_api_def] page_allocated [unfolded empty_api_def]]] .

lemma page_table: "vm_allocations (ap_vm page_api) ! 0 = new_slot 0x10000 0x1000 True 4" "0 < length (vm_allocations (ap_vm page_api))"
  by (simp_all add: page_api_def page_vm_def empty_api_def initial_vm_def)

lemma page_committed: "page_state (ap_vm page_api) 0x10008 = Some (kMemCommit, 4)"
proof -
  note n = new_slot_facts [of "0x1000" "0x10000", where commit = True and p = 4]
  have "wf_vm 0x1000 (ap_vm page_api)" by (rule wf_reachable [OF page_reachable])
  from page_state_in [OF wf_vmD(2) [OF this] page_table(2), of "0x10008"] show ?thesis
    using n(1-3) n(5) [where x = "0x10008"] by (simp add: page_table(1))
qed


theorem virtual_memory_refined_witness: "page_state (ap_vm page_api) 0x10010 = Some (kMemCommit, 4)"
proof -
  have "align_to_page 0x1000 1 = 0x1000" by (simp add: align_to_page_def align_down_def)
  moreover have "(0x3000 AND kMemCommit :: nat) \<noteq> 0" by (simp add: vm_consts)
  moreover note virtual_memory_refined [OF api_reachable.start empty_honest [unfolded empty_api_def], THEN conjunct1, rule_format,
    OF page_allocated [unfolded empty_api_def]]
  ultimately show ?thesis by simp
qed

theorem query_reports_pages_witness:
  "\<exists>info. NtQueryVirtualMemory page_os 0x10008 (ap_vm page_api) = (NtSuccess, Some info) \<and> Protect info = 4"
  using query_reports_pages [OF page_reachable page_committed, of page_os] by auto

text \<open>
  \<open>DecodePointer\<close> undoes \<open>EncodePointer\<close>: the cookie is made once and kept.\<close>

theorem pointers_decode:
  "tl_EncodePointer env p st = (e, st1) \<Longrightarrow> fst (tl_DecodePointer env e st1) = p"
proof -
  assume enc: "tl_EncodePointer env p st = (e, st1)"
  obtain c st2 where c: "process_pointer_cookie env st = (c, st2)" by fastforce
  then have "c \<noteq> 0 \<and> g_pointer_cookie st2 = c"
    by (auto simp: process_pointer_cookie_def kGoldenRatio_def Let_def split: if_splits)
  moreover have "g_pointer_cookie st1 = g_pointer_cookie st2" "e = word_rotl 17 (p XOR c)"
    using enc c by (auto simp: tl_EncodePointer_def set_last_error_def)
  ultimately show ?thesis
    by (simp add: tl_DecodePointer_def process_pointer_cookie_def xor.assoc)
qed

theorem pointers_decode_witness: "fst (tl_DecodePointer page_env (fst (tl_EncodePointer page_env 7 empty_api)) (snd (tl_EncodePointer page_env 7 empty_api))) = 7"
  using pointers_decode [of page_env 7 empty_api "fst (tl_EncodePointer page_env 7 empty_api)" "snd (tl_EncodePointer page_env 7 empty_api)"]
  by simp

section \<open>Where the behaviour is not the documented one\<close>

definition small_vm :: "u64 \<Rightarrow> AllocationSlot list \<Rightarrow> vm" where
  "small_vm limit slots = \<lparr>vm_allocations = slots, vm_limit = limit, vm_cache = initial_cache, vm_calls = []\<rparr>"

text \<open>
  The size a query reports counts from the queried address, the base from the start of the region: a
  guest that goes on at the end of the region, base plus size, comes back to the address it asked for.
\<close>

lemma query_walk_stalls:
  "\<exists>info. NtQueryVirtualMemory page_os 0x11000 (small_vm 0 [new_slot 0x10000 0x2000 True 4]) = (NtSuccess, Some info) \<and>
     BaseAddress info + RegionSize info = 0x11000"
  by (simp add: NtQueryVirtualMemory_def find_slot_def small_vm_def new_slot_def in_slot_def slot_information_def in_allocation_region_def Let_def)

text \<open>A reservation within the limit cannot be committed when twice its size exceeds the limit.\<close>

lemma commit_counts_twice:
  "NtAllocateVirtualMemory page_os 0x1000 0x10000 0x2000 0x1000 4 (small_vm 0x3000 [new_slot 0x10000 0x2000 False 4]) =
     (NtNoMemory, 0x10000, 0x2000, small_vm 0x3000 [new_slot 0x10000 0x2000 False 4])"
  by (simp add: NtAllocateVirtualMemory_def guest_memory_limit_exceeded_def guest_memory_limit_exceeded_locked_def small_vm_def
      new_slot_def counts_as_used_def align_to_page_def align_down_def is_valid_protect_def kAllowedAlloc_def vm_consts Let_def)

text \<open>The slot of a freed range hides a view mapped there later.\<close>

definition freed_slot :: AllocationSlot where
  "freed_slot = \<lparr>as_address = 0x10000, as_size = 0x1000, as_view = False, as_allocation_protect = 0, as_state = kMemFree,
     as_protect = 0, as_regions = [\<lparr>rg_offset = 0, rg_size = 0x1000, rg_state = kMemFree, rg_protect = 0\<rparr>]\<rparr>"

definition freed_vm :: vm where
  "freed_vm = vm_invalidate (log_call (Munmap 0x10000 0x1000) (small_vm 0 [freed_slot, empty_slot]))"

lemma freed_slot_hides_view:
  "NtFreeVirtualMemory 0x10000 0 0x8000 (small_vm 0 [new_slot 0x10000 0x1000 True 4, empty_slot]) = (NtSuccess, 0, freed_vm) \<and>
   fst (record_view page_env 0x10000 0x1000 True freed_vm) \<and>
   (\<exists>info. NtQueryVirtualMemory page_os 0x10000 (snd (record_view page_env 0x10000 0x1000 True freed_vm)) = (NtSuccess, Some info) \<and>
     State info = kMemFree)"
proof (intro conjI)
  have two: "[0..<length [x, y]] = [0, 1]" for x y :: AllocationSlot by (simp add: upt_rec)
  have first: "find_slot (\<lambda>s. \<not> as_view s \<and> as_address s = 0x10000 \<and> as_state s \<noteq> kMemFree)
      (small_vm 0 [new_slot 0x10000 0x1000 True 4, empty_slot]) = Some 0"
    by (rule first_slot) (simp_all add: small_vm_def new_slot_def vm_consts)
  show "NtFreeVirtualMemory 0x10000 0 0x8000 (small_vm 0 [new_slot 0x10000 0x1000 True 4, empty_slot]) = (NtSuccess, 0, freed_vm)"
    by (simp add: NtFreeVirtualMemory_def first kMemRelease_def)
      (simp add: freed_vm_def small_vm_def upd_slot_def log_call_def freed_slot_def new_slot_def)
  have "find_slot (\<lambda>s. as_address s = 0) (log_call (Mmap 0x10000 0x1000) freed_vm) = Some 1"
    unfolding find_slot_def
    by (simp add: freed_vm_def small_vm_def two freed_slot_def empty_slot_def del: length_Cons list.size)
  then have rec: "record_view page_env 0x10000 0x1000 True freed_vm = (True, upd_slot 1 (\<lambda>s. s\<lparr>as_address := 0x10000,
      as_size := 0x1000, as_view := True, as_allocation_protect := kPageReadWrite, as_state := kMemCommit,
      as_protect := kPageReadWrite\<rparr>) (log_call (Mmap 0x10000 0x1000) freed_vm))"
    by (simp add: record_view_def Let_def)
  then show "fst (record_view page_env 0x10000 0x1000 True freed_vm)" by simp
  have table: "vm_allocations (snd (record_view page_env 0x10000 0x1000 True freed_vm)) ! 0 = freed_slot"
    "0 < length (vm_allocations (snd (record_view page_env 0x10000 0x1000 True freed_vm)))"
    unfolding rec by (simp_all add: freed_vm_def small_vm_def)
  have "find_slot (in_slot 0x10000) (snd (record_view page_env 0x10000 0x1000 True freed_vm)) = Some 0"
    by (rule first_slot) (simp_all only: table, simp_all add: in_slot_def freed_slot_def)
  then show "\<exists>info. NtQueryVirtualMemory page_os 0x10000 (snd (record_view page_env 0x10000 0x1000 True freed_vm)) = (NtSuccess, Some info) \<and>
     State info = kMemFree"
    by (simp add: NtQueryVirtualMemory_def table(1)) (simp add: slot_information_def freed_slot_def in_allocation_region_def Let_def)
qed

text \<open>A size that wraps around is taken for a small one.\<close>

lemma protect_size_wraps:
  "\<exists>v. NtProtectVirtualMemory page_os 0x1000 0x10010 0xFFFFFFFFFFFFFFF8 2 (small_vm 0 [new_slot 0x10000 0x1000 True 4]) =
     (NtSuccess, 0x1000, Some 4, v)"
  by (simp add: NtProtectVirtualMemory_def find_private_allocation_locked_def contains_range_def find_allocation_region_locked_def
      build_allocation_protection_def protect_pages_with_def page_os_def find_slot_def small_vm_def new_slot_def
      in_allocation_region_def split_region_def vm_align_down_def align_to_page_def align_down_def is_valid_protect_def vm_consts Let_def)

end
