(* ===== verification/Guest_Heap.thy ===== *)
theory Guest_Heap
  imports Virtual_Api "HOL-Library.AList"
begin

text \<open>
  The heaps of the guest in \<open>src/runtime/dlls/kernel32/memory.cpp\<close>: \<open>HeapAlloc\<close> and its relatives, and the
  global and local memory built on them. Blocks come from the host's \<open>malloc\<close>, whose answers are a
  parameter; the state has the live blocks of the host. What C++ leaves undefined, freeing what is not a
  live block and copying outside one, is recorded in \<open>hp_undefined\<close>. All heaps are one; locks and trace
  output are not modelled.
\<close>

section \<open>State\<close>

record GlobalMemorySlot =
  gm_used :: bool
  gm_address :: u64
  gm_size :: u64
  gm_flags :: u32
  gm_lock_count :: u32
  gm_global :: bool

definition empty_global :: GlobalMemorySlot where
  "empty_global = \<lparr>gm_used = False, gm_address = 0, gm_size = 0, gm_flags = 0, gm_lock_count = 0, gm_global = False\<rparr>"

record heap =
  g_heap_blocks :: "(u64 \<times> u64) list"
  g_global_memory :: "GlobalMemorySlot list"
  g_local_free_blocks :: "u64 list"
  hp_memory :: memory
  hp_live :: "(u64 \<times> u64) list"
  hp_undefined :: bool
  hp_last_error :: u32
  hp_generation :: nat

type_synonym heap_malloc = "u64 \<Rightarrow> u64 option"

definition kHeapMagic :: u32 where "kHeapMagic = 0x544C4850"
definition kHeapCanary :: u64 where "kHeapCanary = 0xDEADBEEFCAFEFACE"
definition kHeapHeaderSize :: u64 where "kHeapHeaderSize = 48"
definition kHeapTrailerSize :: u64 where "kHeapTrailerSize = 64"
definition kTrailerCanaryByte :: byte where "kTrailerCanaryByte = 0xAA"
definition kGmemMoveable :: u32 where "kGmemMoveable = 0x2"
definition kGmemZeroinit :: u32 where "kGmemZeroinit = 0x40"
definition kNotLocked :: u32 where "kNotLocked = 158"

definition heap_error :: "u32 \<Rightarrow> heap \<Rightarrow> heap" where
  "heap_error e st = st\<lparr>hp_last_error := e\<rparr>"

definition heap_bump :: "heap \<Rightarrow> heap" where
  "heap_bump st = st\<lparr>hp_generation := hp_generation st + 1\<rparr>"

text \<open>The host: a range inside one live block, writing to it, and \<open>free\<close>.\<close>

definition in_live_block :: "(u64 \<times> u64) list \<Rightarrow> u64 \<Rightarrow> u64 \<Rightarrow> bool" where
  "in_live_block blocks a n \<longleftrightarrow> list_ex (\<lambda>(b, m). b \<le> a \<and> a + n \<le> b + m) blocks"

definition host_write :: "u64 \<Rightarrow> bytes \<Rightarrow> heap \<Rightarrow> heap" where
  "host_write a bs st =
     st\<lparr>hp_memory := store (hp_memory st) a bs,
        hp_undefined := hp_undefined st \<or> bs \<noteq> [] \<and> \<not> in_live_block (hp_live st) a (length bs)\<rparr>"

definition host_copy :: "u64 \<Rightarrow> u64 \<Rightarrow> u64 \<Rightarrow> heap \<Rightarrow> heap" where
  "host_copy target source n st =
     (let st1 = host_write target (load (hp_memory st) source n) st in
      st1\<lparr>hp_undefined := hp_undefined st1 \<or> 0 < n \<and> \<not> in_live_block (hp_live st) source n\<rparr>)"

definition host_free :: "u64 \<Rightarrow> heap \<Rightarrow> heap" where
  "host_free a st =
     st\<lparr>hp_live := filter (\<lambda>(b, m). b \<noteq> a) (hp_live st), hp_undefined := hp_undefined st \<or> a \<notin> fst ` set (hp_live st)\<rparr>"

section \<open>Blocks freed by others\<close>

fun replace_first :: "u64 \<Rightarrow> u64 \<Rightarrow> u64 list \<Rightarrow> u64 list option" where
  "replace_first old new [] = None"
| "replace_first old new (x # xs) = (if x = old then Some (new # xs) else map_option ((#) x) (replace_first old new xs))"

definition register_local_free_block :: "u64 \<Rightarrow> heap \<Rightarrow> bool \<times> heap" where
  "register_local_free_block address st =
     (if address = 0 then (False, st)
      else (case replace_first 0 address (g_local_free_blocks st) of
          None \<Rightarrow> (False, st)
        | Some blocks \<Rightarrow> (True, st\<lparr>g_local_free_blocks := blocks\<rparr>)))"

definition take_local_free_block :: "u64 \<Rightarrow> heap \<Rightarrow> bool \<times> heap" where
  "take_local_free_block address st =
     (if address = 0 then (False, st)
      else (case replace_first address 0 (g_local_free_blocks st) of
          None \<Rightarrow> (False, st)
        | Some blocks \<Rightarrow> (True, st\<lparr>g_local_free_blocks := blocks\<rparr>)))"

section \<open>The heap\<close>

text \<open>
  The header of a block: magic, flags, both sizes, canary and a reserved field in the first 40 of its
  48 bytes.
\<close>

definition heap_header :: "u32 \<Rightarrow> u64 \<Rightarrow> u64 \<Rightarrow> bytes" where
  "heap_header fl requested payload =
     le_bytes4 kHeapMagic @ le_bytes4 fl @ le_bytes requested @ le_bytes payload @ le_bytes kHeapCanary @ le_bytes 0"

text \<open>Whether the header in front of a block is intact.\<close>

definition get_heap_header :: "u64 \<Rightarrow> heap \<Rightarrow> u64 option" where
  "get_heap_header user_ptr st =
     (if user_ptr = 0 \<or> user_ptr mod 16 \<noteq> 0 then None
      else let raw = user_ptr - kHeapHeaderSize in
        if le32 (load (hp_memory st) raw 4) 0 \<noteq> kHeapMagic \<or> le64 (load (hp_memory st) (raw + 24) 8) 0 \<noteq> kHeapCanary
        then None else Some raw)"

text \<open>\<open>~15U\<close> is a 32-bit value: the mask also clears the upper half.\<close>

definition payload_size :: "u64 \<Rightarrow> u64" where
  "payload_size requested = (if requested = 0 then 16 else ((requested + 15) mod 2 ^ 64) AND 0xFFFFFFF0)"

definition tl_HeapAlloc :: "heap_malloc \<Rightarrow> u32 \<Rightarrow> u64 \<Rightarrow> heap \<Rightarrow> u64 \<times> heap" where
  "tl_HeapAlloc malloc fl requested st =
     (let payload = payload_size requested; total_size = kHeapHeaderSize + payload + kHeapTrailerSize in
      case malloc total_size of
        None \<Rightarrow> (0, heap_error kNotEnoughMemory st)
      | Some raw \<Rightarrow>
          let user_ptr = raw + kHeapHeaderSize;
              st1 = host_write raw (heap_header fl requested payload) (st\<lparr>hp_live := (raw, total_size) # hp_live st\<rparr>);
              st2 = (if fl AND 8 \<noteq> 0 then host_write user_ptr (replicate payload 0) st1 else st1);
              st3 = host_write (user_ptr + payload) (replicate kHeapTrailerSize kTrailerCanaryByte) st2
          in (user_ptr,
              heap_error kSuccess (heap_bump (st3\<lparr>g_heap_blocks := AList.update user_ptr requested (g_heap_blocks st3)\<rparr>))))"

text \<open>The magic and the canary of a freed block are cleared.\<close>

definition clear_header :: "u64 \<Rightarrow> heap \<Rightarrow> heap" where
  "clear_header raw st = host_write (raw + 24) (le_bytes 0) (host_write raw (le_bytes4 0) st)"

definition tl_HeapFree :: "u64 \<Rightarrow> heap \<Rightarrow> bool \<times> heap" where
  "tl_HeapFree mem st =
     (if mem = 0 then (True, st)
      else (case map_of (g_heap_blocks st) mem of
          Some n \<Rightarrow>
            let st1 = st\<lparr>g_heap_blocks := AList.delete mem (g_heap_blocks st)\<rparr> in
            (True, heap_error kSuccess (heap_bump
               (case get_heap_header mem st1 of
                  Some raw \<Rightarrow> host_free raw (clear_header raw st1)
                | None \<Rightarrow> host_free (mem - kHeapHeaderSize) st1)))
        | None \<Rightarrow>
            (case take_local_free_block mem st of
               (True, st1) \<Rightarrow> (True, heap_error kSuccess (heap_bump (host_free mem st1)))
             | (False, st1) \<Rightarrow> (False, heap_error kInvalidParameter st1))))"

definition tl_HeapReAlloc :: "heap_malloc \<Rightarrow> u32 \<Rightarrow> u64 \<Rightarrow> u64 \<Rightarrow> heap \<Rightarrow> u64 \<times> heap" where
  "tl_HeapReAlloc malloc fl mem new_size st =
     (if mem = 0 then tl_HeapAlloc malloc fl new_size st
      else (case map_of (g_heap_blocks st) mem of
          None \<Rightarrow> (0, heap_error kInvalidParameter st)
        | Some old_size \<Rightarrow>
            (case tl_HeapAlloc malloc fl new_size st of
               (new_memory, st1) \<Rightarrow>
                 if new_memory = 0 then (0, heap_error kNotEnoughMemory st1)
                 else
                   let copy_bytes = min old_size new_size;
                       st2 = (if 0 < copy_bytes then host_copy new_memory mem copy_bytes st1 else st1)
                   in (new_memory, snd (tl_HeapFree mem st2)))))"

definition tl_HeapValidate :: "u64 \<Rightarrow> heap \<Rightarrow> bool" where
  "tl_HeapValidate mem st \<longleftrightarrow> mem = 0 \<or> map_of (g_heap_blocks st) mem \<noteq> None"

definition tl_HeapSize :: "u64 \<Rightarrow> heap \<Rightarrow> u64 \<times> heap" where
  "tl_HeapSize mem st =
     (if mem = 0 then (u64_max, heap_error kInvalidParameter st)
      else (case map_of (g_heap_blocks st) mem of
          Some n \<Rightarrow> (n, heap_error kSuccess st)
        | None \<Rightarrow> (u64_max, heap_error kInvalidParameter st)))"

section \<open>Global and local memory\<close>

text \<open>The first slot with the address decides, whether it is in use or not.\<close>

definition find_global_memory_slot_locked :: "u64 \<Rightarrow> bool \<Rightarrow> heap \<Rightarrow> nat option" where
  "find_global_memory_slot_locked mem global_only st =
     (if mem = 0 then None
      else (case find (\<lambda>i. let s = g_global_memory st ! i in gm_address s = mem \<and> (\<not> global_only \<or> gm_global s))
                      [0..<length (g_global_memory st)] of
          None \<Rightarrow> None
        | Some i \<Rightarrow> if gm_used (g_global_memory st ! i) then Some i else None))"

definition upd_global :: "nat \<Rightarrow> GlobalMemorySlot \<Rightarrow> heap \<Rightarrow> heap" where
  "upd_global i s st = st\<lparr>g_global_memory := (g_global_memory st)[i := s]\<rparr>"

definition kAllowedFlags :: u32 where
  "kAllowedFlags = kGmemMoveable OR kGmemZeroinit OR 0x80 OR 0x100 OR 0x10 OR 0x20 OR 0x2000 OR 0x1000"

text \<open>\<open>tl_GlobalAlloc\<close> and \<open>tl_LocalAlloc\<close>, which differ in the last field of the slot.\<close>

definition slot_alloc :: "bool \<Rightarrow> heap_malloc \<Rightarrow> u32 \<Rightarrow> u64 \<Rightarrow> heap \<Rightarrow> u64 \<times> heap" where
  "slot_alloc global malloc fl n st =
     (if fl AND (u32_max - kAllowedFlags) \<noteq> 0 then (0, heap_error kInvalidParameter st)
      else
        let allocation_size = (if n = 0 then 1 else n) in
        (case tl_HeapAlloc malloc (if fl AND kGmemZeroinit \<noteq> 0 then 8 else 0) allocation_size st of
           (mem, st1) \<Rightarrow>
             if mem = 0 then (0, heap_error kNotEnoughMemory st1)
             else (case find (\<lambda>i. \<not> gm_used (g_global_memory st1 ! i)) [0..<length (g_global_memory st1)] of
                 None \<Rightarrow> (0, heap_error kNotEnoughMemory (snd (tl_HeapFree mem st1)))
               | Some i \<Rightarrow>
                   (mem, heap_error kSuccess (heap_bump (upd_global i
                      \<lparr>gm_used = True, gm_address = mem, gm_size = allocation_size, gm_flags = fl, gm_lock_count = 0,
                       gm_global = global\<rparr> st1))))))"

definition tl_GlobalAlloc :: "heap_malloc \<Rightarrow> u32 \<Rightarrow> u64 \<Rightarrow> heap \<Rightarrow> u64 \<times> heap" where
  "tl_GlobalAlloc = slot_alloc True"

definition tl_LocalAlloc :: "heap_malloc \<Rightarrow> u32 \<Rightarrow> u64 \<Rightarrow> heap \<Rightarrow> u64 \<times> heap" where
  "tl_LocalAlloc = slot_alloc False"

definition tl_GlobalLock :: "u64 \<Rightarrow> heap \<Rightarrow> u64 \<times> heap" where
  "tl_GlobalLock mem st =
     (case find_global_memory_slot_locked mem True st of
        None \<Rightarrow> (0, heap_error kInvalidHandle st)
      | Some i \<Rightarrow>
          let s = g_global_memory st ! i in
          (gm_address s, heap_error kSuccess (upd_global i (s\<lparr>gm_lock_count := to_u32 (gm_lock_count s + 1)\<rparr>) st)))"

definition tl_GlobalUnlock :: "u64 \<Rightarrow> heap \<Rightarrow> bool \<times> heap" where
  "tl_GlobalUnlock mem st =
     (case find_global_memory_slot_locked mem True st of
        None \<Rightarrow> (False, heap_error kInvalidHandle st)
      | Some i \<Rightarrow>
          let s = g_global_memory st ! i; left = gm_lock_count s - 1 in
          if gm_lock_count s = 0 then (False, heap_error kNotLocked st)
          else (left \<noteq> 0, heap_error kSuccess (upd_global i (s\<lparr>gm_lock_count := left\<rparr>) st)))"

text \<open>The result is 0, or the handle when it could not be freed.\<close>

definition tl_GlobalFree :: "u64 \<Rightarrow> heap \<Rightarrow> u64 \<times> heap" where
  "tl_GlobalFree mem st =
     (if mem = 0 then (0, heap_error kSuccess st)
      else (case find_global_memory_slot_locked mem True st of
          None \<Rightarrow> (mem, heap_error kInvalidHandle st)
        | Some i \<Rightarrow>
            let address = gm_address (g_global_memory st ! i); st1 = upd_global i empty_global st;
                st2 = (if address \<noteq> 0 then snd (tl_HeapFree address st1) else st1)
            in (0, heap_error kSuccess (heap_bump st2))))"

definition tl_LocalFree :: "u64 \<Rightarrow> heap \<Rightarrow> u64 \<times> heap" where
  "tl_LocalFree mem st =
     (if mem = 0 then (0, heap_error kSuccess st)
      else (case find_global_memory_slot_locked mem False st of
          Some i \<Rightarrow>
            if gm_global (g_global_memory st ! i) then (mem, heap_error kInvalidHandle st)
            else (0, heap_error kSuccess (heap_bump (snd (tl_HeapFree (gm_address (g_global_memory st ! i)) (upd_global i empty_global st)))))
        | None \<Rightarrow>
            (case take_local_free_block mem st of
               (True, st1) \<Rightarrow> (0, heap_error kSuccess (heap_bump (host_free mem st1)))
             | (False, st1) \<Rightarrow>
                 (case tl_HeapFree mem st1 of
                    (True, st2) \<Rightarrow> (0, heap_error kSuccess st2)
                  | (False, st2) \<Rightarrow> (mem, heap_error kInvalidHandle st2)))))"

text \<open>The size is not looked up.\<close>

definition tl_GlobalSize :: "u64 \<Rightarrow> heap \<Rightarrow> u64 \<times> heap" where
  "tl_GlobalSize mem st = (if mem = 0 then (0, heap_error kInvalidParameter st) else (4096, st))"

end
