(* ===== verification/Guest_Heap_Correct.thy ===== *)
theory Guest_Heap_Correct
  imports Guest_Heap
begin

text \<open>
  What the heaps keep: the blocks they hand out lie in live and disjoint blocks of the host, whatever
  the guest writes into memory and whatever it asks to free, so that nothing is freed twice and no copy
  leaves a block. Seen as a map from addresses to contents, the operations are those of an allocator.
\<close>

section \<open>The invariant\<close>

definition max_request :: u64 where "max_request = 0xFFFFFFF0"

definition block_size :: "u64 \<Rightarrow> u64" where
  "block_size n = kHeapHeaderSize + payload_size n + kHeapTrailerSize"

definition live_ok :: "(u64 \<times> u64) list \<Rightarrow> bool" where
  "live_ok ls \<longleftrightarrow> distinct (map fst ls) \<and> (\<forall>(b, m) \<in> set ls. 0 < b \<and> 0 < m) \<and>
     (\<forall>(b, m) \<in> set ls. \<forall>(c, k) \<in> set ls. b \<noteq> c \<longrightarrow> b + m \<le> c \<or> c + k \<le> b)"

definition blocks_ok :: "(u64 \<times> u64) list \<Rightarrow> (u64 \<times> u64) list \<Rightarrow> bool" where
  "blocks_ok blocks ls \<longleftrightarrow> distinct (map fst blocks) \<and>
     (\<forall>(q, n) \<in> set blocks. n \<le> max_request \<and> kHeapHeaderSize \<le> q \<and> (q - kHeapHeaderSize, block_size n) \<in> set ls)"

definition others_ok :: "u64 list \<Rightarrow> (u64 \<times> u64) list \<Rightarrow> (u64 \<times> u64) list \<Rightarrow> bool" where
  "others_ok ps blocks ls \<longleftrightarrow> distinct (filter (\<lambda>a. a \<noteq> 0) ps) \<and>
     (\<forall>a \<in> set ps. a \<noteq> 0 \<longrightarrow> a \<in> fst ` set ls \<and> a + kHeapHeaderSize \<notin> fst ` set blocks)"

definition heap_ok :: "heap \<Rightarrow> bool" where
  "heap_ok st \<longleftrightarrow> \<not> hp_undefined st \<and> live_ok (hp_live st) \<and> blocks_ok (g_heap_blocks st) (hp_live st) \<and>
     others_ok (g_local_free_blocks st) (g_heap_blocks st) (hp_live st)"

text \<open>The host's \<open>malloc\<close> answers with memory that is in nobody's use.\<close>

definition fresh_block :: "u64 \<Rightarrow> u64 \<Rightarrow> (u64 \<times> u64) list \<Rightarrow> bool" where
  "fresh_block p n ls \<longleftrightarrow> 0 < p \<and> (\<forall>(b, m) \<in> set ls. p + n \<le> b \<or> b + m \<le> p)"

definition honest_malloc :: "heap_malloc \<Rightarrow> heap \<Rightarrow> bool" where
  "honest_malloc malloc st \<longleftrightarrow> (\<forall>n p. malloc n = Some p \<longrightarrow> fresh_block p n (hp_live st))"

lemma payload_bounds:
  assumes "n \<le> max_request"
  shows "n \<le> payload_size n" "0 < payload_size n"
proof -
  have "(n + 15) mod 2 ^ 64 = n + 15" using assms by (simp add: max_request_def)
  moreover have mask: "x AND 0xFFFFFFF0 = x div 16 * 16" if "x < 2 ^ 32" for x :: nat
  proof -
    have "x AND 0xFFFFFFF0 = push_bit 4 (drop_bit 4 x)"
    proof (rule bit_eqI)
      fix k
      have "bit (0xFFFFFFF0 :: nat) k \<longleftrightarrow> 4 \<le> k \<and> k < 32"
      proof -
        have m: "(0xFFFFFFF0 :: nat) = push_bit 4 (mask 28)" by (simp add: push_bit_eq_mult mask_eq_exp_minus_1)
        show ?thesis by (subst m) (auto simp: bit_push_bit_iff bit_mask_iff)
      qed
      moreover have "bit x k \<Longrightarrow> k < 32"
        using that by (metis bit_take_bit_iff take_bit_nat_eq_self_iff)
      ultimately show "bit (x AND 0xFFFFFFF0) k \<longleftrightarrow> bit (push_bit 4 (drop_bit 4 x)) k"
        by (auto simp: bit_and_iff bit_push_bit_iff bit_drop_bit_eq)
    qed
    then show ?thesis by (simp add: push_bit_eq_mult drop_bit_eq_div)
  qed
  ultimately have "n \<noteq> 0 \<Longrightarrow> payload_size n = (n + 15) div 16 * 16"
    using assms by (simp add: payload_size_def max_request_def)
  then show "n \<le> payload_size n" "0 < payload_size n"
    by (cases "n = 0"; simp add: payload_size_def; linarith)+
qed

lemma block_size_bounds:
  assumes "n \<le> max_request"
  shows "n + 112 \<le> block_size n" "0 < block_size n"
  using payload_bounds [OF assms] by (auto simp: block_size_def kHeapHeaderSize_def kHeapTrailerSize_def)

lemma in_live_blockI: "(b, m) \<in> set blocks \<Longrightarrow> b \<le> a \<Longrightarrow> a + n \<le> b + m \<Longrightarrow> in_live_block blocks a n"
  by (auto simp: in_live_block_def list_ex_iff)

lemma length_le_bytes4 [simp]: "length (le_bytes4 v) = 4"
  by (simp add: le_bytes4_def)

lemma length_heap_header [simp]: "length (heap_header f n p) = 40"
  by (simp add: heap_header_def)

lemma host_write_fields [simp]:
  "hp_memory (host_write a bs st) = store (hp_memory st) a bs"
  "hp_live (host_write a bs st) = hp_live st"
  "g_heap_blocks (host_write a bs st) = g_heap_blocks st"
  "g_local_free_blocks (host_write a bs st) = g_local_free_blocks st"
  "g_global_memory (host_write a bs st) = g_global_memory st"
  "hp_undefined (host_write a bs st) \<longleftrightarrow> hp_undefined st \<or> bs \<noteq> [] \<and> \<not> in_live_block (hp_live st) a (length bs)"
  by (simp_all add: host_write_def)

lemma heap_note_fields [simp]:
  "hp_memory (heap_error e st) = hp_memory st" "hp_memory (heap_bump st) = hp_memory st"
  "hp_live (heap_error e st) = hp_live st" "hp_live (heap_bump st) = hp_live st"
  "g_heap_blocks (heap_error e st) = g_heap_blocks st" "g_heap_blocks (heap_bump st) = g_heap_blocks st"
  "g_local_free_blocks (heap_error e st) = g_local_free_blocks st" "g_local_free_blocks (heap_bump st) = g_local_free_blocks st"
  "g_global_memory (heap_error e st) = g_global_memory st" "g_global_memory (heap_bump st) = g_global_memory st"
  "hp_undefined (heap_error e st) = hp_undefined st" "hp_undefined (heap_bump st) = hp_undefined st"
  by (simp_all add: heap_error_def heap_bump_def)

lemma upd_global_fields [simp]:
  "hp_memory (upd_global i s st) = hp_memory st" "hp_live (upd_global i s st) = hp_live st"
  "g_heap_blocks (upd_global i s st) = g_heap_blocks st"
  "g_local_free_blocks (upd_global i s st) = g_local_free_blocks st"
  "hp_undefined (upd_global i s st) = hp_undefined st"
  by (simp_all add: upd_global_def)

lemma heap_ok_notes [simp]:
  "heap_ok (heap_error e st) = heap_ok st" "heap_ok (heap_bump st) = heap_ok st" "heap_ok (upd_global i s st) = heap_ok st"
  by (simp_all add: heap_ok_def)

lemma honest_malloc_cong: "hp_live st = hp_live st' \<Longrightarrow> honest_malloc malloc st = honest_malloc malloc st'"
  by (simp add: honest_malloc_def)

section \<open>Allocating\<close>

text \<open>Everything a successful allocation does to the state.\<close>

lemma heap_alloc_some:
  assumes "malloc (block_size n) = Some raw" "tl_HeapAlloc malloc fl n st = (q, st')"
  shows "q = raw + kHeapHeaderSize" "hp_live st' = (raw, block_size n) # hp_live st"
    and "g_heap_blocks st' = AList.update q n (g_heap_blocks st)" "g_local_free_blocks st' = g_local_free_blocks st"
    and "hp_undefined st' = hp_undefined st"
    and "x < raw \<or> raw + block_size n \<le> x \<Longrightarrow> hp_memory st' x = hp_memory st x"
    and "fl AND 8 \<noteq> 0 \<Longrightarrow> load (hp_memory st') q (payload_size n) = replicate (payload_size n) 0"
    and "hp_last_error st' = kSuccess"
    and "g_global_memory st' = g_global_memory st"
proof -
  define st1 where "st1 = host_write raw (heap_header fl n (payload_size n)) (st\<lparr>hp_live := (raw, block_size n) # hp_live st\<rparr>)"
  define st2 where "st2 = (if fl AND 8 \<noteq> 0 then host_write (raw + kHeapHeaderSize) (replicate (payload_size n) 0) st1 else st1)"
  define st3 where "st3 = host_write (raw + kHeapHeaderSize + payload_size n) (replicate kHeapTrailerSize kTrailerCanaryByte) st2"
  have eq: "(q, st') = (raw + kHeapHeaderSize,
      heap_error kSuccess (heap_bump (st3\<lparr>g_heap_blocks := AList.update (raw + kHeapHeaderSize) n (g_heap_blocks st3)\<rparr>)))"
    using assms(2)
    by (simp only: tl_HeapAlloc_def Let_def block_size_def [symmetric] assms(1) option.case
        st1_def [symmetric] st2_def [symmetric] st3_def [symmetric])
  note sizes = block_size_def kHeapHeaderSize_def kHeapTrailerSize_def
  have inside: "in_live_block ((raw, block_size n) # hp_live st) a k" if "raw \<le> a" "a + k \<le> raw + block_size n" for a k
    using that by (auto intro: in_live_blockI [of raw "block_size n"])
  have f1: "hp_live st1 = (raw, block_size n) # hp_live st" "g_heap_blocks st1 = g_heap_blocks st"
      "g_local_free_blocks st1 = g_local_free_blocks st" "hp_undefined st1 = hp_undefined st" "g_global_memory st1 = g_global_memory st"
    using inside [of raw 40] by (auto simp: st1_def sizes)
  have f2: "hp_live st2 = (raw, block_size n) # hp_live st" "g_heap_blocks st2 = g_heap_blocks st"
      "g_local_free_blocks st2 = g_local_free_blocks st" "hp_undefined st2 = hp_undefined st" "g_global_memory st2 = g_global_memory st"
    using f1 inside [of "raw + kHeapHeaderSize" "payload_size n"] by (auto simp: st2_def sizes)
  have f3: "hp_live st3 = (raw, block_size n) # hp_live st" "g_heap_blocks st3 = g_heap_blocks st"
      "g_local_free_blocks st3 = g_local_free_blocks st" "hp_undefined st3 = hp_undefined st" "g_global_memory st3 = g_global_memory st"
    using f2 inside [of "raw + kHeapHeaderSize + payload_size n" kHeapTrailerSize] by (auto simp: st3_def sizes)
  show "q = raw + kHeapHeaderSize" using eq by simp
  show "hp_live st' = (raw, block_size n) # hp_live st" "g_heap_blocks st' = AList.update q n (g_heap_blocks st)"
    "g_local_free_blocks st' = g_local_free_blocks st" "hp_undefined st' = hp_undefined st" "hp_last_error st' = kSuccess"
    "g_global_memory st' = g_global_memory st"
    using eq f3 by (auto simp: heap_error_def heap_bump_def)
  have mem: "hp_memory st' = hp_memory st3" using eq by simp
  show "hp_memory st' x = hp_memory st x" if "x < raw \<or> raw + block_size n \<le> x"
    using that unfolding mem by (auto simp: st1_def st2_def st3_def store_def sizes)
  show "load (hp_memory st') q (payload_size n) = replicate (payload_size n) 0" if "fl AND 8 \<noteq> 0"
    unfolding mem using that eq
    by (intro nth_equalityI) (auto simp: load_def st1_def st2_def st3_def store_def sizes)
qed

lemma heap_alloc_none:
  "malloc (block_size n) = None \<Longrightarrow> tl_HeapAlloc malloc fl n st = (0, heap_error kNotEnoughMemory st)"
  by (simp add: tl_HeapAlloc_def Let_def block_size_def)

lemma set_update_fresh: "q \<notin> fst ` set xs \<Longrightarrow> set (AList.update q n xs) = insert (q, n) (set xs)"
  by (induction xs) auto

lemma live_ok_Cons:
  assumes "live_ok ls" "fresh_block p n ls" "0 < n"
  shows "live_ok ((p, n) # ls)"
proof -
  have "p \<notin> fst ` set ls" using assms unfolding live_ok_def fresh_block_def by fastforce
  then show ?thesis using assms unfolding live_ok_def fresh_block_def by fastforce
qed

lemma heap_block_inside:
  assumes "heap_ok st" "map_of (g_heap_blocks st) q = Some n"
  shows "n \<le> max_request" "kHeapHeaderSize \<le> q" "(q - kHeapHeaderSize, block_size n) \<in> set (hp_live st)"
  using assms by (auto simp: heap_ok_def blocks_ok_def dest!: map_of_SomeD)

lemma heap_alloc_ok:
  assumes "heap_ok st" "honest_malloc malloc st" "n \<le> max_request" "tl_HeapAlloc malloc fl n st = (q, st')"
  shows "heap_ok st'"
proof (cases "malloc (block_size n)")
  case None
  then show ?thesis using assms by (auto simp: heap_alloc_none)
next
  case (Some raw)
  note e = heap_alloc_some [OF Some assms(4)]
  have fresh: "fresh_block raw (block_size n) (hp_live st)" using assms(2) Some by (simp add: honest_malloc_def)
  have new: "raw \<notin> fst ` set (hp_live st)"
    using fresh assms(1) block_size_bounds(2) [OF assms(3)] by (fastforce simp: fresh_block_def heap_ok_def live_ok_def)
  have q: "q \<notin> fst ` set (g_heap_blocks st)"
    using new assms(1) e(1) by (force simp: heap_ok_def blocks_ok_def)
  have "live_ok (hp_live st')"
    unfolding e(2) using live_ok_Cons [OF _ fresh block_size_bounds(2) [OF assms(3)]] assms(1) by (simp add: heap_ok_def)
  moreover have "blocks_ok (g_heap_blocks st') (hp_live st')"
    using assms(1,3) q unfolding e(2,3) heap_ok_def blocks_ok_def
    by (auto simp: set_update_fresh distinct_update e(1))
  moreover have "others_ok (g_local_free_blocks st') (g_heap_blocks st') (hp_live st')"
    using assms(1) q new unfolding e(2,3,4) heap_ok_def others_ok_def by (auto simp: set_update_fresh e(1))
  ultimately show ?thesis using assms(1) e(5) by (simp add: heap_ok_def)
qed

section \<open>Freeing\<close>

lemma live_ok_filter: "live_ok ls \<Longrightarrow> live_ok (filter P ls)"
  by (auto simp: live_ok_def distinct_map inj_on_def)

lemma live_ok_same: "live_ok ls \<Longrightarrow> (b, m) \<in> set ls \<Longrightarrow> (b, k) \<in> set ls \<Longrightarrow> m = k"
  by (metis live_ok_def eq_key_imp_eq_value)

text \<open>A live block of the host that is not a block of the heap: the blocks other functions registered.\<close>

lemma take_local_fields:
  assumes "take_local_free_block a st = (r, st')"
  shows "hp_memory st' = hp_memory st" "hp_live st' = hp_live st" "g_heap_blocks st' = g_heap_blocks st"
    "hp_undefined st' = hp_undefined st" "g_global_memory st' = g_global_memory st" "\<not> r \<Longrightarrow> st' = st"
  using assms by (auto simp: take_local_free_block_def split: if_splits option.splits)

lemma replace_first_SomeD:
  "replace_first x y xs = Some ys \<Longrightarrow> \<exists>us vs. xs = us @ x # vs \<and> ys = us @ y # vs \<and> x \<notin> set us"
proof (induction xs arbitrary: ys)
  case (Cons a xs)
  show ?case
  proof (cases "a = x")
    case True
    then show ?thesis using Cons.prems by (intro exI [of _ "[]"] exI [of _ xs]) auto
  next
    case False
    then obtain zs where "replace_first x y xs = Some zs" "ys = a # zs" using Cons.prems by auto
    moreover obtain us vs where "xs = us @ x # vs" "zs = us @ y # vs" "x \<notin> set us"
      using Cons.IH [OF calculation(1)] by blast
    ultimately show ?thesis using False by (intro exI [of _ "a # us"] exI [of _ vs]) auto
  qed
qed simp

lemma replace_first_None: "replace_first x y xs = None \<longleftrightarrow> x \<notin> set xs"
  by (induction xs) auto

lemma take_local_true:
  assumes "heap_ok st" "take_local_free_block a st = (True, st')"
  shows "a \<in> fst ` set (hp_live st)" "a + kHeapHeaderSize \<notin> fst ` set (g_heap_blocks st)" "a \<noteq> 0"
    and "a \<notin> set (g_local_free_blocks st')"
    and "set (g_local_free_blocks st') \<subseteq> insert 0 (set (g_local_free_blocks st))"
    and "distinct (filter (\<lambda>x. x \<noteq> 0) (g_local_free_blocks st'))"
proof -
  obtain ys where "a \<noteq> 0" "replace_first a 0 (g_local_free_blocks st) = Some ys" "g_local_free_blocks st' = ys"
    using assms(2) by (auto simp: take_local_free_block_def split: if_splits option.splits)
  moreover then obtain us vs where "g_local_free_blocks st = us @ a # vs" "g_local_free_blocks st' = us @ 0 # vs"
    using replace_first_SomeD by blast
  ultimately show "a \<in> fst ` set (hp_live st)" "a + kHeapHeaderSize \<notin> fst ` set (g_heap_blocks st)" "a \<noteq> 0"
    "a \<notin> set (g_local_free_blocks st')"
    "set (g_local_free_blocks st') \<subseteq> insert 0 (set (g_local_free_blocks st))"
    "distinct (filter (\<lambda>x. x \<noteq> 0) (g_local_free_blocks st'))"
    using assms(1) by (auto simp: heap_ok_def others_ok_def)
qed

lemma host_free_fields [simp]:
  "hp_memory (host_free a st) = hp_memory st" "hp_live (host_free a st) = filter (\<lambda>(b, m). b \<noteq> a) (hp_live st)"
  "g_heap_blocks (host_free a st) = g_heap_blocks st" "g_local_free_blocks (host_free a st) = g_local_free_blocks st"
  "g_global_memory (host_free a st) = g_global_memory st"
  "hp_undefined (host_free a st) \<longleftrightarrow> hp_undefined st \<or> a \<notin> fst ` set (hp_live st)"
  by (simp_all add: host_free_def)

text \<open>Freeing a block another function registered.\<close>

lemma free_local_ok:
  assumes "heap_ok st" "take_local_free_block a st = (True, st')"
  shows "heap_ok (host_free a st')"
proof -
  note f = take_local_fields [OF assms(2)] and t = take_local_true [OF assms]
  have "blocks_ok (g_heap_blocks st) (filter (\<lambda>(b, m). b \<noteq> a) (hp_live st))"
  proof -
    have "q - kHeapHeaderSize \<noteq> a" if "(q, n) \<in> set (g_heap_blocks st)" for q n
    proof -
      have "kHeapHeaderSize \<le> q" using assms(1) that by (auto simp: heap_ok_def blocks_ok_def)
      then show ?thesis using t(2) that by (metis fst_conv image_eqI le_add_diff_inverse2)
    qed
    then show ?thesis using assms(1) unfolding heap_ok_def blocks_ok_def by auto
  qed
  moreover have "others_ok (g_local_free_blocks st') (g_heap_blocks st) (filter (\<lambda>(b, m). b \<noteq> a) (hp_live st))"
  proof -
    have "x \<in> fst ` set (filter (\<lambda>(b, m). b \<noteq> a) (hp_live st))" if "x \<in> fst ` set (hp_live st)" "x \<noteq> a" for x
      using that by force
    then show ?thesis using assms(1) t(4,5,6) unfolding heap_ok_def others_ok_def by (metis insertE subset_iff)
  qed
  ultimately show ?thesis using assms(1) t(1) f by (simp add: heap_ok_def live_ok_filter)
qed

text \<open>Freeing a block of the heap.\<close>

lemma heap_free_some:
  assumes "heap_ok st" "map_of (g_heap_blocks st) p = Some n" "tl_HeapFree p st = (r, st')"
  shows "r" "hp_live st' = filter (\<lambda>(b, m). b \<noteq> p - kHeapHeaderSize) (hp_live st)"
    and "g_heap_blocks st' = AList.delete p (g_heap_blocks st)" "g_local_free_blocks st' = g_local_free_blocks st"
    and "\<not> hp_undefined st'" "hp_last_error st' = kSuccess" "g_global_memory st' = g_global_memory st"
    and "x < p - kHeapHeaderSize \<or> p \<le> x \<Longrightarrow> hp_memory st' x = hp_memory st x"
proof -
  define st1 where "st1 = st\<lparr>g_heap_blocks := AList.delete p (g_heap_blocks st)\<rparr>"
  define raw where "raw = p - kHeapHeaderSize"
  define st2 where "st2 = (case get_heap_header p st1 of Some raw \<Rightarrow> clear_header raw st1 | None \<Rightarrow> st1)"
  note in_block = heap_block_inside [OF assms(1,2)]
  have "p \<noteq> 0" using in_block(2) by (simp add: kHeapHeaderSize_def)
  moreover have "get_heap_header p st1 = Some y \<Longrightarrow> y = raw" for y
    by (auto simp: get_heap_header_def Let_def raw_def split: if_splits)
  ultimately have eq: "(r, st') = (True, heap_error kSuccess (heap_bump (host_free raw st2)))"
    using assms(2,3) by (auto simp: tl_HeapFree_def st1_def st2_def raw_def Let_def split: option.splits)
  have cleared: "hp_live (clear_header raw st1) = hp_live st" "g_heap_blocks (clear_header raw st1) = g_heap_blocks st1"
    "g_local_free_blocks (clear_header raw st1) = g_local_free_blocks st" "g_global_memory (clear_header raw st1) = g_global_memory st"
    by (simp_all add: clear_header_def st1_def)
  have in_live: "in_live_block (hp_live st) raw 4" "in_live_block (hp_live st) (raw + 24) 8"
    using in_live_blockI [OF in_block(3)] block_size_bounds(1) [OF in_block(1)] by (simp_all add: raw_def)
  have "\<not> hp_undefined (clear_header raw st1)"
    using in_live assms(1) by (auto simp: clear_header_def st1_def heap_ok_def)
  with \<open>\<And>y. get_heap_header p st1 = Some y \<Longrightarrow> y = raw\<close> cleared assms(1)
  have st2: "hp_live st2 = hp_live st" "g_heap_blocks st2 = g_heap_blocks st1" "g_local_free_blocks st2 = g_local_free_blocks st"
    "g_global_memory st2 = g_global_memory st" "\<not> hp_undefined st2"
    by (auto simp: st2_def st1_def heap_ok_def split: option.split)
  have raw_live: "raw \<in> fst ` set (hp_live st)" using in_block(3) by (force simp: raw_def)
  show "r" "hp_live st' = filter (\<lambda>(b, m). b \<noteq> p - kHeapHeaderSize) (hp_live st)"
    "g_heap_blocks st' = AList.delete p (g_heap_blocks st)" "g_local_free_blocks st' = g_local_free_blocks st"
    "\<not> hp_undefined st'" "g_global_memory st' = g_global_memory st"
    using eq st2 raw_live by (simp_all add: raw_def st1_def)
  show "hp_last_error st' = kSuccess" using eq by (simp add: heap_error_def)
  have "hp_memory st2 x = hp_memory st x" if "x < raw \<or> raw + kHeapHeaderSize \<le> x" for x
    using that \<open>\<And>y. get_heap_header p st1 = Some y \<Longrightarrow> y = raw\<close>
    by (auto simp: st2_def st1_def clear_header_def store_def kHeapHeaderSize_def split: option.split)
  then show "x < p - kHeapHeaderSize \<or> p \<le> x \<Longrightarrow> hp_memory st' x = hp_memory st x"
    using eq in_block(2) by (simp add: raw_def)
qed

lemma heap_free_some_ok:
  assumes "heap_ok st" "map_of (g_heap_blocks st) p = Some n" "tl_HeapFree p st = (r, st')"
  shows "heap_ok st'"
proof -
  note f = heap_free_some [OF assms] and in_block = heap_block_inside [OF assms(1,2)]
  have p_in: "p \<in> fst ` set (g_heap_blocks st)" using assms(2) by (metis domI dom_map_of_conv_image_fst)
  have shift: "q - kHeapHeaderSize = p - kHeapHeaderSize \<Longrightarrow> kHeapHeaderSize \<le> q \<Longrightarrow> q = p" for q
    using in_block(2) by linarith
  have "blocks_ok (g_heap_blocks st') (hp_live st')"
    using assms(1) shift unfolding f(2,3) heap_ok_def blocks_ok_def
    by (auto simp: distinct_delete delete_conv' map_of_delete AList.delete_eq distinct_map inj_on_def)
  moreover have "others_ok (g_local_free_blocks st') (g_heap_blocks st') (hp_live st')"
  proof -
    have "a \<in> fst ` set (filter (\<lambda>(b, m). b \<noteq> p - kHeapHeaderSize) (hp_live st))"
      if "a \<in> fst ` set (hp_live st)" "a + kHeapHeaderSize \<notin> fst ` set (g_heap_blocks st)" for a
    proof -
      have "a \<noteq> p - kHeapHeaderSize" using that(2) p_in in_block(2) by (metis le_add_diff_inverse2)
      then show ?thesis using that(1) by force
    qed
    then show ?thesis using assms(1) unfolding f(2,3,4) heap_ok_def others_ok_def
      by (auto simp: AList.delete_eq)
  qed
  ultimately show ?thesis using assms(1) f(2,5) by (simp add: heap_ok_def live_ok_filter)
qed

lemma heap_free_ok:
  assumes "heap_ok st" "tl_HeapFree p st = (r, st')"
  shows "heap_ok st'"
proof (cases "map_of (g_heap_blocks st) p")
  case (Some n)
  then show ?thesis by (rule heap_free_some_ok [OF assms(1) _ assms(2)])
next
  case None
  obtain t st1 where t: "take_local_free_block p st = (t, st1)" by force
  show ?thesis
  proof (cases t)
    case True
    then show ?thesis using assms None t free_local_ok [OF assms(1)] by (auto simp: tl_HeapFree_def split: if_splits)
  next
    case False
    then show ?thesis using assms None t take_local_fields(6) [OF t] by (auto simp: tl_HeapFree_def split: if_splits)
  qed
qed

section \<open>Moving\<close>

lemma store_Nil [simp]: "store m a [] = m"
  by (auto simp: store_def fun_eq_iff)

lemma heap_ok_cong:
  assumes "hp_live st' = hp_live st" "g_heap_blocks st' = g_heap_blocks st"
    "g_local_free_blocks st' = g_local_free_blocks st" "hp_undefined st' = hp_undefined st"
  shows "heap_ok st' = heap_ok st"
  using assms by (simp add: heap_ok_def)

lemma host_copy_fields:
  assumes "in_live_block (hp_live st) a n" "in_live_block (hp_live st) b n"
  shows "hp_live (host_copy a b n st) = hp_live st" "g_heap_blocks (host_copy a b n st) = g_heap_blocks st"
    "g_local_free_blocks (host_copy a b n st) = g_local_free_blocks st"
    "g_global_memory (host_copy a b n st) = g_global_memory st"
    "hp_undefined (host_copy a b n st) = hp_undefined st"
    "hp_memory (host_copy a b n st) = store (hp_memory st) a (load (hp_memory st) b n)"
proof -
  have "length (load (hp_memory st) b n) = n" by (simp add: load_def)
  then show "hp_undefined (host_copy a b n st) = hp_undefined st"
    using assms by (simp add: host_copy_def Let_def)
qed (simp_all add: host_copy_def Let_def)

text \<open>A block keeps its range apart from a block the host has just handed out.\<close>

lemma fresh_apart:
  assumes "heap_ok st" "fresh_block raw k (hp_live st)" "map_of (g_heap_blocks st) p = Some n"
  shows "raw + k \<le> p - kHeapHeaderSize \<or> p + n \<le> raw"
  using heap_block_inside [OF assms(1,3)] block_size_bounds(1) assms(2) unfolding fresh_block_def kHeapHeaderSize_def
  by fastforce

text \<open>Everything a successful reallocation does, in terms of the two steps it takes.\<close>

lemma heap_realloc_some:
  assumes "heap_ok st" "honest_malloc malloc st" "n \<le> max_request" "map_of (g_heap_blocks st) p = Some old"
    and "tl_HeapReAlloc malloc fl p n st = (q, st')" "q \<noteq> 0"
  obtains st1 st2 where "tl_HeapAlloc malloc fl n st = (q, st1)" "st' = snd (tl_HeapFree p st2)"
    and "heap_ok st1" "heap_ok st2" "q \<noteq> p" "map_of (g_heap_blocks st2) p = Some old"
    and "g_heap_blocks st2 = g_heap_blocks st1" "hp_live st2 = hp_live st1"
    and "hp_memory st2 = store (hp_memory st1) q (load (hp_memory st1) p (min old n))"
proof -
  obtain st1 where alloc: "tl_HeapAlloc malloc fl n st = (q, st1)"
    using assms(4,5,6) by (auto simp: tl_HeapReAlloc_def Let_def kHeapHeaderSize_def split: if_splits prod.splits)
  have inside: "old \<le> max_request" "kHeapHeaderSize \<le> p" "(p - kHeapHeaderSize, block_size old) \<in> set (hp_live st)"
    using heap_block_inside [OF assms(1,4)] by auto
  have "p \<noteq> 0" using inside(2) by (simp add: kHeapHeaderSize_def)
  obtain raw where raw: "malloc (block_size n) = Some raw"
    using alloc assms(6) heap_alloc_none [of malloc n fl st] by (cases "malloc (block_size n)") auto
  note e = heap_alloc_some [OF raw alloc]
  have fresh: "fresh_block raw (block_size n) (hp_live st)" using assms(2) raw by (simp add: honest_malloc_def)
  have "q \<noteq> p"
  proof -
    have "raw \<noteq> p - kHeapHeaderSize"
      using fresh inside(3) block_size_bounds(2) [OF assms(3)] block_size_bounds(2) [OF inside(1)]
      by (fastforce simp: fresh_block_def)
    then show ?thesis using e(1) by auto
  qed
  define st2 where "st2 = (if 0 < min old n then host_copy q p (min old n) st1 else st1)"
  have "in_live_block (hp_live st1) q (min old n)"
    using block_size_bounds(1) [OF assms(3)] by (intro in_live_blockI [of raw "block_size n"]) (simp_all add: e(1,2) kHeapHeaderSize_def)
  moreover have "in_live_block (hp_live st1) p (min old n)"
    using block_size_bounds(1) [OF inside(1)] inside(2,3)
    by (intro in_live_blockI [of "p - kHeapHeaderSize" "block_size old"]) (simp_all add: e(2) kHeapHeaderSize_def)
  ultimately have live: "in_live_block (hp_live st1) q (min old n)" "in_live_block (hp_live st1) p (min old n)" .
  have ok1: "heap_ok st1" by (rule heap_alloc_ok [OF assms(1,2,3) alloc])
  have f: "hp_live st2 = hp_live st1" "g_heap_blocks st2 = g_heap_blocks st1" "g_local_free_blocks st2 = g_local_free_blocks st1"
      "hp_undefined st2 = hp_undefined st1"
    unfolding st2_def using host_copy_fields [OF live] by auto
  have mem: "hp_memory st2 = store (hp_memory st1) q (load (hp_memory st1) p (min old n))"
    unfolding st2_def using host_copy_fields(6) [OF live] by (cases "min old n = 0") auto
  show ?thesis
  proof (rule that [of st1 st2])
    show "st' = snd (tl_HeapFree p st2)"
      using assms(4,5,6) alloc \<open>p \<noteq> 0\<close> by (simp add: tl_HeapReAlloc_def st2_def Let_def)
    show "heap_ok st2" using ok1 heap_ok_cong [OF f] by simp
    show "map_of (g_heap_blocks st2) p = Some old" using f(2) e(3) \<open>q \<noteq> p\<close> assms(4) by (simp add: update_conv)
  qed (use alloc ok1 \<open>q \<noteq> p\<close> f mem in auto)
qed

lemma heap_realloc_ok:
  assumes "heap_ok st" "honest_malloc malloc st" "n \<le> max_request" "tl_HeapReAlloc malloc fl p n st = (q, st')"
  shows "heap_ok st'"
proof (cases "p = 0 \<or> map_of (g_heap_blocks st) p = None")
  case True
  then show ?thesis
    using assms(1,4) heap_alloc_ok [OF assms(1,2,3)] by (auto simp: tl_HeapReAlloc_def split: if_splits)
next
  case False
  then obtain old where old: "map_of (g_heap_blocks st) p = Some old" "p \<noteq> 0" by auto
  show ?thesis
  proof (cases "q = 0")
    case True
    obtain q1 st1 where alloc: "tl_HeapAlloc malloc fl n st = (q1, st1)" by force
    have "q1 = 0"
    proof (rule ccontr)
      assume "q1 \<noteq> 0"
      then have "q = q1" using old alloc assms(4) by (simp add: tl_HeapReAlloc_def Let_def)
      then show False using True \<open>q1 \<noteq> 0\<close> by simp
    qed
    then show ?thesis
      using old alloc assms(4) heap_alloc_ok [OF assms(1,2,3) alloc] by (auto simp: tl_HeapReAlloc_def)
  next
    case False
    obtain st1 st2 where "heap_ok st2" "st' = snd (tl_HeapFree p st2)"
      using heap_realloc_some [OF assms(1-3) old(1) assms(4) False] by metis
    then show ?thesis using heap_free_ok [of st2 p "fst (tl_HeapFree p st2)" st'] by simp
  qed
qed

section \<open>Global and local memory\<close>

lemma heap_free_snd_ok: "heap_ok st \<Longrightarrow> heap_ok (snd (tl_HeapFree p st))"
  using heap_free_ok [of st p "fst (tl_HeapFree p st)" "snd (tl_HeapFree p st)"] by simp

lemma slot_alloc_ok:
  assumes "heap_ok st" "honest_malloc malloc st" "n \<le> max_request" "slot_alloc gl malloc fl n st = (q, st')"
  shows "heap_ok st'"
proof -
  have "(if n = 0 then 1 else n) \<le> max_request" using assms(3) by (simp add: max_request_def)
  note ok = heap_alloc_ok [OF assms(1,2) this]
  show ?thesis
    using assms(1,4) ok unfolding slot_alloc_def Let_def
    by (auto split: if_splits prod.splits option.splits intro!: heap_free_snd_ok)
qed

lemma global_lock_ok: "heap_ok st \<Longrightarrow> tl_GlobalLock p st = (q, st') \<Longrightarrow> heap_ok st'"
  by (auto simp: tl_GlobalLock_def Let_def split: option.splits)

lemma global_unlock_ok: "heap_ok st \<Longrightarrow> tl_GlobalUnlock p st = (r, st') \<Longrightarrow> heap_ok st'"
  by (auto simp: tl_GlobalUnlock_def Let_def split: option.splits if_splits)

lemma global_free_ok: "heap_ok st \<Longrightarrow> tl_GlobalFree p st = (q, st') \<Longrightarrow> heap_ok st'"
  by (auto simp: tl_GlobalFree_def Let_def intro!: heap_free_snd_ok split: option.splits if_splits)

lemma local_free_ok:
  assumes "heap_ok st" "tl_LocalFree p st = (q, st')"
  shows "heap_ok st'"
proof -
  obtain t st1 where t: "take_local_free_block p st = (t, st1)" by force
  obtain r st2 where r: "tl_HeapFree p st1 = (r, st2)" by force
  have "t \<Longrightarrow> heap_ok (host_free p st1)" using free_local_ok [OF assms(1)] t by (cases t) auto
  moreover have "\<not> t \<Longrightarrow> heap_ok st2" using take_local_fields(6) [OF t] heap_free_ok [OF _ r] assms(1) by auto
  ultimately show ?thesis
    using assms t r by (auto simp: tl_LocalFree_def intro!: heap_free_snd_ok split: option.splits if_splits bool.splits)
qed

text \<open>Other functions register blocks they took from \<open>malloc\<close> for the guest to free.\<close>

definition other_block :: "u64 \<Rightarrow> u64 \<Rightarrow> heap \<Rightarrow> heap" where
  "other_block p n st =
     (case register_local_free_block p st of
        (True, st1) \<Rightarrow> st1\<lparr>hp_live := (p, n) # hp_live st1\<rparr>
      | (False, st1) \<Rightarrow> st1)"

lemma other_block_ok:
  assumes "heap_ok st" "fresh_block p n (hp_live st)" "0 < n"
  shows "heap_ok (other_block p n st)"
proof (cases "register_local_free_block p st")
  case (Pair r st1)
  show ?thesis
  proof (cases r)
    case False
    then show ?thesis using Pair assms(1) by (auto simp: other_block_def register_local_free_block_def split: if_splits option.splits)
  next
    case True
    then obtain ys where "p \<noteq> 0" "replace_first 0 p (g_local_free_blocks st) = Some ys" "st1 = st\<lparr>g_local_free_blocks := ys\<rparr>"
      using Pair by (auto simp: register_local_free_block_def split: if_splits option.splits)
    moreover then obtain us vs where uv: "g_local_free_blocks st = us @ 0 # vs" "ys = us @ p # vs"
      using replace_first_SomeD by blast
    moreover have new: "p \<notin> fst ` set (hp_live st)"
      using assms unfolding heap_ok_def live_ok_def fresh_block_def by fastforce
    moreover have "p + kHeapHeaderSize \<notin> fst ` set (g_heap_blocks st)"
      using new assms(1) unfolding heap_ok_def blocks_ok_def by force
    moreover have "p \<notin> set (g_local_free_blocks st)" using new assms(1) \<open>p \<noteq> 0\<close> by (auto simp: heap_ok_def others_ok_def)
    ultimately show ?thesis
      using assms Pair True live_ok_Cons [of "hp_live st" p n] unfolding heap_ok_def
      by (auto simp: other_block_def others_ok_def blocks_ok_def)
  qed
qed

section \<open>Every history\<close>

definition start_heap :: "nat \<Rightarrow> nat \<Rightarrow> memory \<Rightarrow> heap" where
  "start_heap slots entries m =
     \<lparr>g_heap_blocks = [], g_global_memory = replicate slots empty_global, g_local_free_blocks = replicate entries 0,
      hp_memory = m, hp_live = [], hp_undefined = False, hp_last_error = 0, hp_generation = 0\<rparr>"

inductive heap_reachable :: "nat \<Rightarrow> nat \<Rightarrow> heap \<Rightarrow> bool" for slots entries where
  start: "heap_reachable slots entries (start_heap slots entries m)"
| guest_writes: "heap_reachable slots entries st \<Longrightarrow> heap_reachable slots entries (st\<lparr>hp_memory := m\<rparr>)"
| alloc: "heap_reachable slots entries st \<Longrightarrow> honest_malloc malloc st \<Longrightarrow> n \<le> max_request \<Longrightarrow>
    tl_HeapAlloc malloc fl n st = (q, st') \<Longrightarrow> heap_reachable slots entries st'"
| free: "heap_reachable slots entries st \<Longrightarrow> tl_HeapFree p st = (r, st') \<Longrightarrow> heap_reachable slots entries st'"
| realloc: "heap_reachable slots entries st \<Longrightarrow> honest_malloc malloc st \<Longrightarrow> n \<le> max_request \<Longrightarrow>
    tl_HeapReAlloc malloc fl p n st = (q, st') \<Longrightarrow> heap_reachable slots entries st'"
| global_alloc: "heap_reachable slots entries st \<Longrightarrow> honest_malloc malloc st \<Longrightarrow> n \<le> max_request \<Longrightarrow>
    tl_GlobalAlloc malloc fl n st = (q, st') \<Longrightarrow> heap_reachable slots entries st'"
| local_alloc: "heap_reachable slots entries st \<Longrightarrow> honest_malloc malloc st \<Longrightarrow> n \<le> max_request \<Longrightarrow>
    tl_LocalAlloc malloc fl n st = (q, st') \<Longrightarrow> heap_reachable slots entries st'"
| lock: "heap_reachable slots entries st \<Longrightarrow> tl_GlobalLock p st = (q, st') \<Longrightarrow> heap_reachable slots entries st'"
| unlock: "heap_reachable slots entries st \<Longrightarrow> tl_GlobalUnlock p st = (r, st') \<Longrightarrow> heap_reachable slots entries st'"
| global_free: "heap_reachable slots entries st \<Longrightarrow> tl_GlobalFree p st = (q, st') \<Longrightarrow> heap_reachable slots entries st'"
| local_free: "heap_reachable slots entries st \<Longrightarrow> tl_LocalFree p st = (q, st') \<Longrightarrow> heap_reachable slots entries st'"
| other: "heap_reachable slots entries st \<Longrightarrow> fresh_block p n (hp_live st) \<Longrightarrow> 0 < n \<Longrightarrow>
    heap_reachable slots entries (other_block p n st)"

lemma heap_reachable_ok: "heap_reachable slots entries st \<Longrightarrow> heap_ok st"
proof (induction rule: heap_reachable.induct)
  case (start m)
  show ?case by (simp add: start_heap_def heap_ok_def live_ok_def blocks_ok_def others_ok_def)
next
  case (guest_writes st m)
  then show ?case by (simp add: heap_ok_def)
qed (auto intro: heap_alloc_ok heap_free_ok heap_realloc_ok slot_alloc_ok global_lock_ok global_unlock_ok global_free_ok
    local_free_ok other_block_ok simp: tl_GlobalAlloc_def tl_LocalAlloc_def)

section \<open>The allocator the guest sees\<close>

text \<open>The blocks by address, with their contents.\<close>

definition heap_contents :: "heap \<Rightarrow> u64 \<Rightarrow> bytes option" where
  "heap_contents st p = map_option (load (hp_memory st) p) (map_of (g_heap_blocks st) p)"

text \<open>What an allocator does to such a map; 0 is the failed call.\<close>

definition spec_alloc :: "bool \<Rightarrow> u64 \<Rightarrow> (u64 \<Rightarrow> bytes option) \<Rightarrow> u64 \<Rightarrow> (u64 \<Rightarrow> bytes option) \<Rightarrow> bool" where
  "spec_alloc zeroed n c q c' \<longleftrightarrow>
     (if q = 0 then c' = c
      else c q = None \<and> (\<exists>bs. length bs = n \<and> (zeroed \<longrightarrow> bs = replicate n 0) \<and> c' = c(q \<mapsto> bs)))"

definition spec_realloc :: "u64 \<Rightarrow> bytes \<Rightarrow> u64 \<Rightarrow> (u64 \<Rightarrow> bytes option) \<Rightarrow> u64 \<Rightarrow> (u64 \<Rightarrow> bytes option) \<Rightarrow> bool" where
  "spec_realloc p old n c q c' \<longleftrightarrow>
     (if q = 0 then c' = c
      else c q = None \<and> (\<exists>bs. length bs = n \<and> take (length old) bs = take n old \<and> c' = c(p := None, q \<mapsto> bs)))"

lemma load_cong: "(\<And>x. a \<le> x \<Longrightarrow> x < a + n \<Longrightarrow> m x = m' x) \<Longrightarrow> load m a n = load m' a n"
  by (auto simp: load_def)

lemma take_load: "k \<le> n \<Longrightarrow> take k (load m a n) = load m a k"
  by (simp add: load_def take_map)

text \<open>Two blocks lie apart, with the header of each behind the other.\<close>

lemma heap_blocks_apart:
  assumes "heap_ok st" "map_of (g_heap_blocks st) p = Some n" "map_of (g_heap_blocks st) q = Some k" "q \<noteq> p"
  shows "q + k \<le> p - kHeapHeaderSize \<or> p + n \<le> q - kHeapHeaderSize"
proof -
  note a = heap_block_inside [OF assms(1,2)] and b = heap_block_inside [OF assms(1,3)]
  have "q - kHeapHeaderSize + block_size k \<le> p - kHeapHeaderSize \<or> p - kHeapHeaderSize + block_size n \<le> q - kHeapHeaderSize"
    using assms(1,4) a(2,3) b(2,3) unfolding heap_ok_def live_ok_def by fastforce
  then show ?thesis
    using a(2) b(2) block_size_bounds(1) [OF b(1)] block_size_bounds(1) [OF a(1)] by (simp add: kHeapHeaderSize_def) linarith
qed

text \<open>The contents of the other blocks survive what happens outside them.\<close>

lemma heap_alloc_refines:
  assumes "heap_ok st" "honest_malloc malloc st" "n \<le> max_request" "tl_HeapAlloc malloc fl n st = (q, st')"
  shows "spec_alloc (fl AND 8 \<noteq> 0) n (heap_contents st) q (heap_contents st')"
proof (cases "malloc (block_size n)")
  case None
  then have "q = 0" "heap_contents st' = heap_contents st"
    using assms(4) by (auto simp: heap_alloc_none heap_contents_def)
  then show ?thesis by (simp add: spec_alloc_def)
next
  case (Some raw)
  note e = heap_alloc_some [OF Some assms(4)]
  have fresh: "fresh_block raw (block_size n) (hp_live st)" using assms(2) Some by (simp add: honest_malloc_def)
  have none: "map_of (g_heap_blocks st) q = None"
  proof (rule ccontr)
    assume "map_of (g_heap_blocks st) q \<noteq> None"
    then obtain k where "map_of (g_heap_blocks st) q = Some k" by blast
    from fresh_apart [OF assms(1) fresh this] show False
      using e(1) block_size_bounds(1) [OF assms(3)] by (simp add: kHeapHeaderSize_def)
  qed
  have same: "load (hp_memory st') p k = load (hp_memory st) p k" if "map_of (g_heap_blocks st) p = Some k" for p k
  proof (rule load_cong)
    fix x
    assume "p \<le> x" "x < p + k"
    then show "hp_memory st' x = hp_memory st x"
      using fresh_apart [OF assms(1) fresh that] by (intro e(6)) linarith
  qed
  have "heap_contents st' = (heap_contents st)(q \<mapsto> load (hp_memory st') q n)"
  proof
    fix p
    show "heap_contents st' p = ((heap_contents st)(q \<mapsto> load (hp_memory st') q n)) p"
      using same by (cases "map_of (g_heap_blocks st) p") (auto simp: heap_contents_def e(3) update_conv)
  qed
  moreover have "load (hp_memory st') q n = replicate n 0" if "fl AND 8 \<noteq> 0"
  proof -
    have "load (hp_memory st') q n = take n (load (hp_memory st') q (payload_size n))"
      using take_load payload_bounds(1) [OF assms(3)] by simp
    also have "\<dots> = replicate n 0" using e(7) [OF that] payload_bounds(1) [OF assms(3)] by simp
    finally show ?thesis .
  qed
  moreover have "q \<noteq> 0" using e(1) by (simp add: kHeapHeaderSize_def)
  ultimately show ?thesis using none
    by (auto simp: spec_alloc_def length_load heap_contents_def intro!: exI [of _ "load (hp_memory st') q n"])
qed

lemma heap_free_refines:
  assumes "heap_ok st" "tl_HeapFree p st = (r, st')"
  shows "heap_contents st' = (heap_contents st)(p := None)"
proof (cases "map_of (g_heap_blocks st) p")
  case None
  obtain t st1 where t: "take_local_free_block p st = (t, st1)" by force
  have "hp_memory st' = hp_memory st \<and> g_heap_blocks st' = g_heap_blocks st"
    using assms(2) None t take_local_fields [OF t] by (cases t) (auto simp: tl_HeapFree_def split: if_splits)
  then show ?thesis using None by (auto simp: heap_contents_def)
next
  case (Some n)
  note f = heap_free_some [OF assms(1) Some assms(2)]
  have "load (hp_memory st') q k = load (hp_memory st) q k" if "map_of (g_heap_blocks st) q = Some k" "q \<noteq> p" for q k
  proof (rule load_cong)
    fix x
    assume x: "q \<le> x" "x < q + k"
    then show "hp_memory st' x = hp_memory st x"
      using heap_blocks_apart [OF assms(1) Some that] heap_block_inside(2) [OF assms(1) that(1)] by (intro f(8)) linarith
  qed
  then show ?thesis
    by (auto simp: heap_contents_def f(3) AList.delete_conv' fun_eq_iff intro!: option.map_cong0)
qed

lemma heap_realloc_refines:
  assumes "heap_ok st" "honest_malloc malloc st" "n \<le> max_request" "heap_contents st p = Some old"
    and "tl_HeapReAlloc malloc fl p n st = (q, st')"
  shows "spec_realloc p old n (heap_contents st) q (heap_contents st')"
proof -
  obtain k where k: "map_of (g_heap_blocks st) p = Some k" "old = load (hp_memory st) p k"
    using assms(4) by (auto simp: heap_contents_def)
  have "p \<noteq> 0" using heap_block_inside(2) [OF assms(1) k(1)] by (auto simp: kHeapHeaderSize_def)
  show ?thesis
  proof (cases "q = 0")
    case True
    obtain q1 st1 where alloc: "tl_HeapAlloc malloc fl n st = (q1, st1)" by force
    have "q1 = 0"
      using True k(1) alloc assms(5) \<open>p \<noteq> 0\<close> by (auto simp: tl_HeapReAlloc_def Let_def split: if_splits)
    then have "heap_contents st' = heap_contents st1"
      using k(1) alloc assms(5) \<open>p \<noteq> 0\<close> by (auto simp: tl_HeapReAlloc_def heap_contents_def)
    then show ?thesis
      using True heap_alloc_refines [OF assms(1-3) alloc] \<open>q1 = 0\<close> by (simp add: spec_alloc_def spec_realloc_def)
  next
    case False
    obtain st1 st2 where s: "tl_HeapAlloc malloc fl n st = (q, st1)" "st' = snd (tl_HeapFree p st2)"
        "heap_ok st1" "heap_ok st2" "q \<noteq> p" "map_of (g_heap_blocks st2) p = Some k"
        "g_heap_blocks st2 = g_heap_blocks st1" "hp_live st2 = hp_live st1"
        "hp_memory st2 = store (hp_memory st1) q (load (hp_memory st1) p (min k n))"
      using heap_realloc_some [OF assms(1-3) k(1) assms(5) False] by metis
    obtain bs where bs: "heap_contents st q = None" "length bs = n" "heap_contents st1 = (heap_contents st)(q \<mapsto> bs)"
      using heap_alloc_refines [OF assms(1-3) s(1)] False by (auto simp: spec_alloc_def)
    have q: "map_of (g_heap_blocks st2) q = Some n"
      using bs(2,3) s(7) by (cases "map_of (g_heap_blocks st2) q") (auto simp: heap_contents_def length_load fun_eq_iff dest!: spec [of _ q])
    define bs' where "bs' = load (hp_memory st2) q n"
    have "heap_contents st1 p = Some old" using bs(3) s(5) assms(4) by simp
    then have old: "load (hp_memory st1) p k = old" using s(6,7) by (simp add: heap_contents_def)
    have len: "length (load (hp_memory st1) p (min k n)) = min k n" by (simp add: length_load)
    have "load (hp_memory st2) q (min k n) = load (hp_memory st1) p (min k n)"
      using load_store [of "hp_memory st1" q "load (hp_memory st1) p (min k n)"] unfolding s(9) len .
    moreover have "load (hp_memory st1) p (min k n) = take n old"
      unfolding old [symmetric] by (simp add: load_def take_map min_def)
    moreover have "length old = k" using k(2) by (simp add: length_load)
    ultimately have pre: "take (length old) bs' = take n old"
      unfolding bs'_def by (metis load_def min.commute min.cobounded2 take_load take_take length_load take_all_iff nat_le_linear min_def)
    have "heap_contents st2 = (heap_contents st)(q \<mapsto> bs')"
    proof
      fix x
      show "heap_contents st2 x = ((heap_contents st)(q \<mapsto> bs')) x"
      proof (cases "x = q")
        case True
        then show ?thesis using q by (simp add: heap_contents_def bs'_def)
      next
        case False
        have "load (hp_memory st2) x m = load (hp_memory st1) x m" if "map_of (g_heap_blocks st2) x = Some m" for m
        proof (rule load_cong)
          fix y
          assume "x \<le> y" "y < x + m"
          then show "hp_memory st2 y = hp_memory st1 y"
            using heap_blocks_apart [OF s(4) that q] False unfolding s(9) by (intro store_outside) (auto simp: length_load)
        qed
        then have "heap_contents st2 x = heap_contents st1 x"
          by (auto simp: heap_contents_def s(7) intro!: option.map_cong0)
        then show ?thesis using False bs(3) by simp
      qed
    qed
    moreover have "heap_contents st' = (heap_contents st2)(p := None)"
      using heap_free_refines [OF s(4)] s(2) by (metis prod.collapse)
    ultimately have "heap_contents st' = (heap_contents st)(p := None, q \<mapsto> bs')"
      using s(5) by (auto simp: fun_eq_iff)
    then show ?thesis
      using False bs(1) pre by (auto simp: spec_realloc_def bs'_def length_load intro!: exI [of _ "load (hp_memory st2) q n"])
  qed
qed

section \<open>What the heaps guarantee\<close>


text \<open>A host that hands out one block, and the heap after a first allocation from it.\<close>

definition sample_malloc :: heap_malloc where
  "sample_malloc n = (if n \<le> 0x1000 then Some 0x10000 else None)"

definition sample_heap :: heap where
  "sample_heap = snd (tl_HeapAlloc sample_malloc 8 20 (start_heap 4 4 (\<lambda>_. 0)))"

lemma sample_heap_reached: "heap_reachable 4 4 sample_heap"
proof -
  have "honest_malloc sample_malloc (start_heap 4 4 (\<lambda>_. 0))"
    by (auto simp: honest_malloc_def sample_malloc_def fresh_block_def start_heap_def split: if_splits)
  then show ?thesis
    using heap_reachable.alloc [OF heap_reachable.start, of sample_malloc 4 4 "\<lambda>_. 0" 20 8 "fst (tl_HeapAlloc sample_malloc 8 20 (start_heap 4 4 (\<lambda>_. 0)))" sample_heap]
    by (simp add: sample_heap_def max_request_def)
qed

lemma sample_heap_block: "map_of (g_heap_blocks sample_heap) 0x10030 = Some 20"
  by (simp add: sample_heap_def tl_HeapAlloc_def Let_def payload_size_def kHeapHeaderSize_def kHeapTrailerSize_def
      sample_malloc_def start_heap_def)



definition sample_malloc2 :: heap_malloc where
  "sample_malloc2 n = (if n \<le> 0x1000 then Some 0x20000 else None)"

lemma sample_malloc2_honest: "honest_malloc sample_malloc2 sample_heap"
  by (auto simp: sample_heap_def tl_HeapAlloc_def Let_def payload_size_def kHeapHeaderSize_def kHeapTrailerSize_def
      sample_malloc_def sample_malloc2_def start_heap_def honest_malloc_def fresh_block_def split: if_splits)

lemma sample_heap_contents: "heap_contents sample_heap 0x10030 = Some (replicate 20 0)"
proof -
  have m: "sample_malloc (block_size 20) = Some 0x10000"
    by (simp add: sample_malloc_def block_size_def payload_size_def kHeapHeaderSize_def kHeapTrailerSize_def)
  have a: "tl_HeapAlloc sample_malloc 8 20 (start_heap 4 4 (\<lambda>_. 0)) = (0x10030, sample_heap)"
  proof -
    obtain q st' where e: "tl_HeapAlloc sample_malloc 8 20 (start_heap 4 4 (\<lambda>_. 0)) = (q, st')" by fastforce
    then show ?thesis using heap_alloc_some(1) [OF m e] by (simp add: sample_heap_def kHeapHeaderSize_def)
  qed
  have "load (hp_memory sample_heap) 0x10030 20 = take 20 (load (hp_memory sample_heap) 0x10030 (payload_size 20))"
    by (simp add: take_load payload_size_def)
  also have "\<dots> = replicate 20 0" using heap_alloc_some(7) [OF m a] by (simp add: payload_size_def)
  finally show ?thesis by (simp add: heap_contents_def sample_heap_block)
qed


text \<open>
  C22: in every reachable state a block of the heap is freed once: \<open>HeapFree\<close> succeeds, whatever the guest
  wrote over its header, and afterwards, whatever it writes, \<open>HeapFree\<close> of the same address fails with
  error 87 and changes nothing else, \<open>HeapSize\<close> answers that it is no block, and so does
  \<open>HeapValidate\<close>.
\<close>

theorem heap_freed_once:
  assumes "heap_reachable slots entries st" "map_of (g_heap_blocks st) p = Some n" "tl_HeapFree p st = (r, st1)"
  shows "r \<and> tl_HeapFree p (st1\<lparr>hp_memory := m\<rparr>) = (False, heap_error kInvalidParameter (st1\<lparr>hp_memory := m\<rparr>)) \<and>
    fst (tl_HeapSize p (st1\<lparr>hp_memory := m\<rparr>)) = u64_max \<and> \<not> tl_HeapValidate p (st1\<lparr>hp_memory := m\<rparr>)"
proof -
  have ok: "heap_ok st" by (rule heap_reachable_ok [OF assms(1)])
  note f = heap_free_some [OF ok assms(2,3)] and inside = heap_block_inside [OF ok assms(2)]
  have nz: "p \<noteq> 0" using inside(2) by (auto simp: kHeapHeaderSize_def)
  have gone: "map_of (g_heap_blocks st1) p = None" by (simp add: f(3) AList.delete_conv')
  have "p \<notin> set (g_local_free_blocks st)"
  proof
    assume "p \<in> set (g_local_free_blocks st)"
    then obtain k where "(p, k) \<in> set (hp_live st)" using ok nz by (force simp: heap_ok_def others_ok_def)
    moreover have "p - kHeapHeaderSize \<noteq> p" using nz inside(2) by (simp add: kHeapHeaderSize_def)
    ultimately have "p + k \<le> p - kHeapHeaderSize \<or> p - kHeapHeaderSize + block_size n \<le> p"
      using ok inside(3) unfolding heap_ok_def live_ok_def by fastforce
    then show False using inside(2) block_size_bounds(1) [OF inside(1)] unfolding kHeapHeaderSize_def by linarith
  qed
  then have "take_local_free_block p (st1\<lparr>hp_memory := m\<rparr>) = (False, st1\<lparr>hp_memory := m\<rparr>)"
    using iffD2 [OF replace_first_None, of p "g_local_free_blocks st" 0] nz f(4) by (simp add: take_local_free_block_def)
  then show ?thesis
    using f(1) gone nz by (simp add: tl_HeapFree_def tl_HeapSize_def tl_HeapValidate_def)
qed

lemma heap_freed_once_witness:
  "fst (tl_HeapFree 0x10030 sample_heap) \<and> \<not> fst (tl_HeapFree 0x10030 (snd (tl_HeapFree 0x10030 sample_heap)\<lparr>hp_memory := \<lambda>_. 7\<rparr>))"
  using heap_freed_once [OF sample_heap_reached sample_heap_block prod.collapse [symmetric], of "\<lambda>_. 7"] by simp

text \<open>
  The mask \<open>~15U\<close> has 32 bits: a request of 4 GiB gets a block of 112 bytes, \<open>HeapSize\<close> reports 4 GiB, and
  moving it to 100 bytes copies from outside the block.
\<close>

definition truncating_malloc :: heap_malloc where
  "truncating_malloc n = (if n = 112 then Some 0x10000 else Some 0x20000)"

lemma large_request_truncated:
  "(case tl_HeapAlloc truncating_malloc 0 0x100000000 (start_heap 0 0 m) of
      (p, st1) \<Rightarrow> p = 0x10030 \<and> hp_live st1 = [(0x10000, 112)] \<and> fst (tl_HeapSize p st1) = 0x100000000 \<and> \<not> hp_undefined st1 \<and>
        hp_undefined (snd (tl_HeapReAlloc truncating_malloc 0 p 100 st1)))"
proof -
  have sizes: "payload_size 0x100000000 = 0" "payload_size 100 = 112" by (simp_all add: payload_size_def)
  show ?thesis
    by (simp add: tl_HeapAlloc_def tl_HeapReAlloc_def tl_HeapSize_def tl_HeapFree_def clear_header_def host_copy_def Let_def sizes
        kHeapHeaderSize_def kHeapTrailerSize_def truncating_malloc_def start_heap_def in_live_block_def length_load
        split: option.split)
qed

text \<open>\<open>GlobalSize\<close> answers 4096 whatever the block holds, and does not ask whether there is one.\<close>

lemma global_size_constant: "p \<noteq> 0 \<Longrightarrow> tl_GlobalSize p st = (4096, st)"
  by (simp add: tl_GlobalSize_def)

end
