(* ===== verification/Resource_Inspector.thy ===== *)
theory Resource_Inspector
  imports Pe_Reader Module_Registry
begin

text \<open>
  The inspection of resources, \<open>src/pe/resource_inspector.cpp\<close>: the walk over the resource directory, whose
  offsets come from the file, with its budget of visits and its set of visited directories; the text of
  a manifest; the strings and numbers of version information. A \<open>std::span\<close> into the file is the list of
  its bytes, a \<open>std::string_view\<close> of the manifest the list of its characters.
\<close>

section \<open>Searching\<close>

text \<open>\<open>std::string_view::find\<close> and \<open>std::search\<close> for a text that is not empty.\<close>

definition occurs_at :: "'a list \<Rightarrow> 'a list \<Rightarrow> nat \<Rightarrow> bool" where
  "occurs_at needle hay i \<longleftrightarrow> take (length needle) (drop i hay) = needle"

definition find_from :: "'a list \<Rightarrow> 'a list \<Rightarrow> nat \<Rightarrow> nat option" where
  "find_from hay needle start = find (occurs_at needle hay) [start..<Suc (length hay)]"

definition contains_ci :: "string \<Rightarrow> string \<Rightarrow> bool" where
  "contains_ci haystack needle \<longleftrightarrow> find_from (map tolower haystack) (map tolower needle) 0 \<noteq> None"

section \<open>The walk over the directory\<close>

definition kResourceVisitBudget :: nat where "kResourceVisitBudget = 8192"

record walk =
  visits_left :: nat
  visited :: "u32 list"
  resources :: "(u32 \<times> u32) list"

definition directory_bit :: "u32 \<Rightarrow> bool" where
  "directory_bit v \<longleftrightarrow> v AND 0x80000000 \<noteq> 0"

definition without_bit :: "u32 \<Rightarrow> u32" where
  "without_bit v = v AND 0x7FFFFFFF"

definition resource_entries :: "bytes \<Rightarrow> nat \<Rightarrow> nat" where
  "resource_entries rsrc directory_offset =
     (let entry_count = rd16 rsrc (directory_offset + 12) + rd16 rsrc (directory_offset + 14) in
      if entry_count = 0 \<or> 1024 < entry_count \<or> (length rsrc - directory_offset - 16) div 8 < entry_count
      then 0 else entry_count)"

text \<open>The offset in an entry: of a directory, with the top bit set, or of a leaf.\<close>

definition child_offset :: "bytes \<Rightarrow> nat \<Rightarrow> nat \<Rightarrow> u32" where
  "child_offset rsrc directory_offset index = rd32 rsrc (directory_offset + 16 + index * 8 + 4)"

definition leaf_node :: "bytes \<Rightarrow> u32 \<Rightarrow> u32 \<times> u32" where
  "leaf_node rsrc offset = (rd32 rsrc offset, rd32 rsrc (offset + 4))"

function visit_directory :: "bytes \<Rightarrow> u32 \<Rightarrow> nat \<Rightarrow> walk \<Rightarrow> walk" where
  "visit_directory rsrc encoded_offset depth w =
     (if visits_left w = 0 then w
      else let w1 = w\<lparr>visits_left := visits_left w - 1\<rparr> in
      if 3 < depth \<or> \<not> directory_bit encoded_offset then
        (if \<not> directory_bit encoded_offset \<and> has_range rsrc encoded_offset 16
         then w1\<lparr>resources := resources w1 @ [leaf_node rsrc encoded_offset]\<rparr> else w1)
      else let directory_offset = without_bit encoded_offset in
      if \<not> has_range rsrc directory_offset 16 then w1
      else if directory_offset \<in> set (visited w1) then w1
      else fold (\<lambda>index. visit_directory rsrc (child_offset rsrc directory_offset index) (depth + 1))
             [0..<resource_entries rsrc directory_offset] (w1\<lparr>visited := directory_offset # visited w1\<rparr>))"
  by pat_completeness auto
termination
  by (relation "measure (\<lambda>(rsrc, encoded_offset, depth, w). 4 - depth)") auto

declare visit_directory.simps [simp del]

definition collect_leaf_resource_nodes :: "bytes \<Rightarrow> u32 \<Rightarrow> (u32 \<times> u32) list" where
  "collect_leaf_resource_nodes rsrc root_offset =
     resources (visit_directory rsrc root_offset 0 \<lparr>visits_left = kResourceVisitBudget, visited = [], resources = []\<rparr>)"

section \<open>Text\<close>

definition skip_blanks :: "string \<Rightarrow> nat \<Rightarrow> nat" where
  "skip_blanks xml i = i + length (takeWhile (\<lambda>c. c = CHR '' '' \<or> c = CHR 0x09) (drop i xml))"

definition extract_attribute_value :: "string \<Rightarrow> nat \<Rightarrow> string \<Rightarrow> string" where
  "extract_attribute_value xml start_pos attr_name =
     (case find_from xml attr_name start_pos of
        None \<Rightarrow> []
      | Some attr_pos \<Rightarrow>
          (case find_from xml ''='' (attr_pos + length attr_name) of
             None \<Rightarrow> []
           | Some eq_pos \<Rightarrow>
               if attr_pos + length attr_name + 2 < eq_pos then []
               else let val_start = skip_blanks xml (eq_pos + 1) in
               if length xml \<le> val_start then []
               else let quote = xml ! val_start in
               if quote \<noteq> CHR 0x22 \<and> quote \<noteq> CHR 0x27 then []
               else (case find_from xml [quote] (val_start + 1) of
                   None \<Rightarrow> []
                 | Some val_end \<Rightarrow> take (val_end - (val_start + 1)) (drop (val_start + 1) xml))))"

definition xml_space :: "char \<Rightarrow> bool" where
  "xml_space c \<longleftrightarrow> c = CHR '' '' \<or> c = CHR 0x09 \<or> c = CHR 0x0D \<or> c = CHR 0x0A"

definition strip_spaces :: "string \<Rightarrow> string" where
  "strip_spaces content = rev (dropWhile xml_space (rev (dropWhile xml_space content)))"

definition extract_tag_content :: "string \<Rightarrow> string \<Rightarrow> string" where
  "extract_tag_content xml tag_name =
     (let open_tag = ''<'' @ tag_name in
      case find_from xml open_tag 0 of
        None \<Rightarrow> []
      | Some tag_pos \<Rightarrow>
          (case find_from xml ''>'' (tag_pos + length open_tag) of
             None \<Rightarrow> []
           | Some close_bracket \<Rightarrow>
               if length xml - 1 \<le> close_bracket then []
               else if xml ! (close_bracket - 1) = CHR ''/'' then []
               else (case find_from xml (''</'' @ tag_name @ ''>'') (close_bracket + 1) of
                   None \<Rightarrow> []
                 | Some end_tag_pos \<Rightarrow>
                     strip_spaces (take (end_tag_pos - (close_bracket + 1)) (drop (close_bracket + 1) xml)))))"

text \<open>Each unit on its own, up to the first zero; what lies above two bytes of UTF-8 becomes a question mark.\<close>

definition utf8_of_unit :: "u16 \<Rightarrow> string" where
  "utf8_of_unit ch =
     (if ch < 0x80 then [char_of ch]
      else if ch < 0x800 then [char_of (0xC0 OR (drop_bit 6 ch AND 0x1F)), char_of (0x80 OR (ch AND 0x3F))]
      else ''?'')"

fun utf16le_to_utf8 :: "bytes \<Rightarrow> nat \<Rightarrow> nat \<Rightarrow> string" where
  "utf16le_to_utf8 bs offset 0 = []"
| "utf16le_to_utf8 bs offset (Suc length_chars) =
     (let ch = rd16 bs offset in
      if ch = 0 then [] else utf8_of_unit ch @ utf16le_to_utf8 bs (offset + 2) length_chars)"

definition standard_names :: "(u32 \<times> string) list" where
  "standard_names =
     [(1, ''cursor''), (2, ''bitmap''), (3, ''icon''), (4, ''menu''), (5, ''dialog''), (6, ''string''), (7, ''fontdir''),
      (8, ''font''), (9, ''accelerator''), (10, ''rcdata''), (11, ''messagetable''), (12, ''group_cursor''),
      (14, ''group_icon''), (16, ''version''), (17, ''dlginclude''), (19, ''plugplay''), (20, ''vxd''), (21, ''anicursor''),
      (22, ''aniicon''), (23, ''html''), (24, ''manifest'')]"

definition standard_resource_type_name :: "u32 \<Rightarrow> string" where
  "standard_resource_type_name type_id =
     (case map_of standard_names type_id of Some name \<Rightarrow> name | None \<Rightarrow> ''type_'' @ decimal type_id)"

section \<open>Manifests\<close>

record ManifestInfo =
  has_manifest :: bool
  requested_execution_level :: string
  ui_access :: string
  dpi_aware :: string
  supported_os :: "string list"

definition empty_manifest :: ManifestInfo where
  "empty_manifest = \<lparr>has_manifest = False, requested_execution_level = [], ui_access = [], dpi_aware = [], supported_os = []\<rparr>"

definition kSupportedOsMap :: "(string \<times> string) list" where
  "kSupportedOsMap =
     [(''8e0f7a12-bfb3-4fe8-b9a5-48fd50a15a9a'', ''Windows 10/11''),
      (''1f676c76-80e1-4239-95bb-83d0f6d0da78'', ''Windows 8.1''),
      (''4a2f28e3-53b9-4441-ba9c-d69d4a4a6e38'', ''Windows 8''),
      (''35138b9a-5d96-4fbd-8e2d-a2440225f93a'', ''Windows 7''),
      (''e2011457-1546-43c5-a5fe-008deee3d3f0'', ''Windows Vista'')]"

definition without_bom :: "string \<Rightarrow> string" where
  "without_bom xml =
     (if 3 \<le> length xml \<and> take 3 xml = [CHR 0xEF, CHR 0xBB, CHR 0xBF] then drop 3 xml else xml)"

definition parse_manifest_xml :: "string \<Rightarrow> ManifestInfo" where
  "parse_manifest_xml text =
     (if text = [] then empty_manifest
      else
        let xml = without_bom text;
            req = find_from xml ''requestedExecutionLevel'' 0;
            dpi_awareness = extract_tag_content xml ''dpiAwareness''
        in \<lparr>has_manifest = True,
            requested_execution_level = (case req of Some p \<Rightarrow> extract_attribute_value xml p ''level'' | None \<Rightarrow> []),
            ui_access = (case req of Some p \<Rightarrow> extract_attribute_value xml p ''uiAccess'' | None \<Rightarrow> []),
            dpi_aware = (if dpi_awareness \<noteq> [] then dpi_awareness else extract_tag_content xml ''dpiAware''),
            supported_os = map snd (filter (\<lambda>(guid, label). contains_ci xml guid) kSupportedOsMap)\<rparr>)"

section \<open>Version information\<close>

record ProductVersionInfo =
  has_version_info :: bool
  product_name :: string
  product_version :: string
  file_version :: string
  company_name :: string
  file_description :: string

definition empty_version :: ProductVersionInfo where
  "empty_version = \<lparr>has_version_info = False, product_name = [], product_version = [], file_version = [],
     company_name = [], file_description = []\<rparr>"

definition kFixedSig :: bytes where "kFixedSig = [0xBD, 0x04, 0xEF, 0xFE]"

definition version_text :: "u32 \<Rightarrow> u32 \<Rightarrow> string" where
  "version_text ms ls =
     decimal (drop_bit 16 ms) @ ''.'' @ decimal (ms AND 0xFFFF) @ ''.'' @ decimal (drop_bit 16 ls) @ ''.'' @ decimal (ls AND 0xFFFF)"

definition fixed_version :: "bytes \<Rightarrow> ProductVersionInfo" where
  "fixed_version version_data =
     (case find_from version_data kFixedSig 0 of
        None \<Rightarrow> empty_version
      | Some sig_offset \<Rightarrow>
          if sig_offset + 52 \<le> length version_data then
            let fv_ms = rd32 version_data (sig_offset + 8); fv_ls = rd32 version_data (sig_offset + 12);
                pv_ms = rd32 version_data (sig_offset + 16); pv_ls = rd32 version_data (sig_offset + 20)
            in empty_version\<lparr>has_version_info := True,
                 file_version := (if fv_ms \<noteq> 0 \<or> fv_ls \<noteq> 0 then version_text fv_ms fv_ls else []),
                 product_version := (if pv_ms \<noteq> 0 \<or> pv_ls \<noteq> 0 then version_text pv_ms pv_ls else [])\<rparr>
          else empty_version)"

definition key_bytes :: "string \<Rightarrow> bytes" where
  "key_bytes key_ascii = concat (map (\<lambda>c. [of_char c, 0]) key_ascii) @ [0, 0]"

definition kMaxChars :: nat where "kMaxChars = 256"

fun count_chars :: "bytes \<Rightarrow> nat \<Rightarrow> nat \<Rightarrow> nat" where
  "count_chars version_data pos 0 = 0"
| "count_chars version_data pos (Suc room) =
     (if pos + 1 < length version_data \<and> rd16 version_data pos \<noteq> 0
      then Suc (count_chars version_data (pos + 2) room) else 0)"

definition extract_utf16_val :: "bytes \<Rightarrow> string \<Rightarrow> string" where
  "extract_utf16_val version_data key_ascii =
     (case find_from version_data (key_bytes key_ascii) 0 of
        None \<Rightarrow> []
      | Some key_offset \<Rightarrow>
          let after_key = key_offset + length (key_bytes key_ascii);
              val_offset = (after_key + 3) div 4 * 4
          in if length version_data \<le> val_offset then []
             else let char_count = count_chars version_data val_offset kMaxChars in
               if char_count = 0 then [] else utf16le_to_utf8 version_data val_offset char_count)"

text \<open>A string that is found replaces what the result had.\<close>

definition with_string ::
  "bytes \<Rightarrow> string \<Rightarrow> (string \<Rightarrow> ProductVersionInfo \<Rightarrow> ProductVersionInfo) \<Rightarrow> ProductVersionInfo \<Rightarrow> ProductVersionInfo" where
  "with_string version_data key upd result =
     (let s = extract_utf16_val version_data key in
      if s \<noteq> [] then upd s (result\<lparr>has_version_info := True\<rparr>) else result)"

definition parse_version_info :: "bytes \<Rightarrow> ProductVersionInfo" where
  "parse_version_info version_data =
     (if length version_data < 40 then empty_version
      else
        (let r0 = fixed_version version_data;
             r1 = with_string version_data ''ProductName'' (\<lambda>s r. r\<lparr>product_name := s\<rparr>) r0;
             r2 = with_string version_data ''ProductVersion'' (\<lambda>s r. r\<lparr>product_version := s\<rparr>) r1;
             r3 = with_string version_data ''FileVersion'' (\<lambda>s r. r\<lparr>file_version := s\<rparr>) r2;
             r4 = with_string version_data ''CompanyName'' (\<lambda>s r. r\<lparr>company_name := s\<rparr>) r3
         in with_string version_data ''FileDescription'' (\<lambda>s r. r\<lparr>file_description := s\<rparr>) r4))"

section \<open>Inspection\<close>

definition resolve_resource_span :: "bytes \<Rightarrow> PeInfo \<Rightarrow> bytes option" where
  "resolve_resource_span file_bytes info =
     (let rva = resource_directory_rva info; sz = resource_directory_size info in
      if rva = 0 \<or> sz < 16 then None
      else if rva + sz \<le> size_of_headers info \<and> rva + sz \<le> length file_bytes then Some (take sz (drop rva file_bytes))
      else map_option (\<lambda>off. take sz (drop off file_bytes)) (section_file_offset file_bytes rva sz (sections info)))"

text \<open>As much of a range as the raw data of its section and the file hold; the first section decides.\<close>

fun span_in_sections :: "bytes \<Rightarrow> u32 \<Rightarrow> u32 \<Rightarrow> SectionInfo list \<Rightarrow> bytes" where
  "span_in_sections file_bytes rva len [] = []"
| "span_in_sections file_bytes rva len (sec # secs) =
     (if virtual_address sec \<le> rva \<and> rva < section_end sec then
        let delta = rva - virtual_address sec; file_offset = raw_data_pointer sec + delta in
        if delta < raw_data_size sec \<and> file_offset < length file_bytes then
          take (min len (min (raw_data_size sec - delta) (length file_bytes - file_offset))) (drop file_offset file_bytes)
        else []
      else span_in_sections file_bytes rva len secs)"

definition resolve_span_from_rva :: "bytes \<Rightarrow> PeInfo \<Rightarrow> u32 \<Rightarrow> u32 \<Rightarrow> bytes" where
  "resolve_span_from_rva file_bytes info rva len = span_in_sections file_bytes rva len (sections info)"

record ResourceTypeSummary =
  rt_type_id :: u32
  rt_type_name :: string
  rt_count :: u32

record ResourceInspectionResult =
  has_resources :: bool
  directory_rva :: u32
  directory_size :: u32
  rr_types :: "ResourceTypeSummary list"
  rr_manifest :: ManifestInfo
  rr_version_info :: ProductVersionInfo

definition kMaxManifestSize :: u32 where "kMaxManifestSize = 64 * 1024"
definition kMaxVersionSize :: u32 where "kMaxVersionSize = 64 * 1024"

definition named_type :: "bytes \<Rightarrow> u32 \<Rightarrow> string" where
  "named_type rsrc name_or_id =
     (let str_offset = without_bit name_or_id; str_len = rd16 rsrc str_offset;
          name = (if str_offset + 2 \<le> length rsrc \<and> str_offset + 2 + str_len * 2 \<le> length rsrc
                  then utf16le_to_utf8 rsrc (str_offset + 2) str_len else [])
      in if name = [] then ''named_resource'' else name)"

definition type_count :: "bytes \<Rightarrow> u32 \<Rightarrow> u32" where
  "type_count rsrc offset_to_data =
     (if directory_bit offset_to_data then
        let l2_offset = without_bit offset_to_data in
        if l2_offset + 16 \<le> length rsrc then rd16 rsrc (l2_offset + 12) + rd16 rsrc (l2_offset + 14) else 0
      else 1)"

text \<open>The loops over leaves, up to the first that has a manifest or version information.\<close>

fun manifest_from :: "bytes \<Rightarrow> PeInfo \<Rightarrow> (u32 \<times> u32) list \<Rightarrow> ManifestInfo \<Rightarrow> ManifestInfo" where
  "manifest_from file_bytes info [] m = m"
| "manifest_from file_bytes info ((data_rva, data_size) # nodes) m =
     (if data_size = 0 then manifest_from file_bytes info nodes m
      else let manifest_bytes = resolve_span_from_rva file_bytes info data_rva (min data_size kMaxManifestSize) in
      if manifest_bytes = [] then manifest_from file_bytes info nodes m
      else let m1 = parse_manifest_xml (chars_of manifest_bytes) in
      if has_manifest m1 then m1 else manifest_from file_bytes info nodes m1)"

fun version_from :: "bytes \<Rightarrow> PeInfo \<Rightarrow> (u32 \<times> u32) list \<Rightarrow> ProductVersionInfo \<Rightarrow> ProductVersionInfo" where
  "version_from file_bytes info [] v = v"
| "version_from file_bytes info ((data_rva, data_size) # nodes) v =
     (if data_size = 0 then version_from file_bytes info nodes v
      else let ver_bytes = resolve_span_from_rva file_bytes info data_rva (min data_size kMaxVersionSize) in
      if ver_bytes = [] then version_from file_bytes info nodes v
      else let v1 = parse_version_info ver_bytes in
      if has_version_info v1 then v1 else version_from file_bytes info nodes v1)"

definition inspect_entry :: "bytes \<Rightarrow> PeInfo \<Rightarrow> bytes \<Rightarrow> nat \<Rightarrow> nat \<Rightarrow> ResourceInspectionResult \<Rightarrow> ResourceInspectionResult" where
  "inspect_entry file_bytes info rsrc num_named i result =
     (let entry_offset = 16 + i * 8;
          name_or_id = rd32 rsrc entry_offset;
          offset_to_data = rd32 rsrc (entry_offset + 4);
          named = (i < num_named \<or> directory_bit name_or_id);
          type_id = (if named then 0 else name_or_id);
          type_name = (if named then named_type rsrc name_or_id else standard_resource_type_name type_id);
          result1 = result\<lparr>rr_types := rr_types result @
            [\<lparr>rt_type_id = type_id, rt_type_name = type_name, rt_count = type_count rsrc offset_to_data\<rparr>]\<rparr>
      in if type_id = 24 then
           result1\<lparr>rr_manifest := manifest_from file_bytes info (collect_leaf_resource_nodes rsrc offset_to_data) (rr_manifest result1)\<rparr>
         else if type_id = 16 then
           result1\<lparr>rr_version_info := version_from file_bytes info (collect_leaf_resource_nodes rsrc offset_to_data) (rr_version_info result1)\<rparr>
         else result1)"

definition no_resources_result :: "PeInfo \<Rightarrow> ResourceInspectionResult" where
  "no_resources_result info =
     \<lparr>has_resources = False, directory_rva = resource_directory_rva info, directory_size = resource_directory_size info,
      rr_types = [], rr_manifest = empty_manifest, rr_version_info = empty_version\<rparr>"

definition root_entries :: "bytes \<Rightarrow> nat option" where
  "root_entries rsrc =
     (let total_entries = rd16 rsrc 12 + rd16 rsrc 14 in
      if length rsrc < 16 then None
      else if total_entries = 0 \<or> 1024 < total_entries then None
      else if length rsrc < 16 + total_entries * 8 then None
      else Some total_entries)"

definition inspect_pe_resources :: "bytes \<Rightarrow> PeInfo \<Rightarrow> ResourceInspectionResult" where
  "inspect_pe_resources file_bytes info =
     (case resolve_resource_span file_bytes info of
        None \<Rightarrow> no_resources_result info
      | Some rsrc \<Rightarrow>
          (case root_entries rsrc of
             None \<Rightarrow> no_resources_result info
           | Some total_entries \<Rightarrow>
               fold (inspect_entry file_bytes info rsrc (rd16 rsrc 12)) [0..<total_entries]
                 ((no_resources_result info)\<lparr>has_resources := True\<rparr>)))"

text \<open>The first block with version information; if there is none, the first that is not empty.\<close>

fun version_block_in :: "bytes \<Rightarrow> PeInfo \<Rightarrow> (u32 \<times> u32) list \<Rightarrow> bytes \<Rightarrow> bytes + bytes" where
  "version_block_in file_bytes info [] candidate = Inr candidate"
| "version_block_in file_bytes info ((data_rva, data_size) # nodes) candidate =
     (if data_size = 0 then version_block_in file_bytes info nodes candidate
      else let ver_bytes = resolve_span_from_rva file_bytes info data_rva (min data_size kMaxVersionSize) in
      if ver_bytes = [] then version_block_in file_bytes info nodes candidate
      else if has_version_info (parse_version_info ver_bytes) then Inl ver_bytes
      else version_block_in file_bytes info nodes (if candidate = [] then ver_bytes else candidate))"

definition version_entry :: "bytes \<Rightarrow> PeInfo \<Rightarrow> bytes \<Rightarrow> nat \<Rightarrow> bytes \<Rightarrow> bytes + bytes" where
  "version_entry file_bytes info rsrc i candidate =
     (let entry_offset = 16 + i * 8 in
      if rd32 rsrc entry_offset = 16
      then version_block_in file_bytes info (collect_leaf_resource_nodes rsrc (rd32 rsrc (entry_offset + 4))) candidate
      else Inr candidate)"

definition extract_version_resource_bytes :: "bytes \<Rightarrow> PeInfo \<Rightarrow> bytes" where
  "extract_version_resource_bytes file_bytes info =
     (case resolve_resource_span file_bytes info of
        None \<Rightarrow> []
      | Some rsrc \<Rightarrow>
          (case root_entries rsrc of
             None \<Rightarrow> []
           | Some total_entries \<Rightarrow>
               (case foldE (version_entry file_bytes info rsrc) [0..<total_entries] [] of Inl b \<Rightarrow> b | Inr b \<Rightarrow> b)))"

end
