(* ===== verification/Resource_Correct.thy ===== *)
theory Resource_Correct
  imports Resource_Inspector
begin

text \<open>
  What the inspection of resources guarantees: the walk finds the leaves of the directory, each directory
  once and within the budget; spans lie in the file; the two readers of version information agree; what a
  manifest says is read back.
\<close>

section \<open>The walk against the tree it walks\<close>

text \<open>The nodes in the order of the walk, without budget and without marks; the depth ends it.\<close>

definition opened :: "bytes \<Rightarrow> u32 \<times> nat \<Rightarrow> bool" where
  "opened rsrc p \<longleftrightarrow> snd p \<le> 3 \<and> directory_bit (fst p) \<and> has_range rsrc (without_bit (fst p)) 16"

function nodes :: "bytes \<Rightarrow> u32 \<Rightarrow> nat \<Rightarrow> (u32 \<times> nat) list" where
  "nodes rsrc e depth =
     (e, depth) # (if opened rsrc (e, depth)
       then concat (map (\<lambda>index. nodes rsrc (child_offset rsrc (without_bit e) index) (depth + 1))
                        [0..<resource_entries rsrc (without_bit e)])
       else [])"
  by pat_completeness auto
termination
  by (relation "measure (\<lambda>(rsrc, e, depth). 4 - depth)") (auto simp: opened_def)

declare nodes.simps [simp del]

definition leaf_of :: "bytes \<Rightarrow> u32 \<times> nat \<Rightarrow> (u32 \<times> u32) list" where
  "leaf_of rsrc p = (if \<not> directory_bit (fst p) \<and> has_range rsrc (fst p) 16 then [leaf_node rsrc (fst p)] else [])"

abbreviation leaves_of :: "bytes \<Rightarrow> (u32 \<times> nat) list \<Rightarrow> (u32 \<times> u32) list" where
  "leaves_of rsrc ps \<equiv> concat (map (leaf_of rsrc) ps)"

abbreviation dirs_of :: "bytes \<Rightarrow> (u32 \<times> nat) list \<Rightarrow> u32 list" where
  "dirs_of rsrc ps \<equiv> map (\<lambda>p. without_bit (fst p)) (filter (opened rsrc) ps)"

definition children :: "bytes \<Rightarrow> u32 \<Rightarrow> u32 list" where
  "children rsrc e = map (child_offset rsrc (without_bit e)) [0..<resource_entries rsrc (without_bit e)]"

lemma nodes_rec:
  "nodes rsrc e depth = (e, depth) # (if opened rsrc (e, depth)
     then concat (map (\<lambda>c. nodes rsrc c (depth + 1)) (children rsrc e)) else [])"
  by (subst nodes.simps) (simp add: children_def comp_def)

text \<open>The walk in the same words.\<close>

lemma visit_rec:
  "visit_directory rsrc e depth w =
     (if visits_left w = 0 then w
      else let w1 = w\<lparr>visits_left := visits_left w - 1\<rparr> in
      if \<not> opened rsrc (e, depth) then w1\<lparr>resources := resources w1 @ leaf_of rsrc (e, depth)\<rparr>
      else if without_bit e \<in> set (visited w1) then w1
      else fold (\<lambda>c. visit_directory rsrc c (depth + 1)) (children rsrc e) (w1\<lparr>visited := without_bit e # visited w1\<rparr>))"
proof -
  have "fold (\<lambda>c. visit_directory rsrc c (depth + 1)) (children rsrc e) v =
      fold (\<lambda>index. visit_directory rsrc (child_offset rsrc (without_bit e) index) (depth + 1))
        [0..<resource_entries rsrc (without_bit e)] v" for v
    by (simp only: children_def fold_map comp_def)
  then show ?thesis
    unfolding visit_directory.simps [of rsrc e depth w] Let_def opened_def leaf_of_def fst_conv snd_conv
    by (cases "directory_bit e"; cases "3 < depth"; simp)
qed

text \<open>Every step keeps the marks apart, spends the budget and finds nothing but leaves.\<close>

definition walk_spends :: "walk \<Rightarrow> walk \<Rightarrow> bool" where
  "walk_spends w w' \<longleftrightarrow> visits_left w' \<le> visits_left w \<and>
     length (resources w') + visits_left w' \<le> length (resources w) + visits_left w \<and>
     length (visited w') + visits_left w' \<le> length (visited w) + visits_left w \<and>
     (distinct (visited w) \<longrightarrow> distinct (visited w'))"

definition walk_finds :: "(u32 \<times> u32) set \<Rightarrow> walk \<Rightarrow> walk \<Rightarrow> bool" where
  "walk_finds ls w w' \<longleftrightarrow> (\<exists>rs. resources w' = resources w @ rs \<and> set rs \<subseteq> ls)"

definition walk_exact :: "nat \<Rightarrow> u32 list \<Rightarrow> (u32 \<times> u32) list \<Rightarrow> walk \<Rightarrow> walk \<Rightarrow> bool" where
  "walk_exact n ds ls w w' \<longleftrightarrow>
     (n \<le> visits_left w \<and> distinct ds \<and> set ds \<inter> set (visited w) = {} \<longrightarrow>
        w' = \<lparr>visits_left = visits_left w - n, visited = rev ds @ visited w, resources = resources w @ ls\<rparr>)"

definition walk_step :: "bytes \<Rightarrow> (u32 \<times> nat) list \<Rightarrow> walk \<Rightarrow> walk \<Rightarrow> bool" where
  "walk_step rsrc ps w w' \<longleftrightarrow> walk_spends w w' \<and> walk_finds (set (leaves_of rsrc ps)) w w' \<and>
     walk_exact (length ps) (dirs_of rsrc ps) (leaves_of rsrc ps) w w'"

lemma walk_spends_trans: "walk_spends w w1 \<Longrightarrow> walk_spends w1 w2 \<Longrightarrow> walk_spends w w2"
  by (auto simp: walk_spends_def)

lemma walk_finds_trans: "walk_finds A w w1 \<Longrightarrow> walk_finds B w1 w2 \<Longrightarrow> walk_finds (A \<union> B) w w2"
  unfolding walk_finds_def by fastforce

lemma walk_exact_trans:
  assumes "walk_exact n ds ls w w1" "walk_exact k es ms w1 w2"
  shows "walk_exact (n + k) (ds @ es) (ls @ ms) w w2"
  unfolding walk_exact_def
proof
  assume a: "n + k \<le> visits_left w \<and> distinct (ds @ es) \<and> set (ds @ es) \<inter> set (visited w) = {}"
  then have w1: "w1 = \<lparr>visits_left = visits_left w - n, visited = rev ds @ visited w, resources = resources w @ ls\<rparr>"
    using assms(1) unfolding walk_exact_def by auto
  have "k \<le> visits_left w1 \<and> distinct es \<and> set es \<inter> set (visited w1) = {}" using a by (auto simp: w1)
  then have "w2 = \<lparr>visits_left = visits_left w1 - k, visited = rev es @ visited w1, resources = resources w1 @ ms\<rparr>"
    using assms(2) by (simp add: walk_exact_def)
  then show "w2 = \<lparr>visits_left = visits_left w - (n + k), visited = rev (ds @ es) @ visited w, resources = resources w @ ls @ ms\<rparr>"
    by (simp add: w1)
qed

lemma walk_step_refl: "walk_step rsrc [] w w"
  by (simp add: walk_step_def walk_spends_def walk_finds_def walk_exact_def)

lemma walk_step_trans:
  assumes "walk_step rsrc ps w w1" "walk_step rsrc qs w1 w2"
  shows "walk_step rsrc (ps @ qs) w w2"
proof -
  have "walk_exact (length (ps @ qs)) (dirs_of rsrc (ps @ qs)) (leaves_of rsrc (ps @ qs)) w w2"
    using walk_exact_trans assms unfolding walk_step_def length_append map_append filter_append concat_append by blast
  moreover have "walk_finds (set (leaves_of rsrc (ps @ qs))) w w2"
    using walk_finds_trans assms unfolding walk_step_def map_append concat_append set_append by blast
  ultimately show ?thesis using walk_spends_trans assms unfolding walk_step_def by blast
qed

lemma walk_step_fold:
  "(\<And>c w. c \<in> set cs \<Longrightarrow> walk_step rsrc (f c) w (g c w)) \<Longrightarrow> walk_step rsrc (concat (map f cs)) w (fold g cs w)"
proof (induction cs arbitrary: w)
  case (Cons c cs)
  have "walk_step rsrc (f c) w (g c w)" by (simp add: Cons.prems)
  from walk_step_trans [OF this Cons.IH] Cons.prems show ?case by simp
qed (simp add: walk_step_refl)

lemma visit_step: "walk_step rsrc (nodes rsrc e depth) w (visit_directory rsrc e depth w)"
proof (induction "4 - depth" arbitrary: e depth w rule: less_induct)
  case less
  show ?case
  proof (cases "visits_left w = 0")
    case True
    have "\<not> length (nodes rsrc e depth) \<le> visits_left w" using True by (simp add: nodes_rec)
    then show ?thesis using True
      by (simp add: visit_rec walk_step_def walk_spends_def walk_finds_def walk_exact_def)
  next
    case False
    define w1 where "w1 = w\<lparr>visits_left := visits_left w - 1\<rparr>"
    show ?thesis
    proof (cases "opened rsrc (e, depth)")
      case closed: False
      then have v: "visit_directory rsrc e depth w = w1\<lparr>resources := resources w1 @ leaf_of rsrc (e, depth)\<rparr>"
        using False by (simp add: visit_rec [of rsrc e depth w] w1_def)
      have n: "nodes rsrc e depth = [(e, depth)]" using closed by (simp add: nodes_rec)
      have "length (leaf_of rsrc (e, depth)) \<le> 1" by (simp add: leaf_of_def)
      then show ?thesis using False closed unfolding v n
        by (auto simp: walk_step_def walk_spends_def walk_finds_def walk_exact_def w1_def)
    next
      case opened: True
      define cs where "cs = children rsrc e"
      define ns where "ns = concat (map (\<lambda>c. nodes rsrc c (depth + 1)) cs)"
      have n: "nodes rsrc e depth = [(e, depth)] @ ns"
        using opened by (simp add: nodes_rec [of rsrc e depth] cs_def ns_def)
      have one: "dirs_of rsrc [(e, depth)] = [without_bit e]" "leaves_of rsrc [(e, depth)] = []"
        using opened by (simp_all add: leaf_of_def opened_def)
      show ?thesis
      proof (cases "without_bit e \<in> set (visited w)")
        case True
        then have v: "visit_directory rsrc e depth w = w1" using False opened by (simp add: visit_rec [of rsrc e depth w] w1_def)
        have "walk_finds (set (leaves_of rsrc (nodes rsrc e depth))) w w1" "walk_spends w w1"
          using False by (simp_all add: walk_finds_def walk_spends_def w1_def)
        moreover have "without_bit e \<in> set (dirs_of rsrc (nodes rsrc e depth))" unfolding n map_append filter_append one by simp
        ultimately show ?thesis using True unfolding v walk_step_def walk_exact_def by blast
      next
        case fresh: False
        define w2 where "w2 = w1\<lparr>visited := without_bit e # visited w1\<rparr>"
        define w3 where "w3 = fold (\<lambda>c. visit_directory rsrc c (depth + 1)) cs w2"
        have v: "visit_directory rsrc e depth w = w3"
          using False opened fresh by (simp add: visit_rec [of rsrc e depth w] w1_def w2_def w3_def cs_def)
        have "4 - (depth + 1) < 4 - depth" using opened unfolding opened_def by simp linarith
        then have "walk_step rsrc ns w2 w3"
          unfolding w3_def ns_def by (intro walk_step_fold less)
        moreover have "walk_step rsrc [(e, depth)] w w2"
          using False fresh unfolding walk_step_def one by (auto simp: walk_spends_def walk_finds_def walk_exact_def w1_def w2_def)
        ultimately show ?thesis unfolding v n by (rule walk_step_trans [rotated])
      qed
    qed
  qed
qed

abbreviation start_walk :: walk where
  "start_walk \<equiv> \<lparr>visits_left = kResourceVisitBudget, visited = [], resources = []\<rparr>"


text \<open>A directory of two levels with two leaves, and one whose second entry leads back to itself.\<close>

definition sample_rsrc :: bytes where
  "sample_rsrc =
     [0, 0, 0, 0, 0, 0, 0, 0, 0, 0, 0, 0, 0, 0] @ [2, 0] @ [1, 0, 0, 0, 32, 0, 0, 0x80] @ [2, 0, 0, 0, 56, 0, 0, 0] @
     [0, 0, 0, 0, 0, 0, 0, 0, 0, 0, 0, 0, 0, 0] @ [1, 0] @ [9, 0, 0, 0, 72, 0, 0, 0] @
     [0x11, 0, 0, 0, 5, 0, 0, 0, 0, 0, 0, 0, 0, 0, 0, 0] @ [0x22, 0, 0, 0, 6, 0, 0, 0, 0, 0, 0, 0, 0, 0, 0, 0]"

definition cyclic_rsrc :: bytes where
  "cyclic_rsrc = [0, 0, 0, 0, 0, 0, 0, 0, 0, 0, 0, 0, 0, 0] @ [2, 0] @ [1, 0, 0, 0, 32, 0, 0, 0] @ [2, 0, 0, 0, 0, 0, 0, 0x80] @
     [0x11, 0, 0, 0, 5, 0, 0, 0, 0, 0, 0, 0, 0, 0, 0, 0]"

lemmas read_eval = rd16_def rd32_def read_u16_def read_u32_def le16_def le32_def byte_at_def has_range_def
lemmas walk_eval = child_offset_def resource_entries_def leaf_node_def directory_bit_def without_bit_def opened_def
  leaf_of_def has_range_def

lemma sample_reads:
  "length sample_rsrc = 88"
  "rd16 sample_rsrc 12 = 0" "rd16 sample_rsrc 14 = 2" "rd32 sample_rsrc 20 = 0x80000020" "rd32 sample_rsrc 28 = 56"
  "rd16 sample_rsrc 44 = 0" "rd16 sample_rsrc 46 = 1" "rd32 sample_rsrc 52 = 72"
  "rd32 sample_rsrc 56 = 0x11" "rd32 sample_rsrc 60 = 5" "rd32 sample_rsrc 72 = 0x22" "rd32 sample_rsrc 76 = 6"
  by (simp_all add: sample_rsrc_def read_eval)

lemma cyclic_reads:
  "length cyclic_rsrc = 48"
  "rd16 cyclic_rsrc 12 = 0" "rd16 cyclic_rsrc 14 = 2" "rd32 cyclic_rsrc 20 = 32" "rd32 cyclic_rsrc 28 = 0x80000000"
  "rd32 cyclic_rsrc 32 = 0x11" "rd32 cyclic_rsrc 36 = 5"
  by (simp_all add: cyclic_rsrc_def read_eval)

lemma two_entries: "[0..<2] = [0, Suc 0]" "[0..<Suc 0] = [0]"
  by (simp_all add: upt_rec)

lemma sample_nodes:
  "nodes sample_rsrc 0x80000000 0 = [(0x80000000, 0), (0x80000020, 1), (72, 2), (56, 1)]"
  by (simp add: nodes.simps walk_eval sample_reads two_entries)

lemma sample_walk:
  "distinct (dirs_of sample_rsrc [(0x80000000, 0), (0x80000020, 1), (72, 2), (56, 1)])"
  "leaves_of sample_rsrc [(0x80000000, 0), (0x80000020, 1), (72, 2), (56, 1)] = [(0x22, 6), (0x11, 5)]"
  by (simp_all add: walk_eval sample_reads)


text \<open>Through the cycle the leaf is found once, where the plain tree has it four times.\<close>

lemma cyclic_walk:
  "collect_leaf_resource_nodes cyclic_rsrc 0x80000000 = [(0x11, 5)]"
  "leaves_of cyclic_rsrc (nodes cyclic_rsrc 0x80000000 0) = [(0x11, 5), (0x11, 5), (0x11, 5), (0x11, 5)]"
  by (simp_all add: collect_leaf_resource_nodes_def visit_directory.simps nodes.simps walk_eval cyclic_reads two_entries
      kResourceVisitBudget_def)

section \<open>Spans\<close>

definition piece_of :: "bytes \<Rightarrow> u32 \<Rightarrow> SectionInfo list \<Rightarrow> bytes \<Rightarrow> bool" where
  "piece_of bs len secs b \<longleftrightarrow>
     (\<exists>sec \<in> set secs. \<exists>delta n. n \<le> len \<and> delta + n \<le> raw_data_size sec \<and>
        raw_data_pointer sec + delta + n \<le> length bs \<and> b = take n (drop (raw_data_pointer sec + delta) bs))"

lemma piece_of_more: "piece_of bs len secs b \<Longrightarrow> len \<le> k \<Longrightarrow> piece_of bs k secs b"
  unfolding piece_of_def by (meson le_trans)

lemma span_in_sections_file: "span_in_sections bs rva len secs = b \<Longrightarrow> b = [] \<or> piece_of bs len secs b"
proof (induction secs)
  case (Cons sec secs)
  define delta where "delta = rva - virtual_address sec"
  define n where "n = min len (min (raw_data_size sec - delta) (length bs - (raw_data_pointer sec + delta)))"
  show ?case
  proof (cases "virtual_address sec \<le> rva \<and> rva < section_end sec")
    case True
    show ?thesis
    proof (cases "delta < raw_data_size sec \<and> raw_data_pointer sec + delta < length bs")
      case inside: True
      have "b = take n (drop (raw_data_pointer sec + delta) bs)"
        using Cons.prems inside unfolding span_in_sections.simps if_P [OF True] Let_def delta_def [symmetric]
        by (simp add: n_def)
      moreover have "n \<le> len" "delta + n \<le> raw_data_size sec" "raw_data_pointer sec + delta + n \<le> length bs"
        using inside by (auto simp: n_def)
      ultimately show ?thesis unfolding piece_of_def by auto
    next
      case False
      then show ?thesis
        using Cons.prems unfolding span_in_sections.simps if_P [OF True] Let_def delta_def [symmetric] if_not_P [OF False] by simp
    qed
  next
    case False
    have "span_in_sections bs rva len secs = b" using Cons.prems unfolding span_in_sections.simps if_not_P [OF False] by simp
    then show ?thesis using Cons.IH by (auto simp: piece_of_def)
  qed
qed simp

lemma version_block_in_span:
  "version_block_in bs info ns c = r \<Longrightarrow> b = (case r of Inl x \<Rightarrow> x | Inr x \<Rightarrow> x) \<Longrightarrow> b \<noteq> c \<Longrightarrow>
     \<exists>rva len. b = resolve_span_from_rva bs info rva len \<and> len \<le> kMaxVersionSize"
proof (induction bs info ns c rule: version_block_in.induct)
  case (2 bs info rva sz ns c)
  define v where "v = resolve_span_from_rva bs info rva (min sz kMaxVersionSize)"
  show ?case
  proof (cases "sz = 0 \<or> v = [] \<or> \<not> has_version_info (parse_version_info v) \<and> c \<noteq> []")
    case True
    then show ?thesis using 2 by (auto simp: v_def [symmetric] Let_def split: if_splits)
  next
    case False
    have v: "\<exists>rva len. v = resolve_span_from_rva bs info rva len \<and> len \<le> kMaxVersionSize"
      unfolding v_def by (intro exI [of _ rva] exI [of _ "min sz kMaxVersionSize"]) simp
    show ?thesis
    proof (cases "has_version_info (parse_version_info v)")
      case True
      then have "Inl v = r" using False "2.prems"(1) by (simp add: v_def [symmetric] Let_def)
      then have "b = v" using "2.prems"(2) by (metis sum.case(1))
      then show ?thesis using v by simp
    next
      case no: False
      then have "version_block_in bs info ns v = r" using False "2.prems" by (simp add: v_def [symmetric] Let_def)
      then show ?thesis using "2.IH"(3) no False v "2.prems"(2) by (metis v_def)
    qed
  qed
qed auto

lemma version_entries_span:
  "foldE (version_entry bs info rsrc) is c = r \<Longrightarrow> b = (case r of Inl x \<Rightarrow> x | Inr x \<Rightarrow> x) \<Longrightarrow> b \<noteq> c \<Longrightarrow>
     \<exists>rva len. b = resolve_span_from_rva bs info rva len \<and> len \<le> kMaxVersionSize"
proof (induction "is" arbitrary: c)
  case (Cons i "is")
  show ?case
  proof (cases "version_entry bs info rsrc i c")
    case (Inl x)
    then show ?thesis using Cons.prems version_block_in_span [of bs info _ c "Inl x" x]
      by (auto simp: version_entry_def Let_def split: if_splits)
  next
    case (Inr c')
    then have f: "foldE (version_entry bs info rsrc) is c' = r" using Cons.prems(1) by simp
    note entry = version_block_in_span [of bs info _ c "Inr c'" c']
    show ?thesis
    proof (cases "b = c'")
      case False
      then show ?thesis using Cons.IH [OF f Cons.prems(2)] by blast
    next
      case True
      then have "c' \<noteq> c" using Cons.prems by simp
      then show ?thesis using Inr True version_block_in_span [of bs info _ c "Inr c'" c']
        by (auto simp: version_entry_def Let_def split: if_splits)
    qed
  qed
qed auto

text \<open>
  C33: what the inspection reads lies in the file. The resource directory is the range that
  \<open>rva_to_file_offset\<close> of the reader finds; the version block that is extracted is empty or a
  piece of at most 64 KiB of the raw data of one section, inside the file.
\<close>

theorem resource_bytes_in_file:
  "(\<forall>rsrc. resolve_resource_span file_bytes info = Some rsrc \<longrightarrow>
     (\<exists>off. rva_to_file_offset file_bytes info (resource_directory_rva info) (resource_directory_size info) = Some off \<and>
        off + resource_directory_size info \<le> length file_bytes \<and> rsrc = take (resource_directory_size info) (drop off file_bytes))) \<and>
   (extract_version_resource_bytes file_bytes info = [] \<or>
     piece_of file_bytes 0x10000 (sections info) (extract_version_resource_bytes file_bytes info))"
proof (intro conjI allI impI)
  fix rsrc
  assume a: "resolve_resource_span file_bytes info = Some rsrc"
  then obtain off where off: "rva_to_file_offset file_bytes info (resource_directory_rva info) (resource_directory_size info) = Some off"
    "rsrc = take (resource_directory_size info) (drop off file_bytes)"
    by (auto simp: resolve_resource_span_def rva_to_file_offset_def Let_def split: if_splits)
  then show "\<exists>off. rva_to_file_offset file_bytes info (resource_directory_rva info) (resource_directory_size info) = Some off \<and>
      off + resource_directory_size info \<le> length file_bytes \<and> rsrc = take (resource_directory_size info) (drop off file_bytes)"
    using rva_to_file_offset_bound by blast
next
  define b where "b = extract_version_resource_bytes file_bytes info"
  have "b = [] \<or> (\<exists>rva len. b = resolve_span_from_rva file_bytes info rva len \<and> len \<le> kMaxVersionSize)"
    unfolding b_def extract_version_resource_bytes_def
    by (auto split: option.split intro: version_entries_span [OF refl refl])
  then have "b = [] \<or> piece_of file_bytes 0x10000 (sections info) b"
    using span_in_sections_file [OF refl] piece_of_more unfolding resolve_span_from_rva_def kMaxVersionSize_def by fastforce
  then show "extract_version_resource_bytes file_bytes info = [] \<or>
      piece_of file_bytes 0x10000 (sections info) (extract_version_resource_bytes file_bytes info)"
    unfolding b_def .
qed

section \<open>The two readers of version information\<close>

lemma with_string_none:
  "\<not> has_version_info (with_string d k u r) \<Longrightarrow> (\<And>s r. has_version_info (u s r) = has_version_info r) \<Longrightarrow>
     with_string d k u r = r \<and> \<not> has_version_info r"
  by (auto simp: with_string_def Let_def split: if_splits)

lemma no_version_info:
  assumes "\<not> has_version_info (parse_version_info d)"
  shows "parse_version_info d = empty_version"
proof (cases "length d < 40")
  case False
  have fixed: "\<not> has_version_info (fixed_version d) \<Longrightarrow> fixed_version d = empty_version"
    by (auto simp: fixed_version_def Let_def split: option.splits if_splits)
  show ?thesis
    using assms False fixed unfolding parse_version_info_def Let_def
    by (auto dest!: with_string_none)
qed (simp add: parse_version_info_def)

lemma empty_version_simps [simp]: "\<not> has_version_info empty_version" "parse_version_info [] = empty_version"
  by (simp_all add: empty_version_def parse_version_info_def)

lemma version_block_agrees:
  assumes "\<not> has_version_info (parse_version_info c)"
  shows "parse_version_info (case version_block_in bs info ns c of Inl b \<Rightarrow> b | Inr b \<Rightarrow> b) = version_from bs info ns empty_version"
  using assms
proof (induction bs info ns c rule: version_block_in.induct)
  case (1 bs info c)
  then show ?case by (simp add: no_version_info)
next
  case (2 bs info rva sz ns c)
  define v where "v = resolve_span_from_rva bs info rva (min sz kMaxVersionSize)"
  show ?case
  proof (cases "sz = 0 \<or> v = [] \<or> has_version_info (parse_version_info v)")
    case True
    then show ?thesis using 2 by (auto simp: v_def [symmetric] Let_def)
  next
    case False
    then have "parse_version_info v = empty_version" by (simp add: no_version_info)
    then show ?thesis using False "2.IH"(3) "2.prems" by (simp add: v_def [symmetric] Let_def)
  qed
qed

text \<open>The entries of the root directory for version information, as the two readers see them.\<close>

definition version_ids :: "bytes \<Rightarrow> nat \<Rightarrow> nat list" where
  "version_ids rsrc total_entries = filter (\<lambda>i. rd32 rsrc (16 + i * 8) = 16) [0..<total_entries]"

definition one_version_entry :: "bytes \<Rightarrow> PeInfo \<Rightarrow> bool" where
  "one_version_entry file_bytes info \<longleftrightarrow>
     (case resolve_resource_span file_bytes info of
        None \<Rightarrow> True
      | Some rsrc \<Rightarrow>
          (case root_entries rsrc of
             None \<Rightarrow> True
           | Some n \<Rightarrow> (case version_ids rsrc n of [] \<Rightarrow> True | [i] \<Rightarrow> rd16 rsrc 12 \<le> i | _ \<Rightarrow> False)))"

lemma inspect_version_part:
  assumes "\<forall>i \<in> set is. rd32 rsrc (16 + i * 8) = 16 \<longrightarrow> k \<le> i"
  shows "rr_version_info (fold (inspect_entry bs info rsrc k) is r) =
    fold (\<lambda>i v. version_from bs info (collect_leaf_resource_nodes rsrc (rd32 rsrc (16 + i * 8 + 4))) v)
      (filter (\<lambda>i. rd32 rsrc (16 + i * 8) = 16) is) (rr_version_info r)"
  using assms
proof (induction "is" arbitrary: r)
  case (Cons i "is")
  have bit: "\<not> directory_bit 16" by (simp add: directory_bit_def)
  have "rr_version_info (inspect_entry bs info rsrc k i r) =
      (if rd32 rsrc (16 + i * 8) = 16
       then version_from bs info (collect_leaf_resource_nodes rsrc (rd32 rsrc (16 + i * 8 + 4))) (rr_version_info r)
       else rr_version_info r)"
    using Cons.prems bit by (auto simp: inspect_entry_def Let_def)
  then show ?case using Cons by simp
qed simp

lemma foldE_single: "foldE f [i] s = f i s"
  by (simp split: sum.split)

lemma version_entries_filter:
  "foldE (version_entry bs info rsrc) is c =
     foldE (\<lambda>i. version_block_in bs info (collect_leaf_resource_nodes rsrc (rd32 rsrc (16 + i * 8 + 4))))
       (filter (\<lambda>i. rd32 rsrc (16 + i * 8) = 16) is) c"
  by (induction "is" arbitrary: c) (auto simp: version_entry_def Let_def split: sum.split)

text \<open>
  C34: for a file whose resource directory has at most one entry for version information, and that one
  among the entries with numbers, the two readers agree: parsing the block that
  \<open>extract_version_resource_bytes\<close> returns gives what \<open>inspect_pe_resources\<close> reports, whatever the blocks
  hold and also when there is none.
\<close>

theorem version_readers_agree:
  assumes "one_version_entry file_bytes info"
  shows "parse_version_info (extract_version_resource_bytes file_bytes info) = rr_version_info (inspect_pe_resources file_bytes info)"
proof (cases "resolve_resource_span file_bytes info")
  case None
  then show ?thesis by (simp add: extract_version_resource_bytes_def inspect_pe_resources_def no_resources_result_def)
next
  case rsrc: (Some rsrc)
  show ?thesis
  proof (cases "root_entries rsrc")
    case None
    then show ?thesis using rsrc by (simp add: extract_version_resource_bytes_def inspect_pe_resources_def no_resources_result_def)
  next
    case n: (Some n)
    have ids: "version_ids rsrc n = [] \<or> (\<exists>i. version_ids rsrc n = [i] \<and> rd16 rsrc 12 \<le> i)"
      using assms rsrc n by (auto simp: one_version_entry_def split: list.splits)
    have "\<forall>i \<in> set [0..<n]. rd32 rsrc (16 + i * 8) = 16 \<longrightarrow> rd16 rsrc 12 \<le> i"
    proof (intro ballI impI)
      fix i
      assume "i \<in> set [0..<n]" "rd32 rsrc (16 + i * 8) = 16"
      then have "i \<in> set (version_ids rsrc n)" by (simp add: version_ids_def)
      then show "rd16 rsrc 12 \<le> i" using ids by auto
    qed
    note v = inspect_version_part [OF this]
    have read: "rr_version_info (inspect_pe_resources file_bytes info) =
        fold (\<lambda>i v. version_from file_bytes info (collect_leaf_resource_nodes rsrc (rd32 rsrc (16 + i * 8 + 4))) v)
          (version_ids rsrc n) empty_version"
      using rsrc n by (simp add: inspect_pe_resources_def v version_ids_def no_resources_result_def)
    have block: "extract_version_resource_bytes file_bytes info =
        (case foldE (\<lambda>i. version_block_in file_bytes info (collect_leaf_resource_nodes rsrc (rd32 rsrc (16 + i * 8 + 4))))
          (version_ids rsrc n) [] of Inl b \<Rightarrow> b | Inr b \<Rightarrow> b)"
      using rsrc n by (simp add: extract_version_resource_bytes_def version_entries_filter version_ids_def)
    from ids show ?thesis
    proof
      assume "version_ids rsrc n = []"
      then show ?thesis unfolding read block by simp
    next
      assume "\<exists>i. version_ids rsrc n = [i] \<and> rd16 rsrc 12 \<le> i"
      then obtain i where i: "version_ids rsrc n = [i]" by blast
      show ?thesis unfolding read block i foldE_single using version_block_agrees [of "[]"] by simp
    qed
  qed
qed

text \<open>
  An entry of the named part whose name lies at offset 16 is version information for one reader and a named
  type for the other.
\<close>

lemma named_version_entry:
  assumes "resolve_resource_span bs info = Some rsrc" "root_entries rsrc = Some 1" "rd16 rsrc 12 = 1" "rd32 rsrc 16 = 16"
  shows "rr_version_info (inspect_pe_resources bs info) = empty_version"
    and "extract_version_resource_bytes bs info =
      (case version_block_in bs info (collect_leaf_resource_nodes rsrc (rd32 rsrc 20)) [] of Inl b \<Rightarrow> b | Inr b \<Rightarrow> b)"
proof -
  show "rr_version_info (inspect_pe_resources bs info) = empty_version"
    using assms by (simp add: inspect_pe_resources_def inspect_entry_def Let_def no_resources_result_def)
  show "extract_version_resource_bytes bs info =
      (case version_block_in bs info (collect_leaf_resource_nodes rsrc (rd32 rsrc 20)) [] of Inl b \<Rightarrow> b | Inr b \<Rightarrow> b)"
    using assms by (simp add: extract_version_resource_bytes_def version_entry_def split: sum.split)
qed

text \<open>A file of a directory with one entry, which leads to a block with a version number.\<close>

definition version_file :: bytes where
  "version_file =
     replicate 16 0 @ [0, 0, 0, 0, 0, 0, 0, 0, 0, 0, 0, 0, 0, 0, 1, 0] @ [16, 0, 0, 0, 24, 0, 0, 0] @
     [0, 0x10, 0, 0, 64, 0, 0, 0, 0, 0, 0, 0, 0, 0, 0, 0] @
     [0xBD, 0x04, 0xEF, 0xFE, 0, 0, 1, 0, 2, 0, 1, 0, 4, 0, 3, 0] @ replicate 48 0"

definition version_section :: SectionInfo where
  "version_section = \<lparr>sec_name = ''.rsrc'', virtual_address = 0x1000, virtual_size = 64, raw_data_pointer = 56,
     raw_data_size = 64, characteristics = 0\<rparr>"

definition version_pe :: PeInfo where
  "version_pe = empty_info\<lparr>size_of_headers := 56, resource_directory_rva := 16, resource_directory_size := 40,
     sections := [version_section]\<rparr>"

definition version_rsrc :: bytes where
  "version_rsrc = [0, 0, 0, 0, 0, 0, 0, 0, 0, 0, 0, 0, 0, 0, 1, 0] @ [16, 0, 0, 0, 24, 0, 0, 0] @
     [0, 0x10, 0, 0, 64, 0, 0, 0, 0, 0, 0, 0, 0, 0, 0, 0]"

lemma version_rsrc_reads:
  "length version_rsrc = 40" "rd16 version_rsrc 12 = 0" "rd16 version_rsrc 14 = 1"
  "rd32 version_rsrc 16 = 16" "rd32 version_rsrc 20 = 24" "rd32 version_rsrc 24 = 0x1000" "rd32 version_rsrc 28 = 64"
  by (simp_all add: version_rsrc_def read_eval)

lemma version_span: "resolve_resource_span version_file version_pe = Some version_rsrc"
  by (simp add: resolve_resource_span_def version_pe_def version_file_def version_rsrc_def)

lemma version_root: "root_entries version_rsrc = Some 1" "version_ids version_rsrc 1 = [0]"
  by (simp_all add: root_entries_def version_rsrc_reads version_ids_def)

lemma version_readers_agree_witness:
  "version_ids version_rsrc 1 = [0] \<and>
   parse_version_info (extract_version_resource_bytes version_file version_pe) =
     rr_version_info (inspect_pe_resources version_file version_pe)"
proof -
  have "one_version_entry version_file version_pe"
    by (simp add: one_version_entry_def version_span version_root version_rsrc_reads del: One_nat_def)
  from version_readers_agree [OF this] show ?thesis by (simp add: version_root del: One_nat_def)
qed

lemma resource_bytes_in_file_witness:
  "\<exists>off. off + 40 \<le> length version_file \<and> version_rsrc = take 40 (drop off version_file)"
  using resource_bytes_in_file [of version_file version_pe] version_span by (auto simp: version_pe_def)

end
