(* ===== verification/Resource_Manifest.thy ===== *)
theory Resource_Manifest
  imports Resource_Correct
begin

text \<open>
  The manifest and the version strings read back: what a program writes into an execution level and into
  the strings of its version is what the parser returns.
\<close>

section \<open>The first occurrence\<close>

fun locate :: "'a list \<Rightarrow> 'a list \<Rightarrow> nat option" where
  "locate needle [] = (if needle = [] then Some 0 else None)"
| "locate needle (c # cs) =
     (if take (length needle) (c # cs) = needle then Some 0 else map_option Suc (locate needle cs))"

lemma find_mapped: "find P (map f xs) = map_option f (find (\<lambda>x. P (f x)) xs)"
  by (induction xs) auto

lemma occurs_at_shift: "occurs_at needle (c # hay) (Suc i) = occurs_at needle hay i"
  "occurs_at needle hay (i + k) = occurs_at needle (drop k hay) i"
  by (simp_all add: occurs_at_def)

lemma find_from_start: "find_from hay needle 0 = locate needle hay"
proof (induction hay)
  case Nil
  then show ?case by (auto simp: find_from_def occurs_at_def)
next
  case (Cons c hay)
  have "[0..<Suc (length (c # hay))] = 0 # map Suc [0..<Suc (length hay)]"
    by (simp add: map_Suc_upt upt_conv_Cons del: upt_Suc)
  then have "find_from (c # hay) needle 0 =
      (if occurs_at needle (c # hay) 0 then Some 0
       else map_option Suc (find (\<lambda>i. occurs_at needle (c # hay) (Suc i)) [0..<Suc (length hay)]))"
    unfolding find_from_def by (simp add: find_mapped del: upt_Suc)
  moreover have "find (\<lambda>i. occurs_at needle (c # hay) (Suc i)) [0..<Suc (length hay)] = find_from hay needle 0"
    by (simp add: find_from_def occurs_at_shift(1) del: upt_Suc)
  ultimately show ?case using Cons.IH by (simp add: occurs_at_def)
qed

lemma find_from_locate:
  assumes "k \<le> length hay"
  shows "find_from hay needle k = map_option ((+) k) (locate needle (drop k hay))"
proof -
  have "[k..<Suc (length hay)] = map (\<lambda>i. i + k) [0..<Suc (length (drop k hay))]"
    using assms by (simp add: map_add_upt Suc_diff_le [symmetric] del: upt_Suc)
  then have "find_from hay needle k =
      map_option (\<lambda>i. i + k) (find (\<lambda>i. occurs_at needle hay (i + k)) [0..<Suc (length (drop k hay))])"
    unfolding find_from_def by (simp add: find_mapped del: upt_Suc)
  also have "find (\<lambda>i. occurs_at needle hay (i + k)) [0..<Suc (length (drop k hay))] = find_from (drop k hay) needle 0"
    by (simp only: find_from_def occurs_at_shift(2))
  finally show ?thesis by (simp add: find_from_start add.commute [of _ k])
qed

text \<open>A text without the needle, and then a character the needle does not have: nothing is found before it.\<close>

lemma locate_skip:
  assumes "locate needle ls = None" "c \<notin> set needle"
  shows "locate needle (ls @ c # rest) = map_option ((+) (Suc (length ls))) (locate needle rest)"
  using assms
proof (induction ls)
  case Nil
  then have "needle \<noteq> []" by auto
  then have "take (length needle) (c # rest) \<noteq> needle"
    using Nil(2) by (cases needle) auto
  then show ?case by (auto simp: map_option_case split: option.split)
next
  case (Cons a ls)
  have ih: "locate needle ls = None" "take (length needle) (a # ls) \<noteq> needle" using Cons.prems(1) by (auto split: if_splits)
  have "take (length needle) ((a # ls) @ c # rest) \<noteq> needle"
  proof
    assume eq: "take (length needle) ((a # ls) @ c # rest) = needle"
    show False
    proof (cases "length needle \<le> length (a # ls)")
      case True
      then have "take (length needle) ((a # ls) @ c # rest) = take (length needle) (a # ls)"
        by (subst take_append) simp
      then show ?thesis using eq ih(2) by simp
    next
      case False
      then have "c \<in> set (take (length needle) ((a # ls) @ c # rest))" by (auto simp: take_Cons' not_le)
      then show ?thesis using eq Cons.prems(2) by simp
    qed
  qed
  then show ?case using Cons.IH [OF ih(1) Cons.prems(2)] by (auto simp: map_option_case split: option.split)
qed

lemma locate_char: "q \<notin> set v \<Longrightarrow> locate [q] (v @ q # rest) = Some (length v)"
  by (induction v) auto

section \<open>Attributes\<close>

lemma attribute_read:
  assumes "find_from xml attr s = Some p" "drop p xml = attr @ ''='' @ q # v @ q # rest"
    and "q = CHR 0x22 \<or> q = CHR 0x27" "q \<notin> set v"
  shows "extract_attribute_value xml s attr = v"
proof -
  have len: "p + length attr < length xml"
  proof -
    have "length (drop p xml) = length attr + (3 + length v + length rest)" using assms(2) by simp
    then show ?thesis by simp
  qed
  have at: "drop (p + length attr) xml = ''='' @ q # v @ q # rest"
    using assms(2) by (metis add.commute append_eq_conv_conj drop_drop)
  then have after: "drop (p + length attr + 1) xml = q # v @ q # rest"
    by (metis (no_types, opaque_lifting) One_nat_def append_Cons append_Nil drop_Suc_Cons drop0 drop_drop add.commute)
  have eq: "find_from xml ''='' (p + length attr) = Some (p + length attr)"
    using len at by (simp add: find_from_locate)
  have start: "skip_blanks xml (p + length attr + 1) = p + length attr + 1"
    using assms(3) unfolding skip_blanks_def after by auto
  have inside: "p + length attr + 1 < length xml" using arg_cong [OF after, of length] by simp
  then have nth: "xml ! (p + length attr + 1) = q" using after by (metis hd_drop_conv_nth list.sel(1))
  have tail: "drop (p + length attr + 2) xml = v @ q # rest"
    using after by (metis Suc_1 add_Suc_right drop_Suc tl_drop list.sel(3) Suc_eq_plus1 add.assoc one_add_one)
  have "find_from xml [q] (p + length attr + 2) = Some (p + length attr + 2 + length v)"
    using inside tail assms(4) by (simp add: find_from_locate locate_char)
  then show ?thesis
    using assms(1,3) eq start inside nth tail
    by (auto simp: extract_attribute_value_def Let_def)
qed

section \<open>The execution level\<close>

definition level_key :: string where "level_key = ''requestedExecutionLevel''"

text \<open>The element as manifests have it, with either kind of quotes.\<close>

definition level_element :: "char \<Rightarrow> string \<Rightarrow> string \<Rightarrow> string" where
  "level_element q lv ui = level_key @ '' level='' @ q # lv @ q # '' uiAccess='' @ q # ui @ [q]"

lemma level_in_element:
  "q = CHR 0x22 \<or> q = CHR 0x27 \<Longrightarrow> locate ''level'' (level_element q lv ui @ post) = Some 24"
  by (auto simp: level_element_def level_key_def)

lemma ui_in_element:
  assumes "q = CHR 0x22 \<or> q = CHR 0x27" "find_from lv ''uiAccess'' 0 = None"
  shows "locate ''uiAccess'' (level_element q lv ui @ post) = Some (33 + length lv)"
proof -
  have "q \<notin> set ''uiAccess''" using assms(1) by auto
  then have "locate ''uiAccess'' (lv @ q # '' uiAccess='' @ q # ui @ q # post) =
      map_option ((+) (Suc (length lv))) (locate ''uiAccess'' ('' uiAccess='' @ q # ui @ q # post))"
    using assms(2) by (intro locate_skip) (simp_all add: find_from_start)
  then have "locate ''uiAccess'' (lv @ q # '' uiAccess='' @ q # ui @ q # post) = Some (length lv + 2)" by simp
  then show ?thesis using assms(1) by (auto simp: level_element_def level_key_def)
qed

lemma ui_behind:
  "drop (33 + length lv) (level_element q lv ui @ post) = ''uiAccess'' @ ''='' @ q # ui @ q # post"
proof -
  define front where "front = level_key @ '' level='' @ q # lv @ q # '' ''"
  have "level_element q lv ui @ post = front @ ''uiAccess'' @ ''='' @ q # ui @ q # post"
    by (simp add: level_element_def front_def)
  moreover have "length front = 33 + length lv" by (simp add: front_def level_key_def)
  ultimately show ?thesis by (metis append_eq_conv_conj)
qed



text \<open>
  The tag \<open>dpiAware\<close> is looked for as the text \<open><dpiAware\<close>, which begins \<open><dpiAwareness\<close> too: with an empty
  \<open>dpiAwareness\<close> before it, the content of \<open>dpiAware\<close> comes back with the end tag of the other.
\<close>

lemma dpi_aware_takes_other_tag:
  "dpi_aware (parse_manifest_xml ''<a><dpiAwareness></dpiAwareness><dpiAware>true</dpiAware></a>'') = ''</dpiAwareness><dpiAware>true''"
  by (simp add: parse_manifest_xml_def without_bom_def extract_tag_content_def find_from_locate find_from_start
      strip_spaces_def xml_space_def Let_def)

section \<open>Version strings\<close>

definition utf16_text :: "string \<Rightarrow> bytes" where
  "utf16_text s = concat (map (\<lambda>c. [of_char c, 0]) s)"

definition ascii_char :: "char \<Rightarrow> bool" where
  "ascii_char c \<longleftrightarrow> 0 < (of_char c :: nat) \<and> of_char c < (0x80 :: nat)"

lemma unat_of_char: "unat (of_char c :: 8 word) = of_char c"
proof -
  have "unat (of_nat (of_char c) :: 8 word) = (of_char c :: nat) mod 256" by (simp add: unat_of_nat)
  then show ?thesis by (simp add: of_nat_of_char)
qed

lemma rd16_unit:
  assumes "drop p d = a # 0 # rest"
  shows "rd16 d p = unat a" "p + 1 < length d"
proof -
  show len: "p + 1 < length d" using arg_cong [OF assms, of length] by simp
  have "d ! p = a" using assms len by (metis hd_drop_conv_nth list.sel(1) Suc_eq_plus1 Suc_lessD)
  moreover have "d ! (p + 1) = 0"
    using assms len by (metis hd_drop_conv_nth list.sel(1,3) Suc_eq_plus1 drop_Suc tl_drop)
  ultimately show "rd16 d p = unat a" using len by (simp add: rd16_in le16_def byte_at_def)
qed

lemma utf16_steps:
  assumes "drop p d = utf16_text (c # s) @ rest"
  shows "drop p d = of_char c # 0 # utf16_text s @ rest" "drop (p + 2) d = utf16_text s @ rest"
proof -
  show u: "drop p d = of_char c # 0 # utf16_text s @ rest" using assms by (simp add: utf16_text_def)
  have "drop (p + 2) d = drop 2 (drop p d)" by (simp add: add.commute)
  then show "drop (p + 2) d = utf16_text s @ rest" unfolding u by simp
qed

lemma count_chars_text:
  assumes "drop p d = utf16_text s @ 0 # 0 # rest" "length s \<le> room" "\<forall>c \<in> set s. ascii_char c"
  shows "count_chars d p room = length s"
  using assms
proof (induction s arbitrary: p room)
  case Nil
  then have "rd16 d p = 0" using rd16_unit [of p d 0 rest] by (simp add: utf16_text_def)
  then show ?case by (cases room) simp_all
next
  case (Cons c s)
  obtain k where k: "room = Suc k" "length s \<le> k" using Cons.prems(2) by (cases room) auto
  note u = utf16_steps [OF Cons.prems(1)]
  have "of_char c \<noteq> (0 :: nat)" using Cons.prems(3) by (simp add: ascii_char_def)
  then have "rd16 d p \<noteq> 0" "p + 1 < length d" using rd16_unit [OF u(1)] by (simp_all add: unat_of_char)
  then show ?case using Cons.IH [OF u(2) k(2)] Cons.prems(3) k(1) by simp
qed

lemma utf16_text_read:
  assumes "drop p d = utf16_text s @ rest" "\<forall>c \<in> set s. ascii_char c"
  shows "utf16le_to_utf8 d p (length s) = s"
  using assms
proof (induction s arbitrary: p)
  case (Cons c s)
  note u = utf16_steps [OF Cons.prems(1)]
  have "rd16 d p = of_char c" using rd16_unit(1) [OF u(1)] by (simp add: unat_of_char)
  then show ?case using Cons.IH [OF u(2)] Cons.prems(2) by (simp add: utf8_of_unit_def Let_def ascii_char_def)
qed simp

text \<open>
  A version string is read back: the first occurrence of a key in UTF-16 with its terminator, padding up
  to a multiple of four bytes, and a text of 1 to 256 ASCII characters with a terminator give the text.
\<close>

theorem version_string_read:
  assumes "d = pre @ key_bytes key @ pad @ utf16_text s @ 0 # 0 # rest" "find_from d (key_bytes key) 0 = Some (length pre)"
    and "length pad < 4" "(length pre + length (key_bytes key) + length pad) mod 4 = 0"
    and "s \<noteq> []" "length s \<le> 256" "\<forall>c \<in> set s. ascii_char c"
  shows "extract_utf16_val d key = s"
proof -
  define after where "after = length pre + length (key_bytes key)"
  define v where "v = after + length pad"
  have "(after + 3) div 4 * 4 = v"
    using assms(3,4) unfolding v_def after_def by (simp add: mod_eq_0_iff_dvd) presburger
  moreover have tail: "drop v d = utf16_text s @ 0 # 0 # rest" by (simp add: assms(1) v_def after_def)
  moreover have "v < length d" using arg_cong [OF tail, of length] by simp
  moreover have "count_chars d v kMaxChars = length s"
    using count_chars_text [OF tail _ assms(7)] assms(6) by (simp add: kMaxChars_def)
  ultimately show ?thesis
    using assms(2,5) utf16_text_read [OF tail assms(7)]
    by (simp add: extract_utf16_val_def Let_def after_def)
qed

lemma version_string_read_witness:
  "extract_utf16_val ([1, 0] @ key_bytes ''FileVersion'' @ [0, 0] @ utf16_text ''1.2'' @ [0, 0]) ''FileVersion'' = ''1.2''"
proof (rule version_string_read [OF refl])
  show "find_from ([1, 0] @ key_bytes ''FileVersion'' @ [0, 0] @ utf16_text ''1.2'' @ 0 # 0 # []) (key_bytes ''FileVersion'') 0 =
      Some (length [1 :: byte, 0])"
    by (simp add: find_from_start key_bytes_def utf16_text_def)
qed (simp_all add: key_bytes_def ascii_char_def)

end
