(* ===== verification/Sync_Objects.thy ===== *)
theory Sync_Objects
  imports Error_Map
begin

text \<open>
  The synchronization objects of \<open>src/runtime/dlls/kernel32/sync.cpp\<close> and \<open>src/runtime/core/winapi.cpp\<close>: mutexes,
  events, semaphores and processes in one table of slots, and I/O completion ports. Threads are numbers.

  A call consists of the sections it runs under a lock; between two of them other threads run. Each
  section is a function here, and a call their composition. A section that waits on a condition variable
  gives \<open>None\<close> while its predicate is false. A pending exit of the process, which leaves a wait by
  \<open>longjmp\<close>, is not modelled.
\<close>

section \<open>Slots\<close>

datatype SyncKind = Mutex | Event | Semaphore | Process

record SyncSlot =
  ss_ref_count :: u32
  ss_used :: bool
  ss_kind :: SyncKind
  ss_signaled :: bool
  ss_manual_reset :: bool
  ss_owner_valid :: bool
  ss_owner :: nat
  ss_recursion :: u32
  ss_count :: int
  ss_maximum :: int
  ss_child_pid :: int
  ss_child_result_fd :: int
  ss_process_running :: bool
  ss_process_exit_code :: u32

definition empty_sync :: SyncSlot where
  "empty_sync = \<lparr>ss_ref_count = 1, ss_used = False, ss_kind = Event, ss_signaled = False, ss_manual_reset = False, ss_owner_valid = False,
     ss_owner = 0, ss_recursion = 0, ss_count = 0, ss_maximum = 0, ss_child_pid = -1, ss_child_result_fd = -1, ss_process_running = False,
     ss_process_exit_code = 259\<rparr>"

text \<open>The last error belongs to the thread.\<close>

record sync_state =
  g_syncs :: "SyncSlot list"
  last_errors :: "nat \<Rightarrow> u32"

definition kSyncHandleBase :: u64 where "kSyncHandleBase = 0x0000600000000000"
definition kWaitObject0 :: u32 where "kWaitObject0 = 0"
definition kWaitTimeout :: u32 where "kWaitTimeout = 0x102"
definition kWaitFailed :: u32 where "kWaitFailed = 0xFFFFFFFF"
definition kInfinite :: u32 where "kInfinite = 0xFFFFFFFF"
definition kInvalidHandleValue :: u64 where "kInvalidHandleValue = u64_max"

definition set_error :: "nat \<Rightarrow> u32 \<Rightarrow> sync_state \<Rightarrow> sync_state" where
  "set_error t e st = st\<lparr>last_errors := (last_errors st)(t := e)\<rparr>"

definition upd_sync :: "nat \<Rightarrow> (SyncSlot \<Rightarrow> SyncSlot) \<Rightarrow> sync_state \<Rightarrow> sync_state" where
  "upd_sync i f st = st\<lparr>g_syncs := (g_syncs st)[i := f (g_syncs st ! i)]\<rparr>"

definition find_sync_slot :: "u64 \<Rightarrow> sync_state \<Rightarrow> nat option" where
  "find_sync_slot handle st =
     (if handle < kSyncHandleBase \<or> kSyncHandleBase + length (g_syncs st) \<le> handle then None
      else let i = handle - kSyncHandleBase in if ss_used (g_syncs st ! i) then Some i else None)"

definition sync_slot_handle :: "nat \<Rightarrow> u64" where
  "sync_slot_handle i = kSyncHandleBase + i"

text \<open>The kind stays behind.\<close>

definition clear_sync_slot :: "SyncSlot \<Rightarrow> SyncSlot" where
  "clear_sync_slot s = empty_sync\<lparr>ss_kind := ss_kind s\<rparr>"

definition free_sync_slot :: "sync_state \<Rightarrow> nat option" where
  "free_sync_slot st = find (\<lambda>i. \<not> ss_used (g_syncs st ! i)) [0..<length (g_syncs st)]"

section \<open>Sections\<close>

text \<open>Creating an object, under the lock of the table.\<close>

definition new_mutex :: "nat \<Rightarrow> bool \<Rightarrow> SyncSlot \<Rightarrow> SyncSlot" where
  "new_mutex t initial_owner s =
     s\<lparr>ss_used := True, ss_ref_count := 1, ss_kind := Mutex, ss_signaled := \<not> initial_owner, ss_owner_valid := initial_owner,
       ss_owner := (if initial_owner then t else 0), ss_recursion := (if initial_owner then 1 else 0)\<rparr>"

definition new_event :: "bool \<Rightarrow> bool \<Rightarrow> SyncSlot \<Rightarrow> SyncSlot" where
  "new_event manual initial_state s =
     s\<lparr>ss_used := True, ss_ref_count := 1, ss_kind := Event, ss_signaled := initial_state, ss_manual_reset := manual\<rparr>"

definition new_semaphore :: "int \<Rightarrow> int \<Rightarrow> SyncSlot \<Rightarrow> SyncSlot" where
  "new_semaphore initial_count maximum_count s =
     s\<lparr>ss_used := True, ss_ref_count := 1, ss_kind := Semaphore, ss_count := initial_count, ss_maximum := maximum_count\<rparr>"

text \<open>The predicate of a wait and what a satisfied wait takes; the slot may have been closed meanwhile.\<close>

definition wait_ready :: "nat \<Rightarrow> SyncSlot \<Rightarrow> bool" where
  "wait_ready t s \<longleftrightarrow>
     (if \<not> ss_used s then True
      else if ss_kind s = Event then ss_signaled s
      else if ss_kind s = Semaphore then 0 < ss_count s
      else \<not> ss_owner_valid s \<or> ss_owner s = t)"

definition take_object :: "nat \<Rightarrow> SyncSlot \<Rightarrow> SyncSlot" where
  "take_object t s =
     (if ss_kind s = Event then (if \<not> ss_manual_reset s then s\<lparr>ss_signaled := False\<rparr> else s)
      else if ss_kind s = Semaphore then s\<lparr>ss_count := ss_count s - 1\<rparr>
      else if ss_owner_valid s \<and> ss_owner s = t then s\<lparr>ss_recursion := to_u32 (ss_recursion s + 1)\<rparr>
      else s\<lparr>ss_owner_valid := True, ss_owner := t, ss_recursion := 1\<rparr>)"

definition wait_locked :: "nat \<Rightarrow> nat \<Rightarrow> sync_state \<Rightarrow> (u32 \<times> sync_state) option" where
  "wait_locked t i st =
     (let s = g_syncs st ! i in
      if \<not> wait_ready t s then None
      else if \<not> ss_used s then Some (kWaitFailed, st)
      else Some (kWaitObject0, upd_sync i (take_object t) st))"

definition set_event_locked :: "nat \<Rightarrow> sync_state \<Rightarrow> sync_state" where
  "set_event_locked i = upd_sync i (\<lambda>s. s\<lparr>ss_signaled := True\<rparr>)"

definition reset_event_locked :: "nat \<Rightarrow> sync_state \<Rightarrow> sync_state" where
  "reset_event_locked i = upd_sync i (\<lambda>s. s\<lparr>ss_signaled := False\<rparr>)"

text \<open>\<open>None\<close>: the thread does not own the mutex.\<close>

definition release_mutex_locked :: "nat \<Rightarrow> nat \<Rightarrow> sync_state \<Rightarrow> sync_state option" where
  "release_mutex_locked t i st =
     (let s = g_syncs st ! i in
      if \<not> ss_owner_valid s \<or> ss_owner s \<noteq> t \<or> ss_recursion s = 0 then None
      else Some (upd_sync i (\<lambda>s.
        let s1 = s\<lparr>ss_recursion := ss_recursion s - 1\<rparr> in
        if ss_recursion s1 = 0 then s1\<lparr>ss_owner_valid := False, ss_owner := 0\<rparr> else s1) st))"

text \<open>\<open>None\<close>: the count would pass its maximum, or the old count cannot be written.\<close>

definition release_semaphore_locked :: "nat \<Rightarrow> int \<Rightarrow> bool \<Rightarrow> sync_state \<Rightarrow> sync_state option" where
  "release_semaphore_locked i release_count writable st =
     (let s = g_syncs st ! i in
      if ss_maximum s - ss_count s < release_count then None
      else if \<not> writable then None
      else Some (upd_sync i (\<lambda>s. s\<lparr>ss_count := ss_count s + release_count\<rparr>) st))"

section \<open>Calls\<close>

text \<open>\<open>readable\<close>: the attributes and the name could be read from the memory of the guest.\<close>

definition create_sync :: "nat \<Rightarrow> (SyncSlot \<Rightarrow> SyncSlot) \<Rightarrow> sync_state \<Rightarrow> u64 \<times> sync_state" where
  "create_sync t f st =
     (case free_sync_slot st of
        None \<Rightarrow> (0, set_error t kNotEnoughMemory st)
      | Some i \<Rightarrow> (sync_slot_handle i, set_error t kSuccess (upd_sync i f st)))"

definition tl_CreateMutexA :: "nat \<Rightarrow> bool \<Rightarrow> int \<Rightarrow> sync_state \<Rightarrow> u64 \<times> sync_state" where
  "tl_CreateMutexA t readable initial_owner st =
     (if \<not> readable \<or> initial_owner \<noteq> 0 \<and> initial_owner \<noteq> 1 then (0, set_error t kInvalidParameter st)
      else create_sync t (new_mutex t (initial_owner \<noteq> 0)) st)"

definition tl_CreateEventA :: "nat \<Rightarrow> bool \<Rightarrow> int \<Rightarrow> int \<Rightarrow> sync_state \<Rightarrow> u64 \<times> sync_state" where
  "tl_CreateEventA t readable manual initial_state st =
     (if \<not> readable \<or> manual \<noteq> 0 \<and> manual \<noteq> 1 \<or> initial_state \<noteq> 0 \<and> initial_state \<noteq> 1
      then (0, set_error t kInvalidParameter st)
      else create_sync t (new_event (manual \<noteq> 0) (initial_state \<noteq> 0)) st)"

definition tl_CreateSemaphoreA :: "nat \<Rightarrow> bool \<Rightarrow> int \<Rightarrow> int \<Rightarrow> sync_state \<Rightarrow> u64 \<times> sync_state" where
  "tl_CreateSemaphoreA t readable initial_count maximum_count st =
     (if \<not> readable \<or> initial_count < 0 \<or> maximum_count \<le> 0 \<or> maximum_count < initial_count
      then (0, set_error t kInvalidParameter st)
      else create_sync t (new_semaphore initial_count maximum_count) st)"

text \<open>A slot of a kind, with the error for a handle that is none.\<close>

definition find_kind :: "SyncKind \<Rightarrow> u64 \<Rightarrow> sync_state \<Rightarrow> nat option" where
  "find_kind k handle st =
     (case find_sync_slot handle st of None \<Rightarrow> None | Some i \<Rightarrow> if ss_kind (g_syncs st ! i) \<noteq> k then None else Some i)"

definition tl_SetEvent :: "nat \<Rightarrow> u64 \<Rightarrow> sync_state \<Rightarrow> bool \<times> sync_state" where
  "tl_SetEvent t handle st =
     (case find_kind Event handle st of
        None \<Rightarrow> (False, set_error t kInvalidHandle st)
      | Some i \<Rightarrow> (True, set_error t kSuccess (set_event_locked i st)))"

definition tl_ResetEvent :: "nat \<Rightarrow> u64 \<Rightarrow> sync_state \<Rightarrow> bool \<times> sync_state" where
  "tl_ResetEvent t handle st =
     (case find_kind Event handle st of
        None \<Rightarrow> (False, set_error t kInvalidHandle st)
      | Some i \<Rightarrow> (True, set_error t kSuccess (reset_event_locked i st)))"

definition tl_ReleaseMutex :: "nat \<Rightarrow> u64 \<Rightarrow> sync_state \<Rightarrow> bool \<times> sync_state" where
  "tl_ReleaseMutex t handle st =
     (case find_kind Mutex handle st of
        None \<Rightarrow> (False, set_error t kInvalidHandle st)
      | Some i \<Rightarrow>
          (case release_mutex_locked t i st of
             None \<Rightarrow> (False, set_error t kAccessDenied st)
           | Some st1 \<Rightarrow> (True, set_error t kSuccess st1)))"

definition tl_ReleaseSemaphore :: "nat \<Rightarrow> u64 \<Rightarrow> int \<Rightarrow> bool \<Rightarrow> sync_state \<Rightarrow> bool \<times> sync_state" where
  "tl_ReleaseSemaphore t handle release_count writable st =
     (case find_kind Semaphore handle st of
        None \<Rightarrow> (False, set_error t (if find_sync_slot handle st = None then kInvalidHandle else kInvalidParameter) st)
      | Some i \<Rightarrow>
          if release_count \<le> 0 then (False, set_error t kInvalidParameter st)
          else (case release_semaphore_locked i release_count writable st of
              None \<Rightarrow> (False, set_error t kInvalidParameter st)
            | Some st1 \<Rightarrow> (True, set_error t kSuccess st1)))"

text \<open>The part of \<open>CloseHandle\<close> for these handles: a counted reference, then the slot.\<close>

definition close_sync_handle :: "nat \<Rightarrow> u64 \<Rightarrow> sync_state \<Rightarrow> bool \<times> sync_state" where
  "close_sync_handle t handle st =
     (case find_sync_slot handle st of
        None \<Rightarrow> (False, st)
      | Some i \<Rightarrow>
          if 1 < ss_ref_count (g_syncs st ! i)
          then (True, set_error t kSuccess (upd_sync i (\<lambda>s. s\<lparr>ss_ref_count := ss_ref_count s - 1\<rparr>) st))
          else (True, set_error t kSuccess (upd_sync i clear_sync_slot st)))"

end
