(* ===== verification/Sync_Waits.thy ===== *)
theory Sync_Waits
  imports Sync_Objects Pe_Reader
begin

text \<open>
  Waiting in \<open>sync.cpp\<close> and \<open>winapi.cpp\<close>: for one object, for a child process, for several objects by
  polling. Files and threads, which other components keep, are answers of the record \<open>wait_env\<close>; so are
  \<open>waitpid\<close> and the clock. A call that is still waiting gives \<open>None\<close>.
\<close>

datatype file_answer = OpenFile | ClosedFile | NotFile

text \<open>One look at the child, and the milliseconds since the wait began.\<close>

datatype child_answer = StillRunning | Exited "u32 option" bytes

record wait_env =
  we_file :: "u64 \<Rightarrow> file_answer"
  we_thread :: "u64 \<Rightarrow> bool option"
  we_child :: "nat \<Rightarrow> (child_answer \<times> nat) list"

text \<open>
  The exit code: the one the child reports through the pipe, a flag and four bytes; without it the
  code of a normal exit, else 1.
\<close>

definition exit_code_of :: "u32 option \<Rightarrow> bytes \<Rightarrow> SyncSlot \<Rightarrow> u32" where
  "exit_code_of code message s =
     (if 0 \<le> ss_child_result_fd s \<and> length message = 5 then le32 message 1
      else case code of Some c \<Rightarrow> c | None \<Rightarrow> 1)"

definition child_exited :: "u32 option \<Rightarrow> bytes \<Rightarrow> SyncSlot \<Rightarrow> SyncSlot" where
  "child_exited code message s =
     s\<lparr>ss_process_running := False, ss_process_exit_code := exit_code_of code message s, ss_child_result_fd := -1\<rparr>"

text \<open>The child is waited for by one thread at a time; with two the other finds it collected.\<close>

fun wait_child :: "u32 \<Rightarrow> (child_answer \<times> nat) list \<Rightarrow> SyncSlot \<Rightarrow> (u32 \<times> SyncSlot) option" where
  "wait_child milliseconds [] s = None"
| "wait_child milliseconds ((answer, elapsed) # polls) s =
     (case answer of
        Exited code message \<Rightarrow> Some (kWaitObject0, child_exited code message s)
      | StillRunning \<Rightarrow>
          if milliseconds = 0 then Some (kWaitTimeout, s)
          else if milliseconds \<noteq> kInfinite \<and> milliseconds \<le> elapsed then Some (kWaitTimeout, s)
          else wait_child milliseconds polls s)"

definition wait_process_slot :: "u32 \<Rightarrow> (child_answer \<times> nat) list \<Rightarrow> SyncSlot \<Rightarrow> (u32 \<times> SyncSlot) option" where
  "wait_process_slot milliseconds polls s =
     (if \<not> ss_used s \<or> ss_kind s \<noteq> Process then Some (kWaitFailed, s)
      else if \<not> ss_process_running s then Some (kWaitObject0, s)
      else wait_child milliseconds polls s)"

text \<open>
  \<open>timed_out\<close>: the time of the wait is over, as it is from the start when it is 0. The predicate is looked at
  first and once more at the end.
\<close>

definition wait_sync_slot :: "wait_env \<Rightarrow> nat \<Rightarrow> nat \<Rightarrow> u32 \<Rightarrow> bool \<Rightarrow> sync_state \<Rightarrow> (u32 \<times> sync_state) option" where
  "wait_sync_slot env t i milliseconds timed_out st =
     (if ss_kind (g_syncs st ! i) = Process then
        map_option (\<lambda>(r, s). (r, upd_sync i (\<lambda>_. s) st)) (wait_process_slot milliseconds (we_child env i) (g_syncs st ! i))
      else (case wait_locked t i st of
          Some r \<Rightarrow> Some r
        | None \<Rightarrow> if milliseconds \<noteq> kInfinite \<and> (milliseconds = 0 \<or> timed_out) then Some (kWaitTimeout, st) else None))"

definition tl_WaitForSingleObject :: "wait_env \<Rightarrow> nat \<Rightarrow> u64 \<Rightarrow> u32 \<Rightarrow> bool \<Rightarrow> sync_state \<Rightarrow> (u32 \<times> sync_state) option" where
  "tl_WaitForSingleObject env t handle milliseconds timed_out st =
     (if handle = 0 then Some (kWaitFailed, set_error t kInvalidHandle st)
      else (case we_file env handle of
          OpenFile \<Rightarrow> Some (kWaitObject0, set_error t kSuccess st)
        | ClosedFile \<Rightarrow> Some (kWaitFailed, set_error t kInvalidHandle st)
        | NotFile \<Rightarrow>
            (case we_thread env handle of
               Some True \<Rightarrow> Some (kWaitObject0, set_error t kSuccess st)
             | Some False \<Rightarrow>
                 if milliseconds \<noteq> kInfinite \<and> (milliseconds = 0 \<or> timed_out) then Some (kWaitTimeout, set_error t kSuccess st) else None
             | None \<Rightarrow>
                 (case find_sync_slot handle st of
                    None \<Rightarrow> Some (kWaitFailed, set_error t kInvalidHandle st)
                  | Some i \<Rightarrow>
                      map_option (\<lambda>(r, st1). (r, set_error t (if r = kWaitFailed then kInvalidHandle else kSuccess) st1))
                        (wait_sync_slot env t i milliseconds timed_out st)))))"

section \<open>Processes\<close>

definition kStillActive :: u32 where "kStillActive = 259"

text \<open>\<open>pointer\<close>: there is one for the result; \<open>writable\<close>: the guest memory there.\<close>

definition tl_GetExitCodeProcess :: "wait_env \<Rightarrow> nat \<Rightarrow> u64 \<Rightarrow> bool \<Rightarrow> bool \<Rightarrow> sync_state \<Rightarrow> u32 option \<times> sync_state" where
  "tl_GetExitCodeProcess env t process pointer writable st =
     (case find_sync_slot process st of
        None \<Rightarrow> (None, set_error t kInvalidHandle st)
      | Some i \<Rightarrow>
          if ss_kind (g_syncs st ! i) \<noteq> Process \<or> \<not> pointer then (None, set_error t kInvalidParameter st)
          else (let s = (case wait_process_slot 0 (we_child env i) (g_syncs st ! i) of Some (_, s) \<Rightarrow> s | None \<Rightarrow> g_syncs st ! i);
                    st1 = upd_sync i (\<lambda>_. s) st
                in if \<not> writable then (None, set_error t kInvalidParameter st1)
                   else (Some (if ss_process_running s then kStillActive else ss_process_exit_code s), set_error t kSuccess st1)))"

text \<open>\<open>killed\<close>: the kernel sent the signal; \<open>None\<close>: still waiting for the child.\<close>

definition tl_TerminateProcess :: "wait_env \<Rightarrow> nat \<Rightarrow> u64 \<Rightarrow> u32 \<Rightarrow> bool \<Rightarrow> sync_state \<Rightarrow> (bool \<times> sync_state) option" where
  "tl_TerminateProcess env t process exit_code killed st =
     (case find_kind Process process st of
        None \<Rightarrow> Some (False, set_error t kInvalidHandle st)
      | Some i \<Rightarrow>
          let s = g_syncs st ! i in
          if \<not> ss_process_running s \<or> ss_child_pid s \<le> 0 \<or> \<not> killed then Some (False, set_error t kAccessDenied st)
          else (case wait_process_slot kInfinite (we_child env i) s of
              None \<Rightarrow> None
            | Some (_, s1) \<Rightarrow> Some (True, set_error t kSuccess (upd_sync i (\<lambda>_. s1\<lparr>ss_process_exit_code := exit_code\<rparr>) st))))"

section \<open>Several objects\<close>

definition sync_is_signaled :: "nat \<Rightarrow> SyncSlot \<Rightarrow> bool" where
  "sync_is_signaled t s \<longleftrightarrow>
     (if ss_kind s = Event then ss_signaled s
      else if ss_kind s = Semaphore then 0 < ss_count s
      else if ss_kind s = Process then \<not> ss_process_running s
      else \<not> ss_owner_valid s \<or> ss_owner s = t)"

text \<open>Probing a process looks at the child, and may find that it exited.\<close>

definition probe_wait_handle :: "wait_env \<Rightarrow> nat \<Rightarrow> u64 \<Rightarrow> sync_state \<Rightarrow> bool \<times> sync_state" where
  "probe_wait_handle env t handle st =
     (if handle = 0 \<or> handle = kInvalidHandleValue then (False, st)
      else (case we_file env handle of
          OpenFile \<Rightarrow> (True, st)
        | ClosedFile \<Rightarrow> (False, st)
        | NotFile \<Rightarrow>
            (case we_thread env handle of
               Some finished \<Rightarrow> (finished, st)
             | None \<Rightarrow>
                 (case find_sync_slot handle st of
                    None \<Rightarrow> (False, st)
                  | Some i \<Rightarrow>
                      if ss_kind (g_syncs st ! i) = Process then
                        (case wait_process_slot 0 (we_child env i) (g_syncs st ! i) of
                           Some (r, s) \<Rightarrow> (r = kWaitObject0, upd_sync i (\<lambda>_. s) st)
                         | None \<Rightarrow> (False, st))
                      else (sync_is_signaled t (g_syncs st ! i), st)))))"

definition known_handle :: "wait_env \<Rightarrow> u64 \<Rightarrow> sync_state \<Rightarrow> bool" where
  "known_handle env handle st \<longleftrightarrow>
     handle \<noteq> 0 \<and> (we_file env handle = OpenFile \<or> we_thread env handle \<noteq> None \<or> find_sync_slot handle st \<noteq> None)"

text \<open>\<open>ready = ready && probe\<close>: after the first that is not ready no other is looked at.\<close>

fun all_ready :: "wait_env \<Rightarrow> nat \<Rightarrow> u64 list \<Rightarrow> sync_state \<Rightarrow> bool \<times> sync_state" where
  "all_ready env t [] st = (True, st)"
| "all_ready env t (h # hs) st =
     (case probe_wait_handle env t h st of
        (False, st1) \<Rightarrow> (False, st1)
      | (True, st1) \<Rightarrow> all_ready env t hs st1)"

text \<open>Taking them: only a failure stops, a timeout does not.\<close>

fun take_all :: "wait_env \<Rightarrow> nat \<Rightarrow> u64 list \<Rightarrow> sync_state \<Rightarrow> bool \<times> sync_state" where
  "take_all env t [] st = (True, st)"
| "take_all env t (h # hs) st =
     (case tl_WaitForSingleObject env t h 0 True st of
        Some (r, st1) \<Rightarrow> if r = kWaitFailed then (False, set_error t kInvalidHandle st1) else take_all env t hs st1
      | None \<Rightarrow> (False, st))"

fun take_any :: "wait_env \<Rightarrow> nat \<Rightarrow> nat \<Rightarrow> u64 list \<Rightarrow> sync_state \<Rightarrow> u32 option \<times> sync_state" where
  "take_any env t index [] st = (None, st)"
| "take_any env t index (h # hs) st =
     (case probe_wait_handle env t h st of
        (False, st1) \<Rightarrow> take_any env t (index + 1) hs st1
      | (True, st1) \<Rightarrow>
          (case tl_WaitForSingleObject env t h 0 True st1 of
             Some (r, st2) \<Rightarrow>
               if r = kWaitObject0 then (Some (kWaitObject0 + index), set_error t kSuccess st2) else take_any env t (index + 1) hs st2
           | None \<Rightarrow> (None, st1)))"

text \<open>One round of the loop; \<open>None\<close> when nothing could be taken.\<close>

definition wait_round :: "wait_env \<Rightarrow> nat \<Rightarrow> bool \<Rightarrow> u64 list \<Rightarrow> sync_state \<Rightarrow> u32 option \<times> sync_state" where
  "wait_round env t wait_all handles st =
     (if wait_all then
        (case all_ready env t handles st of
           (True, st1) \<Rightarrow>
             (case take_all env t handles st1 of
                (True, st2) \<Rightarrow> (Some kWaitObject0, set_error t kSuccess st2)
              | (False, st2) \<Rightarrow> (Some kWaitFailed, st2))
         | (False, st1) \<Rightarrow> (None, st1))
      else take_any env t 0 handles st)"

text \<open>
  The rounds of the loop: while it sleeps, other threads change the state, and the answers of the
  environment change; the clock tells the milliseconds since the start. The sections of one round follow
  each other here; a wait that times out while taking is a branch all the same.
\<close>

type_synonym wait_pause = "wait_env \<times> (sync_state \<Rightarrow> sync_state) \<times> nat"

fun wait_rounds :: "nat \<Rightarrow> bool \<Rightarrow> u64 list \<Rightarrow> u32 \<Rightarrow> wait_pause list \<Rightarrow> sync_state \<Rightarrow> (u32 \<times> sync_state) option" where
  "wait_rounds t wait_all handles milliseconds [] st = None"
| "wait_rounds t wait_all handles milliseconds ((env, others, elapsed) # pauses) st =
     (case wait_round env t wait_all handles st of
        (Some r, st1) \<Rightarrow> Some (r, st1)
      | (None, st1) \<Rightarrow>
          if milliseconds = 0 then Some (kWaitTimeout, set_error t kSuccess st1)
          else if milliseconds \<noteq> kInfinite \<and> milliseconds \<le> elapsed then Some (kWaitTimeout, set_error t kSuccess st1)
          else wait_rounds t wait_all handles milliseconds pauses (others st1))"

text \<open>\<open>handles\<close>: what could be read of the array of the guest.\<close>

definition tl_WaitForMultipleObjects ::
  "wait_env \<Rightarrow> nat \<Rightarrow> u32 \<Rightarrow> u64 list option \<Rightarrow> int \<Rightarrow> u32 \<Rightarrow> wait_pause list \<Rightarrow> sync_state \<Rightarrow> (u32 \<times> sync_state) option" where
  "tl_WaitForMultipleObjects env t count handles wait_all milliseconds pauses st =
     (case handles of
        None \<Rightarrow> Some (kWaitFailed, set_error t kInvalidParameter st)
      | Some hs \<Rightarrow>
          if count = 0 \<or> 64 < count \<or> wait_all \<noteq> 0 \<and> wait_all \<noteq> 1 then Some (kWaitFailed, set_error t kInvalidParameter st)
          else if \<not> list_all (\<lambda>h. known_handle env h st) hs then Some (kWaitFailed, set_error t kInvalidHandle st)
          else wait_rounds t (wait_all \<noteq> 0) hs milliseconds pauses st)"

section \<open>I/O completion ports\<close>

record IoCompletionPacket =
  bytes_transferred :: u32
  completion_key :: u64
  overlapped :: u64

record IoCompletionPortSlot =
  port_used :: bool
  port_queue :: "IoCompletionPacket list"

definition kIocpHandleBase :: u64 where "kIocpHandleBase = 0x0000750000000000"
definition kWaitTimeoutError :: u32 where "kWaitTimeoutError = 258"

type_synonym ports = "IoCompletionPortSlot list"

definition find_iocp_slot :: "u64 \<Rightarrow> ports \<Rightarrow> nat option" where
  "find_iocp_slot handle ps =
     (if handle < kIocpHandleBase \<or> kIocpHandleBase + length ps \<le> handle then None
      else let i = handle - kIocpHandleBase in if port_used (ps ! i) then Some i else None)"

text \<open>The results are the error and the ports.\<close>

definition tl_CreateIoCompletionPort :: "u64 \<Rightarrow> ports \<Rightarrow> u64 \<times> u32 \<times> ports" where
  "tl_CreateIoCompletionPort existing ps =
     (if existing \<noteq> 0 then
        (case find_iocp_slot existing ps of None \<Rightarrow> (0, kInvalidHandle, ps) | Some i \<Rightarrow> (existing, kSuccess, ps))
      else (case find (\<lambda>i. \<not> port_used (ps ! i)) [0..<length ps] of
          Some i \<Rightarrow> (kIocpHandleBase + i, kSuccess, ps[i := \<lparr>port_used = True, port_queue = []\<rparr>])
        | None \<Rightarrow> (0, kNotEnoughMemory, ps)))"

text \<open>Posting and taking, under the lock of the port.\<close>

definition post_locked :: "nat \<Rightarrow> IoCompletionPacket \<Rightarrow> ports \<Rightarrow> ports" where
  "post_locked i packet ps = ps[i := (ps ! i)\<lparr>port_queue := port_queue (ps ! i) @ [packet]\<rparr>]"

definition take_locked :: "nat \<Rightarrow> ports \<Rightarrow> (IoCompletionPacket \<times> ports) option" where
  "take_locked i ps =
     (case port_queue (ps ! i) of
        [] \<Rightarrow> None
      | packet # rest \<Rightarrow> Some (packet, ps[i := (ps ! i)\<lparr>port_queue := rest\<rparr>]))"

definition tl_PostQueuedCompletionStatus :: "u64 \<Rightarrow> IoCompletionPacket \<Rightarrow> ports \<Rightarrow> bool \<times> u32 \<times> ports" where
  "tl_PostQueuedCompletionStatus port packet ps =
     (case find_iocp_slot port ps of
        None \<Rightarrow> (False, kInvalidHandle, ps)
      | Some i \<Rightarrow> (True, kSuccess, post_locked i packet ps))"

text \<open>
  The packet, whose parts are written where the guest wants them; whether those writes succeed does not
  matter. Without a packet the call times out or keeps waiting.
\<close>

definition tl_GetQueuedCompletionStatus ::
  "u64 \<Rightarrow> u32 \<Rightarrow> bool \<Rightarrow> ports \<Rightarrow> (IoCompletionPacket option \<times> u32 \<times> ports) option" where
  "tl_GetQueuedCompletionStatus port milliseconds timed_out ps =
     (case find_iocp_slot port ps of
        None \<Rightarrow> Some (None, kInvalidHandle, ps)
      | Some i \<Rightarrow>
          (case take_locked i ps of
             Some (packet, ps1) \<Rightarrow> Some (Some packet, kSuccess, ps1)
           | None \<Rightarrow>
               if milliseconds = 0 \<or> milliseconds \<noteq> kInfinite \<and> timed_out then Some (None, kWaitTimeoutError, ps) else None))"

definition close_iocp_handle :: "u64 \<Rightarrow> ports \<Rightarrow> bool \<times> ports" where
  "close_iocp_handle handle ps =
     (case find_iocp_slot handle ps of
        None \<Rightarrow> (False, ps)
      | Some i \<Rightarrow> (True, ps[i := (ps ! i)\<lparr>port_queue := [], port_used := False\<rparr>]))"

end
