(* ===== verification/Sync_Calls.thy ===== *)
theory Sync_Calls
  imports Sync_Correct
begin

text \<open>
  The calls as wholes: each is a history of the sections of \<open>Sync_Correct\<close>; waiting for several objects;
  completion ports.
\<close>

section \<open>Calls are histories\<close>

definition extends :: "nat \<Rightarrow> sync_state \<Rightarrow> sync_state \<Rightarrow> bool" where
  "extends n st st' \<longleftrightarrow> (\<forall>tr. sync_trace n tr st \<longrightarrow> (\<exists>es. sync_trace n (tr @ es) st'))"

lemma extends_refl [simp]: "extends n st st"
  unfolding extends_def by (metis append_Nil2)

lemma extends_trans: "extends n st st1 \<Longrightarrow> extends n st1 st2 \<Longrightarrow> extends n st st2"
  unfolding extends_def by (metis append_assoc)

lemma extends_error: "extends n st (set_error t e st)"
  unfolding extends_def by (metis append_Nil2 sync_trace.note_error)

lemma extends_section:
  "(\<And>i. names_slot a = Some i \<Longrightarrow> i < n) \<Longrightarrow> sync_section t a st = Some (r, st') \<Longrightarrow> extends n st st'"
  unfolding extends_def by (metis sync_trace.step)

lemma trace_length: "sync_trace n tr st \<Longrightarrow> length (g_syncs st) = n"
proof (induction rule: sync_trace.induct)
  case (step tr st a t r st')
  then show ?case
    by (cases a) (auto simp: create_section_def release_mutex_locked_def release_semaphore_locked_def wait_locked_def
        set_event_locked_def reset_event_locked_def Let_def upd_sync_def split: option.splits if_splits)
qed (simp_all add: start_sync_def set_error_def)

lemma find_sync_in: "find_sync_slot h st = Some i \<Longrightarrow> length (g_syncs st) = n \<Longrightarrow> i < n"
  by (auto simp: find_sync_slot_def Let_def split: if_splits)

lemma find_kind_in: "find_kind k h st = Some i \<Longrightarrow> length (g_syncs st) = n \<Longrightarrow> i < n"
  by (auto simp: find_kind_def dest: find_sync_in split: option.splits if_splits)

lemma extendsI: "(length (g_syncs st) = n \<Longrightarrow> extends n st st') \<Longrightarrow> extends n st st'"
  unfolding extends_def using trace_length by blast

lemma section_then_error:
  assumes "sync_section t a st = Some (r, st1)" "\<And>i. names_slot a = Some i \<Longrightarrow> i < n"
  shows "extends n st (set_error t e st1)"
  by (rule extends_trans [OF extends_section [OF assms(2,1)] extends_error])

lemma create_sync_extends:
  assumes "create_sync t f st = (h, st')" "sync_section t a st = Some (create_section f st)" "names_slot a = None"
  shows "extends n st st'"
proof (cases "free_sync_slot st")
  case None
  then show ?thesis using assms(1) by (auto simp: create_sync_def intro: extends_error)
next
  case (Some i)
  then have "sync_section t a st = Some (Created i, upd_sync i f st)" using assms(2) by (simp add: create_section_def)
  from section_then_error [OF this, of n kSuccess] show ?thesis using Some assms(1,3) by (auto simp: create_sync_def)
qed

lemma wait_process_cases:
  "wait_process_slot ms polls s = Some (r, s') \<Longrightarrow> s' = s \<or> (\<exists>code message. s' = child_exited code message s)"
proof -
  have "wait_child ms polls s = Some (r, s') \<Longrightarrow> s' = s \<or> (\<exists>code message. s' = child_exited code message s)"
    by (induction ms polls s rule: wait_child.induct) (auto split: child_answer.splits if_splits)
  then show "wait_process_slot ms polls s = Some (r, s') \<Longrightarrow> s' = s \<or> (\<exists>code message. s' = child_exited code message s)"
    by (auto simp: wait_process_slot_def split: if_splits)
qed

lemma process_extends:
  assumes "wait_process_slot ms polls (g_syncs st ! i) = Some (r, s)" "i < n"
  shows "extends n st (upd_sync i (\<lambda>_. s) st)"
proof -
  consider "s = g_syncs st ! i" | code message where "s = child_exited code message (g_syncs st ! i)"
    using wait_process_cases [OF assms(1)] by blast
  then show ?thesis
  proof cases
    case 1
    then show ?thesis by (simp add: upd_sync_def)
  next
    case (2 code message)
    have "sync_section t (ChildDone i code message) st = Some (Finished True, upd_sync i (\<lambda>_. s) st)" for t
      by (simp add: upd_sync_def 2)
    then show ?thesis by (rule extends_section [rotated]) (use assms(2) in simp)
  qed
qed

lemma exit_code_extends:
  assumes "i < n" "extends n st (upd_sync i (\<lambda>_. s) st)" "length (g_syncs st) = n"
  shows "extends n st (upd_sync i (\<lambda>_. s\<lparr>ss_process_exit_code := code\<rparr>) st)"
proof -
  have "upd_sync i (\<lambda>_. s\<lparr>ss_process_exit_code := code\<rparr>) st =
      upd_sync i (\<lambda>s. s\<lparr>ss_process_exit_code := code\<rparr>) (upd_sync i (\<lambda>_. s) st)"
    using assms(1,3) by (simp add: upd_sync_def)
  then have "sync_section t (ProcessEnded i code) (upd_sync i (\<lambda>_. s) st) =
      Some (Finished True, upd_sync i (\<lambda>_. s\<lparr>ss_process_exit_code := code\<rparr>) st)" for t
    by simp
  from extends_trans [OF assms(2) extends_section [OF _ this]] show ?thesis using assms(1) by simp
qed

lemma wait_sync_extends:
  assumes "wait_sync_slot env t i ms late st = Some (r, st')" "i < n"
  shows "extends n st st'"
proof (cases "ss_kind (g_syncs st ! i) = Process")
  case True
  then show ?thesis using assms process_extends by (auto simp: wait_sync_slot_def)
next
  case False
  show ?thesis
  proof (cases "wait_locked t i st")
    case None
    then show ?thesis using assms(1) False by (auto simp: wait_sync_slot_def split: if_splits)
  next
    case (Some p)
    then have "sync_section t (WaitSync i) st = Some (Finished (fst p = kWaitObject0), snd p)" by (simp split: prod.split)
    then have "extends n st (snd p)" by (rule extends_section [rotated]) (use assms(2) in simp)
    then show ?thesis using Some assms(1) False by (simp add: wait_sync_slot_def)
  qed
qed

lemma wait_single_extends:
  assumes "tl_WaitForSingleObject env t h ms late st = Some (r, st')"
  shows "extends n st st'"
proof (rule extendsI)
  assume len: "length (g_syncs st) = n"
  show "extends n st st'"
  proof (cases "find_sync_slot h st")
    case None
    then show ?thesis using assms
      by (auto simp: tl_WaitForSingleObject_def intro: extends_error split: if_splits file_answer.splits option.splits bool.splits)
  next
    case (Some i)
    have "extends n st (set_error t e st1)" if "wait_sync_slot env t i ms late st = Some (q, st1)" for e q st1
      using extends_trans [OF wait_sync_extends [OF that find_sync_in [OF Some len]] extends_error] .
    then show ?thesis using assms Some
      by (auto simp: tl_WaitForSingleObject_def intro: extends_error split: if_splits file_answer.splits option.splits bool.splits)
  qed
qed

lemma probe_extends: "probe_wait_handle env t h st = (r, st') \<Longrightarrow> extends n st st'"
proof (rule extendsI)
  assume a: "probe_wait_handle env t h st = (r, st')" "length (g_syncs st) = n"
  show "extends n st st'"
  proof (cases "find_sync_slot h st")
    case None
    then show ?thesis using a
      by (auto simp: probe_wait_handle_def split: if_splits file_answer.splits option.splits)
  next
    case (Some i)
    then show ?thesis using a process_extends [OF _ find_sync_in [OF Some a(2)]]
      by (auto simp: probe_wait_handle_def split: if_splits file_answer.splits option.splits prod.splits)
  qed
qed

lemma all_ready_extends: "all_ready env t hs st = (r, st') \<Longrightarrow> extends n st st'"
proof (induction hs arbitrary: st)
  case (Cons h hs)
  obtain p st1 where p: "probe_wait_handle env t h st = (p, st1)" by force
  from probe_extends [OF p] have "extends n st st1" .
  then show ?case using Cons p extends_trans by (cases p) auto
qed simp

lemma take_all_extends: "take_all env t hs st = (r, st') \<Longrightarrow> extends n st st'"
proof (induction hs arbitrary: st)
  case (Cons h hs)
  show ?case
  proof (cases "tl_WaitForSingleObject env t h 0 True st")
    case None
    then show ?thesis using Cons.prems by simp
  next
    case (Some p)
    obtain q st1 where q: "p = (q, st1)" by force
    have "extends n st st1" by (rule wait_single_extends) (use Some q in simp)
    then show ?thesis using Cons Some q extends_trans extends_error by (auto split: if_splits)
  qed
qed simp

lemma take_any_extends: "take_any env t k hs st = (r, st') \<Longrightarrow> extends n st st'"
proof (induction hs arbitrary: k st)
  case (Cons h hs)
  obtain p st1 where p: "probe_wait_handle env t h st = (p, st1)" by force
  have e1: "extends n st st1" by (rule probe_extends [OF p])
  show ?case
  proof (cases p)
    case False
    then have "take_any env t (k + 1) hs st1 = (r, st')" using Cons.prems p by simp
    from extends_trans [OF e1 Cons.IH [OF this]] show ?thesis .
  next
    case True
    show ?thesis
    proof (cases "tl_WaitForSingleObject env t h 0 True st1")
      case None
      then show ?thesis using Cons.prems p True e1 by simp
    next
      case (Some w)
      then obtain q st2 where q: "tl_WaitForSingleObject env t h 0 True st1 = Some (q, st2)" by (cases w) auto
      have e2: "extends n st st2" by (rule extends_trans [OF e1 wait_single_extends [OF q]])
      show ?thesis
      proof (cases "q = kWaitObject0")
        case True
        then show ?thesis using Cons.prems p \<open>p\<close> q extends_trans [OF e2 extends_error] by auto
      next
        case False
        then have "take_any env t (k + 1) hs st2 = (r, st')" using Cons.prems p True q by simp
        from extends_trans [OF e2 Cons.IH [OF this]] show ?thesis .
      qed
    qed
  qed
qed simp

lemma wait_round_extends: "wait_round env t all hs st = (r, st') \<Longrightarrow> extends n st st'"
proof -
  assume a: "wait_round env t all hs st = (r, st')"
  show ?thesis
  proof (cases all)
    case False
    then show ?thesis using a take_any_extends by (auto simp: wait_round_def)
  next
    case True
    obtain p st1 where p: "all_ready env t hs st = (p, st1)" by force
    obtain q st2 where q: "take_all env t hs st1 = (q, st2)" by force
    have e: "extends n st st1" "extends n st st2"
      using all_ready_extends [OF p] take_all_extends [OF q] extends_trans by blast+
    then show ?thesis using a True p q extends_trans extends_error by (cases p; cases q) (auto simp: wait_round_def)
  qed
qed

lemma wait_rounds_extends:
  "wait_rounds t all hs ms pauses st = Some (r, st') \<Longrightarrow> \<forall>(env, others, elapsed) \<in> set pauses. \<forall>s. extends n s (others s) \<Longrightarrow>
     extends n st st'"
proof (induction pauses arbitrary: st)
  case (Cons p pauses)
  obtain env others elapsed where p: "p = (env, others, elapsed)" by (cases p)
  obtain q st1 where q: "wait_round env t all hs st = (q, st1)" by force
  have e: "extends n st st1" by (rule wait_round_extends [OF q])
  have e2: "extends n st1 (others st1)" using Cons.prems(2) p by auto
  show ?case
  proof (cases q)
    case (Some v)
    then show ?thesis using Cons.prems(1) p q e by simp
  next
    case None
    show ?thesis
    proof (cases "ms = 0 \<or> ms \<noteq> kInfinite \<and> ms \<le> elapsed")
      case True
      then show ?thesis using Cons.prems(1) p q None extends_trans [OF e extends_error] by (auto split: if_splits)
    next
      case False
      then have "wait_rounds t all hs ms pauses (others st1) = Some (r, st')" using Cons.prems(1) p q None by auto
      from extends_trans [OF extends_trans [OF e e2] Cons.IH [OF this]] Cons.prems(2) show ?thesis by simp
    qed
  qed
qed simp

lemma get_exit_code_extends: "extends n st (snd (tl_GetExitCodeProcess env t h pointer writable st))"
proof (rule extendsI)
  assume len: "length (g_syncs st) = n"
  show "extends n st (snd (tl_GetExitCodeProcess env t h pointer writable st))"
  proof (cases "find_sync_slot h st")
    case None
    then show ?thesis by (simp add: tl_GetExitCodeProcess_def extends_error)
  next
    case (Some i)
    define s where "s = (case wait_process_slot 0 (we_child env i) (g_syncs st ! i) of Some (_, s) \<Rightarrow> s | None \<Rightarrow> g_syncs st ! i)"
    have i: "i < n" by (rule find_sync_in [OF Some len])
    have "extends n st (upd_sync i (\<lambda>_. s) st)"
    proof (cases "wait_process_slot 0 (we_child env i) (g_syncs st ! i)")
      case None
      then show ?thesis by (simp add: s_def upd_sync_def)
    next
      case (Some p)
      then have "wait_process_slot 0 (we_child env i) (g_syncs st ! i) = Some (fst p, snd p)" "s = snd p"
        by (simp_all add: s_def split: prod.split)
      then show ?thesis using process_extends [OF _ i] by blast
    qed
    from extends_trans [OF this extends_error] show ?thesis
      using Some by (auto simp: tl_GetExitCodeProcess_def s_def [symmetric] Let_def extends_error)
  qed
qed

lemma terminate_extends: "tl_TerminateProcess env t h code killed st = Some (r, st') \<Longrightarrow> extends n st st'"
proof (rule extendsI)
  assume a: "tl_TerminateProcess env t h code killed st = Some (r, st')" and len: "length (g_syncs st) = n"
  show "extends n st st'"
  proof (cases "find_kind Process h st")
    case None
    then show ?thesis using a by (auto simp: tl_TerminateProcess_def intro: extends_error)
  next
    case (Some i)
    have i: "i < n" by (rule find_kind_in [OF Some len])
    have "extends n st (set_error t e (upd_sync i (\<lambda>_. s\<lparr>ss_process_exit_code := code\<rparr>) st))"
      if "wait_process_slot kInfinite (we_child env i) (g_syncs st ! i) = Some (q, s)" for q s e
      using extends_trans [OF exit_code_extends [OF i process_extends [OF that i] len] extends_error] .
    then show ?thesis using a Some
      by (auto simp: tl_TerminateProcess_def Let_def intro: extends_error split: if_splits option.splits)
  qed
qed



section \<open>Waiting for all of several objects\<close>

lemma find_own_handle: "find_sync_slot (sync_slot_handle i) st = (if i < length (g_syncs st) \<and> ss_used (g_syncs st ! i) then Some i else None)"
  by (simp add: find_sync_slot_def sync_slot_handle_def)

definition plain_objects :: "wait_env \<Rightarrow> nat list \<Rightarrow> sync_state \<Rightarrow> bool" where
  "plain_objects env is st \<longleftrightarrow> (\<forall>i \<in> set is. i < 256 \<and> i < length (g_syncs st) \<and> ss_used (g_syncs st ! i) \<and> ss_kind (g_syncs st ! i) \<noteq> Process \<and>
     we_file env (sync_slot_handle i) = NotFile \<and> we_thread env (sync_slot_handle i) = None)"

lemma plain_objects_Cons:
  "plain_objects env (i # is) st \<longleftrightarrow> plain_objects env [i] st \<and> plain_objects env is st"
  by (auto simp: plain_objects_def)

lemma small_handle: "i < 256 \<Longrightarrow> sync_slot_handle i \<noteq> 0 \<and> sync_slot_handle i \<noteq> kInvalidHandleValue"
  by (simp add: sync_slot_handle_def kSyncHandleBase_def kInvalidHandleValue_def)

lemma probe_plain: "plain_objects env [i] st \<Longrightarrow> probe_wait_handle env t (sync_slot_handle i) st = (wait_ready t (g_syncs st ! i), st)"
  using small_handle [of i]
  by (auto simp: probe_wait_handle_def plain_objects_def find_own_handle sync_is_signaled_def wait_ready_def)

lemma all_ready_plain:
  "plain_objects env is st \<Longrightarrow> all_ready env t (map sync_slot_handle is) st = (\<forall>i \<in> set is. wait_ready t (g_syncs st ! i), st)"
proof (induction "is")
  case (Cons i "is")
  then have "plain_objects env [i] st" "plain_objects env is st" using plain_objects_Cons by blast+
  then show ?case using Cons.IH by (simp add: probe_plain split: prod.splits bool.splits)
qed simp

lemma take_plain:
  assumes "plain_objects env [i] st" "wait_ready t (g_syncs st ! i)"
  shows "tl_WaitForSingleObject env t (sync_slot_handle i) ms late st =
    Some (kWaitObject0, set_error t kSuccess (upd_sync i (take_object t) st))"
  using assms small_handle [of i]
  by (auto simp: tl_WaitForSingleObject_def plain_objects_def find_own_handle wait_sync_slot_def wait_locked_def Let_def
      kWaitObject0_def kWaitFailed_def)

lemma taken_plain:
  assumes "plain_objects env is st" "i \<notin> set is"
  shows "plain_objects env is (set_error t e (upd_sync i f st))"
    "j \<in> set is \<Longrightarrow> g_syncs (set_error t e (upd_sync i f st)) ! j = g_syncs st ! j"
proof -
  have eq: "g_syncs (set_error t e (upd_sync i f st)) ! j = g_syncs st ! j" if "j \<in> set is" for j
  proof -
    have "j \<noteq> i" using that assms(2) by blast
    then show ?thesis by (simp add: set_error_def upd_sync_def)
  qed
  show "plain_objects env is (set_error t e (upd_sync i f st))"
    using assms(1) eq by (simp add: plain_objects_def set_error_def upd_sync_def)
  show "j \<in> set is \<Longrightarrow> g_syncs (set_error t e (upd_sync i f st)) ! j = g_syncs st ! j" by (rule eq)
qed

definition take_slots :: "nat \<Rightarrow> nat list \<Rightarrow> SyncSlot list \<Rightarrow> SyncSlot list" where
  "take_slots t is ss = map (\<lambda>i. if i \<in> set is then take_object t (ss ! i) else ss ! i) [0..<length ss]"

lemma take_slots_Cons:
  assumes "i \<notin> set is" "i < length ss"
  shows "take_slots t is (ss[i := take_object t (ss ! i)]) = take_slots t (i # is) ss"
  using assms by (auto simp: take_slots_def nth_list_update intro!: nth_equalityI)

lemma take_all_plain:
  "plain_objects env is st \<Longrightarrow> distinct is \<Longrightarrow> \<forall>i \<in> set is. wait_ready t (g_syncs st ! i) \<Longrightarrow>
   \<exists>st'. take_all env t (map sync_slot_handle is) st = (True, st') \<and> g_syncs st' = take_slots t is (g_syncs st)"
proof (induction "is" arbitrary: st)
  case Nil
  then show ?case by (simp add: take_slots_def map_nth)
next
  case (Cons i "is")
  let ?st = "set_error t kSuccess (upd_sync i (take_object t) st)"
  have p: "plain_objects env [i] st" "plain_objects env is st" using Cons.prems(1) plain_objects_Cons by blast+
  have d: "i \<notin> set is" "distinct is" using Cons.prems(2) by auto
  have "\<forall>j \<in> set is. wait_ready t (g_syncs ?st ! j)" using Cons.prems(3) taken_plain(2) [OF p(2) d(1)] by simp
  from Cons.IH [OF taken_plain(1) [OF p(2) d(1)] d(2) this]
  obtain st' where st': "take_all env t (map sync_slot_handle is) ?st = (True, st')" "g_syncs st' = take_slots t is (g_syncs ?st)" by blast
  have "g_syncs ?st = (g_syncs st)[i := take_object t (g_syncs st ! i)]" by (simp add: set_error_def upd_sync_def)
  then have "g_syncs st' = take_slots t (i # is) (g_syncs st)"
    using st'(2) p(1) d(1) by (simp add: take_slots_Cons plain_objects_def)
  moreover have "take_all env t (map sync_slot_handle (i # is)) st = (True, st')"
    using take_plain [OF p(1)] Cons.prems(3) st'(1) by (simp add: kWaitObject0_def kWaitFailed_def)
  ultimately show ?case by blast
qed


definition quiet_env :: wait_env where
  "quiet_env = \<lparr>we_file = \<lambda>_. NotFile, we_thread = \<lambda>_. None, we_child = \<lambda>_. []\<rparr>"

definition two_semaphores :: sync_state where
  "two_semaphores = snd (history [(5, CreateSemaphore 1 3), (5, CreateSemaphore 2 3)])"

lemma two_semaphores_plain:
  "map ss_used (g_syncs two_semaphores) = [True, True]" "map ss_kind (g_syncs two_semaphores) = [Semaphore, Semaphore]"
  "map ss_count (g_syncs two_semaphores) = [1, 2]"
  by code_simp+


text \<open>
  The same object twice in the array: the second taking times out, which nothing notices. The wait reports
  that it took both, although the object could be taken once only.
\<close>

lemma duplicate_handle_taken_once:
  assumes "plain_objects env [i] st" "wait_ready t (g_syncs st ! i)" "\<not> wait_ready t (take_object t (g_syncs st ! i))"
    "ss_used (take_object t (g_syncs st ! i))" "ss_kind (take_object t (g_syncs st ! i)) \<noteq> Process"
  shows "\<exists>st'. tl_WaitForMultipleObjects env t 2 (Some [sync_slot_handle i, sync_slot_handle i]) 1 0 [(env, others, 0)] st = Some (kWaitObject0, st') \<and>
    g_syncs st' ! i = take_object t (g_syncs st ! i)"
proof -
  let ?h = "sync_slot_handle i" and ?st = "set_error t kSuccess (upd_sync i (take_object t) st)"
  have i: "i < length (g_syncs st)" using assms(1) by (simp add: plain_objects_def)
  have g: "g_syncs ?st ! i = take_object t (g_syncs st ! i)" using i by (simp add: set_error_def upd_sync_def)
  have p2: "plain_objects env [i] ?st" using assms i g by (simp add: plain_objects_def set_error_def upd_sync_def)
  have late: "tl_WaitForSingleObject env t ?h 0 True ?st = Some (kWaitTimeout, set_error t kSuccess ?st)"
    using p2 assms(3) g small_handle [of i]
    by (simp add: tl_WaitForSingleObject_def plain_objects_def find_own_handle wait_sync_slot_def wait_locked_def Let_def
        kWaitTimeout_def kWaitFailed_def kInfinite_def)
  have "known_handle env ?h st" using assms(1) small_handle [of i] by (simp add: known_handle_def find_own_handle plain_objects_def)
  moreover have "all_ready env t [?h, ?h] st = (True, st)" using probe_plain [OF assms(1)] assms(2) by simp
  moreover have "take_all env t [?h, ?h] st = (True, set_error t kSuccess ?st)"
    using take_plain [OF assms(1,2)] late by (simp add: kWaitObject0_def kWaitFailed_def kWaitTimeout_def)
  ultimately have "tl_WaitForMultipleObjects env t 2 (Some [?h, ?h]) 1 0 [(env, others, 0)] st =
      Some (kWaitObject0, set_error t kSuccess (set_error t kSuccess ?st))"
    by (simp add: tl_WaitForMultipleObjects_def wait_round_def)
  then show ?thesis using g by (auto simp: set_error_def)
qed

text \<open>
  \<open>CloseHandle\<close> looks the slot up under one lock and clears it under the next: a thread that lost the race
  to close an event clears the mutex another thread has just created in its slot.
\<close>

lemma stale_close_clears_other_object:
  "fst (history [(5, CreateEvent False False), (5, CloseSync 0), (7, CreateMutex True), (6, CloseSync 0)]) =
     [(5, CreateEvent False False, Created 0), (5, CloseSync 0, Finished True), (7, CreateMutex True, Created 0), (6, CloseSync 0, Finished True)]"
  "\<not> ss_used (g_syncs (snd (history [(5, CreateEvent False False), (5, CloseSync 0), (7, CreateMutex True), (6, CloseSync 0)])) ! 0)"
  by code_simp+

section \<open>Completion ports deliver in order\<close>

text \<open>
  The sections of completion ports, in any order and also on ports closed since the call looked them up;
  the books note what was sent to a port since it was created or closed, and what was taken from it.
\<close>

inductive port_trace :: "nat \<Rightarrow> ports \<Rightarrow> (nat \<Rightarrow> IoCompletionPacket list) \<Rightarrow> (nat \<Rightarrow> IoCompletionPacket list) \<Rightarrow> bool" for n where
  no_port: "port_trace n (replicate n \<lparr>port_used = False, port_queue = []\<rparr>) (\<lambda>_. []) (\<lambda>_. [])"
| create_port: "port_trace n ps sent got \<Longrightarrow> tl_CreateIoCompletionPort 0 ps = (h, e, ps') \<Longrightarrow> h \<noteq> 0 \<Longrightarrow>
    port_trace n ps' (sent(h - kIocpHandleBase := [])) (got(h - kIocpHandleBase := []))"
| send: "port_trace n ps sent got \<Longrightarrow> i < n \<Longrightarrow> port_trace n (post_locked i p ps) (sent(i := sent i @ [p])) got"
| take: "port_trace n ps sent got \<Longrightarrow> i < n \<Longrightarrow> take_locked i ps = Some (p, ps') \<Longrightarrow> port_trace n ps' sent (got(i := got i @ [p]))"
| close: "port_trace n ps sent got \<Longrightarrow> close_iocp_handle h ps = (True, ps') \<Longrightarrow>
    port_trace n ps' (sent(h - kIocpHandleBase := [])) (got(h - kIocpHandleBase := []))"

lemma port_of_handle: "find_iocp_slot h ps = Some i \<Longrightarrow> i = h - kIocpHandleBase \<and> i < length ps"
  by (auto simp: find_iocp_slot_def Let_def split: if_splits)

lemma created_port:
  assumes "tl_CreateIoCompletionPort 0 ps = (h, e, ps')" "h \<noteq> 0"
  shows "h - kIocpHandleBase < length ps \<and> ps' = ps[h - kIocpHandleBase := \<lparr>port_used = True, port_queue = []\<rparr>]"
  using assms by (auto simp: tl_CreateIoCompletionPort_def find_Some_iff split: option.splits)

lemma port_books:
  "port_trace n ps sent got \<Longrightarrow> length ps = n \<and> (\<forall>i < n. got i @ port_queue (ps ! i) = sent i)"
proof (induction rule: port_trace.induct)
  case (create_port ps sent got h e ps')
  then show ?case using created_port [OF create_port(2,3)] by (auto simp: nth_list_update)
next
  case (send ps sent got i p)
  then show ?case by (auto simp: post_locked_def nth_list_update append_assoc [symmetric] simp del: append_assoc)
next
  case (take ps sent got i p ps')
  then show ?case by (auto simp: take_locked_def nth_list_update split: list.splits)
next
  case (close ps sent got h ps')
  then show ?case by (auto simp: close_iocp_handle_def nth_list_update dest!: port_of_handle split: option.splits)
qed simp

text \<open>
  a completion port delivers in order: in every interleaving of creating, posting, taking and closing,
  what was taken from a port since it was created or closed is the beginning of what was sent to it, and the
  next packet taken is the first not yet delivered; none is to be had exactly when all were delivered.
\<close>

theorem port_delivers_in_order:
  assumes "port_trace n ps sent got" "i < n"
  shows "(case take_locked i ps of
      Some (packet, ps') \<Rightarrow> \<exists>rest. sent i = got i @ packet # rest \<and> port_queue (ps' ! i) = rest
    | None \<Rightarrow> sent i = got i)"
proof -
  have "length ps = n" "got i @ port_queue (ps ! i) = sent i" using port_books [OF assms(1)] assms(2) by auto
  then show ?thesis using assms(2) by (auto simp: take_locked_def split: list.split)
qed

lemma port_delivers_in_order_witness:
  "take_locked 0 (post_locked 0 \<lparr>bytes_transferred = 2, completion_key = 8, overlapped = 0\<rparr>
      (post_locked 0 \<lparr>bytes_transferred = 1, completion_key = 7, overlapped = 0\<rparr> [\<lparr>port_used = False, port_queue = []\<rparr>])) \<noteq> None"
proof -
  define p q where "p = \<lparr>bytes_transferred = 1, completion_key = 7, overlapped = 0\<rparr>"
    and "q = \<lparr>bytes_transferred = 2, completion_key = 8, overlapped = 0\<rparr>"
  have "port_trace 1 (replicate 1 \<lparr>port_used = False, port_queue = []\<rparr>) (\<lambda>_. []) (\<lambda>_. [])" by (rule no_port)
  from send [OF this, of 0 p] have "port_trace 1 (post_locked 0 p [\<lparr>port_used = False, port_queue = []\<rparr>]) ((\<lambda>_. [])(0 := [p])) (\<lambda>_. [])"
    by simp
  from send [OF this, of 0 q]
  have "port_trace 1 (post_locked 0 q (post_locked 0 p [\<lparr>port_used = False, port_queue = []\<rparr>])) ((\<lambda>_. [])(0 := [p, q])) (\<lambda>_. [])"
    by simp
  from port_delivers_in_order [OF this, of 0] show ?thesis unfolding p_def q_def by (auto split: option.splits)
qed

end
