(* ===== verification/Sync_Locks.thy ===== *)
theory Sync_Locks
  imports Error_Map
begin

text \<open>
  The locks that live in memory of the guest, from \<open>sync.cpp\<close> and \<open>winapi.cpp\<close>: critical sections, slim
  reader/writer locks, one-time initialization. Tables of the runtime hold a host lock for each address;
  the host's \<open>pthread_mutex_t\<close> and \<open>std::shared_mutex\<close> are modelled by what they document. A lock that
  another thread holds makes a step impossible (\<open>None\<close>).
\<close>

section \<open>Critical sections\<close>

text \<open>A recursive mutex of the host: its owner and how often he locked it. Unlocking by another is refused.\<close>

type_synonym host_mutex = "(nat \<times> nat) option"

fun mutex_lock :: "nat \<Rightarrow> host_mutex \<Rightarrow> host_mutex option" where
  "mutex_lock t None = Some (Some (t, 1))"
| "mutex_lock t (Some (owner, depth)) = (if owner = t then Some (Some (t, depth + 1)) else None)"

fun mutex_unlock :: "nat \<Rightarrow> host_mutex \<Rightarrow> host_mutex" where
  "mutex_unlock t None = None"
| "mutex_unlock t (Some (owner, depth)) =
     (if owner \<noteq> t then Some (owner, depth) else if depth \<le> 1 then None else Some (owner, depth - 1))"

record CriticalSectionEntry =
  guest_address :: u64
  cs_used :: bool
  cs_mutex :: host_mutex

definition no_entry :: CriticalSectionEntry where
  "no_entry = \<lparr>guest_address = 0, cs_used = False, cs_mutex = None\<rparr>"

definition find_cs_entry :: "u64 \<Rightarrow> CriticalSectionEntry list \<Rightarrow> nat option" where
  "find_cs_entry cs es = (if cs = 0 then None else find (\<lambda>i. cs_used (es ! i) \<and> guest_address (es ! i) = cs) [0..<length es])"

definition alloc_cs_entry :: "u64 \<Rightarrow> CriticalSectionEntry list \<Rightarrow> nat option \<times> CriticalSectionEntry list" where
  "alloc_cs_entry cs es =
     (case find (\<lambda>i. \<not> cs_used (es ! i)) [0..<length es] of
        None \<Rightarrow> (None, es)
      | Some i \<Rightarrow> (Some i, es[i := \<lparr>guest_address = cs, cs_used = True, cs_mutex = None\<rparr>]))"

definition delete_cs_entry :: "u64 \<Rightarrow> CriticalSectionEntry list \<Rightarrow> CriticalSectionEntry list" where
  "delete_cs_entry cs es = (case find_cs_entry cs es of None \<Rightarrow> es | Some i \<Rightarrow> es[i := no_entry])"

definition upd_mutex :: "nat \<Rightarrow> host_mutex \<Rightarrow> CriticalSectionEntry list \<Rightarrow> CriticalSectionEntry list" where
  "upd_mutex i m es = es[i := (es ! i)\<lparr>cs_mutex := m\<rparr>]"

text \<open>
  Where a thread is inside a call: entering looks the entry up, then perhaps allocates one, then locks; the
  table is locked only within each of these. \<open>tryit\<close> tells \<open>TryEnterCriticalSection\<close>. \<open>inside\<close> counts how
  often a thread was told that it entered, less how often it began to leave.
\<close>

datatype cs_pc = Idle | Allocating bool u64 | Locking bool u64 nat | Unlocking u64 nat

record cs_state =
  g_critical_sections :: "CriticalSectionEntry list"
  cs_at :: "nat \<Rightarrow> cs_pc"
  inside :: "nat \<Rightarrow> u64 \<Rightarrow> nat"

definition goto_pc :: "nat \<Rightarrow> cs_pc \<Rightarrow> cs_state \<Rightarrow> cs_state" where
  "goto_pc t pc st = st\<lparr>cs_at := (cs_at st)(t := pc)\<rparr>"

definition now_inside :: "nat \<Rightarrow> u64 \<Rightarrow> cs_state \<Rightarrow> cs_state" where
  "now_inside t cs st = st\<lparr>inside := (inside st)(t := (inside st t)(cs := inside st t cs + 1))\<rparr>"

definition now_outside :: "nat \<Rightarrow> u64 \<Rightarrow> cs_state \<Rightarrow> cs_state" where
  "now_outside t cs st = st\<lparr>inside := (inside st)(t := (inside st t)(cs := inside st t cs - 1))\<rparr>"

datatype cs_action = InitializeCs u64 | EnterCs bool u64 | LeaveCs u64 | DeleteCs u64 | GoOn

text \<open>The first section of \<open>EnterCriticalSection\<close> and of \<open>TryEnterCriticalSection\<close>.\<close>

definition enter_lookup :: "nat \<Rightarrow> bool \<Rightarrow> u64 \<Rightarrow> cs_state \<Rightarrow> cs_state" where
  "enter_lookup t tryit cs st =
     (if cs = 0 then st
      else case find_cs_entry cs (g_critical_sections st) of
        Some i \<Rightarrow> goto_pc t (Locking tryit cs i) st
      | None \<Rightarrow> goto_pc t (Allocating tryit cs) st)"

text \<open>Without an entry entering returns to the guest, which cannot tell: the function has no result.\<close>

definition enter_alloc :: "nat \<Rightarrow> bool \<Rightarrow> u64 \<Rightarrow> cs_state \<Rightarrow> cs_state" where
  "enter_alloc t tryit cs st =
     (case alloc_cs_entry cs (g_critical_sections st) of
        (Some i, es) \<Rightarrow> goto_pc t (Locking tryit cs i) (st\<lparr>g_critical_sections := es\<rparr>)
      | (None, es) \<Rightarrow> if tryit then goto_pc t Idle st else now_inside t cs (goto_pc t Idle st))"

definition enter_lock :: "nat \<Rightarrow> bool \<Rightarrow> u64 \<Rightarrow> nat \<Rightarrow> cs_state \<Rightarrow> cs_state option" where
  "enter_lock t tryit cs i st =
     (case mutex_lock t (cs_mutex (g_critical_sections st ! i)) of
        Some m \<Rightarrow> Some (now_inside t cs (goto_pc t Idle (st\<lparr>g_critical_sections := upd_mutex i m (g_critical_sections st)\<rparr>)))
      | None \<Rightarrow> if tryit then Some (goto_pc t Idle st) else None)"

definition leave_lookup :: "nat \<Rightarrow> u64 \<Rightarrow> cs_state \<Rightarrow> cs_state" where
  "leave_lookup t cs st =
     (if cs = 0 then st
      else now_outside t cs (case find_cs_entry cs (g_critical_sections st) of
        Some i \<Rightarrow> goto_pc t (Unlocking cs i) st
      | None \<Rightarrow> st))"

definition leave_unlock :: "nat \<Rightarrow> nat \<Rightarrow> cs_state \<Rightarrow> cs_state" where
  "leave_unlock t i st =
     goto_pc t Idle (st\<lparr>g_critical_sections :=
       upd_mutex i (mutex_unlock t (cs_mutex (g_critical_sections st ! i))) (g_critical_sections st)\<rparr>)"

fun cs_go_on :: "nat \<Rightarrow> cs_pc \<Rightarrow> cs_state \<Rightarrow> cs_state option" where
  "cs_go_on t Idle st = None"
| "cs_go_on t (Allocating tryit cs) st = Some (enter_alloc t tryit cs st)"
| "cs_go_on t (Locking tryit cs i) st = enter_lock t tryit cs i st"
| "cs_go_on t (Unlocking cs i) st = Some (leave_unlock t i st)"

text \<open>Initializing reports nothing either when the table is full.\<close>

fun cs_section :: "nat \<Rightarrow> cs_action \<Rightarrow> cs_state \<Rightarrow> cs_state option" where
  "cs_section t GoOn st = cs_go_on t (cs_at st t) st"
| "cs_section t (InitializeCs cs) st =
     (if cs_at st t \<noteq> Idle then None
      else Some (if cs = 0 then st else st\<lparr>g_critical_sections := snd (alloc_cs_entry cs (g_critical_sections st))\<rparr>))"
| "cs_section t (EnterCs tryit cs) st = (if cs_at st t \<noteq> Idle then None else Some (enter_lookup t tryit cs st))"
| "cs_section t (LeaveCs cs) st = (if cs_at st t \<noteq> Idle then None else Some (leave_lookup t cs st))"
| "cs_section t (DeleteCs cs) st =
     (if cs_at st t \<noteq> Idle then None else Some (st\<lparr>g_critical_sections := delete_cs_entry cs (g_critical_sections st)\<rparr>))"

definition start_cs :: "nat \<Rightarrow> cs_state" where
  "start_cs n = \<lparr>g_critical_sections = replicate n no_entry, cs_at = \<lambda>_. Idle, inside = \<lambda>_ _. 0\<rparr>"

section \<open>Exclusion by critical sections\<close>

text \<open>
  The rules Windows documents: initialize once, and successfully, before use; leave what was entered; delete
  what nobody uses.
\<close>

fun about :: "cs_pc \<Rightarrow> u64 option" where
  "about Idle = None"
| "about (Allocating tryit cs) = Some cs"
| "about (Locking tryit cs i) = Some cs"
| "about (Unlocking cs i) = Some cs"

definition unused_cs :: "u64 \<Rightarrow> cs_state \<Rightarrow> bool" where
  "unused_cs cs st \<longleftrightarrow> (\<forall>t. about (cs_at st t) \<noteq> Some cs \<and> inside st t cs = 0)"

fun obeys :: "nat \<Rightarrow> cs_action \<Rightarrow> cs_state \<Rightarrow> bool" where
  "obeys t GoOn st = True"
| "obeys t (InitializeCs cs) st = (find_cs_entry cs (g_critical_sections st) = None \<and> unused_cs cs st)"
| "obeys t (EnterCs tryit cs) st = (find_cs_entry cs (g_critical_sections st) \<noteq> None)"
| "obeys t (LeaveCs cs) st = (0 < inside st t cs)"
| "obeys t (DeleteCs cs) st = unused_cs cs st"

inductive cs_reach :: "nat \<Rightarrow> cs_state \<Rightarrow> bool" for n where
  cs_start: "cs_reach n (start_cs n)"
| cs_step: "cs_reach n st \<Longrightarrow> obeys t a st \<Longrightarrow> cs_section t a st = Some st' \<Longrightarrow> cs_reach n st'"

definition entry_of :: "u64 \<Rightarrow> nat \<Rightarrow> CriticalSectionEntry list \<Rightarrow> bool" where
  "entry_of cs i es \<longleftrightarrow> cs \<noteq> 0 \<and> i < length es \<and> cs_used (es ! i) \<and> guest_address (es ! i) = cs"

definition unique_entries :: "CriticalSectionEntry list \<Rightarrow> bool" where
  "unique_entries es \<longleftrightarrow> (\<forall>cs i j. entry_of cs i es \<and> entry_of cs j es \<longrightarrow> i = j)"

fun mutex_depth :: "host_mutex \<Rightarrow> nat \<Rightarrow> nat" where
  "mutex_depth None t = 0"
| "mutex_depth (Some (owner, depth)) t = (if owner = t then depth else 0)"

definition mutex_sane :: "host_mutex \<Rightarrow> bool" where
  "mutex_sane m \<longleftrightarrow> (case m of None \<Rightarrow> True | Some (owner, depth) \<Rightarrow> 0 < depth)"

fun entry_in :: "cs_pc \<Rightarrow> CriticalSectionEntry list \<Rightarrow> bool" where
  "entry_in Idle es = True"
| "entry_in (Allocating tryit cs) es = False"
| "entry_in (Locking tryit cs i) es = entry_of cs i es"
| "entry_in (Unlocking cs i) es = entry_of cs i es"

text \<open>What is left to unlock.\<close>

definition leaving :: "cs_pc \<Rightarrow> u64 \<Rightarrow> nat" where
  "leaving pc cs = (case pc of Unlocking c i \<Rightarrow> if c = cs then 1 else 0 | _ \<Rightarrow> 0)"

definition cs_ok :: "cs_state \<Rightarrow> bool" where
  "cs_ok st \<longleftrightarrow>
     unique_entries (g_critical_sections st) \<and>
     (\<forall>t. entry_in (cs_at st t) (g_critical_sections st)) \<and>
     (\<forall>t cs. 0 < inside st t cs \<longrightarrow> (\<exists>i. entry_of cs i (g_critical_sections st))) \<and>
     (\<forall>cs i. entry_of cs i (g_critical_sections st) \<longrightarrow> mutex_sane (cs_mutex (g_critical_sections st ! i))) \<and>
     (\<forall>cs i. entry_of cs i (g_critical_sections st) \<longrightarrow>
        (\<forall>t. mutex_depth (cs_mutex (g_critical_sections st ! i)) t = inside st t cs + leaving (cs_at st t) cs))"

lemma find_cs_entry_Some: "find_cs_entry cs es = Some i \<Longrightarrow> entry_of cs i es"
  by (auto simp: find_cs_entry_def entry_of_def find_Some_iff split: if_splits)

lemma find_cs_entry_None: "cs \<noteq> 0 \<Longrightarrow> find_cs_entry cs es = None \<longleftrightarrow> (\<forall>i. \<not> entry_of cs i es)"
  by (auto simp: find_cs_entry_def entry_of_def find_None_iff)

lemma entry_of_unique: "unique_entries es \<Longrightarrow> entry_of cs i es \<Longrightarrow> entry_of cs j es \<Longrightarrow> i = j"
  by (auto simp: unique_entries_def)

lemma find_own_entry: "unique_entries es \<Longrightarrow> entry_of cs i es \<Longrightarrow> find_cs_entry cs es = Some i"
proof -
  assume u: "unique_entries es" and i: "entry_of cs i es"
  have "find_cs_entry cs es \<noteq> None" using find_cs_entry_None [of cs es] i by (auto simp: entry_of_def)
  then obtain j where j: "find_cs_entry cs es = Some j" by blast
  with entry_of_unique [OF u i find_cs_entry_Some [OF j]] show ?thesis by simp
qed

lemma upd_mutex_fields [simp]:
  "cs_used (upd_mutex j m es ! i) = cs_used (es ! i)" "guest_address (upd_mutex j m es ! i) = guest_address (es ! i)"
  "length (upd_mutex j m es) = length es"
proof -
  have "upd_mutex j m es ! i = (if i = j \<and> j < length es then (es ! j)\<lparr>cs_mutex := m\<rparr> else es ! i)"
    by (cases "j < length es") (simp_all add: upd_mutex_def nth_list_update list_update_beyond)
  then show "cs_used (upd_mutex j m es ! i) = cs_used (es ! i)" "guest_address (upd_mutex j m es ! i) = guest_address (es ! i)"
    by simp_all
  show "length (upd_mutex j m es) = length es" by (simp add: upd_mutex_def)
qed

lemma upd_mutex_nth: "i < length es \<Longrightarrow> cs_mutex (upd_mutex j m es ! i) = (if i = j then m else cs_mutex (es ! i))"
  by (auto simp: upd_mutex_def nth_list_update)

lemma entry_of_upd_mutex [simp]: "entry_of cs i (upd_mutex j m es) = entry_of cs i es"
  by (simp add: entry_of_def)

lemma unique_upd_mutex [simp]: "unique_entries (upd_mutex j m es) = unique_entries es"
  by (simp add: unique_entries_def)

lemma entry_in_upd_mutex [simp]: "entry_in pc (upd_mutex j m es) = entry_in pc es"
  by (cases pc) simp_all

lemma mutex_lock_depth: "mutex_lock t m = Some m' \<Longrightarrow> mutex_depth m' u = mutex_depth m u + (if u = t then 1 else 0)"
  by (cases "(t, m)" rule: mutex_lock.cases) (auto split: if_splits)

lemma mutex_unlock_depth: "0 < mutex_depth m t \<Longrightarrow> mutex_depth (mutex_unlock t m) u = mutex_depth m u - (if u = t then 1 else 0)"
  by (cases "(t, m)" rule: mutex_unlock.cases) (auto split: if_splits)

lemma mutex_saneI [intro]:
  "mutex_lock t m = Some m' \<Longrightarrow> mutex_sane m'"
  "mutex_sane m \<Longrightarrow> mutex_sane (mutex_unlock t m)"
  by (cases "(t, m)" rule: mutex_lock.cases; auto simp: mutex_sane_def split: if_splits)+

lemma about_leaving: "about pc \<noteq> Some cs \<Longrightarrow> leaving pc cs = 0"
  by (cases pc) (auto simp: leaving_def)

lemma cs_okD:
  assumes "cs_ok st"
  shows "unique_entries (g_critical_sections st)" "entry_in (cs_at st t) (g_critical_sections st)"
    "0 < inside st t cs \<Longrightarrow> \<exists>i. entry_of cs i (g_critical_sections st)"
    "entry_of cs i (g_critical_sections st) \<Longrightarrow>
      mutex_depth (cs_mutex (g_critical_sections st ! i)) t = inside st t cs + leaving (cs_at st t) cs"
    "entry_of cs i (g_critical_sections st) \<Longrightarrow> mutex_sane (cs_mutex (g_critical_sections st ! i))"
  using assms by (auto simp: cs_ok_def)

lemma initialize_ok:
  assumes "cs_ok st" "cs \<noteq> 0" "find_cs_entry cs (g_critical_sections st) = None" "unused_cs cs st"
  shows "cs_ok (st\<lparr>g_critical_sections := snd (alloc_cs_entry cs (g_critical_sections st))\<rparr>)"
proof -
  let ?es = "g_critical_sections st"
  show ?thesis
  proof (cases "find (\<lambda>i. \<not> cs_used (?es ! i)) [0..<length ?es]")
    case None
    then show ?thesis using assms(1) by (simp add: alloc_cs_entry_def)
  next
    case (Some i)
    let ?es' = "?es[i := \<lparr>guest_address = cs, cs_used = True, cs_mutex = None\<rparr>]"
    have i: "i < length ?es" "\<not> cs_used (?es ! i)" using Some by (auto simp: find_Some_iff)
    have none: "\<not> entry_of cs j ?es" for j using assms(2,3) find_cs_entry_None by blast
    have e: "entry_of c j ?es' \<longleftrightarrow> entry_of c j ?es \<or> c = cs \<and> j = i" for c j
      by (cases "j = i") (use i assms(2) in \<open>auto simp: entry_of_def\<close>)
    have "j = k" if "entry_of c j ?es'" "entry_of c k ?es'" for c j k
      using that none [of j] none [of k] e [of c j] e [of c k] entry_of_unique [OF cs_okD(1) [OF assms(1)], of c j k] by auto
    then have "unique_entries ?es'" unfolding unique_entries_def by blast
    moreover have "entry_in (cs_at st t) ?es'" for t
      using cs_okD(2) [OF assms(1), of t] e by (cases "cs_at st t") auto
    moreover have "mutex_depth (cs_mutex (?es' ! j)) t = inside st t c + leaving (cs_at st t) c" if "entry_of c j ?es'" for c j t
    proof (cases "c = cs \<and> j = i")
      case True
      then show ?thesis using i assms(4) by (simp add: unused_cs_def about_leaving)
    next
      case False
      then have c: "entry_of c j ?es" using that e by blast
      then have "j \<noteq> i" using i(2) by (auto simp: entry_of_def)
      then show ?thesis using cs_okD(4) [OF assms(1) c] by simp
    qed
    moreover have "\<exists>j. entry_of c j ?es'" if "0 < inside st t c" for t c
      using cs_okD(3) [OF assms(1) that] e by blast
    moreover have "mutex_sane (cs_mutex (?es' ! j))" if "entry_of c j ?es'" for c j
    proof (cases "j = i")
      case True
      then show ?thesis using i(1) by (simp add: mutex_sane_def)
    next
      case False
      then show ?thesis using cs_okD(5) [OF assms(1)] that e by auto
    qed
    ultimately show ?thesis using Some by (simp add: cs_ok_def alloc_cs_entry_def)
  qed
qed

lemma delete_ok:
  assumes "cs_ok st" "unused_cs cs st"
  shows "cs_ok (st\<lparr>g_critical_sections := delete_cs_entry cs (g_critical_sections st)\<rparr>)"
proof -
  let ?es = "g_critical_sections st"
  show ?thesis
  proof (cases "find_cs_entry cs ?es")
    case None
    then show ?thesis using assms(1) by (simp add: delete_cs_entry_def)
  next
    case (Some i)
    let ?es' = "?es[i := no_entry]"
    have i: "entry_of cs i ?es" by (rule find_cs_entry_Some [OF Some])
    have e: "entry_of c j ?es' \<longleftrightarrow> entry_of c j ?es \<and> j \<noteq> i" for c j
      by (cases "j = i") (use i in \<open>auto simp: entry_of_def no_entry_def\<close>)
    have other: "entry_of c j ?es \<Longrightarrow> c \<noteq> cs \<Longrightarrow> entry_of c j ?es'" for c j
      using i e by (auto simp: entry_of_def)
    have "j = k" if "entry_of c j ?es'" "entry_of c k ?es'" for c j k
      using that e [of c j] e [of c k] entry_of_unique [OF cs_okD(1) [OF assms(1)], of c j k] by auto
    then have "unique_entries ?es'" unfolding unique_entries_def by blast
    moreover have "entry_in (cs_at st t) ?es'" for t
      using cs_okD(2) [OF assms(1), of t] assms(2) other by (cases "cs_at st t") (auto simp: unused_cs_def dest: spec [of _ t])
    moreover have "\<exists>j. entry_of c j ?es'" if "0 < inside st t c" for t c
      using cs_okD(3) [OF assms(1) that] that assms(2) other by (metis unused_cs_def less_irrefl)
    moreover have "mutex_depth (cs_mutex (?es' ! j)) t = inside st t c + leaving (cs_at st t) c" if "entry_of c j ?es'" for c j t
      using that e cs_okD(4) [OF assms(1)] by simp
    moreover have "mutex_sane (cs_mutex (?es' ! j))" if "entry_of c j ?es'" for c j
      using that e cs_okD(5) [OF assms(1), of c j] by auto
    ultimately show ?thesis using Some by (simp add: cs_ok_def delete_cs_entry_def)
  qed
qed

text \<open>Steps that keep the table but for one mutex, and move one thread.\<close>

lemma move_ok:
  assumes "cs_ok st" "entry_of cs i (g_critical_sections st)" "entry_in pc (g_critical_sections st)"
    and "g_critical_sections st' = upd_mutex i m (g_critical_sections st)" "cs_at st' = (cs_at st)(t := pc)"
    and "inside st' = (inside st)(t := (inside st t)(cs := k))"
    and "\<And>u. mutex_depth m u = (if u = t then k + leaving pc cs else inside st u cs + leaving (cs_at st u) cs)"
    and "\<And>c. c \<noteq> cs \<Longrightarrow> leaving pc c = leaving (cs_at st t) c" "mutex_sane m"
  shows "cs_ok st'"
proof -
  let ?es = "g_critical_sections st"
  have "\<exists>j. entry_of c j ?es" if "0 < inside st' u c" for u c
    using that assms(2,6) cs_okD(3) [OF assms(1), of u c] by (cases "u = t \<and> c = cs") (auto split: if_splits)
  moreover have "mutex_depth (cs_mutex (upd_mutex i m ?es ! j)) u = inside st' u c + leaving (cs_at st' u) c" if "entry_of c j ?es" for c j u
  proof (cases "c = cs")
    case True
    then have "j = i" using entry_of_unique [OF cs_okD(1) [OF assms(1)]] assms(2) that by blast
    then show ?thesis using True assms(2,5-7) by (simp add: upd_mutex_nth entry_of_def)
  next
    case False
    then have "j \<noteq> i" using assms(2) that by (auto simp: entry_of_def)
    then show ?thesis using False cs_okD(4) [OF assms(1) that, of u] assms(5,6,8) that by (simp add: upd_mutex_nth entry_of_def)
  qed
  moreover have "mutex_sane (cs_mutex (upd_mutex i m ?es ! j))" if "entry_of c j ?es" for c j
    using cs_okD(5) [OF assms(1) that] assms(9) that by (simp add: upd_mutex_nth entry_of_def)
  ultimately show ?thesis using cs_okD(1,2) [OF assms(1)] assms(3-5) by (simp add: cs_ok_def)
qed

lemma upd_mutex_same: "i < length es \<Longrightarrow> upd_mutex i (cs_mutex (es ! i)) es = es"
  by (simp add: upd_mutex_def)

lemma goto_same_ok:
  assumes "cs_ok st" "entry_of cs i (g_critical_sections st)" "entry_in pc (g_critical_sections st)"
    "\<And>c. leaving pc c = leaving (cs_at st t) c"
  shows "cs_ok (goto_pc t pc st)"
  by (rule move_ok [OF assms(1-3), where t = t and m = "cs_mutex (g_critical_sections st ! i)" and k = "inside st t cs"])
    (use assms cs_okD(4,5) [OF assms(1,2)] in \<open>auto simp: goto_pc_def upd_mutex_same entry_of_def\<close>)

lemma enter_lock_ok:
  assumes "cs_ok st" "cs_at st t = Locking tryit cs i" "enter_lock t tryit cs i st = Some st'"
  shows "cs_ok st'"
proof -
  have i: "entry_of cs i (g_critical_sections st)" using cs_okD(2) [OF assms(1), of t] assms(2) by simp
  show ?thesis
  proof (cases "mutex_lock t (cs_mutex (g_critical_sections st ! i))")
    case None
    then have "st' = goto_pc t Idle st" using assms(3) by (simp add: enter_lock_def split: if_splits)
    then show ?thesis using goto_same_ok [OF assms(1) i, of Idle t] assms(2) by (simp add: leaving_def)
  next
    case (Some m)
    then have st': "st' = now_inside t cs (goto_pc t Idle (st\<lparr>g_critical_sections := upd_mutex i m (g_critical_sections st)\<rparr>))"
      using assms(3) by (simp add: enter_lock_def)
    have d: "mutex_depth m u = inside st u cs + leaving (cs_at st u) cs + (if u = t then 1 else 0)" for u
      using mutex_lock_depth [OF Some] cs_okD(4) [OF assms(1) i] by simp
    show ?thesis
      by (rule move_ok [OF assms(1) i, of Idle st' m t "inside st t cs + 1"])
        (use d assms(2) mutex_saneI(1) [OF Some] in \<open>auto simp: st' now_inside_def goto_pc_def leaving_def fun_upd_def\<close>)
  qed
qed

lemma leave_lookup_ok:
  assumes "cs_ok st" "cs_at st t = Idle" "0 < inside st t cs"
  shows "cs_ok (leave_lookup t cs st)"
proof -
  obtain i where i: "entry_of cs i (g_critical_sections st)" using cs_okD(3) [OF assms(1,3)] by blast
  have cs: "cs \<noteq> 0" using i by (simp add: entry_of_def)
  have f: "find_cs_entry cs (g_critical_sections st) = Some i"
    by (rule find_own_entry [OF cs_okD(1) [OF assms(1)] i])
  show ?thesis
    by (rule move_ok [OF assms(1) i, where pc = "Unlocking cs i" and t = t and m = "cs_mutex (g_critical_sections st ! i)" and k = "inside st t cs - 1"])
      (use i f cs assms(2,3) cs_okD(4,5) [OF assms(1) i] in
        \<open>auto simp: leave_lookup_def now_outside_def goto_pc_def upd_mutex_same leaving_def entry_of_def fun_upd_def\<close>)
qed

lemma leave_unlock_ok:
  assumes "cs_ok st" "cs_at st t = Unlocking cs i"
  shows "cs_ok (leave_unlock t i st)"
proof -
  have i: "entry_of cs i (g_critical_sections st)" using cs_okD(2) [OF assms(1), of t] assms(2) by simp
  have d: "mutex_depth (cs_mutex (g_critical_sections st ! i)) u = inside st u cs + leaving (cs_at st u) cs" for u
    by (rule cs_okD(4) [OF assms(1) i])
  have "0 < mutex_depth (cs_mutex (g_critical_sections st ! i)) t" using d [of t] assms(2) by (simp add: leaving_def)
  from mutex_unlock_depth [OF this] show ?thesis
    by (intro move_ok [OF assms(1) i, where pc = Idle and t = t and m = "mutex_unlock t (cs_mutex (g_critical_sections st ! i))" and k = "inside st t cs"])
      (use d assms(2) mutex_saneI(2) [OF cs_okD(5) [OF assms(1) i]] in \<open>auto simp: leave_unlock_def goto_pc_def leaving_def\<close>)
qed

lemma enter_lookup_ok:
  assumes "cs_ok st" "cs_at st t = Idle" "find_cs_entry cs (g_critical_sections st) \<noteq> None"
  shows "cs_ok (enter_lookup t tryit cs st)"
proof -
  obtain i where f: "find_cs_entry cs (g_critical_sections st) = Some i" using assms(3) by blast
  note i = find_cs_entry_Some [OF f]
  have "cs_ok (goto_pc t (Locking tryit cs i) st)"
    by (rule goto_same_ok [OF assms(1) i]) (use i assms(2) in \<open>auto simp: leaving_def\<close>)
  then show ?thesis using f i by (simp add: enter_lookup_def entry_of_def)
qed

lemma reach_cs_ok: "cs_reach n st \<Longrightarrow> cs_ok st"
proof (induction rule: cs_reach.induct)
  case cs_start
  then show ?case by (auto simp: cs_ok_def start_cs_def unique_entries_def entry_of_def no_entry_def)
next
  case (cs_step st t a st')
  show ?case
  proof (cases a)
    case (InitializeCs cs)
    then show ?thesis using cs_step initialize_ok [of st cs] by (auto split: if_splits)
  next
    case (EnterCs tryit cs)
    then show ?thesis using cs_step enter_lookup_ok [of st t cs] by (auto split: if_splits)
  next
    case (LeaveCs cs)
    then show ?thesis using cs_step leave_lookup_ok [of st t cs] by (auto split: if_splits)
  next
    case (DeleteCs cs)
    then show ?thesis using cs_step delete_ok [of st cs] by (auto split: if_splits)
  next
    case GoOn
    then show ?thesis using cs_step cs_okD(2) [of st t] enter_lock_ok [of st t] leave_unlock_ok [of st t]
      by (cases "cs_at st t") auto
  qed
qed



text \<open>
  Outside those rules. When all entries are taken, initializing another critical section reports success, and
  whoever enters it is let in without a lock.
\<close>

lemma full_table_excludes_nobody:
  assumes "list_all cs_used (g_critical_sections st)" "cs \<noteq> 0" "find_cs_entry cs (g_critical_sections st) = None" "cs_at st t = Idle"
  shows "cs_section t (InitializeCs cs) st = Some st \<and>
    (\<exists>st1. cs_section t (EnterCs False cs) st = Some st1 \<and>
      cs_section t GoOn st1 = Some (now_inside t cs st))"
proof -
  have none: "find (\<lambda>i. \<not> cs_used (g_critical_sections st ! i)) [0..<length (g_critical_sections st)] = None"
    using assms(1) by (simp add: find_None_iff list_all_length)
  have "(cs_at st)(t := Idle) = cs_at st" using assms(4) by auto
  then show ?thesis using assms(2-4) none
    by (simp add: alloc_cs_entry_def enter_lookup_def enter_alloc_def goto_pc_def now_inside_def)
qed

text \<open>
  Looking up and allocating are two sections: two threads that enter a critical section without an entry
  allocate one each, and both are inside.
\<close>

definition run_cs :: "(nat \<times> cs_action) list \<Rightarrow> cs_state \<Rightarrow> cs_state" where
  "run_cs as st = fold (\<lambda>(t, a) st. case cs_section t a st of None \<Rightarrow> st | Some st' \<Rightarrow> st') as st"

lemma entering_twice_allocates_twice:
  "inside (run_cs [(5, EnterCs False 100), (6, EnterCs False 100), (5, GoOn), (6, GoOn), (5, GoOn), (6, GoOn)] (start_cs 2)) 5 100 = 1"
  "inside (run_cs [(5, EnterCs False 100), (6, EnterCs False 100), (5, GoOn), (6, GoOn), (5, GoOn), (6, GoOn)] (start_cs 2)) 6 100 = 1"
  by code_simp+

section \<open>Slim reader/writer locks\<close>

text \<open>
  A \<open>std::shared_mutex\<close> has a writer or readers. Unlocking without a lock is undefined in C++, which the
  state records.
\<close>

record InternalSrwLock =
  srw_used :: bool
  srw_writer :: "nat option"
  srw_readers :: "nat list"

record srw_state =
  g_srw_pool :: "InternalSrwLock list"
  g_srw_map :: "u64 \<Rightarrow> nat option"
  srw_undefined :: bool

definition get_or_create_srw :: "u64 \<Rightarrow> srw_state \<Rightarrow> nat option \<times> srw_state" where
  "get_or_create_srw ptr st =
     (case g_srw_map st ptr of
        Some i \<Rightarrow> (Some i, st)
      | None \<Rightarrow>
          (case find (\<lambda>i. \<not> srw_used (g_srw_pool st ! i)) [0..<length (g_srw_pool st)] of
             Some i \<Rightarrow> (Some i, st\<lparr>g_srw_pool := (g_srw_pool st)[i := (g_srw_pool st ! i)\<lparr>srw_used := True\<rparr>],
                                  g_srw_map := (g_srw_map st)(ptr \<mapsto> i)\<rparr>)
           | None \<Rightarrow> (None, st)))"

definition upd_srw :: "nat \<Rightarrow> nat option \<Rightarrow> nat list \<Rightarrow> srw_state \<Rightarrow> srw_state" where
  "upd_srw i w rs st = st\<lparr>g_srw_pool := (g_srw_pool st)[i := (g_srw_pool st ! i)\<lparr>srw_writer := w, srw_readers := rs\<rparr>]\<rparr>"

definition tl_AcquireSRWLockExclusive :: "nat \<Rightarrow> u64 \<Rightarrow> srw_state \<Rightarrow> srw_state option" where
  "tl_AcquireSRWLockExclusive t ptr st =
     (case get_or_create_srw ptr st of
        (None, st1) \<Rightarrow> Some st1
      | (Some i, st1) \<Rightarrow>
          let l = g_srw_pool st1 ! i in
          if srw_writer l = None \<and> srw_readers l = [] then Some (upd_srw i (Some t) [] st1) else None)"

definition tl_ReleaseSRWLockExclusive :: "nat \<Rightarrow> u64 \<Rightarrow> srw_state \<Rightarrow> srw_state" where
  "tl_ReleaseSRWLockExclusive t ptr st =
     (case get_or_create_srw ptr st of
        (None, st1) \<Rightarrow> st1
      | (Some i, st1) \<Rightarrow>
          let l = g_srw_pool st1 ! i in
          if srw_writer l = Some t then upd_srw i None (srw_readers l) st1 else st1\<lparr>srw_undefined := True\<rparr>)"

definition tl_AcquireSRWLockShared :: "nat \<Rightarrow> u64 \<Rightarrow> srw_state \<Rightarrow> srw_state option" where
  "tl_AcquireSRWLockShared t ptr st =
     (case get_or_create_srw ptr st of
        (None, st1) \<Rightarrow> Some st1
      | (Some i, st1) \<Rightarrow>
          let l = g_srw_pool st1 ! i in
          if srw_writer l = None then Some (upd_srw i None (t # srw_readers l) st1) else None)"

definition tl_ReleaseSRWLockShared :: "nat \<Rightarrow> u64 \<Rightarrow> srw_state \<Rightarrow> srw_state" where
  "tl_ReleaseSRWLockShared t ptr st =
     (case get_or_create_srw ptr st of
        (None, st1) \<Rightarrow> st1
      | (Some i, st1) \<Rightarrow>
          let l = g_srw_pool st1 ! i in
          if t \<in> set (srw_readers l) then upd_srw i (srw_writer l) (remove1 t (srw_readers l)) st1 else st1\<lparr>srw_undefined := True\<rparr>)"

definition tl_TryAcquireSRWLockExclusive :: "nat \<Rightarrow> u64 \<Rightarrow> srw_state \<Rightarrow> bool \<times> srw_state" where
  "tl_TryAcquireSRWLockExclusive t ptr st =
     (if ptr = 0 then (True, st)
      else case get_or_create_srw ptr st of
        (None, st1) \<Rightarrow> (True, st1)
      | (Some i, st1) \<Rightarrow>
          let l = g_srw_pool st1 ! i in
          if srw_writer l = None \<and> srw_readers l = [] then (True, upd_srw i (Some t) [] st1) else (False, st1))"

definition start_srw :: "nat \<Rightarrow> srw_state" where
  "start_srw n = \<lparr>g_srw_pool = replicate n \<lparr>srw_used = False, srw_writer = None, srw_readers = []\<rparr>, g_srw_map = \<lambda>_. None, srw_undefined = False\<rparr>"

text \<open>
  Looking a lock up is a section of its own; since entries stay, looking it up again gives the same, so that
  the two sections of a call may be taken together.
\<close>

lemma srw_lookup:
  "get_or_create_srw ptr st = (Some i, st1) \<Longrightarrow> g_srw_map st1 ptr = Some i"
  "g_srw_map st ptr = Some i \<Longrightarrow> get_or_create_srw ptr st = (Some i, st)"
  "get_or_create_srw q st = (x, st1) \<Longrightarrow> g_srw_map st ptr = Some i \<Longrightarrow> g_srw_map st1 ptr = Some i"
  by (auto simp: get_or_create_srw_def split: option.splits if_splits)

lemma looked_up_again: "get_or_create_srw ptr st = (Some i, st1) \<Longrightarrow> get_or_create_srw q st1 = (r, st2) \<Longrightarrow> get_or_create_srw ptr st2 = (Some i, st2)"
  by (rule srw_lookup(2), rule srw_lookup(3), assumption, rule srw_lookup(1))

section \<open>Exclusion by slim locks\<close>

text \<open>The histories of a guest that releases what it was given; \<open>X\<close> and \<open>S\<close> say who was given what.\<close>

inductive srw_reach :: "nat \<Rightarrow> srw_state \<Rightarrow> (nat \<Rightarrow> u64 \<Rightarrow> bool) \<Rightarrow> (nat \<Rightarrow> u64 \<Rightarrow> nat) \<Rightarrow> bool" for n where
  srw_start: "srw_reach n (start_srw n) (\<lambda>_ _. False) (\<lambda>_ _. 0)"
| srw_exclusive: "srw_reach n st X S \<Longrightarrow> tl_AcquireSRWLockExclusive t p st = Some st' \<Longrightarrow> srw_reach n st' (X(t := (X t)(p := True))) S"
| srw_try: "srw_reach n st X S \<Longrightarrow> p \<noteq> 0 \<Longrightarrow> tl_TryAcquireSRWLockExclusive t p st = (ok, st') \<Longrightarrow>
    srw_reach n st' (X(t := (X t)(p := X t p \<or> ok))) S"
| srw_release: "srw_reach n st X S \<Longrightarrow> X t p \<Longrightarrow> srw_reach n (tl_ReleaseSRWLockExclusive t p st) (X(t := (X t)(p := False))) S"
| srw_shared: "srw_reach n st X S \<Longrightarrow> tl_AcquireSRWLockShared t p st = Some st' \<Longrightarrow> srw_reach n st' X (S(t := (S t)(p := S t p + 1)))"
| srw_release_shared: "srw_reach n st X S \<Longrightarrow> 0 < S t p \<Longrightarrow>
    srw_reach n (tl_ReleaseSRWLockShared t p st) X (S(t := (S t)(p := S t p - 1)))"

definition srw_full :: "srw_state \<Rightarrow> bool" where
  "srw_full st \<longleftrightarrow> list_all srw_used (g_srw_pool st)"

definition lock_is :: "InternalSrwLock \<Rightarrow> (nat \<Rightarrow> bool) \<Rightarrow> (nat \<Rightarrow> nat) \<Rightarrow> bool" where
  "lock_is l X S \<longleftrightarrow> (\<forall>t. srw_writer l = Some t \<longleftrightarrow> X t) \<and> (\<forall>t. count_list (srw_readers l) t = S t) \<and>
     (srw_writer l \<noteq> None \<longrightarrow> srw_readers l = [])"

definition srw_ok :: "srw_state \<Rightarrow> (nat \<Rightarrow> u64 \<Rightarrow> bool) \<Rightarrow> (nat \<Rightarrow> u64 \<Rightarrow> nat) \<Rightarrow> bool" where
  "srw_ok st X S \<longleftrightarrow>
     (\<forall>p i. g_srw_map st p = Some i \<longrightarrow> i < length (g_srw_pool st) \<and> srw_used (g_srw_pool st ! i) \<and>
        lock_is (g_srw_pool st ! i) (\<lambda>t. X t p) (\<lambda>t. S t p)) \<and>
     (\<forall>p q i. g_srw_map st p = Some i \<and> g_srw_map st q = Some i \<longrightarrow> p = q) \<and>
     (\<forall>i < length (g_srw_pool st). \<not> srw_used (g_srw_pool st ! i) \<longrightarrow> srw_writer (g_srw_pool st ! i) = None \<and> srw_readers (g_srw_pool st ! i) = []) \<and>
     (\<forall>p t. g_srw_map st p = None \<and> (X t p \<or> 0 < S t p) \<longrightarrow> srw_full st) \<and>
     \<not> srw_undefined st"

lemma srw_okD:
  assumes "srw_ok st X S"
  shows "g_srw_map st p = Some i \<Longrightarrow> i < length (g_srw_pool st)" "g_srw_map st p = Some i \<Longrightarrow> srw_used (g_srw_pool st ! i)"
    "g_srw_map st p = Some i \<Longrightarrow> lock_is (g_srw_pool st ! i) (\<lambda>t. X t p) (\<lambda>t. S t p)"
    "g_srw_map st p = Some i \<Longrightarrow> g_srw_map st q = Some i \<Longrightarrow> p = q"
    "i < length (g_srw_pool st) \<Longrightarrow> \<not> srw_used (g_srw_pool st ! i) \<Longrightarrow> srw_writer (g_srw_pool st ! i) = None \<and> srw_readers (g_srw_pool st ! i) = []"
    "g_srw_map st p = None \<Longrightarrow> X t p \<or> 0 < S t p \<Longrightarrow> srw_full st" "\<not> srw_undefined st"
  using assms unfolding srw_ok_def by blast+

lemma srw_full_find: "srw_full st \<longleftrightarrow> find (\<lambda>i. \<not> srw_used (g_srw_pool st ! i)) [0..<length (g_srw_pool st)] = None"
  by (auto simp: srw_full_def list_all_length find_None_iff)

lemma get_or_create_ok:
  assumes "srw_ok st X S" "get_or_create_srw ptr st = (r, st1)"
  shows "srw_ok st1 X S" "r = None \<Longrightarrow> st1 = st \<and> g_srw_map st ptr = None \<and> srw_full st"
    "r = Some i \<Longrightarrow> g_srw_map st1 ptr = Some i"
proof -
  show "r = None \<Longrightarrow> st1 = st \<and> g_srw_map st ptr = None \<and> srw_full st" "r = Some i \<Longrightarrow> g_srw_map st1 ptr = Some i"
    using assms(2) by (auto simp: get_or_create_srw_def srw_full_find split: option.splits)
  show "srw_ok st1 X S"
  proof (cases "g_srw_map st ptr = None \<and> \<not> srw_full st")
    case False
    then have "st1 = st" using assms(2) by (auto simp: get_or_create_srw_def srw_full_find split: option.splits)
    then show ?thesis using assms(1) by simp
  next
    case True
    then obtain i where f: "find (\<lambda>i. \<not> srw_used (g_srw_pool st ! i)) [0..<length (g_srw_pool st)] = Some i"
      by (auto simp: srw_full_find)
    let ?pool = "(g_srw_pool st)[i := (g_srw_pool st ! i)\<lparr>srw_used := True\<rparr>]"
    have st1: "st1 = st\<lparr>g_srw_pool := ?pool, g_srw_map := (g_srw_map st)(ptr \<mapsto> i)\<rparr>"
      using assms(2) True f by (auto simp: get_or_create_srw_def)
    have i: "i < length (g_srw_pool st)" "\<not> srw_used (g_srw_pool st ! i)" using f by (auto simp: find_Some_iff)
    have fresh: "g_srw_map st q \<noteq> Some i" for q using srw_okD(2) [OF assms(1), of q i] i(2) by blast
    have idle: "\<not> X t ptr" "S t ptr = 0" for t using srw_okD(6) [OF assms(1), of ptr t] True by auto
    have "lock_is (?pool ! i) (\<lambda>t. X t ptr) (\<lambda>t. S t ptr)"
      using srw_okD(5) [OF assms(1) i] i(1) idle by (simp add: lock_is_def)
    then have mapped: "j < length ?pool \<and> srw_used (?pool ! j) \<and> lock_is (?pool ! j) (\<lambda>t. X t p) (\<lambda>t. S t p)"
      if "((g_srw_map st)(ptr \<mapsto> i)) p = Some j" for p j
      using that i(1) fresh [of p] srw_okD(1-3) [OF assms(1), of p j] by (cases "p = ptr") auto
    have apart: "p = q" if "((g_srw_map st)(ptr \<mapsto> i)) p = Some j" "((g_srw_map st)(ptr \<mapsto> i)) q = Some j" for p q j
    proof -
      have "q = ptr \<longleftrightarrow> p = ptr" using that fresh [of p] fresh [of q] by (cases "p = ptr"; cases "q = ptr") auto
      then show ?thesis using that srw_okD(4) [OF assms(1), of p j q] by (cases "p = ptr") auto
    qed
    have free: "srw_writer (?pool ! j) = None \<and> srw_readers (?pool ! j) = []" if "j < length ?pool" "\<not> srw_used (?pool ! j)" for j
      using that i(1) srw_okD(5) [OF assms(1), of j] by (cases "j = i") auto
    have full: "srw_full st1" if "((g_srw_map st)(ptr \<mapsto> i)) p = None" "X t p \<or> 0 < S t p" for p t
      using that srw_okD(6) [OF assms(1), of p t] True by (auto split: if_splits)
    have eq: "g_srw_pool st1 = ?pool" "g_srw_map st1 = (g_srw_map st)(ptr \<mapsto> i)" "srw_undefined st1 = srw_undefined st"
      by (simp_all add: st1)
    show ?thesis unfolding srw_ok_def eq using mapped apart free full srw_okD(7) [OF assms(1)] by blast
  qed
qed

definition elsewhere_same :: "u64 \<Rightarrow> (nat \<Rightarrow> u64 \<Rightarrow> 'a) \<Rightarrow> (nat \<Rightarrow> u64 \<Rightarrow> 'a) \<Rightarrow> bool" where
  "elsewhere_same p f g \<longleftrightarrow> (\<forall>t q. q \<noteq> p \<longrightarrow> g t q = f t q)"

lemma elsewhere_same_simps [simp]: "elsewhere_same p f f" "elsewhere_same p f (f(t := (f t)(p := x)))"
  by (auto simp: elsewhere_same_def)

lemma unmapped_ok:
  assumes "srw_ok st X S" "srw_full st" "g_srw_map st p = None" "elsewhere_same p X X'" "elsewhere_same p S S'"
  shows "srw_ok st X' S'"
proof -
  have "lock_is (g_srw_pool st ! i) (\<lambda>t. X' t q) (\<lambda>t. S' t q)" if "g_srw_map st q = Some i" for q i
    using srw_okD(3) [OF assms(1) that] that assms(3-5) by (cases "q = p") (auto simp: elsewhere_same_def)
  then show ?thesis using assms(1,2) unfolding srw_ok_def by blast
qed

lemma upd_srw_ok:
  assumes "srw_ok st X S" "g_srw_map st p = Some i" "elsewhere_same p X X'" "elsewhere_same p S S'"
    and "lock_is \<lparr>srw_used = True, srw_writer = w, srw_readers = rs\<rparr> (\<lambda>t. X' t p) (\<lambda>t. S' t p)"
  shows "srw_ok (upd_srw i w rs st) X' S'"
proof -
  let ?l = "(g_srw_pool st ! i)\<lparr>srw_writer := w, srw_readers := rs\<rparr>"
  let ?pool = "(g_srw_pool st)[i := ?l]"
  have i: "i < length (g_srw_pool st)" "srw_used (g_srw_pool st ! i)" using srw_okD(1,2) [OF assms(1,2)] by auto
  have mapped: "j < length ?pool \<and> srw_used (?pool ! j) \<and> lock_is (?pool ! j) (\<lambda>t. X' t q) (\<lambda>t. S' t q)" if q: "g_srw_map st q = Some j" for q j
  proof (cases "q = p")
    case True
    then show ?thesis using q assms(2,5) i by (simp add: lock_is_def)
  next
    case False
    then have "j \<noteq> i" using srw_okD(4) [OF assms(1) q, of p] assms(2) by auto
    then show ?thesis using srw_okD(1-3) [OF assms(1) q] False assms(3,4) by (simp add: elsewhere_same_def)
  qed
  have free: "srw_writer (?pool ! j) = None \<and> srw_readers (?pool ! j) = []" if "j < length ?pool" "\<not> srw_used (?pool ! j)" for j
    using that i srw_okD(5) [OF assms(1), of j] by (cases "j = i") auto
  have full: "list_all srw_used ?pool" if "srw_full st" using that i by (auto simp: srw_full_def list_all_length nth_list_update)
  have unmapped: "list_all srw_used ?pool" if "g_srw_map st q = None" "X' t q \<or> 0 < S' t q" for q t
    using that assms(2-4) srw_okD(6) [OF assms(1), of q t] full by (cases "q = p") (auto simp: elsewhere_same_def)
  show ?thesis unfolding srw_ok_def upd_srw_def srw_full_def
    using mapped free unmapped srw_okD(4,7) [OF assms(1)] by simp blast
qed

lemma srw_used_eta: "srw_used l \<Longrightarrow> \<lparr>srw_used = True, srw_writer = srw_writer l, srw_readers = srw_readers l\<rparr> = l"
  by simp

lemma count_list_remove1: "t \<in> set xs \<Longrightarrow> count_list (remove1 t xs) u = count_list xs u - (if u = t then 1 else 0)"
  by (induction xs) (auto simp: count_list_0_iff [symmetric] gr0_conv_Suc)

text \<open>A call in which the lock was found or not.\<close>

lemma srw_call_ok:
  assumes "srw_ok st X S" "get_or_create_srw p st = (r, st1)" "elsewhere_same p X X'" "elsewhere_same p S S'"
    and "\<And>i. r = Some i \<Longrightarrow> lock_is (g_srw_pool st1 ! i) (\<lambda>t. X t p) (\<lambda>t. S t p) \<Longrightarrow>
      lock_is \<lparr>srw_used = True, srw_writer = w i, srw_readers = rs i\<rparr> (\<lambda>t. X' t p) (\<lambda>t. S' t p)"
  shows "srw_ok (case r of None \<Rightarrow> st1 | Some i \<Rightarrow> upd_srw i (w i) (rs i) st1) X' S'"
proof (cases r)
  case None
  then show ?thesis using get_or_create_ok(1,2) [OF assms(1,2)] unmapped_ok [OF assms(1) _ _ assms(3,4)] by simp
next
  case (Some i)
  have ok: "srw_ok st1 X S" and m: "g_srw_map st1 p = Some i" using get_or_create_ok(1,3) [OF assms(1,2)] Some by auto
  from upd_srw_ok [OF ok m assms(3,4) assms(5) [OF Some srw_okD(3) [OF ok m]]] show ?thesis using Some by simp
qed

lemma srw_exclusive_ok:
  assumes "srw_ok st X S" "tl_AcquireSRWLockExclusive t p st = Some st'"
  shows "srw_ok st' (X(t := (X t)(p := True))) S"
proof -
  obtain r st1 where g: "get_or_create_srw p st = (r, st1)" by force
  have "st' = (case r of None \<Rightarrow> st1 | Some i \<Rightarrow> upd_srw i (Some t) [] st1)"
    "\<And>i. r = Some i \<Longrightarrow> srw_writer (g_srw_pool st1 ! i) = None \<and> srw_readers (g_srw_pool st1 ! i) = []"
    using assms(2) g by (auto simp: tl_AcquireSRWLockExclusive_def Let_def split: option.splits if_splits)
  then show ?thesis
    using srw_call_ok [OF assms(1) g, of "X(t := (X t)(p := True))" S "\<lambda>_. Some t" "\<lambda>_. []"] by (auto simp: lock_is_def)
qed

lemma srw_try_ok:
  assumes "srw_ok st X S" "tl_TryAcquireSRWLockExclusive t p st = (done, st')" "p \<noteq> 0"
  shows "srw_ok st' (X(t := (X t)(p := X t p \<or> done))) S"
proof -
  obtain r st1 where g: "get_or_create_srw p st = (r, st1)" by force
  show ?thesis
  proof (cases "tl_AcquireSRWLockExclusive t p st")
    case None
    then have "st' = st1 \<and> \<not> done" using assms(2,3) g
      by (auto simp: tl_AcquireSRWLockExclusive_def tl_TryAcquireSRWLockExclusive_def Let_def split: option.splits if_splits)
    moreover have "X(t := (X t)(p := X t p)) = X" by simp
    ultimately show ?thesis using get_or_create_ok(1) [OF assms(1) g] by simp
  next
    case (Some st2)
    then have "st' = st2 \<and> done" using assms(2,3) g
      by (auto simp: tl_AcquireSRWLockExclusive_def tl_TryAcquireSRWLockExclusive_def Let_def split: option.splits if_splits)
    then show ?thesis using srw_exclusive_ok [OF assms(1) Some] by simp
  qed
qed

lemma srw_release_ok:
  assumes "srw_ok st X S" "X t p"
  shows "srw_ok (tl_ReleaseSRWLockExclusive t p st) (X(t := (X t)(p := False))) S"
proof -
  obtain r st1 where g: "get_or_create_srw p st = (r, st1)" by force
  have w: "srw_writer (g_srw_pool st1 ! i) = Some t" if "r = Some i" for i
    using srw_okD(3) [OF get_or_create_ok(1,3) [OF assms(1) g], of i] assms(2) that by (auto simp: lock_is_def)
  then have "tl_ReleaseSRWLockExclusive t p st = (case r of None \<Rightarrow> st1 | Some i \<Rightarrow> upd_srw i None (srw_readers (g_srw_pool st1 ! i)) st1)"
    using g by (auto simp: tl_ReleaseSRWLockExclusive_def Let_def split: option.splits)
  then show ?thesis
    using w srw_call_ok [OF assms(1) g, of "X(t := (X t)(p := False))" S "\<lambda>_. None" "\<lambda>i. srw_readers (g_srw_pool st1 ! i)"]
    by (fastforce simp: lock_is_def)
qed

lemma srw_shared_ok:
  assumes "srw_ok st X S" "tl_AcquireSRWLockShared t p st = Some st'"
  shows "srw_ok st' X (S(t := (S t)(p := S t p + 1)))"
proof -
  obtain r st1 where g: "get_or_create_srw p st = (r, st1)" by force
  have "st' = (case r of None \<Rightarrow> st1 | Some i \<Rightarrow> upd_srw i None (t # srw_readers (g_srw_pool st1 ! i)) st1)"
    "\<And>i. r = Some i \<Longrightarrow> srw_writer (g_srw_pool st1 ! i) = None"
    using assms(2) g by (auto simp: tl_AcquireSRWLockShared_def Let_def split: option.splits if_splits)
  then show ?thesis
    using srw_call_ok [OF assms(1) g, of X "S(t := (S t)(p := S t p + 1))" "\<lambda>_. None" "\<lambda>i. t # srw_readers (g_srw_pool st1 ! i)"]
    by (auto simp: lock_is_def)
qed

lemma srw_release_shared_ok:
  assumes "srw_ok st X S" "0 < S t p"
  shows "srw_ok (tl_ReleaseSRWLockShared t p st) X (S(t := (S t)(p := S t p - 1)))"
proof -
  obtain r st1 where g: "get_or_create_srw p st = (r, st1)" by force
  have l: "lock_is (g_srw_pool st1 ! i) (\<lambda>t. X t p) (\<lambda>t. S t p)" if "r = Some i" for i
    using srw_okD(3) [OF get_or_create_ok(1,3) [OF assms(1) g], of i] that by simp
  have m: "t \<in> set (srw_readers (g_srw_pool st1 ! i))" "srw_writer (g_srw_pool st1 ! i) = None" if "r = Some i" for i
    using l [OF that] assms(2) count_list_0_iff [of "srw_readers (g_srw_pool st1 ! i)" t] by (auto simp: lock_is_def)
  then have "tl_ReleaseSRWLockShared t p st =
      (case r of None \<Rightarrow> st1 | Some i \<Rightarrow> upd_srw i None (remove1 t (srw_readers (g_srw_pool st1 ! i))) st1)"
    using g by (auto simp: tl_ReleaseSRWLockShared_def Let_def split: option.splits)
  then show ?thesis
    using m srw_call_ok [OF assms(1) g, of X "S(t := (S t)(p := S t p - 1))" "\<lambda>_. None" "\<lambda>i. remove1 t (srw_readers (g_srw_pool st1 ! i))"]
    by (auto simp: lock_is_def count_list_remove1)
qed

lemma reach_srw_ok: "srw_reach n st X S \<Longrightarrow> srw_ok st X S"
proof (induction rule: srw_reach.induct)
  case srw_start
  then show ?case by (auto simp: srw_ok_def start_srw_def)
next
  case srw_exclusive
  show ?case by (rule srw_exclusive_ok [OF srw_exclusive(3,2)])
next
  case srw_try
  show ?case by (rule srw_try_ok [OF srw_try(4,3,2)])
next
  case srw_release
  show ?case by (rule srw_release_ok [OF srw_release(3,2)])
next
  case srw_shared
  show ?case by (rule srw_shared_ok [OF srw_shared(3,2)])
next
  case srw_release_shared
  show ?case by (rule srw_release_shared_ok [OF srw_release_shared(3,2)])
qed



section \<open>One-time initialization\<close>

text \<open>
  \<open>state\<close>: the word of the guest, 2 when done. \<open>readable\<close>, \<open>outputs\<close> and \<open>writable\<close> tell which accesses to
  the memory of the guest succeed. The results are the error and, on success, whether the caller is to do it, and
  the word afterwards.
\<close>

definition kGenFailure :: u32 where "kGenFailure = 1067"

definition tl_InitOnceBeginInitialize :: "u32 \<Rightarrow> bool \<Rightarrow> bool \<Rightarrow> bool \<Rightarrow> u64 \<Rightarrow> u32 \<times> bool option \<times> u64" where
  "tl_InitOnceBeginInitialize fl readable outputs writable state =
     (if \<not> readable then (kInvalidParameter, None, state)
      else if fl AND 1 \<noteq> 0 then
        (if state = 2 then (if \<not> outputs then (kInvalidParameter, None, state) else (kSuccess, Some False, state))
         else (kGenFailure, None, state))
      else if state = 2 then (if \<not> outputs then (kInvalidParameter, None, state) else (kSuccess, Some False, state))
      else if \<not> outputs \<or> \<not> writable then (kInvalidParameter, None, state)
      else (kSuccess, Some True, 1))"

definition tl_InitOnceComplete :: "u64 \<Rightarrow> bool \<Rightarrow> u64 \<Rightarrow> u32 \<times> u64" where
  "tl_InitOnceComplete init_once writable state =
     (if init_once \<noteq> 0 \<and> \<not> writable then (kInvalidParameter, state)
      else (kSuccess, if init_once \<noteq> 0 then 2 else state))"

text \<open>Two threads that begin before either completes are both told to initialize.\<close>

lemma initialized_twice:
  "tl_InitOnceBeginInitialize 0 True True True 0 = (kSuccess, Some True, 1)"
  "tl_InitOnceBeginInitialize 0 True True True 1 = (kSuccess, Some True, 1)"
  by (simp_all add: tl_InitOnceBeginInitialize_def)

end
