(* ===== verification/Spec2Isabelle.thy ===== *)
theory Spec2Isabelle
  imports Image_Contents Sample_Image Import_Resolver Dll_Overrides Error_Map Sha256 Codepages Unicode
    Prologues Dispatch_Properties Graph_Correct Virtual_Properties Guest_Heap_Correct Resource_Manifest Sync_Calls Sync_Locks
begin

text \<open>
  A model of TradutorLinux, a runtime that loads Windows PE32+ programs on Linux and serves the Win32
  interface to them. The theories follow the files under \<open>src/\<close>; each definition carries the name
  of the function, type or constant it translates.

  \<^bold>\<open>How the parts fit.\<close> The reader (\<open>pe_reader.cpp\<close>) turns the bytes of a file into a \<open>PeInfo\<close>. The
  mapper (\<open>image_mapper.cpp\<close>) reserves memory for it, copies headers and sections, relocates and
  protects the pages. The resolver (\<open>import_resolver.cpp\<close>) looks up each imported symbol in the
  registry of built-in modules (\<open>module.cpp\<close>), following forwarders, and patches the addresses into
  the mapped image. The rest serves the running program: text and code pages (\<open>util/\<close>) and error
  numbers. The theories at the end of this file state what holds of the composition.

  \<^bold>\<open>Theories.\<close>
  \<^item> \<open>Prelude\<close>: bytes (\<open>8 word\<close>), unsigned integers of the program as naturals below \<open>2 ^ w\<close> with the
    truncations written out, little-endian reads, the loop combinator \<open>foldE\<close> for loops that may
    return early with an error.
  \<^item> \<open>Pe_Model\<close>, \<open>Pe_Reader\<close>, \<open>Pe_Exports\<close>, \<open>Pe_Imports\<close>, \<open>Pe_Unwind\<close>, \<open>Pe_Exceptions\<close>, \<open>Pe_Tls_Reloc\<close>,
    \<open>Pe_Parser\<close>: \<open>src/pe/pe_reader.cpp\<close>. The parser's member state is the \<open>PeInfo\<close> passed along; a
    \<open>ParseResult\<close> is a sum, with the status and a constructor for the message on the left. Each
    theory states what a successful parse guarantees of its directory; \<open>Pe_Parser\<close> puts them
    together in \<open>wf_headers\<close> and \<open>wf_directories\<close>.
  \<^item> \<open>Image_Model\<close>, \<open>Image_Relocations\<close>, \<open>Image_Mapper\<close>: \<open>src/loader/image_mapper.cpp\<close>. Memory is a list
    of bytes with a protection for each page; the page size and the kernel's answers to \<open>mmap\<close> and
    \<open>mprotect\<close> (the record \<open>Os\<close>) are parameters. \<open>Image_Contents\<close> relates the mapped memory to the
    file, \<open>Sample_Image\<close> is a complete small file used by the witnesses.
  \<^item> \<open>Module_Registry\<close>: \<open>src/loader/module.cpp\<close>, on the locale \<open>named_registry\<close> of \<open>Named_Registry\<close>.
    Forwarders are followed at most \<open>kMaxForwarderDepth\<close> = 32 deep, the program's own limit, which
    is the fuel of \<open>resolve_forwarder\<close>.
  \<^item> \<open>Import_Resolver\<close>: \<open>src/loader/import_resolver.cpp\<close>, on the locale \<open>patcher\<close> of \<open>Image_Patcher\<close>. The
    files beside the executable are a parameter, a function from names to contents.
  \<^item> \<open>Dll_Overrides\<close> (\<open>dll_overrides.cpp\<close>), \<open>Error_Map\<close> (\<open>error_map.hpp\<close>), \<open>Sha256\<close> (\<open>sha256.cpp\<close>), \<open>Codepages\<close>
    and \<open>Unicode\<close> (\<open>unicode.cpp\<close>), \<open>Basics\<close> (\<open>basics.hpp\<close>).
  \<^item> \<open>Guest_Memory\<close>: \<open>runtime/core/memory_validator.cpp\<close>. The memory of the guest is a function from
    addresses to bytes; what \<open>process_vm_readv\<close>, \<open>/proc/self/mem\<close> and \<open>/proc/self/maps\<close> answer is the
    record \<open>Kernel\<close>. \<open>scan_cstring\<close> is the byte-by-byte reference of the copies in pieces.
  \<^item> \<open>Unwinder\<close>, \<open>Unwinder_Correct\<close>, \<open>Prologues\<close>: the first half of \<open>runtime/seh/unwind.cpp\<close>. \<open>Prologues\<close>
    runs the prologue that unwind data describes; unwinding undoes it.
  \<^item> \<open>Exception_Dispatch\<close>, \<open>Dispatch_Properties\<close>: the second half. What handlers, filters and
    callbacks of the guest do to the record, the context and the memory is the record \<open>guest_code\<close>,
    without assumptions; the passes over frames take the number of frames the code allows.
  \<^item> \<open>Module_Graph\<close>: \<open>loader/module_graph.cpp\<close>, with the files of the host, the kernel and the results of
    guest functions in the record \<open>graph_env\<close>. \<open>Graph_Detach\<close> shows what detaching leaves alone and that
    the bounds on its recursion are enough.
    \<open>Graph_Invariant\<close> has the invariant (counted references, attached dependencies, mapped images,
    unwind data) and detaching; \<open>Graph_Loading\<close> the contract \<open>module_loader\<close> between resolving imports and
    loading, kept by induction on the depth of loads; \<open>Graph_Attach\<close> attaching; \<open>Graph_Properties\<close> the
    operations of the class, the reachable graphs and the equation of \<open>load_pe_module\<close>; \<open>Graph_Correct\<close>
    the properties, with a DLL that is loaded, attached and detached by evaluation.
  \<^item> \<open>Virtual_Memory\<close>: \<open>runtime/ntdll.cpp\<close>, with the kernel in the record \<open>vm_os\<close> and the calls that map
    and unmap in a log. \<open>Virtual_Api\<close>: virtual memory, file mappings, views and encoded pointers of
    \<open>runtime/dlls/kernel32/memory.cpp\<close>. \<open>Virtual_Tables\<close>, \<open>Virtual_Correct\<close>: regions tile an allocation, slots
    do not overlap, the operations act on the map \<open>page_state\<close> from addresses to state and protection;
    \<open>Virtual_Properties\<close>: reachable states and the properties. The hypothesis \<open>honest_api\<close> is the
    documented behaviour of \<open>mmap\<close>: whole free pages, never an empty range.
  \<^item> \<open>Guest_Heap\<close>: the heaps, global and local memory of \<open>runtime/dlls/kernel32/memory.cpp\<close>; the host's
    \<open>malloc\<close> is a parameter, and \<open>hp_undefined\<close> records what C++ leaves undefined. \<open>Guest_Heap_Correct\<close>:
    the invariant under arbitrary writes of the guest, and the heap as a map from addresses to contents.
    The hypothesis \<open>honest_malloc\<close> is what \<open>malloc\<close> documents; requests above \<open>max_request\<close> meet the
    32-bit mask of \<open>HeapAlloc\<close>, and \<open>large_request_truncated\<close> shows what happens to them.
  \<^item> \<open>Resource_Inspector\<close>: \<open>pe/resource_inspector.cpp\<close>. \<open>Resource_Correct\<close>: the walk over the resource
    directory against the tree it walks (\<open>nodes\<close>, bounded by the depth only), spans in the file, the
    agreement of the two readers of version information; \<open>Resource_Manifest\<close>: manifests and version strings
    read back.
  \<^item> \<open>Sync_Objects\<close>, \<open>Sync_Waits\<close>: mutexes, events, semaphores, process handles and completion ports of
    \<open>runtime/dlls/kernel32/sync.cpp\<close>, \<open>process.cpp\<close> and \<open>runtime/core/winapi.cpp\<close>, a call as the composition
    of the sections it runs under a lock. \<open>Sync_Correct\<close>: every interleaving of those sections, with
    books of who took what. \<open>Sync_Calls\<close>: calls are such histories, waiting for several objects, order of
    completion ports. \<open>Sync_Locks\<close>: critical sections, slim reader/writer locks and one-time
    initialization; the hypotheses on the guest (\<open>obeys\<close>, \<open>srw_reach\<close>) are the rules Windows documents, and
    lemmas show what happens outside of them.

  \<^bold>\<open>Bounds and fuel.\<close> Loops over directories take the number of steps the code allows: 4096 thunks
  (\<open>kMaxSymbolsPerDll\<close>), at most 1024 import descriptors and never more than the directory has room
  for, 4096 relocation blocks. Loops without such a bound are functions with a termination proof.

  \<^bold>\<open>Not modelled.\<close> Mutexes and threads (the operations are modelled as sequential), the texts of
  messages, everything the kernel does beyond its answers, and the parts whose work is done by the
  host: window systems, sockets, processes, the C library behind \<open>msvcrt.cpp\<close>. The Rust parsers are a
  second implementation in another language.
\<close>

section \<open>From the file to the mapped image\<close>



text \<open>
  C2: The memory of a mapped image holds the file: where the reader finds an address range in the
  file, the mapper has put the same bytes at that address, for an image that was not displaced
  and, displaced or not, for all bytes outside the sections.
\<close>

theorem mapped_image_holds_file:
  assumes "parse_pe bs = Inr (info, ws)" "map_image os page info bs opt = Inr img" "0 < page"
    and "memory img = Some mem" "rva_to_file_offset bs info rva len = Some off" "k < len"
    and "unmoved img (rva + k)"
  shows "rva + k < image_size img \<and> mem ! (rva + k) = bs ! (off + k)"
proof -
  have "size_of_image info \<le> u32_max" using parse_pe_wf(1) [OF assms(1)] by (simp add: wf_headers_def)
  then show ?thesis by (rule mapped_file_bytes [OF assms(2,3) _ assms(4-7)])
qed

lemma sample_offset: "rva_to_file_offset sample_file sample_info 16 16 = Some 328"
  by (simp add: rva_to_file_offset_def sample_info_def section_end_def section_span_def sample_length)

theorem mapped_image_holds_file_witness: "sample_memory ! 24 = sample_file ! 336"
  using mapped_image_holds_file [OF sample_parsed sample_mapped _ _ sample_offset, of sample_memory 8]
  by (simp add: sample_image_def unmoved_def)


lemma sample_moved_safe: "relocations_safe sample_info (sample_image 0x10000 (- 0x3F0000) moved_memory 1)"
  by (simp add: relocations_safe_def sample_info_def known_types_def reloc_targets_def block_targets_def
      rel_consts safe_target_def patchable_target_def sample_image_def sample_regions_def)

lemma sample_targets: "reloc_targets (relocations sample_info) = [16]"
  by (simp add: sample_info_def reloc_targets_def block_targets_def rel_consts)


text \<open>
  The word at a relocated address is the word of the file plus the displacement, modulo
  \<open>2 ^ 64\<close>, when the relocated words do not overlap.
\<close>

theorem relocated_words:
  assumes "parse_pe bs = Inr (info, ws)" "map_image os page info bs opt = Inr img" "0 < page"
    and "delta img \<noteq> 0" "relocations_safe info img" "separate (reloc_targets (relocations info))"
    and "t \<in> set (reloc_targets (relocations info))" "rva_to_file_offset bs info t 8 = Some off"
    and "memory img = Some mem"
  shows "le64 mem t = unat (word_of_nat (le64 bs off) + delta img)"
proof -
  let ?m = "load_image info bs (regions img) (image_size img)"
  note wf = parse_pe_wf [OF assms(1)]
  have le: "size_of_image info \<le> u32_max" using wf(1) by (simp add: wf_headers_def)
  note lay = mapped_layout [OF assms(2,3)]
  note reg = image_regions_Inr [OF lay(1) assms(3)]
  have "length ?m = image_size img" unfolding lay(2) by (rule load_image_spec(1) [OF reg(1,3,6)])
  then have "\<forall>u \<in> set (reloc_targets (relocations info)). u + 8 \<le> length ?m"
    using assms(5) by (auto simp: relocations_safe_def safe_target_def)
  from le64_relocate_all [OF assms(6,7) this, of "delta img"]
  have "le64 mem t = unat (word_of_nat (le64 ?m t) + delta img)"
    using mapped_relocations(1) [OF assms(2,3) le wf(2) assms(4,5)] assms(9) by simp
  also have "le64 ?m t = le64 bs off"
    by (rule le64_cong) (use loaded_file_bytes(2) [OF lay(1) assms(3) le assms(8)] lay(2) in simp)
  finally show ?thesis .
qed

lemma sample_word: "rva_to_file_offset sample_file sample_info 16 8 = Some 328"
  by (simp add: rva_to_file_offset_def sample_info_def section_end_def section_span_def sample_length)

theorem relocated_words_witness: "le64 moved_memory 16 = unat (word_of_nat (le64 sample_file 328) + - 0x3F0000 :: 64 word)"
  using relocated_words [OF sample_parsed sample_moved _ _ _ _ _ sample_word] sample_moved_safe
  by (simp add: sample_image_def sample_targets separate_def)

text \<open>
  C4: The memory protection of a mapped image. No page is both writable and executable; a page
  that meets neither the headers nor a section is not accessible; a page that meets a writable
  section is writable, and one that meets an accessible section is readable. The sections are
  disjoint, above the headers and inside the image.
\<close>

theorem mapped_image_protected:
  assumes "map_image os page info bs opt = Inr img" "0 < page" "i < image_size img div page"
  shows "wf_image page img \<and> wx_ok (page_prots img ! i) \<and>
    (\<not> touched page (size_of_headers info) (regions img) i \<longrightarrow> page_prots img ! i = PROT_NONE) \<and>
    (\<forall>r \<in> set (regions img). meets r (i * page) (Suc i * page) \<longrightarrow>
       (permissions r = ReadWrite \<longrightarrow> page_prots img ! i = PROT_RW) \<and>
       (permissions r \<noteq> NoAccess \<longrightarrow> prot_read (page_prots img ! i)))"
proof -
  have wf: "wf_image page img" by (rule map_image_wf [OF assms(1,2)])
  have wx: "wx_ok (page_prots img ! i)" using wf assms(3) by (auto simp: wf_image_def)
  note pages = map_image_pages [OF assms]
  have fused: "fused_prot page (size_of_headers info) (regions img) i (page_prots img ! i)"
    if "r \<in> set (regions img)" "meets r (i * page) (Suc i * page)" for r
    using pages that by (auto simp: touched_def split: if_split_asm)
  have "(permissions r = ReadWrite \<longrightarrow> page_prots img ! i = PROT_RW) \<and>
      (permissions r \<noteq> NoAccess \<longrightarrow> prot_read (page_prots img ! i))"
    if "r \<in> set (regions img)" "meets r (i * page) (Suc i * page)" for r
    using fused_prot_writable [OF fused [OF that] that] fused_prot_readable [OF fused [OF that] that] by blast
  moreover have "\<not> touched page (size_of_headers info) (regions img) i \<longrightarrow> page_prots img ! i = PROT_NONE"
    using pages by simp
  ultimately show ?thesis using wf wx by blast
qed

theorem mapped_image_protected_witness: "wf_image 16 (sample_image 0x400000 0 sample_memory 0)"
  using mapped_image_protected [OF sample_mapped, of 0] by (simp add: sample_image_def)

text \<open>
  C5: Which accepted files can be mapped at their preferred address by a kernel that grants the
  memory and every protection: exactly those whose rounded size is at most 2 GiB, whose sections
  do not overlap, and whose relocation directory has both an address and a size or neither.
\<close>

theorem map_image_accepts:
  assumes "parse_pe bs = Inr (info, ws)" "0 < page" "image_base info \<noteq> 0"
    and "mmap_at os (image_base info) (align_up (size_of_image info) page) = Some (image_base info)"
    and "mprotect_ok os = (\<lambda>a n p. True)"
  shows "(\<exists>img. map_image os page info bs 0 = Inr img) \<longleftrightarrow>
    align_up (size_of_image info) page \<le> kMaxSizeOfImage \<and> disjoint_sections info \<and> reloc_consistent info"
  by (rule map_image_total [OF parse_pe_wf(1) [OF assms(1)] assms(2-4)]) (simp add: assms(5))

theorem map_image_accepts_witness: "disjoint_sections sample_info \<and> reloc_consistent sample_info"
  using map_image_accepts [OF sample_parsed, of 16 willing_os] sample_mapped
  by (auto simp: sample_fields willing_os_def align_up_def)

text \<open>
  A finding. The permissions set for a page are those of the whole range that was protected
  with it, so the second page of this image, which holds only code, ends up writable and not
  executable, while \<open>effective_page_permissions\<close> still reports it as executable.
\<close>

theorem code_page_made_writable:
  "\<exists>img. map_image willing_os 2 fused_example_info [] 0x400000 = Inr img \<and>
     page_prots img ! 1 = PROT_RW \<and> effective_page_permissions 2 img 2 = ReadExecute"
  by (rule fused_protection)

section \<open>Imports\<close>

text \<open>
  C6: Inspecting the imports of a file gives one entry for each imported symbol, static imports
  before delayed ones, in the order of the file. A resolved entry has a non-zero address, the one
  of an export that answers the symbol's query in the registry (or the placeholder of a guest DLL
  that exports it); the status of the whole is that of the first entry that failed.
\<close>

theorem inspected_imports_match:
  "matches reg guests (wanted Static (imports' info) @ wanted Delay (delay_imports info))
     (inspect_imports reg info guests)"
  by (rule inspect_imports_matches)


text \<open>The sample image with one import, of \<open>Sleep\<close>, whose slot is the first word of its code section.\<close>

definition sleep_import :: ImportedSymbol where
  "sleep_import = \<lparr>imp_by_ordinal = False, imp_ordinal = 0, imp_name = ''Sleep'', iat_rva = 16\<rparr>"

definition importing_info :: PeInfo where
  "importing_info = sample_info\<lparr>imports' := [\<lparr>dll_name = ''KERNEL32.dll'', symbols = [sleep_import]\<rparr>]\<rparr>"

definition sleep_entry :: ResolvedImport where
  "sleep_entry = (new_entry Static ''KERNEL32.dll'' sleep_import)\<lparr>ri_ordinal := 1, ri_address := 0x7000\<rparr>"

definition bound_memory :: bytes where
  "bound_memory = write_at sample_memory 16 [0, 0x70, 0, 0, 0, 0, 0, 0]"

lemma sample_good: "good_image 16 (sample_image 0x400000 0 sample_memory 0)"
  using map_image_wf [OF sample_mapped] by (simp add: good_image_def)

lemma sleep_inspected: "inspect_imports sample_registry importing_info None =
  \<lparr>rr_status = Resolved, rr_error = None, rr_imports = [sleep_entry]\<rparr>"
  by (simp add: inspect_imports_def inspect_group_def importing_info_def sample_info_def empty_info_def
      inspect_symbol_def is_module_registered_def sample_modules sleep_import_def sleep_found
      sleep_lookup_def empty_result_def push_import_def sleep_entry_def new_entry_def)

lemma sleep_resolved: "resolve_imports willing_os 16 sample_registry (sample_image 0x400000 0 sample_memory 0) importing_info =
  (sample_image 0x400000 0 bound_memory 0, \<lparr>rr_status = Resolved, rr_error = None, rr_imports = [sleep_entry]\<rparr>)"
  by (simp add: resolve_imports_def sleep_inspected needs_patch_def patch_address_def sleep_entry_def
      new_entry_def sleep_import_def address_le_def write_image_bytes_def sample_image_def may_patch_def
      sample_regions_def patch_range_def align_down_def align_up_def mprotect_def willing_os_def
      push_import_def protect_pages_def permissions_for_page_def permissions_of_flags_def
      page_flags_step_def bound_memory_def upt_rec drop_bit_nat_def Let_def)

lemma sleep_slots: "slots [sleep_entry] = [(16, address_le 0x7000)]"
  by (simp add: slots_def needs_patch_def sleep_entry_def new_entry_def sleep_import_def)

lemma sleep_apart: "patcher.apart (slots (rr_imports (inspect_imports sample_registry importing_info None)))"
  by (simp add: sleep_inspected sleep_slots patcher.apart_def)


text \<open>
  Resolving imports changes nothing else: the image keeps its size, stays well-formed with no
  page both writable and executable, and every byte outside the slots is what it was.
\<close>

theorem import_patches_framed:
  assumes "good_image page img" "resolve_imports os page reg img info = (img', result)"
    and "i < length (image_bytes img)"
    and "\<forall>(rva, d) \<in> set (slots (rr_imports (inspect_imports reg info None))). i < rva \<or> rva + length d \<le> i"
  shows "good_image page img' \<and> length (image_bytes img') = length (image_bytes img) \<and>
    image_bytes img' ! i = image_bytes img ! i"
  using resolve_imports_frame [OF assms(1,2)] assms(3,4) by blast

theorem import_patches_framed_witness: "good_image 16 (sample_image 0x400000 0 bound_memory 0) \<and> bound_memory ! 24 = 195"
  using import_patches_framed [OF sample_good sleep_resolved, of 24]
  by (simp add: sleep_inspected sleep_slots image_bytes_def sample_image_def memory_length)
    (simp add: sample_memory_def)

end
